(* ===== verification/Prelude.thy ===== *)
theory Prelude
  imports Main "HOL-Library.Word"
begin

text \<open>
  Shared vocabulary of the development: the fixed-width integer types of the C++ code, the
  error values that its exceptions, exits and undefined reads become, and the generic facts
  on words and lists that the component theories use.
\<close>

unbundle bit_operations_syntax

type_synonym u8 = "8 word"
type_synonym u32 = "32 word"
type_synonym u64 = "64 word"

text \<open>
  \<open>runtime_error\<close> is a thrown \<^verbatim>\<open>std::runtime_error\<close>, \<open>exit_failure\<close> a call of
  \<^verbatim>\<open>std::exit(1)\<close>, \<open>undefined_access\<close> an access outside a vector or array, for which C++
  gives no meaning.
\<close>

datatype cxx_error = runtime_error string | exit_failure string | undefined_access

type_synonym 'a result = "cxx_error + 'a"

fun bind_result :: "'a result \<Rightarrow> ('a \<Rightarrow> 'b result) \<Rightarrow> 'b result" where
  "bind_result (Inl e) f = Inl e"
| "bind_result (Inr a) f = f a"

lemma bind_result_Inr [simp]: "bind_result a Inr = a"
  by (cases a) simp_all

lemma bind_result_Inr_iff:
  "bind_result r f = Inr b \<longleftrightarrow> (\<exists>a. r = Inr a \<and> f a = Inr b)"
  by (cases r) auto

text \<open>Evaluating a chain of bindings from its front, without looking into the continuations.\<close>

lemma bind_result_weak_cong: "a = b \<Longrightarrow> bind_result a f = bind_result b f"
  by simp

subsection \<open>Vectors and loops that may fail\<close>

definition vec_read :: "'a list \<Rightarrow> nat \<Rightarrow> 'a result" where
  "vec_read xs i = (if i < length xs then Inr (xs ! i) else Inl undefined_access)"

definition vec_write :: "'a list \<Rightarrow> nat \<Rightarrow> 'a \<Rightarrow> 'a list result" where
  "vec_write xs i x = (if i < length xs then Inr (xs[i := x]) else Inl undefined_access)"

fun fold_result :: "('s \<Rightarrow> 'a \<Rightarrow> 's result) \<Rightarrow> 's \<Rightarrow> 'a list \<Rightarrow> 's result" where
  "fold_result f s [] = Inr s"
| "fold_result f s (x # xs) = bind_result (f s x) (\<lambda>s'. fold_result f s' xs)"

fun map_result :: "('a \<Rightarrow> 'b result) \<Rightarrow> 'a list \<Rightarrow> 'b list result" where
  "map_result f [] = Inr []"
| "map_result f (x # xs) =
     bind_result (f x) (\<lambda>y. bind_result (map_result f xs) (\<lambda>ys. Inr (y # ys)))"

lemma vec_read_Inr [simp]: "i < length xs \<Longrightarrow> vec_read xs i = Inr (xs ! i)"
  by (simp add: vec_read_def)

lemma vec_write_Inr [simp]: "i < length xs \<Longrightarrow> vec_write xs i x = Inr (xs[i := x])"
  by (simp add: vec_write_def)

lemma vec_write_length: "vec_write xs i x = Inr ys \<Longrightarrow> length ys = length xs"
  by (auto simp: vec_write_def split: if_splits)

lemma fold_result_append:
  "fold_result f s (xs @ ys) = bind_result (fold_result f s xs) (\<lambda>s'. fold_result f s' ys)"
proof (induction xs arbitrary: s)
  case (Cons x xs)
  then show ?case by (cases "f s x") auto
qed simp

lemma fold_result_map: "fold_result f s (map g xs) = fold_result (\<lambda>s x. f s (g x)) s xs"
  by (induction xs arbitrary: s) auto

lemma fold_result_keeps:
  assumes "\<And>x s s'. f s x = Inr s' \<Longrightarrow> P s' = P s"
  shows "fold_result f s xs = Inr s' \<Longrightarrow> P s' = P s"
  by (induction xs arbitrary: s) (auto simp: bind_result_Inr_iff dest: assms)

lemma fold_result_reached: "fold_result f s xs = Inr s' \<Longrightarrow> x \<in> set xs \<Longrightarrow> \<exists>s1 s2. f s1 x = Inr s2"
  by (induction xs arbitrary: s) (auto simp: bind_result_Inr_iff)

lemma fold_result_cong: "(\<And>s x. x \<in> set xs \<Longrightarrow> f s x = g s x) \<Longrightarrow> fold_result f s xs = fold_result g s xs"
  by (induction xs arbitrary: s) (auto intro!: arg_cong [where f = "bind_result _"])

lemma map_result_Inr:
  "(\<And>x. x \<in> set xs \<Longrightarrow> f x = Inr (g x)) \<Longrightarrow> map_result f xs = Inr (map g xs)"
  by (induction xs) auto

lemma map_result_length: "map_result f xs = Inr ys \<Longrightarrow> length ys = length xs"
  by (induction xs arbitrary: ys) (auto simp: bind_result_Inr_iff)

text \<open>A loop that writes position \<open>i\<close> for \<open>i = 0..<n\<close> and leaves the rest alone.\<close>

lemma fold_result_fill:
  assumes "n \<le> length w"
  shows "fold_result (\<lambda>w i. vec_write w i (f i)) w [0..<n] = Inr (map f [0..<n] @ drop n w)"
  using assms
proof (induction n)
  case (Suc n)
  then have "fold_result (\<lambda>w i. vec_write w i (f i)) w [0..<n] = Inr (map f [0..<n] @ drop n w)"
    by simp
  moreover have "vec_write (map f [0..<n] @ drop n w) n (f n) =
      Inr (map f [0..<n] @ f n # drop (Suc n) w)"
    using Suc.prems by (simp add: list_update_append flip: Cons_nth_drop_Suc)
  ultimately show ?case by (simp add: fold_result_append)
qed simp

subsection \<open>Numbers and words\<close>

lemma unat_u64_of_nat: "n < 2 ^ 64 \<Longrightarrow> unat (word_of_nat n :: u64) = n"
  by (simp add: unsigned_of_nat take_bit_nat_eq_self)

lemma sint_u32: "sint (x :: u32) = (if uint x < 2 ^ 31 then uint x else uint x - 2 ^ 32)"
proof -
  have k: "0 \<le> uint x" "uint x < 2 ^ 32" using uint_bounded [of x] by simp_all
  have s: "sint x = (uint x + 2 ^ 31) mod 2 ^ 32 - 2 ^ 31"
    by (simp add: sint_uint signed_take_bit_eq_take_bit_shift take_bit_eq_mod)
  show ?thesis
  proof (cases "uint x < 2 ^ 31")
    case True
    then have "(uint x + 2 ^ 31) mod 2 ^ 32 = uint x + 2 ^ 31" using k by (intro mod_pos_pos_trivial) simp_all
    then show ?thesis using s True by simp
  next
    case False
    have "(uint x + 2 ^ 31) mod 2 ^ 32 = (uint x - 2 ^ 31 + 2 ^ 32) mod 2 ^ 32" by (simp add: algebra_simps)
    also have "\<dots> = uint x - 2 ^ 31" using k False by (simp only: mod_add_self2) (intro mod_pos_pos_trivial; simp)
    finally show ?thesis using s False by simp
  qed
qed

lemma sless_u32: "(a :: u32) <s b \<longleftrightarrow>
    (if unat a < 2 ^ 31 then unat a < unat b \<and> unat b < 2 ^ 31 else unat b < 2 ^ 31 \<or> unat a < unat b)"
proof -
  define A B where "A = unat a" and "B = unat b"
  have *: "uint a = int A" "uint b = int B" "A < 2 ^ 32" "B < 2 ^ 32"
    using unsigned_less [of a, where ?'a = nat] unsigned_less [of b, where ?'a = nat] by (simp_all add: A_def B_def)
  show ?thesis unfolding word_sless_alt sint_u32 * A_def [symmetric] B_def [symmetric] using *(3,4) by auto
qed
subsection \<open>Exclusive or on words\<close>

named_theorems xor_ac \<open>associativity and commutativity of exclusive or, words and blocks\<close>

lemma word_xor_left_cancel [simp]: "a XOR (a XOR b) = b" for a b :: "'a::len word"
  by (simp flip: xor.assoc)

lemmas word_xor_ac [xor_ac] = xor.assoc xor.commute xor.left_commute

lemma word_xor_eq_zero_iff [simp]: "a XOR b = 0 \<longleftrightarrow> a = b" for a b :: "'a::len word"
proof
  assume "a XOR b = 0"
  then have "a XOR (a XOR b) = a" by simp
  then show "a = b" by simp
qed simp

subsection \<open>Lists indexed from zero\<close>

lemma map_upt_nth_eq: "length xs = n \<Longrightarrow> map (\<lambda>i. xs ! i) [0..<n] = xs"
  by (auto intro: nth_equalityI)

lemma list_update_Cons_numeral [simp]:
  "(x # xs)[numeral n := y] = x # xs[pred_numeral n := y]"
  by (simp add: numeral_eq_Suc)

lemma nth_map_upt0 [simp]: "i < n \<Longrightarrow> map f [0..<n] ! i = f i"
  by simp

end
