(* ===== verification/Label_Algebra.thy ===== *)
theory Label_Algebra
  imports Prelude
begin

text \<open>
  The contract between a label type and the garbling schemes: labels form a group of exponent
  two under exclusive or, and the point-and-permute signal is a homomorphism to one bit.  Both
  label types of the program satisfy it (the byte blocks of \<^verbatim>\<open>gc_mmo.hpp\<close> and the 128-bit keys
  of \<^verbatim>\<open>BMR/Key.h\<close>), and the correctness of the half gate and of the four-row gate is proved
  here once for any such type.
\<close>

locale label_algebra =
  fixes wf :: "'k \<Rightarrow> bool"
    and xr :: "'k \<Rightarrow> 'k \<Rightarrow> 'k"
    and zero :: 'k
    and sig :: "'k \<Rightarrow> bool"
  assumes wf_xr: "wf (xr a b)"
    and assoc: "xr (xr a b) c = xr a (xr b c)"
    and comm: "xr a b = xr b a"
    and self: "xr a a = zero"
    and zero: "wf a \<Longrightarrow> xr zero a = a"
    and sig_xr: "sig (xr a b) \<longleftrightarrow> sig a \<noteq> sig b"
begin

lemma left_comm: "xr a (xr b c) = xr b (xr a c)"
  by (metis assoc comm)

lemma cancel: "wf b \<Longrightarrow> xr a (xr a b) = b"
  by (metis assoc self zero)

lemma cancel_right: "wf a \<Longrightarrow> xr (xr a b) b = a"
  by (metis cancel comm)

lemma zero_right: "wf a \<Longrightarrow> xr a zero = a"
  by (metis zero comm)

lemmas ac = assoc comm left_comm

text \<open>
  The half gate: the garbler derives the two ciphertexts and the output zero label from the
  zero labels and the four hashes; the evaluator, holding the labels of the bits \<open>va\<close> and
  \<open>vb\<close> and their hashes, obtains the output label of \<open>va \<and> vb\<close>.
\<close>

lemma half_gate:
  assumes wf: "wf a0" "wf b0" "wf d" "wf ha0" "wf ha1" "wf hb0" "wf hb1"
    and d: "sig d"
    and tg: "tg = (if sig b0 then xr (xr ha0 ha1) d else xr ha0 ha1)"
    and te: "te = xr (xr hb0 hb1) a0"
    and wa: "wa = (if va then xr a0 d else a0)"
    and wb: "wb = (if vb then xr b0 d else b0)"
  shows "xr (if sig wa then xr (if va then ha1 else ha0) tg else (if va then ha1 else ha0))
            (if sig wb then xr (if vb then hb1 else hb0) (xr te wa) else (if vb then hb1 else hb0))
       = (let w0 = xr (if sig a0 then xr ha0 tg else ha0)
                      (if sig b0 then xr hb0 (xr te a0) else hb0)
          in if va \<and> vb then xr w0 d else w0)"
  unfolding tg te wa wb
  by (cases va; cases vb; cases "sig a0"; cases "sig b0";
      simp add: Let_def sig_xr d ac cancel self zero zero_right wf wf_xr)

text \<open>The four-row gate: a row is the output label of its truth value, masked by its hash.\<close>

lemma masked_row: "wf k \<Longrightarrow> xr (xr k h) h = k"
  by (rule cancel_right)

end

end
