(* ===== verification/Block.thy ===== *)
theory Block
  imports Label_Algebra
begin

text \<open>
  The 16-byte block of \<^verbatim>\<open>voprf-bench/gc_mmo.hpp\<close>, its exclusive or, its point-and-permute
  bit, and the sampling of blocks from the Mersenne twister.  A \<^verbatim>\<open>Block\<close> is the list of its
  16 bytes; \<open>wf_block\<close> is the length that the C++ array type fixes.
\<close>

type_synonym block = "u8 list"

definition wf_block :: "block \<Rightarrow> bool" where
  "wf_block x \<longleftrightarrow> length x = 16"

text \<open>The value-initialised \<^verbatim>\<open>Block{}\<close>.\<close>

definition zero_block :: block where
  "zero_block = replicate 16 0"

definition xor_block :: "block \<Rightarrow> block \<Rightarrow> block" where
  "xor_block a b = map (\<lambda>i. a ! i XOR b ! i) [0..<16]"

definition lsb :: "block \<Rightarrow> bool" where
  "lsb x \<longleftrightarrow> x ! 0 AND 1 \<noteq> 0"

definition blocks_eq :: "block \<Rightarrow> block \<Rightarrow> bool" where
  "blocks_eq a b \<longleftrightarrow> take 16 a = take 16 b"

subsection \<open>Random blocks\<close>

text \<open>
  \<^verbatim>\<open>std::mt19937_64\<close> is a deterministic generator; a seed fixes the sequence of its
  outputs.  The state is that sequence and the number of values drawn so far.
\<close>

record mt19937_64 =
  outputs :: "nat \<Rightarrow> u64"
  drawn :: nat

definition rng_next :: "mt19937_64 \<Rightarrow> u64 \<times> mt19937_64" where
  "rng_next g = (outputs g (drawn g), g\<lparr>drawn := Suc (drawn g)\<rparr>)"

text \<open>A concrete generator for examples: it counts.\<close>

definition counting_rng :: "nat \<Rightarrow> mt19937_64" where
  "counting_rng n = \<lparr>outputs = \<lambda>i. word_of_nat i, drawn = n\<rparr>"

text \<open>The loop \<^verbatim>\<open>for (int i = 0; i < n; ++i) d.b[i] = static_cast<u8>(rng() & 0xff);\<close>\<close>

fun fill_bytes :: "nat \<Rightarrow> mt19937_64 \<Rightarrow> u8 list \<times> mt19937_64" where
  "fill_bytes 0 g = ([], g)"
| "fill_bytes (Suc n) g =
     (let (v, g) = rng_next g; (bs, g) = fill_bytes n g in (ucast (v AND 0xff) # bs, g))"

definition make_delta :: "mt19937_64 \<Rightarrow> block \<times> mt19937_64" where
  "make_delta g = (let (d, g) = fill_bytes 16 g in (d[0 := d ! 0 OR 1], g))"

definition random_block :: "mt19937_64 \<Rightarrow> block \<times> mt19937_64" where
  "random_block g = fill_bytes 16 g"

subsection \<open>The exclusive-or algebra of blocks\<close>

lemma wf_xor_block [simp, intro]: "wf_block (xor_block a b)"
  by (simp add: wf_block_def xor_block_def)

lemma wf_zero_block [simp, intro]: "wf_block zero_block"
  by (simp add: wf_block_def zero_block_def)

lemma nth_xor_block [simp]: "i < 16 \<Longrightarrow> xor_block a b ! i = a ! i XOR b ! i"
  by (simp add: xor_block_def)

lemma block_eqI:
  assumes "wf_block a" "wf_block b" "\<And>i. i < 16 \<Longrightarrow> a ! i = b ! i"
  shows "a = b"
  using assms by (auto simp: wf_block_def intro: nth_equalityI)

lemma xor_block_commute: "xor_block a b = xor_block b a"
  by (simp add: xor_block_def xor.commute)

lemma xor_block_assoc: "xor_block (xor_block a b) c = xor_block a (xor_block b c)"
  by (rule block_eqI) (auto simp: xor.assoc)

lemma xor_block_left_commute: "xor_block a (xor_block b c) = xor_block b (xor_block a c)"
  by (rule block_eqI) (auto simp: xor.left_commute)

lemmas xor_block_ac [xor_ac] = xor_block_assoc xor_block_commute xor_block_left_commute

lemma nth_zero_block [simp]: "i < 16 \<Longrightarrow> zero_block ! i = 0"
  by (simp add: zero_block_def)

lemma xor_block_self [simp]: "xor_block a a = zero_block"
  by (rule block_eqI) auto

lemma xor_block_zero [simp]:
  "wf_block a \<Longrightarrow> xor_block a zero_block = a"
  "wf_block a \<Longrightarrow> xor_block zero_block a = a"
  by (rule block_eqI; simp)+

lemma xor_block_left_cancel [simp]: "wf_block b \<Longrightarrow> xor_block a (xor_block a b) = b"
  by (simp flip: xor_block_assoc)

lemma xor_block_right_cancel [simp]: "wf_block a \<Longrightarrow> xor_block (xor_block a b) b = a"
  by (simp add: xor_block_assoc)

lemma lsb_bit: "lsb x \<longleftrightarrow> bit (x ! 0) 0"
  by (simp add: lsb_def bit_0 and_one_eq odd_iff_mod_2_eq_one)

lemma lsb_xor_block [simp]: "lsb (xor_block a b) \<longleftrightarrow> lsb a \<noteq> lsb b"
  by (simp add: lsb_bit bit_xor_iff)

lemma lsb_zero_block [simp]: "\<not> lsb zero_block"
  by (simp add: lsb_def zero_block_def)

interpretation block_label: label_algebra wf_block xor_block zero_block lsb
  by unfold_locales (simp_all add: xor_block_ac)

lemma blocks_eq_iff: "wf_block a \<Longrightarrow> wf_block b \<Longrightarrow> blocks_eq a b \<longleftrightarrow> a = b"
  by (simp add: wf_block_def blocks_eq_def)

lemma length_fill_bytes [simp]: "length (fst (fill_bytes n g)) = n"
  by (induction n arbitrary: g) (auto simp: split_beta Let_def)

lemma wf_random_block [simp]: "wf_block (fst (random_block g))"
  by (simp add: wf_block_def random_block_def)

lemma wf_make_delta [simp]: "wf_block (fst (make_delta g))"
  by (simp add: wf_block_def make_delta_def split_beta Let_def)

lemma lsb_make_delta [simp]: "lsb (fst (make_delta g))"
proof -
  have "0 < length (fst (fill_bytes 16 g))" by simp
  then show ?thesis
    by (simp add: make_delta_def split_beta Let_def lsb_bit bit_or_iff bit_1_iff del: length_fill_bytes)
qed

end
