(* ===== verification/AES128.thy ===== *)
theory AES128
  imports Block
begin

text \<open>
  \<^verbatim>\<open>FixedKeyAES\<close> of \<^verbatim>\<open>voprf-bench/gc_mmo.hpp\<close>: the portable AES-128 (key expansion and the
  ten rounds, on a state of 16 bytes in memory order), the AES-NI variant over the processor's
  instructions, and the Matyas-Meyer-Oseas hash with its gate tweak.  The two variants are
  proved equal for every key and every block, so that a garbler and an evaluator compiled with
  different backends compute the same gate hashes.
\<close>

section \<open>The portable implementation\<close>

definition SBOX :: "u8 list" where
  "SBOX =
    [0x63, 0x7c, 0x77, 0x7b, 0xf2, 0x6b, 0x6f, 0xc5, 0x30, 0x01, 0x67, 0x2b, 0xfe, 0xd7, 0xab, 0x76,
     0xca, 0x82, 0xc9, 0x7d, 0xfa, 0x59, 0x47, 0xf0, 0xad, 0xd4, 0xa2, 0xaf, 0x9c, 0xa4, 0x72, 0xc0,
     0xb7, 0xfd, 0x93, 0x26, 0x36, 0x3f, 0xf7, 0xcc, 0x34, 0xa5, 0xe5, 0xf1, 0x71, 0xd8, 0x31, 0x15,
     0x04, 0xc7, 0x23, 0xc3, 0x18, 0x96, 0x05, 0x9a, 0x07, 0x12, 0x80, 0xe2, 0xeb, 0x27, 0xb2, 0x75,
     0x09, 0x83, 0x2c, 0x1a, 0x1b, 0x6e, 0x5a, 0xa0, 0x52, 0x3b, 0xd6, 0xb3, 0x29, 0xe3, 0x2f, 0x84,
     0x53, 0xd1, 0x00, 0xed, 0x20, 0xfc, 0xb1, 0x5b, 0x6a, 0xcb, 0xbe, 0x39, 0x4a, 0x4c, 0x58, 0xcf,
     0xd0, 0xef, 0xaa, 0xfb, 0x43, 0x4d, 0x33, 0x85, 0x45, 0xf9, 0x02, 0x7f, 0x50, 0x3c, 0x9f, 0xa8,
     0x51, 0xa3, 0x40, 0x8f, 0x92, 0x9d, 0x38, 0xf5, 0xbc, 0xb6, 0xda, 0x21, 0x10, 0xff, 0xf3, 0xd2,
     0xcd, 0x0c, 0x13, 0xec, 0x5f, 0x97, 0x44, 0x17, 0xc4, 0xa7, 0x7e, 0x3d, 0x64, 0x5d, 0x19, 0x73,
     0x60, 0x81, 0x4f, 0xdc, 0x22, 0x2a, 0x90, 0x88, 0x46, 0xee, 0xb8, 0x14, 0xde, 0x5e, 0x0b, 0xdb,
     0xe0, 0x32, 0x3a, 0x0a, 0x49, 0x06, 0x24, 0x5c, 0xc2, 0xd3, 0xac, 0x62, 0x91, 0x95, 0xe4, 0x79,
     0xe7, 0xc8, 0x37, 0x6d, 0x8d, 0xd5, 0x4e, 0xa9, 0x6c, 0x56, 0xf4, 0xea, 0x65, 0x7a, 0xae, 0x08,
     0xba, 0x78, 0x25, 0x2e, 0x1c, 0xa6, 0xb4, 0xc6, 0xe8, 0xdd, 0x74, 0x1f, 0x4b, 0xbd, 0x8b, 0x8a,
     0x70, 0x3e, 0xb5, 0x66, 0x48, 0x03, 0xf6, 0x0e, 0x61, 0x35, 0x57, 0xb9, 0x86, 0xc1, 0x1d, 0x9e,
     0xe1, 0xf8, 0x98, 0x11, 0x69, 0xd9, 0x8e, 0x94, 0x9b, 0x1e, 0x87, 0xe9, 0xce, 0x55, 0x28, 0xdf,
     0x8c, 0xa1, 0x89, 0x0d, 0xbf, 0xe6, 0x42, 0x68, 0x41, 0x99, 0x2d, 0x0f, 0xb0, 0x54, 0xbb, 0x16]"

definition RCON :: "u8 list" where
  "RCON = [0, 0x01, 0x02, 0x04, 0x08, 0x10, 0x20, 0x40, 0x80, 0x1B, 0x36]"

text \<open>The lambdas \<^verbatim>\<open>sub_bytes\<close>, \<^verbatim>\<open>shift_rows\<close>, \<^verbatim>\<open>xtime\<close> and \<^verbatim>\<open>mix_columns\<close> of \<^verbatim>\<open>encrypt\<close>.\<close>

definition sub_byte :: "u8 \<Rightarrow> u8" where
  "sub_byte x = SBOX ! unat x"

definition sub_bytes :: "u8 list \<Rightarrow> u8 list" where
  "sub_bytes st = map (\<lambda>i. sub_byte (st ! i)) [0..<16]"

definition shift_rows :: "u8 list \<Rightarrow> u8 list" where
  "shift_rows st =
    (let t = st ! 1; st = st[1 := st ! 5]; st = st[5 := st ! 9]; st = st[9 := st ! 13];
         st = st[13 := t];
         t = st ! 2; st = st[2 := st ! 10]; st = st[10 := t];
         t = st ! 6; st = st[6 := st ! 14]; st = st[14 := t];
         t = st ! 15; st = st[15 := st ! 11]; st = st[11 := st ! 7]; st = st[7 := st ! 3];
         st = st[3 := t]
     in st)"

definition xtime :: "u8 \<Rightarrow> u8" where
  "xtime x = push_bit 1 x XOR (if x AND 0x80 \<noteq> 0 then 0x1b else 0)"

definition mix_column :: "u8 list \<Rightarrow> nat \<Rightarrow> u8 list" where
  "mix_column st c =
    (let a0 = st ! (4 * c); a1 = st ! (4 * c + 1); a2 = st ! (4 * c + 2); a3 = st ! (4 * c + 3);
         t = a0 XOR a1 XOR a2 XOR a3
     in st[4 * c := a0 XOR (t XOR xtime (a0 XOR a1)),
           4 * c + 1 := a1 XOR (t XOR xtime (a1 XOR a2)),
           4 * c + 2 := a2 XOR (t XOR xtime (a2 XOR a3)),
           4 * c + 3 := a3 XOR (t XOR xtime (a3 XOR a0))])"

definition mix_columns :: "u8 list \<Rightarrow> u8 list" where
  "mix_columns st = foldl mix_column st [0..<4]"

definition add_round_key :: "u8 list \<Rightarrow> block \<Rightarrow> u8 list" where
  "add_round_key st k = map (\<lambda>i. st ! i XOR k ! i) [0..<16]"

text \<open>One iteration \<open>r\<close> of the key expansion: the four bytes \<open>t\<close>, then the row \<^verbatim>\<open>rk[r]\<close>.\<close>

definition expand_round :: "block \<Rightarrow> nat \<Rightarrow> block" where
  "expand_round prev r =
    (let t = [sub_byte (prev ! 13) XOR RCON ! r, sub_byte (prev ! 14), sub_byte (prev ! 15),
              sub_byte (prev ! 12)];
         row = map (\<lambda>i. prev ! i XOR t ! i) [0..<4]
     in foldl (\<lambda>row i. row @ [prev ! i XOR row ! (i - 4)]) row [4..<16])"

record FixedKeyAES =
  rk :: "block list"

definition FixedKeyAES_init :: "block \<Rightarrow> FixedKeyAES" where
  "FixedKeyAES_init key =
    \<lparr>rk = foldl (\<lambda>rks r. rks @ [expand_round (rks ! (r - 1)) r]) [take 16 key] [1..<11]\<rparr>"

definition aes_round :: "u8 list \<Rightarrow> block \<Rightarrow> u8 list" where
  "aes_round s k = add_round_key (mix_columns (shift_rows (sub_bytes s))) k"

definition encrypt :: "FixedKeyAES \<Rightarrow> block \<Rightarrow> block" where
  "encrypt aes inp =
    (let s = add_round_key (take 16 inp) (rk aes ! 0);
         s = foldl (\<lambda>s r. aes_round s (rk aes ! r)) s [1..<10];
         s = shift_rows (sub_bytes s)
     in add_round_key s (rk aes ! 10))"


section \<open>The AES-NI variant\<close>

text \<open>
  The instructions are the processor's: \<open>aesenc\<close>, \<open>aesenclast\<close> and \<open>aeskeygenassist\<close>
  are parameters.  Byte shifts, lane shuffles and exclusive or on \<^verbatim>\<open>__m128i\<close> are plain
  register operations and are written out on the 16 bytes in memory order.
\<close>

record aesni =
  aesenc :: "block \<Rightarrow> block \<Rightarrow> block"
  aesenclast :: "block \<Rightarrow> block \<Rightarrow> block"
  aeskeygenassist :: "block \<Rightarrow> u8 \<Rightarrow> block"

definition mm_slli_si128_4 :: "block \<Rightarrow> block" where
  "mm_slli_si128_4 x = map (\<lambda>i. if i < 4 then 0 else x ! (i - 4)) [0..<16]"

definition mm_shuffle_epi32_ff :: "block \<Rightarrow> block" where
  "mm_shuffle_epi32_ff x = map (\<lambda>i. x ! (12 + i mod 4)) [0..<16]"

definition key_expand_assist :: "block \<Rightarrow> block \<Rightarrow> block" where
  "key_expand_assist key assist =
    (let key = xor_block key (mm_slli_si128_4 key);
         key = xor_block key (mm_slli_si128_4 key);
         key = xor_block key (mm_slli_si128_4 key)
     in xor_block key (mm_shuffle_epi32_ff assist))"

text \<open>The eleven assignments to \<open>rk\<close>, with the round constants of the calls in their order.\<close>

definition FixedKeyAES_ni_init :: "aesni \<Rightarrow> block \<Rightarrow> FixedKeyAES" where
  "FixedKeyAES_ni_init ni key =
    \<lparr>rk = foldl (\<lambda>rks rcon. rks @ [key_expand_assist (last rks)
                                   (aeskeygenassist ni (last rks) rcon)])
           [take 16 key] [0x01, 0x02, 0x04, 0x08, 0x10, 0x20, 0x40, 0x80, 0x1B, 0x36]\<rparr>"

definition encrypt_ni :: "aesni \<Rightarrow> FixedKeyAES \<Rightarrow> block \<Rightarrow> block" where
  "encrypt_ni ni aes inp =
    (let m = xor_block (take 16 inp) (rk aes ! 0);
         m = foldl (\<lambda>m i. aesenc ni m (rk aes ! i)) m [1..<10]
     in aesenclast ni m (rk aes ! 10))"

subsection \<open>What the instruction set documents\<close>

text \<open>
  \<^verbatim>\<open>AESENC\<close> is ShiftRows, SubBytes, MixColumns and the exclusive or with the round key,
  \<^verbatim>\<open>AESENCLAST\<close> the same without MixColumns; MixColumns is the multiplication of each
  column by the circulant matrix (2 3 1 1) over GF(256).  \<^verbatim>\<open>AESKEYGENASSIST\<close> substitutes
  the bytes of the second and the fourth double word, once as they are and once rotated with
  the constant added.
\<close>

definition rows_shifted :: "u8 list \<Rightarrow> u8 list" where
  "rows_shifted st = map (\<lambda>i. st ! ((i + 4 * (i mod 4)) mod 16)) [0..<16]"

definition columns_mixed :: "u8 list \<Rightarrow> u8 list" where
  "columns_mixed st = map (\<lambda>i. let c = 4 * (i div 4); a = (\<lambda>j. st ! (c + (i + j) mod 4))
     in xtime (a 0) XOR (xtime (a 1) XOR a 1) XOR a 2 XOR a 3) [0..<16]"

definition keygen_assisted :: "block \<Rightarrow> u8 \<Rightarrow> block" where
  "keygen_assisted x rcon =
    [sub_byte (x ! 4), sub_byte (x ! 5), sub_byte (x ! 6), sub_byte (x ! 7),
     sub_byte (x ! 5) XOR rcon, sub_byte (x ! 6), sub_byte (x ! 7), sub_byte (x ! 4),
     sub_byte (x ! 12), sub_byte (x ! 13), sub_byte (x ! 14), sub_byte (x ! 15),
     sub_byte (x ! 13) XOR rcon, sub_byte (x ! 14), sub_byte (x ! 15), sub_byte (x ! 12)]"

definition aesni_documented :: "aesni \<Rightarrow> bool" where
  "aesni_documented ni \<longleftrightarrow>
    (\<forall>a k. wf_block a \<longrightarrow> wf_block k \<longrightarrow>
       aesenc ni a k = xor_block (columns_mixed (sub_bytes (rows_shifted a))) k \<and>
       aesenclast ni a k = xor_block (sub_bytes (rows_shifted a)) k) \<and>
    (\<forall>a rcon. wf_block a \<longrightarrow> aeskeygenassist ni a rcon = keygen_assisted a rcon)"

section \<open>Shape of the rounds\<close>

lemma upt_16: "[0..<16] = [0, 1, 2, 3, 4, 5, 6, 7, 8, 9, 10, 11, 12, 13, 14, 15::nat]"
  by (simp add: upt_rec)

lemma upt_4_16: "[4..<16] = [4, 5, 6, 7, 8, 9, 10, 11, 12, 13, 14, 15::nat]"
  by (simp add: upt_rec)

lemma upt_4: "[0..<4] = [0, 1, 2, 3::nat]"
  by (simp add: upt_rec)

lemma wf_add_round_key [simp]: "wf_block (add_round_key s k)"
  by (simp add: wf_block_def add_round_key_def)

lemma add_round_key_xor: "add_round_key s k = xor_block s k"
  by (simp add: add_round_key_def xor_block_def)

lemma wf_rows_shifted [simp]: "wf_block (rows_shifted s)"
  by (simp add: wf_block_def rows_shifted_def)

lemma wf_sub_bytes [simp]: "wf_block (sub_bytes s)"
  by (simp add: wf_block_def sub_bytes_def)

lemma wf_aes_round [simp]: "wf_block (aes_round s k)"
  by (simp add: aes_round_def)

lemma wf_encrypt [simp]: "wf_block (encrypt aes x)"
  by (simp add: encrypt_def Let_def)

lemma wf_expand_round [simp]: "wf_block (expand_round prev r)"
  by (simp add: wf_block_def expand_round_def upt_4 upt_4_16)

lemma wf_key_expand_assist [simp]: "wf_block (key_expand_assist key assist)"
  by (simp add: key_expand_assist_def Let_def)

lemma wf_cases16:
  assumes "wf_block x"
  obtains x0 x1 x2 x3 x4 x5 x6 x7 x8 x9 x10 x11 x12 x13 x14 x15
  where "x = [x0, x1, x2, x3, x4, x5, x6, x7, x8, x9, x10, x11, x12, x13, x14, x15]"
proof -
  have "x = map (\<lambda>i. x ! i) [0..<16]"
    using assms by (simp add: wf_block_def map_upt_nth_eq)
  then show ?thesis using that by (simp add: upt_16)
qed

lemma shift_rows_eq: "wf_block s \<Longrightarrow> shift_rows s = rows_shifted s"
  by (erule wf_cases16) (simp add: shift_rows_def rows_shifted_def Let_def upt_16)

lemma sub_bytes_rows_shifted:
  "wf_block s \<Longrightarrow> sub_bytes (rows_shifted s) = rows_shifted (sub_bytes s)"
  by (erule wf_cases16) (simp add: sub_bytes_def rows_shifted_def upt_16)

lemma xtime_zero [simp]: "xtime 0 = 0"
  by (simp add: xtime_def)

lemma xtime_xor: "xtime (a XOR b) = xtime a XOR xtime b"
proof -
  have high: "x AND 0x80 \<noteq> 0 \<longleftrightarrow> bit x 7" for x :: u8
    using and_exp_eq_0_iff_not_bit [of x 7] by simp
  show ?thesis
    by (simp add: xtime_def high push_bit_xor bit_xor_iff xor_ac)
qed

text \<open>The temporary \<open>t\<close> of \<^verbatim>\<open>mix_columns\<close> gives the matrix product.\<close>

lemma mix_columns_eq: "wf_block s \<Longrightarrow> mix_columns s = columns_mixed s"
  by (erule wf_cases16)
    (simp add: mix_columns_def columns_mixed_def mix_column_def Let_def upt_16 upt_4 xtime_xor xor_ac)


section \<open>The two variants agree\<close>

lemma expand_round_eq:
  assumes "wf_block prev"
  shows "expand_round prev r = key_expand_assist prev (keygen_assisted prev (RCON ! r))"
  using assms
  by (rule wf_cases16)
    (simp add: expand_round_def key_expand_assist_def keygen_assisted_def Let_def
      mm_slli_si128_4_def mm_shuffle_epi32_ff_def xor_block_def upt_16 upt_4 upt_4_16 xor_ac)

lemma RCON_calls:
  "map ((!) RCON) [1..<11] = [0x01, 0x02, 0x04, 0x08, 0x10, 0x20, 0x40, 0x80, 0x1B, 0x36]"
  by (simp add: RCON_def upt_rec)

text \<open>Key expansion up to round \<open>n\<close>: the rows built by index and the rows built from the last.\<close>

lemma round_keys_eq:
  assumes "aesni_documented ni" "wf_block k"
  defines "by_index \<equiv> \<lambda>n. foldl (\<lambda>rks r. rks @ [expand_round (rks ! (r - 1)) r]) [k] [1..<Suc n]"
    and "by_last \<equiv> \<lambda>n. foldl (\<lambda>rks rcon. rks @ [key_expand_assist (last rks)
           (aeskeygenassist ni (last rks) rcon)]) [k] (map ((!) RCON) [1..<Suc n])"
  shows "by_last n = by_index n \<and> length (by_index n) = Suc n \<and> (\<forall>x \<in> set (by_index n). wf_block x)"
proof (induction n)
  case 0
  show ?case by (simp add: by_index_def by_last_def assms(2))
next
  case (Suc n)
  define ks where "ks = by_index n"
  have ks: "by_last n = ks" "length ks = Suc n" "\<forall>x \<in> set ks. wf_block x"
    using Suc.IH by (simp_all add: ks_def)
  then have lst: "last ks = ks ! n" "wf_block (ks ! n)"
    by (simp_all add: last_conv_nth flip: length_0_conv)
  have "by_index (Suc n) = ks @ [expand_round (ks ! n) (Suc n)]"
    by (simp add: by_index_def ks_def)
  moreover have "by_last (Suc n) = ks @ [key_expand_assist (ks ! n)
      (aeskeygenassist ni (ks ! n) (RCON ! Suc n))]"
    using ks(1) lst(1) by (simp add: by_last_def)
  ultimately show ?case
    using assms(1) lst(2) ks by (simp add: expand_round_eq aesni_documented_def)
qed

lemma FixedKeyAES_ni_init_eq:
  assumes "aesni_documented ni" "wf_block key"
  shows "FixedKeyAES_ni_init ni key = FixedKeyAES_init key"
  using round_keys_eq [OF assms, of 10] assms(2)
  by (simp add: FixedKeyAES_ni_init_def FixedKeyAES_init_def RCON_calls [symmetric] wf_block_def)

lemma FixedKeyAES_init_keys:
  assumes "wf_block key"
  shows "length (rk (FixedKeyAES_init key)) = 11"
    and "i < 11 \<Longrightarrow> wf_block (rk (FixedKeyAES_init key) ! i)"
proof -
  define ni where "ni = \<lparr>aesenc = (\<lambda>a k. xor_block (columns_mixed (sub_bytes (rows_shifted a))) k),
    aesenclast = (\<lambda>a k. xor_block (sub_bytes (rows_shifted a)) k),
    aeskeygenassist = keygen_assisted\<rparr>"
  have "aesni_documented ni" by (simp add: aesni_documented_def ni_def)
  from round_keys_eq [OF this assms, of 10]
  have *: "length (rk (FixedKeyAES_init key)) = 11"
    "\<forall>x \<in> set (rk (FixedKeyAES_init key)). wf_block x"
    using assms by (simp_all add: FixedKeyAES_init_def wf_block_def)
  then show "length (rk (FixedKeyAES_init key)) = 11"
    and "i < 11 \<Longrightarrow> wf_block (rk (FixedKeyAES_init key) ! i)"
    by simp_all
qed

lemma aes_round_documented:
  assumes "aesni_documented ni" "wf_block s" "wf_block k"
  shows "aesenc ni s k = aes_round s k"
  using assms
  by (simp add: aesni_documented_def aes_round_def shift_rows_eq mix_columns_eq
      sub_bytes_rows_shifted add_round_key_xor)

lemma aes_rounds_documented:
  assumes "aesni_documented ni" "wf_block s" "\<forall>i \<in> set is. wf_block (ks ! i)"
  shows "foldl (\<lambda>m i. aesenc ni m (ks ! i)) s is = foldl (\<lambda>m i. aes_round m (ks ! i)) s is
    \<and> wf_block (foldl (\<lambda>m i. aes_round m (ks ! i)) s is)"
  using assms(2,3)
  by (induction "is" arbitrary: s) (simp_all add: aes_round_documented [OF assms(1)])

text \<open>
  C22.  Backend equivalence.  If the three AES instructions behave as the instruction set manual
  says, then for every 16-byte key the AES-NI build of \<^verbatim>\<open>FixedKeyAES\<close> has the round keys of the
  portable build and encrypts every block to the same ciphertext.
\<close>

theorem aesni_encrypt_eq_portable:
  assumes "aesni_documented ni" "wf_block key" "wf_block pt"
  shows "encrypt_ni ni (FixedKeyAES_ni_init ni key) pt = encrypt (FixedKeyAES_init key) pt"
proof -
  define ks where "ks = rk (FixedKeyAES_init key)"
  have ks: "wf_block (ks ! i)" if "i < 11" for i
    unfolding ks_def using assms(2) that by (rule FixedKeyAES_init_keys)
  define m where "m = foldl (\<lambda>m i. aes_round m (ks ! i)) (xor_block pt (ks ! 0)) [Suc 0..<10]"
  have m: "foldl (\<lambda>m i. aesenc ni m (ks ! i)) (xor_block pt (ks ! 0)) [Suc 0..<10] = m" "wf_block m"
    using aes_rounds_documented [OF assms(1), of "xor_block pt (ks ! 0)" "[Suc 0..<10]" ks] ks
    by (simp_all add: m_def)
  have "aesenclast ni m (ks ! 10) = xor_block (shift_rows (sub_bytes m)) (ks ! 10)"
    using assms(1) m(2) ks by (simp add: aesni_documented_def shift_rows_eq sub_bytes_rows_shifted)
  moreover have "take 16 pt = pt" using assms(3) by (simp add: wf_block_def)
  note pt = this
  ultimately show ?thesis
    by (simp add: encrypt_ni_def encrypt_def FixedKeyAES_ni_init_eq [OF assms(1,2)] Let_def pt
        add_round_key_xor m(1) flip: ks_def m_def)
qed

section \<open>The gate hash\<close>

definition mmo_hash :: "FixedKeyAES \<Rightarrow> block \<Rightarrow> block" where
  "mmo_hash aes x = xor_block (encrypt aes x) x"

definition tweak :: "block \<Rightarrow> u64 \<Rightarrow> u8 \<Rightarrow> block" where
  "tweak x gid t =
    (let y = x[8 := x ! 8 XOR ucast gid];
         y = y[9 := y ! 9 XOR ucast (drop_bit 8 gid)];
         y = y[10 := y ! 10 XOR ucast (drop_bit 16 gid)];
         y = y[11 := y ! 11 XOR ucast (drop_bit 24 gid)]
     in y[12 := y ! 12 XOR t])"

lemma wf_mmo_hash [simp, intro]: "wf_block (mmo_hash aes x)"
  by (simp add: mmo_hash_def)

lemma wf_tweak [simp]: "wf_block (tweak x gid t) \<longleftrightarrow> wf_block x"
  by (simp add: tweak_def wf_block_def Let_def)

lemma ucast_drop_eq_iff:
  "(ucast (drop_bit n a) :: u8) = ucast (drop_bit n b) \<longleftrightarrow>
    take_bit 8 (drop_bit n a) = take_bit 8 (drop_bit n b)" for a b :: u64
proof
  assume "(ucast (drop_bit n a) :: u8) = ucast (drop_bit n b)"
  then have "bit (ucast (drop_bit n a) :: u8) i = bit (ucast (drop_bit n b) :: u8) i" for i
    by simp
  then show "take_bit 8 (drop_bit n a) = take_bit 8 (drop_bit n b)"
    by (auto simp: bit_eq_iff bit_simps)
next
  assume "take_bit 8 (drop_bit n a) = take_bit 8 (drop_bit n b)"
  then have "bit (take_bit 8 (drop_bit n a)) i = bit (take_bit 8 (drop_bit n b)) i" for i
    by simp
  then show "(ucast (drop_bit n a) :: u8) = ucast (drop_bit n b)"
    by (auto simp: bit_eq_iff bit_simps)
qed

lemma take_bit_32_bytes:
  "take_bit 32 a = take_bit 32 b \<longleftrightarrow>
    take_bit 8 a = take_bit 8 b \<and>
    take_bit 8 (drop_bit 8 a) = take_bit 8 (drop_bit 8 b) \<and>
    take_bit 8 (drop_bit 16 a) = take_bit 8 (drop_bit 16 b) \<and>
    take_bit 8 (drop_bit 24 a) = take_bit 8 (drop_bit 24 b)" (is "?l \<longleftrightarrow> ?r") for a b :: u64
proof
  assume l: ?l
  have "bit a i = bit b i" if "i < 32" for i
    using arg_cong [OF l, of "\<lambda>w. bit w i"] that by (simp add: bit_simps)
  then show ?r by (auto simp: bit_eq_iff bit_simps)
next
  assume r: ?r
  have byte: "bit c (n + j) = bit (take_bit 8 (drop_bit n c)) j" if "j < 8" for c :: u64 and n j
    using that by (simp add: bit_simps)
  have "bit a i = bit b i" if "i < 32" for i
  proof -
    have "i = 0 + i mod 8 \<or> i = 8 + i mod 8 \<or> i = 16 + i mod 8 \<or> i = 24 + i mod 8"
      using that by presburger
    then obtain n where n: "n \<in> {0, 8, 16, 24}" "i = n + i mod 8" by blast
    then have "take_bit 8 (drop_bit n a) = take_bit 8 (drop_bit n b)" using r by auto
    then have "bit a (n + i mod 8) = bit b (n + i mod 8)" by (simp add: byte)
    then show ?thesis using n(2) by simp
  qed
  then show ?l by (auto simp: bit_eq_iff bit_simps)
qed

text \<open>
  Tweak separation.  For one and the same label the tweaked hash inputs of two gate
  positions coincide exactly when the two gate ids agree modulo 2^32 and the half-gate
  selectors agree: the tweak is collision-free for up to 2^32 AND gates, and it repeats after
  that, because only four bytes of the 64-bit id enter.
\<close>

theorem tweak_eq_iff:
  assumes "wf_block x"
  shows "tweak x gid t = tweak x gid' t' \<longleftrightarrow> take_bit 32 gid = take_bit 32 gid' \<and> t = t'"
proof -
  have xor_inj: "a XOR b = a XOR c \<longleftrightarrow> b = c" for a b c :: u8
    by (metis word_xor_left_cancel)
  have "tweak x gid t = tweak x gid' t' \<longleftrightarrow>
      (ucast gid :: u8) = ucast gid' \<and>
      (ucast (drop_bit 8 gid) :: u8) = ucast (drop_bit 8 gid') \<and>
      (ucast (drop_bit 16 gid) :: u8) = ucast (drop_bit 16 gid') \<and>
      (ucast (drop_bit 24 gid) :: u8) = ucast (drop_bit 24 gid') \<and> t = t'"
    using assms by (elim wf_cases16) (simp add: tweak_def Let_def xor_inj)
  then show ?thesis
    using ucast_drop_eq_iff [of 0 gid gid'] by (auto simp: take_bit_32_bytes ucast_drop_eq_iff)
qed

lemma tweak_eq_iff_witness:
  "tweak zero_block (2 ^ 32 + 5) 1 = tweak zero_block 5 1 \<and> tweak zero_block 6 1 \<noteq> tweak zero_block 5 1"
  using tweak_eq_iff [OF wf_zero_block, of "2 ^ 32 + 5" 1 5 1]
    tweak_eq_iff [OF wf_zero_block, of 6 1 5 1]
  by simp

lemma aesni_encrypt_eq_portable_witness:
  "\<exists>ni. aesni_documented ni \<and>
    encrypt_ni ni (FixedKeyAES_ni_init ni zero_block) zero_block =
      encrypt (FixedKeyAES_init zero_block) zero_block"
proof (intro exI conjI)
  let ?ni = "\<lparr>aesenc = (\<lambda>a k. xor_block (columns_mixed (sub_bytes (rows_shifted a))) k),
    aesenclast = (\<lambda>a k. xor_block (sub_bytes (rows_shifted a)) k),
    aeskeygenassist = keygen_assisted\<rparr>"
  show doc: "aesni_documented ?ni" by (simp add: aesni_documented_def)
  show "encrypt_ni ?ni (FixedKeyAES_ni_init ?ni zero_block) zero_block =
      encrypt (FixedKeyAES_init zero_block) zero_block"
    by (rule aesni_encrypt_eq_portable [OF doc]) simp_all
qed

end
