(* ===== verification/AES_Vectors.thy ===== *)
theory AES_Vectors
  imports AES128
begin

text \<open>
  The example vector of FIPS-197 (appendix C.1: key 000102..0f, plaintext 00112233..ff),
  evaluated round by round in the kernel: an anchor for the S-box, the round constants, the
  byte order of the state and the number of rounds in \<^verbatim>\<open>FixedKeyAES\<close>.
\<close>

lemma fips_round_keys:
  "expand_round [0, 1, 2, 3, 4, 5, 6, 7, 8, 9, 10, 11, 12, 13, 14, 15] (Suc 0) =
    [214, 170, 116, 253, 210, 175, 114, 250, 218, 166, 120, 241, 214, 171, 118, 254]"
  "expand_round [214, 170, 116, 253, 210, 175, 114, 250, 218, 166, 120, 241, 214, 171, 118, 254] 2 =
    [182, 146, 207, 11, 100, 61, 189, 241, 190, 155, 197, 0, 104, 48, 179, 254]"
  "expand_round [182, 146, 207, 11, 100, 61, 189, 241, 190, 155, 197, 0, 104, 48, 179, 254] 3 =
    [182, 255, 116, 78, 210, 194, 201, 191, 108, 89, 12, 191, 4, 105, 191, 65]"
  "expand_round [182, 255, 116, 78, 210, 194, 201, 191, 108, 89, 12, 191, 4, 105, 191, 65] 4 =
    [71, 247, 247, 188, 149, 53, 62, 3, 249, 108, 50, 188, 253, 5, 141, 253]"
  "expand_round [71, 247, 247, 188, 149, 53, 62, 3, 249, 108, 50, 188, 253, 5, 141, 253] 5 =
    [60, 170, 163, 232, 169, 159, 157, 235, 80, 243, 175, 87, 173, 246, 34, 170]"
  "expand_round [60, 170, 163, 232, 169, 159, 157, 235, 80, 243, 175, 87, 173, 246, 34, 170] 6 =
    [94, 57, 15, 125, 247, 166, 146, 150, 167, 85, 61, 193, 10, 163, 31, 107]"
  "expand_round [94, 57, 15, 125, 247, 166, 146, 150, 167, 85, 61, 193, 10, 163, 31, 107] 7 =
    [20, 249, 112, 26, 227, 95, 226, 140, 68, 10, 223, 77, 78, 169, 192, 38]"
  "expand_round [20, 249, 112, 26, 227, 95, 226, 140, 68, 10, 223, 77, 78, 169, 192, 38] 8 =
    [71, 67, 135, 53, 164, 28, 101, 185, 224, 22, 186, 244, 174, 191, 122, 210]"
  "expand_round [71, 67, 135, 53, 164, 28, 101, 185, 224, 22, 186, 244, 174, 191, 122, 210] 9 =
    [84, 153, 50, 209, 240, 133, 87, 104, 16, 147, 237, 156, 190, 44, 151, 78]"
  "expand_round [84, 153, 50, 209, 240, 133, 87, 104, 16, 147, 237, 156, 190, 44, 151, 78] 10 =
    [19, 17, 29, 127, 227, 148, 74, 23, 243, 7, 167, 139, 77, 43, 48, 197]"
  by (simp_all add: expand_round_def sub_byte_def SBOX_def RCON_def Let_def upt_4 upt_4_16)

lemma fips_rounds:
  "aes_round [0, 16, 32, 48, 64, 80, 96, 112, 128, 144, 160, 176, 192, 208, 224, 240] [214, 170, 116, 253, 210, 175, 114, 250, 218, 166, 120, 241, 214, 171, 118, 254] =
    [137, 216, 16, 232, 133, 90, 206, 104, 45, 24, 67, 216, 203, 18, 143, 228]"
  "aes_round [137, 216, 16, 232, 133, 90, 206, 104, 45, 24, 67, 216, 203, 18, 143, 228] [182, 146, 207, 11, 100, 61, 189, 241, 190, 155, 197, 0, 104, 48, 179, 254] =
    [73, 21, 89, 143, 85, 229, 215, 160, 218, 202, 148, 250, 31, 10, 99, 247]"
  "aes_round [73, 21, 89, 143, 85, 229, 215, 160, 218, 202, 148, 250, 31, 10, 99, 247] [182, 255, 116, 78, 210, 194, 201, 191, 108, 89, 12, 191, 4, 105, 191, 65] =
    [250, 99, 106, 40, 37, 179, 57, 201, 64, 102, 138, 49, 87, 36, 77, 23]"
  "aes_round [250, 99, 106, 40, 37, 179, 57, 201, 64, 102, 138, 49, 87, 36, 77, 23] [71, 247, 247, 188, 149, 53, 62, 3, 249, 108, 50, 188, 253, 5, 141, 253] =
    [36, 114, 64, 35, 105, 102, 179, 250, 110, 210, 117, 50, 136, 66, 91, 108]"
  "aes_round [36, 114, 64, 35, 105, 102, 179, 250, 110, 210, 117, 50, 136, 66, 91, 108] [60, 170, 163, 232, 169, 159, 157, 235, 80, 243, 175, 87, 173, 246, 34, 170] =
    [200, 22, 119, 188, 155, 122, 201, 59, 37, 2, 121, 146, 176, 38, 25, 150]"
  "aes_round [200, 22, 119, 188, 155, 122, 201, 59, 37, 2, 121, 146, 176, 38, 25, 150] [94, 57, 15, 125, 247, 166, 146, 150, 167, 85, 61, 193, 10, 163, 31, 107] =
    [198, 47, 225, 9, 247, 94, 237, 195, 204, 121, 57, 93, 132, 249, 207, 93]"
  "aes_round [198, 47, 225, 9, 247, 94, 237, 195, 204, 121, 57, 93, 132, 249, 207, 93] [20, 249, 112, 26, 227, 95, 226, 140, 68, 10, 223, 77, 78, 169, 192, 38] =
    [209, 135, 108, 15, 121, 196, 48, 10, 180, 85, 148, 173, 214, 111, 244, 31]"
  "aes_round [209, 135, 108, 15, 121, 196, 48, 10, 180, 85, 148, 173, 214, 111, 244, 31] [71, 67, 135, 53, 164, 28, 101, 185, 224, 22, 186, 244, 174, 191, 122, 210] =
    [253, 227, 186, 210, 5, 229, 208, 215, 53, 71, 150, 78, 241, 254, 55, 241]"
  "aes_round [253, 227, 186, 210, 5, 229, 208, 215, 53, 71, 150, 78, 241, 254, 55, 241] [84, 153, 50, 209, 240, 133, 87, 104, 16, 147, 237, 156, 190, 44, 151, 78] =
    [189, 110, 124, 61, 242, 181, 119, 158, 11, 97, 33, 110, 139, 16, 182, 137]"
  by (simp_all add: aes_round_def sub_bytes_def shift_rows_def mix_columns_def mix_column_def
      add_round_key_def xtime_def sub_byte_def SBOX_def Let_def upt_16 upt_4)

lemma fips_last_round:
  "add_round_key (shift_rows (sub_bytes [189, 110, 124, 61, 242, 181, 119, 158, 11, 97, 33, 110, 139, 16, 182, 137])) [19, 17, 29, 127, 227, 148, 74, 23, 243, 7, 167, 139, 77, 43, 48, 197] =
    [105, 196, 224, 216, 106, 123, 4, 48, 216, 205, 183, 128, 112, 180, 197, 90]"
  by (simp add: sub_bytes_def shift_rows_def add_round_key_def sub_byte_def SBOX_def Let_def upt_16)

definition fips_key :: block where
  "fips_key = [0, 1, 2, 3, 4, 5, 6, 7, 8, 9, 10, 11, 12, 13, 14, 15]"

definition fips_plaintext :: block where
  "fips_plaintext = [0x00, 0x11, 0x22, 0x33, 0x44, 0x55, 0x66, 0x77,
    0x88, 0x99, 0xaa, 0xbb, 0xcc, 0xdd, 0xee, 0xff]"

definition fips_ciphertext :: block where
  "fips_ciphertext = [0x69, 0xc4, 0xe0, 0xd8, 0x6a, 0x7b, 0x04, 0x30,
    0xd8, 0xcd, 0xb7, 0x80, 0x70, 0xb4, 0xc5, 0x5a]"

lemma upt_1_11: "[Suc 0..<11] = [Suc 0, 2, 3, 4, 5, 6, 7, 8, 9, 10]"
  by (simp add: upt_rec)

lemma upt_1_10: "[Suc 0..<10] = [Suc 0, 2, 3, 4, 5, 6, 7, 8, 9]"
  by (simp add: upt_rec)

lemma fips_schedule:
  "rk (FixedKeyAES_init fips_key) =
    [[0, 1, 2, 3, 4, 5, 6, 7, 8, 9, 10, 11, 12, 13, 14, 15],
     [214, 170, 116, 253, 210, 175, 114, 250, 218, 166, 120, 241, 214, 171, 118, 254],
     [182, 146, 207, 11, 100, 61, 189, 241, 190, 155, 197, 0, 104, 48, 179, 254],
     [182, 255, 116, 78, 210, 194, 201, 191, 108, 89, 12, 191, 4, 105, 191, 65],
     [71, 247, 247, 188, 149, 53, 62, 3, 249, 108, 50, 188, 253, 5, 141, 253],
     [60, 170, 163, 232, 169, 159, 157, 235, 80, 243, 175, 87, 173, 246, 34, 170],
     [94, 57, 15, 125, 247, 166, 146, 150, 167, 85, 61, 193, 10, 163, 31, 107],
     [20, 249, 112, 26, 227, 95, 226, 140, 68, 10, 223, 77, 78, 169, 192, 38],
     [71, 67, 135, 53, 164, 28, 101, 185, 224, 22, 186, 244, 174, 191, 122, 210],
     [84, 153, 50, 209, 240, 133, 87, 104, 16, 147, 237, 156, 190, 44, 151, 78],
     [19, 17, 29, 127, 227, 148, 74, 23, 243, 7, 167, 139, 77, 43, 48, 197]]"
  by (simp add: FixedKeyAES_init_def fips_key_def upt_1_11 fips_round_keys)

text \<open>
  The published vector.  \<^verbatim>\<open>FixedKeyAES(key).encrypt(pt)\<close> of the FIPS-197 example key and
  plaintext is the published ciphertext 69c4e0d86a7b0430d8cdb78070b4c55a.
\<close>

theorem encrypt_fips197: "encrypt (FixedKeyAES_init fips_key) fips_plaintext = fips_ciphertext"
proof -
  have start: "add_round_key fips_plaintext [0, 1, 2, 3, 4, 5, 6, 7, 8, 9, 10, 11, 12, 13, 14, 15] =
      [0, 16, 32, 48, 64, 80, 96, 112, 128, 144, 160, 176, 192, 208, 224, 240]"
    by (simp add: add_round_key_def fips_plaintext_def upt_16)
  have "take 16 fips_plaintext = fips_plaintext" by (simp add: fips_plaintext_def)
  then show ?thesis
    by (simp add: encrypt_def Let_def fips_schedule upt_1_10 start fips_rounds fips_last_round
        fips_ciphertext_def)
qed

end
