(* ===== verification/AES_Permutation.thy ===== *)
theory AES_Permutation
  imports AES128
begin

text \<open>
  AES-128 encryption (\<^verbatim>\<open>FixedKeyAES::encrypt\<close>) is a permutation of the blocks for every key:
  each layer of a round is undone by an explicit inverse.
\<close>

section \<open>The byte substitution\<close>

definition inv_rows :: "u8 list list" where
  "inv_rows =
    [[82, 9, 106, 213, 48, 54, 165, 56, 191, 64, 163, 158, 129, 243, 215, 251],
     [124, 227, 57, 130, 155, 47, 255, 135, 52, 142, 67, 68, 196, 222, 233, 203],
     [84, 123, 148, 50, 166, 194, 35, 61, 238, 76, 149, 11, 66, 250, 195, 78],
     [8, 46, 161, 102, 40, 217, 36, 178, 118, 91, 162, 73, 109, 139, 209, 37],
     [114, 248, 246, 100, 134, 104, 152, 22, 212, 164, 92, 204, 93, 101, 182, 146],
     [108, 112, 72, 80, 253, 237, 185, 218, 94, 21, 70, 87, 167, 141, 157, 132],
     [144, 216, 171, 0, 140, 188, 211, 10, 247, 228, 88, 5, 184, 179, 69, 6],
     [208, 44, 30, 143, 202, 63, 15, 2, 193, 175, 189, 3, 1, 19, 138, 107],
     [58, 145, 17, 65, 79, 103, 220, 234, 151, 242, 207, 206, 240, 180, 230, 115],
     [150, 172, 116, 34, 231, 173, 53, 133, 226, 249, 55, 232, 28, 117, 223, 110],
     [71, 241, 26, 113, 29, 41, 197, 137, 111, 183, 98, 14, 170, 24, 190, 27],
     [252, 86, 62, 75, 198, 210, 121, 32, 154, 219, 192, 254, 120, 205, 90, 244],
     [31, 221, 168, 51, 136, 7, 199, 49, 177, 18, 16, 89, 39, 128, 236, 95],
     [96, 81, 127, 169, 25, 181, 74, 13, 45, 229, 122, 159, 147, 201, 156, 239],
     [160, 224, 59, 77, 174, 42, 245, 176, 200, 235, 187, 60, 131, 83, 153, 97],
     [23, 43, 4, 126, 186, 119, 214, 38, 225, 105, 20, 99, 85, 33, 12, 125]]"

definition inv_sub_byte :: "u8 \<Rightarrow> u8" where
  "inv_sub_byte y = inv_rows ! unat (drop_bit 4 y) ! unat (y AND 15)"

lemmas inv_eval = inv_sub_byte_def inv_rows_def

lemma inv_sub_byte_rows:
  "map inv_sub_byte [0x63, 0x7c, 0x77, 0x7b, 0xf2, 0x6b, 0x6f, 0xc5, 0x30, 0x01, 0x67, 0x2b, 0xfe, 0xd7, 0xab, 0x76] =
    [0, 1, 2, 3, 4, 5, 6, 7, 8, 9, 10, 11, 12, 13, 14, 15]"
  "map inv_sub_byte [0xca, 0x82, 0xc9, 0x7d, 0xfa, 0x59, 0x47, 0xf0, 0xad, 0xd4, 0xa2, 0xaf, 0x9c, 0xa4, 0x72, 0xc0] =
    [16, 17, 18, 19, 20, 21, 22, 23, 24, 25, 26, 27, 28, 29, 30, 31]"
  "map inv_sub_byte [0xb7, 0xfd, 0x93, 0x26, 0x36, 0x3f, 0xf7, 0xcc, 0x34, 0xa5, 0xe5, 0xf1, 0x71, 0xd8, 0x31, 0x15] =
    [32, 33, 34, 35, 36, 37, 38, 39, 40, 41, 42, 43, 44, 45, 46, 47]"
  "map inv_sub_byte [0x04, 0xc7, 0x23, 0xc3, 0x18, 0x96, 0x05, 0x9a, 0x07, 0x12, 0x80, 0xe2, 0xeb, 0x27, 0xb2, 0x75] =
    [48, 49, 50, 51, 52, 53, 54, 55, 56, 57, 58, 59, 60, 61, 62, 63]"
  "map inv_sub_byte [0x09, 0x83, 0x2c, 0x1a, 0x1b, 0x6e, 0x5a, 0xa0, 0x52, 0x3b, 0xd6, 0xb3, 0x29, 0xe3, 0x2f, 0x84] =
    [64, 65, 66, 67, 68, 69, 70, 71, 72, 73, 74, 75, 76, 77, 78, 79]"
  "map inv_sub_byte [0x53, 0xd1, 0x00, 0xed, 0x20, 0xfc, 0xb1, 0x5b, 0x6a, 0xcb, 0xbe, 0x39, 0x4a, 0x4c, 0x58, 0xcf] =
    [80, 81, 82, 83, 84, 85, 86, 87, 88, 89, 90, 91, 92, 93, 94, 95]"
  "map inv_sub_byte [0xd0, 0xef, 0xaa, 0xfb, 0x43, 0x4d, 0x33, 0x85, 0x45, 0xf9, 0x02, 0x7f, 0x50, 0x3c, 0x9f, 0xa8] =
    [96, 97, 98, 99, 100, 101, 102, 103, 104, 105, 106, 107, 108, 109, 110, 111]"
  "map inv_sub_byte [0x51, 0xa3, 0x40, 0x8f, 0x92, 0x9d, 0x38, 0xf5, 0xbc, 0xb6, 0xda, 0x21, 0x10, 0xff, 0xf3, 0xd2] =
    [112, 113, 114, 115, 116, 117, 118, 119, 120, 121, 122, 123, 124, 125, 126, 127]"
  "map inv_sub_byte [0xcd, 0x0c, 0x13, 0xec, 0x5f, 0x97, 0x44, 0x17, 0xc4, 0xa7, 0x7e, 0x3d, 0x64, 0x5d, 0x19, 0x73] =
    [128, 129, 130, 131, 132, 133, 134, 135, 136, 137, 138, 139, 140, 141, 142, 143]"
  "map inv_sub_byte [0x60, 0x81, 0x4f, 0xdc, 0x22, 0x2a, 0x90, 0x88, 0x46, 0xee, 0xb8, 0x14, 0xde, 0x5e, 0x0b, 0xdb] =
    [144, 145, 146, 147, 148, 149, 150, 151, 152, 153, 154, 155, 156, 157, 158, 159]"
  "map inv_sub_byte [0xe0, 0x32, 0x3a, 0x0a, 0x49, 0x06, 0x24, 0x5c, 0xc2, 0xd3, 0xac, 0x62, 0x91, 0x95, 0xe4, 0x79] =
    [160, 161, 162, 163, 164, 165, 166, 167, 168, 169, 170, 171, 172, 173, 174, 175]"
  "map inv_sub_byte [0xe7, 0xc8, 0x37, 0x6d, 0x8d, 0xd5, 0x4e, 0xa9, 0x6c, 0x56, 0xf4, 0xea, 0x65, 0x7a, 0xae, 0x08] =
    [176, 177, 178, 179, 180, 181, 182, 183, 184, 185, 186, 187, 188, 189, 190, 191]"
  "map inv_sub_byte [0xba, 0x78, 0x25, 0x2e, 0x1c, 0xa6, 0xb4, 0xc6, 0xe8, 0xdd, 0x74, 0x1f, 0x4b, 0xbd, 0x8b, 0x8a] =
    [192, 193, 194, 195, 196, 197, 198, 199, 200, 201, 202, 203, 204, 205, 206, 207]"
  "map inv_sub_byte [0x70, 0x3e, 0xb5, 0x66, 0x48, 0x03, 0xf6, 0x0e, 0x61, 0x35, 0x57, 0xb9, 0x86, 0xc1, 0x1d, 0x9e] =
    [208, 209, 210, 211, 212, 213, 214, 215, 216, 217, 218, 219, 220, 221, 222, 223]"
  "map inv_sub_byte [0xe1, 0xf8, 0x98, 0x11, 0x69, 0xd9, 0x8e, 0x94, 0x9b, 0x1e, 0x87, 0xe9, 0xce, 0x55, 0x28, 0xdf] =
    [224, 225, 226, 227, 228, 229, 230, 231, 232, 233, 234, 235, 236, 237, 238, 239]"
  "map inv_sub_byte [0x8c, 0xa1, 0x89, 0x0d, 0xbf, 0xe6, 0x42, 0x68, 0x41, 0x99, 0x2d, 0x0f, 0xb0, 0x54, 0xbb, 0x16] =
    [240, 241, 242, 243, 244, 245, 246, 247, 248, 249, 250, 251, 252, 253, 254, 255]"
  by (simp_all add: inv_eval)

text \<open>\<^verbatim>\<open>SBOX\<close> is the concatenation of its sixteen rows.\<close>

lemma SBOX_rows:
  "SBOX =
    [0x63, 0x7c, 0x77, 0x7b, 0xf2, 0x6b, 0x6f, 0xc5, 0x30, 0x01, 0x67, 0x2b, 0xfe, 0xd7, 0xab, 0x76] @
    [0xca, 0x82, 0xc9, 0x7d, 0xfa, 0x59, 0x47, 0xf0, 0xad, 0xd4, 0xa2, 0xaf, 0x9c, 0xa4, 0x72, 0xc0] @
    [0xb7, 0xfd, 0x93, 0x26, 0x36, 0x3f, 0xf7, 0xcc, 0x34, 0xa5, 0xe5, 0xf1, 0x71, 0xd8, 0x31, 0x15] @
    [0x04, 0xc7, 0x23, 0xc3, 0x18, 0x96, 0x05, 0x9a, 0x07, 0x12, 0x80, 0xe2, 0xeb, 0x27, 0xb2, 0x75] @
    [0x09, 0x83, 0x2c, 0x1a, 0x1b, 0x6e, 0x5a, 0xa0, 0x52, 0x3b, 0xd6, 0xb3, 0x29, 0xe3, 0x2f, 0x84] @
    [0x53, 0xd1, 0x00, 0xed, 0x20, 0xfc, 0xb1, 0x5b, 0x6a, 0xcb, 0xbe, 0x39, 0x4a, 0x4c, 0x58, 0xcf] @
    [0xd0, 0xef, 0xaa, 0xfb, 0x43, 0x4d, 0x33, 0x85, 0x45, 0xf9, 0x02, 0x7f, 0x50, 0x3c, 0x9f, 0xa8] @
    [0x51, 0xa3, 0x40, 0x8f, 0x92, 0x9d, 0x38, 0xf5, 0xbc, 0xb6, 0xda, 0x21, 0x10, 0xff, 0xf3, 0xd2] @
    [0xcd, 0x0c, 0x13, 0xec, 0x5f, 0x97, 0x44, 0x17, 0xc4, 0xa7, 0x7e, 0x3d, 0x64, 0x5d, 0x19, 0x73] @
    [0x60, 0x81, 0x4f, 0xdc, 0x22, 0x2a, 0x90, 0x88, 0x46, 0xee, 0xb8, 0x14, 0xde, 0x5e, 0x0b, 0xdb] @
    [0xe0, 0x32, 0x3a, 0x0a, 0x49, 0x06, 0x24, 0x5c, 0xc2, 0xd3, 0xac, 0x62, 0x91, 0x95, 0xe4, 0x79] @
    [0xe7, 0xc8, 0x37, 0x6d, 0x8d, 0xd5, 0x4e, 0xa9, 0x6c, 0x56, 0xf4, 0xea, 0x65, 0x7a, 0xae, 0x08] @
    [0xba, 0x78, 0x25, 0x2e, 0x1c, 0xa6, 0xb4, 0xc6, 0xe8, 0xdd, 0x74, 0x1f, 0x4b, 0xbd, 0x8b, 0x8a] @
    [0x70, 0x3e, 0xb5, 0x66, 0x48, 0x03, 0xf6, 0x0e, 0x61, 0x35, 0x57, 0xb9, 0x86, 0xc1, 0x1d, 0x9e] @
    [0xe1, 0xf8, 0x98, 0x11, 0x69, 0xd9, 0x8e, 0x94, 0x9b, 0x1e, 0x87, 0xe9, 0xce, 0x55, 0x28, 0xdf] @
    [0x8c, 0xa1, 0x89, 0x0d, 0xbf, 0xe6, 0x42, 0x68, 0x41, 0x99, 0x2d, 0x0f, 0xb0, 0x54, 0xbb, 0x16]"
  by (simp add: SBOX_def)

lemma map_inv_SBOX: "map inv_sub_byte SBOX = map word_of_nat [0..<256]"
proof -
  have "map inv_sub_byte SBOX =
    [0, 1, 2, 3, 4, 5, 6, 7, 8, 9, 10, 11, 12, 13, 14, 15] @
    [16, 17, 18, 19, 20, 21, 22, 23, 24, 25, 26, 27, 28, 29, 30, 31] @
    [32, 33, 34, 35, 36, 37, 38, 39, 40, 41, 42, 43, 44, 45, 46, 47] @
    [48, 49, 50, 51, 52, 53, 54, 55, 56, 57, 58, 59, 60, 61, 62, 63] @
    [64, 65, 66, 67, 68, 69, 70, 71, 72, 73, 74, 75, 76, 77, 78, 79] @
    [80, 81, 82, 83, 84, 85, 86, 87, 88, 89, 90, 91, 92, 93, 94, 95] @
    [96, 97, 98, 99, 100, 101, 102, 103, 104, 105, 106, 107, 108, 109, 110, 111] @
    [112, 113, 114, 115, 116, 117, 118, 119, 120, 121, 122, 123, 124, 125, 126, 127] @
    [128, 129, 130, 131, 132, 133, 134, 135, 136, 137, 138, 139, 140, 141, 142, 143] @
    [144, 145, 146, 147, 148, 149, 150, 151, 152, 153, 154, 155, 156, 157, 158, 159] @
    [160, 161, 162, 163, 164, 165, 166, 167, 168, 169, 170, 171, 172, 173, 174, 175] @
    [176, 177, 178, 179, 180, 181, 182, 183, 184, 185, 186, 187, 188, 189, 190, 191] @
    [192, 193, 194, 195, 196, 197, 198, 199, 200, 201, 202, 203, 204, 205, 206, 207] @
    [208, 209, 210, 211, 212, 213, 214, 215, 216, 217, 218, 219, 220, 221, 222, 223] @
    [224, 225, 226, 227, 228, 229, 230, 231, 232, 233, 234, 235, 236, 237, 238, 239] @
    [240, 241, 242, 243, 244, 245, 246, 247, 248, 249, 250, 251, 252, 253, 254, 255]"
    by (simp only: SBOX_rows map_append inv_sub_byte_rows)
  also have "\<dots> = map word_of_nat [0..<256]" by (simp add: upt_rec)
  finally show ?thesis .
qed

lemma length_SBOX [simp]: "length SBOX = 256"
  by (simp add: SBOX_def)

lemma inv_sub_byte [simp]: "inv_sub_byte (sub_byte x) = x"
proof -
  have "unat x < 2 ^ LENGTH(8)" by (rule unsigned_less)
  then have lt: "unat x < 256" by simp
  then have "inv_sub_byte (SBOX ! unat x) = map inv_sub_byte SBOX ! unat x" by simp
  also have "\<dots> = x" using lt by (simp add: map_inv_SBOX)
  finally show ?thesis by (simp add: sub_byte_def)
qed

lemma sub_byte_inject [simp]: "sub_byte x = sub_byte y \<longleftrightarrow> x = y"
  by (metis inv_sub_byte)

section \<open>The layers of a round\<close>

definition inv_sub_bytes :: "u8 list \<Rightarrow> u8 list" where
  "inv_sub_bytes st = map (\<lambda>i. inv_sub_byte (st ! i)) [0..<16]"

definition inv_shift_rows :: "u8 list \<Rightarrow> u8 list" where
  "inv_shift_rows st = map (\<lambda>i. st ! ((i + 12 * (i mod 4)) mod 16)) [0..<16]"

text \<open>The column matrix has order four, so three more applications undo one.\<close>

definition inv_mix_columns :: "u8 list \<Rightarrow> u8 list" where
  "inv_mix_columns st = mix_columns (mix_columns (mix_columns st))"

lemma inv_sub_bytes: "wf_block st \<Longrightarrow> inv_sub_bytes (sub_bytes st) = st"
  by (auto simp: inv_sub_bytes_def sub_bytes_def wf_block_def intro: nth_equalityI)

lemma inv_shift_rows: "wf_block st \<Longrightarrow> inv_shift_rows (shift_rows st) = st"
  by (erule wf_cases16) (simp add: shift_rows_def inv_shift_rows_def upt_16)

lemma wf_mix_columns [simp]: "wf_block st \<Longrightarrow> wf_block (mix_columns st)"
  by (simp add: mix_columns_eq columns_mixed_def wf_block_def)

lemma mix_columns_twice:
  assumes "wf_block st"
  shows "mix_columns (mix_columns st) = map (\<lambda>i. let c = 4 * (i div 4); a = (\<lambda>j. st ! (c + (i + j) mod 4))
     in xtime (xtime (a 0)) XOR xtime (xtime (a 2)) XOR a 0) [0..<16]"
  using assms
  by (subst mix_columns_eq, simp, subst mix_columns_eq, simp)
    (auto elim!: wf_cases16 simp: columns_mixed_def upt_16 xtime_xor xor_ac)

lemma inv_mix_columns: "wf_block st \<Longrightarrow> inv_mix_columns (mix_columns st) = st"
  unfolding inv_mix_columns_def
  by (subst mix_columns_twice, simp, simp add: mix_columns_twice)
    (auto elim!: wf_cases16 simp: upt_16 xtime_xor xor_ac)

section \<open>Encryption\<close>

definition inv_round :: "u8 list \<Rightarrow> block \<Rightarrow> u8 list" where
  "inv_round s k = inv_sub_bytes (inv_shift_rows (inv_mix_columns (add_round_key s k)))"

definition decrypt :: "FixedKeyAES \<Rightarrow> block \<Rightarrow> block" where
  "decrypt aes ct =
    (let s = inv_sub_bytes (inv_shift_rows (add_round_key ct (rk aes ! 10)));
         s = foldr (\<lambda>r s. inv_round s (rk aes ! r)) [1..<10] s
     in add_round_key s (rk aes ! 0))"

lemma add_round_key_twice: "wf_block s \<Longrightarrow> add_round_key (add_round_key s k) k = s"
  by (simp add: add_round_key_xor)

lemma wf_shift_rows [simp]: "wf_block st \<Longrightarrow> wf_block (shift_rows st)"
  by (simp add: shift_rows_eq)

lemma inv_round: "wf_block s \<Longrightarrow> inv_round (aes_round s k) k = s"
  by (simp add: inv_round_def aes_round_def add_round_key_twice inv_mix_columns inv_shift_rows
      inv_sub_bytes)

lemma wf_rounds: "wf_block s \<Longrightarrow> wf_block (foldl (\<lambda>s r. aes_round s (f r)) s rs)"
  by (induction rs arbitrary: s) auto

lemma inv_rounds:
  "wf_block s \<Longrightarrow> foldr (\<lambda>r s. inv_round s (f r)) rs (foldl (\<lambda>s r. aes_round s (f r)) s rs) = s"
  by (induction rs arbitrary: s) (auto simp: inv_round)

lemma decrypt_encrypt:
  assumes "wf_block x"
  shows "decrypt aes (encrypt aes x) = x"
proof -
  have "take 16 x = x" using assms by (simp add: wf_block_def)
  then show ?thesis
    using assms
    by (simp add: decrypt_def encrypt_def Let_def add_round_key_twice inv_shift_rows inv_sub_bytes
        inv_rounds wf_rounds)
qed

lemma finite_blocks: "finite (Collect wf_block)"
proof -
  have "Collect wf_block = {xs :: u8 list. set xs \<subseteq> UNIV \<and> length xs = 16}"
    by (auto simp: wf_block_def)
  then show ?thesis using finite_lists_length_eq [of "UNIV :: u8 set" 16] by simp
qed

lemma inj_on_encrypt: "inj_on (encrypt aes) (Collect wf_block)"
  by (rule inj_on_inverseI [where g = "decrypt aes"]) (simp add: decrypt_encrypt)


end
