(* ===== verification/Circuit.thy ===== *)
theory Circuit
  imports Block
begin

text \<open>
  The Bristol circuit of \<^verbatim>\<open>gc_mmo.hpp\<close>: its gates and wires, its evaluation on plain bits
  (\<^verbatim>\<open>eval_circuit_plain\<close>), and the bit order of the AES circuit (\<^verbatim>\<open>bits128_to_block\<close>,
  \<^verbatim>\<open>block_to_bits128\<close>).  Wire indices keep the 32 bits of the code and counts the 64 bits; an
  index outside the wire vector is an \<open>undefined_access\<close>.
\<close>

datatype GateType = XOR_gate | AND_gate | INV_gate

record Gate =
  gate_type :: GateType
  in0 :: u32
  in1 :: u32
  gate_out :: u32

record Circuit =
  n_gates :: u64
  n_wires :: u64
  n_input0 :: u64
  n_input1 :: u64
  n_output :: u64
  n_and :: u64
  n_xor :: u64
  gates :: "Gate list"
  output_wires :: "u32 list"

section \<open>Plain evaluation\<close>

definition plain_gate :: "u8 list \<Rightarrow> Gate \<Rightarrow> u8 list result" where
  "plain_gate w g =
    bind_result (vec_read w (unat (in0 g))) (\<lambda>a.
      case gate_type g of
        XOR_gate \<Rightarrow> bind_result (vec_read w (unat (in1 g))) (\<lambda>b.
                      vec_write w (unat (gate_out g)) (a XOR b))
      | AND_gate \<Rightarrow> bind_result (vec_read w (unat (in1 g))) (\<lambda>b.
                      vec_write w (unat (gate_out g)) (a AND b))
      | INV_gate \<Rightarrow> vec_write w (unat (gate_out g)) (a XOR 1))"

definition read_outputs :: "Circuit \<Rightarrow> 'a list \<Rightarrow> 'a list result" where
  "read_outputs c w =
    map_result (\<lambda>i. bind_result (vec_read (output_wires c) i) (\<lambda>o_i. vec_read w (unat o_i)))
      [0..<unat (n_output c)]"

definition eval_circuit_plain :: "Circuit \<Rightarrow> u8 list \<Rightarrow> u8 list result" where
  "eval_circuit_plain c in_bits =
    (if length in_bits \<noteq> unat (n_input0 c + n_input1 c)
     then Inl (runtime_error ''plain eval: bad input size'')
     else
       bind_result (fold_result (\<lambda>w i. vec_write w i (in_bits ! i AND 1))
                      (replicate (unat (n_wires c)) 0) [0..<length in_bits]) (\<lambda>w.
       bind_result (fold_result plain_gate w (gates c)) (\<lambda>w.
       read_outputs c w)))"

section \<open>Bit order of the AES circuit\<close>

definition bits128_to_block :: "u8 list \<Rightarrow> block" where
  "bits128_to_block bits =
    (let be_bits = map (\<lambda>i. bits ! (127 - i) AND 1) [0..<128]
     in foldl (\<lambda>out i. if be_bits ! i \<noteq> 0
                 then out[i div 8 := out ! (i div 8) OR push_bit (7 - i mod 8) 1] else out)
          zero_block [0..<128])"

definition block_to_bits128 :: "block \<Rightarrow> u8 list" where
  "block_to_bits128 bl =
    (let be_bits = map (\<lambda>i. drop_bit (7 - i mod 8) (bl ! (i div 8)) AND 1) [0..<128]
     in map (\<lambda>i. be_bits ! (127 - i)) [0..<128])"

section \<open>Well-formed circuits\<close>

text \<open>
  What \<^verbatim>\<open>load_bristol\<close> does not check and the evaluators rely on: every gate reads inside the
  wire vector and writes inside it, above the input wires; the output wires are as many as
  announced and lie inside.  The number of gates fits the 64-bit AND counter.
\<close>

definition gate_ok :: "nat \<Rightarrow> nat \<Rightarrow> Gate \<Rightarrow> bool" where
  "gate_ok nin nw g \<longleftrightarrow>
    unat (in0 g) < nw \<and> unat (in1 g) < nw \<and> nin \<le> unat (gate_out g) \<and> unat (gate_out g) < nw"

definition n_inputs :: "Circuit \<Rightarrow> nat" where
  "n_inputs c = unat (n_input0 c) + unat (n_input1 c)"

definition circuit_ok :: "Circuit \<Rightarrow> bool" where
  "circuit_ok c \<longleftrightarrow>
    n_inputs c \<le> unat (n_wires c) \<and>
    list_all (gate_ok (n_inputs c) (unat (n_wires c))) (gates c) \<and>
    length (gates c) < 2 ^ 64 \<and>
    length (output_wires c) = unat (n_output c) \<and>
    list_all (\<lambda>w. unat w < unat (n_wires c)) (output_wires c)"

lemma n_inputs_unat:
  assumes "circuit_ok c"
  shows "unat (n_input0 c + n_input1 c) = n_inputs c"
proof -
  have "unat (n_wires c) < 2 ^ LENGTH(64)" by (rule unsigned_less)
  then have "n_inputs c < 2 ^ 64" using assms by (simp add: circuit_ok_def)
  then show ?thesis by (simp add: n_inputs_def unat_word_ariths)
qed

text \<open>Bits are the byte values 0 and 1; the plain evaluation keeps them.\<close>

definition is_bit :: "u8 \<Rightarrow> bool" where
  "is_bit b \<longleftrightarrow> b = 0 \<or> b = 1"

lemma is_bit_simps [simp]: "is_bit 0" "is_bit 1" "is_bit (b AND 1)"
proof -
  have "b AND 1 = 0 \<or> b AND 1 = 1" by (simp add: and_one_eq mod_2_eq_odd)
  then show "is_bit (b AND 1)" by (simp add: is_bit_def)
qed (simp_all add: is_bit_def)

lemma is_bit_ops [intro]:
  "is_bit a \<Longrightarrow> is_bit b \<Longrightarrow> is_bit (a XOR b)"
  "is_bit a \<Longrightarrow> is_bit b \<Longrightarrow> is_bit (a AND b)"
  by (auto simp: is_bit_def)

lemma is_bit_ne_0: "is_bit b \<Longrightarrow> b \<noteq> 0 \<longleftrightarrow> b = 1"
  by (auto simp: is_bit_def)

lemma plain_gate_ok:
  assumes "gate_ok nin (length w) g"
  shows "plain_gate w g = Inr (w[unat (gate_out g) :=
    (case gate_type g of
       XOR_gate \<Rightarrow> w ! unat (in0 g) XOR w ! unat (in1 g)
     | AND_gate \<Rightarrow> w ! unat (in0 g) AND w ! unat (in1 g)
     | INV_gate \<Rightarrow> w ! unat (in0 g) XOR 1)])"
  using assms by (simp add: plain_gate_def gate_ok_def split: GateType.split)

lemma read_outputs_ok:
  assumes "circuit_ok c" "length w = unat (n_wires c)"
  shows "read_outputs c w = Inr (map (\<lambda>o_i. w ! unat o_i) (output_wires c))"
proof -
  have "read_outputs c w = Inr (map (\<lambda>i. w ! unat (output_wires c ! i)) [0..<unat (n_output c)])"
    unfolding read_outputs_def using assms
    by (intro map_result_Inr) (simp add: circuit_ok_def list_all_length)
  also have "map (\<lambda>i. w ! unat (output_wires c ! i)) [0..<unat (n_output c)] =
      map (\<lambda>o_i. w ! unat o_i) (output_wires c)"
    using assms(1) by (auto simp: circuit_ok_def intro: nth_equalityI)
  finally show ?thesis .
qed

section \<open>The two bit conversions are inverse\<close>

lemma length_block_to_bits128 [simp]: "length (block_to_bits128 bl) = 128"
  by (simp add: block_to_bits128_def Let_def)

lemma block_to_bits128_nth:
  "i < 128 \<Longrightarrow> block_to_bits128 bl ! i =
    drop_bit (7 - (127 - i) mod 8) (bl ! ((127 - i) div 8)) AND 1"
  by (simp add: block_to_bits128_def Let_def)

lemma is_bit_block_to_bits128 [simp]: "i < 128 \<Longrightarrow> is_bit (block_to_bits128 bl ! i)"
  by (simp add: block_to_bits128_nth)

lemma byte_position:
  assumes "j < 8" "m < 8"
  shows "8 * k + (7 - j) = 8 * q + m \<longleftrightarrow> k = q \<and> j = 7 - (m::nat)"
proof
  define i where "i = 7 - j"
  assume "8 * k + (7 - j) = 8 * q + m"
  then have eq: "8 * k + i = 8 * q + m" by (simp add: i_def)
  have "i < 8" using assms by (simp add: i_def)
  then have "(8 * k + i) div 8 = k" "(8 * q + m) div 8 = q" using assms by simp_all
  then have "k = q" using eq by simp
  then show "k = q \<and> j = 7 - m" using eq assms(1) by (simp add: i_def)
next
  assume "k = q \<and> j = 7 - m"
  then show "8 * k + (7 - j) = 8 * q + m" using assms(2) by simp
qed

lemma bit_push_bit_one: "j < 8 \<Longrightarrow> bit (push_bit a 1 :: u8) j \<longleftrightarrow> j = a"
  by (auto simp: bit_exp_iff)

text \<open>
  The loop of \<^verbatim>\<open>bits128_to_block\<close>: after \<open>n\<close> steps, bit \<open>j\<close> of byte \<open>k\<close> is the flag of
  position \<open>8 * k + (7 - j)\<close> if the loop has passed it.
\<close>

lemma set_bits_loop:
  fixes f :: "nat \<Rightarrow> bool"
  assumes "n \<le> 128"
  defines "res \<equiv> foldl (\<lambda>out i. if f i
      then out[i div 8 := out ! (i div 8) OR push_bit (7 - i mod 8) (1 :: u8)] else out)
      zero_block [0..<n]"
  shows "length res = 16 \<and>
    (\<forall>k < 16. \<forall>j < 8. bit (res ! k) j \<longleftrightarrow> 8 * k + (7 - j) < n \<and> f (8 * k + (7 - j)))"
  using assms(1) unfolding res_def
proof (induction n)
  case 0
  show ?case by (simp add: zero_block_def)
next
  case (Suc n)
  let ?res = "foldl (\<lambda>out i. if f i
      then out[i div 8 := out ! (i div 8) OR push_bit (7 - i mod 8) (1 :: u8)] else out)
      zero_block [0..<n]"
  have IH: "length ?res = 16"
    "\<And>k j. k < 16 \<Longrightarrow> j < 8 \<Longrightarrow>
      bit (?res ! k) j \<longleftrightarrow> 8 * k + (7 - j) < n \<and> f (8 * k + (7 - j))"
    using Suc by auto
  define q m where "q = n div 8" and "m = n mod 8"
  have n: "n = 8 * q + m" "m < 8" "q < 16"
    using Suc.prems by (auto simp: q_def m_def)
  have pos: "8 * k + (7 - j) = n \<longleftrightarrow> k = q \<and> j = 7 - m" if "j < 8" for k j
    using byte_position [OF that n(2)] n(1) by simp
  have one: "bit (push_bit (7 - m) 1 :: u8) j \<longleftrightarrow> j = 7 - m" if "j < 8" for j
    using that by (rule bit_push_bit_one)
  have step: "foldl (\<lambda>out i. if f i
      then out[i div 8 := out ! (i div 8) OR push_bit (7 - i mod 8) (1 :: u8)] else out)
      zero_block [0..<Suc n] =
    (if f n then ?res[q := ?res ! q OR push_bit (7 - m) 1] else ?res)"
    by (simp add: q_def m_def)
  show ?case
    unfolding step
  proof (intro conjI allI impI)
    fix k j :: nat
    assume kj: "k < 16" "j < 8"
    have lt: "8 * k + (7 - j) < Suc n \<longleftrightarrow> 8 * k + (7 - j) < n \<or> k = q \<and> j = 7 - m"
      using pos [OF kj(2), of k] by (simp add: less_Suc_eq)
    have at: "f (8 * q + (7 - (7 - m))) = f n" using n by simp
    show "bit ((if f n then ?res[q := ?res ! q OR push_bit (7 - m) 1] else ?res) ! k) j \<longleftrightarrow>
        8 * k + (7 - j) < Suc n \<and> f (8 * k + (7 - j))"
    proof (cases "f n \<and> k = q")
      case True
      then have "bit ((if f n then ?res[q := ?res ! q OR push_bit (7 - m) 1] else ?res) ! k) j
          \<longleftrightarrow> bit (?res ! k) j \<or> j = 7 - m"
        using IH(1) n(3) one [OF kj(2)] by (simp add: bit_or_iff)
      then show ?thesis unfolding lt IH(2) [OF kj] using True at by blast
    next
      case False
      have eq: "(if f n then ?res[q := ?res ! q OR push_bit (7 - m) 1] else ?res) ! k = ?res ! k"
        using False by auto
      show ?thesis unfolding eq lt IH(2) [OF kj] using False at by blast
    qed
  qed (simp add: IH(1))
qed

lemma wf_bits128_to_block [simp]: "wf_block (bits128_to_block bits)"
  using set_bits_loop [of 128 "\<lambda>i. map (\<lambda>i. bits ! (127 - i) AND 1) [0..<128] ! i \<noteq> 0"]
  by (simp add: bits128_to_block_def Let_def wf_block_def)

lemma bit_bits128_to_block:
  assumes "k < 16" "j < 8"
  shows "bit (bits128_to_block bits ! k) j \<longleftrightarrow> odd (bits ! (127 - (8 * k + (7 - j))))"
proof -
  have "8 * k + (7 - j) < 128" using assms by arith
  then show ?thesis
    using assms set_bits_loop [of 128 "\<lambda>i. map (\<lambda>i. bits ! (127 - i) AND 1) [0..<128] ! i \<noteq> 0"]
    by (simp add: bits128_to_block_def Let_def and_one_eq mod_2_eq_odd)
qed

text \<open>
  Bit order round trip.  A 16-byte block written to 128 wire bits and read back is the same
  block.
\<close>

theorem bits128_block_roundtrip:
  assumes "wf_block bl"
  shows "bits128_to_block (block_to_bits128 bl) = bl"
proof (rule block_eqI)
  fix k :: nat assume k: "k < 16"
  show "bits128_to_block (block_to_bits128 bl) ! k = bl ! k"
  proof (rule bit_word_eqI)
    fix j assume "j < LENGTH(8)"
    then have j: "j < 8" by simp
    define m p where "m = 7 - j" and "p = 8 * k + m"
    have m: "m < 8" "7 - m = j" using j by (simp_all add: m_def)
    have p: "p < 128" "7 - p mod 8 = j" "p div 8 = k"
      using k m by (simp_all add: p_def)
    then have "127 - (127 - p) = p" "127 - p < 128" by simp_all
    then have "block_to_bits128 bl ! (127 - p) = drop_bit j (bl ! k) AND 1"
      using p by (simp add: block_to_bits128_nth)
    moreover have "bit (bits128_to_block (block_to_bits128 bl) ! k) j \<longleftrightarrow>
        odd (block_to_bits128 bl ! (127 - p))"
      using k j by (simp only: bit_bits128_to_block p_def m_def)
    ultimately show "bit (bits128_to_block (block_to_bits128 bl) ! k) j = bit (bl ! k) j"
      by (simp only: even_and_iff bit_iff_odd_drop_bit [of "bl ! k"]) simp
  qed
qed (simp_all add: assms)

lemma bits128_block_roundtrip_witness:
  "bits128_to_block (block_to_bits128 zero_block) = zero_block"
  by (rule bits128_block_roundtrip) simp

lemma block_bits128_roundtrip:
  assumes "length bits = 128" "\<forall>b \<in> set bits. is_bit b"
  shows "block_to_bits128 (bits128_to_block bits) = bits"
proof (rule nth_equalityI)
  fix i assume "i < length (block_to_bits128 (bits128_to_block bits))"
  then have i: "i < 128" by simp
  define k j where "k = (127 - i) div 8" and "j = 7 - (127 - i) mod 8"
  have "127 - i = 8 * ((127 - i) div 8) + (127 - i) mod 8" "(127 - i) mod 8 < 8" by simp_all
  then have kj: "k < 16" "j < 8" "127 - (8 * k + (7 - j)) = i"
    using i by (simp_all add: k_def j_def)
  have "is_bit (bits ! i)" using assms i by simp
  moreover have "block_to_bits128 (bits128_to_block bits) ! i =
      drop_bit j (bits128_to_block bits ! k) AND 1"
    using i by (simp add: block_to_bits128_nth k_def j_def)
  moreover have "\<dots> = of_bool (bit (bits128_to_block bits ! k) j)"
    by (simp add: and_one_eq bit_iff_odd_drop_bit mod_2_eq_odd)
  ultimately show "block_to_bits128 (bits128_to_block bits) ! i = bits ! i"
    using kj by (auto simp: bit_bits128_to_block is_bit_def)
qed (simp add: assms(1))

text \<open>A three-gate circuit: wire 4 is the negation of \<open>(x0 \<oplus> x1) \<and> x1\<close>.\<close>

definition xor_and_inv_circuit :: Circuit where
  "xor_and_inv_circuit =
    \<lparr>n_gates = 3, n_wires = 5, n_input0 = 1, n_input1 = 1, n_output = 1, n_and = 1, n_xor = 2,
     gates = [\<lparr>gate_type = XOR_gate, in0 = 0, in1 = 1, gate_out = 2\<rparr>,
              \<lparr>gate_type = AND_gate, in0 = 2, in1 = 1, gate_out = 3\<rparr>,
              \<lparr>gate_type = INV_gate, in0 = 3, in1 = 3, gate_out = 4\<rparr>],
     output_wires = [4]\<rparr>"

lemma xor_and_inv_ok: "circuit_ok xor_and_inv_circuit"
  by (simp add: xor_and_inv_circuit_def circuit_ok_def n_inputs_def gate_ok_def)

end
