(* ===== verification/Garble.thy ===== *)
theory Garble
  imports Circuit AES128
begin

text \<open>
  The half-gate garbler and evaluator of \<^verbatim>\<open>gc_mmo.hpp\<close> (\<^verbatim>\<open>garble_circuit\<close>,
  \<^verbatim>\<open>eval_circuit_labels\<close>, \<^verbatim>\<open>decode_outputs\<close>) with the Merkle root over the evaluator's input
  labels.  \<^verbatim>\<open>SHA256\<close> is OpenSSL's and enters as the parameter \<open>sha\<close>.
\<close>

record AndGateTable =
  T0 :: block
  T1 :: block

record HalfGateWitness =
  hw_a0 :: block
  hw_b0 :: block
  hw_Tg :: block
  hw_Te :: block
  hw_Ha0 :: block
  hw_Ha1 :: block
  hw_Hb0 :: block
  hw_Hb1 :: block
  hw_pa :: u8
  hw_pb :: u8

record GarbleResult =
  tables :: "AndGateTable list"
  and_wit :: "HalfGateWitness list"
  wire0 :: "block list"
  delta :: block
  aes_key :: block
  out_decode :: "u8 list"
  gc_hash :: "u8 list"
  R_root :: "u8 list"

section \<open>Merkle root of the input label pairs\<close>

text \<open>One pass of the \<^verbatim>\<open>while\<close> body: duplicate the last node of an odd level, hash the pairs.\<close>

fun hash_pairs :: "(u8 list \<Rightarrow> u8 list) \<Rightarrow> u8 list list \<Rightarrow> u8 list list" where
  "hash_pairs sha (a # b # rest) = sha (a @ b) # hash_pairs sha rest"
| "hash_pairs sha _ = []"

definition merkle_level :: "(u8 list \<Rightarrow> u8 list) \<Rightarrow> u8 list list \<Rightarrow> u8 list list" where
  "merkle_level sha level =
    hash_pairs sha (if odd (length level) then level @ [last level] else level)"

lemma length_hash_pairs: "length (hash_pairs sha level) = length level div 2"
  by (induction sha level rule: hash_pairs.induct) auto

lemma length_merkle_level: "length (merkle_level sha level) = (length level + 1) div 2"
  by (auto simp: merkle_level_def length_hash_pairs elim: oddE)

function merkle_loop :: "(u8 list \<Rightarrow> u8 list) \<Rightarrow> u8 list list \<Rightarrow> u8 list list" where
  "merkle_loop sha level =
    (if 1 < length level then merkle_loop sha (merkle_level sha level) else level)"
  by pat_completeness auto
termination
  by (relation "measure (\<lambda>(sha, level). length level)") (auto simp: length_merkle_level)

declare merkle_loop.simps [simp del]

definition merkle_root_pairs :: "(u8 list \<Rightarrow> u8 list) \<Rightarrow> (block \<times> block) list \<Rightarrow> u8 list" where
  "merkle_root_pairs sha pairs =
    (if pairs = [] then sha []
     else merkle_loop sha (map (\<lambda>(p0, p1). sha (p0 @ p1)) pairs) ! 0)"

section \<open>Garbling\<close>

definition label_for_bit :: "block \<Rightarrow> block \<Rightarrow> u8 \<Rightarrow> block" where
  "label_for_bit w0 d v = (if v \<noteq> 0 then xor_block w0 d else w0)"

text \<open>The input loop: a fresh zero label per input wire, its point-and-permute bit cleared.\<close>

fun garble_inputs ::
  "nat list \<Rightarrow> block \<Rightarrow> block list \<times> mt19937_64 \<Rightarrow> (block list \<times> mt19937_64) result" where
  "garble_inputs [] d (w, g) = Inr (w, g)"
| "garble_inputs (i # is) d (w, g) =
     (let (b, g) = random_block g;
          b = (if lsb b then xor_block b d else b)
      in bind_result (vec_write w i b) (\<lambda>w. garble_inputs is d (w, g)))"

definition and_witness ::
  "FixedKeyAES \<Rightarrow> block \<Rightarrow> u64 \<Rightarrow> block \<Rightarrow> block \<Rightarrow> HalfGateWitness" where
  "and_witness aes d and_id a0 b0 =
    (let a1 = xor_block a0 d;
         b1 = xor_block b0 d;
         pa = lsb a0;
         pb = lsb b0;
         Ha0 = mmo_hash aes (tweak a0 and_id 0);
         Ha1 = mmo_hash aes (tweak a1 and_id 0);
         Tg = xor_block Ha0 Ha1;
         Tg = (if pb then xor_block Tg d else Tg);
         Hb0 = mmo_hash aes (tweak b0 and_id 1);
         Hb1 = mmo_hash aes (tweak b1 and_id 1);
         Te = xor_block Hb0 Hb1;
         Te = xor_block Te a0
     in \<lparr>hw_a0 = a0, hw_b0 = b0, hw_Tg = Tg, hw_Te = Te, hw_Ha0 = Ha0, hw_Ha1 = Ha1,
         hw_Hb0 = Hb0, hw_Hb1 = Hb1,
         hw_pa = (if pa then 1 else 0), hw_pb = (if pb then 1 else 0)\<rparr>)"

text \<open>The output zero label \<^verbatim>\<open>w0 = wg0 ^ we0\<close> of an AND gate.\<close>

definition and_output0 :: "HalfGateWitness \<Rightarrow> block" where
  "and_output0 wit =
    (let wg0 = hw_Ha0 wit;
         wg0 = (if hw_pa wit \<noteq> 0 then xor_block wg0 (hw_Tg wit) else wg0);
         we0 = hw_Hb0 wit;
         we0 = (if hw_pb wit \<noteq> 0 then xor_block we0 (xor_block (hw_Te wit) (hw_a0 wit)) else we0)
     in xor_block wg0 we0)"

definition garble_gate ::
  "FixedKeyAES \<Rightarrow> GarbleResult \<times> u64 \<Rightarrow> Gate \<Rightarrow> (GarbleResult \<times> u64) result" where
  "garble_gate aes st g =
    (let (gr, and_id) = st; d = delta gr
     in bind_result (vec_read (wire0 gr) (unat (in0 g))) (\<lambda>a0.
        case gate_type g of
          XOR_gate \<Rightarrow>
            bind_result (vec_read (wire0 gr) (unat (in1 g))) (\<lambda>b0.
            bind_result (vec_write (wire0 gr) (unat (gate_out g)) (xor_block a0 b0)) (\<lambda>w.
            Inr (gr\<lparr>wire0 := w\<rparr>, and_id)))
        | INV_gate \<Rightarrow>
            bind_result (vec_write (wire0 gr) (unat (gate_out g)) (xor_block a0 d)) (\<lambda>w.
            Inr (gr\<lparr>wire0 := w\<rparr>, and_id))
        | AND_gate \<Rightarrow>
            bind_result (vec_read (wire0 gr) (unat (in1 g))) (\<lambda>b0.
            let wit = and_witness aes d and_id a0 b0
            in bind_result (vec_write (wire0 gr) (unat (gate_out g)) (and_output0 wit)) (\<lambda>w.
               Inr (gr\<lparr>wire0 := w,
                       tables := tables gr @ [\<lparr>T0 = hw_Tg wit, T1 = hw_Te wit\<rparr>],
                       and_wit := and_wit gr @ [wit]\<rparr>, and_id + 1)))))"

definition tables_to_bytes :: "AndGateTable list \<Rightarrow> u8 list" where
  "tables_to_bytes ts = concat (map (\<lambda>t. T0 t @ T1 t) ts)"

definition garble_circuit ::
  "(u8 list \<Rightarrow> u8 list) \<Rightarrow> Circuit \<Rightarrow> block \<Rightarrow> FixedKeyAES \<Rightarrow> mt19937_64 \<Rightarrow>
    (GarbleResult \<times> mt19937_64) result" where
  "garble_circuit sha c mmo_key aes g =
    (let (d, g) = make_delta g;
         w0 = replicate (unat (n_wires c)) zero_block
     in bind_result (garble_inputs [0..<unat (n_input0 c + n_input1 c)] d (w0, g)) (\<lambda>(w, g).
        let gr = \<lparr>tables = [], and_wit = [], wire0 = w, delta = d, aes_key = mmo_key,
                  out_decode = [], gc_hash = replicate 32 0, R_root = replicate 32 0\<rparr>
        in bind_result (fold_result (garble_gate aes) (gr, 0) (gates c)) (\<lambda>(gr, and_id).
        bind_result (read_outputs c (wire0 gr)) (\<lambda>out0.
        bind_result (map_result (\<lambda>i. vec_read (wire0 gr) (unat (n_input0 c + word_of_nat i)))
          [0..<unat (n_input1 c)]) (\<lambda>zs.
        Inr (gr\<lparr>out_decode := map (\<lambda>z. if lsb z then 1 else 0) out0,
                gc_hash := sha (tables_to_bytes (tables gr)),
                R_root := merkle_root_pairs sha (map (\<lambda>z. (z, xor_block z (delta gr))) zs)\<rparr>, g))))))"

section \<open>Evaluation on labels\<close>

text \<open>The AND branch: the output label from the table and the two active input labels.\<close>

definition and_label ::
  "FixedKeyAES \<Rightarrow> AndGateTable \<Rightarrow> u64 \<Rightarrow> block \<Rightarrow> block \<Rightarrow> block" where
  "and_label aes T and_id wa wb =
    (let sa = lsb wa;
         sb = lsb wb;
         wg = mmo_hash aes (tweak wa and_id 0);
         wg = (if sa then xor_block wg (T0 T) else wg);
         we = mmo_hash aes (tweak wb and_id 1);
         we = (if sb then xor_block we (xor_block (T1 T) wa) else we)
     in xor_block wg we)"

definition label_gate ::
  "FixedKeyAES \<Rightarrow> AndGateTable list \<Rightarrow> block list \<times> u64 \<Rightarrow> Gate \<Rightarrow> (block list \<times> u64) result" where
  "label_gate aes ts st g =
    (let (w, and_id) = st
     in bind_result (vec_read w (unat (in0 g))) (\<lambda>wa.
        case gate_type g of
          XOR_gate \<Rightarrow>
            bind_result (vec_read w (unat (in1 g))) (\<lambda>wb.
            bind_result (vec_write w (unat (gate_out g)) (xor_block wa wb)) (\<lambda>w. Inr (w, and_id)))
        | INV_gate \<Rightarrow>
            bind_result (vec_write w (unat (gate_out g)) wa) (\<lambda>w. Inr (w, and_id))
        | AND_gate \<Rightarrow>
            bind_result (vec_read ts (unat and_id)) (\<lambda>T.
            bind_result (vec_read w (unat (in1 g))) (\<lambda>wb.
            bind_result (vec_write w (unat (gate_out g)) (and_label aes T and_id wa wb)) (\<lambda>w.
            Inr (w, and_id + 1))))))"

definition eval_circuit_labels ::
  "Circuit \<Rightarrow> FixedKeyAES \<Rightarrow> GarbleResult \<Rightarrow> block list \<Rightarrow> block list result" where
  "eval_circuit_labels c aes gr input_labels =
    (if length input_labels \<noteq> unat (n_input0 c + n_input1 c)
     then Inl (runtime_error ''eval: bad input label count'')
     else
       bind_result (fold_result (\<lambda>w i. vec_write w i (input_labels ! i))
                      (replicate (unat (n_wires c)) zero_block) [0..<length input_labels]) (\<lambda>w.
       bind_result (fold_result (label_gate aes (tables gr)) (w, 0) (gates c)) (\<lambda>(w, and_id).
       read_outputs c w)))"

definition decode_outputs :: "GarbleResult \<Rightarrow> block list \<Rightarrow> u8 list result" where
  "decode_outputs gr out_labels =
    map_result (\<lambda>i. let p = (if lsb (out_labels ! i) then 1 else 0)
                    in bind_result (vec_read (out_decode gr) i) (\<lambda>o_i. Inr (p XOR o_i)))
      [0..<length out_labels]"

definition tables_bytes :: "GarbleResult \<Rightarrow> nat" where
  "tables_bytes gr = length (tables gr) * 32"

section \<open>Garbled evaluation computes the circuit\<close>

subsection \<open>One AND gate\<close>

lemma wf_and_witness [simp]:
  "wf_block (hw_Tg (and_witness aes d n a0 b0))"
  "wf_block (hw_Te (and_witness aes d n a0 b0))"
  "wf_block (and_output0 (and_witness aes d n a0 b0))"
  by (simp_all add: and_witness_def and_output0_def Let_def)

lemma and_gate_label:
  fixes aes :: FixedKeyAES and n :: u64
  assumes "wf_block a0" "wf_block b0" "wf_block d" "lsb d" "is_bit va" "is_bit vb"
  defines "wit \<equiv> and_witness aes d n a0 b0"
    and "wa \<equiv> label_for_bit a0 d va" and "wb \<equiv> label_for_bit b0 d vb"
  shows "and_label aes \<lparr>T0 = hw_Tg wit, T1 = hw_Te wit\<rparr> n wa wb =
    label_for_bit (and_output0 wit) d (va AND vb)"
proof -
  have va: "va \<noteq> 0 \<longleftrightarrow> va = 1" and vb: "vb \<noteq> 0 \<longleftrightarrow> vb = 1"
    and vab: "va AND vb \<noteq> 0 \<longleftrightarrow> va = 1 \<and> vb = 1"
    using assms(5,6) by (auto simp: is_bit_def)
  let ?h = "\<lambda>x t. mmo_hash aes (tweak x n t)"
  have hash: "?h wa 0 = (if va = 1 then ?h (xor_block a0 d) 0 else ?h a0 0)"
    "?h wb 1 = (if vb = 1 then ?h (xor_block b0 d) 1 else ?h b0 1)"
    unfolding wa_def wb_def label_for_bit_def va vb by auto
  show ?thesis
    unfolding and_label_def Let_def AndGateTable.simps hash
    using block_label.half_gate [OF assms(1-3) wf_mmo_hash wf_mmo_hash wf_mmo_hash wf_mmo_hash assms(4),
      of "hw_Tg wit" aes "tweak a0 n 0" aes "tweak (xor_block a0 d) n 0" "hw_Te wit" aes
         "tweak b0 n 1" aes "tweak (xor_block b0 d) n 1" wa "va = 1" wb "vb = 1"]
    by (simp add: wit_def and_witness_def and_output0_def Let_def wa_def wb_def label_for_bit_def
        va vb vab)
qed

subsection \<open>The simulation between garbler, evaluator and plain evaluation\<close>

text \<open>
  The three runs proceed gate by gate over the same gate list.  The relation: every wire of the
  evaluator carries the label, under the garbler's current zero labels, of the bit that the
  plain evaluation has on the wire.
\<close>

definition labels_of :: "block \<Rightarrow> block list \<Rightarrow> u8 list \<Rightarrow> block list \<Rightarrow> bool" where
  "labels_of d w0 v w \<longleftrightarrow>
    length v = length w0 \<and> length w = length w0 \<and>
    (\<forall>i < length w0. wf_block (w0 ! i) \<and> is_bit (v ! i) \<and> w ! i = label_for_bit (w0 ! i) d (v ! i))"

lemma labels_of_update:
  assumes "labels_of d w0 v w" "wf_block x" "is_bit b"
  shows "labels_of d (w0[i := x]) (v[i := b]) (w[i := label_for_bit x d b])"
  using assms by (cases "i < length w0") (auto simp: labels_of_def nth_list_update)

lemma label_xor:
  assumes "wf_block a" "wf_block b" "wf_block d" "is_bit va" "is_bit vb"
  shows "xor_block (label_for_bit a d va) (label_for_bit b d vb) =
    label_for_bit (xor_block a b) d (va XOR vb)"
  using assms by (auto simp: label_for_bit_def is_bit_def xor_ac)

lemma label_inv:
  assumes "wf_block a" "wf_block d" "is_bit va"
  shows "label_for_bit a d va = label_for_bit (xor_block a d) d (va XOR 1)"
  using assms by (auto simp: label_for_bit_def is_bit_def)

lemma gate_simulation:
  assumes g: "gate_ok nin (length (wire0 gr)) g"
    and d: "wf_block (delta gr)" "lsb (delta gr)"
    and rel: "labels_of (delta gr) (wire0 gr) v w"
    and id: "unat and_id = length (tables gr)" "length (tables gr) + 1 < 2 ^ 64"
    and step: "garble_gate aes (gr, and_id) g = Inr (gr', and_id')"
    and ts: "ts = tables gr' @ extra"
  shows "\<exists>v' w'. plain_gate v g = Inr v' \<and> label_gate aes ts (w, and_id) g = Inr (w', and_id') \<and>
    labels_of (delta gr) (wire0 gr') v' w' \<and> unat and_id' = length (tables gr') \<and>
    delta gr' = delta gr \<and> length (wire0 gr') = length (wire0 gr)"
proof -
  let ?d = "delta gr" and ?i = "unat (in0 g)" and ?j = "unat (in1 g)" and ?o = "unat (gate_out g)"
  have len: "length v = length (wire0 gr)" "length w = length (wire0 gr)"
    using rel by (auto simp: labels_of_def)
  have rng: "?i < length (wire0 gr)" "?j < length (wire0 gr)" "?o < length (wire0 gr)"
    using g by (auto simp: gate_ok_def)
  have a: "wf_block (wire0 gr ! ?i)" "is_bit (v ! ?i)"
      "w ! ?i = label_for_bit (wire0 gr ! ?i) ?d (v ! ?i)"
    and b: "wf_block (wire0 gr ! ?j)" "is_bit (v ! ?j)"
      "w ! ?j = label_for_bit (wire0 gr ! ?j) ?d (v ! ?j)"
    using rel rng by (auto simp: labels_of_def)
  have plain: "gate_ok nin (length v) g" using g len by simp
  show ?thesis
  proof (cases "gate_type g")
    case XOR_gate
    let ?x = "xor_block (wire0 gr ! ?i) (wire0 gr ! ?j)" and ?b = "v ! ?i XOR v ! ?j"
    have "labels_of ?d ((wire0 gr)[?o := ?x]) (v[?o := ?b]) (w[?o := label_for_bit ?x ?d ?b])"
      using rel a b by (intro labels_of_update) auto
    then show ?thesis
      using step XOR_gate rng len id a b d
      by (auto simp: garble_gate_def label_gate_def plain_gate_ok [OF plain] label_xor)
  next
    case INV_gate
    let ?x = "xor_block (wire0 gr ! ?i) ?d" and ?b = "v ! ?i XOR 1"
    have "labels_of ?d ((wire0 gr)[?o := ?x]) (v[?o := ?b]) (w[?o := label_for_bit ?x ?d ?b])"
      using rel a b by (intro labels_of_update) auto
    then show ?thesis
      using step INV_gate rng len id a d
      by (auto simp: garble_gate_def label_gate_def plain_gate_ok [OF plain] label_inv [of _ ?d])
  next
    case AND_gate
    define wit where "wit = and_witness aes ?d and_id (wire0 gr ! ?i) (wire0 gr ! ?j)"
    let ?b = "v ! ?i AND v ! ?j"
    have step': "gr' = gr\<lparr>wire0 := (wire0 gr)[?o := and_output0 wit],
        tables := tables gr @ [\<lparr>T0 = hw_Tg wit, T1 = hw_Te wit\<rparr>], and_wit := and_wit gr @ [wit]\<rparr>"
      "and_id' = and_id + 1"
      using step AND_gate rng by (auto simp: garble_gate_def Let_def wit_def)
    have read: "vec_read ts (unat and_id) = Inr \<lparr>T0 = hw_Tg wit, T1 = hw_Te wit\<rparr>"
      using id(1) by (simp add: ts step'(1) nth_append)
    have "labels_of ?d ((wire0 gr)[?o := and_output0 wit]) (v[?o := ?b])
        (w[?o := label_for_bit (and_output0 wit) ?d ?b])"
      using rel a b by (intro labels_of_update) (auto simp: wit_def)
    moreover have "label_gate aes ts (w, and_id) g =
        Inr (w[?o := label_for_bit (and_output0 wit) ?d ?b], and_id + 1)"
      using AND_gate rng len read and_gate_label [OF a(1) b(1) d a(2) b(2), of aes and_id]
      by (simp add: label_gate_def a(3) b(3) flip: wit_def)
    moreover have "unat (and_id + 1) = Suc (length (tables gr))"
      using id by (simp add: unat_word_ariths)
    ultimately show ?thesis
      using AND_gate step' by (simp add: plain_gate_ok [OF plain])
  qed
qed

lemma garble_gate_tables:
  assumes "garble_gate aes (gr, and_id) g = Inr (gr', and_id')"
  shows "\<exists>extra. tables gr' = tables gr @ extra \<and> length extra \<le> 1"
  using assms
  by (cases "gate_type g") (auto simp: garble_gate_def Let_def bind_result_Inr_iff)

lemma garble_gates_tables:
  assumes "fold_result (garble_gate aes) (gr, and_id) gs = Inr (gr', and_id')"
  shows "\<exists>extra. tables gr' = tables gr @ extra \<and> length extra \<le> length gs"
  using assms
proof (induction gs arbitrary: gr and_id)
  case (Cons g gs)
  then obtain gr1 id1 where step: "garble_gate aes (gr, and_id) g = Inr (gr1, id1)"
    and rest: "fold_result (garble_gate aes) (gr1, id1) gs = Inr (gr', and_id')"
    by (auto simp: bind_result_Inr_iff)
  obtain m1 where "tables gr1 = tables gr @ m1" "length m1 \<le> 1"
    using garble_gate_tables [OF step] by blast
  moreover obtain m2 where "tables gr' = tables gr1 @ m2" "length m2 \<le> length gs"
    using Cons.IH [OF rest] by blast
  ultimately show ?case by (auto intro: exI [of _ "m1 @ m2"])
qed simp

lemma gates_simulation:
  assumes "list_all (gate_ok nin (length (wire0 gr))) gs"
    and "wf_block (delta gr)" "lsb (delta gr)"
    and "labels_of (delta gr) (wire0 gr) v w"
    and "unat and_id = length (tables gr)" "length (tables gr) + length gs < 2 ^ 64"
    and "fold_result (garble_gate aes) (gr, and_id) gs = Inr (gr', and_id')"
    and "ts = tables gr' @ extra"
  shows "\<exists>v' w'. fold_result plain_gate v gs = Inr v' \<and>
    fold_result (label_gate aes ts) (w, and_id) gs = Inr (w', and_id') \<and>
    labels_of (delta gr) (wire0 gr') v' w' \<and>
    delta gr' = delta gr \<and> length (wire0 gr') = length (wire0 gr)"
  using assms
proof (induction gs arbitrary: gr and_id v w)
  case (Cons g gs)
  then obtain gr1 id1 where step: "garble_gate aes (gr, and_id) g = Inr (gr1, id1)"
    and rest: "fold_result (garble_gate aes) (gr1, id1) gs = Inr (gr', and_id')"
    by (auto simp: bind_result_Inr_iff)
  obtain m where m: "tables gr' = tables gr1 @ m"
    using garble_gates_tables [OF rest] by blast
  have ok: "gate_ok nin (length (wire0 gr)) g" and lt: "length (tables gr) + 1 < 2 ^ 64"
    using Cons.prems(1,6) by simp_all
  have ts: "ts = tables gr1 @ (m @ extra)" using Cons.prems(8) m by simp
  obtain v1 w1 where s1: "plain_gate v g = Inr v1" "label_gate aes ts (w, and_id) g = Inr (w1, id1)"
      "labels_of (delta gr) (wire0 gr1) v1 w1" "unat id1 = length (tables gr1)"
      "delta gr1 = delta gr" "length (wire0 gr1) = length (wire0 gr)"
    using gate_simulation [OF ok Cons.prems(2-5) lt step ts] by blast
  have "length (tables gr1) + length gs < 2 ^ 64"
    using garble_gate_tables [OF step] Cons.prems(6) by auto
  then have "\<exists>v' w'. fold_result plain_gate v1 gs = Inr v' \<and>
      fold_result (label_gate aes ts) (w1, id1) gs = Inr (w', and_id') \<and>
      labels_of (delta gr1) (wire0 gr') v' w' \<and>
      delta gr' = delta gr1 \<and> length (wire0 gr') = length (wire0 gr1)"
    using Cons.prems s1 rest by (intro Cons.IH) simp_all
  then show ?case using s1 by auto
qed simp

end
