(* ===== verification/Merkle.thy ===== *)
theory Merkle
  imports Garble
begin

text \<open>
  The Merkle root of \<^verbatim>\<open>merkle_root_pairs\<close> (\<^verbatim>\<open>gc_mmo.hpp\<close>): on a power of two of leaves it is
  the root of the perfect binary tree, two different leaf lists of one length with the same root
  exhibit a collision among the hashed strings, and a list of odd length has the root of the list
  with its last pair repeated.
\<close>

section \<open>Perfect trees\<close>

text \<open>The root of the perfect tree of height \<open>k\<close> over \<open>2 ^ k\<close> leaf hashes.\<close>

fun tree_root :: "(u8 list \<Rightarrow> u8 list) \<Rightarrow> nat \<Rightarrow> u8 list list \<Rightarrow> u8 list" where
  "tree_root sha 0 level = hd level"
| "tree_root sha (Suc k) level =
     sha (tree_root sha k (take (2 ^ k) level) @ tree_root sha k (drop (2 ^ k) level))"

lemma hash_pairs_take: "even n \<Longrightarrow> hash_pairs sha (take n xs) = take (n div 2) (hash_pairs sha xs)"
proof (induction sha xs arbitrary: n rule: hash_pairs.induct)
  case (1 sha a b rest)
  show ?case
  proof (cases n)
    case (Suc m)
    then obtain k where "n = Suc (Suc k)" "even k" using 1(2) by (cases m) auto
    then show ?thesis using 1(1) [of k] by simp
  qed simp
qed (auto simp: take_Cons' split: nat.split)

lemma hash_pairs_drop:
  "even n \<Longrightarrow> hash_pairs sha (drop n xs) = drop (n div 2) (hash_pairs sha xs)"
proof (induction sha xs arbitrary: n rule: hash_pairs.induct)
  case (1 sha a b rest)
  show ?case
  proof (cases n)
    case (Suc m)
    then obtain k where "n = Suc (Suc k)" "even k" using 1(2) by (cases m) auto
    then show ?thesis using 1(1) [of k] by simp
  qed simp
qed (auto simp: drop_Cons' split: nat.split)

lemma tree_root_hash_pairs:
  "length level = 2 ^ Suc k \<Longrightarrow> tree_root sha k (hash_pairs sha level) = tree_root sha (Suc k) level"
proof (induction k arbitrary: level)
  case 0
  then have "length level = Suc (Suc 0)" by simp
  then obtain a b where "level = [a, b]" by (auto simp: length_Suc_conv)
  then show ?case by simp
next
  case (Suc k)
  have "length (take (2 ^ Suc k) level) = 2 ^ Suc k" "length (drop (2 ^ Suc k) level) = 2 ^ Suc k"
    using Suc.prems by simp_all
  then have "tree_root sha k (hash_pairs sha (take (2 ^ Suc k) level)) =
        tree_root sha (Suc k) (take (2 ^ Suc k) level)"
      "tree_root sha k (hash_pairs sha (drop (2 ^ Suc k) level)) =
        tree_root sha (Suc k) (drop (2 ^ Suc k) level)"
    using Suc.IH by blast+
  then show ?case by (simp add: hash_pairs_take hash_pairs_drop)
qed

lemma merkle_loop_perfect:
  "length level = 2 ^ k \<Longrightarrow> merkle_loop sha level ! 0 = tree_root sha k level"
proof (induction k arbitrary: level)
  case 0
  then show ?case by (cases level) (auto simp: merkle_loop.simps)
next
  case (Suc k)
  have lvl: "merkle_level sha level = hash_pairs sha level"
    using Suc.prems by (simp add: merkle_level_def)
  have "1 < (2 :: nat) ^ Suc k" by (rule one_less_power) simp_all
  then have "1 < length level" using Suc.prems by simp
  then have "merkle_loop sha level ! 0 = merkle_loop sha (hash_pairs sha level) ! 0"
    by (subst merkle_loop.simps) (simp add: lvl)
  also have "\<dots> = tree_root sha k (hash_pairs sha level)"
    using Suc.prems by (intro Suc.IH) (simp add: length_hash_pairs)
  also have "\<dots> = tree_root sha (Suc k) level" using Suc.prems by (rule tree_root_hash_pairs)
  finally show ?case .
qed

text \<open>
  The iterative Merkle root is the perfect-tree root.  For \<open>2 ^ k\<close> label pairs (128 for the
  AES circuit) the level-by-level loop computes the recursively defined root of the perfect binary
  tree over the hashed pairs.
\<close>

theorem merkle_root_perfect:
  assumes "length pairs = 2 ^ k"
  shows "merkle_root_pairs sha pairs = tree_root sha k (map (\<lambda>(p0, p1). sha (p0 @ p1)) pairs)"
proof -
  have "pairs \<noteq> []" using assms by auto
  then show ?thesis using assms by (simp add: merkle_root_pairs_def merkle_loop_perfect)
qed

lemma merkle_root_perfect_witness:
  "merkle_root_pairs (take 2) [([1], [2]), ([3], [4]), ([5], [6]), ([7], [8])] =
    tree_root (take 2) 2 [[1, 2], [3, 4], [5, 6], [7, 8]]"
  using merkle_root_perfect [of "[([1], [2]), ([3], [4]), ([5], [6]), ([7], [8])]" 2 "take 2"]
  by simp

section \<open>Binding\<close>

text \<open>The strings that the computation of a root hands to the hash function.\<close>

fun pair_strings :: "u8 list list \<Rightarrow> u8 list list" where
  "pair_strings (a # b # rest) = (a @ b) # pair_strings rest"
| "pair_strings _ = []"

definition level_strings :: "u8 list list \<Rightarrow> u8 list list" where
  "level_strings level =
    pair_strings (if odd (length level) then level @ [last level] else level)"

function loop_strings :: "(u8 list \<Rightarrow> u8 list) \<Rightarrow> u8 list list \<Rightarrow> u8 list list" where
  "loop_strings sha level =
    (if 1 < length level then level_strings level @ loop_strings sha (merkle_level sha level) else [])"
  by pat_completeness auto
termination
  by (relation "measure (\<lambda>(sha, level). length level)") (auto simp: length_merkle_level)

declare loop_strings.simps [simp del]

definition root_strings :: "(u8 list \<Rightarrow> u8 list) \<Rightarrow> (block \<times> block) list \<Rightarrow> u8 list list" where
  "root_strings sha pairs =
    map (\<lambda>(p0, p1). p0 @ p1) pairs @ loop_strings sha (map (\<lambda>(p0, p1). sha (p0 @ p1)) pairs)"

text \<open>Two runs have a collision if they hash different strings to one digest.\<close>

definition collide :: "(u8 list \<Rightarrow> u8 list) \<Rightarrow> u8 list list \<Rightarrow> u8 list list \<Rightarrow> bool" where
  "collide sha xs ys \<longleftrightarrow> (\<exists>x \<in> set xs. \<exists>y \<in> set ys. x \<noteq> y \<and> sha x = sha y)"

lemma collide_append [simp]:
  "collide sha xs ys \<Longrightarrow> collide sha (xs @ xs') (ys @ ys')"
  "collide sha xs' ys' \<Longrightarrow> collide sha (xs @ xs') (ys @ ys')"
  by (auto simp: collide_def)

lemma hash_pairs_binding:
  assumes "hash_pairs sha xs = hash_pairs sha ys" "length xs = length ys" "even (length xs)"
    and "\<forall>x \<in> set xs \<union> set ys. length x = n" "xs \<noteq> ys"
  shows "collide sha (pair_strings xs) (pair_strings ys)"
  using assms
proof (induction xs arbitrary: ys rule: pair_strings.induct)
  case (1 a b xs)
  then obtain c d ys' where ys: "ys = c # d # ys'"
    by (metis Suc_length_conv length_Cons)
  show ?case
  proof (cases "xs = ys'")
    case True
    then have "a @ b \<noteq> c @ d" using 1(6,5) ys by auto
    then show ?thesis using 1(2) ys by (auto simp: collide_def)
  next
    case False
    then have "collide sha (pair_strings xs) (pair_strings ys')"
      using 1 ys by (intro 1(1)) auto
    then show ?thesis by (auto simp: ys collide_def)
  qed
qed auto

lemma pad_last_eq: "xs @ [last xs] = ys @ [last ys] \<Longrightarrow> xs = ys"
  by simp

lemma set_hash_pairs: "set (hash_pairs sha xs) \<subseteq> range sha"
  by (induction sha xs rule: hash_pairs.induct) auto

lemma merkle_level_binding:
  assumes "merkle_level sha xs = merkle_level sha ys" "length xs = length ys"
    and "\<forall>x \<in> set xs \<union> set ys. length x = n" "xs \<noteq> ys"
  shows "collide sha (level_strings xs) (level_strings ys)"
proof (cases "odd (length xs)")
  case True
  then have ne: "xs \<noteq> []" "ys \<noteq> []" using assms(2) by auto
  then have "last xs \<in> set xs" "last ys \<in> set ys" by simp_all
  then have "\<forall>x \<in> set (xs @ [last xs]) \<union> set (ys @ [last ys]). length x = n"
    using assms(3) by auto
  then show ?thesis
    using assms True
    by (simp add: level_strings_def merkle_level_def del: set_append)
      (rule hash_pairs_binding [where n = n]; use pad_last_eq in auto)
next
  case False
  then show ?thesis using assms
    by (simp add: level_strings_def merkle_level_def) (rule hash_pairs_binding [where n = n]; auto)
qed

lemma merkle_loop_binding:
  assumes "merkle_loop sha xs ! 0 = merkle_loop sha ys ! 0" "length xs = length ys" "xs \<noteq> []"
    and "\<forall>x \<in> set xs \<union> set ys. length x = n" "\<forall>x. length (sha x) = n" "xs \<noteq> ys"
  shows "collide sha (loop_strings sha xs) (loop_strings sha ys)"
  using assms
proof (induction sha xs arbitrary: ys rule: merkle_loop.induct)
  case (1 sha xs)
  show ?case
  proof (cases "1 < length xs")
    case True
    let ?xs = "merkle_level sha xs" and ?ys = "merkle_level sha ys"
    have steps: "loop_strings sha xs = level_strings xs @ loop_strings sha ?xs"
      "loop_strings sha ys = level_strings ys @ loop_strings sha ?ys"
      "merkle_loop sha xs = merkle_loop sha ?xs" "merkle_loop sha ys = merkle_loop sha ?ys"
      using True 1(3) by (subst loop_strings.simps merkle_loop.simps, simp)+
    show ?thesis
    proof (cases "?xs = ?ys")
      case True
      then have "collide sha (level_strings xs) (level_strings ys)"
        using 1(3,5,7) by (intro merkle_level_binding)
      then show ?thesis by (simp add: steps)
    next
      case False
      have "length ?xs = length ?ys" "0 < length ?xs"
        using 1(3) \<open>1 < length xs\<close> by (simp_all add: length_merkle_level)
      then have "length ?xs = length ?ys" "?xs \<noteq> []" by auto
      moreover have "\<forall>x \<in> set ?xs \<union> set ?ys. length x = n"
        using set_hash_pairs 1(6) unfolding merkle_level_def by blast
      ultimately have "collide sha (loop_strings sha ?xs) (loop_strings sha ?ys)"
        using 1(2,6) False steps by (intro 1(1) [OF True]) auto
      then show ?thesis by (simp add: steps)
    qed
  next
    case False
    then have "length xs = 1" "length ys = 1" using 1(3,4) by (cases xs; auto)+
    then obtain a b where "xs = [a]" "ys = [b]" by (auto simp: length_Suc_conv)
    then show ?thesis using 1(2,7) by (simp add: merkle_loop.simps)
  qed
qed

text \<open>
  C24.  The root binds the label pairs.  If two lists of label pairs of the same length have the
  same root and differ, the two computations hash two different strings to the same digest: an
  explicit collision of the hash function.
\<close>

theorem merkle_root_binding:
  assumes "merkle_root_pairs sha ps = merkle_root_pairs sha qs" "length ps = length qs"
    and "\<forall>(a, b) \<in> set ps \<union> set qs. wf_block a \<and> wf_block b" "\<forall>x. length (sha x) = 32" "ps \<noteq> qs"
  shows "\<exists>x \<in> set (root_strings sha ps). \<exists>y \<in> set (root_strings sha qs). x \<noteq> y \<and> sha x = sha y"
proof -
  let ?leaf = "\<lambda>(p0, p1). sha (p0 @ p1)" and ?cat = "\<lambda>(p0, p1). p0 @ p1"
  have ne: "ps \<noteq> []" "qs \<noteq> []" using assms(2,5) by auto
  have "collide sha (root_strings sha ps) (root_strings sha qs)"
  proof (cases "map ?leaf ps = map ?leaf qs")
    case True
    obtain i where i: "i < length ps" "ps ! i \<noteq> qs ! i"
      using assms(2,5) by (metis nth_equalityI)
    obtain a b c d where ab: "ps ! i = (a, b)" and cd: "qs ! i = (c, d)" by fastforce
    have mem: "(a, b) \<in> set ps" "(c, d) \<in> set qs"
      using i(1) assms(2) ab cd by (metis nth_mem)+
    then have "wf_block a" "wf_block c" using assms(3) by auto
    then have "a @ b \<noteq> c @ d" using i(2) ab cd by (auto simp: wf_block_def)
    moreover have "sha (a @ b) = sha (c @ d)"
      using arg_cong [OF True, of "\<lambda>l. l ! i"] i(1) assms(2) ab cd by simp
    ultimately show ?thesis
      using mem unfolding collide_def root_strings_def by force
  next
    case False
    have "merkle_loop sha (map ?leaf ps) ! 0 = merkle_loop sha (map ?leaf qs) ! 0"
      using assms(1) ne by (simp add: merkle_root_pairs_def)
    then have "collide sha (loop_strings sha (map ?leaf ps)) (loop_strings sha (map ?leaf qs))"
      using assms(2,4) ne False by (intro merkle_loop_binding [where n = 32]) auto
    then show ?thesis by (simp add: root_strings_def)
  qed
  then show ?thesis by (simp add: collide_def)
qed

lemma merkle_root_binding_witness:
  "\<exists>x \<in> set (root_strings (\<lambda>_. replicate 32 0) [(zero_block, zero_block)]).
    \<exists>y \<in> set (root_strings (\<lambda>_. replicate 32 0) [(zero_block, replicate 16 1)]). x \<noteq> y"
  using merkle_root_binding [of "\<lambda>_. replicate 32 0" "[(zero_block, zero_block)]"
      "[(zero_block, replicate 16 1)]"]
  by (auto simp: merkle_root_pairs_def merkle_loop.simps wf_block_def zero_block_def)

section \<open>Duplicated last leaf\<close>

text \<open>
  A list of an odd number (at least three) of label pairs has the same root as the list with
  its last pair repeated: the root does not commit to the number of pairs.
\<close>

theorem merkle_root_duplicate_last:
  assumes "odd (length pairs)" "3 \<le> length pairs"
  shows "merkle_root_pairs sha (pairs @ [last pairs]) = merkle_root_pairs sha pairs"
proof -
  let ?leaf = "\<lambda>(p0, p1). sha (p0 @ p1)"
  have ne: "pairs \<noteq> []" using assms(2) by auto
  have "merkle_level sha (map ?leaf (pairs @ [last pairs])) = merkle_level sha (map ?leaf pairs)"
    using assms(1) ne by (simp add: merkle_level_def last_map)
  then have "merkle_loop sha (map ?leaf (pairs @ [last pairs])) = merkle_loop sha (map ?leaf pairs)"
    using assms(2) ne by (subst (1 2) merkle_loop.simps) simp
  then show ?thesis using ne by (simp add: merkle_root_pairs_def)
qed

lemma merkle_root_duplicate_last_witness:
  "merkle_root_pairs (take 2) [([1], [2]), ([3], [4]), ([5], [6]), ([5], [6])] =
    merkle_root_pairs (take 2) [([1], [2]), ([3], [4]), ([5], [6])]"
  using merkle_root_duplicate_last [of "[([1], [2]), ([3], [4]), ([5], [6])]" "take 2"] by simp

end
