(* ===== verification/Probe.thy ===== *)
theory Probe
  imports Circuit Garble
begin

text \<open>
  The two-share encoding of the evaluator's input bits and the share labels of
  \<^verbatim>\<open>probe_resilient.hpp\<close>: the shares of a bit recombine to the bit, their labels to the label of
  the bit, and one share of every pair is independent of the bits.
\<close>

fun encode_shares :: "u8 list \<Rightarrow> mt19937_64 \<Rightarrow> u8 list \<times> mt19937_64" where
  "encode_shares [] g = ([], g)"
| "encode_shares (b # bs) g =
     (let (v, g) = rng_next g;
          r = ucast (v AND 1);
          (shares, g) = encode_shares bs g
      in (r # (r XOR (b AND 1)) # shares, g))"

record ShareLabelPair =
  s0_0 :: block
  s1_0 :: block

definition make_share_labels ::
  "block \<Rightarrow> block \<Rightarrow> mt19937_64 \<Rightarrow> ShareLabelPair \<times> mt19937_64" where
  "make_share_labels w0 d g =
    (let (s, g) = random_block g;
         s = (if lsb s then xor_block s d else s)
     in (\<lparr>s0_0 = s, s1_0 = xor_block w0 s\<rparr>, g))"

definition reconstruct_label :: "block \<Rightarrow> block \<Rightarrow> block" where
  "reconstruct_label lab0 lab1 = xor_block lab0 lab1"

section \<open>Recombination\<close>

lemma length_encode_shares [simp]: "length (fst (encode_shares bits g)) = 2 * length bits"
  by (induction bits arbitrary: g) (auto simp: Let_def split_beta)

lemma encode_shares_nth:
  "i < length bits \<Longrightarrow>
    fst (encode_shares bits g) ! (2 * i) = ucast (outputs g (drawn g + i) AND 1) \<and>
    fst (encode_shares bits g) ! (2 * i + 1) =
      ucast (outputs g (drawn g + i) AND 1) XOR (bits ! i AND 1)"
proof (induction bits arbitrary: i g)
  case (Cons b bs)
  then show ?case
    by (cases i) (auto simp: Let_def split_beta rng_next_def)
qed simp

lemma is_bit_ucast_and_one [simp]: "is_bit (ucast (x AND 1 :: u64))"
  by (simp add: is_bit_def and_one_eq mod_2_eq_odd)

lemma wf_make_share_labels:
  "make_share_labels w0 d g = (p, g') \<Longrightarrow> wf_block (s0_0 p) \<and> wf_block (s1_0 p)"
  using wf_random_block [of g]
  by (auto simp: make_share_labels_def Let_def split_beta)

lemma reconstruct_xor:
  assumes "wf_block w0" "wf_block d" "wf_block s0" "is_bit b0" "is_bit b1"
  shows "reconstruct_label (label_for_bit s0 d b0) (label_for_bit (xor_block w0 s0) d b1) =
    label_for_bit w0 d (b0 XOR b1)"
  using assms by (auto simp: reconstruct_label_def label_for_bit_def is_bit_def xor_ac)

lemma reconstruct_share_labels:
  assumes "wf_block w0" "wf_block d" "is_bit b0" "is_bit b1"
    and "make_share_labels w0 d g = (p, g')"
  shows "reconstruct_label (label_for_bit (s0_0 p) d b0) (label_for_bit (s1_0 p) d b1) =
    label_for_bit w0 d (b0 XOR b1)"
proof -
  have p: "s1_0 p = xor_block w0 (s0_0 p)" and wf: "wf_block (s0_0 p)"
    using assms(5) wf_make_share_labels [OF assms(5)]
    by (auto simp: make_share_labels_def Let_def split_beta)
  show ?thesis unfolding p by (rule reconstruct_xor) (use assms wf in auto)
qed

text \<open>
  Shares recombine.  For every input bit, the labels that oblivious transfer delivers for the
  bit's two shares combine by exclusive or to the active label of the bit itself.
\<close>

theorem shares_reconstruct_label:
  assumes "wf_block w0" "wf_block d" "i < length bits" "is_bit (bits ! i)"
    and "encode_shares bits g = (shares, g')" "make_share_labels w0 d h = (p, h')"
  shows "reconstruct_label (label_for_bit (s0_0 p) d (shares ! (2 * i)))
      (label_for_bit (s1_0 p) d (shares ! (2 * i + 1))) = label_for_bit w0 d (bits ! i)"
proof -
  let ?r = "ucast (outputs g (drawn g + i) AND 1) :: u8"
  have shares: "shares ! (2 * i) = ?r" "shares ! (2 * i + 1) = ?r XOR (bits ! i AND 1)"
    using encode_shares_nth [OF assms(3), of g] assms(5) by simp_all
  have "bits ! i AND 1 = bits ! i" using assms(4) by (auto simp: is_bit_def)
  then show ?thesis
    using reconstruct_share_labels [OF assms(1,2) _ _ assms(6), of ?r "?r XOR bits ! i"] assms(4)
    unfolding shares by (simp add: is_bit_ops)
qed

lemma shares_reconstruct_label_witness:
  "reconstruct_label
      (label_for_bit (s0_0 (fst (make_share_labels zero_block (replicate 16 1) (counting_rng 5))))
        (replicate 16 1) (fst (encode_shares [1] (counting_rng 3)) ! (2 * 0)))
      (label_for_bit (s1_0 (fst (make_share_labels zero_block (replicate 16 1) (counting_rng 5))))
        (replicate 16 1) (fst (encode_shares [1] (counting_rng 3)) ! (2 * 0 + 1))) =
    label_for_bit zero_block (replicate 16 1) ([1] ! 0)"
  by (rule shares_reconstruct_label [OF wf_zero_block _ _ _ prod.collapse [symmetric]
        prod.collapse [symmetric]]) (simp_all add: wf_block_def)

section \<open>One probe per bit\<close>

text \<open>
  The generator whose output differs in the lowest bit where the second share is the observed
  one and the two bit strings differ.
\<close>

definition matching_rng ::
  "(nat \<Rightarrow> bool) \<Rightarrow> u8 list \<Rightarrow> u8 list \<Rightarrow> mt19937_64 \<Rightarrow> mt19937_64" where
  "matching_rng second bits bits' g =
    g\<lparr>outputs := (\<lambda>n. let i = n - drawn g
       in if drawn g \<le> n \<and> i < length bits \<and> second i \<and> odd (bits ! i) \<noteq> odd (bits' ! i)
          then outputs g n XOR 1 else outputs g n)\<rparr>"

text \<open>
  One probe per bit reveals nothing.  Whatever two bit strings of one length, and whichever
  one of the two shares of every bit is observed, the generator output \<open>matching_rng\<close> makes the
  second string show exactly the shares observed for the first; the change of generator is its own
  inverse, so both strings show every observation equally often.
\<close>

theorem single_share_independent:
  assumes "length bits = length bits'"
  shows "(\<forall>i < length bits.
      fst (encode_shares bits' (matching_rng second bits bits' g)) !
        (2 * i + (if second i then 1 else 0)) =
      fst (encode_shares bits g) ! (2 * i + (if second i then 1 else 0))) \<and>
    matching_rng second bits bits' (matching_rng second bits bits' g) = g"
proof (intro conjI allI impI)
  fix i assume i: "i < length bits"
  have one: "x AND 1 = of_bool (odd x)" for x :: u8 by (simp add: and_one_eq mod_2_eq_odd)
  have one': "ucast (x AND 1 :: u64) = (of_bool (odd x) :: u8)" for x
    by (simp add: and_one_eq mod_2_eq_odd)
  have "outputs (matching_rng second bits bits' g) (drawn g + i) =
      (if second i \<and> odd (bits ! i) \<noteq> odd (bits' ! i) then outputs g (drawn g + i) XOR 1
       else outputs g (drawn g + i))"
    "drawn (matching_rng second bits bits' g) = drawn g"
    using i by (simp_all add: matching_rng_def)
  then show "fst (encode_shares bits' (matching_rng second bits bits' g)) !
        (2 * i + (if second i then 1 else 0)) =
      fst (encode_shares bits g) ! (2 * i + (if second i then 1 else 0))"
    using encode_shares_nth [OF i, of g]
      encode_shares_nth [of i bits' "matching_rng second bits bits' g"] i assms
    by (auto simp: one one' even_xor_iff)
qed (simp add: matching_rng_def fun_eq_iff Let_def xor.assoc)

lemma single_share_independent_witness:
  "fst (encode_shares [1] (matching_rng (\<lambda>_. True) [0] [1] (counting_rng 6))) ! 1 =
   fst (encode_shares [0] (counting_rng 6)) ! 1"
  using single_share_independent [of "[0]" "[1]" "\<lambda>_. True" "(counting_rng 6)"]
  by (simp del: encode_shares.simps)

end
