(* ===== verification/Plain_OPRF.thy ===== *)
theory Plain_OPRF
  imports AES_Permutation Circuit "HOL-Library.Char_ord"
begin

text \<open>
  The reference function of \<^verbatim>\<open>plaintext_oprf.hpp\<close>, \<open>F_k(x) = H2(x, AES_k(H1(x)))\<close>, the key
  commitment and the hexadecimal rendering.  \<^verbatim>\<open>SHA256\<close> is OpenSSL's: the parameter \<open>sha\<close>, which
  returns 32 bytes.
\<close>

definition H1 :: "(u8 list \<Rightarrow> u8 list) \<Rightarrow> u8 list \<Rightarrow> block" where
  "H1 sha x = take 16 (sha x)"

definition H2 :: "(u8 list \<Rightarrow> u8 list) \<Rightarrow> u8 list \<Rightarrow> block \<Rightarrow> u8 list" where
  "H2 sha x z = sha (x @ z)"

definition aes_encrypt :: "block \<Rightarrow> block \<Rightarrow> block" where
  "aes_encrypt key pt = encrypt (FixedKeyAES_init key) pt"

definition key_schedule :: "block \<Rightarrow> block list" where
  "key_schedule key = map (\<lambda>i. rk (FixedKeyAES_init key) ! i) [0..<11]"

definition F_k :: "(u8 list \<Rightarrow> u8 list) \<Rightarrow> block \<Rightarrow> u8 list \<Rightarrow> u8 list" where
  "F_k sha k x =
    (let xp = H1 sha x;
         z = aes_encrypt k xp
     in H2 sha x z)"

text \<open>The plaintext of iteration \<open>i\<close> of \<^verbatim>\<open>key_commitment\<close>: the counter in two bytes.\<close>

definition counter_block :: "nat \<Rightarrow> block" where
  "counter_block i =
    zero_block[0 := word_of_nat (i mod 256), 1 := word_of_nat (i div 256 mod 256)]"

definition key_commitment :: "(u8 list \<Rightarrow> u8 list) \<Rightarrow> block \<Rightarrow> nat \<Rightarrow> u8 list" where
  "key_commitment sha k T =
    (let aes = FixedKeyAES_init k
     in foldl (\<lambda>cm i. cm @ encrypt aes (counter_block i)) (sha k) [0..<T])"

definition hexd :: string where
  "hexd = ''0123456789abcdef''"

definition hex32 :: "u8 list \<Rightarrow> string" where
  "hex32 a = concat (map (\<lambda>i. [hexd ! unat (drop_bit 4 (a ! i)), hexd ! unat (a ! i AND 0xf)]) [0..<32])"

section \<open>The key commitment\<close>

lemma length_key_commitment: "length (key_commitment sha k T) = length (sha k) + 16 * T"
proof -
  have "length (encrypt aes x) = 16" for aes x using wf_encrypt by (simp add: wf_block_def)
  then show ?thesis by (induction T) (auto simp: key_commitment_def Let_def)
qed

lemma key_commitment_Suc:
  "key_commitment sha k (Suc T) =
    key_commitment sha k T @ encrypt (FixedKeyAES_init k) (counter_block T)"
  by (simp add: key_commitment_def Let_def)

lemma key_commitment_slot:
  assumes "length (sha k) = 32" "i < T"
  shows "take 16 (drop (32 + 16 * i) (key_commitment sha k T)) =
    encrypt (FixedKeyAES_init k) (counter_block i)"
  using assms(2)
proof (induction T)
  case (Suc T)
  let ?c = "encrypt (FixedKeyAES_init k) (counter_block T)"
  have c: "length ?c = 16" using wf_encrypt by (simp add: wf_block_def)
  have len: "length (key_commitment sha k T) = 32 + 16 * T"
    using assms(1) by (simp add: length_key_commitment)
  show ?case
  proof (cases "i = T")
    case True
    then show ?thesis using len c by (simp add: key_commitment_Suc)
  next
    case False
    then have "i < T" using Suc.prems by simp
    then have "take 16 (drop (32 + 16 * i) (key_commitment sha k T @ ?c)) =
        take 16 (drop (32 + 16 * i) (key_commitment sha k T))"
      using len by simp
    then show ?thesis using Suc.IH \<open>i < T\<close> by (simp add: key_commitment_Suc)
  qed
qed simp

lemma wf_counter_block [simp]: "wf_block (counter_block i)"
  by (simp add: counter_block_def wf_block_def zero_block_def)

lemma word_of_nat_mod_256: "word_of_nat (i mod 256) = (word_of_nat (j mod 256) :: u8) \<longleftrightarrow> i mod 256 = j mod 256"
  by (auto simp: word_of_nat_eq_iff take_bit_eq_mod)

lemma counter_block_eq_iff: "counter_block i = counter_block j \<longleftrightarrow> i mod 65536 = j mod 65536"
proof -
  have nth: "counter_block n ! 0 = word_of_nat (n mod 256)"
    "counter_block n ! 1 = word_of_nat (n div 256 mod 256)" for n
    by (simp_all add: counter_block_def zero_block_def)
  have "counter_block i = counter_block j \<longleftrightarrow>
      i mod 256 = j mod 256 \<and> i div 256 mod 256 = j div 256 mod 256"
  proof
    assume "counter_block i = counter_block j"
    then show "i mod 256 = j mod 256 \<and> i div 256 mod 256 = j div 256 mod 256"
      using nth [of i] nth [of j] word_of_nat_mod_256 by metis
  qed (simp add: counter_block_def)
  also have "\<dots> \<longleftrightarrow> i mod 65536 = j mod 65536"
  proof -
    have "n mod 65536 = 256 * (n div 256 mod 256) + n mod 256" for n :: nat
      using mod_mult2_eq [of n 256 256] by simp
    moreover have "n mod 65536 mod 256 = n mod 256" "n mod 65536 div 256 = n div 256 mod 256" for n :: nat
      by (simp_all add: mod_mod_cancel calculation)
    ultimately show ?thesis by metis
  qed
  finally show ?thesis .
qed

text \<open>
  The key commitment is the digest of the key and the encryptions of its first \<open>T\<close> counter
  blocks, each in its 16-byte slot; two slots hold the same block exactly when their 16-bit
  counters agree, so the 128 blocks of the protocol are pairwise distinct, and a commitment of
  more than 65536 blocks repeats itself.
\<close>

theorem key_commitment_slots:
  assumes "length (sha k) = 32" "i < T" "j < T"
  shows "length (key_commitment sha k T) = 32 + 16 * T \<and>
    take 32 (key_commitment sha k T) = sha k \<and>
    take 16 (drop (32 + 16 * i) (key_commitment sha k T)) = aes_encrypt k (counter_block i) \<and>
    (take 16 (drop (32 + 16 * i) (key_commitment sha k T)) =
       take 16 (drop (32 + 16 * j) (key_commitment sha k T)) \<longleftrightarrow> i mod 65536 = j mod 65536)"
proof (intro conjI)
  show "take 32 (key_commitment sha k T) = sha k"
    using assms(1) by (induction T) (simp_all add: key_commitment_Suc length_key_commitment,
        simp add: key_commitment_def)
  have "encrypt (FixedKeyAES_init k) (counter_block i) = encrypt (FixedKeyAES_init k) (counter_block j)
      \<longleftrightarrow> counter_block i = counter_block j"
    using inj_on_encrypt [of "FixedKeyAES_init k"] by (simp add: inj_on_eq_iff)
  then show "take 16 (drop (32 + 16 * i) (key_commitment sha k T)) =
       take 16 (drop (32 + 16 * j) (key_commitment sha k T)) \<longleftrightarrow> i mod 65536 = j mod 65536"
    by (simp add: key_commitment_slot [where sha = sha, OF assms(1,2)] key_commitment_slot [where sha = sha, OF assms(1,3)]
        counter_block_eq_iff)
qed (simp_all add: assms length_key_commitment key_commitment_slot aes_encrypt_def)

lemma key_commitment_slots_witness:
  "take 16 (drop 48 (key_commitment (\<lambda>_. replicate 32 0) zero_block 128)) =
     aes_encrypt zero_block (counter_block 1) \<and>
   take 16 (drop 48 (key_commitment (\<lambda>_. replicate 32 0) zero_block 128)) \<noteq>
     take 16 (drop 64 (key_commitment (\<lambda>_. replicate 32 0) zero_block 128))"
  using key_commitment_slots [of "\<lambda>_. replicate 32 0" zero_block 1 128 2] by auto

section \<open>Hexadecimal rendering\<close>

text \<open>A reader of hexadecimal digits, to state that the rendering loses nothing.\<close>

definition hex_digit :: "char \<Rightarrow> u8" where
  "hex_digit c = (if CHR ''a'' \<le> c then word_of_nat (of_char c - 87) else word_of_nat (of_char c - 48))"

fun unhex :: "string \<Rightarrow> u8 list" where
  "unhex (h # l # rest) = (push_bit 4 (hex_digit h) OR hex_digit l) # unhex rest"
| "unhex _ = []"

lemma hex_digit_hexd: "n < 16 \<Longrightarrow> hex_digit (hexd ! n) = word_of_nat n"
proof -
  assume "n < 16"
  then have "n \<in> set [0..<16]" by simp
  then show ?thesis
    unfolding upt_16 by (auto simp: hexd_def hex_digit_def less_eq_char_def)
qed

lemma and_15: "x AND 0xf = take_bit 4 x" for x :: u8
  by (simp add: take_bit_eq_mask mask_eq_exp_minus_1)

lemma nibbles: "push_bit 4 (drop_bit 4 x) OR (x AND 0xf) = x" for x :: u8
  by (auto simp: and_15 bit_eq_iff bit_or_iff bit_push_bit_iff bit_drop_bit_eq bit_take_bit_iff)

lemma unhex_hex_byte:
  "unhex (hexd ! unat (drop_bit 4 x) # hexd ! unat (x AND 0xf) # rest) = x # unhex rest"
proof -
  have "unat x < 2 ^ LENGTH(8)" by (rule unsigned_less)
  then have "unat x div 16 < 16" by simp
  then have "unat (drop_bit 4 x) < 16" by (simp add: drop_bit_eq_div unat_div)
  moreover have "unat (x AND 0xf) < 16"
    using take_bit_nat_less_exp [of 4 "unat x"] by (simp add: and_15 unsigned_take_bit_eq)
  ultimately show ?thesis by (simp add: hex_digit_hexd nibbles)
qed

text \<open>
  The hexadecimal rendering of a digest is 64 characters long and reads back to the digest.
\<close>

theorem hex32_roundtrip:
  assumes "length a = 32"
  shows "length (hex32 a) = 64 \<and> unhex (hex32 a) = a"
proof -
  have "unhex (concat (map (\<lambda>i. [hexd ! unat (drop_bit 4 (a ! i)), hexd ! unat (a ! i AND 0xf)]) is)) =
      map (\<lambda>i. a ! i) is" for "is"
    by (induction "is") (simp_all add: unhex_hex_byte del: unhex.simps(1))
  moreover have "length (concat (map (\<lambda>i. [hexd ! unat (drop_bit 4 (a ! i)),
      hexd ! unat (a ! i AND 0xf)]) is)) = 2 * length is" for "is"
    by (induction "is") simp_all
  ultimately show ?thesis using assms by (simp add: hex32_def map_upt_nth_eq)
qed

lemma hex32_roundtrip_witness:
  "unhex (hex32 (replicate 32 0xa7)) = replicate 32 0xa7"
  using hex32_roundtrip [of "replicate 32 0xa7"] by simp

end
