(* ===== verification/Garble_Correct.thy ===== *)
theory Garble_Correct
  imports Garble
begin

text \<open>
  Garbling, evaluating on labels and decoding computes the circuit: the three runs of
  \<^verbatim>\<open>garble_circuit\<close>, \<^verbatim>\<open>eval_circuit_labels\<close> and \<^verbatim>\<open>eval_circuit_plain\<close> over the same
  well-formed circuit are related gate by gate (\<open>gates_simulation\<close>), from the input loop to the
  decoding table.
\<close>

section \<open>The garbler succeeds on well-formed circuits\<close>

text \<open>What holds of the zero labels at every point of the garbling.\<close>

definition zero_labels_ok :: "nat \<Rightarrow> block list \<Rightarrow> bool" where
  "zero_labels_ok n w \<longleftrightarrow> length w = n \<and> (\<forall>x \<in> set w. wf_block x)"

lemma zero_labels_ok_update [simp]:
  "zero_labels_ok n w \<Longrightarrow> wf_block x \<Longrightarrow> zero_labels_ok n (w[i := x])"
  using set_update_subset_insert [of w i x] by (auto simp: zero_labels_ok_def)

lemma garble_inputs_ok:
  assumes "\<forall>i \<in> set is. i < n" "wf_block d" "lsb d" "zero_labels_ok n w"
  shows "\<exists>w' g'. garble_inputs is d (w, g) = Inr (w', g') \<and> zero_labels_ok n w' \<and>
    (\<forall>j < n. j \<in> set is \<or> \<not> lsb (w ! j) \<longrightarrow> \<not> lsb (w' ! j)) \<and>
    (\<forall>j < n. j \<notin> set is \<longrightarrow> w' ! j = w ! j)"
  using assms
proof (induction "is" arbitrary: w g)
  case (Cons i "is")
  obtain b g1 where b: "random_block g = (b, g1)" by fastforce
  let ?b = "if lsb b then xor_block b d else b"
  have wf: "wf_block ?b" using b wf_random_block [of g] by simp
  have "length w = n" "i < n" using Cons.prems by (auto simp: zero_labels_ok_def)
  then have step: "garble_inputs (i # is) d (w, g) = garble_inputs is d (w[i := ?b], g1)"
    by (simp add: b)
  have ok: "zero_labels_ok n (w[i := ?b])"
    using Cons.prems(4) wf by (rule zero_labels_ok_update)
  have cleared: "\<not> lsb (w[i := ?b] ! j)" if "j < n" "j = i \<or> \<not> lsb (w ! j)" for j
    using that \<open>length w = n\<close> Cons.prems(3) by (cases "j = i") auto
  from Cons.IH [of "w[i := ?b]" g1] Cons.prems ok
  obtain w' g' where "garble_inputs is d (w[i := ?b], g1) = Inr (w', g')" "zero_labels_ok n w'"
    "\<forall>j < n. j \<in> set is \<or> \<not> lsb (w[i := ?b] ! j) \<longrightarrow> \<not> lsb (w' ! j)"
    "\<forall>j < n. j \<notin> set is \<longrightarrow> w' ! j = w[i := ?b] ! j"
    by auto
  then show ?case unfolding step using cleared by auto
qed auto

lemma garble_gate_ok:
  assumes "gate_ok nin (length (wire0 gr)) g"
  shows "\<exists>w extra wits. garble_gate aes (gr, n) g =
      Inr (gr\<lparr>wire0 := (wire0 gr)[unat (gate_out g) := w], tables := tables gr @ extra,
              and_wit := and_wit gr @ wits\<rparr>,
           n + (if gate_type g = AND_gate then 1 else 0)) \<and>
    (zero_labels_ok m (wire0 gr) \<longrightarrow> wf_block w) \<and>
    length extra = (if gate_type g = AND_gate then 1 else 0) \<and>
    extra = map (\<lambda>x. \<lparr>T0 = hw_Tg x, T1 = hw_Te x\<rparr>) wits"
proof (cases "gate_type g")
  case XOR_gate
  then show ?thesis using assms
    by (intro exI [of _ "xor_block (wire0 gr ! unat (in0 g)) (wire0 gr ! unat (in1 g))"]
        exI [of _ "[]"]) (simp add: garble_gate_def gate_ok_def)
next
  case INV_gate
  then show ?thesis using assms
    by (intro exI [of _ "xor_block (wire0 gr ! unat (in0 g)) (delta gr)"] exI [of _ "[]"])
      (simp add: garble_gate_def gate_ok_def)
next
  case AND_gate
  let ?wit = "and_witness aes (delta gr) n (wire0 gr ! unat (in0 g)) (wire0 gr ! unat (in1 g))"
  show ?thesis using assms AND_gate
    by (intro exI [of _ "and_output0 ?wit"] exI [of _ "[\<lparr>T0 = hw_Tg ?wit, T1 = hw_Te ?wit\<rparr>]"]
        exI [of _ "[?wit]"]) (simp add: garble_gate_def gate_ok_def Let_def)
qed

abbreviation and_count :: "Gate list \<Rightarrow> nat" where
  "and_count gs \<equiv> length (filter (\<lambda>g. gate_type g = AND_gate) gs)"

text \<open>
  The gate loop: it succeeds, keeps the input labels, the offset and the key, and appends one
  table and one witness per AND gate.
\<close>

lemma garble_gates_ok:
  assumes "list_all (gate_ok nin n) gs" "zero_labels_ok n (wire0 gr)"
    and "tables gr = map (\<lambda>x. \<lparr>T0 = hw_Tg x, T1 = hw_Te x\<rparr>) (and_wit gr)"
  shows "\<exists>gr' k'. fold_result (garble_gate aes) (gr, k) gs = Inr (gr', k') \<and>
    zero_labels_ok n (wire0 gr') \<and> take nin (wire0 gr') = take nin (wire0 gr) \<and>
    delta gr' = delta gr \<and> aes_key gr' = aes_key gr \<and>
    length (tables gr') = length (tables gr) + and_count gs \<and>
    tables gr' = map (\<lambda>x. \<lparr>T0 = hw_Tg x, T1 = hw_Te x\<rparr>) (and_wit gr')"
  using assms
proof (induction gs arbitrary: gr k)
  case (Cons g gs)
  have len: "length (wire0 gr) = n" using Cons.prems(2) by (simp add: zero_labels_ok_def)
  have g: "gate_ok nin (length (wire0 gr)) g" using Cons.prems(1) len by simp
  obtain w extra wits where step: "garble_gate aes (gr, k) g =
      Inr (gr\<lparr>wire0 := (wire0 gr)[unat (gate_out g) := w], tables := tables gr @ extra,
              and_wit := and_wit gr @ wits\<rparr>,
           k + (if gate_type g = AND_gate then 1 else 0))"
    and w: "wf_block w"
    and extra: "length extra = (if gate_type g = AND_gate then 1 else 0)"
      "extra = map (\<lambda>x. \<lparr>T0 = hw_Tg x, T1 = hw_Te x\<rparr>) wits"
    using garble_gate_ok [OF g, of aes k n] Cons.prems(2) by blast
  let ?gr = "gr\<lparr>wire0 := (wire0 gr)[unat (gate_out g) := w], tables := tables gr @ extra,
              and_wit := and_wit gr @ wits\<rparr>"
  have "nin \<le> unat (gate_out g)" using g by (simp add: gate_ok_def)
  then have keep: "take nin (wire0 ?gr) = take nin (wire0 gr)" by simp
  have "list_all (gate_ok nin n) gs" "zero_labels_ok n (wire0 ?gr)"
    "tables ?gr = map (\<lambda>x. \<lparr>T0 = hw_Tg x, T1 = hw_Te x\<rparr>) (and_wit ?gr)"
    using Cons.prems w extra(2) by simp_all
  from Cons.IH [OF this, of "k + (if gate_type g = AND_gate then 1 else 0)"]
  show ?case using keep extra(1) by (simp add: step) auto
qed simp

section \<open>From the inputs to the decoded outputs\<close>

text \<open>The active input labels of the bits \<open>bits\<close>, as garbler input and OT deliver them.\<close>

definition input_labels :: "GarbleResult \<Rightarrow> u8 list \<Rightarrow> block list" where
  "input_labels gr bits =
    map (\<lambda>i. label_for_bit (wire0 gr ! i) (delta gr) (bits ! i)) [0..<length bits]"

lemma length_input_labels [simp]: "length (input_labels gr bits) = length bits"
  by (simp add: input_labels_def)

lemma eval_plain_fill:
  assumes "\<forall>b \<in> set bits. is_bit b" "length bits \<le> n"
  shows "fold_result (\<lambda>w i. vec_write w i (bits ! i AND 1)) (replicate n 0) [0..<length bits] =
    Inr (bits @ replicate (n - length bits) 0)"
proof -
  have "bits ! i AND 1 = bits ! i" if "i < length bits" for i
  proof -
    have "is_bit (bits ! i)" using assms(1) that by simp
    then show ?thesis by (auto simp: is_bit_def)
  qed
  then have "map (\<lambda>i. bits ! i AND 1) [0..<length bits] = bits"
    by (auto intro: nth_equalityI)
  then show ?thesis using fold_result_fill [of "length bits" "replicate n 0" "\<lambda>i. bits ! i AND 1"] assms(2) by simp
qed

text \<open>
  What \<open>garble_circuit\<close> returns: the result \<open>gr\<close> by its fields, and the states \<open>gr0\<close> and \<open>gr1\<close>
  between which the gate loop ran.
\<close>

definition garbled_from ::
  "(u8 list \<Rightarrow> u8 list) \<Rightarrow> Circuit \<Rightarrow> FixedKeyAES \<Rightarrow> GarbleResult \<Rightarrow> GarbleResult \<Rightarrow>
    GarbleResult \<Rightarrow> u64 \<Rightarrow> bool" where
  "garbled_from sha c aes gr gr0 gr1 k \<longleftrightarrow>
    wf_block (delta gr) \<and> lsb (delta gr) \<and> delta gr0 = delta gr \<and> tables gr0 = [] \<and>
    wire0 gr1 = wire0 gr \<and> tables gr1 = tables gr \<and> delta gr1 = delta gr \<and>
    fold_result (garble_gate aes) (gr0, 0) (gates c) = Inr (gr1, k) \<and>
    zero_labels_ok (unat (n_wires c)) (wire0 gr0) \<and>
    zero_labels_ok (unat (n_wires c)) (wire0 gr) \<and>
    take (n_inputs c) (wire0 gr) = take (n_inputs c) (wire0 gr0) \<and>
    (\<forall>j < unat (n_wires c). \<not> lsb (wire0 gr0 ! j)) \<and>
    (\<forall>j < unat (n_wires c). n_inputs c \<le> j \<longrightarrow> wire0 gr0 ! j = zero_block) \<and>
    out_decode gr = map (\<lambda>o_i. if lsb (wire0 gr ! unat o_i) then 1 else 0) (output_wires c) \<and>
    gc_hash gr = sha (tables_to_bytes (tables gr)) \<and>
    R_root gr = merkle_root_pairs sha
       (map (\<lambda>i. let z = wire0 gr ! (unat (n_input0 c) + i) in (z, xor_block z (delta gr)))
         [0..<unat (n_input1 c)]) \<and>
    length (tables gr) = and_count (gates c) \<and>
    tables gr = map (\<lambda>x. \<lparr>T0 = hw_Tg x, T1 = hw_Te x\<rparr>) (and_wit gr)"

lemma garble_circuit_ok:
  assumes "circuit_ok c"
  shows "\<exists>gr g' gr0 gr1 k. garble_circuit sha c mmo_key aes g = Inr (gr, g') \<and>
    aes_key gr = mmo_key \<and> garbled_from sha c aes gr gr0 gr1 k"
proof -
  let ?n = "unat (n_wires c)" and ?d = "fst (make_delta g)"
  let ?w0 = "replicate ?n zero_block"
  have w0: "zero_labels_ok ?n ?w0" by (auto simp: zero_labels_ok_def)
  have c: "n_inputs c \<le> ?n" "list_all (gate_ok (n_inputs c) ?n) (gates c)"
    using assms by (auto simp: circuit_ok_def)
  have "\<forall>i \<in> set [0..<n_inputs c]. i < ?n" using c(1) by auto
  from garble_inputs_ok [OF this wf_make_delta [of g] lsb_make_delta [of g] w0, of "snd (make_delta g)"]
  obtain w g1 where inp: "garble_inputs [0..<n_inputs c] ?d (?w0, snd (make_delta g)) = Inr (w, g1)"
    and w: "zero_labels_ok ?n w" "\<forall>j < ?n. \<not> lsb (w ! j)"
      "\<forall>j < ?n. n_inputs c \<le> j \<longrightarrow> w ! j = zero_block"
    by auto
  define gr0 where "gr0 = \<lparr>tables = [], and_wit = [], wire0 = w, delta = ?d, aes_key = mmo_key,
                  out_decode = [], gc_hash = replicate 32 0, R_root = replicate 32 0\<rparr>"
  have "zero_labels_ok ?n (wire0 gr0)"
    "tables gr0 = map (\<lambda>x. \<lparr>T0 = hw_Tg x, T1 = hw_Te x\<rparr>) (and_wit gr0)"
    using w by (simp_all add: gr0_def)
  from garble_gates_ok [OF c(2) this, of aes 0]
  obtain gr1 k where run: "fold_result (garble_gate aes) (gr0, 0) (gates c) = Inr (gr1, k)"
    and gr1: "zero_labels_ok ?n (wire0 gr1)" "take (n_inputs c) (wire0 gr1) = take (n_inputs c) w"
      "delta gr1 = ?d" "aes_key gr1 = mmo_key" "length (tables gr1) = and_count (gates c)"
      "tables gr1 = map (\<lambda>x. \<lparr>T0 = hw_Tg x, T1 = hw_Te x\<rparr>) (and_wit gr1)"
    by (auto simp: gr0_def)
  have len: "length (wire0 gr1) = ?n" using gr1(1) by (simp add: zero_labels_ok_def)
  have idx: "unat (n_input0 c + word_of_nat i) = unat (n_input0 c) + i" if "i < unat (n_input1 c)" for i
  proof -
    have "unat (n_wires c) < 2 ^ LENGTH(64)" by (rule unsigned_less)
    then show ?thesis
      using that c(1) by (simp add: n_inputs_def unat_word_ariths unat_of_nat)
  qed
  define zs where "zs = map (\<lambda>i. wire0 gr1 ! (unat (n_input0 c) + i)) [0..<unat (n_input1 c)]"
  have zs: "map_result (\<lambda>i. vec_read (wire0 gr1) (unat (n_input0 c + word_of_nat i)))
          [0..<unat (n_input1 c)] = Inr zs"
    unfolding zs_def using len c(1)
    by (intro map_result_Inr) (simp add: idx n_inputs_def)
  define gr where "gr = gr1\<lparr>
      out_decode := map (\<lambda>o_i. if lsb (wire0 gr1 ! unat o_i) then 1 else 0) (output_wires c),
      gc_hash := sha (tables_to_bytes (tables gr1)),
      R_root := merkle_root_pairs sha (map (\<lambda>z. (z, xor_block z ?d)) zs)\<rparr>"
  have "garble_circuit sha c mmo_key aes g = Inr (gr, g1)"
    using inp run zs read_outputs_ok [OF assms len] gr1(3)
    by (simp add: garble_circuit_def n_inputs_unat [OF assms] split_beta gr0_def [symmetric]
        gr_def comp_def)
  moreover have "R_root gr = merkle_root_pairs sha
       (map (\<lambda>i. let z = wire0 gr ! (unat (n_input0 c) + i) in (z, xor_block z (delta gr)))
         [0..<unat (n_input1 c)])"
    by (simp add: gr_def zs_def comp_def gr1(3) Let_def)
  ultimately have "aes_key gr = mmo_key \<and> garbled_from sha c aes gr gr0 gr1 k"
    unfolding garbled_from_def using run w gr1 by (simp add: gr_def gr0_def)
  with \<open>garble_circuit sha c mmo_key aes g = Inr (gr, g1)\<close> show ?thesis by blast
qed

lemma garble_circuit_from:
  assumes "circuit_ok c" "garble_circuit sha c mmo_key aes g = Inr (gr, g')"
  obtains gr0 gr1 k where "garbled_from sha c aes gr gr0 gr1 k" "aes_key gr = mmo_key"
  using garble_circuit_ok [OF assms(1), of sha mmo_key aes g] assms(2) by auto

lemma garbled_run:
  assumes c: "circuit_ok c" and bits: "length bits = n_inputs c" "\<forall>b \<in> set bits. is_bit b"
    and gr: "garble_circuit sha c mmo_key aes g = Inr (gr, g')"
  shows "\<exists>out. eval_circuit_plain c bits = Inr out \<and> length out = unat (n_output c) \<and>
    (\<forall>b \<in> set out. is_bit b) \<and>
    eval_circuit_labels c aes gr (input_labels gr bits) = Inr
      (map (\<lambda>(o_i, b). label_for_bit (wire0 gr ! unat o_i) (delta gr) b) (zip (output_wires c) out)) \<and>
    out_decode gr = map (\<lambda>o_i. if lsb (wire0 gr ! unat o_i) then 1 else 0) (output_wires c) \<and>
    (\<forall>o_i \<in> set (output_wires c). wf_block (wire0 gr ! unat o_i)) \<and>
    wf_block (delta gr) \<and> lsb (delta gr)"
proof -
  let ?n = "unat (n_wires c)"
  obtain gr0 gr1 k where "garbled_from sha c aes gr gr0 gr1 k"
    using garble_circuit_from [OF c gr] by blast
  then have eqs: "delta gr0 = delta gr" "tables gr0 = []" "wire0 gr1 = wire0 gr"
      "tables gr1 = tables gr" "delta gr1 = delta gr"
    and run: "fold_result (garble_gate aes) (gr0, 0) (gates c) = Inr (gr1, k)"
    and w0: "zero_labels_ok ?n (wire0 gr0)" "zero_labels_ok ?n (wire0 gr)"
    and keep: "take (n_inputs c) (wire0 gr) = take (n_inputs c) (wire0 gr0)"
    and fresh: "\<forall>j < ?n. n_inputs c \<le> j \<longrightarrow> wire0 gr0 ! j = zero_block"
    and dec: "out_decode gr = map (\<lambda>o_i. if lsb (wire0 gr ! unat o_i) then 1 else 0) (output_wires c)"
    and d: "wf_block (delta gr)" "lsb (delta gr)"
    unfolding garbled_from_def by - (elim conjE, assumption)+
  have ci: "n_inputs c \<le> ?n" "length (gates c) < 2 ^ 64"
      "list_all (gate_ok (n_inputs c) (length (wire0 gr0))) (gates c)"
    using c w0(1) by (auto simp: circuit_ok_def zero_labels_ok_def)
  define v where "v = bits @ replicate (?n - length bits) (0 :: u8)"
  define w where "w = input_labels gr bits @ replicate (?n - length bits) zero_block"
  have len: "length v = ?n" "length w = ?n" using bits(1) ci(1) by (simp_all add: v_def w_def)
  have initv: "fold_result (\<lambda>w i. vec_write w i (bits ! i AND 1)) (replicate ?n 0)
      [0..<length bits] = Inr v"
    unfolding v_def using eval_plain_fill [OF bits(2), of ?n] bits(1) ci(1) by simp
  have initw: "fold_result (\<lambda>w i. vec_write w i (input_labels gr bits ! i)) (replicate ?n zero_block)
      [0..<length bits] = Inr w"
    using fold_result_fill [of "length bits" "replicate ?n zero_block" "\<lambda>i. input_labels gr bits ! i"]
      bits(1) ci(1) by (simp add: w_def map_upt_nth_eq)
  have rel: "labels_of (delta gr0) (wire0 gr0) v w"
    unfolding labels_of_def
  proof (intro conjI allI impI)
    fix i assume "i < length (wire0 gr0)"
    then have i: "i < ?n" using w0(1) by (simp add: zero_labels_ok_def)
    show "wf_block (wire0 gr0 ! i)" using w0(1) i by (simp add: zero_labels_ok_def)
    show "is_bit (v ! i)" using bits i by (simp add: v_def nth_append)
    have same: "wire0 gr0 ! i = wire0 gr ! i" if "i < n_inputs c"
      using keep that by (metis nth_take)
    show "w ! i = label_for_bit (wire0 gr0 ! i) (delta gr0) (v ! i)"
    proof (cases "i < n_inputs c")
      case True
      then show ?thesis using same bits(1)
        by (simp add: w_def v_def nth_append input_labels_def eqs(1))
    next
      case False
      then show ?thesis using fresh i bits(1) by (simp add: w_def v_def nth_append label_for_bit_def)
    qed
  qed (use len w0(1) in \<open>simp_all add: zero_labels_ok_def\<close>)
  obtain v' w' where sim: "fold_result plain_gate v (gates c) = Inr v'"
      "fold_result (label_gate aes (tables gr)) (w, 0) (gates c) = Inr (w', k)"
      "labels_of (delta gr0) (wire0 gr1) v' w'"
      "delta gr1 = delta gr0" "length (wire0 gr1) = length (wire0 gr0)"
    using gates_simulation [OF ci(3) _ _ rel, of 0 aes gr1 k "tables gr" "[]"] d eqs ci(2) run
    by auto
  have len': "length v' = ?n" "length w' = ?n" and outw: "\<forall>o_i \<in> set (output_wires c). unat o_i < ?n"
    and n_out: "length (output_wires c) = unat (n_output c)"
    using sim(3) w0(2) c
    by (auto simp: labels_of_def eqs zero_labels_ok_def circuit_ok_def list_all_iff)
  have lab: "w' ! unat o_i = label_for_bit (wire0 gr ! unat o_i) (delta gr) (v' ! unat o_i)"
    "is_bit (v' ! unat o_i)" "wf_block (wire0 gr ! unat o_i)"
    if "o_i \<in> set (output_wires c)" for o_i
    using sim(3) that outw w0(2) by (simp_all add: labels_of_def eqs(1,3) zero_labels_ok_def)
  let ?out = "map (\<lambda>o_i. v' ! unat o_i) (output_wires c)"
  have plain: "eval_circuit_plain c bits = Inr ?out"
    using initv sim(1) read_outputs_ok [OF c len'(1)] bits(1)
    by (simp add: eval_circuit_plain_def n_inputs_unat [OF c])
  have "eval_circuit_labels c aes gr (input_labels gr bits) =
      Inr (map (\<lambda>o_i. w' ! unat o_i) (output_wires c))"
    using initw sim(2) read_outputs_ok [OF c len'(2)] bits(1)
    by (simp add: eval_circuit_labels_def n_inputs_unat [OF c])
  also have "map (\<lambda>o_i. w' ! unat o_i) (output_wires c) =
      map (\<lambda>(o_i, b). label_for_bit (wire0 gr ! unat o_i) (delta gr) b) (zip (output_wires c) ?out)"
    using lab(1) by (simp add: zip_map2 zip_same_conv_map comp_def)
  finally show ?thesis
    using plain lab(2,3) n_out dec d by (intro exI [of _ ?out]) simp
qed

lemma garble_circuit_total:
  assumes "circuit_ok c"
  shows "\<exists>gr g'. garble_circuit sha c mmo_key aes g = Inr (gr, g')"
  using garble_circuit_ok [OF assms, of sha mmo_key aes g] by blast

lemma garbled_decode:
  assumes "circuit_ok c" "length bits = n_inputs c" "\<forall>b \<in> set bits. is_bit b"
    and gr: "garble_circuit sha c mmo_key aes g = Inr (gr, g')"
  shows "\<exists>labels out.
    eval_circuit_labels c aes gr (input_labels gr bits) = Inr labels \<and>
    decode_outputs gr labels = Inr out \<and>
    eval_circuit_plain c bits = Inr out \<and> length out = unat (n_output c)"
proof -
  obtain out where out: "eval_circuit_plain c bits = Inr out" "length out = unat (n_output c)"
      "\<forall>b \<in> set out. is_bit b"
    and lab: "eval_circuit_labels c aes gr (input_labels gr bits) = Inr
      (map (\<lambda>(o_i, b). label_for_bit (wire0 gr ! unat o_i) (delta gr) b) (zip (output_wires c) out))"
      (is "_ = Inr ?labels")
    and dec: "out_decode gr = map (\<lambda>o_i. if lsb (wire0 gr ! unat o_i) then 1 else 0) (output_wires c)"
    and d: "lsb (delta gr)"
    using garbled_run [OF assms] by blast
  have n: "length (output_wires c) = length out"
    using assms(1) out(2) by (simp add: circuit_ok_def)
  have "decode_outputs gr ?labels = Inr (map (\<lambda>i. out ! i) [0..<length ?labels])"
    unfolding decode_outputs_def
  proof (rule map_result_Inr)
    fix i assume "i \<in> set [0..<length ?labels]"
    then have i: "i < length out" using n by simp
    then have "is_bit (out ! i)" using out(3) by simp
    then show "(let p = if lsb (?labels ! i) then 1 else 0
        in bind_result (vec_read (out_decode gr) i) (\<lambda>o_i. Inr (p XOR o_i))) = Inr (out ! i)"
      using i n d by (auto simp: dec is_bit_def label_for_bit_def)
  qed
  then have "decode_outputs gr ?labels = Inr out" using n by (simp add: map_upt_nth_eq)
  then show ?thesis using lab out(1,2) by blast
qed

lemma xor_and_inv_simps [simp]:
  "n_inputs xor_and_inv_circuit = 2" "and_count (gates xor_and_inv_circuit) = 1"
  by (simp_all add: xor_and_inv_circuit_def n_inputs_def)

text \<open>
  C4.  Garbled evaluation is correct.  For every well-formed circuit, randomness and pair of
  inputs the garbler succeeds, the evaluator succeeds on the active labels, and decoding its
  output labels gives exactly the bits of the plain evaluation.
\<close>

theorem garbled_evaluation_correct:
  assumes "circuit_ok c" "length bits = n_inputs c" "\<forall>b \<in> set bits. is_bit b"
  shows "\<exists>gr g' labels out.
    garble_circuit sha c mmo_key aes g = Inr (gr, g') \<and>
    eval_circuit_labels c aes gr (input_labels gr bits) = Inr labels \<and>
    decode_outputs gr labels = Inr out \<and>
    eval_circuit_plain c bits = Inr out"
proof -
  obtain gr g' where "garble_circuit sha c mmo_key aes g = Inr (gr, g')"
    using garble_circuit_total [OF assms(1)] by blast
  with garbled_decode [OF assms this] show ?thesis by blast
qed

lemma garbled_evaluation_correct_witness:
  "\<exists>gr g' labels out.
    garble_circuit (\<lambda>x. x) xor_and_inv_circuit zero_block (FixedKeyAES_init zero_block)
      (counting_rng 0) = Inr (gr, g') \<and>
    eval_circuit_labels xor_and_inv_circuit (FixedKeyAES_init zero_block) gr
      (input_labels gr [1, 1]) = Inr labels \<and>
    decode_outputs gr labels = Inr out \<and>
    eval_circuit_plain xor_and_inv_circuit [1, 1] = Inr out"
  by (rule garbled_evaluation_correct) (simp_all add: xor_and_inv_ok)

text \<open>
  One table and one proof witness per AND gate.  The garbler emits exactly as many 32-byte
  tables as the circuit has AND gates, in circuit order, each equal to the ciphertext pair of the
  witness kept for the prover, and \<^verbatim>\<open>gc_hash\<close> is the hash of their concatenation.
\<close>

theorem garble_circuit_tables:
  assumes "circuit_ok c" "garble_circuit sha c mmo_key aes g = Inr (gr, g')"
  shows "tables_bytes gr = 32 * length (filter (\<lambda>x. gate_type x = AND_gate) (gates c)) \<and>
    tables gr = map (\<lambda>x. \<lparr>T0 = hw_Tg x, T1 = hw_Te x\<rparr>) (and_wit gr) \<and>
    gc_hash gr = sha (tables_to_bytes (tables gr)) \<and> aes_key gr = mmo_key"
proof -
  obtain gr0 gr1 k where "garbled_from sha c aes gr gr0 gr1 k" "aes_key gr = mmo_key"
    using garble_circuit_from [OF assms] by blast
  moreover from this(1) have "length (tables gr) = and_count (gates c)"
    unfolding garbled_from_def by blast
  ultimately show ?thesis unfolding garbled_from_def tables_bytes_def by simp
qed

lemma xor_and_inv_garbles:
  "\<exists>gr g'. garble_circuit (\<lambda>x. x) xor_and_inv_circuit zero_block (FixedKeyAES_init zero_block)
      (counting_rng 0) = Inr (gr, g')"
  by (rule garble_circuit_total [OF xor_and_inv_ok])

lemma garble_circuit_tables_witness:
  "\<exists>gr g'. garble_circuit (\<lambda>x. x) xor_and_inv_circuit zero_block (FixedKeyAES_init zero_block)
      (counting_rng 0) = Inr (gr, g') \<and> tables_bytes gr = 32"
  using xor_and_inv_garbles garble_circuit_tables [OF xor_and_inv_ok]
  by fastforce

text \<open>
  The input labels do not hide the inputs.  The garbler clears the point-and-permute bit of
  the zero label of every input wire, so the lowest bit of an active input label is the input bit
  itself, for the garbler's (the server's) key wires as for the evaluator's.
\<close>

theorem input_label_reveals_bit:
  assumes "circuit_ok c" "garble_circuit sha c mmo_key aes g = Inr (gr, g')" "i < n_inputs c"
  shows "lsb (label_for_bit (wire0 gr ! i) (delta gr) v) \<longleftrightarrow> v \<noteq> 0"
proof -
  obtain gr0 gr1 k where tr: "garbled_from sha c aes gr gr0 gr1 k"
    using garble_circuit_from [OF assms(1,2)] by blast
  have "i < unat (n_wires c)" using assms(1,3) by (simp add: circuit_ok_def)
  moreover have "wire0 gr ! i = wire0 gr0 ! i"
    using tr assms(3) unfolding garbled_from_def by (metis nth_take)
  ultimately have "\<not> lsb (wire0 gr ! i)" "lsb (delta gr)"
    using tr unfolding garbled_from_def by simp_all
  then show ?thesis by (simp add: label_for_bit_def)
qed

lemma input_label_reveals_bit_witness:
  "\<exists>gr g'. garble_circuit (\<lambda>x. x) xor_and_inv_circuit zero_block (FixedKeyAES_init zero_block)
      (counting_rng 0) = Inr (gr, g') \<and>
    lsb (label_for_bit (wire0 gr ! 0) (delta gr) 1) \<and>
    \<not> lsb (label_for_bit (wire0 gr ! 1) (delta gr) 0)"
  using xor_and_inv_garbles input_label_reveals_bit [OF xor_and_inv_ok]
  by fastforce

end
