(* ===== verification/Ser.thy ===== *)
theory Ser
  imports Garble_Correct
begin

text \<open>
  The message formats of \<^verbatim>\<open>voprf_ser.hpp\<close>: little-endian counts and 16-byte blocks appended to
  a byte vector, the table message of one circuit with its reader, and the witness and public
  binding handed to the prover.  A reader moves an offset through the received bytes; a read
  beyond their end, which the code does not check, is an \<open>undefined_access\<close>.
\<close>

section \<open>Writers and readers\<close>

definition push_u64 :: "u8 list \<Rightarrow> u64 \<Rightarrow> u8 list" where
  "push_u64 bs x = bs @ map (\<lambda>i. ucast (drop_bit (8 * i) x AND 0xff)) [0..<8]"

definition push_bytes :: "u8 list \<Rightarrow> u8 list \<Rightarrow> u8 list" where
  "push_bytes bs p = bs @ p"

definition push_block :: "u8 list \<Rightarrow> block \<Rightarrow> u8 list" where
  "push_block bs b = push_bytes bs b"

definition push_arr32 :: "u8 list \<Rightarrow> u8 list \<Rightarrow> u8 list" where
  "push_arr32 bs a = push_bytes bs a"

type_synonym 'a reader = "u8 list \<Rightarrow> nat \<Rightarrow> ('a \<times> nat) result"

text \<open>One read after another: the offset, passed by reference in the code, runs through.\<close>

definition read_bind :: "'a reader \<Rightarrow> ('a \<Rightarrow> 'b reader) \<Rightarrow> 'b reader" where
  "read_bind rd k inp off = bind_result (rd inp off) (\<lambda>(x, off). k x inp off)"

definition read_return :: "'a \<Rightarrow> 'a reader" where
  "read_return x inp off = Inr (x, off)"

definition take_u64 :: "u64 reader" where
  "take_u64 inp off =
    bind_result (map_result (\<lambda>i. vec_read inp (off + i)) [0..<8]) (\<lambda>bs.
    Inr (foldl (\<lambda>x i. x OR push_bit (8 * i) (ucast (bs ! i))) 0 [0..<8], off + 8))"

text \<open>\<^verbatim>\<open>memcpy(dst, in.data() + off, n)\<close> and the advance of \<^verbatim>\<open>off\<close>.\<close>

definition take_bytes :: "nat \<Rightarrow> u8 list reader" where
  "take_bytes n inp off =
    (if off + n \<le> length inp then Inr (take n (drop off inp), off + n) else Inl undefined_access)"

definition take_block :: "block reader" where
  "take_block inp off = take_bytes 16 inp off"

definition take_table :: "AndGateTable reader" where
  "take_table =
    read_bind take_block (\<lambda>t0. read_bind take_block (\<lambda>t1. read_return \<lparr>T0 = t0, T1 = t1\<rparr>))"

text \<open>The loop \<^verbatim>\<open>for (u64 i = 0; i < n; ++i) v[i] = take(in, off);\<close>\<close>

primrec take_many :: "'a reader \<Rightarrow> nat \<Rightarrow> 'a list reader" where
  "take_many rd 0 = read_return []"
| "take_many rd (Suc n) =
     read_bind rd (\<lambda>x. read_bind (take_many rd n) (\<lambda>xs. read_return (x # xs)))"

section \<open>The table message\<close>

definition serialize_tables :: "GarbleResult \<Rightarrow> u8 list result" where
  "serialize_tables gr =
    (let bs = push_block [] (aes_key gr);
         bs = push_block bs (delta gr);
         bs = push_u64 bs (word_of_nat (length (tables gr)));
         bs = foldl (\<lambda>bs t. push_block (push_block bs (T0 t)) (T1 t)) bs (tables gr);
         bs = push_u64 bs 128
     in bind_result (fold_result (\<lambda>bs i. bind_result (vec_read (wire0 gr) i) (\<lambda>b. Inr (push_block bs b)))
          bs [0..<128]) (\<lambda>bs.
        let bs = push_u64 bs (word_of_nat (length (out_decode gr)));
            bs = push_bytes bs (out_decode gr);
            bs = push_arr32 bs (gc_hash gr)
        in Inr (push_arr32 bs (R_root gr))))"

record TablesMsg =
  msg_aes_key :: block
  msg_delta :: block
  msg_tables :: "AndGateTable list"
  msg_key_wire0 :: "block list"
  msg_out_decode :: "u8 list"
  msg_gc_hash :: "u8 list"
  msg_R_root :: "u8 list"

definition read_tables :: "TablesMsg reader" where
  "read_tables =
    read_bind take_block (\<lambda>key.
    read_bind take_block (\<lambda>d.
    read_bind take_u64 (\<lambda>n.
    read_bind (take_many take_table (unat n)) (\<lambda>ts.
    read_bind take_u64 (\<lambda>nk.
    read_bind (take_many take_block (unat nk)) (\<lambda>ks.
    read_bind take_u64 (\<lambda>nd.
    read_bind (take_bytes (unat nd)) (\<lambda>od.
    read_bind (take_bytes 32) (\<lambda>gh.
    read_bind (take_bytes 32) (\<lambda>rr.
    read_return \<lparr>msg_aes_key = key, msg_delta = d, msg_tables = ts, msg_key_wire0 = ks,
      msg_out_decode = od, msg_gc_hash = gh, msg_R_root = rr\<rparr>))))))))))"

definition deserialize_tables :: "u8 list \<Rightarrow> TablesMsg result" where
  "deserialize_tables inp = bind_result (read_tables inp 0) (\<lambda>(m, off). Inr m)"

section \<open>The prover's messages\<close>

definition serialize_stark_witness ::
  "(u8 list \<Rightarrow> u8 list) \<Rightarrow> GarbleResult \<Rightarrow> u8 list \<Rightarrow> u8 list" where
  "serialize_stark_witness sha gr cm =
    (let bs = push_u64 [] (word_of_nat (length (and_wit gr)));
         bs = push_bytes bs cm;
         bs = push_arr32 bs (gc_hash gr);
         bs = push_arr32 bs (R_root gr);
         out_hash = sha (out_decode gr);
         bs = push_arr32 bs out_hash;
         bs = push_block bs (delta gr)
     in foldl (\<lambda>bs w.
          let bs = push_block bs (hw_a0 w);
              bs = push_block bs (hw_b0 w);
              bs = push_block bs (hw_Tg w);
              bs = push_block bs (hw_Te w);
              bs = push_block bs (hw_Ha0 w);
              bs = push_block bs (hw_Ha1 w);
              bs = push_block bs (hw_Hb0 w);
              bs = push_block bs (hw_Hb1 w)
          in (bs @ [hw_pa w]) @ [hw_pb w]) bs (and_wit gr))"

definition serialize_public_binding ::
  "(u8 list \<Rightarrow> u8 list) \<Rightarrow> GarbleResult \<Rightarrow> u8 list \<Rightarrow> u8 list" where
  "serialize_public_binding sha gr cm =
    (let bs = push_arr32 [] (gc_hash gr);
         bs = push_arr32 bs (R_root gr);
         out_hash = sha (out_decode gr);
         bs = push_arr32 bs out_hash
     in push_bytes bs cm)"

section \<open>The codec contract\<close>

text \<open>The string \<open>s\<close> stands in \<open>inp\<close> at offset \<open>off\<close>.\<close>

definition has_at :: "u8 list \<Rightarrow> nat \<Rightarrow> u8 list \<Rightarrow> bool" where
  "has_at inp off s \<longleftrightarrow> off + length s \<le> length inp \<and> take (length s) (drop off inp) = s"

lemma has_at_append [simp]:
  "has_at inp off (s @ t) \<longleftrightarrow> has_at inp off s \<and> has_at inp (off + length s) t"
  by (auto simp: has_at_def take_add ac_simps append_eq_append_conv)

lemma has_at_self [simp]: "has_at s 0 s"
  by (simp add: has_at_def)

lemma has_at_Nil [simp]: "has_at inp off [] \<longleftrightarrow> off \<le> length inp"
  by (auto simp: has_at_def)

lemma take_bytes_has_at: "has_at inp off s \<Longrightarrow> take_bytes (length s) inp off = Inr (s, off + length s)"
  by (simp add: has_at_def take_bytes_def)

text \<open>Bytes that follow do not change what is read, and a read ends inside the input.\<close>

definition extends :: "'a reader \<Rightarrow> bool" where
  "extends rd \<longleftrightarrow>
    (\<forall>inp off x off' extra. rd inp off = Inr (x, off') \<longrightarrow> rd (inp @ extra) off = Inr (x, off'))"

definition bounded :: "'a reader \<Rightarrow> bool" where
  "bounded rd \<longleftrightarrow> (\<forall>inp off x off'. rd inp off = Inr (x, off') \<longrightarrow> off' \<le> length inp)"

named_theorems reader_intros \<open>composition of readers\<close>

lemma extends_bind [reader_intros]:
  "extends rd \<Longrightarrow> (\<And>x. extends (k x)) \<Longrightarrow> extends (read_bind rd k)"
  by (auto simp: extends_def read_bind_def bind_result_Inr_iff)

lemma extends_return [reader_intros]: "extends (read_return x)"
  by (simp add: extends_def read_return_def)

lemma bounded_last [reader_intros]: "bounded rd \<Longrightarrow> bounded (read_bind rd (\<lambda>x. read_return (f x)))"
  by (auto simp: bounded_def read_bind_def read_return_def bind_result_Inr_iff)

lemma bounded_bind [reader_intros]: "(\<And>x. bounded (k x)) \<Longrightarrow> bounded (read_bind rd k)"
  by (auto simp: bounded_def read_bind_def bind_result_Inr_iff)

text \<open>
  The contract of a format: the reader returns what the writer wrote, wherever it stands, and
  reading is not changed by bytes that follow.
\<close>

locale codec =
  fixes ok :: "'a \<Rightarrow> bool" and enc :: "'a \<Rightarrow> u8 list" and rd :: "'a reader"
  assumes rd_enc: "ok x \<Longrightarrow> has_at inp off (enc x) \<Longrightarrow> rd inp off = Inr (x, off + length (enc x))"
    and rd_extend: "extends rd"
begin

lemma many_enc:
  "list_all ok xs \<Longrightarrow> has_at inp off (concat (map enc xs)) \<Longrightarrow>
    take_many rd (length xs) inp off = Inr (xs, off + length (concat (map enc xs)))"
  by (induction xs arbitrary: off) (auto simp: rd_enc read_bind_def read_return_def)

lemma many_extend: "extends (take_many rd n)"
  by (induction n) (auto intro: reader_intros rd_extend)

end

definition u64_bytes :: "u64 \<Rightarrow> u8 list" where
  "u64_bytes x = push_u64 [] x"

lemma length_u64_bytes [simp]: "length (u64_bytes x) = 8"
  by (simp add: u64_bytes_def push_u64_def)

lemma u64_bytes_nth: "i < 8 \<Longrightarrow> u64_bytes x ! i = ucast (drop_bit (8 * i) x)"
proof -
  assume i: "i < 8"
  have "(drop_bit (8 * i) x AND 0xff) = take_bit 8 (drop_bit (8 * i) x)"
    by (simp add: take_bit_eq_mask mask_eq_exp_minus_1)
  then show ?thesis using i
    by (auto simp: u64_bytes_def push_u64_def bit_eq_iff bit_take_bit_iff bit_ucast_iff bit_drop_bit_eq)
qed

lemma take_bit_eq_self_64: "take_bit 64 x = x" for x :: u64
  by (rule bit_word_eqI) (simp add: bit_take_bit_iff)

lemma u64_join:
  fixes x :: u64
  shows "foldl (\<lambda>y i. y OR push_bit (8 * i) (ucast (u64_bytes x ! i))) 0 [0..<8] = x"
proof -
  have "foldl (\<lambda>y i. y OR push_bit (8 * i) (ucast (u64_bytes x ! i))) 0 [0..<n] = take_bit (8 * n) x"
    if "n \<le> 8" for n
    using that
  proof (induction n)
    case (Suc n)
    then have "foldl (\<lambda>y i. y OR push_bit (8 * i) (ucast (u64_bytes x ! i))) 0 [0..<Suc n] =
        take_bit (8 * n) x OR push_bit (8 * n) (ucast (ucast (drop_bit (8 * n) x) :: u8))"
      by (simp add: u64_bytes_nth)
    also have "\<dots> = take_bit (8 * Suc n) x"
      by (rule bit_word_eqI)
        (auto simp: bit_or_iff bit_take_bit_iff bit_push_bit_iff bit_ucast_iff bit_drop_bit_eq)
    finally show ?case .
  qed simp
  from this [of 8] show ?thesis by (simp add: take_bit_eq_self_64)
qed

lemma take_u64_has_at: "has_at inp off (u64_bytes x) \<Longrightarrow> take_u64 inp off = Inr (x, off + 8)"
proof -
  assume at: "has_at inp off (u64_bytes x)"
  then have len: "off + 8 \<le> length inp" and eq: "take 8 (drop off inp) = u64_bytes x"
    by (simp_all add: has_at_def)
  have nth: "inp ! (off + i) = u64_bytes x ! i" if "i < 8" for i
    using that len by (simp flip: eq)
  have "map_result (\<lambda>i. vec_read inp (off + i)) [0..<8] = Inr (map (\<lambda>i. u64_bytes x ! i) [0..<8])"
    by (rule map_result_Inr) (use len nth in auto)
  then show ?thesis by (simp add: take_u64_def map_upt_nth_eq u64_join)
qed


lemma vec_read_extend: "vec_read xs i = Inr x \<Longrightarrow> vec_read (xs @ ys) i = Inr x"
  by (auto simp: vec_read_def nth_append split: if_splits)

lemma map_result_extend:
  "(\<And>x y. f x = Inr y \<Longrightarrow> g x = Inr y) \<Longrightarrow> map_result f xs = Inr ys \<Longrightarrow> map_result g xs = Inr ys"
  by (induction xs arbitrary: ys) (auto simp: bind_result_Inr_iff)

lemma take_u64_extend [reader_intros]: "extends take_u64"
  unfolding extends_def
proof (intro allI impI)
  fix inp off x off' extra
  assume "take_u64 inp off = Inr (x, off')"
  then obtain bs where bs: "map_result (\<lambda>i. vec_read inp (off + i)) [0..<8] = Inr bs"
    and res: "Inr (foldl (\<lambda>x i. x OR push_bit (8 * i) (ucast (bs ! i))) 0 [0..<8], off + 8) =
      (Inr (x, off') :: (u64 \<times> nat) result)"
    unfolding take_u64_def bind_result_Inr_iff by blast
  have "map_result (\<lambda>i. vec_read (inp @ extra) (off + i)) [0..<8] = Inr bs"
    by (rule map_result_extend [OF vec_read_extend bs])
  then show "take_u64 (inp @ extra) off = Inr (x, off')"
    using res by (simp add: take_u64_def del: upt.simps)
qed

lemma take_bytes_extend [reader_intros]: "extends (take_bytes n)"
  by (auto simp: extends_def take_bytes_def split: if_splits)

lemma take_bytes_bounded [reader_intros]: "bounded (take_bytes n)"
  by (auto simp: bounded_def take_bytes_def split: if_splits)

lemma take_block_bytes: "take_block = take_bytes 16"
  by (simp add: fun_eq_iff take_block_def)

interpretation u64_codec: codec "\<lambda>_. True" u64_bytes take_u64
  by unfold_locales (simp_all add: take_u64_has_at take_u64_extend)

interpretation block_codec: codec wf_block "\<lambda>b. b" take_block
proof
  show "take_block inp off = Inr (x, off + length x)" if "wf_block x" "has_at inp off x"
    for x inp off
    using take_bytes_has_at [OF that(2)] that(1) by (simp add: take_block_def wf_block_def)
qed (simp add: take_block_bytes take_bytes_extend)

definition wf_table :: "AndGateTable \<Rightarrow> bool" where
  "wf_table t \<longleftrightarrow> wf_block (T0 t) \<and> wf_block (T1 t)"

interpretation table_codec: codec wf_table "\<lambda>t. T0 t @ T1 t" take_table
proof
  show "take_table inp off = Inr (x, off + length (T0 x @ T1 x))"
    if "wf_table x" "has_at inp off (T0 x @ T1 x)" for x inp off
    using that block_codec.rd_enc [of "T0 x" inp off] block_codec.rd_enc [of "T1 x"]
    by (simp add: take_table_def wf_table_def read_bind_def read_return_def)
qed (auto simp: take_table_def intro: reader_intros block_codec.rd_extend)

lemma push_simps:
  "push_u64 bs x = bs @ u64_bytes x" "push_block bs b = bs @ b" "push_arr32 bs b = bs @ b"
  "push_bytes bs b = bs @ b"
  by (simp_all add: push_u64_def u64_bytes_def push_block_def push_bytes_def push_arr32_def)

section \<open>Round trip of the table message\<close>

definition tables_ok :: "GarbleResult \<Rightarrow> bool" where
  "tables_ok gr \<longleftrightarrow>
    wf_block (aes_key gr) \<and> wf_block (delta gr) \<and> list_all wf_table (tables gr) \<and>
    128 \<le> length (wire0 gr) \<and> list_all wf_block (wire0 gr) \<and>
    length (tables gr) < 2 ^ 64 \<and> length (out_decode gr) < 2 ^ 64 \<and>
    length (gc_hash gr) = 32 \<and> length (R_root gr) = 32"

definition tables_message :: "GarbleResult \<Rightarrow> u8 list" where
  "tables_message gr =
    aes_key gr @ delta gr @
    u64_bytes (word_of_nat (length (tables gr))) @ concat (map (\<lambda>t. T0 t @ T1 t) (tables gr)) @
    u64_bytes 128 @ concat (map (\<lambda>b. b) (take 128 (wire0 gr))) @
    u64_bytes (word_of_nat (length (out_decode gr))) @ out_decode gr @ gc_hash gr @ R_root gr"

lemma foldl_push_table:
  "foldl (\<lambda>bs t. bs @ T0 t @ T1 t) bs ts =
    bs @ concat (map (\<lambda>t. T0 t @ T1 t) ts)"
  by (induction ts arbitrary: bs) (simp_all add: push_simps)

lemma fold_push_wires:
  "n \<le> length w \<Longrightarrow>
    fold_result (\<lambda>bs i. bind_result (vec_read w i) (\<lambda>b. Inr (bs @ b))) bs [0..<n] =
    Inr (bs @ concat (take n w))"
proof (induction n)
  case (Suc n)
  then show ?case by (simp add: fold_result_append push_simps take_Suc_conv_app_nth)
qed simp

lemma serialize_tables_eq:
  "128 \<le> length (wire0 gr) \<Longrightarrow> serialize_tables gr = Inr (tables_message gr)"
  by (simp add: serialize_tables_def foldl_push_table fold_push_wires push_simps tables_message_def
      del: upt.simps)

lemma unat_128: "unat (128 :: u64) = 128"
  by simp

definition message_of :: "GarbleResult \<Rightarrow> TablesMsg" where
  "message_of gr =
    \<lparr>msg_aes_key = aes_key gr, msg_delta = delta gr, msg_tables = tables gr,
     msg_key_wire0 = take 128 (wire0 gr), msg_out_decode = out_decode gr,
     msg_gc_hash = gc_hash gr, msg_R_root = R_root gr\<rparr>"

lemma read_message:
  assumes "tables_ok gr"
  shows "read_tables (tables_message gr) 0 = Inr (message_of gr, length (tables_message gr))"
proof -
  define inp where "inp = tables_message gr"
  have ok: "wf_block (aes_key gr)" "wf_block (delta gr)" "list_all wf_table (tables gr)"
      "list_all wf_block (take 128 (wire0 gr))" "length (take 128 (wire0 gr)) = 128"
      "length (tables gr) < 2 ^ 64" "length (out_decode gr) < 2 ^ 64"
      "length (gc_hash gr) = 32" "length (R_root gr) = 32"
    using assms by (auto simp: tables_ok_def list_all_iff dest: in_set_takeD)
  let ?n = "length (tables gr)" and ?m = "length (out_decode gr)"
  let ?ts = "concat (map (\<lambda>t. T0 t @ T1 t) (tables gr))"
  let ?ks = "concat (map (\<lambda>b. b) (take 128 (wire0 gr)))"
  let ?t = "40 + length ?ts"
  let ?k = "?t + 8 + length ?ks"
  have "has_at inp 0 (tables_message gr)" by (simp add: inp_def)
  then have at: "has_at inp 0 (aes_key gr)" "has_at inp 16 (delta gr)"
      "has_at inp 32 (u64_bytes (word_of_nat ?n))" "has_at inp 40 ?ts"
      "has_at inp ?t (u64_bytes 128)" "has_at inp (?t + 8) ?ks"
      "has_at inp ?k (u64_bytes (word_of_nat ?m))" "has_at inp (?k + 8) (out_decode gr)"
      "has_at inp (?k + 8 + ?m) (gc_hash gr)" "has_at inp (?k + 40 + ?m) (R_root gr)"
    using ok(1,2,8) unfolding tables_message_def wf_block_def by (simp_all add: ac_simps)
  have len: "length inp = ?k + 72 + ?m"
    using ok(1,2,8,9) by (simp add: inp_def tables_message_def wf_block_def)
  have steps: "take_block inp 0 = Inr (aes_key gr, 16)" "take_block inp 16 = Inr (delta gr, 32)"
      "take_u64 inp 32 = Inr (word_of_nat ?n, 40)"
      "take_many take_table ?n inp 40 = Inr (tables gr, ?t)"
      "take_u64 inp ?t = Inr (128, ?t + 8)"
      "take_many take_block 128 inp (?t + 8) = Inr (take 128 (wire0 gr), ?k)"
      "take_u64 inp ?k = Inr (word_of_nat ?m, ?k + 8)"
      "take_bytes ?m inp (?k + 8) = Inr (out_decode gr, ?k + 8 + ?m)"
      "take_bytes 32 inp (?k + 8 + ?m) = Inr (gc_hash gr, ?k + 40 + ?m)"
      "take_bytes 32 inp (?k + 40 + ?m) = Inr (R_root gr, ?k + 72 + ?m)"
    using block_codec.rd_enc [OF ok(1) at(1)] block_codec.rd_enc [OF ok(2) at(2)]
      u64_codec.rd_enc [OF TrueI at(3)] table_codec.many_enc [OF ok(3) at(4)]
      u64_codec.rd_enc [OF TrueI at(5)] block_codec.many_enc [OF ok(4) at(6)]
      u64_codec.rd_enc [OF TrueI at(7)] take_bytes_has_at [OF at(8)] take_bytes_has_at [OF at(9)]
      take_bytes_has_at [OF at(10)] ok(1,2,5,8,9)
    by (simp_all only: wf_block_def length_u64_bytes) (simp_all add: ac_simps)
  show ?thesis
    by (simp only: read_tables_def read_bind_def read_return_def
        inp_def [symmetric] len steps bind_result.simps prod.case unat_u64_of_nat [OF ok(6)]
        unat_u64_of_nat [OF ok(7)] unat_128 message_of_def)
qed

lemma deserialize_message:
  "tables_ok gr \<Longrightarrow> deserialize_tables (tables_message gr) = Inr (message_of gr)"
  by (simp add: deserialize_tables_def read_message)

text \<open>
  C25.  Round trip of the table message.  What the garbler serialises for one circuit the client
  reads back: the fixed key, the offset, all tables, the 128 key-wire zero labels, the decoding
  bits, the table hash and the Merkle root.
\<close>

theorem tables_message_roundtrip:
  assumes "tables_ok gr" "serialize_tables gr = Inr bs"
  shows "deserialize_tables bs = Inr
    \<lparr>msg_aes_key = aes_key gr, msg_delta = delta gr, msg_tables = tables gr,
     msg_key_wire0 = take 128 (wire0 gr), msg_out_decode = out_decode gr,
     msg_gc_hash = gc_hash gr, msg_R_root = R_root gr\<rparr>"
  using deserialize_message [OF assms(1)] serialize_tables_eq [of gr] assms
  by (simp add: tables_ok_def message_of_def)


text \<open>A garbling result without AND gates, for the examples.\<close>

definition empty_result :: GarbleResult where
  "empty_result = \<lparr>tables = [], and_wit = [], wire0 = replicate 128 zero_block,
    delta = replicate 16 1, aes_key = zero_block, out_decode = [0, 1],
    gc_hash = replicate 32 7, R_root = replicate 32 9\<rparr>"

lemma tables_ok_empty [simp]: "tables_ok empty_result"
  by (simp add: tables_ok_def empty_result_def wf_block_def zero_block_def list_all_iff)

lemma tables_message_roundtrip_witness:
  "deserialize_tables (tables_message empty_result) = Inr
    \<lparr>msg_aes_key = zero_block, msg_delta = replicate 16 1, msg_tables = [],
     msg_key_wire0 = replicate 128 zero_block, msg_out_decode = [0, 1],
     msg_gc_hash = replicate 32 7, msg_R_root = replicate 32 9\<rparr>"
proof -
  have "128 \<le> length (wire0 empty_result)" by (simp add: empty_result_def)
  from tables_message_roundtrip [OF tables_ok_empty serialize_tables_eq [OF this]]
  show ?thesis by (simp add: empty_result_def)
qed

section \<open>Truncated messages\<close>

lemma read_tables_extend: "extends read_tables"
  unfolding read_tables_def
  by (intro reader_intros block_codec.rd_extend u64_codec.rd_extend table_codec.many_extend
      block_codec.many_extend)

lemma read_tables_bounded: "bounded read_tables"
  unfolding read_tables_def by (intro bounded_bind bounded_last take_bytes_bounded)

text \<open>
  A truncated table message is read out of bounds.  The reader never compares an offset with
  the size of the message: whatever proper prefix of a table message arrives, it ends in an access
  outside the buffer, and bytes after the message are ignored.
\<close>

theorem truncated_message_undefined:
  assumes "tables_ok gr" "n < length (tables_message gr)"
  shows "(\<exists>e. deserialize_tables (take n (tables_message gr)) = Inl e) \<and>
    deserialize_tables (tables_message gr @ extra) = Inr (message_of gr)"
proof
  let ?msg = "tables_message gr"
  show "deserialize_tables (?msg @ extra) = Inr (message_of gr)"
    using read_tables_extend read_message [OF assms(1)]
    by (simp add: extends_def deserialize_tables_def)
  show "\<exists>e. deserialize_tables (take n ?msg) = Inl e"
  proof (cases "read_tables (take n ?msg) 0")
    case (Inr r)
    obtain m off where r: "r = (m, off)" by fastforce
    then have "off \<le> n" using Inr read_tables_bounded by (fastforce simp: bounded_def)
    moreover have "read_tables (take n ?msg @ drop n ?msg) 0 = Inr (m, off)"
      using Inr r read_tables_extend unfolding extends_def by blast
    ultimately show ?thesis using read_message [OF assms(1)] assms(2) by simp
  qed (simp add: deserialize_tables_def)
qed

lemma truncated_message_undefined_witness:
  "\<exists>e. deserialize_tables (take 100 (tables_message empty_result)) = Inl e"
proof -
  have "100 < length (tables_message empty_result)"
    by (simp add: tables_message_def empty_result_def wf_block_def zero_block_def)
  then show ?thesis using truncated_message_undefined [OF tables_ok_empty] by blast
qed

section \<open>What the table message reveals\<close>

text \<open>
  The table message reveals the server's key.  It carries the 128 key-wire zero labels and
  the protocol sends the active key labels beside it: a key bit is one exactly when the label
  differs from the zero label of its wire.
\<close>

theorem tables_message_reveals_key:
  assumes "tables_ok gr" "lsb (delta gr)" "serialize_tables gr = Inr bs"
    and "deserialize_tables bs = Inr msg" "i < 128"
  shows "label_for_bit (wire0 gr ! i) (delta gr) v \<noteq> msg_key_wire0 msg ! i \<longleftrightarrow> v \<noteq> 0"
proof -
  have "msg = message_of gr"
    using deserialize_message [OF assms(1)] serialize_tables_eq [of gr] assms
    by (simp add: tables_ok_def)
  then have "msg_key_wire0 msg ! i = wire0 gr ! i" using assms(5) by (simp add: message_of_def)
  moreover have "xor_block (wire0 gr ! i) (delta gr) \<noteq> wire0 gr ! i"
    using assms(2) by (metis lsb_xor_block)
  ultimately show ?thesis by (auto simp: label_for_bit_def)
qed

lemma tables_message_reveals_key_witness:
  "\<exists>bs msg. serialize_tables empty_result = Inr bs \<and> deserialize_tables bs = Inr msg \<and>
    label_for_bit (wire0 empty_result ! 5) (delta empty_result) 1 \<noteq> msg_key_wire0 msg ! 5"
proof -
  have "128 \<le> length (wire0 empty_result)" "lsb (delta empty_result)"
    by (simp_all add: empty_result_def lsb_def)
  then show ?thesis
    using tables_message_reveals_key [OF tables_ok_empty _ serialize_tables_eq
        deserialize_message [OF tables_ok_empty], of 5 1]
      serialize_tables_eq deserialize_message [OF tables_ok_empty]
    by auto
qed

section \<open>Layout of the prover's messages\<close>

definition witness_record :: "HalfGateWitness \<Rightarrow> u8 list" where
  "witness_record w =
    hw_a0 w @ hw_b0 w @ hw_Tg w @ hw_Te w @ hw_Ha0 w @ hw_Ha1 w @ hw_Hb0 w @ hw_Hb1 w @
    [hw_pa w, hw_pb w]"

definition wf_witness :: "HalfGateWitness \<Rightarrow> bool" where
  "wf_witness w \<longleftrightarrow> list_all wf_block
    [hw_a0 w, hw_b0 w, hw_Tg w, hw_Te w, hw_Ha0 w, hw_Ha1 w, hw_Hb0 w, hw_Hb1 w]"

lemma length_witness_record: "wf_witness w \<Longrightarrow> length (witness_record w) = 130"
  by (simp add: wf_witness_def witness_record_def wf_block_def)

lemma serialize_stark_witness_eq:
  "serialize_stark_witness sha gr cm =
    u64_bytes (word_of_nat (length (and_wit gr))) @ cm @ gc_hash gr @ R_root gr @
    sha (out_decode gr) @ delta gr @ concat (map witness_record (and_wit gr))"
proof -
  have "foldl (\<lambda>bs w. (bs @ hw_a0 w @ hw_b0 w @ hw_Tg w @ hw_Te w @ hw_Ha0 w @ hw_Ha1 w @ hw_Hb0 w @
      hw_Hb1 w @ [hw_pa w]) @ [hw_pb w]) bs ws = bs @ concat (map witness_record ws)" for bs ws
    by (induction ws arbitrary: bs) (simp_all add: witness_record_def)
  then show ?thesis by (simp add: serialize_stark_witness_def push_simps)
qed

lemma concat_slot:
  "list_all (\<lambda>x. length x = n) xs \<Longrightarrow> i < length xs \<Longrightarrow> take n (drop (n * i) (concat xs)) = xs ! i"
proof (induction xs arbitrary: i)
  case (Cons x xs)
  then show ?case by (cases i) auto
qed simp

text \<open>
  The prover sees the public binding.  The witness handed to the prover carries, after the
  gate count and the key commitment, the same table hash, Merkle root and decoding hash that the
  public binding publishes, and the half-gate witness of AND gate \<open>i\<close> as its 130-byte record
  number \<open>i\<close>.
\<close>

theorem stark_witness_layout:
  assumes "length (gc_hash gr) = 32" "length (R_root gr) = 32" "\<forall>x. length (sha x) = 32"
    and "wf_block (delta gr)" "list_all wf_witness (and_wit gr)"
  shows "(let wit = serialize_stark_witness sha gr cm
    in length wit = 120 + length cm + 130 * length (and_wit gr) \<and>
       take 96 (drop (8 + length cm) wit) @ cm = serialize_public_binding sha gr cm \<and>
       (\<forall>i < length (and_wit gr).
          take 130 (drop (120 + length cm + 130 * i) wit) = witness_record (and_wit gr ! i)))"
proof -
  let ?recs = "concat (map witness_record (and_wit gr))"
  have all: "list_all (\<lambda>x. length x = 130) (map witness_record (and_wit gr))"
    using assms(5) by (auto simp: list_all_iff length_witness_record)
  then have len: "length ?recs = 130 * length (and_wit gr)"
    by (induction "and_wit gr" arbitrary: gr) (auto simp: length_concat list_all_iff sum_list_triv comp_def cong: map_cong)
  have dropped: "drop (120 + length cm + 130 * i) (serialize_stark_witness sha gr cm) =
      drop (130 * i) ?recs" for i
    using assms(1-4) by (simp add: serialize_stark_witness_eq wf_block_def)
  show ?thesis
    using assms(1-4) len concat_slot [OF all]
    by (simp add: Let_def dropped)
      (simp add: serialize_stark_witness_eq serialize_public_binding_def push_simps wf_block_def)
qed

lemma stark_witness_layout_witness:
  "length (serialize_stark_witness (\<lambda>_. replicate 32 3) empty_result [5, 6]) = 122"
proof -
  have "length (gc_hash empty_result) = 32" "length (R_root empty_result) = 32"
    "wf_block (delta empty_result)" "list_all wf_witness (and_wit empty_result)"
    by (simp_all add: empty_result_def wf_block_def)
  from stark_witness_layout [OF this(1,2) _ this(3,4), of "\<lambda>_. replicate 32 3" "[5, 6]"]
  show ?thesis by (simp add: Let_def empty_result_def)
qed

end
