(* ===== verification/Channel.thy ===== *)
theory Channel
  imports Ser
begin

text \<open>
  The message layer of \<^verbatim>\<open>voprf_e2e.cpp\<close>: \<^verbatim>\<open>send_u64\<close>/\<^verbatim>\<open>recv_u64\<close> and \<^verbatim>\<open>send_blob\<close>/\<^verbatim>\<open>recv_blob\<close> over
  a coproto socket.  A direction of the socket is the queue of the packets sent and not yet
  received; a packet is the block array of one \<^verbatim>\<open>send\<close> or a single byte.  A receive of another size
  than was sent is coproto's error, a receive from an empty queue its end-of-stream error.
\<close>

datatype packet = Blocks "block list" | Byte u8

definition bad_receive :: cxx_error where
  "bad_receive = runtime_error ''receive''"

fun recv_blocks :: "nat \<Rightarrow> packet list \<Rightarrow> (block list \<times> packet list) result" where
  "recv_blocks n (Blocks bs # ch) =
     (if length bs = n then Inr (bs, ch) else Inl bad_receive)"
| "recv_blocks n _ = Inl bad_receive"

fun recv_byte :: "packet list \<Rightarrow> (u8 \<times> packet list) result" where
  "recv_byte (Byte b # ch) = Inr (b, ch)"
| "recv_byte _ = Inl bad_receive"

definition send_u64 :: "u64 \<Rightarrow> packet list" where
  "send_u64 x = [Blocks [u64_bytes x @ replicate 8 0]]"

definition recv_u64 :: "packet list \<Rightarrow> (u64 \<times> packet list) result" where
  "recv_u64 ch =
    bind_result (recv_blocks 1 ch) (\<lambda>(bs, ch).
    bind_result (take_u64 (bs ! 0) 0) (\<lambda>(x, off). Inr (x, ch)))"

text \<open>The zeroed block array that \<^verbatim>\<open>memcpy\<close> fills with the data, and its inverse.\<close>

fun to_blocks :: "nat \<Rightarrow> u8 list \<Rightarrow> block list" where
  "to_blocks 0 data = []"
| "to_blocks (Suc n) data =
     (take 16 data @ replicate (16 - length data) 0) # to_blocks n (drop 16 data)"

definition n_blocks :: "u64 \<Rightarrow> u64" where
  "n_blocks n = (n + 15) div 16"

definition send_blob :: "u8 list \<Rightarrow> packet list" where
  "send_blob data =
    (let n = word_of_nat (length data); nblk = n_blocks n
     in send_u64 n @ (if nblk \<noteq> 0 then [Blocks (to_blocks (unat nblk) data)] else []))"

text \<open>
  \<^verbatim>\<open>std::vector<u8> data(n)\<close> throws for \<open>n\<close> above the greatest object size; the number of blocks is
  computed in 64 bits.
\<close>

definition recv_blob :: "packet list \<Rightarrow> (u8 list \<times> packet list) result" where
  "recv_blob ch =
    bind_result (recv_u64 ch) (\<lambda>(n, ch).
      let nblk = n_blocks n
      in if 2 ^ 63 \<le> unat n then Inl (runtime_error ''cannot create std::vector'')
         else if nblk \<noteq> 0
         then bind_result (recv_blocks (unat nblk) ch) (\<lambda>(bs, ch).
                Inr (take (unat n) (concat bs), ch))
         else Inr ([], ch))"

section \<open>The transport contract\<close>

text \<open>What is sent is received, and the packets behind it stay in the queue.\<close>

locale transport =
  fixes ok :: "'a \<Rightarrow> bool" and send :: "'a \<Rightarrow> packet list"
    and recv :: "packet list \<Rightarrow> ('a \<times> packet list) result"
  assumes recv_send: "ok x \<Longrightarrow> recv (send x @ ch) = Inr (x, ch)"
begin

primrec recv_all :: "nat \<Rightarrow> packet list \<Rightarrow> ('a list \<times> packet list) result" where
  "recv_all 0 ch = Inr ([], ch)"
| "recv_all (Suc n) ch =
     bind_result (recv ch) (\<lambda>(x, ch). bind_result (recv_all n ch) (\<lambda>(xs, ch). Inr (x # xs, ch)))"

lemma recv_all_send:
  "list_all ok xs \<Longrightarrow> recv_all (length xs) (concat (map send xs) @ ch) = Inr (xs, ch)"
  by (induction xs) (auto simp: recv_send)

lemma send_inject: "ok x \<Longrightarrow> ok y \<Longrightarrow> send x @ ch = send y @ ch' \<Longrightarrow> x = y \<and> ch = ch'"
  by (metis Pair_inject recv_send sum.inject(2))

end

primrec recv_blobs :: "nat \<Rightarrow> packet list \<Rightarrow> (u8 list list \<times> packet list) result" where
  "recv_blobs 0 ch = Inr ([], ch)"
| "recv_blobs (Suc n) ch =
     bind_result (recv_blob ch) (\<lambda>(x, ch). bind_result (recv_blobs n ch) (\<lambda>(xs, ch). Inr (x # xs, ch)))"

lemma recv_send_u64: "recv_u64 (send_u64 x @ ch) = Inr (x, ch)"
proof -
  have "has_at (u64_bytes x @ replicate 8 0) 0 (u64_bytes x)" by (simp add: has_at_def)
  then show ?thesis by (simp add: recv_u64_def send_u64_def u64_codec.rd_enc)
qed

interpretation u64_transport: transport "\<lambda>_. True" send_u64 recv_u64
  by unfold_locales (rule recv_send_u64)

lemma concat_to_blocks:
  "length data \<le> 16 * n \<Longrightarrow>
    concat (to_blocks n data) = data @ replicate (16 * n - length data) 0"
proof (induction n arbitrary: data)
  case (Suc n)
  show ?case
  proof (cases "length data \<le> 16")
    case True
    then show ?thesis using Suc.IH [of "[]"] by (simp flip: replicate_add)
  next
    case False
    then have "16 * Suc n - length data = 16 * n - length (drop 16 data)" by simp
    moreover have "length (drop 16 data) \<le> 16 * n" using Suc.prems by simp
    ultimately show ?thesis using Suc.IH [of "drop 16 data"] False by simp
  qed
qed simp

lemma length_to_blocks [simp]: "length (to_blocks n data) = n"
  by (induction n arbitrary: data) auto

lemma n_blocks_length:
  assumes "n < 2 ^ 63"
  shows "unat (n_blocks (word_of_nat n)) = (n + 15) div 16"
proof -
  have "unat (word_of_nat n + 15 :: u64) = n + 15"
    using assms by (simp add: unat_word_ariths unat_of_nat)
  then show ?thesis by (simp add: n_blocks_def unat_div)
qed

lemma recv_send_blob:
  assumes "length data < 2 ^ 63"
  shows "recv_blob (send_blob data @ ch) = Inr (data, ch)"
proof -
  let ?n = "word_of_nat (length data) :: u64"
  have n: "unat ?n = length data" using assms by (simp add: unat_of_nat)
  have blk: "unat (n_blocks ?n) = (length data + 15) div 16" by (rule n_blocks_length [OF assms])
  show ?thesis
  proof (cases "n_blocks ?n = 0")
    case True
    then have "(length data + 15) div 16 = 0" using blk by simp
    then have "data = []" by (simp add: div_eq_0_iff)
    then show ?thesis using True u64_transport.recv_send [of 0 ch]
      by (simp add: send_blob_def recv_blob_def)
  next
    case False
    have "length data \<le> 16 * ((length data + 15) div 16)" by linarith
    then show ?thesis
      using False assms n
      by (simp add: send_blob_def recv_blob_def u64_transport.recv_send blk concat_to_blocks)
  qed
qed

interpretation blob_transport: transport "\<lambda>data. length data < 2 ^ 63" send_blob recv_blob
  by unfold_locales (rule recv_send_blob)

lemma recv_blobs_eq: "recv_blobs n ch = blob_transport.recv_all n ch"
  by (induction n arbitrary: ch) simp_all

lemma recv_blobs_send:
  "list_all (\<lambda>data. length data < 2 ^ 63) xs \<Longrightarrow>
    recv_blobs (length xs) (concat (map send_blob xs) @ ch) = Inr (xs, ch)"
  unfolding recv_blobs_eq by (rule blob_transport.recv_all_send)

text \<open>
  A blob of any length below \<open>2 ^ 63\<close> bytes arrives as it was sent, the padding of its last
  block removed, and the packets sent after it stay in the queue.
\<close>

theorem blob_roundtrip:
  assumes "length data < 2 ^ 63"
  shows "recv_blob (send_blob data @ ch) = Inr (data, ch)"
  using assms by (rule blob_transport.recv_send)

lemma blob_roundtrip_witness:
  "recv_blob (send_blob (replicate 17 5) @ [Byte 1]) = Inr (replicate 17 5, [Byte 1])"
  by (rule blob_roundtrip) simp

end
