(* ===== verification/E2E.thy ===== *)
theory E2E
  imports Channel Plain_OPRF Probe
begin

text \<open>
  The two parties of \<^verbatim>\<open>voprf_e2e.cpp\<close> (\<^verbatim>\<open>run_server\<close>, \<^verbatim>\<open>run_client\<close>) as functions of their
  configuration, their generator and the packets they receive.  Outside the repository's C++ code
  and therefore parameters: SHA-256 (\<open>sha\<close>), the STARK prover binary (\<open>prove\<close>: witness file to
  proof file, \<open>None\<close> a non-zero exit) and verifier (\<open>verify\<close>), and libOTe's random oblivious
  transfer, which gives the sender a pair of pads per transfer (\<open>pads\<close>) and the receiver the chosen
  one (\<open>otOut\<close>).  Timing, byte counters and the printed report are not modelled.
\<close>

record Config =
  cfg_m :: u64
  n_ot :: u64
  tables_online :: bool

section \<open>Server\<close>

record ServerState =
  oprf_key :: block
  srv_cm :: "u8 list"
  key_bits :: "u8 list"
  gcs :: "GarbleResult list"
  table_blobs :: "u8 list list"
  share_labs :: "ShareLabelPair list list"
  srv_proof :: "u8 list"

text \<open>The inner loop over \<open>j\<close>: share labels of the evaluator input wires.\<close>

fun share_wires ::
  "GarbleResult \<Rightarrow> u64 \<Rightarrow> nat list \<Rightarrow> mt19937_64 \<Rightarrow> (ShareLabelPair list \<times> mt19937_64) result" where
  "share_wires gr n0 [] g = Inr ([], g)"
| "share_wires gr n0 (j # js) g =
     bind_result (vec_read (wire0 gr) (unat (n0 + word_of_nat j))) (\<lambda>w.
       let (p, g) = make_share_labels w (delta gr) g
       in bind_result (share_wires gr n0 js g) (\<lambda>(ps, g). Inr (p # ps, g)))"

definition garble_one ::
  "(u8 list \<Rightarrow> u8 list) \<Rightarrow> Circuit \<Rightarrow> block \<Rightarrow> FixedKeyAES \<Rightarrow> mt19937_64 \<Rightarrow>
    ((GarbleResult \<times> u8 list \<times> ShareLabelPair list) \<times> mt19937_64) result" where
  "garble_one sha circ mmo_key mmo g =
    bind_result (garble_circuit sha circ mmo_key mmo g) (\<lambda>(gr, g).
    bind_result (serialize_tables gr) (\<lambda>blob.
    bind_result (share_wires gr (n_input0 circ) [0..<unat (n_input1 circ)] g) (\<lambda>(ps, g).
    Inr ((gr, blob, ps), g))))"

primrec garble_all ::
  "(u8 list \<Rightarrow> u8 list) \<Rightarrow> Circuit \<Rightarrow> block \<Rightarrow> FixedKeyAES \<Rightarrow> nat \<Rightarrow> mt19937_64 \<Rightarrow>
    ((GarbleResult \<times> u8 list \<times> ShareLabelPair list) list \<times> mt19937_64) result" where
  "garble_all sha circ mmo_key mmo 0 g = Inr ([], g)"
| "garble_all sha circ mmo_key mmo (Suc n) g =
     bind_result (garble_one sha circ mmo_key mmo g) (\<lambda>(x, g).
     bind_result (garble_all sha circ mmo_key mmo n g) (\<lambda>(xs, g). Inr (x # xs, g)))"

definition server_prepare ::
  "(u8 list \<Rightarrow> u8 list) \<Rightarrow> (u8 list \<Rightarrow> u8 list option) \<Rightarrow> Config \<Rightarrow> Circuit \<Rightarrow> mt19937_64 \<Rightarrow>
    ServerState result" where
  "server_prepare sha prove cfg circ g =
    (let (key, g) = random_block g;
         cm = key_commitment sha key 128;
         kbits = block_to_bits128 key;
         (mmo_key, g) = random_block g;
         mmo = FixedKeyAES_init mmo_key
     in bind_result (garble_all sha circ mmo_key mmo (unat (cfg_m cfg)) g) (\<lambda>(xs, g).
        bind_result (vec_read (map fst xs) 0) (\<lambda>gr0.
        case prove (serialize_stark_witness sha gr0 cm) of
          None \<Rightarrow> Inl (exit_failure ''STARK prove failed'')
        | Some proof \<Rightarrow>
            Inr \<lparr>oprf_key = key, srv_cm = cm, key_bits = kbits, gcs = map fst xs,
                 table_blobs = map (fst \<circ> snd) xs, share_labs = map (snd \<circ> snd) xs,
                 srv_proof = proof\<rparr>)))"

definition batch_meta :: "Config \<Rightarrow> ServerState \<Rightarrow> u8 list" where
  "batch_meta cfg st =
    foldl (\<lambda>bs gr. push_arr32 bs (gc_hash gr)) (push_u64 [] (cfg_m cfg)) (gcs st)"

definition send_tables :: "ServerState \<Rightarrow> packet list" where
  "send_tables st = concat (map send_blob (table_blobs st))"

definition server_offline :: "Config \<Rightarrow> ServerState \<Rightarrow> packet list" where
  "server_offline cfg st =
    send_blob (srv_cm st) @ send_blob (batch_meta cfg st) @
    (if \<not> tables_online cfg then send_tables st else [])"

text \<open>The chosen-message layer: transfer \<open>(i, j)\<close> masks the label pairs of the two share wires.\<close>

definition mask_pair ::
  "(block \<times> block) list \<Rightarrow> GarbleResult \<Rightarrow> ShareLabelPair \<Rightarrow> nat \<Rightarrow> nat \<Rightarrow> u8 list result" where
  "mask_pair pads gr sp i j =
    (let idx0 = i * 256 + 2 * j; idx1 = idx0 + 1
     in bind_result (vec_read pads idx0) (\<lambda>(r00, r01).
        bind_result (vec_read pads idx1) (\<lambda>(r10, r11).
          let c00 = xor_block r00 (s0_0 sp);
              c01 = xor_block r01 (xor_block (s0_0 sp) (delta gr));
              c10 = xor_block r10 (s1_0 sp);
              c11 = xor_block r11 (xor_block (s1_0 sp) (delta gr))
          in Inr (push_block (push_block (push_block (push_block [] c00) c01) c10) c11))))"

definition mask_labels :: "Config \<Rightarrow> ServerState \<Rightarrow> (block \<times> block) list \<Rightarrow> u8 list result" where
  "mask_labels cfg st pads =
    bind_result (map_result (\<lambda>i.
      bind_result (vec_read (share_labs st) i) (\<lambda>sps.
      bind_result (vec_read (gcs st) i) (\<lambda>gr.
      map_result (\<lambda>j. bind_result (vec_read sps j) (\<lambda>sp. mask_pair pads gr sp i j)) [0..<128])))
      [0..<unat (cfg_m cfg)]) (\<lambda>rows. Inr (concat (concat rows)))"

definition key_labels_of :: "ServerState \<Rightarrow> GarbleResult \<Rightarrow> u8 list result" where
  "key_labels_of st gr =
    bind_result (map_result (\<lambda>j. bind_result (vec_read (wire0 gr) j) (\<lambda>w.
        Inr (label_for_bit w (delta gr) (key_bits st ! j)))) [0..<128]) (\<lambda>labs. Inr (concat labs))"

definition server_online ::
  "Config \<Rightarrow> ServerState \<Rightarrow> (block \<times> block) list \<Rightarrow> packet list result" where
  "server_online cfg st pads =
    (if n_ot cfg \<noteq> cfg_m cfg * 256 then Inl (exit_failure ''n_ot must be m*256'')
     else
       bind_result (mask_labels cfg st pads) (\<lambda>masks.
       bind_result (map_result (key_labels_of st) (gcs st)) (\<lambda>kls.
       Inr (send_blob masks @ (if tables_online cfg then send_tables st else []) @
            concat (map send_blob kls) @ send_blob (srv_proof st) @ send_blob (oprf_key st)))))"

text \<open>
  The whole server: what it sends, in order, and the verdict it receives.  The packets of the
  client are the answer to the ping and the verdict.
\<close>

definition run_server ::
  "(u8 list \<Rightarrow> u8 list) \<Rightarrow> (u8 list \<Rightarrow> u8 list option) \<Rightarrow> Config \<Rightarrow> Circuit \<Rightarrow> mt19937_64 \<Rightarrow>
    (block \<times> block) list \<Rightarrow> packet list \<Rightarrow> (packet list \<times> u8) result" where
  "run_server sha prove cfg circ g pads ch =
    bind_result (server_prepare sha prove cfg circ g) (\<lambda>st.
    bind_result (recv_byte ch) (\<lambda>(ping, ch).
    bind_result (server_online cfg st pads) (\<lambda>online.
    bind_result (recv_byte ch) (\<lambda>(vok, ch).
    Inr (server_offline cfg st @ [Byte 1] @ online, vok)))))"

section \<open>Client\<close>

record ClientOffline =
  server_gc_hashes :: "u8 list list"
  off_tables :: "u8 list list"

definition client_offline ::
  "Config \<Rightarrow> packet list \<Rightarrow> (ClientOffline \<times> packet list) result" where
  "client_offline cfg ch =
    bind_result (recv_blob ch) (\<lambda>(cm, ch).
    bind_result (recv_blob ch) (\<lambda>(meta, ch).
    bind_result (take_u64 meta 0) (\<lambda>(m_meta, moff).
    if m_meta \<noteq> cfg_m cfg then Inl (exit_failure ''m mismatch'')
    else
      bind_result (take_many (take_bytes 32) (unat (cfg_m cfg)) meta moff) (\<lambda>(hs, moff).
      bind_result (if \<not> tables_online cfg then recv_blobs (unat (cfg_m cfg)) ch else Inr ([], ch))
        (\<lambda>(ts, ch).
      bind_result (recv_byte ch) (\<lambda>(ping, ch).
      Inr (\<lparr>server_gc_hashes = hs, off_tables = ts\<rparr>, ch)))))))"

text \<open>Sampling the inputs, iteration \<open>i\<close>: the input and the write of its 256 shares.\<close>

definition sample_input ::
  "(u8 list \<Rightarrow> u8 list) \<Rightarrow> (u8 list list \<times> u8 list \<times> mt19937_64) \<Rightarrow> nat \<Rightarrow>
    (u8 list list \<times> u8 list \<times> mt19937_64) result" where
  "sample_input sha st i =
    (let (xs, all_shares, g) = st;
         (x, g) = fill_bytes 16 g;
         (shares, g) = encode_shares (block_to_bits128 (H1 sha x)) g
     in if i * 256 + 256 \<le> length all_shares
        then Inr (xs @ [x], take (i * 256) all_shares @ take 256 shares @ drop (i * 256 + 256) all_shares, g)
        else Inl undefined_access)"

definition sample_inputs ::
  "(u8 list \<Rightarrow> u8 list) \<Rightarrow> Config \<Rightarrow> mt19937_64 \<Rightarrow> (u8 list list \<times> bool list) result" where
  "sample_inputs sha cfg g =
    bind_result (fold_result (sample_input sha) ([], replicate (unat (n_ot cfg)) 0, g)
      [0..<unat (cfg_m cfg)]) (\<lambda>(xs, all_shares, g).
    Inr (xs, map (\<lambda>s. s AND 1 \<noteq> 0) all_shares))"

definition unmask_labels ::
  "Config \<Rightarrow> bool list \<Rightarrow> block list \<Rightarrow> u8 list \<Rightarrow> block list result" where
  "unmask_labels cfg choices otOut masks =
    bind_result (take_many (read_bind take_block (\<lambda>c0. read_bind take_block (\<lambda>c1. read_return (c0, c1))))
      (unat (n_ot cfg)) masks 0) (\<lambda>(cs, off).
    map_result (\<lambda>i. bind_result (vec_read otOut i) (\<lambda>pad.
      Inr (xor_block pad (if choices ! i then snd (cs ! i) else fst (cs ! i))))) [0..<unat (n_ot cfg)])"

record ClientOnline =
  xs_in :: "u8 list list"
  share_labels :: "block list"
  on_tables :: "u8 list list"
  key_labels :: "block list list"
  cl_proof :: "u8 list"
  cl_key :: block

definition client_receive ::
  "(u8 list \<Rightarrow> u8 list) \<Rightarrow> Config \<Rightarrow> mt19937_64 \<Rightarrow> (bool list \<Rightarrow> block list) \<Rightarrow> u8 list list \<Rightarrow>
    packet list \<Rightarrow> (ClientOnline \<times> packet list) result" where
  "client_receive sha cfg g otOut ts ch =
    bind_result (sample_inputs sha cfg g) (\<lambda>(xs, choices).
    bind_result (recv_blob ch) (\<lambda>(masks, ch).
    bind_result (unmask_labels cfg choices (otOut choices) masks) (\<lambda>labs.
    bind_result (if tables_online cfg then recv_blobs (unat (cfg_m cfg)) ch else Inr (ts, ch)) (\<lambda>(ts, ch).
    bind_result (recv_blobs (unat (cfg_m cfg)) ch) (\<lambda>(kbs, ch).
    bind_result (map_result (\<lambda>kb. bind_result (take_many take_block 128 kb 0) (\<lambda>(ks, off). Inr ks)) kbs)
      (\<lambda>kls.
    bind_result (recv_blob ch) (\<lambda>(proof, ch).
    bind_result (recv_blob ch) (\<lambda>(key_blob, ch).
      let key = (if length key_blob = 16 then key_blob else zero_block)
      in Inr (\<lparr>xs_in = xs, share_labels = labs, on_tables = ts, key_labels = kls, cl_proof = proof,
               cl_key = key\<rparr>, ch)))))))))"

text \<open>
  The binding check: the table hash inside the proof is compared with the hash in the table
  message of circuit 0 and with the announced one.  Offsets are 64-bit values.
\<close>

definition bind_check :: "u8 list \<Rightarrow> u8 list list \<Rightarrow> u8 list list \<Rightarrow> bool result" where
  "bind_check proof ts hashes =
    (if 16 < length proof
     then bind_result (take_u64 proof 0) (\<lambda>(pub_len, _).
       let off = 8 + pub_len + 32
       in if off + 32 \<le> word_of_nat (length proof)
          then bind_result (take_bytes 32 proof (unat off)) (\<lambda>(proof_gc, _).
               bind_result (vec_read ts 0) (\<lambda>tb.
               bind_result (deserialize_tables tb) (\<lambda>t0.
               bind_result (vec_read hashes 0) (\<lambda>h0.
               Inr (proof_gc = msg_gc_hash t0 \<and> proof_gc = h0)))))
          else Inr False)
     else Inr False)"

definition gr_of_msg :: "TablesMsg \<Rightarrow> GarbleResult" where
  "gr_of_msg tm =
    \<lparr>tables = msg_tables tm, and_wit = [], wire0 = [], delta = msg_delta tm,
     aes_key = msg_aes_key tm, out_decode = msg_out_decode tm, gc_hash = msg_gc_hash tm,
     R_root = msg_R_root tm\<rparr>"

text \<open>The output of circuit \<open>i\<close> from its table message.\<close>

definition client_output :: "(u8 list \<Rightarrow> u8 list) \<Rightarrow> Circuit \<Rightarrow> ClientOnline \<Rightarrow> TablesMsg \<Rightarrow> nat \<Rightarrow> u8 list result" where
  "client_output sha circ cl tm i =
    bind_result (map_result (\<lambda>j.
      bind_result (vec_read (share_labels cl) (i * 256 + 2 * j)) (\<lambda>l0.
      bind_result (vec_read (share_labels cl) (i * 256 + 2 * j + 1)) (\<lambda>l1.
      Inr (reconstruct_label l0 l1)))) [0..<128]) (\<lambda>evs.
    bind_result (eval_circuit_labels circ (FixedKeyAES_init (msg_aes_key tm)) (gr_of_msg tm)
      (take 128 (key_labels cl ! i) @ evs)) (\<lambda>out_labs.
    bind_result (decode_outputs (gr_of_msg tm) out_labs) (\<lambda>out_bits.
    if length out_bits < 128 then Inl undefined_access
    else Inr (H2 sha (xs_in cl ! i) (bits128_to_block out_bits)))))"

record Verdict =
  v_ys :: "u8 list list"
  plaintext_ok :: bool
  plain_match :: nat
  stopped :: bool

text \<open>One iteration of the evaluation loop; \<open>stopped\<close> is the \<^verbatim>\<open>break\<close>.\<close>

definition eval_step ::
  "(u8 list \<Rightarrow> u8 list) \<Rightarrow> Circuit \<Rightarrow> u8 list list \<Rightarrow> ClientOnline \<Rightarrow> Verdict \<Rightarrow> nat \<Rightarrow> Verdict result" where
  "eval_step sha circ hashes cl v i =
    (if stopped v then Inr v
     else
       bind_result (vec_read (on_tables cl) i) (\<lambda>tb.
       bind_result (deserialize_tables tb) (\<lambda>tm.
       bind_result (vec_read hashes i) (\<lambda>h.
       if msg_gc_hash tm \<noteq> h then Inr (v\<lparr>plaintext_ok := False, stopped := True\<rparr>)
       else
         bind_result (client_output sha circ cl tm i) (\<lambda>y.
         let v = v\<lparr>v_ys := (v_ys v)[i := y]\<rparr>
         in if F_k sha (cl_key cl) (xs_in cl ! i) = y
            then Inr (v\<lparr>plain_match := plain_match v + 1\<rparr>)
            else Inr (v\<lparr>plaintext_ok := False\<rparr>))))))"

record ClientResult =
  ys :: "u8 list list"
  xs_sampled :: "u8 list list"
  stark_ok :: bool
  bind_ok :: bool
  vok :: bool

definition client_verify ::
  "(u8 list \<Rightarrow> u8 list) \<Rightarrow> (u8 list \<Rightarrow> bool) \<Rightarrow> Config \<Rightarrow> Circuit \<Rightarrow> u8 list list \<Rightarrow> ClientOnline \<Rightarrow>
    ClientResult result" where
  "client_verify sha verify cfg circ hashes cl =
    (let sok = verify (cl_proof cl);
         m = unat (cfg_m cfg);
         v0 = \<lparr>v_ys = replicate m (replicate 32 0), plaintext_ok = True, plain_match = 0,
               stopped = False\<rparr>
     in bind_result (if sok then bind_check (cl_proof cl) (on_tables cl) hashes else Inr False) (\<lambda>bok.
        bind_result (if sok \<and> bok then fold_result (eval_step sha circ hashes cl) v0 [0..<m] else Inr v0)
          (\<lambda>v.
        Inr \<lparr>ys = v_ys v, xs_sampled = xs_in cl, stark_ok = sok, bind_ok = bok,
             vok = (sok \<and> bok \<and> plaintext_ok v \<and>
                    int (plain_match v) = sint (ucast (cfg_m cfg) :: u32))\<rparr>)))"

definition run_client ::
  "(u8 list \<Rightarrow> u8 list) \<Rightarrow> (u8 list \<Rightarrow> bool) \<Rightarrow> Config \<Rightarrow> Circuit \<Rightarrow> mt19937_64 \<Rightarrow>
    (bool list \<Rightarrow> block list) \<Rightarrow> packet list \<Rightarrow> (ClientResult \<times> packet list) result" where
  "run_client sha verify cfg circ g otOut ch =
    bind_result (client_offline cfg ch) (\<lambda>(off, ch).
    bind_result (client_receive sha cfg g otOut (off_tables off) ch) (\<lambda>(cl, ch).
    bind_result (client_verify sha verify cfg circ (server_gc_hashes off) cl) (\<lambda>r.
    Inr (r, [Byte 1, Byte (if vok r then 1 else 0)]))))"

end
