(* ===== verification/E2E_Server.thy ===== *)
theory E2E_Server
  imports E2E
begin

text \<open>
  The server of \<^verbatim>\<open>voprf_e2e.cpp\<close> on a well-formed 128/128/128 circuit: garbling all copies
  succeeds, and what the client later receives (table blobs, share labels, masks, key labels) is
  expressed by the garbling results.
\<close>

section \<open>Lists cut into pieces of one length\<close>

lemma concat_nth:
  "list_all (\<lambda>x. length x = n) xss \<Longrightarrow> i < length xss \<Longrightarrow> k < n \<Longrightarrow> concat xss ! (i * n + k) = xss ! i ! k"
proof (induction xss arbitrary: i)
  case (Cons xs xss)
  then show ?case by (cases i) (auto simp: nth_append ac_simps)
qed simp

lemma length_concat_uniform:
  "list_all (\<lambda>x. length x = n) xss \<Longrightarrow> length (concat xss) = length xss * n"
  by (induction xss) auto

section \<open>Garbled copies\<close>

definition aes_shaped :: "Circuit \<Rightarrow> bool" where
  "aes_shaped circ \<longleftrightarrow>
    circuit_ok circ \<and> n_input0 circ = 128 \<and> n_input1 circ = 128 \<and> n_output circ = 128 \<and>
    length (gates circ) < 2 ^ 40"

lemma aes_shaped_simps:
  assumes "aes_shaped circ"
  shows "circuit_ok circ" "n_inputs circ = 256" "unat (n_input0 circ + n_input1 circ) = 256"
    "256 \<le> unat (n_wires circ)" "unat (n_output circ) = 128"
  using assms by (auto simp: aes_shaped_def n_inputs_def circuit_ok_def)

text \<open>What the server holds of one copy.\<close>

definition shares_ok :: "GarbleResult \<Rightarrow> ShareLabelPair list \<Rightarrow> bool" where
  "shares_ok gr ps \<longleftrightarrow> length ps = 128 \<and>
    (\<forall>j < 128. wf_block (s0_0 (ps ! j)) \<and> wf_block (s1_0 (ps ! j)) \<and>
       s1_0 (ps ! j) = xor_block (wire0 gr ! (128 + j)) (s0_0 (ps ! j)))"

definition copy_ok ::
  "(u8 list \<Rightarrow> u8 list) \<Rightarrow> Circuit \<Rightarrow> block \<Rightarrow> GarbleResult \<times> u8 list \<times> ShareLabelPair list \<Rightarrow> bool" where
  "copy_ok sha circ mmo_key = (\<lambda>(gr, blob, ps).
    (\<exists>g g'. garble_circuit sha circ mmo_key (FixedKeyAES_init mmo_key) g = Inr (gr, g')) \<and>
    tables_ok gr \<and> aes_key gr = mmo_key \<and> lsb (delta gr) \<and> 256 \<le> length (wire0 gr) \<and>
    length (tables gr) < 2 ^ 40 \<and> length (out_decode gr) = 128 \<and>
    blob = tables_message gr \<and> shares_ok gr ps)"

lemma share_wires_ok:
  assumes "\<forall>j \<in> set js. 128 + j < length (wire0 gr)" "\<forall>j \<in> set js. j < 2 ^ 32"
  shows "\<exists>ps g'. share_wires gr 128 js g = Inr (ps, g') \<and> length ps = length js \<and>
    (\<forall>i < length js. wf_block (s0_0 (ps ! i)) \<and> wf_block (s1_0 (ps ! i)) \<and>
       s1_0 (ps ! i) = xor_block (wire0 gr ! (128 + js ! i)) (s0_0 (ps ! i)))"
  using assms
proof (induction js arbitrary: g)
  case (Cons j js)
  let ?w = "wire0 gr ! (128 + j)"
  obtain p g1 where p: "make_share_labels ?w (delta gr) g = (p, g1)" by fastforce
  have "unat (128 + word_of_nat j :: u64) = 128 + j"
    using Cons.prems(2) by (simp add: unat_word_ariths unat_of_nat)
  then have rd: "vec_read (wire0 gr) (unat (128 + word_of_nat j :: u64)) = Inr ?w"
    using Cons.prems(1) by simp
  have wf: "wf_block (s0_0 p)" "wf_block (s1_0 p)" "s1_0 p = xor_block ?w (s0_0 p)"
    using wf_make_share_labels [OF p] p by (auto simp: make_share_labels_def Let_def split_beta)
  from Cons.IH [of g1] Cons.prems obtain ps g' where ps: "share_wires gr 128 js g1 = Inr (ps, g')"
    "length ps = length js" "\<forall>i < length js. wf_block (s0_0 (ps ! i)) \<and> wf_block (s1_0 (ps ! i)) \<and>
       s1_0 (ps ! i) = xor_block (wire0 gr ! (128 + js ! i)) (s0_0 (ps ! i))"
    by auto
  have "share_wires gr 128 (j # js) g = Inr (p # ps, g')"
    unfolding share_wires.simps rd by (simp add: p ps(1))
  then show ?case using wf ps(2,3) by (auto simp: nth_Cons' intro!: exI [of _ "p # ps"])
qed simp

lemma wf_tables_of_witnesses:
  assumes "garbled_from sha c aes gr gr0 gr1 k"
  shows "list_all wf_table (tables gr)"
proof -
  have step: "list_all wf_table (tables gr')"
    if "garble_gate aes (gr, n) g = Inr (gr', n')" "list_all wf_table (tables gr)" for gr gr' n n' g
    using that by (cases "gate_type g")
      (auto simp: garble_gate_def Let_def bind_result_Inr_iff wf_table_def)
  have run: "list_all wf_table (tables gr')"
    if "fold_result (garble_gate aes) (gr, n) gs = Inr (gr', n')" "list_all wf_table (tables gr)"
    for gr gr' n n' gs
    using that by (induction gs arbitrary: gr n) (auto simp: bind_result_Inr_iff dest: step)
  have "list_all wf_table (tables gr1)"
    using assms by (intro run [of gr0 0 "gates c" gr1 k]) (auto simp: garbled_from_def)
  then show ?thesis using assms by (auto simp: garbled_from_def)
qed

lemma length_merkle_root:
  assumes "\<forall>x. length (sha x) = 32"
  shows "length (merkle_root_pairs sha pairs) = 32"
proof -
  have lvl: "list_all (\<lambda>x. length x = 32) (merkle_level sha l)" for l
  proof -
    have "list_all (\<lambda>x. length x = 32) (hash_pairs sha l)" for l
      using assms by (induction sha l rule: hash_pairs.induct) auto
    then show ?thesis by (simp add: merkle_level_def)
  qed
  have "length (merkle_loop sha l ! 0) = 32" if "l \<noteq> []" "list_all (\<lambda>x. length x = 32) l" for l
    using that
  proof (induction "length l" arbitrary: l rule: less_induct)
    case less
    show ?case
    proof (cases "1 < length l")
      case True
      then have "length (merkle_level sha l) < length l" "merkle_level sha l \<noteq> []"
        using length_merkle_level [of sha l] by auto
      then have "length (merkle_loop sha (merkle_level sha l) ! 0) = 32"
        using less(1) lvl by blast
      then show ?thesis using True by (subst merkle_loop.simps) simp
    next
      case False
      then show ?thesis using less by (subst merkle_loop.simps) (cases l; auto)
    qed
  qed
  from this [of "map (\<lambda>(p0, p1). sha (p0 @ p1)) pairs"] show ?thesis
    using assms by (auto simp: merkle_root_pairs_def list_all_iff split: prod.splits)
qed

lemma garble_one_ok:
  assumes "aes_shaped circ" "\<forall>x. length (sha x) = 32" "wf_block mmo_key"
  shows "\<exists>x g'. garble_one sha circ mmo_key (FixedKeyAES_init mmo_key) g = Inr (x, g') \<and>
    copy_ok sha circ mmo_key x"
proof -
  note c = aes_shaped_simps [OF assms(1)]
  obtain gr g1 where gr: "garble_circuit sha circ mmo_key (FixedKeyAES_init mmo_key) g = Inr (gr, g1)"
    using garble_circuit_total [OF c(1)] by blast
  obtain gr0 gr1 k where tr: "garbled_from sha circ (FixedKeyAES_init mmo_key) gr gr0 gr1 k"
    and key: "aes_key gr = mmo_key"
    using garble_circuit_from [OF c(1) gr] by blast
  have out: "length (out_decode gr) = 128"
    using tr c(1,5) by (auto simp: garbled_from_def circuit_ok_def)
  have nt: "length (tables gr) < 2 ^ 40"
  proof -
    have "length (tables gr) = and_count (gates circ)"
      using tr unfolding garbled_from_def by blast
    also have "\<dots> \<le> length (gates circ)" by simp
    also have "\<dots> < 2 ^ 40" using assms(1) by (simp add: aes_shaped_def)
    finally show ?thesis .
  qed
  have w: "256 \<le> length (wire0 gr)" "list_all wf_block (wire0 gr)"
    using tr c(4) by (auto simp: garbled_from_def zero_labels_ok_def list_all_iff)
  have h: "length (gc_hash gr) = 32" "length (R_root gr) = 32"
    using tr assms(2) by (auto simp: garbled_from_def length_merkle_root)
  have d: "wf_block (delta gr)" "lsb (delta gr)" using tr by (auto simp: garbled_from_def)
  have ok: "tables_ok gr"
    using out nt w h d key assms(3) wf_tables_of_witnesses [OF tr] by (simp add: tables_ok_def)
  have ser: "serialize_tables gr = Inr (tables_message gr)"
    using w by (simp add: serialize_tables_eq)
  obtain ps g2 where ps: "share_wires gr 128 [0..<128] g1 = Inr (ps, g2)" "length ps = 128"
    "\<forall>i < 128. wf_block (s0_0 (ps ! i)) \<and> wf_block (s1_0 (ps ! i)) \<and>
       s1_0 (ps ! i) = xor_block (wire0 gr ! (128 + [0..<128] ! i)) (s0_0 (ps ! i))"
    using share_wires_ok [of "[0..<128]" gr g1] w(1) by auto
  have n: "n_input0 circ = 128" "unat (n_input1 circ) = 128"
    using assms(1) by (simp_all add: aes_shaped_def)
  have "garble_one sha circ mmo_key (FixedKeyAES_init mmo_key) g =
      Inr ((gr, tables_message gr, ps), g2)"
    unfolding garble_one_def gr using ser ps(1) n by simp
  moreover have "copy_ok sha circ mmo_key (gr, tables_message gr, ps)"
    using gr ok key d w out nt ps(2,3) by (auto simp: copy_ok_def shares_ok_def)
  ultimately show ?thesis by blast
qed

lemma garble_all_ok:
  assumes "aes_shaped circ" "\<forall>x. length (sha x) = 32" "wf_block mmo_key"
  shows "\<exists>xs g'. garble_all sha circ mmo_key (FixedKeyAES_init mmo_key) n g = Inr (xs, g') \<and>
    length xs = n \<and> list_all (copy_ok sha circ mmo_key) xs"
proof (induction n arbitrary: g)
  case (Suc n)
  obtain x g1 where "garble_one sha circ mmo_key (FixedKeyAES_init mmo_key) g = Inr (x, g1)"
    "copy_ok sha circ mmo_key x"
    using garble_one_ok [OF assms] by blast
  moreover obtain xs g2 where "garble_all sha circ mmo_key (FixedKeyAES_init mmo_key) n g1 = Inr (xs, g2)"
    "length xs = n" "list_all (copy_ok sha circ mmo_key) xs"
    using Suc.IH by blast
  ultimately show ?case by simp
qed simp

end
