(* ===== verification/E2E_Labels.thy ===== *)
theory E2E_Labels
  imports E2E_Server
begin

text \<open>
  The oblivious-transfer layer of \<^verbatim>\<open>voprf_e2e.cpp\<close>: from the server's masks and its own choices
  the client obtains the share labels of its encoded inputs, and from these the evaluator's active
  input labels.
\<close>

section \<open>Blockwise index ranges\<close>

lemma concat_concat_map: "concat (concat xss) = concat (map concat xss)"
  by (induction xss) auto

lemma concat_upt_pairs:
  "concat (map (\<lambda>j. f (2 * j) @ f (2 * j + 1)) [0..<n]) = concat (map f [0..<2 * n])"
  by (induction n) auto

lemma concat_upt_blocks:
  "concat (map (\<lambda>i. concat (map (\<lambda>k. f (i * n + k)) [0..<n])) [0..<m]) = concat (map f [0..<m * n])"
proof (induction m)
  case (Suc m)
  have "[0..<Suc m * n] = [0..<m * n] @ map (\<lambda>k. m * n + k) [0..<n]"
    using upt_add_eq_append [of 0 "m * n" n] map_add_upt [of "m * n" n] by (simp add: ac_simps)
  then show ?case using Suc by (simp add: comp_def)
qed simp

section \<open>Masks\<close>

text \<open>The zero label of share wire \<open>k\<close> of a copy, and the two masked labels of transfer \<open>idx\<close>.\<close>

definition share_zero :: "ShareLabelPair list \<Rightarrow> nat \<Rightarrow> block" where
  "share_zero ps k = (if even k then s0_0 (ps ! (k div 2)) else s1_0 (ps ! (k div 2)))"

definition masked ::
  "(block \<times> block) list \<Rightarrow> GarbleResult list \<Rightarrow> ShareLabelPair list list \<Rightarrow> nat \<Rightarrow> block \<times> block" where
  "masked pads grs pss idx =
    (let i = idx div 256; z = share_zero (pss ! i) (idx mod 256)
     in (xor_block (fst (pads ! idx)) z, xor_block (snd (pads ! idx)) (xor_block z (delta (grs ! i)))))"

lemma masked_at: "k < 256 \<Longrightarrow> masked pads grs pss (i * 256 + k) =
  (let z = share_zero (pss ! i) k
   in (xor_block (fst (pads ! (i * 256 + k))) z,
       xor_block (snd (pads ! (i * 256 + k))) (xor_block z (delta (grs ! i)))))"
proof -
  assume k: "k < 256"
  have "(i * 256 + k) div 256 = i" "(i * 256 + k) mod 256 = k" using k by simp_all
  then show ?thesis by (simp only: masked_def Let_def)
qed

definition cat :: "block \<times> block \<Rightarrow> u8 list" where
  "cat = (\<lambda>(a, b). a @ b)"

lemma mask_pair_eq:
  assumes "i * 256 + 2 * j + 1 < length pads" "j < 128"
  shows "mask_pair pads (grs ! i) (pss ! i ! j) i j =
    Inr (cat (masked pads grs pss (i * 256 + 2 * j)) @ cat (masked pads grs pss (i * 256 + (2 * j + 1))))"
proof -
  have "share_zero (pss ! i) (2 * j) = s0_0 (pss ! i ! j)"
    "share_zero (pss ! i) (2 * j + 1) = s1_0 (pss ! i ! j)"
    by (simp_all add: share_zero_def)
  moreover have "2 * j < 256" "2 * j + 1 < 256" using assms(2) by simp_all
  ultimately show ?thesis
    using assms(1)
    by (simp only: masked_at mask_pair_def Let_def cat_def) (simp add: push_simps split_beta)
qed

lemma mask_labels_eq:
  assumes "length pads = m * 256" "unat (cfg_m cfg) = m"
    and "length (gcs st) = m" "length (share_labs st) = m"
    and "\<forall>i < m. length (share_labs st ! i) = 128"
  shows "mask_labels cfg st pads =
    Inr (concat (map (cat \<circ> masked pads (gcs st) (share_labs st)) [0..<m * 256]))"
proof -
  let ?f = "cat \<circ> masked pads (gcs st) (share_labs st)"
  let ?row = "\<lambda>i. map (\<lambda>j. ?f (i * 256 + 2 * j) @ ?f (i * 256 + (2 * j + 1))) [0..<128]"
  have "mask_labels cfg st pads = bind_result (Inr (map ?row [0..<m])) (\<lambda>rows. Inr (concat (concat rows)))"
    unfolding mask_labels_def assms(2)
  proof (intro arg_cong2 [of _ _ _ _ bind_result] map_result_Inr refl)
    fix i assume "i \<in> set [0..<m]"
    then have i: "i < m" by simp
    have "map_result (\<lambda>j. bind_result (vec_read (share_labs st ! i) j)
        (\<lambda>sp. mask_pair pads (gcs st ! i) sp i j)) [0..<128] = Inr (?row i)"
    proof (rule map_result_Inr)
      fix j :: nat assume "j \<in> set [0..<128]"
      then have j: "j < 128" by simp
      have "i * 256 + 2 * j + 1 < length pads" using i j assms(1) by linarith
      from mask_pair_eq [OF this j, of "gcs st" "share_labs st"]
      show "bind_result (vec_read (share_labs st ! i) j) (\<lambda>sp. mask_pair pads (gcs st ! i) sp i j) =
          Inr (?f (i * 256 + 2 * j) @ ?f (i * 256 + (2 * j + 1)))"
        using i j assms(5) by simp
    qed
    then show "bind_result (vec_read (share_labs st) i) (\<lambda>sps. bind_result (vec_read (gcs st) i)
        (\<lambda>gr. map_result (\<lambda>j. bind_result (vec_read sps j) (\<lambda>sp. mask_pair pads gr sp i j)) [0..<128])) =
        Inr (?row i)"
      using i assms(3,4) by simp
  qed
  moreover have "concat (concat (map ?row [0..<m])) = concat (map ?f [0..<m * 256])"
  proof -
    have "concat (concat (map ?row [0..<m])) =
        concat (map (\<lambda>i. concat (map (\<lambda>j. ?f (i * 256 + 2 * j) @ ?f (i * 256 + (2 * j + 1))) [0..<128]))
          [0..<m])"
      by (simp add: concat_concat_map comp_def)
    also have "\<dots> = concat (map (\<lambda>i. concat (map (\<lambda>k. ?f (i * 256 + k)) [0..<2 * 128])) [0..<m])"
      by (intro arg_cong [of _ _ concat] map_cong refl concat_upt_pairs)
    also have "\<dots> = concat (map ?f [0..<m * 256])"
      using concat_upt_blocks [of ?f 256 m] by simp
    finally show ?thesis .
  qed
  ultimately show ?thesis by simp
qed

section \<open>Unmasking\<close>

text \<open>What random oblivious transfer gives the receiver: of each pad pair the chosen pad.\<close>

definition ot_output :: "(block \<times> block) list \<Rightarrow> bool list \<Rightarrow> block list" where
  "ot_output pads choices = map (\<lambda>((p0, p1), c). if c then p1 else p0) (zip pads choices)"

interpretation pair_codec: codec "\<lambda>(a, b). wf_block a \<and> wf_block b" cat
  "read_bind take_block (\<lambda>c0. read_bind take_block (\<lambda>c1. read_return (c0, c1)))"
proof
  show "read_bind take_block (\<lambda>c0. read_bind take_block (\<lambda>c1. read_return (c0, c1))) inp off =
      Inr (x, off + length (cat x))"
    if "case x of (a, b) \<Rightarrow> wf_block a \<and> wf_block b" "has_at inp off (cat x)" for x inp off
    using that block_codec.rd_enc [of "fst x" inp off] block_codec.rd_enc [of "snd x"]
    by (auto simp: cat_def read_bind_def read_return_def split: prod.splits)
qed (intro reader_intros block_codec.rd_extend)

lemma wf_masked [simp]: "case masked pads grs pss idx of (a, b) \<Rightarrow> wf_block a \<and> wf_block b"
  by (simp add: masked_def Let_def)

lemma unmask_labels_eq:
  assumes "length pads = m * 256" "list_all (\<lambda>(a, b). wf_block a \<and> wf_block b) pads"
    and "unat (n_ot cfg) = m * 256" "length choices = m * 256"
    and "\<forall>i < m. wf_block (delta (grs ! i)) \<and> (\<forall>k < 256. wf_block (share_zero (pss ! i) k))"
  shows "unmask_labels cfg choices (ot_output pads choices)
      (concat (map (cat \<circ> masked pads grs pss) [0..<m * 256])) =
    Inr (map (\<lambda>idx. label_for_bit (share_zero (pss ! (idx div 256)) (idx mod 256))
                (delta (grs ! (idx div 256))) (if choices ! idx then 1 else 0)) [0..<m * 256])"
proof -
  let ?cs = "map (masked pads grs pss) [0..<m * 256]"
  let ?masks = "concat (map cat ?cs)"
  have "list_all (\<lambda>(a, b). wf_block a \<and> wf_block b) ?cs"
    using wf_masked by (simp add: list_all_iff)
  from pair_codec.many_enc [OF this has_at_self]
  have rd: "take_many (read_bind take_block (\<lambda>c0. read_bind take_block (\<lambda>c1. read_return (c0, c1))))
      (m * 256) ?masks 0 = Inr (?cs, length ?masks)"
    by simp
  have "map_result (\<lambda>i. bind_result (vec_read (ot_output pads choices) i) (\<lambda>pad.
      Inr (xor_block pad (if choices ! i then snd (?cs ! i) else fst (?cs ! i))))) [0..<m * 256] =
    Inr (map (\<lambda>idx. label_for_bit (share_zero (pss ! (idx div 256)) (idx mod 256))
                (delta (grs ! (idx div 256))) (if choices ! idx then 1 else 0)) [0..<m * 256])"
  proof (rule map_result_Inr)
    fix i assume "i \<in> set [0..<m * 256]"
    then have i: "i < m * 256" by simp
    then have "i div 256 < m" by (simp add: less_mult_imp_div_less)
    then have wf: "wf_block (delta (grs ! (i div 256)))"
      "wf_block (share_zero (pss ! (i div 256)) (i mod 256))"
      using assms(5) by simp_all
    have ot: "ot_output pads choices ! i = (if choices ! i then snd (pads ! i) else fst (pads ! i))"
      using i assms(1,4) by (simp add: ot_output_def split_beta)
    show "bind_result (vec_read (ot_output pads choices) i) (\<lambda>pad.
        Inr (xor_block pad (if choices ! i then snd (?cs ! i) else fst (?cs ! i)))) =
      Inr (label_for_bit (share_zero (pss ! (i div 256)) (i mod 256))
                (delta (grs ! (i div 256))) (if choices ! i then 1 else 0))"
      using i assms(1,4) wf
      by (simp add: ot vec_read_def ot_output_def masked_def Let_def label_for_bit_def split_beta)
  qed
  then show ?thesis
    unfolding unmask_labels_def assms(3) by (simp only: rd map_map [symmetric] bind_result.simps prod.case)
qed

section \<open>The client's choices\<close>

text \<open>After \<open>n\<close> iterations: \<open>n\<close> inputs, and the shares of the first \<open>n\<close> at their places.\<close>

definition sampled :: "(u8 list \<Rightarrow> u8 list) \<Rightarrow> nat \<Rightarrow> nat \<Rightarrow> u8 list list \<times> u8 list \<times> mt19937_64 \<Rightarrow> bool" where
  "sampled sha N n = (\<lambda>(xs, all_shares, g).
    length xs = n \<and> length all_shares = N \<and> (\<forall>i < n. length (xs ! i) = 16 \<and>
      (\<exists>h. take 256 (drop (i * 256) all_shares) =
           fst (encode_shares (block_to_bits128 (H1 sha (xs ! i))) h))))"

lemma sample_input_ok:
  assumes "sampled sha N n st" "n * 256 + 256 \<le> N"
  shows "\<exists>st'. sample_input sha st n = Inr st' \<and> sampled sha N (Suc n) st'"
proof -
  obtain xs sh g where st: "st = (xs, sh, g)" by (metis prod_cases3)
  obtain x g1 where x: "fill_bytes 16 g = (x, g1)" by fastforce
  then have lx: "length x = 16" by (metis length_fill_bytes fst_conv)
  let ?bits = "block_to_bits128 (H1 sha x)"
  obtain ss g2 where ss: "encode_shares ?bits g1 = (ss, g2)" by fastforce
  then have ls: "length ss = 256" using length_encode_shares [of ?bits g1] by simp
  let ?sh = "take (n * 256) sh @ ss @ drop (n * 256 + 256) sh"
  have s: "length xs = n" "length sh = N"
    "\<And>i. i < n \<Longrightarrow> length (xs ! i) = 16 \<and> (\<exists>h. take 256 (drop (i * 256) sh) =
        fst (encode_shares (block_to_bits128 (H1 sha (xs ! i))) h))"
    using assms(1) by (auto simp: sampled_def st)
  have step: "sample_input sha st n = Inr (xs @ [x], ?sh, g2)"
    using assms(2) s ls by (simp add: sample_input_def st x ss)
  have old: "take 256 (drop (i * 256) ?sh) = take 256 (drop (i * 256) sh)" if "i < n" for i
  proof -
    have "i * 256 + 256 \<le> n * 256" using that by linarith
    then show ?thesis using assms(2) s(2)
      by (simp add: drop_take)
  qed
  have new: "take 256 (drop (n * 256) ?sh) = ss" using assms(2) s(2) ls by simp
  have "sampled sha N (Suc n) (xs @ [x], ?sh, g2)"
    unfolding sampled_def prod.case
  proof (intro conjI allI impI)
    fix i assume i: "i < Suc n"
    show "length ((xs @ [x]) ! i) = 16" using i s lx by (auto simp: nth_append less_Suc_eq)
    show "\<exists>h. take 256 (drop (i * 256) ?sh) =
        fst (encode_shares (block_to_bits128 (H1 sha ((xs @ [x]) ! i))) h)"
    proof (cases "i = n")
      case True
      then show ?thesis using new ss s(1) by (auto intro: exI [of _ g1])
    next
      case False
      then have "i < n" using i by simp
      then show ?thesis unfolding old [OF \<open>i < n\<close>] using s(1,3) by (simp add: nth_append)
    qed
  qed (use assms(2) s ls in auto)
  then show ?thesis using step by blast
qed

lemma sample_inputs_ok:
  assumes "unat (cfg_m cfg) = m" "unat (n_ot cfg) = m * 256"
  shows "\<exists>xs choices. sample_inputs sha cfg g = Inr (xs, choices) \<and> length xs = m \<and>
    length choices = m * 256 \<and> (\<forall>i < m. length (xs ! i) = 16 \<and>
      (\<exists>h. \<forall>k < 256. choices ! (i * 256 + k) \<longleftrightarrow>
        fst (encode_shares (block_to_bits128 (H1 sha (xs ! i))) h) ! k AND 1 \<noteq> 0))"
proof -
  let ?N = "m * 256" and ?st0 = "([], replicate (m * 256) 0, g)"
  have "\<exists>st. fold_result (sample_input sha) ?st0 [0..<n] = Inr st \<and> sampled sha ?N n st" if "n \<le> m" for n
    using that
  proof (induction n)
    case (Suc n)
    then obtain st where st: "fold_result (sample_input sha) ?st0 [0..<n] = Inr st" "sampled sha ?N n st"
      by auto
    have "n * 256 + 256 \<le> ?N" using Suc.prems by linarith
    then show ?case using sample_input_ok [OF st(2)] st(1) by (auto simp: fold_result_append)
  qed (simp add: sampled_def)
  then obtain xs sh g' where run: "fold_result (sample_input sha) ?st0 [0..<m] = Inr (xs, sh, g')"
    and s: "sampled sha ?N m (xs, sh, g')"
    by (metis le_refl prod_cases3)
  have len: "length xs = m" "length sh = ?N" using s by (auto simp: sampled_def)
  have "\<exists>h. \<forall>k < 256. (map (\<lambda>s. s AND 1 \<noteq> 0) sh) ! (i * 256 + k) \<longleftrightarrow>
        fst (encode_shares (block_to_bits128 (H1 sha (xs ! i))) h) ! k AND 1 \<noteq> 0" if i: "i < m" for i
  proof -
    obtain h where h: "take 256 (drop (i * 256) sh) =
        fst (encode_shares (block_to_bits128 (H1 sha (xs ! i))) h)"
      using s i by (auto simp: sampled_def)
    have "sh ! (i * 256 + k) = fst (encode_shares (block_to_bits128 (H1 sha (xs ! i))) h) ! k"
      if "k < 256" for k
    proof -
      have "i * 256 + k < length sh" using i that len by linarith
      then show ?thesis using that by (simp flip: h)
    qed
    moreover have "i * 256 + k < length sh" if "k < 256" for k using i that len by linarith
    ultimately show ?thesis by (intro exI [of _ h]) simp
  qed
  then show ?thesis
    using run s len unfolding sample_inputs_def assms by (auto simp: sampled_def)
qed

section \<open>The evaluator's input labels\<close>

lemma encode_shares_is_bit:
  assumes "k < 2 * length bits"
  shows "is_bit (fst (encode_shares bits h) ! k)"
proof -
  have k: "k div 2 < length bits" using assms by simp
  have "k = 2 * (k div 2) \<or> k = 2 * (k div 2) + 1" by linarith
  then show ?thesis using encode_shares_nth [OF k, of h] is_bit_ops(1) by (metis is_bit_simps(3) is_bit_ucast_and_one)
qed

text \<open>
  The two unmasked share labels of bit \<open>j\<close> recombine to the active label of the evaluator's wire.
\<close>

lemma recombined_label:
  assumes "shares_ok gr ps" "wf_block (delta gr)" "wf_block (wire0 gr ! (128 + j))" "j < 128"
    and "length bits = 128" "is_bit (bits ! j)"
    and "\<forall>k < 256. ch k \<longleftrightarrow> fst (encode_shares bits h) ! k AND 1 \<noteq> 0"
  shows "reconstruct_label
      (label_for_bit (share_zero ps (2 * j)) (delta gr) (if ch (2 * j) then 1 else 0))
      (label_for_bit (share_zero ps (2 * j + 1)) (delta gr) (if ch (2 * j + 1) then 1 else 0)) =
    label_for_bit (wire0 gr ! (128 + j)) (delta gr) (bits ! j)"
proof -
  let ?s = "fst (encode_shares bits h)"
  have bit: "(if ch k then 1 else 0) = ?s ! k" if "k < 256" for k
    using encode_shares_is_bit [of k bits h] assms(5,7) that by (auto simp: is_bit_def)
  have sz: "share_zero ps (2 * j) = s0_0 (ps ! j)"
    "share_zero ps (2 * j + 1) = xor_block (wire0 gr ! (128 + j)) (s0_0 (ps ! j))"
    using assms(1,4) by (simp_all add: share_zero_def shares_ok_def)
  have b: "is_bit (?s ! (2 * j))" "is_bit (?s ! (2 * j + 1))"
    using encode_shares_is_bit [of _ bits h] assms(4,5) by simp_all
  have "?s ! (2 * j) XOR ?s ! (2 * j + 1) = bits ! j AND 1"
    using encode_shares_nth [of j bits h] assms(4,5) by simp
  also have "\<dots> = bits ! j" using assms(6) by (auto simp: is_bit_def)
  finally have x: "?s ! (2 * j) XOR ?s ! (2 * j + 1) = bits ! j" .
  have "2 * j < 256" "2 * j + 1 < 256" using assms(4) by simp_all
  then show ?thesis
    unfolding bit [OF \<open>2 * j < 256\<close>] bit [OF \<open>2 * j + 1 < 256\<close>] sz x [symmetric]
    by (intro reconstruct_xor) (use assms(1-4) b in \<open>auto simp: shares_ok_def\<close>)
qed

end
