(* ===== verification/E2E_Correct.thy ===== *)
theory E2E_Correct
  imports E2E_Labels
begin

text \<open>
  Both parties of \<^verbatim>\<open>voprf_e2e.cpp\<close> run against each other: every packet of the server is consumed
  by the client, in order, and each output of the client is the reference hash of its input with
  the circuit's output on the server's key and the hashed input.
\<close>

section \<open>The server's state\<close>

text \<open>
  The proof file starts with the length of its public part, which it contains together with the
  binding hash and the table hash.
\<close>

definition proof_format :: "u8 list \<Rightarrow> bool" where
  "proof_format p \<longleftrightarrow> length p < 2 ^ 63 \<and>
    (case take_u64 p 0 of Inl e \<Rightarrow> False | Inr (n, off) \<Rightarrow> 72 + unat n \<le> length p)"

definition gr_ok :: "(u8 list \<Rightarrow> u8 list) \<Rightarrow> Circuit \<Rightarrow> GarbleResult \<Rightarrow> bool" where
  "gr_ok sha circ gr \<longleftrightarrow>
    (\<exists>g g' k. garble_circuit sha circ k (FixedKeyAES_init k) g = Inr (gr, g') \<and> aes_key gr = k) \<and>
    tables_ok gr \<and> lsb (delta gr) \<and> 256 \<le> length (wire0 gr) \<and>
    length (tables gr) < 2 ^ 40 \<and> length (out_decode gr) = 128"

definition server_ok ::
  "(u8 list \<Rightarrow> u8 list) \<Rightarrow> Config \<Rightarrow> Circuit \<Rightarrow> mt19937_64 \<Rightarrow> ServerState \<Rightarrow> bool" where
  "server_ok sha cfg circ g st \<longleftrightarrow>
    oprf_key st = fst (random_block g) \<and> key_bits st = block_to_bits128 (oprf_key st) \<and>
    srv_cm st = key_commitment sha (oprf_key st) 128 \<and> proof_format (srv_proof st) \<and>
    length (gcs st) = unat (cfg_m cfg) \<and> length (share_labs st) = unat (cfg_m cfg) \<and>
    table_blobs st = map tables_message (gcs st) \<and>
    (\<forall>i < unat (cfg_m cfg). gr_ok sha circ (gcs st ! i) \<and> shares_ok (gcs st ! i) (share_labs st ! i))"

lemma server_prepare_ok:
  assumes "aes_shaped circ" "\<forall>x. length (sha x) = 32" "0 < unat (cfg_m cfg)"
    and "\<forall>w. \<exists>p. prove w = Some p \<and> proof_format p"
  shows "\<exists>st. server_prepare sha prove cfg circ g = Inr st \<and> server_ok sha cfg circ g st"
proof -
  let ?m = "unat (cfg_m cfg)"
  obtain key g1 where key: "random_block g = (key, g1)" by fastforce
  obtain mk g2 where mk: "random_block g1 = (mk, g2)" by fastforce
  have "wf_block mk" using mk wf_random_block [of g1] by simp
  from garble_all_ok [OF assms(1,2) this, of ?m g2] obtain xs g3
    where xs: "garble_all sha circ mk (FixedKeyAES_init mk) ?m g2 = Inr (xs, g3)"
      "length xs = ?m" "list_all (copy_ok sha circ mk) xs"
    by blast
  let ?gr0 = "fst (xs ! 0)"
  obtain p where p: "prove (serialize_stark_witness sha ?gr0 (key_commitment sha key 128)) = Some p"
    "proof_format p"
    using assms(4) by blast
  let ?st = "\<lparr>oprf_key = key, srv_cm = key_commitment sha key 128, key_bits = block_to_bits128 key,
      gcs = map fst xs, table_blobs = map (fst \<circ> snd) xs, share_labs = map (snd \<circ> snd) xs,
      srv_proof = p\<rparr>"
  have copy: "gr_ok sha circ (fst (xs ! i))" "shares_ok (fst (xs ! i)) (snd (snd (xs ! i)))"
    "fst (snd (xs ! i)) = tables_message (fst (xs ! i))" if "i < ?m" for i
  proof -
    have "copy_ok sha circ mk (xs ! i)" using xs(2,3) that by (simp add: list_all_length)
    then show "gr_ok sha circ (fst (xs ! i))" "shares_ok (fst (xs ! i)) (snd (snd (xs ! i)))"
      "fst (snd (xs ! i)) = tables_message (fst (xs ! i))"
      by (auto simp: copy_ok_def gr_ok_def split: prod.splits)
  qed
  have "server_prepare sha prove cfg circ g = Inr ?st"
    using xs(1,2) p assms(3) by (simp add: server_prepare_def key mk)
  moreover have "server_ok sha cfg circ g ?st"
  proof -
    have "map (fst \<circ> snd) xs = map tables_message (map fst xs)"
      using xs(2) copy(3) by (intro nth_equalityI) auto
    then show ?thesis using p(2) key xs(2) copy(1,2) by (simp add: server_ok_def)
  qed
  ultimately show ?thesis by blast
qed

section \<open>Offline phase\<close>

interpretation arr32_codec: codec "\<lambda>x. length x = 32" "\<lambda>x. x" "take_bytes 32"
proof
  show "take_bytes 32 inp off = Inr (x, off + length x)" if "length x = 32" "has_at inp off x"
    for x inp off
    using take_bytes_has_at [OF that(2)] that(1) by simp
qed (rule take_bytes_extend)

lemma batch_meta_eq: "batch_meta cfg st = u64_bytes (cfg_m cfg) @ concat (map gc_hash (gcs st))"
proof -
  have "foldl (\<lambda>bs gr. push_arr32 bs (gc_hash gr)) bs grs = bs @ concat (map gc_hash grs)" for bs grs
    by (induction grs arbitrary: bs) (simp_all add: push_simps)
  then show ?thesis by (simp add: batch_meta_def push_simps)
qed

lemma length_tables_message:
  assumes "gr_ok sha circ gr"
  shows "length (tables_message gr) < 2 ^ 63"
proof -
  have w: "list_all wf_block (take 128 (wire0 gr))" and t: "list_all wf_table (tables gr)"
    using assms by (auto simp: gr_ok_def tables_ok_def list_all_iff dest: in_set_takeD)
  have "length (concat (map (\<lambda>t. T0 t @ T1 t) ts)) = 32 * length ts" if "list_all wf_table ts" for ts
    using that by (induction ts) (auto simp: wf_table_def wf_block_def)
  from this [OF t] have lt: "length (concat (map (\<lambda>t. T0 t @ T1 t) (tables gr))) = 32 * length (tables gr)" .
  have "length (concat xs) = 16 * length xs" if "list_all wf_block xs" for xs
    using that by (induction xs) (auto simp: wf_block_def)
  from this [OF w] have lw: "length (concat (take 128 (wire0 gr))) = 2048"
    using assms by (simp add: gr_ok_def)
  show ?thesis using assms lt lw
    by (simp add: tables_message_def gr_ok_def tables_ok_def wf_block_def)
qed

lemma client_offline_ok:
  assumes st: "server_ok sha cfg circ g st" and sha: "\<forall>x. length (sha x) = 32"
    and m: "unat (cfg_m cfg) < 2 ^ 31"
  shows "client_offline cfg (server_offline cfg st @ Byte 1 # ch) =
    Inr (\<lparr>server_gc_hashes = map gc_hash (gcs st),
          off_tables = (if tables_online cfg then [] else table_blobs st)\<rparr>, ch)"
proof -
  let ?m = "unat (cfg_m cfg)"
  have grs: "\<forall>gr \<in> set (gcs st). gr_ok sha circ gr" and len: "length (gcs st) = ?m"
    using st by (auto simp: server_ok_def in_set_conv_nth)
  have h32: "list_all (\<lambda>x. length x = 32) (map gc_hash (gcs st))"
    using grs by (auto simp: list_all_iff gr_ok_def tables_ok_def)
  have cm: "length (srv_cm st) < 2 ^ 63"
    using st sha by (simp add: server_ok_def length_key_commitment)
  have "length (batch_meta cfg st) = 8 + ?m * 32"
    using length_concat_uniform [OF h32] len by (simp add: batch_meta_eq)
  then have meta: "length (batch_meta cfg st) < 2 ^ 63" using m by simp
  have "has_at (batch_meta cfg st) 0 (batch_meta cfg st)" by simp
  then have at: "has_at (batch_meta cfg st) 0 (u64_bytes (cfg_m cfg))"
    "has_at (batch_meta cfg st) 8 (concat (map (\<lambda>x. x) (map gc_hash (gcs st))))"
    unfolding batch_meta_eq has_at_append by (simp_all add: comp_def)
  have hs: "take_many (take_bytes 32) ?m (batch_meta cfg st) 8 =
      Inr (map gc_hash (gcs st), 8 + length (concat (map gc_hash (gcs st))))"
    using arr32_codec.many_enc [OF h32 at(2)] len by (simp add: comp_def)
  have blobs: "list_all (\<lambda>data. length data < 2 ^ 63) (table_blobs st)"
    using st grs length_tables_message by (fastforce simp: server_ok_def list_all_iff)
  have ts: "recv_blobs ?m (send_tables st @ ch') = Inr (table_blobs st, ch')" for ch'
    using recv_blobs_send [OF blobs] st by (simp add: send_tables_def server_ok_def)
  show ?thesis
    unfolding client_offline_def server_offline_def
    by (simp add: blob_transport.recv_send [OF cm] blob_transport.recv_send [OF meta]
        u64_codec.rd_enc [OF _ at(1)] hs ts)
qed

section \<open>Online phase\<close>

definition active_key_labels :: "ServerState \<Rightarrow> GarbleResult \<Rightarrow> block list" where
  "active_key_labels st gr =
    map (\<lambda>j. label_for_bit (wire0 gr ! j) (delta gr) (key_bits st ! j)) [0..<128]"

lemma key_labels_of_eq:
  "128 \<le> length (wire0 gr) \<Longrightarrow> key_labels_of st gr = Inr (concat (active_key_labels st gr))"
proof -
  assume "128 \<le> length (wire0 gr)"
  then have "map_result (\<lambda>j. bind_result (vec_read (wire0 gr) j) (\<lambda>w.
        Inr (label_for_bit w (delta gr) (key_bits st ! j)))) [0..<128] = Inr (active_key_labels st gr)"
    unfolding active_key_labels_def by (intro map_result_Inr) simp
  then show ?thesis by (simp add: key_labels_of_def)
qed

lemma wf_active_key_labels:
  assumes "gr_ok sha circ gr"
  shows "list_all wf_block (active_key_labels st gr)"
  using assms
  by (auto simp: active_key_labels_def list_all_length label_for_bit_def gr_ok_def tables_ok_def)

text \<open>The share labels that the client computes.\<close>

definition unmasked :: "ServerState \<Rightarrow> bool list \<Rightarrow> nat \<Rightarrow> block list" where
  "unmasked st choices m =
    map (\<lambda>idx. label_for_bit (share_zero (share_labs st ! (idx div 256)) (idx mod 256))
                (delta (gcs st ! (idx div 256))) (if choices ! idx then 1 else 0)) [0..<m * 256]"

lemma wf_share_zero: "shares_ok gr ps \<Longrightarrow> k < 256 \<Longrightarrow> wf_block (share_zero ps k)"
  by (auto simp: share_zero_def shares_ok_def)

text \<open>What both parties assume of the parameters of a run.\<close>

definition run_ok :: "Config \<Rightarrow> (block \<times> block) list \<Rightarrow> bool" where
  "run_ok cfg pads \<longleftrightarrow>
    0 < unat (cfg_m cfg) \<and> unat (cfg_m cfg) < 2 ^ 31 \<and> n_ot cfg = cfg_m cfg * 256 \<and>
    length pads = unat (cfg_m cfg) * 256 \<and> list_all (\<lambda>(a, b). wf_block a \<and> wf_block b) pads"

lemma n_ot_unat: "run_ok cfg pads \<Longrightarrow> unat (n_ot cfg) = unat (cfg_m cfg) * 256"
  by (simp add: run_ok_def unat_word_ariths)

lemma online_ok:
  assumes st: "server_ok sha cfg circ g st" and run: "run_ok cfg pads"
  shows "\<exists>online. server_online cfg st pads = Inr online \<and>
    (\<exists>xs choices. length xs = unat (cfg_m cfg) \<and> length choices = unat (cfg_m cfg) * 256 \<and>
      (\<forall>i < unat (cfg_m cfg). length (xs ! i) = 16 \<and>
        (\<exists>h. \<forall>k < 256. choices ! (i * 256 + k) \<longleftrightarrow>
          fst (encode_shares (block_to_bits128 (H1 sha (xs ! i))) h) ! k AND 1 \<noteq> 0)) \<and>
      client_receive sha cfg gc (ot_output pads) (if tables_online cfg then [] else table_blobs st) online =
        Inr (\<lparr>xs_in = xs, share_labels = unmasked st choices (unat (cfg_m cfg)),
              on_tables = table_blobs st, key_labels = map (active_key_labels st) (gcs st),
              cl_proof = srv_proof st, cl_key = oprf_key st\<rparr>, []))"
proof -
  let ?m = "unat (cfg_m cfg)"
  let ?masks = "concat (map (cat \<circ> masked pads (gcs st) (share_labs st)) [0..<?m * 256])"
  let ?kls = "map (active_key_labels st) (gcs st)"
  have grs: "\<forall>gr \<in> set (gcs st). gr_ok sha circ gr" and len: "length (gcs st) = ?m"
    using st by (auto simp: server_ok_def in_set_conv_nth)
  have masks: "mask_labels cfg st pads = Inr ?masks"
    using st run by (intro mask_labels_eq) (auto simp: run_ok_def server_ok_def shares_ok_def)
  have kls: "map_result (key_labels_of st) (gcs st) = Inr (map concat ?kls)"
    unfolding map_map comp_def
    by (rule map_result_Inr) (use grs in \<open>auto simp: gr_ok_def intro!: key_labels_of_eq\<close>)
  define online where "online = send_blob ?masks @ (if tables_online cfg then send_tables st else []) @
      concat (map send_blob (map concat ?kls)) @ send_blob (srv_proof st) @ send_blob (oprf_key st)"
  have srv: "server_online cfg st pads = Inr online"
    using run by (simp add: server_online_def run_ok_def masks kls online_def)
  obtain xs choices where smp: "sample_inputs sha cfg gc = Inr (xs, choices)"
    and xs: "length xs = ?m" "length choices = ?m * 256"
      "\<forall>i < ?m. length (xs ! i) = 16 \<and> (\<exists>h. \<forall>k < 256. choices ! (i * 256 + k) \<longleftrightarrow>
          fst (encode_shares (block_to_bits128 (H1 sha (xs ! i))) h) ! k AND 1 \<noteq> 0)"
    using sample_inputs_ok [OF refl n_ot_unat [OF run]] by metis
  have "list_all (\<lambda>x. length x = 32) (map (cat \<circ> masked pads (gcs st) (share_labs st)) [0..<?m * 256])"
    by (simp add: list_all_iff cat_def masked_def Let_def) (simp add: wf_block_def [symmetric] xor_block_def)
  from length_concat_uniform [OF this] have "length ?masks < 2 ^ 63" using run by (simp add: run_ok_def)
  note recv_masks = blob_transport.recv_send [OF this]
  have unm: "unmask_labels cfg choices (ot_output pads choices) ?masks = Inr (unmasked st choices ?m)"
    unfolding unmasked_def
    using run xs(2) st n_ot_unat [OF run]
    by (intro unmask_labels_eq)
      (auto simp: run_ok_def server_ok_def gr_ok_def tables_ok_def wf_share_zero)
  have blobs: "list_all (\<lambda>data. length data < 2 ^ 63) (table_blobs st)"
    using st grs length_tables_message by (fastforce simp: server_ok_def list_all_iff)
  have ts: "recv_blobs ?m (send_tables st @ ch') = Inr (table_blobs st, ch')" for ch'
    using recv_blobs_send [OF blobs] st by (simp add: send_tables_def server_ok_def)
  have l16: "length (concat ks) = 16 * length ks" if "list_all wf_block ks" for ks
    using that by (induction ks) (auto simp: wf_block_def)
  have kwf: "\<forall>ks \<in> set ?kls. list_all wf_block ks \<and> length ks = 128"
    using grs wf_active_key_labels by (auto simp: active_key_labels_def)
  then have "list_all (\<lambda>data. length data < 2 ^ 63) (map concat ?kls)"
    using l16 by (auto simp: list_all_iff)
  from recv_blobs_send [OF this]
  have kbs: "recv_blobs ?m (concat (map send_blob (map concat ?kls)) @ ch') = Inr (map concat ?kls, ch')" for ch'
    using len by simp
  have parse: "map_result (\<lambda>kb. bind_result (take_many take_block 128 kb 0) (\<lambda>(ks, off). Inr ks))
      (map concat ?kls) = Inr ?kls"
  proof -
    have "bind_result (take_many take_block 128 (concat ks) 0) (\<lambda>(ks, off). Inr ks) = Inr ks"
      if "ks \<in> set ?kls" for ks
    proof -
      have "list_all wf_block ks" "length ks = 128" using kwf that by blast+
      then show ?thesis using block_codec.many_enc [of ks "concat ks" 0] by simp
    qed
    then have "map_result (\<lambda>kb. bind_result (take_many take_block 128 kb 0) (\<lambda>(ks, off). Inr ks))
        (map concat kk) = Inr kk" if "set kk \<subseteq> set ?kls" for kk
      using that by (induction kk) auto
    then show ?thesis by blast
  qed
  have pf: "length (srv_proof st) < 2 ^ 63" using st by (simp add: server_ok_def proof_format_def)
  have "wf_block (oprf_key st)" using st by (simp add: server_ok_def)
  then have k16: "length (oprf_key st) = 16" by (simp add: wf_block_def)
  have key: "recv_blob (send_blob (oprf_key st)) = Inr (oprf_key st, [])"
    using blob_transport.recv_send [of "oprf_key st" "[]"] k16 by simp
  have "client_receive sha cfg gc (ot_output pads) (if tables_online cfg then [] else table_blobs st) online =
        Inr (\<lparr>xs_in = xs, share_labels = unmasked st choices ?m,
              on_tables = table_blobs st, key_labels = ?kls,
              cl_proof = srv_proof st, cl_key = oprf_key st\<rparr>, [])"
    unfolding client_receive_def online_def
    by (simp add: smp recv_masks unm ts kbs parse blob_transport.recv_send [OF pf] key k16
        del: map_map)
  then show ?thesis using srv xs by blast
qed

section \<open>Evaluation of one circuit\<close>

lemma eval_of_message:
  "eval_circuit_labels circ aes (gr_of_msg (message_of gr)) labels = eval_circuit_labels circ aes gr labels"
  "decode_outputs (gr_of_msg (message_of gr)) labels = decode_outputs gr labels"
  by (simp_all add: eval_circuit_labels_def decode_outputs_def gr_of_msg_def message_of_def)

text \<open>What the client computes for the input \<open>x\<close>, and what the circuit says it should be.\<close>

definition circuit_output :: "(u8 list \<Rightarrow> u8 list) \<Rightarrow> Circuit \<Rightarrow> block \<Rightarrow> u8 list \<Rightarrow> u8 list result" where
  "circuit_output sha circ key x =
    bind_result (eval_circuit_plain circ (block_to_bits128 key @ block_to_bits128 (H1 sha x)))
      (\<lambda>out. Inr (H2 sha x (bits128_to_block out)))"

lemma client_output_ok:
  assumes circ: "aes_shaped circ" and gr: "gr_ok sha circ gr" and ps: "shares_ok gr ps"
    and key: "key_bits st = block_to_bits128 key" and h: "\<forall>k < 256. ch k \<longleftrightarrow>
      fst (encode_shares (block_to_bits128 (H1 sha (xs_in cl ! i))) h) ! k AND 1 \<noteq> 0"
    and labs: "\<forall>k < 256. vec_read (share_labels cl) (i * 256 + k) =
      Inr (label_for_bit (share_zero ps k) (delta gr) (if ch k then 1 else 0))"
    and kl: "key_labels cl ! i = active_key_labels st gr"
  shows "\<exists>y. circuit_output sha circ key (xs_in cl ! i) = Inr y \<and>
    client_output sha circ cl (message_of gr) i = Inr y"
proof -
  let ?bits = "block_to_bits128 (H1 sha (xs_in cl ! i))"
  let ?all = "block_to_bits128 key @ ?bits"
  let ?evs = "map (\<lambda>j. label_for_bit (wire0 gr ! (128 + j)) (delta gr) (?bits ! j)) [0..<128]"
  note c = aes_shaped_simps [OF circ]
  have wf: "wf_block (delta gr)" "256 \<le> length (wire0 gr)" "\<And>j. j < 256 \<Longrightarrow> wf_block (wire0 gr ! j)"
    using gr by (auto simp: gr_ok_def tables_ok_def list_all_length)
  have evs: "map_result (\<lambda>j.
      bind_result (vec_read (share_labels cl) (i * 256 + 2 * j)) (\<lambda>l0.
      bind_result (vec_read (share_labels cl) (i * 256 + 2 * j + 1)) (\<lambda>l1.
      Inr (reconstruct_label l0 l1)))) [0..<128] = Inr ?evs"
  proof (rule map_result_Inr)
    fix j :: nat assume "j \<in> set [0..<128]"
    then have j: "j < 128" "2 * j < 256" "2 * j + 1 < 256" by simp_all
    have rd: "vec_read (share_labels cl) (i * 256 + 2 * j) =
        Inr (label_for_bit (share_zero ps (2 * j)) (delta gr) (if ch (2 * j) then 1 else 0))"
      "vec_read (share_labels cl) (i * 256 + 2 * j + 1) =
        Inr (label_for_bit (share_zero ps (2 * j + 1)) (delta gr) (if ch (2 * j + 1) then 1 else 0))"
      using labs j(2,3) by (metis, metis add.assoc)
    have "is_bit (?bits ! j)" "wf_block (wire0 gr ! (128 + j))" using j wf(3) by simp_all
    then show "bind_result (vec_read (share_labels cl) (i * 256 + 2 * j)) (\<lambda>l0.
        bind_result (vec_read (share_labels cl) (i * 256 + 2 * j + 1)) (\<lambda>l1.
        Inr (reconstruct_label l0 l1))) =
      Inr (label_for_bit (wire0 gr ! (128 + j)) (delta gr) (?bits ! j))"
      unfolding rd using recombined_label [OF ps wf(1) _ j(1) _ _ h] by simp
  qed
  have len: "length ?all = n_inputs circ" using c(2) by simp
  have bit: "\<forall>b \<in> set ?all. is_bit b"
    using is_bit_block_to_bits128 by (auto simp: in_set_conv_nth)
  have "take 128 (active_key_labels st gr) @ ?evs = input_labels gr ?all"
  proof (rule nth_equalityI)
    fix n assume "n < length (take 128 (active_key_labels st gr) @ ?evs)"
    then have n: "n < 256" by (simp add: active_key_labels_def)
    show "(take 128 (active_key_labels st gr) @ ?evs) ! n = input_labels gr ?all ! n"
    proof (cases "n < 128")
      case True
      then show ?thesis by (simp add: active_key_labels_def input_labels_def nth_append key)
    next
      case False
      then have "n - 128 < 128" "128 + (n - 128) = n" using n by simp_all
      then show ?thesis using False n
        by (simp add: active_key_labels_def input_labels_def nth_append)
    qed
  qed (simp add: active_key_labels_def input_labels_def)
  moreover obtain g g' where "garble_circuit sha circ (aes_key gr) (FixedKeyAES_init (aes_key gr)) g = Inr (gr, g')"
    using gr by (auto simp: gr_ok_def)
  from garbled_decode [OF c(1) len bit this] obtain labels out where
      "eval_circuit_labels circ (FixedKeyAES_init (aes_key gr)) gr (input_labels gr ?all) = Inr labels"
      "decode_outputs gr labels = Inr out" "eval_circuit_plain circ ?all = Inr out" "length out = 128"
    using c(5) by auto
  moreover have "msg_aes_key (message_of gr) = aes_key gr" by (simp add: message_of_def)
  ultimately show ?thesis
    unfolding client_output_def evs circuit_output_def
    by (simp add: kl eval_of_message)
qed

section \<open>The evaluation loop\<close>

lemma eval_loop:
  assumes "\<And>i. i < m \<Longrightarrow> vec_read (on_tables cl) i = Inr (tables_message (grs ! i)) \<and>
      tables_ok (grs ! i) \<and> vec_read hashes i = Inr (gc_hash (grs ! i)) \<and>
      client_output sha circ cl (message_of (grs ! i)) i = Inr (y i)"
    and "n \<le> m"
  shows "fold_result (eval_step sha circ hashes cl)
      \<lparr>v_ys = replicate m (replicate 32 0), plaintext_ok = True, plain_match = 0, stopped = False\<rparr> [0..<n] =
    Inr \<lparr>v_ys = map y [0..<n] @ replicate (m - n) (replicate 32 0),
         plaintext_ok = (\<forall>i < n. F_k sha (cl_key cl) (xs_in cl ! i) = y i),
         plain_match = length (filter (\<lambda>i. F_k sha (cl_key cl) (xs_in cl ! i) = y i) [0..<n]),
         stopped = False\<rparr>"
  using assms(2)
proof (induction n)
  case (Suc n)
  then have n: "n < m" and IH: "fold_result (eval_step sha circ hashes cl)
      \<lparr>v_ys = replicate m (replicate 32 0), plaintext_ok = True, plain_match = 0, stopped = False\<rparr> [0..<n] =
    Inr \<lparr>v_ys = map y [0..<n] @ replicate (m - n) (replicate 32 0),
         plaintext_ok = (\<forall>i < n. F_k sha (cl_key cl) (xs_in cl ! i) = y i),
         plain_match = length (filter (\<lambda>i. F_k sha (cl_key cl) (xs_in cl ! i) = y i) [0..<n]),
         stopped = False\<rparr>"
    by simp_all
  note at = assms(1) [OF n]
  have up: "(map y [0..<n] @ replicate (m - n) (replicate 32 0))[n := y n] =
      map y [0..<Suc n] @ replicate (m - Suc n) (replicate 32 0)"
    using n by (simp add: list_update_append Suc_diff_Suc [symmetric])
  have "msg_gc_hash (message_of (grs ! n)) = gc_hash (grs ! n)" by (simp add: message_of_def)
  then have "eval_step sha circ hashes cl
      \<lparr>v_ys = map y [0..<n] @ replicate (m - n) (replicate 32 0), plaintext_ok = q, plain_match = k,
       stopped = False\<rparr> n =
    Inr \<lparr>v_ys = map y [0..<Suc n] @ replicate (m - Suc n) (replicate 32 0),
         plaintext_ok = (q \<and> F_k sha (cl_key cl) (xs_in cl ! n) = y n),
         plain_match = (if F_k sha (cl_key cl) (xs_in cl ! n) = y n then k + 1 else k),
         stopped = False\<rparr>" for q k
    using at by (simp add: eval_step_def deserialize_message up Let_def del: upt_Suc)
  then show ?case
    using IH by (auto simp: fold_result_append less_Suc_eq simp del: upt_Suc simp: upt_Suc_append)
qed simp

lemma bind_check_ok:
  assumes "proof_format p" "vec_read ts 0 = Inr tb" "deserialize_tables tb = Inr t0" "vec_read hs 0 = Inr h"
  shows "\<exists>b. bind_check p ts hs = Inr b"
proof -
  obtain n off where n: "take_u64 p 0 = Inr (n, off)" "72 + unat n \<le> length p" "length p < 2 ^ 63"
    using assms(1) by (auto simp: proof_format_def split: sum.splits)
  have off: "unat (8 + n + 32) = 40 + unat n"
    using n(2,3) by (simp add: unat_word_ariths)
  then have "unat (8 + n + 32 + 32) = 72 + unat n"
    using n(2,3) unat_word_ariths(1) [of "8 + n + 32" 32] by simp
  then have "8 + n + 32 + 32 \<le> word_of_nat (length p)"
    using n(2,3) by (simp add: word_le_nat_alt unat_of_nat)
  moreover have "take_bytes 32 p (unat (8 + n + 32)) = Inr (take 32 (drop (40 + unat n) p), 72 + unat n)"
    using n(2) unfolding off by (simp add: take_bytes_def)
  ultimately show ?thesis
    using n(1,2) assms(2-4) by (simp add: bind_check_def Let_def add.assoc)
qed

lemma sint_ucast_small:
  fixes w :: u64
  assumes "unat w < 2 ^ 31"
  shows "sint (ucast w :: u32) = int (unat w)"
proof -
  have "int (unat w) < int (2 ^ 31)" using assms by (simp only: of_nat_less_iff)
  then have lt: "uint w < 2 ^ 31" by simp
  have "take_bit 32 (uint w) = uint w" using lt by (intro take_bit_int_eq_self) auto
  then have "uint (ucast w :: u32) = uint w" by (simp only: unsigned_ucast_eq) simp
  then have "sint (ucast w :: u32) = signed_take_bit 31 (uint w)" by (simp only: sint_uint) simp
  also have "\<dots> = uint w" using lt by (intro signed_take_bit_int_eq_self) (auto intro: order_trans [OF _ uint_ge_0])
  finally show ?thesis by simp
qed

lemma length_filter_upt_all:
  "length (filter P [0..<n]) = n \<longleftrightarrow> (\<forall>i < n. P i)"
  using length_filter_less [of _ "[0..<n]" P] by (force simp: filter_id_conv)

lemma client_verify_ok:
  assumes st: "server_ok sha cfg circ g st" and circ: "aes_shaped circ" and run: "run_ok cfg pads"
    and cl: "cl = \<lparr>xs_in = xs, share_labels = unmasked st choices (unat (cfg_m cfg)),
              on_tables = table_blobs st, key_labels = map (active_key_labels st) (gcs st),
              cl_proof = srv_proof st, cl_key = oprf_key st\<rparr>"
    and xs: "length xs = unat (cfg_m cfg)"
    and ch: "\<forall>i < unat (cfg_m cfg). \<exists>h. \<forall>k < 256. choices ! (i * 256 + k) \<longleftrightarrow>
          fst (encode_shares (block_to_bits128 (H1 sha (xs ! i))) h) ! k AND 1 \<noteq> 0"
  shows "\<exists>r. client_verify sha verify cfg circ (map gc_hash (gcs st)) cl = Inr r \<and>
    xs_sampled r = xs \<and>
    (stark_ok r \<and> bind_ok r \<longrightarrow> (\<forall>i < unat (cfg_m cfg). circuit_output sha circ (oprf_key st) (xs ! i) = Inr (ys r ! i))) \<and>
    (vok r \<longleftrightarrow> stark_ok r \<and> bind_ok r \<and>
      (\<forall>i < unat (cfg_m cfg). ys r ! i = F_k sha (oprf_key st) (xs ! i)))"
proof -
  let ?m = "unat (cfg_m cfg)" and ?hs = "map gc_hash (gcs st)"
  have m: "0 < ?m" "?m < 2 ^ 31" using run by (simp_all add: run_ok_def)
  have len: "length (gcs st) = ?m" and blobs: "table_blobs st = map tables_message (gcs st)"
    and key: "key_bits st = block_to_bits128 (oprf_key st)" and pf: "proof_format (srv_proof st)"
    and copies: "\<And>i. i < ?m \<Longrightarrow> gr_ok sha circ (gcs st ! i)"
      "\<And>i. i < ?m \<Longrightarrow> shares_ok (gcs st ! i) (share_labs st ! i)"
    using st by (simp_all add: server_ok_def)
  have out: "\<exists>y. circuit_output sha circ (oprf_key st) (xs ! i) = Inr y \<and>
      client_output sha circ cl (message_of (gcs st ! i)) i = Inr y" if i: "i < ?m" for i
  proof -
    obtain h where h: "\<forall>k < 256. choices ! (i * 256 + k) \<longleftrightarrow>
          fst (encode_shares (block_to_bits128 (H1 sha (xs_in cl ! i))) h) ! k AND 1 \<noteq> 0"
      using ch i cl by auto
    have labs: "\<forall>k < 256. vec_read (share_labels cl) (i * 256 + k) =
      Inr (label_for_bit (share_zero (share_labs st ! i) k) (delta (gcs st ! i))
            (if choices ! (i * 256 + k) then 1 else 0))"
    proof (intro allI impI)
      fix k :: nat assume k: "k < 256"
      have "i * 256 + k < ?m * 256" using i k by linarith
      moreover have "(i * 256 + k) div 256 = i" "(i * 256 + k) mod 256 = k" using k by simp_all
      ultimately show "vec_read (share_labels cl) (i * 256 + k) =
        Inr (label_for_bit (share_zero (share_labs st ! i) k) (delta (gcs st ! i))
            (if choices ! (i * 256 + k) then 1 else 0))"
        by (simp add: cl unmasked_def)
    qed
    have "key_labels cl ! i = active_key_labels st (gcs st ! i)" using i len by (simp add: cl)
    from client_output_ok [OF circ copies(1) [OF i] copies(2) [OF i] key h labs this]
    show ?thesis by (simp add: cl)
  qed
  obtain y where y: "\<And>i. i < ?m \<Longrightarrow> circuit_output sha circ (oprf_key st) (xs ! i) = Inr (y i)"
      "\<And>i. i < ?m \<Longrightarrow> client_output sha circ cl (message_of (gcs st ! i)) i = Inr (y i)"
    using out by metis
  have loop: "fold_result (eval_step sha circ ?hs cl)
      \<lparr>v_ys = replicate ?m (replicate 32 0), plaintext_ok = True, plain_match = 0, stopped = False\<rparr> [0..<?m] =
    Inr \<lparr>v_ys = map y [0..<?m] @ replicate (?m - ?m) (replicate 32 0),
         plaintext_ok = (\<forall>i < ?m. F_k sha (cl_key cl) (xs_in cl ! i) = y i),
         plain_match = length (filter (\<lambda>i. F_k sha (cl_key cl) (xs_in cl ! i) = y i) [0..<?m]),
         stopped = False\<rparr>"
    using copies(1) y(2) len by (intro eval_loop [where grs = "gcs st"]) (auto simp: cl blobs gr_ok_def)
  obtain b where b: "bind_check (cl_proof cl) (on_tables cl) ?hs = Inr b"
    using bind_check_ok [OF pf, of "table_blobs st" "tables_message (gcs st ! 0)"
        "message_of (gcs st ! 0)" ?hs "gc_hash (gcs st ! 0)"] m(1) len blobs copies(1) [OF m(1)]
    by (auto simp: cl gr_ok_def deserialize_message)
  have smatch: "int k = sint (ucast (cfg_m cfg) :: u32) \<longleftrightarrow> k = ?m" for k
    unfolding sint_ucast_small [OF m(2)] by linarith
  show ?thesis
  proof (cases "verify (srv_proof st) \<and> b")
    case True
    let ?match = "\<forall>i < ?m. F_k sha (oprf_key st) (xs ! i) = y i"
    let ?r = "\<lparr>ys = map y [0..<?m], xs_sampled = xs, stark_ok = True, bind_ok = True, vok = ?match\<rparr>"
    have "client_verify sha verify cfg circ ?hs cl = Inr ?r"
      unfolding client_verify_def using True b loop smatch
      by (simp add: cl length_filter_upt_all Let_def)
    moreover have "?match \<longleftrightarrow> (\<forall>i < ?m. y i = F_k sha (oprf_key st) (xs ! i))" by auto
    ultimately show ?thesis using y(1) by simp
  next
    case False
    then show ?thesis
      using b by (cases "verify (srv_proof st)") (simp_all add: client_verify_def Let_def cl)
  qed
qed

section \<open>The run\<close>

lemma run_parties:
  assumes "aes_shaped circ" "\<forall>x. length (sha x) = 32" "run_ok cfg pads"
    and "\<forall>w. \<exists>p. prove w = Some p \<and> proof_format p"
  shows "\<exists>sent back r.
    run_server sha prove cfg circ gs pads back = Inr (sent, if vok r then 1 else 0) \<and>
    run_client sha verify cfg circ gc (ot_output pads) sent = Inr (r, back) \<and>
    length (xs_sampled r) = unat (cfg_m cfg) \<and>
    (stark_ok r \<and> bind_ok r \<longrightarrow> (\<forall>i < unat (cfg_m cfg).
      circuit_output sha circ (fst (random_block gs)) (xs_sampled r ! i) = Inr (ys r ! i))) \<and>
    (vok r \<longleftrightarrow> stark_ok r \<and> bind_ok r \<and>
      (\<forall>i < unat (cfg_m cfg). ys r ! i = F_k sha (fst (random_block gs)) (xs_sampled r ! i)))"
proof -
  have m: "0 < unat (cfg_m cfg)" "unat (cfg_m cfg) < 2 ^ 31" using assms(3) by (simp_all add: run_ok_def)
  obtain st where prep: "server_prepare sha prove cfg circ gs = Inr st" and st: "server_ok sha cfg circ gs st"
    using server_prepare_ok [OF assms(1,2) m(1) assms(4)] by blast
  have key: "oprf_key st = fst (random_block gs)" using st by (simp add: server_ok_def)
  obtain online xs choices where online: "server_online cfg st pads = Inr online"
    and xs: "length xs = unat (cfg_m cfg)" "\<forall>i < unat (cfg_m cfg). \<exists>h. \<forall>k < 256. choices ! (i * 256 + k) \<longleftrightarrow>
          fst (encode_shares (block_to_bits128 (H1 sha (xs ! i))) h) ! k AND 1 \<noteq> 0"
    and recv: "client_receive sha cfg gc (ot_output pads)
        (if tables_online cfg then [] else table_blobs st) online =
        Inr (\<lparr>xs_in = xs, share_labels = unmasked st choices (unat (cfg_m cfg)),
              on_tables = table_blobs st, key_labels = map (active_key_labels st) (gcs st),
              cl_proof = srv_proof st, cl_key = oprf_key st\<rparr>, [])"
    using online_ok [OF st assms(3), of gc] by blast
  obtain r where r: "client_verify sha verify cfg circ (map gc_hash (gcs st))
      \<lparr>xs_in = xs, share_labels = unmasked st choices (unat (cfg_m cfg)),
       on_tables = table_blobs st, key_labels = map (active_key_labels st) (gcs st),
       cl_proof = srv_proof st, cl_key = oprf_key st\<rparr> = Inr r"
      "xs_sampled r = xs"
      "stark_ok r \<and> bind_ok r \<longrightarrow> (\<forall>i < unat (cfg_m cfg). circuit_output sha circ (oprf_key st) (xs ! i) = Inr (ys r ! i))"
      "vok r \<longleftrightarrow> stark_ok r \<and> bind_ok r \<and> (\<forall>i < unat (cfg_m cfg). ys r ! i = F_k sha (oprf_key st) (xs ! i))"
    using client_verify_ok [OF st assms(1,3) refl xs, of verify] by blast
  let ?reply = "[Byte 1, Byte (if vok r then 1 else 0)]"
  have "run_server sha prove cfg circ gs pads ?reply =
      Inr (server_offline cfg st @ [Byte 1] @ online, if vok r then 1 else 0)"
    by (simp add: run_server_def prep online)
  moreover have "run_client sha verify cfg circ gc (ot_output pads)
      (server_offline cfg st @ [Byte 1] @ online) = Inr (r, ?reply)"
    using client_offline_ok [OF st assms(2) m(2)] recv r(1) by (simp add: run_client_def)
  ultimately show ?thesis using r(2-4) xs(1) key by (intro exI conjI) auto
qed


text \<open>A circuit of the AES shape without gates, which returns the evaluator's input.\<close>

definition projection_circuit :: Circuit where
  "projection_circuit =
    \<lparr>n_gates = 0, n_wires = 256, n_input0 = 128, n_input1 = 128, n_output = 128, n_and = 0, n_xor = 0,
     gates = [], output_wires = map (\<lambda>i. word_of_nat (128 + i)) [0..<128]\<rparr>"

lemma aes_shaped_projection: "aes_shaped projection_circuit"
  by (simp add: aes_shaped_def projection_circuit_def circuit_ok_def n_inputs_def list_all_iff
      unat_word_ariths unat_of_nat)

definition dummy_proof :: "u8 list" where
  "dummy_proof = replicate 72 0"

lemma proof_format_dummy: "proof_format dummy_proof"
proof -
  have "has_at dummy_proof 0 (u64_bytes 0)"
    by (simp add: has_at_def dummy_proof_def u64_bytes_def push_u64_def map_replicate_trivial)
  then show ?thesis
    using u64_codec.rd_enc [OF TrueI] by (fastforce simp: proof_format_def dummy_proof_def)
qed

definition two_copies :: Config where
  "two_copies = \<lparr>cfg_m = 2, n_ot = 512, tables_online = True\<rparr>"


section \<open>Limits of the binding check\<close>

text \<open>
  The binding check can leave its buffer.  The offset of the table hash is computed modulo
  \<open>2 ^ 64\<close>: a proof file longer than 16 bytes that announces a public part of \<open>2 ^ 64 - 56\<close> bytes
  passes the size test and is read 16 bytes below the end of the address range.
\<close>

theorem bind_check_wraps:
  assumes "16 < length p" "length p < 2 ^ 63" "take_u64 p 0 = Inr (n, 8)" "n = - 56"
  shows "bind_check p ts hs = Inl undefined_access"
proof -
  have "16 \<le> (word_of_nat (length p) :: u64)"
    using assms(1,2) by (simp add: word_le_nat_alt unat_of_nat)
  then show ?thesis
    using assms by (simp add: bind_check_def Let_def take_bytes_def)
qed

definition wrapping_proof :: "u8 list" where
  "wrapping_proof = u64_bytes (- 56) @ replicate 9 0"

lemma bind_check_wraps_witness: "bind_check wrapping_proof [] [] = Inl undefined_access"
proof -
  have "has_at wrapping_proof 0 (u64_bytes (- 56))" by (simp add: has_at_def wrapping_proof_def)
  then have "take_u64 wrapping_proof 0 = Inr (- 56, 8)"
    using u64_codec.rd_enc [OF TrueI] by fastforce
  from bind_check_wraps [OF _ _ this refl] show ?thesis by (simp add: wrapping_proof_def)
qed

text \<open>
  The binding check does not bind the tables.  It compares the hash field of the table message,
  which the server writes, and never hashes the tables themselves: replacing the message of
  circuit 0 by any other with the same hash field, whatever its tables, changes no verdict, and
  the messages of the other circuits are not looked at.
\<close>

theorem bind_check_ignores_tables:
  assumes "deserialize_tables tb = Inr m" "deserialize_tables tb' = Inr m'"
    and "msg_gc_hash m = msg_gc_hash m'"
  shows "bind_check p (tb # ts) hs = bind_check p (tb' # ts') hs"
  using assms by (simp add: bind_check_def cong: if_cong)

lemma bind_check_ignores_tables_witness:
  "bind_check dummy_proof [tables_message empty_result] [replicate 32 7] =
   bind_check dummy_proof [tables_message (empty_result\<lparr>tables := [\<lparr>T0 = zero_block, T1 = zero_block\<rparr>]\<rparr>)]
     [replicate 32 7]"
proof -
  have "tables_ok (empty_result\<lparr>tables := [\<lparr>T0 = zero_block, T1 = zero_block\<rparr>]\<rparr>)"
    using tables_ok_empty by (simp add: tables_ok_def wf_table_def empty_result_def)
  from bind_check_ignores_tables [OF deserialize_message [OF tables_ok_empty] deserialize_message [OF this]]
  show ?thesis by (simp add: message_of_def)
qed

end
