(* ===== verification/Bristol.thy ===== *)
theory Bristol
  imports Circuit
begin

text \<open>
  \<^verbatim>\<open>load_bristol\<close> of \<^verbatim>\<open>gc_mmo.hpp\<close>: the header by formatted extraction from the file stream, then
  one line per gate through a string stream.  A stream is the characters left and whether the last
  extraction succeeded; an extraction from a failed stream leaves its target, which here is always
  the initial zero or empty string.  Capacity errors of \<^verbatim>\<open>reserve\<close> and \<^verbatim>\<open>resize\<close> are those of a
  64-bit \<^verbatim>\<open>std::vector\<close> with elements of 16 and 4 bytes.
\<close>

section \<open>Formatted extraction\<close>

type_synonym istream = "string \<times> bool"

definition is_space :: "char \<Rightarrow> bool" where
  "is_space c \<longleftrightarrow> c \<in> {CHR '' '', CHR 0x09, CHR 0x0A, CHR 0x0B, CHR 0x0C, CHR 0x0D}"

definition is_digit :: "char \<Rightarrow> bool" where
  "is_digit c \<longleftrightarrow> 48 \<le> (of_char c :: nat) \<and> (of_char c :: nat) \<le> 57"

definition digits_value :: "string \<Rightarrow> nat" where
  "digits_value ds = foldl (\<lambda>v c. 10 * v + (of_char c - 48)) 0 ds"

definition take_sign :: "string \<Rightarrow> bool \<times> string" where
  "take_sign s = (case s of [] \<Rightarrow> (False, s)
     | c # r \<Rightarrow> if c = CHR ''-'' then (True, r) else if c = CHR ''+'' then (False, r) else (False, s))"

text \<open>\<^verbatim>\<open>>>\<close> into an unsigned integer of \<open>w\<close> bits: a negative literal wraps, an overflow fails.\<close>

definition get_unsigned :: "nat \<Rightarrow> istream \<Rightarrow> nat \<times> istream" where
  "get_unsigned w st =
    (if \<not> snd st then (0, st)
     else
       let (neg, s) = take_sign (dropWhile is_space (fst st));
           ds = takeWhile is_digit s;
           rest = dropWhile is_digit s;
           v = digits_value ds
       in if ds = [] then (0, (rest, False))
          else if 2 ^ w \<le> v then (2 ^ w - 1, (rest, False))
          else ((if neg then (2 ^ w - v) mod 2 ^ w else v), (rest, True)))"

text \<open>\<^verbatim>\<open>>>\<close> into an \<^verbatim>\<open>int\<close>.\<close>

definition get_int :: "istream \<Rightarrow> int \<times> istream" where
  "get_int st =
    (if \<not> snd st then (0, st)
     else
       let (neg, s) = take_sign (dropWhile is_space (fst st));
           ds = takeWhile is_digit s;
           rest = dropWhile is_digit s;
           v = (if neg then - int (digits_value ds) else int (digits_value ds))
       in if ds = [] then (0, (rest, False))
          else if v < - (2 ^ 31) then (- (2 ^ 31), (rest, False))
          else if 2 ^ 31 \<le> v then (2 ^ 31 - 1, (rest, False))
          else (v, (rest, True)))"

text \<open>\<^verbatim>\<open>>>\<close> into a string.\<close>

definition get_word :: "istream \<Rightarrow> string \<times> istream" where
  "get_word st =
    (if \<not> snd st then ([], st)
     else
       let s = dropWhile is_space (fst st);
           t = takeWhile (Not \<circ> is_space) s
       in (t, (dropWhile (Not \<circ> is_space) s, t \<noteq> [])))"

definition newline :: char where
  "newline = CHR 0x0A"

definition getline :: "istream \<Rightarrow> string \<times> istream" where
  "getline st =
    (if \<not> snd st \<or> fst st = [] then ([], (fst st, False))
     else (takeWhile ((\<noteq>) newline) (fst st), (tl (dropWhile ((\<noteq>) newline) (fst st)), True)))"

text \<open>The lines that \<^verbatim>\<open>while (std::getline(in, line))\<close> visits.\<close>

function lines_of :: "string \<Rightarrow> string list" where
  "lines_of s =
    (if s = [] then []
     else takeWhile ((\<noteq>) newline) s # lines_of (tl (dropWhile ((\<noteq>) newline) s)))"
  by pat_completeness auto
termination
proof (relation "measure length")
  fix s :: string assume "s \<noteq> []"
  then have "0 < length s" by simp
  moreover have "length (dropWhile ((\<noteq>) newline) s) \<le> length s" by (rule length_dropWhile_le)
  ultimately have "length (dropWhile ((\<noteq>) newline) s) - 1 < length s" by linarith
  then show "(tl (dropWhile ((\<noteq>) newline) s), s) \<in> measure length" by simp
qed simp

declare lines_of.simps [simp del]

section \<open>The loader\<close>

definition binary_gate :: "istream \<Rightarrow> Circuit \<Rightarrow> Circuit result" where
  "binary_gate ss c =
    (let (a, ss) = get_unsigned 32 ss;
         (b, ss) = get_unsigned 32 ss;
         (o_w, ss) = get_unsigned 32 ss;
         (oper, ss) = get_word ss;
         g = \<lparr>gate_type = XOR_gate, in0 = word_of_nat a, in1 = word_of_nat b,
              gate_out = word_of_nat o_w\<rparr>
     in if oper = ''XOR'' \<or> oper = ''xor''
        then Inr (c\<lparr>gates := gates c @ [g\<lparr>gate_type := XOR_gate\<rparr>], n_xor := n_xor c + 1\<rparr>)
        else if oper = ''AND'' \<or> oper = ''and''
        then Inr (c\<lparr>gates := gates c @ [g\<lparr>gate_type := AND_gate\<rparr>], n_and := n_and c + 1\<rparr>)
        else Inl (runtime_error (''unknown gate: '' @ oper)))"

definition unary_gate :: "istream \<Rightarrow> Circuit \<Rightarrow> Circuit result" where
  "unary_gate ss c =
    (let (a, ss) = get_unsigned 32 ss;
         (o_w, ss) = get_unsigned 32 ss;
         (oper, ss) = get_word ss
     in if oper = ''INV'' \<or> oper = ''NOT'' \<or> oper = ''inv'' \<or> oper = ''not''
        then Inr (c\<lparr>gates := gates c @ [\<lparr>gate_type = INV_gate, in0 = word_of_nat a,
                      in1 = word_of_nat a, gate_out = word_of_nat o_w\<rparr>],
                    n_xor := n_xor c + 1\<rparr>)
        else Inl (runtime_error (''unknown unary gate: '' @ oper)))"

definition parse_line :: "Circuit \<Rightarrow> string \<Rightarrow> Circuit result" where
  "parse_line c line =
    (if line = [] \<or> hd line = CHR ''#'' then Inr c
     else
       let (nin_g, ss) = get_int (line, True);
           (nout_g, ss) = get_int ss
       in if \<not> snd ss then Inr c
          else if nin_g = 2 \<and> nout_g = 1 then binary_gate ss c
          else if nin_g = 1 \<and> nout_g = 1 then unary_gate ss c
          else Inl (runtime_error (''unsupported gate arity in: '' @ line)))"

text \<open>The header: the circuit without gates, the output count, and the stream behind the line.\<close>

definition read_header :: "string \<Rightarrow> (Circuit \<times> nat \<times> istream) result" where
  "read_header s =
    (let inp = (s, True);
         (ng, inp) = get_unsigned 64 inp;
         (nw, inp) = get_unsigned 64 inp;
         (nin, inp) = get_unsigned 64 inp;
         (ni0, inp) = get_unsigned 64 inp;
         (ni1, inp) = get_unsigned 64 inp
     in if nin \<noteq> 2 then Inl (runtime_error ''expected 2 input bundles'')
        else
          let (nout, inp) = get_unsigned 64 inp;
              (no, inp) = get_unsigned 64 inp
          in if nout \<noteq> 1 then Inl (runtime_error ''expected 1 output bundle'')
             else if 2 ^ 59 \<le> ng then Inl (runtime_error ''vector::reserve'')
             else Inr (\<lparr>n_gates = word_of_nat ng, n_wires = word_of_nat nw,
                        n_input0 = word_of_nat ni0, n_input1 = word_of_nat ni1,
                        n_output = word_of_nat no, n_and = 0, n_xor = 0, gates = [],
                        output_wires = []\<rparr>, no, snd (getline inp)))"

definition finish_circuit :: "nat \<Rightarrow> Circuit \<Rightarrow> Circuit result" where
  "finish_circuit no c =
    (if word_of_nat (length (gates c)) \<noteq> n_gates c
     then Inl (runtime_error ''gate count mismatch'')
     else if 2 ^ 61 \<le> no then Inl (runtime_error ''vector::resize'')
     else
       let out_start = n_wires c - n_output c
       in Inr (c\<lparr>output_wires := map (\<lambda>i. ucast (out_start + word_of_nat i))
                   [0..<unat (n_output c)]\<rparr>))"

definition load_bristol :: "string option \<Rightarrow> Circuit result" where
  "load_bristol contents =
    (case contents of
       None \<Rightarrow> Inl (runtime_error ''cannot open circuit'')
     | Some s \<Rightarrow>
         bind_result (read_header s) (\<lambda>(c, no, inp).
         bind_result (fold_result parse_line c (if snd inp then lines_of (fst inp) else [])) (\<lambda>c.
         finish_circuit no c)))"

section \<open>What a loaded circuit satisfies\<close>

lemma parse_line_counts:
  assumes "parse_line c line = Inr c'"
  shows "n_gates c' = n_gates c \<and> n_wires c' = n_wires c \<and> n_input0 c' = n_input0 c \<and>
    n_input1 c' = n_input1 c \<and> n_output c' = n_output c \<and>
    (\<exists>new. gates c' = gates c @ new \<and>
      n_and c' = n_and c + word_of_nat (length (filter (\<lambda>g. gate_type g = AND_gate) new)) \<and>
      n_xor c' = n_xor c + word_of_nat (length (filter (\<lambda>g. gate_type g \<noteq> AND_gate) new)))"
  using assms
  by (auto simp: parse_line_def binary_gate_def unary_gate_def Let_def split_beta split: if_splits)

lemma parse_lines_counts:
  assumes "fold_result parse_line c ls = Inr c'"
  shows "n_gates c' = n_gates c \<and> n_wires c' = n_wires c \<and> n_input0 c' = n_input0 c \<and>
    n_input1 c' = n_input1 c \<and> n_output c' = n_output c \<and>
    (\<exists>new. gates c' = gates c @ new \<and>
      n_and c' = n_and c + word_of_nat (length (filter (\<lambda>g. gate_type g = AND_gate) new)) \<and>
      n_xor c' = n_xor c + word_of_nat (length (filter (\<lambda>g. gate_type g \<noteq> AND_gate) new)))"
  using assms
proof (induction ls arbitrary: c)
  case Nil
  then show ?case by (auto intro: exI [of _ "[]"])
next
  case (Cons l ls)
  then obtain c1 where c1: "parse_line c l = Inr c1" and rest: "fold_result parse_line c1 ls = Inr c'"
    by (auto simp: bind_result_Inr_iff)
  obtain new1 where "gates c1 = gates c @ new1"
      "n_and c1 = n_and c + word_of_nat (length (filter (\<lambda>g. gate_type g = AND_gate) new1))"
      "n_xor c1 = n_xor c + word_of_nat (length (filter (\<lambda>g. gate_type g \<noteq> AND_gate) new1))"
    using parse_line_counts [OF c1] by blast
  moreover obtain new2 where "gates c' = gates c1 @ new2"
      "n_and c' = n_and c1 + word_of_nat (length (filter (\<lambda>g. gate_type g = AND_gate) new2))"
      "n_xor c' = n_xor c1 + word_of_nat (length (filter (\<lambda>g. gate_type g \<noteq> AND_gate) new2))"
    using Cons.IH [OF rest] by blast
  ultimately show ?case
    using parse_line_counts [OF c1] Cons.IH [OF rest] by (auto intro!: exI [of _ "new1 @ new2"])
qed

text \<open>
  A file that loads has consistent counts: the announced number of gates was read, \<^verbatim>\<open>n_and\<close>
  and \<^verbatim>\<open>n_xor\<close> count its gates by kind (inverters with the exclusive ors), and the output wires
  are the last \<^verbatim>\<open>n_output\<close> wire numbers, in order.
\<close>

theorem load_bristol_counts:
  assumes "load_bristol contents = Inr c"
  shows "length (gates c) mod 2 ^ 64 = unat (n_gates c) \<and>
    n_and c = word_of_nat (length (filter (\<lambda>g. gate_type g = AND_gate) (gates c))) \<and>
    n_xor c = word_of_nat (length (filter (\<lambda>g. gate_type g \<noteq> AND_gate) (gates c))) \<and>
    output_wires c = map (\<lambda>i. ucast (n_wires c - n_output c + word_of_nat i)) [0..<unat (n_output c)]"
proof -
  obtain s where fs: "contents = Some s" using assms by (cases contents) (simp_all add: load_bristol_def)
  obtain c0 no inp c1 where h: "read_header s = Inr (c0, no, inp)"
    and f: "fold_result parse_line c0 (if snd inp then lines_of (fst inp) else []) = Inr c1"
    and e: "finish_circuit no c1 = Inr c"
    using assms by (auto simp: load_bristol_def fs bind_result_Inr_iff)
  have "gates c0 = []" "n_and c0 = 0" "n_xor c0 = 0"
    using h by (auto simp: read_header_def Let_def split_beta split: if_splits)
  with parse_lines_counts [OF f] have
    "n_and c1 = word_of_nat (length (filter (\<lambda>g. gate_type g = AND_gate) (gates c1)))"
    "n_xor c1 = word_of_nat (length (filter (\<lambda>g. gate_type g \<noteq> AND_gate) (gates c1)))"
    by auto
  moreover have "c = c1\<lparr>output_wires := map (\<lambda>i. ucast (n_wires c1 - n_output c1 + word_of_nat i))
      [0..<unat (n_output c1)]\<rparr>" "word_of_nat (length (gates c1)) = n_gates c1"
    using e by (auto simp: finish_circuit_def Let_def split: if_splits)
  moreover have "unat (word_of_nat (length (gates c1)) :: u64) = length (gates c1) mod 2 ^ 64"
    by (simp add: unat_of_nat)
  ultimately show ?thesis by simp
qed

section \<open>Printing and reading back\<close>

definition digit :: "nat \<Rightarrow> char" where
  "digit n = char_of (48 + n)"

function dec :: "nat \<Rightarrow> string" where
  "dec n = (if n < 10 then [digit n] else dec (n div 10) @ [digit (n mod 10)])"
  by pat_completeness auto
termination by (relation "measure id") auto

declare dec.simps [simp del]

lemma of_char_digit: "n < 10 \<Longrightarrow> (of_char (digit n) :: nat) = 48 + n"
  by (simp add: digit_def)

lemma is_digit_digit: "n < 10 \<Longrightarrow> is_digit (digit n)"
  by (simp add: is_digit_def of_char_digit)

lemma dec_digits: "list_all is_digit (dec n)"
  by (induction n rule: dec.induct) (subst dec.simps, simp add: is_digit_digit)

lemma dec_ne: "dec n \<noteq> []"
  by (subst dec.simps) simp

lemma digits_value_dec: "digits_value (dec n) = n"
proof (induction n rule: dec.induct)
  case (1 n)
  show ?case
  proof (cases "n < 10")
    case True
    then show ?thesis by (subst dec.simps) (simp add: digits_value_def of_char_digit)
  next
    case False
    then have "digits_value (dec n) = 10 * digits_value (dec (n div 10)) + n mod 10"
      by (subst dec.simps) (simp add: digits_value_def of_char_digit)
    then show ?thesis using 1 False by simp
  qed
qed

definition ends_number :: "string \<Rightarrow> bool" where
  "ends_number s \<longleftrightarrow> s = [] \<or> \<not> is_digit (hd s)"

lemma takeWhile_all: "list_all P xs \<Longrightarrow> takeWhile P (xs @ ys) = xs @ takeWhile P ys"
  by (induction xs) auto

lemma dropWhile_all: "list_all P xs \<Longrightarrow> dropWhile P (xs @ ys) = dropWhile P ys"
  by (induction xs) auto

lemma digit_no_space: "is_digit c \<Longrightarrow> \<not> is_space c \<and> c \<noteq> CHR ''-'' \<and> c \<noteq> CHR ''+''"
  by (auto simp: is_digit_def is_space_def)

lemma extract_dec:
  assumes "list_all is_space ws" "ends_number rest"
  shows "take_sign (dropWhile is_space (ws @ dec n @ rest)) = (False, dec n @ rest)" "takeWhile is_digit (dec n @ rest) = dec n"
    "dropWhile is_digit (dec n @ rest) = rest"
proof -
  obtain d ds where d: "dec n = d # ds" using dec_ne by (cases "dec n") auto
  then have "is_digit d" using dec_digits [of n] by simp
  from digit_no_space [OF this] have "dropWhile is_space (ws @ dec n @ rest) = dec n @ rest"
    unfolding dropWhile_all [OF assms(1)] by (simp add: d)
  then show "take_sign (dropWhile is_space (ws @ dec n @ rest)) = (False, dec n @ rest)"
    using digit_no_space [OF \<open>is_digit d\<close>] by (simp add: take_sign_def d)
  have e: "takeWhile is_digit rest = []" "dropWhile is_digit rest = rest"
    using assms(2) by (cases rest; simp add: ends_number_def)+
  show "takeWhile is_digit (dec n @ rest) = dec n" "dropWhile is_digit (dec n @ rest) = rest"
    by (simp_all add: takeWhile_all [OF dec_digits] dropWhile_all [OF dec_digits] e)
qed

lemma get_unsigned_dec:
  assumes "list_all is_space ws" "ends_number rest" "n < 2 ^ w"
  shows "get_unsigned w (ws @ dec n @ rest, True) = (n, (rest, True))"
  using assms(3) dec_ne
  by (simp add: get_unsigned_def extract_dec [OF assms(1,2)] digits_value_dec)

lemma get_int_dec:
  assumes "list_all is_space ws" "ends_number rest" "n < 2 ^ 31"
  shows "get_int (ws @ dec n @ rest, True) = (int n, (rest, True))"
proof -
  have "int n < 2 ^ 31" using assms(3) by simp
  then show ?thesis using dec_ne
    by (simp add: get_int_def extract_dec [OF assms(1,2)] digits_value_dec)
qed

lemma get_word_at:
  assumes "list_all is_space ws" "t \<noteq> []" "list_all (Not \<circ> is_space) t" "rest = [] \<or> is_space (hd rest)"
  shows "get_word (ws @ t @ rest, True) = (t, (rest, True))"
proof -
  obtain c u where t: "t = c # u" using assms(2) by (cases t) auto
  have "dropWhile is_space (ws @ t @ rest) = t @ rest"
    using assms(3) unfolding dropWhile_all [OF assms(1)] by (simp add: t)
  moreover have "takeWhile (Not \<circ> is_space) rest = []" "dropWhile (Not \<circ> is_space) rest = rest"
    using assms(4) by (cases rest; simp)+
  ultimately show ?thesis
    using assms(2) takeWhile_all [OF assms(3), of rest] dropWhile_all [OF assms(3), of rest]
    by (simp add: get_word_def)
qed

text \<open>A circuit in Bristol format, as the circuit files of the repository are written.\<close>

definition print_gate :: "Gate \<Rightarrow> string" where
  "print_gate g =
    (case gate_type g of
       INV_gate \<Rightarrow> dec 1 @ '' '' @ dec 1 @ '' '' @ dec (unat (in0 g)) @ '' '' @ dec (unat (gate_out g)) @ '' INV''
     | XOR_gate \<Rightarrow> dec 2 @ '' '' @ dec 1 @ '' '' @ dec (unat (in0 g)) @ '' '' @ dec (unat (in1 g)) @ '' '' @
                  dec (unat (gate_out g)) @ '' XOR''
     | AND_gate \<Rightarrow> dec 2 @ '' '' @ dec 1 @ '' '' @ dec (unat (in0 g)) @ '' '' @ dec (unat (in1 g)) @ '' '' @
                  dec (unat (gate_out g)) @ '' AND'')"

definition print_lines :: "string list \<Rightarrow> string" where
  "print_lines ls = concat (map (\<lambda>l. l @ [newline]) ls)"

definition print_bristol :: "Circuit \<Rightarrow> string" where
  "print_bristol c =
    dec (unat (n_gates c)) @ '' '' @ dec (unat (n_wires c)) @ [newline] @
    dec 2 @ '' '' @ dec (unat (n_input0 c)) @ '' '' @ dec (unat (n_input1 c)) @ [newline] @
    dec 1 @ '' '' @ dec (unat (n_output c)) @ [newline] @ print_lines (map print_gate (gates c))"

text \<open>Circuits that a file can describe: consistent counts, one input repeated on inverters.\<close>

definition bristol_ok :: "Circuit \<Rightarrow> bool" where
  "bristol_ok c \<longleftrightarrow>
    length (gates c) = unat (n_gates c) \<and> unat (n_gates c) < 2 ^ 59 \<and> unat (n_output c) < 2 ^ 61 \<and>
    list_all (\<lambda>g. gate_type g = INV_gate \<longrightarrow> in1 g = in0 g) (gates c) \<and>
    n_and c = word_of_nat (length (filter (\<lambda>g. gate_type g = AND_gate) (gates c))) \<and>
    n_xor c = word_of_nat (length (filter (\<lambda>g. gate_type g \<noteq> AND_gate) (gates c))) \<and>
    output_wires c = map (\<lambda>i. ucast (n_wires c - n_output c + word_of_nat i)) [0..<unat (n_output c)]"

lemma ends_number_simps [simp]:
  "ends_number []" "ends_number (CHR '' '' # s)" "ends_number (newline # s)"
  by (simp_all add: ends_number_def is_digit_def newline_def)

lemma is_space_simps [simp]: "is_space CHR '' ''" "is_space newline"
  by (simp_all add: is_space_def newline_def)

lemma get_next:
  "ends_number rest \<Longrightarrow> n < 2 ^ w \<Longrightarrow> get_unsigned w (dec n @ rest, True) = (n, (rest, True))"
  "ends_number rest \<Longrightarrow> n < 2 ^ w \<Longrightarrow> is_space c \<Longrightarrow>
    get_unsigned w (c # dec n @ rest, True) = (n, (rest, True))"
  "ends_number rest \<Longrightarrow> k < 2 ^ 31 \<Longrightarrow> get_int (dec k @ rest, True) = (int k, (rest, True))"
  "ends_number rest \<Longrightarrow> k < 2 ^ 31 \<Longrightarrow> is_space c \<Longrightarrow>
    get_int (c # dec k @ rest, True) = (int k, (rest, True))"
  using get_unsigned_dec [of "[]" rest n w] get_unsigned_dec [of "[c]" rest n w]
    get_int_dec [of "[]" rest k] get_int_dec [of "[c]" rest k]
  by simp_all

lemma get_name: "t \<in> {''XOR'', ''AND'', ''INV''} \<Longrightarrow> get_word (CHR '' '' # t, True) = (t, ([], True))"
  using get_word_at [of "'' ''" t "[]"] by (auto simp: is_space_def)

lemma unat_u32: "unat (w :: u32) < 2 ^ 32"
proof -
  have "unat w < 2 ^ LENGTH(32)" by (rule unsigned_less)
  then show ?thesis by simp
qed

lemma unat_u64: "unat (w :: u64) < 2 ^ 64"
proof -
  have "unat w < 2 ^ LENGTH(64)" by (rule unsigned_less)
  then show ?thesis by simp
qed

definition add_gate :: "Circuit \<Rightarrow> Gate \<Rightarrow> Circuit" where
  "add_gate c g =
    (if gate_type g = AND_gate then c\<lparr>gates := gates c @ [g], n_and := n_and c + 1\<rparr>
     else c\<lparr>gates := gates c @ [g], n_xor := n_xor c + 1\<rparr>)"

lemma print_gate_digit: "\<exists>d r. print_gate g = d # r \<and> is_digit d"
proof -
  have "\<exists>d r. dec n @ s = d # r \<and> is_digit d" for n s
    using dec_ne [of n] dec_digits [of n] by (cases "dec n") auto
  then show ?thesis by (auto simp: print_gate_def split: GateType.split)
qed

lemma parse_print_gate:
  assumes "gate_type g = INV_gate \<longrightarrow> in1 g = in0 g"
  shows "parse_line c (print_gate g) = Inr (add_gate c g)"
proof -
  obtain d r where d: "print_gate g = d # r" "is_digit d" using print_gate_digit by blast
  then have start: "\<not> (print_gate g = [] \<or> hd (print_gate g) = CHR ''#'')"
    by (auto simp: is_digit_def)
  have small: "(1::nat) < 2 ^ 31" "(2::nat) < 2 ^ 31" by simp_all
  show ?thesis
  proof (cases "gate_type g")
    case XOR_gate
    then show ?thesis
      using start small unat_u32
      by (cases g) (simp add: parse_line_def print_gate_def get_next get_name binary_gate_def add_gate_def)
  next
    case AND_gate
    then show ?thesis
      using start small unat_u32
      by (cases g) (simp add: parse_line_def print_gate_def get_next get_name binary_gate_def add_gate_def)
  next
    case INV_gate
    then show ?thesis
      using start small unat_u32 assms
      by (cases g) (simp add: parse_line_def print_gate_def get_next get_name unary_gate_def add_gate_def)
  qed
qed

lemma print_gate_no_newline: "list_all ((\<noteq>) newline) (print_gate g)"
proof -
  have "list_all ((\<noteq>) newline) (dec n)" for n
    using dec_digits [of n] by (auto simp: list_all_iff is_digit_def newline_def)
  then show ?thesis by (simp add: print_gate_def newline_def split: GateType.split)
qed

lemma lines_of_print: "list_all (list_all ((\<noteq>) newline)) ls \<Longrightarrow> lines_of (print_lines ls) = ls"
proof (induction ls)
  case Nil
  then show ?case by (simp add: print_lines_def lines_of.simps)
next
  case (Cons l ls)
  let ?s = "l @ newline # print_lines ls"
  have l: "takeWhile ((\<noteq>) newline) ?s = l" "dropWhile ((\<noteq>) newline) ?s = newline # print_lines ls"
    using Cons.prems by (simp_all add: takeWhile_all dropWhile_all)
  have "lines_of ?s = l # lines_of (print_lines ls)"
    by (subst lines_of.simps) (simp add: l)
  then show ?case using Cons by (simp add: print_lines_def)
qed

lemma parse_gates:
  assumes "list_all (\<lambda>g. gate_type g = INV_gate \<longrightarrow> in1 g = in0 g) gs"
  shows "fold_result parse_line c (map print_gate gs) =
    Inr (c\<lparr>gates := gates c @ gs,
           n_and := n_and c + word_of_nat (length (filter (\<lambda>g. gate_type g = AND_gate) gs)),
           n_xor := n_xor c + word_of_nat (length (filter (\<lambda>g. gate_type g \<noteq> AND_gate) gs))\<rparr>)"
  using assms
  by (induction gs arbitrary: c) (simp_all add: parse_print_gate add_gate_def)

lemma load_print:
  assumes "bristol_ok c"
  shows "load_bristol (Some (print_bristol c)) = Inr c"
proof -
  let ?c0 = "\<lparr>n_gates = n_gates c, n_wires = n_wires c, n_input0 = n_input0 c, n_input1 = n_input1 c,
      n_output = n_output c, n_and = 0, n_xor = 0, gates = [], output_wires = []\<rparr>"
  let ?body = "print_lines (map print_gate (gates c))"
  have line: "getline (newline # ?body, True) = ([], (?body, True))"
    by (simp add: getline_def)
  have small: "(1::nat) < 2 ^ 64" "(2::nat) < 2 ^ 64" by simp_all
  have "read_header (print_bristol c) = Inr (?c0, unat (n_output c), (?body, True))"
    using assms small unat_u64
    by (simp add: read_header_def print_bristol_def get_next line bristol_ok_def)
  moreover have "fold_result parse_line ?c0 (lines_of ?body) = Inr (?c0\<lparr>gates := gates c,
      n_and := n_and c, n_xor := n_xor c\<rparr>)"
  proof -
    have "list_all (list_all ((\<noteq>) newline)) (map print_gate (gates c))"
      using print_gate_no_newline by (simp add: list_all_iff)
    then show ?thesis
      using assms by (simp add: lines_of_print parse_gates bristol_ok_def)
  qed
  moreover have "finish_circuit (unat (n_output c)) (?c0\<lparr>gates := gates c, n_and := n_and c, n_xor := n_xor c\<rparr>) = Inr c"
    using assms by (cases c) (simp add: finish_circuit_def bristol_ok_def Let_def)
  ultimately show ?thesis by (simp add: load_bristol_def)
qed

text \<open>
  C26.  Round trip of the circuit format.  Every circuit with consistent counts, printed in Bristol
  format, loads back to itself.
\<close>

theorem load_print_bristol:
  assumes "bristol_ok c"
  shows "load_bristol (Some (print_bristol c)) = Inr c"
  using assms by (rule load_print)

lemma bristol_ok_example: "bristol_ok xor_and_inv_circuit"
  by (simp add: bristol_ok_def xor_and_inv_circuit_def)

lemma load_print_bristol_witness:
  "load_bristol (Some (print_bristol xor_and_inv_circuit)) = Inr xor_and_inv_circuit"
  by (rule load_print_bristol [OF bristol_ok_example])

lemma load_bristol_counts_witness:
  "\<exists>c. load_bristol (Some (print_bristol xor_and_inv_circuit)) = Inr c \<and> n_and c = 1 \<and> n_xor c = 2"
  using load_bristol_counts [OF load_print [OF bristol_ok_example]] load_print [OF bristol_ok_example]
  by (simp add: xor_and_inv_circuit_def)

text \<open>
  The loader does not check wire numbers.  A file whose first gate reads a wire at or beyond the
  announced number of wires loads without error, and evaluating the loaded circuit on inputs of
  the announced size reads outside the wire vector.
\<close>

theorem load_bristol_unchecked_wire:
  assumes "bristol_ok c" "gates c = g # gs" "n_wires c \<le> ucast (in0 g)"
    and "n_inputs c \<le> unat (n_wires c)" "length bits = n_inputs c"
  shows "load_bristol (Some (print_bristol c)) = Inr c \<and>
    eval_circuit_plain c bits = Inl undefined_access"
proof
  show "load_bristol (Some (print_bristol c)) = Inr c" by (rule load_print [OF assms(1)])
  have n: "unat (n_input0 c + n_input1 c) = n_inputs c"
    using assms(4) unat_u64 [of "n_wires c"] by (simp add: n_inputs_def unat_word_ariths)
  have "unat (n_wires c) \<le> unat (ucast (in0 g) :: u64)" using assms(3) by (simp add: word_le_nat_alt)
  also have "\<dots> = unat (in0 g)"
    using unat_u32 [of "in0 g"] by (simp add: unsigned_ucast_eq take_bit_nat_eq_self)
  finally have "plain_gate w g = Inl undefined_access" if "length w = unat (n_wires c)" for w
    using that by (simp add: plain_gate_def vec_read_def)
  moreover have "fold_result (\<lambda>w i. vec_write w i (bits ! i AND 1)) (replicate (unat (n_wires c)) 0)
      [0..<length bits] = Inr (map (\<lambda>i. bits ! i AND 1) [0..<length bits] @
        replicate (unat (n_wires c) - length bits) 0)"
    using fold_result_fill [of "length bits" "replicate (unat (n_wires c)) 0" "\<lambda>i. bits ! i AND 1"]
      assms(4,5) by simp
  ultimately show "eval_circuit_plain c bits = Inl undefined_access"
    using assms(2,4,5) by (simp add: eval_circuit_plain_def n)
qed

text \<open>The exclusive or of wires 7 and 1 of a three-wire circuit.\<close>

definition unchecked_circuit :: Circuit where
  "unchecked_circuit =
    \<lparr>n_gates = 1, n_wires = 3, n_input0 = 1, n_input1 = 1, n_output = 1, n_and = 0, n_xor = 1,
     gates = [\<lparr>gate_type = XOR_gate, in0 = 7, in1 = 1, gate_out = 2\<rparr>], output_wires = [2]\<rparr>"

lemma load_bristol_unchecked_wire_witness:
  "load_bristol (Some (print_bristol unchecked_circuit)) = Inr unchecked_circuit \<and>
   eval_circuit_plain unchecked_circuit [1, 1] = Inl undefined_access"
  by (rule load_bristol_unchecked_wire [where gs = "[]" and
        g = "\<lparr>gate_type = XOR_gate, in0 = 7, in1 = 1, gate_out = 2\<rparr>"])
    (simp_all add: unchecked_circuit_def bristol_ok_def n_inputs_def)

end
