(* ===== verification/M128.thy ===== *)
theory M128
  imports Label_Algebra
begin

text \<open>
  The 128-bit register of the MP-SPDZ side of the program and \<^verbatim>\<open>class Key\<close> of
  \<^verbatim>\<open>BMR/Key.h\<close>, which wraps one.  An \<^verbatim>\<open>__m128i\<close> is the vector of its two 64-bit lanes, low
  lane first, on which \<^verbatim>\<open>+\<close> and \<^verbatim>\<open>*\<close> of the compiler's vector extension work lane by lane modulo
  \<open>2 ^ 64\<close>, an \<^verbatim>\<open>int\<close> operand being broadcast.
\<close>

type_synonym m128 = "u64 \<times> u64"

definition m128_zero :: m128 where
  "m128_zero = (0, 0)"

definition m128_add :: "m128 \<Rightarrow> m128 \<Rightarrow> m128" where
  "m128_add a b = (fst a + fst b, snd a + snd b)"

definition m128_mul :: "m128 \<Rightarrow> m128 \<Rightarrow> m128" where
  "m128_mul a b = (fst a * fst b, snd a * snd b)"

definition broadcast :: "int \<Rightarrow> m128" where
  "broadcast k = (word_of_int k, word_of_int k)"

definition m128_xor :: "m128 \<Rightarrow> m128 \<Rightarrow> m128" where
  "m128_xor a b = (fst a XOR fst b, snd a XOR snd b)"

definition m128_and :: "m128 \<Rightarrow> m128 \<Rightarrow> m128" where
  "m128_and a b = (fst a AND fst b, snd a AND snd b)"

definition m128_not :: "m128 \<Rightarrow> m128" where
  "m128_not a = (NOT (fst a), NOT (snd a))"

text \<open>\<^verbatim>\<open>_mm_setr_epi32(1, 0, 0, 0)\<close>.\<close>

definition m128_one :: m128 where
  "m128_one = (1, 0)"

section \<open>Keys\<close>

text \<open>\<^verbatim>\<open>Key(long long)\<close> is \<^verbatim>\<open>_mm_cvtsi64_si128\<close>: the low lane, the high lane zero.\<close>

definition Key_of :: "u64 \<Rightarrow> m128" where
  "Key_of a = (a, 0)"

definition get_signal :: "m128 \<Rightarrow> bool" where
  "get_signal k \<longleftrightarrow> fst k AND 1 \<noteq> 0"

definition set_signal :: "bool \<Rightarrow> m128 \<Rightarrow> m128" where
  "set_signal signal k =
    (let r = m128_and k (m128_not (Key_of 1))
     in m128_xor r (Key_of (if signal then 1 else 0)))"

text \<open>Not a doubling in a field: each lane is shifted on its own, and its top bits are lost.\<close>

definition doubling :: "nat \<Rightarrow> m128 \<Rightarrow> m128" where
  "doubling i k = (push_bit i (fst k), push_bit i (snd k))"

section \<open>Keys are a label algebra\<close>

lemma m128_xor_assoc: "m128_xor (m128_xor a b) c = m128_xor a (m128_xor b c)"
  by (simp add: m128_xor_def xor.assoc)

lemma m128_xor_commute: "m128_xor a b = m128_xor b a"
  by (simp add: m128_xor_def xor.commute)

lemma m128_xor_left_commute: "m128_xor a (m128_xor b c) = m128_xor b (m128_xor a c)"
  by (simp add: m128_xor_def xor.left_commute)

lemmas m128_xor_ac [xor_ac] = m128_xor_assoc m128_xor_commute m128_xor_left_commute

lemma m128_xor_self [simp]: "m128_xor a a = m128_zero"
  by (simp add: m128_xor_def m128_zero_def)

lemma m128_xor_zero [simp]: "m128_xor m128_zero a = a" "m128_xor a m128_zero = a"
  by (simp_all add: m128_xor_def m128_zero_def)

lemma m128_xor_left_cancel [simp]: "m128_xor a (m128_xor a b) = b"
  by (simp add: m128_xor_def)

lemma m128_xor_cancel [simp]: "m128_xor (m128_xor a b) b = a"
  by (simp add: m128_xor_def xor.assoc)

lemma get_signal_bit: "get_signal k \<longleftrightarrow> bit (fst k) 0"
  by (simp add: get_signal_def bit_0 and_one_eq odd_iff_mod_2_eq_one)

lemma get_signal_xor [simp]: "get_signal (m128_xor a b) \<longleftrightarrow> get_signal a \<noteq> get_signal b"
  by (simp add: get_signal_bit m128_xor_def bit_xor_iff)

lemma get_signal_zero [simp]: "\<not> get_signal m128_zero"
  by (simp add: get_signal_def m128_zero_def)

lemma get_set_signal [simp]: "get_signal (set_signal b k) \<longleftrightarrow> b"
  by (simp add: get_signal_bit set_signal_def m128_xor_def m128_and_def m128_not_def Key_of_def
      Let_def bit_xor_iff bit_and_iff bit_not_iff bit_1_iff)

lemma set_signal_lanes:
  "bit (fst (set_signal b k)) n \<longleftrightarrow> n < 64 \<and> (if n = 0 then b else bit (fst k) n)"
  "snd (set_signal b k) = snd k"
  by (auto simp: set_signal_def m128_xor_def m128_and_def m128_not_def Key_of_def Let_def
      bit_xor_iff bit_and_iff bit_not_iff bit_1_iff dest: bit_imp_le_length)

lemma m128_eqI:
  "(\<And>n. n < 64 \<Longrightarrow> bit (fst a) n = bit (fst b) n) \<Longrightarrow> snd a = snd b \<Longrightarrow> a = (b :: m128)"
  by (cases a; cases b) (auto intro: bit_word_eqI)

lemma set_signal_id [simp]: "get_signal k = b \<Longrightarrow> set_signal b k = k"
  by (rule m128_eqI) (auto simp: set_signal_lanes get_signal_bit)

lemma set_signal_xor:
  "m128_xor (set_signal False a) (set_signal False b) = set_signal False (m128_xor a b)"
  by (rule m128_eqI) (auto simp: set_signal_lanes m128_xor_def bit_xor_iff)

lemma doubling_xor: "doubling i (m128_xor a b) = m128_xor (doubling i a) (doubling i b)"
  by (simp add: doubling_def m128_xor_def push_bit_xor)

lemma doubling_zero [simp]: "doubling i m128_zero = m128_zero"
  by (simp add: doubling_def m128_zero_def)

interpretation key_label: label_algebra "\<lambda>_. True" m128_xor m128_zero get_signal
  by unfold_locales (simp_all add: m128_xor_ac)

end
