(* ===== verification/M128_Bytes.thy ===== *)
theory M128_Bytes
  imports M128 Ser
begin

text \<open>
  128-bit registers as the 16 bytes of memory that \<^verbatim>\<open>_mm_storeu_si128\<close> writes and \<^verbatim>\<open>_mm_loadu_si128\<close>
  reads, low byte first, and their bits by number.
\<close>

section \<open>Registers and bytes\<close>

definition storeu :: "m128 \<Rightarrow> u8 list" where
  "storeu a = u64_bytes (fst a) @ u64_bytes (snd a)"

definition loadu :: "u8 list \<Rightarrow> m128" where
  "loadu bs =
    (foldl (\<lambda>x i. x OR push_bit (8 * i) (ucast (bs ! i))) 0 [0..<8],
     foldl (\<lambda>x i. x OR push_bit (8 * i) (ucast (bs ! (8 + i)))) 0 [0..<8])"

lemma length_storeu [simp]: "length (storeu a) = 16"
  by (simp add: storeu_def)

lemma loadu_storeu: "loadu (storeu a @ rest) = a"
proof -
  have "foldl (\<lambda>x i. x OR push_bit (8 * i) (ucast ((storeu a @ rest) ! i))) (0 :: u64) [0..<8] =
      foldl (\<lambda>x i. x OR push_bit (8 * i) (ucast (u64_bytes (fst a) ! i))) 0 [0..<8]"
    by (rule foldl_cong) (auto simp: storeu_def nth_append)
  moreover have "foldl (\<lambda>x i. x OR push_bit (8 * i) (ucast ((storeu a @ rest) ! (8 + i)))) (0 :: u64) [0..<8] =
      foldl (\<lambda>x i. x OR push_bit (8 * i) (ucast (u64_bytes (snd a) ! i))) 0 [0..<8]"
    by (rule foldl_cong) (auto simp: storeu_def nth_append)
  ultimately show ?thesis by (simp only: loadu_def u64_join) simp
qed

section \<open>Bits\<close>

definition m128_bit :: "m128 \<Rightarrow> nat \<Rightarrow> bool" where
  "m128_bit a n = (if n < 64 then bit (fst a) n else bit (snd a) (n - 64))"

lemma m128_bit_xor: "m128_bit (m128_xor a b) n \<longleftrightarrow> m128_bit a n \<noteq> m128_bit b n"
  by (simp add: m128_bit_def m128_xor_def bit_xor_iff)

lemma m128_bit_zero [simp]: "\<not> m128_bit m128_zero n"
  by (simp add: m128_bit_def m128_zero_def)

lemma m128_bit_eqI: "(\<And>n. n < 128 \<Longrightarrow> m128_bit a n = m128_bit b n) \<Longrightarrow> a = b"
proof (cases a; cases b)
  fix a0 a1 b0 b1 assume *: "\<And>n. n < 128 \<Longrightarrow> m128_bit a n = m128_bit b n" "a = (a0, a1)" "b = (b0, b1)"
  have "a0 = b0"
  proof (rule bit_word_eqI)
    fix n assume "n < LENGTH(64)"
    then show "bit a0 n = bit b0 n" using *(1) [of n] by (simp add: m128_bit_def *(2,3))
  qed
  moreover have "a1 = b1"
  proof (rule bit_word_eqI)
    fix n assume "n < LENGTH(64)"
    then show "bit a1 n = bit b1 n" using *(1) [of "n + 64"] by (simp add: m128_bit_def *(2,3))
  qed
  ultimately show "a = b" by (simp add: *)
qed

text \<open>The lane of eight bytes.\<close>

definition le_lane :: "u8 list \<Rightarrow> u64" where
  "le_lane bs = foldl (\<lambda>x i. x OR push_bit (8 * i) (ucast (bs ! i))) 0 [0..<8]"

lemma bit_le_lane:
  assumes "n < 64"
  shows "bit (le_lane bs) n \<longleftrightarrow> bit (bs ! (n div 8)) (n mod 8)"
proof -
  have "bit (foldl (\<lambda>x i. x OR push_bit (8 * i) (ucast (bs ! i))) (0 :: u64) [0..<k]) n \<longleftrightarrow>
      n div 8 < k \<and> bit (bs ! (n div 8)) (n mod 8)" for k
  proof (induction k)
    case (Suc k)
    have "bit (push_bit (8 * k) (ucast (bs ! k)) :: u64) n \<longleftrightarrow> n div 8 = k \<and> bit (bs ! k) (n mod 8)"
    proof (cases "n div 8 = k")
      case True
      then have "8 * k \<le> n" "n - 8 * k = n mod 8"
        using minus_mult_div_eq_mod [of n 8] times_div_less_eq_dividend [of 8 n] by simp_all
      moreover have "n mod 8 < 64" by (rule less_trans [of _ 8]) simp_all
      ultimately show ?thesis using assms True by (simp add: bit_simps)
    next
      case False
      have "\<not> bit (bs ! k) (n - 8 * k)" if "8 * k \<le> n"
        using that False by (intro impossible_bit) (auto simp: possible_bit_def)
      then show ?thesis using False by (auto simp: bit_simps)
    qed
    then show ?case using Suc by (auto simp: bit_or_iff less_Suc_eq)
  qed simp
  then show ?thesis using assms unfolding le_lane_def by (auto simp: div_less_iff_less_mult)
qed

lemma loadu_lanes: "loadu bs = (le_lane bs, le_lane (drop 8 bs))" if "16 \<le> length bs"
proof -
  have "foldl (\<lambda>x i. x OR push_bit (8 * i) (ucast (bs ! (8 + i)))) (0 :: u64) [0..<8] = le_lane (drop 8 bs)"
    unfolding le_lane_def by (rule foldl_cong) (use that in auto)
  then show ?thesis by (simp add: loadu_def le_lane_def)
qed

lemma bit_loadu:
  assumes "16 \<le> length bs" "n < 128"
  shows "m128_bit (loadu bs) n \<longleftrightarrow> bit (bs ! (n div 8)) (n mod 8)"
proof (cases "n < 64")
  case False
  then have "(n - 64) div 8 = n div 8 - 8" "(n - 64) mod 8 = n mod 8" "8 \<le> n div 8"
    by (auto simp: mod_nat_eqI le_mod_geq)
  then show ?thesis using assms False by (simp add: m128_bit_def loadu_lanes bit_le_lane)
qed (use assms in \<open>simp add: m128_bit_def loadu_lanes bit_le_lane\<close>)

lemma loadu_storeu': "loadu (storeu a) = a"
  using loadu_storeu [of a "[]"] by simp

lemma bit_storeu: "n < 128 \<Longrightarrow> bit (storeu a ! (n div 8)) (n mod 8) \<longleftrightarrow> m128_bit a n"
  using bit_loadu [of "storeu a" n] by (simp add: loadu_storeu')

end
