(* ===== verification/PPSS.thy ===== *)
theory PPSS
  imports M128_Bytes "HOL-Library.Signed_Division"
begin

text \<open>
  The password-protected secret sharing built into \<^verbatim>\<open>YaoEvaluator::run\<close>
  (\<^verbatim>\<open>YaoEvaluator.init.cpp\<close>, \<^verbatim>\<open>YaoEvaluator.reconstruct.cpp\<close>): sharing, masking with the OPRF
  values, commitment, and reconstruction.  \<^verbatim>\<open>crypto_hash_sha256\<close> is libsodium's: \<open>sha\<close>.
\<close>

section \<open>Sharing\<close>

text \<open>The abscissas: \<^verbatim>\<open>points[0] = 0\<close>, \<^verbatim>\<open>points[j + 1] = j + 1\<close>.\<close>

definition points :: "nat \<Rightarrow> int list" where
  "points n = map int [0..<n + 1]"

text \<open>
  The inner loop \<^verbatim>\<open>shares[j] += coef[i] * (points[j]^i)\<close>; in C++ \<^verbatim>\<open>^\<close> is the exclusive or.
\<close>

definition share_at :: "nat \<Rightarrow> nat \<Rightarrow> m128 list \<Rightarrow> nat \<Rightarrow> m128" where
  "share_at t n coef j =
    foldl (\<lambda>acc i. m128_add acc (m128_mul (coef ! i) (broadcast (points n ! j XOR int i))))
      m128_zero [0..<t + 1]"

definition make_shares :: "nat \<Rightarrow> nat \<Rightarrow> m128 list \<Rightarrow> m128 list" where
  "make_shares t n coef = (coef ! 0) # map (share_at t n coef) [1..<n + 1]"

section \<open>OPRF masks and commitment\<close>

text \<open>\<open>\<rho>\<close> of server \<open>j\<close>: the first half of the digest of the circuit's input and output.\<close>

definition oprf_128 :: "(u8 list \<Rightarrow> u8 list) \<Rightarrow> m128 \<Rightarrow> m128 \<Rightarrow> m128" where
  "oprf_128 sha gc_in gc_out = loadu (sha (storeu gc_in @ storeu gc_out))"

text \<open>\<open>H'(s)\<close> parsed as \<open>[r || K]\<close>.\<close>

definition parse_H :: "(u8 list \<Rightarrow> u8 list) \<Rightarrow> m128 \<Rightarrow> u8 list \<times> u8 list" where
  "parse_H sha secret =
    (let H_s = sha (storeu secret) in (take 16 H_s, take 16 (drop 16 H_s)))"

text \<open>The commitment input \<open>pw, e_1 .. e_n, s_1 .. s_n, r\<close>.\<close>

definition comin :: "m128 \<Rightarrow> m128 list \<Rightarrow> m128 list \<Rightarrow> u8 list \<Rightarrow> u8 list" where
  "comin pw es ss r = storeu pw @ concat (map storeu es) @ concat (map storeu ss) @ r"

section \<open>The Init run\<close>

text \<open>
  The generator \<^verbatim>\<open>G\<close> by the values of its successive \<^verbatim>\<open>get_doubleword\<close> calls: the secret, the \<open>t\<close>
  further coefficients, the \<open>n\<close> stand-ins for the circuit outputs, the password.
\<close>

record Init_state =
  in_shares :: "m128 list"
  in_pw :: m128
  in_gc_out :: "m128 list"
  in_rho :: "m128 list"
  in_e :: "m128 list"

definition ppss_mask :: "(u8 list \<Rightarrow> u8 list) \<Rightarrow> nat \<Rightarrow> nat \<Rightarrow> (nat \<Rightarrow> m128) \<Rightarrow> Init_state" where
  "ppss_mask sha t n G =
    (let coef = map G [0..<t + 1];
         shares = make_shares t n coef;
         gc_out = map (\<lambda>j. G (t + 1 + j)) [0..<n];
         pw = G (t + 1 + n);
         rho = map (\<lambda>j. oprf_128 sha pw (gc_out ! j)) [0..<n];
         e = map (\<lambda>j. m128_xor (shares ! (j + 1)) (rho ! j)) [0..<n]
     in \<lparr>in_shares = shares, in_pw = pw, in_gc_out = gc_out, in_rho = rho, in_e = e\<rparr>)"

definition ppss_commit :: "(u8 list \<Rightarrow> u8 list) \<Rightarrow> Init_state \<Rightarrow> u8 list" where
  "ppss_commit sha st =
    (let (r, K) = parse_H sha (in_shares st ! 0)
     in sha (comin (in_pw st) (in_e st) (tl (in_shares st)) r))"

text \<open>The packet \<^verbatim>\<open>Init_pack\<close> sent to the server: \<open>e_1 .. e_n\<close> and the commitment.\<close>

definition init_pack :: "(u8 list \<Rightarrow> u8 list) \<Rightarrow> Init_state \<Rightarrow> u8 list" where
  "init_pack sha st = concat (map storeu (in_e st)) @ ppss_commit sha st"

section \<open>The reconstruction run\<close>

text \<open>\<^verbatim>\<open>res[i][target]\<close>: the product over \<open>j\<close>, each quotient an \<^verbatim>\<open>int\<close> division, rounded to zero.\<close>

definition lagrange :: "nat \<Rightarrow> nat \<Rightarrow> nat \<Rightarrow> nat \<Rightarrow> m128" where
  "lagrange t n i target =
    foldl (\<lambda>res j.
      if j \<noteq> i \<and> (target = 0 \<or> t + 1 < target)
      then m128_mul res (broadcast ((points n ! j - int target) sdiv (points n ! j - points n ! i)))
      else res) m128_one [1..<t + 2]"

definition reconstruct_at :: "nat \<Rightarrow> nat \<Rightarrow> m128 list \<Rightarrow> nat \<Rightarrow> m128" where
  "reconstruct_at t n shares target =
    foldl (\<lambda>acc i. m128_add acc (m128_mul (shares ! i) (lagrange t n i target)))
      m128_zero [1..<t + 2]"

definition reconstruct_shares :: "nat \<Rightarrow> nat \<Rightarrow> m128 list \<Rightarrow> m128 list" where
  "reconstruct_shares t n shares =
    map (\<lambda>target. if target = 0 \<or> t + 1 < target then reconstruct_at t n shares target
                  else shares ! target) [0..<n + 1]"

text \<open>
  The run after the circuit: the shares are unmasked again, reconstructed, and committed to.  The
  packet that arrives from the server is received and not used.
\<close>

definition ppss_reconstruct ::
  "(u8 list \<Rightarrow> u8 list) \<Rightarrow> nat \<Rightarrow> nat \<Rightarrow> (nat \<Rightarrow> m128) \<Rightarrow> u8 list \<Rightarrow> Init_state \<times> u8 list" where
  "ppss_reconstruct sha t n G server_pack =
    (let st = ppss_mask sha t n G;
         unmasked = (in_shares st ! 0) # map (\<lambda>j. m128_xor (in_e st ! j) (in_rho st ! j)) [0..<n];
         shares = reconstruct_shares t n unmasked;
         st = st\<lparr>in_shares := shares\<rparr>
     in (st, ppss_commit sha st))"

section \<open>Masks and packets\<close>

lemma ppss_mask_simps:
  "length (in_shares (ppss_mask sha t n G)) = n + 1"
  "length (in_e (ppss_mask sha t n G)) = n"
  "length (in_rho (ppss_mask sha t n G)) = n"
  "j < n \<Longrightarrow> in_e (ppss_mask sha t n G) ! j =
    m128_xor (in_shares (ppss_mask sha t n G) ! (j + 1)) (in_rho (ppss_mask sha t n G) ! j)"
  by (simp_all add: ppss_mask_def make_shares_def Let_def)

lemma concat_storeu_slot:
  "j < length es \<Longrightarrow> take 16 (drop (16 * j) (concat (map storeu es) @ rest)) = storeu (es ! j)"
proof (induction es arbitrary: j)
  case (Cons e es)
  then show ?case by (cases j) auto
qed simp

text \<open>
  The Init packet hides the shares under the OPRF values only.  It is \<open>16 n + 32\<close> bytes long,
  slot \<open>j\<close> exclusive-or the OPRF value \<open>\<rho>_j\<close> is share \<open>j + 1\<close>, and the last 32 bytes are the
  commitment.
\<close>

theorem init_pack_slots:
  assumes "\<forall>x. length (sha x) = 32" "j < n"
  shows "(let st = ppss_mask sha t n G in
    length (init_pack sha st) = 16 * n + 32 \<and>
    m128_xor (loadu (drop (16 * j) (init_pack sha st))) (in_rho st ! j) = in_shares st ! (j + 1) \<and>
    drop (16 * n) (init_pack sha st) = ppss_commit sha st)"
proof -
  define st where "st = ppss_mask sha t n G"
  note st = ppss_mask_simps [where sha = sha and t = t and n = n and G = G, folded st_def]
  have e: "length (in_e st) = n" by (rule st(2))
  have len: "length (concat (map storeu es)) = 16 * length es" for es by (induction es) auto
  have C: "length (ppss_commit sha st) = 32"
    using assms(1) by (simp add: ppss_commit_def split_beta)
  have "loadu (drop (16 * j) (init_pack sha st)) = in_e st ! j"
  proof -
    have "take 16 (drop (16 * j) (init_pack sha st)) = storeu (in_e st ! j)"
      unfolding init_pack_def using assms(2) e by (intro concat_storeu_slot) simp
    then have "drop (16 * j) (init_pack sha st) =
        storeu (in_e st ! j) @ drop 16 (drop (16 * j) (init_pack sha st))"
      by (metis append_take_drop_id)
    then show ?thesis by (metis loadu_storeu)
  qed
  then have "m128_xor (loadu (drop (16 * j) (init_pack sha st))) (in_rho st ! j) = in_shares st ! (j + 1)"
    using st(4) [OF assms(2)] by simp
  moreover have "length (init_pack sha st) = 16 * n + 32" "drop (16 * n) (init_pack sha st) = ppss_commit sha st"
    using C e by (simp_all add: init_pack_def len)
  ultimately show ?thesis by (simp add: Let_def flip: st_def)
qed

lemma init_pack_slots_witness:
  "length (init_pack (\<lambda>_. replicate 32 1) (ppss_mask (\<lambda>_. replicate 32 1) 2 3 (\<lambda>i. (word_of_nat i, 5)))) = 80"
  using init_pack_slots [of "\<lambda>_. replicate 32 1" 0 3 2 "\<lambda>i. (word_of_nat i, 5)"] by (simp add: Let_def)

section \<open>The shares do not determine the secret\<close>

text \<open>Flipping the highest bit of both lanes.\<close>

definition flip_top :: "m128 \<Rightarrow> m128" where
  "flip_top a = (fst a + 2 ^ 63, snd a + 2 ^ 63)"

lemma flip_top_ne: "flip_top a \<noteq> a"
  by (simp add: flip_top_def prod_eq_iff)

lemma share_at_sum:
  "share_at t n coef j =
    ((\<Sum>i \<leftarrow> [0..<t + 1]. fst (coef ! i) * word_of_int (points n ! j XOR int i)),
     (\<Sum>i \<leftarrow> [0..<t + 1]. snd (coef ! i) * word_of_int (points n ! j XOR int i)))"
proof -
  have "foldl (\<lambda>acc i. m128_add acc (m128_mul (coef ! i) (broadcast (f i)))) a is =
      (fst a + (\<Sum>i \<leftarrow> is. fst (coef ! i) * word_of_int (f i)),
       snd a + (\<Sum>i \<leftarrow> is. snd (coef ! i) * word_of_int (f i)))" for f a "is"
    by (induction "is" arbitrary: a) (simp_all add: m128_add_def m128_mul_def broadcast_def add.assoc)
  then show ?thesis unfolding share_at_def by (simp only: m128_zero_def) simp
qed

lemma top_even: "(2 :: u64) ^ 63 * word_of_int (2 * k) = 0"
proof -
  have "(2 :: u64) ^ 63 * word_of_int (2 * k) = 2 ^ LENGTH(64) * word_of_int k" by simp
  then show ?thesis by (simp only: word_exp_length_eq_0 mult_zero_left)
qed

lemma top_pair:
  assumes "even (a + b)"
  shows "(2 :: u64) ^ 63 * word_of_int a + 2 ^ 63 * word_of_int b = 0"
proof -
  obtain k where "a + b = 2 * k" using assms by (elim evenE)
  then have "(2 :: u64) ^ 63 * word_of_int a + 2 ^ 63 * word_of_int b = 2 ^ 63 * word_of_int (2 * k)"
    by (metis distrib_left of_int_add)
  then show ?thesis by (simp only: top_even)
qed

lemma even_xor_sum: "even ((x XOR 0) + (x XOR 2 :: int))"
  by (simp add: even_xor_iff)

text \<open>
  The shares do not determine the secret.  Because the code raises nothing to a power but
  takes the exclusive or with the exponent, the matrix of the sharing is singular modulo \<open>2 ^ 64\<close>:
  for every degree \<open>t \<ge> 2\<close>, the secret and the secret with the top bits flipped (together with the
  second coefficient) have exactly the same \<open>n\<close> shares.
\<close>

theorem shares_ambiguous:
  assumes "2 \<le> t" "length coef = t + 1"
  shows "tl (make_shares t n (coef[0 := flip_top (coef ! 0), 2 := flip_top (coef ! 2)])) =
      tl (make_shares t n coef) \<and>
    hd (make_shares t n (coef[0 := flip_top (coef ! 0), 2 := flip_top (coef ! 2)])) \<noteq>
      hd (make_shares t n coef)"
proof
  let ?coef = "coef[0 := flip_top (coef ! 0), 2 := flip_top (coef ! 2)]"
  have upt: "[0..<t + 1] = 0 # 1 # 2 # [3..<t + 1]" using assms(1) by (simp add: upt_rec numeral_eq_Suc)
  have "share_at t n ?coef j = share_at t n coef j" for j
  proof -
    let ?x = "points n ! j"
    have rest: "map (\<lambda>i. p (?coef ! i) * word_of_int (?x XOR int i)) [3..<t + 1] =
        map (\<lambda>i. p (coef ! i) * word_of_int (?x XOR int i)) [3..<t + 1]" for p :: "m128 \<Rightarrow> u64"
      using assms by (intro map_cong) auto
    have at: "?coef ! 0 = flip_top (coef ! 0)" "?coef ! 1 = coef ! 1" "?coef ! 2 = flip_top (coef ! 2)"
      using assms by simp_all
    have two: "(a + 2 ^ 63) * word_of_int (?x XOR 0) + (b + (c + 2 ^ 63) * word_of_int (?x XOR 2) + r) =
        a * word_of_int (?x XOR 0) + (b + c * word_of_int (?x XOR 2) + r)" for a b c r :: u64
    proof -
      have "(a + 2 ^ 63) * word_of_int (?x XOR 0) + (b + (c + 2 ^ 63) * word_of_int (?x XOR 2) + r) =
        a * word_of_int (?x XOR 0) + (b + c * word_of_int (?x XOR 2) + r) +
        (2 ^ 63 * word_of_int (?x XOR 0) + 2 ^ 63 * word_of_int (?x XOR 2))"
        by (simp only: distrib_right) (simp only: ac_simps)
      then show ?thesis by (simp only: top_pair [OF even_xor_sum] add_0_right)
    qed
    show ?thesis
      unfolding share_at_sum upt list.map sum_list.Cons rest at
      using two by (simp add: flip_top_def add.assoc)
  qed
  then show "tl (make_shares t n ?coef) = tl (make_shares t n coef)"
    by (simp add: make_shares_def)
  show "hd (make_shares t n ?coef) \<noteq> hd (make_shares t n coef)"
    using assms flip_top_ne by (simp add: make_shares_def)
qed

lemma shares_ambiguous_witness:
  "tl (make_shares 2 3 [(7 + 2 ^ 63, 8 + 2 ^ 63), (1, 2), (3 + 2 ^ 63, 4 + 2 ^ 63)]) =
   tl (make_shares 2 3 [(7, 8), (1, 2), (3, 4)])"
  using shares_ambiguous [of 2 "[(7, 8), (1, 2), (3, 4)]" 3] by (simp add: flip_top_def numeral_2_eq_2)

section \<open>Reconstruction\<close>

lemma lagrange_3_5:
  "lagrange 3 5 1 0 = (2, 0)" "lagrange 3 5 2 0 = (- 6, 0)"
  "lagrange 3 5 3 0 = (0, 0)" "lagrange 3 5 4 0 = (0, 0)"
  by (simp_all add: lagrange_def points_def upt_rec m128_mul_def m128_one_def broadcast_def signed_divide_int_def)

text \<open>
  Reconstruction does not return the secret.  With the parameters of the code (degree 3, five
  servers), integer division truncates the Lagrange coefficients at zero to 2, -6, 0 and 0, so what
  the client takes for the secret is twice the first share minus six times the second in the low
  lane and zero in the high lane, that is \<open>-10 c0 - 18 c1 + 6 c2 - 2 c3\<close> of the coefficients.
\<close>

theorem reconstruct_wrong_secret:
  "hd (reconstruct_shares 3 5 (make_shares 3 5 [c0, c1, c2, c3])) =
    (6 * fst c2 - 10 * fst c0 - 18 * fst c1 - 2 * fst c3, 0)"
proof -
  have "share_at 3 5 [c0, c1, c2, c3] 1 =
      (fst c0 + 3 * fst c2 + 2 * fst c3, snd c0 + 3 * snd c2 + 2 * snd c3)"
    "share_at 3 5 [c0, c1, c2, c3] 2 =
      (2 * fst c0 + 3 * fst c1 + fst c3, 2 * snd c0 + 3 * snd c1 + snd c3)"
    by (simp_all add: share_at_sum points_def upt_rec)
  moreover have "hd (reconstruct_shares 3 5 ss) =
      m128_add (m128_mul (ss ! 1) (2, 0)) (m128_mul (ss ! 2) (- 6, 0))" for ss
  proof -
    have "[1..<3 + 2] = [1, 2, 3, 4 :: nat]" by (simp add: upt_rec)
    then have "reconstruct_at 3 5 ss 0 =
        m128_add (m128_mul (ss ! 1) (2, 0)) (m128_mul (ss ! 2) (- 6, 0))"
      unfolding reconstruct_at_def by (simp only: foldl.simps lagrange_3_5)
        (simp add: m128_add_def m128_mul_def m128_zero_def)
    then show ?thesis by (simp add: reconstruct_shares_def upt_rec)
  qed
  moreover have "make_shares 3 5 cs ! 1 = share_at 3 5 cs 1" "make_shares 3 5 cs ! 2 = share_at 3 5 cs 2" for cs
    by (simp_all add: make_shares_def upt_rec numeral_2_eq_2)
  ultimately show ?thesis
    by (simp only: m128_add_def m128_mul_def fst_conv snd_conv) (simp add: algebra_simps)
qed

end
