(* ===== verification/Yao_Gate.thy ===== *)
theory Yao_Gate
  imports M128
begin

text \<open>
  The gates of MP-SPDZ's Yao back end: the half gate (\<^verbatim>\<open>YaoHalfGate.h/.cpp\<close>, the default
  \<^verbatim>\<open>YaoGate\<close>), the four-row gate (\<^verbatim>\<open>YaoGate.h/.cpp\<close>, with \<^verbatim>\<open>FULL_GATES\<close>) and the
  \<^verbatim>\<open>Function\<close> they are called with.  A garbler wire is its \<^verbatim>\<open>key_\<close>, whose signal bit is the
  mask; an evaluator wire is its \<^verbatim>\<open>key_\<close>, whose signal bit is the external value.  The hash is the
  parameter \<open>h\<close>; \<open>T\<close> is a 64-bit \<^verbatim>\<open>long\<close>.
\<close>

section \<open>Functions of two bits\<close>

text \<open>\<^verbatim>\<open>rep[i] = (int_rep << shift(i)) & 1\<close> with \<^verbatim>\<open>shift(i) = 4 * (3 - i)\<close>.\<close>

definition Function_of_int :: "u32 \<Rightarrow> bool list" where
  "Function_of_int int_rep = map (\<lambda>i. push_bit (4 * (3 - i)) int_rep AND 1 \<noteq> 0) [0..<4]"

definition Function_call :: "bool list \<Rightarrow> bool \<Rightarrow> bool \<Rightarrow> bool" where
  "Function_call rep left right = rep ! (2 * of_bool left + of_bool right)"

section \<open>Wires\<close>

text \<open>\<^verbatim>\<open>YaoGarbleWire::key\<close>: the key without its mask.\<close>

definition wire_key :: "m128 \<Rightarrow> m128" where
  "wire_key g = set_signal False g"

definition wire_xor :: "m128 \<Rightarrow> m128 \<Rightarrow> m128" where
  "wire_xor left right = m128_xor left right"

section \<open>The half gate\<close>

record YaoHalfGate =
  TG :: m128
  TE :: m128

definition half_public_input :: "bool \<Rightarrow> m128 \<Rightarrow> m128" where
  "half_public_input v d = (if v then d else m128_zero)"

definition half_E_inputs :: "m128 \<Rightarrow> m128 \<Rightarrow> m128 \<Rightarrow> u64 \<Rightarrow> m128 list" where
  "half_E_inputs left right left_delta T =
    (let l = doubling 1 left;
         r = doubling 1 right;
         j = push_bit 1 T;
         o0 = m128_xor l (Key_of j);
         o1 = m128_xor o0 left_delta;
         o2 = m128_xor r (Key_of (j + 1));
         o3 = m128_xor o2 left_delta
     in [o0, o1, o2, o3])"

definition half_and_garble :: "m128 list \<Rightarrow> m128 \<Rightarrow> m128 \<Rightarrow> m128 \<Rightarrow> YaoHalfGate \<times> m128" where
  "half_and_garble hashes left right d =
    (let pa = get_signal left;
         pb = get_signal right;
         tg = m128_xor (hashes ! 0) (hashes ! 1);
         tg = (if pb then m128_xor tg d else tg);
         wg = hashes ! 0;
         wg = (if pa then m128_xor wg tg else wg);
         te = m128_xor (m128_xor (hashes ! 2) (hashes ! 3)) left;
         we = hashes ! 2;
         we = (if pb then m128_xor we (m128_xor te left) else we)
     in (\<lparr>TG = tg, TE = te\<rparr>, m128_xor wg we))"

definition half_eval_inputs :: "m128 \<Rightarrow> m128 \<Rightarrow> u64 \<Rightarrow> m128 list" where
  "half_eval_inputs left right T =
    (let j = push_bit 1 T
     in [m128_xor (doubling 1 left) (Key_of j), m128_xor (doubling 1 right) (Key_of (j + 1))])"

definition half_eval :: "YaoHalfGate \<Rightarrow> m128 list \<Rightarrow> m128 \<Rightarrow> m128 \<Rightarrow> m128" where
  "half_eval gate hashes left right =
    (let sa = get_signal left;
         sb = get_signal right;
         wg = hashes ! 0;
         wg = (if sa then m128_xor wg (TG gate) else wg);
         we = hashes ! 1;
         we = (if sb then m128_xor we (m128_xor (TE gate) left) else we)
     in m128_xor wg we)"

text \<open>The constructor asserts that the function is the conjunction.\<close>

definition half_construct ::
  "(m128 \<Rightarrow> m128) \<Rightarrow> m128 \<Rightarrow> u64 \<Rightarrow> bool list \<Rightarrow> m128 \<Rightarrow> m128 \<Rightarrow> (YaoHalfGate \<times> m128) result" where
  "half_construct h d counter func left right =
    (if take 4 func = Function_of_int 1
     then Inr (half_and_garble (map h (half_E_inputs left right (doubling 1 d) counter)) left right d)
     else Inl (exit_failure ''assertion failed''))"

definition half_eval_op :: "(m128 \<Rightarrow> m128) \<Rightarrow> u64 \<Rightarrow> YaoHalfGate \<Rightarrow> m128 \<Rightarrow> m128 \<Rightarrow> m128" where
  "half_eval_op h counter gate left right =
    half_eval gate (map h (half_eval_inputs left right counter)) left right"

section \<open>The four-row gate\<close>

type_synonym YaoFullGate = "m128 list list"

definition full_E_input :: "m128 \<Rightarrow> m128 \<Rightarrow> u64 \<Rightarrow> m128" where
  "full_E_input left right T =
    m128_xor (m128_xor (doubling 1 left) (doubling 2 right)) (Key_of T)"

definition full_E_inputs :: "m128 \<Rightarrow> m128 \<Rightarrow> m128 \<Rightarrow> m128 \<Rightarrow> u64 \<Rightarrow> m128 list" where
  "full_E_inputs left right left_delta right_delta T =
    (let l = doubling 1 (wire_key left);
         r = doubling 2 (wire_key right)
     in concat (map (\<lambda>i. map (\<lambda>j.
          m128_xor (m128_xor (m128_xor (m128_xor l (if i then left_delta else m128_zero)) r)
            (if j then right_delta else m128_zero)) (Key_of T)) [False, True]) [False, True]))"

definition full_and_garble :: "m128 \<Rightarrow> m128 list \<Rightarrow> m128 \<Rightarrow> m128 \<Rightarrow> m128 \<Rightarrow> YaoFullGate" where
  "full_and_garble out hashes left right d =
    map (\<lambda>l. map (\<lambda>r.
      let key = wire_key out;
          key = (if ((l \<noteq> get_signal left) \<and> (r \<noteq> get_signal right)) \<noteq> get_signal out
                 then m128_xor key d else key)
      in m128_xor key (hashes ! (2 * of_bool l + of_bool r))) [False, True]) [False, True]"

definition full_garble ::
  "m128 \<Rightarrow> m128 list \<Rightarrow> bool \<Rightarrow> bool \<Rightarrow> bool list \<Rightarrow> m128 \<Rightarrow> YaoFullGate" where
  "full_garble out hashes left_mask right_mask func d =
    map (\<lambda>l. map (\<lambda>r.
      let key = wire_key out;
          key = (if Function_call func (l \<noteq> left_mask) (r \<noteq> right_mask) \<noteq> get_signal out
                 then m128_xor key d else key)
      in m128_xor key (hashes ! (2 * of_bool l + of_bool r))) [False, True]) [False, True]"

definition full_eval :: "YaoFullGate \<Rightarrow> m128 \<Rightarrow> m128 \<Rightarrow> m128 \<Rightarrow> m128" where
  "full_eval entries hash left right =
    m128_xor (entries ! of_bool (get_signal left) ! of_bool (get_signal right)) hash"

definition full_public_input :: "bool \<Rightarrow> m128 \<Rightarrow> m128" where
  "full_public_input v d = Key_of (if v then 1 else 0)"

text \<open>The constructor and \<^verbatim>\<open>eval\<close> of \<^verbatim>\<open>YaoGate.cpp\<close>.\<close>

definition full_construct ::
  "(m128 \<Rightarrow> m128) \<Rightarrow> m128 \<Rightarrow> u64 \<Rightarrow> m128 \<Rightarrow> m128 \<Rightarrow> m128 \<Rightarrow> bool list \<Rightarrow> YaoFullGate" where
  "full_construct h d gate_id out left right func =
    (let hashes = concat (map (\<lambda>i. map (\<lambda>j.
           h (full_E_input (m128_xor (wire_key left) (if i then d else m128_zero))
                           (m128_xor (wire_key right) (if j then d else m128_zero)) gate_id))
           [False, True]) [False, True])
     in full_garble out hashes (get_signal left) (get_signal right) func d)"

definition full_eval_op :: "(m128 \<Rightarrow> m128) \<Rightarrow> u64 \<Rightarrow> YaoFullGate \<Rightarrow> m128 \<Rightarrow> m128 \<Rightarrow> m128" where
  "full_eval_op h gate_id entries left right =
    full_eval entries (h (full_E_input left right gate_id)) left right"

section \<open>Labels of a wire\<close>

text \<open>
  The evaluator's key of the bit \<open>v\<close> on a wire with garbler key \<open>g\<close>: with half gates \<open>g\<close> itself is
  the key of 0; with four-row gates the key without its mask is the key of the external value 0.
\<close>

definition half_label :: "m128 \<Rightarrow> m128 \<Rightarrow> bool \<Rightarrow> m128" where
  "half_label d g v = (if v then m128_xor g d else g)"

definition full_label :: "m128 \<Rightarrow> m128 \<Rightarrow> bool \<Rightarrow> m128" where
  "full_label d g v = (if v \<noteq> get_signal g then m128_xor (wire_key g) d else wire_key g)"

lemma get_signal_half_label: "get_signal d \<Longrightarrow> get_signal (half_label d g v) \<longleftrightarrow> v \<noteq> get_signal g"
  by (simp add: half_label_def)

lemma get_signal_full_label: "get_signal d \<Longrightarrow> get_signal (full_label d g v) \<longleftrightarrow> v \<noteq> get_signal g"
  by (simp add: full_label_def wire_key_def)

lemma half_label_xor:
  "wire_xor (half_label d a va) (half_label d b vb) = half_label d (wire_xor a b) (va \<noteq> vb)"
  by (simp add: half_label_def wire_xor_def xor_ac)

lemma full_label_xor:
  "wire_xor (full_label d a va) (full_label d b vb) = full_label d (wire_xor a b) (va \<noteq> vb)"
  by (auto simp: full_label_def wire_xor_def wire_key_def xor_ac simp flip: set_signal_xor)

lemma half_public_label: "half_label d (half_public_input v d) v = m128_zero"
  by (simp add: half_label_def half_public_input_def)

lemma half_eval_inputs_label:
  "half_eval_inputs (half_label d a va) (half_label d b vb) T =
    [half_E_inputs a b (doubling 1 d) T ! of_bool va, half_E_inputs a b (doubling 1 d) T ! (2 + of_bool vb)]"
  by (simp add: half_eval_inputs_def half_E_inputs_def half_label_def Let_def doubling_xor xor_ac)

text \<open>The half gate on any hash: the shared fact behind the operation and the vectorised loop.\<close>

lemma half_gate_step:
  assumes "get_signal d"
  shows "half_eval (fst (half_and_garble (map h (half_E_inputs a b (doubling 1 d) T)) a b d))
      (map h (half_eval_inputs (half_label d a va) (half_label d b vb) T))
      (half_label d a va) (half_label d b vb) =
    half_label d (snd (half_and_garble (map h (half_E_inputs a b (doubling 1 d) T)) a b d)) (va \<and> vb)"
proof -
  obtain e0 e1 e2 e3 where E: "half_E_inputs a b (doubling 1 d) T = [e0, e1, e2, e3]"
    by (simp add: half_E_inputs_def Let_def)
  have hs: "map h (half_eval_inputs (half_label d a va) (half_label d b vb) T) =
      [if va then h e1 else h e0, if vb then h e3 else h e2]"
    by (simp add: half_eval_inputs_label E [simplified] numeral_3_eq_3 numeral_2_eq_2)
  show ?thesis
    using key_label.half_gate [where d = d and va = va and vb = vb and ?a0.0 = a and ?b0.0 = b
        and ?ha0.0 = "h e0" and ?ha1.0 = "h e1" and ?hb0.0 = "h e2"
        and ?hb1.0 = "h e3", OF _ _ _ _ _ _ _ assms refl refl refl refl]
    unfolding hs E
    by (simp add: half_eval_def half_and_garble_def Let_def half_label_def numeral_3_eq_3 numeral_2_eq_2
        split del: if_split cong: if_cong)
qed

text \<open>The truth table of a four-row gate, whatever the function.\<close>

lemma full_row:
  assumes "get_signal d"
  shows "full_eval (full_garble out hashes (get_signal a) (get_signal b) func d)
      (hashes ! (2 * of_bool (va \<noteq> get_signal a) + of_bool (vb \<noteq> get_signal b)))
      (full_label d a va) (full_label d b vb) =
    full_label d out (Function_call func va vb)"
  by (cases va; cases vb; cases "get_signal a"; cases "get_signal b")
    (simp_all add: full_eval_def full_garble_def get_signal_full_label assms Let_def
      full_label_def [of d out])

lemma full_E_inputs_nth:
  "full_E_inputs a b (doubling 1 d) (doubling 2 d) T ! (2 * of_bool i + of_bool j) =
    full_E_input (m128_xor (wire_key a) (if i then d else m128_zero))
      (m128_xor (wire_key b) (if j then d else m128_zero)) T"
  by (cases i; cases j)
    (simp_all add: full_E_inputs_def full_E_input_def doubling_xor Let_def xor_ac numeral_3_eq_3)

lemma Function_of_int_eq: "Function_of_int x = [False, False, False, bit x 0]"
proof -
  have "push_bit n x AND 1 \<noteq> 0 \<longleftrightarrow> n = 0 \<and> bit x 0" for n
    by (auto simp: bit_simps and_one_eq simp flip: bit_0 odd_iff_mod_2_eq_one)
  then show ?thesis by (simp add: Function_of_int_def upt_rec)
qed

section \<open>Correctness of the gates\<close>

text \<open>
  C6.  The half gate is correct.  When the signal bit of the offset is set, the gate constructed for
  the conjunction at some counter, evaluated at the same counter on the keys of any two bits, gives
  the key of their conjunction on the output wire the garbler set; every other function is refused.
\<close>

theorem half_gate_correct:
  assumes "get_signal d"
  shows "\<exists>gate out. half_construct h d T (Function_of_int 1) a b = Inr (gate, out) \<and>
    half_eval_op h T gate (half_label d a va) (half_label d b vb) = half_label d out (va \<and> vb)"
  using half_gate_step [OF assms, of h a b T va vb]
  by (cases "half_and_garble (map h (half_E_inputs a b (doubling 1 d) T)) a b d")
    (simp add: half_construct_def half_eval_op_def Function_of_int_eq)

lemma half_gate_correct_witness:
  "\<exists>gate out. half_construct (\<lambda>k. m128_add k k) (3, 5) 9 (Function_of_int 1) (6, 1) (7, 2) = Inr (gate, out) \<and>
    half_eval_op (\<lambda>k. m128_add k k) 9 gate (half_label (3, 5) (6, 1) True) (half_label (3, 5) (7, 2) True) =
      half_label (3, 5) out True"
  using half_gate_correct [of "(3, 5)" "\<lambda>k. m128_add k k" 9 "(6, 1)" "(7, 2)" True True]
  by (simp add: get_signal_def)

text \<open>
  The four-row gate is correct for every function of two bits: evaluating the constructed gate
  on the keys of any two bits gives the key of the function's value on the output wire, whatever the
  masks of the three wires.
\<close>

theorem full_gate_correct:
  assumes "get_signal d"
  shows "full_eval_op h gate_id (full_construct h d gate_id out a b func)
      (full_label d a va) (full_label d b vb) = full_label d out (Function_call func va vb)"
proof -
  define hashes where "hashes = concat (map (\<lambda>i. map (\<lambda>j.
    h (full_E_input (m128_xor (wire_key a) (if i then d else m128_zero))
        (m128_xor (wire_key b) (if j then d else m128_zero)) gate_id)) [False, True]) [False, True])"
  have "h (full_E_input (full_label d a va) (full_label d b vb) gate_id) =
      hashes ! (2 * of_bool (va \<noteq> get_signal a) + of_bool (vb \<noteq> get_signal b))"
    by (simp add: hashes_def full_label_def numeral_3_eq_3 numeral_2_eq_2)
  then show ?thesis
    using full_row [OF assms, of out hashes a b func va vb]
    by (simp only: full_eval_op_def full_construct_def Let_def flip: hashes_def)
qed

lemma full_gate_correct_witness:
  "full_eval_op (\<lambda>k. m128_add k k) 9
      (full_construct (\<lambda>k. m128_add k k) (3, 5) 9 (8, 8) (6, 1) (7, 2) [True, False, False, True])
      (full_label (3, 5) (6, 1) True) (full_label (3, 5) (7, 2) False) = full_label (3, 5) (8, 8) False"
  using full_gate_correct [of "(3, 5)" "\<lambda>k. m128_add k k" 9 "(8, 8)" "(6, 1)" "(7, 2)"
      "[True, False, False, True]" True False]
  by (simp add: get_signal_def Function_call_def numeral_2_eq_2)

text \<open>
  \<^verbatim>\<open>Function(int)\<close> decodes only the conjunction.  The digits of the number are shifted left
  instead of right, so whatever the number, the three rows for (0,0), (0,1) and (1,0) come out false
  and the row for (1,1) is the number's lowest bit: the numbers for \<open>or\<close> and for the conjunction
  give the same function.
\<close>

theorem function_of_int_only_and:
  "Function_call (Function_of_int x) l r \<longleftrightarrow> l \<and> r \<and> bit x 0"
  by (cases l; cases r) (simp_all add: Function_of_int_eq Function_call_def numeral_3_eq_3 numeral_2_eq_2)

end
