(* ===== verification/Yao_And.thy ===== *)
theory Yao_And
  imports Yao_Gate
begin

text \<open>
  The vectorised AND instructions of the Yao virtual machine on both sides
  (\<^verbatim>\<open>YaoGarbleWire.cpp\<close>, \<^verbatim>\<open>YaoEvalWire.cpp\<close>, \<^verbatim>\<open>GC/Secret_inline.h\<close>,
  \<^verbatim>\<open>GC/Processor.hpp\<close>), with the half gates of the default build, and the distribution of the work
  over worker threads (\<^verbatim>\<open>YaoCommon.hpp\<close>).  The secret registers are a vector of vectors of wires.
  Gate numbers are 64-bit; instruction arguments are the non-negative \<^verbatim>\<open>int\<close>s of the bytecode.
\<close>

section \<open>Registers\<close>

type_synonym 'a memory = "'a list list"

definition default_length :: nat where
  "default_length = 64"

definition resize_regs :: "'a \<Rightarrow> nat \<Rightarrow> 'a list \<Rightarrow> 'a list" where
  "resize_regs fresh n ws = take n ws @ replicate (n - length ws) fresh"

definition get_reg :: "'a memory \<Rightarrow> nat \<Rightarrow> nat \<Rightarrow> 'a result" where
  "get_reg S r k = bind_result (vec_read S r) (\<lambda>ws. vec_read ws k)"

definition set_reg :: "'a memory \<Rightarrow> nat \<Rightarrow> nat \<Rightarrow> 'a \<Rightarrow> 'a memory result" where
  "set_reg S r k x =
    bind_result (vec_read S r) (\<lambda>ws. bind_result (vec_write ws k x) (\<lambda>ws. vec_write S r ws))"

definition resize_reg :: "'a \<Rightarrow> 'a memory \<Rightarrow> nat \<Rightarrow> nat \<Rightarrow> 'a memory result" where
  "resize_reg fresh S r n = bind_result (vec_read S r) (\<lambda>ws. vec_write S r (resize_regs fresh n ws))"

text \<open>\<^verbatim>\<open>DIV_CEIL\<close>, and the arguments four at a time.\<close>

definition div_ceil :: "nat \<Rightarrow> nat \<Rightarrow> nat" where
  "div_ceil a b = (a + b - 1) div b"

fun quads :: "nat list \<Rightarrow> (nat \<times> nat \<times> nat \<times> nat) list" where
  "quads (n # out # l # r # args) = (n, out, l, r) # quads args"
| "quads _ = []"

definition check_args :: "nat list \<Rightarrow> nat \<Rightarrow> nat result" where
  "check_args args n =
    (if length args mod n \<noteq> 0 then Inl (runtime_error ''invalid number of arguments'')
     else Inr (\<Sum>i\<leftarrow>[0..<length args div n]. args ! (n * i)))"

section \<open>Garbler\<close>

text \<open>
  The generator of fresh keys by its outputs; the state of the garbling party that the AND
  instructions change.
\<close>

record prng =
  doublewords :: "nat \<Rightarrow> m128"
  used :: nat

definition get_doubleword :: "prng \<Rightarrow> m128 \<times> prng" where
  "get_doubleword p = (doublewords p (used p), p\<lparr>used := Suc (used p)\<rparr>)"

record Garbler_state =
  g_mem :: "m128 memory"
  g_gates :: "YaoHalfGate list"
  g_counter :: u64
  g_prng :: prng

text \<open>A tuple of length one: the labels are read before the output is resized.\<close>

definition garble_and_bit ::
  "(m128 \<Rightarrow> m128) \<Rightarrow> m128 \<Rightarrow> nat \<Rightarrow> nat \<Rightarrow> nat \<Rightarrow> Garbler_state \<Rightarrow> Garbler_state result" where
  "garble_and_bit h d out l r st =
    (let c = g_counter st + 1
     in bind_result (get_reg (g_mem st) l 0) (\<lambda>a.
        bind_result (get_reg (g_mem st) r 0) (\<lambda>b.
        let hashes = map h (half_E_inputs a b (doubling 1 d) c)
        in bind_result (resize_reg m128_zero (g_mem st) out 1) (\<lambda>S.
           bind_result (get_reg S l 0) (\<lambda>a.
           bind_result (get_reg S r 0) (\<lambda>b.
           let (gate, w) = half_and_garble hashes a b d
           in bind_result (set_reg S out 0 w) (\<lambda>S.
              Inr (st\<lparr>g_mem := S, g_gates := g_gates st @ [gate], g_counter := c\<rparr>))))))))"

text \<open>
  Wire \<open>k\<close> of a longer tuple: the output wire is randomised between the hashing and the garbling.
\<close>

definition garble_and_wire ::
  "(m128 \<Rightarrow> m128) \<Rightarrow> m128 \<Rightarrow> bool \<Rightarrow> nat \<Rightarrow> nat \<Rightarrow> nat \<Rightarrow> Garbler_state \<Rightarrow> nat \<Rightarrow> Garbler_state result" where
  "garble_and_wire h d repeat out l r st k =
    (let k' = (if repeat then 0 else k)
     in bind_result (get_reg (g_mem st) l k) (\<lambda>a.
        bind_result (get_reg (g_mem st) r k') (\<lambda>b.
        let c = g_counter st + 1;
            hashes = map h (half_E_inputs a b (doubling 1 d) c);
            (x, p) = get_doubleword (g_prng st)
        in bind_result (set_reg (g_mem st) out k x) (\<lambda>S.
           bind_result (get_reg S l k) (\<lambda>a.
           bind_result (get_reg S r k') (\<lambda>b.
           let (gate, w) = half_and_garble hashes a b d
           in bind_result (set_reg S out k w) (\<lambda>S.
              Inr (st\<lparr>g_mem := S, g_gates := g_gates st @ [gate], g_counter := c, g_prng := p\<rparr>))))))))"

text \<open>Unit \<open>j\<close> of a longer tuple.  The right register is \<^verbatim>\<open>*(it + 3) + j\<close> even with \<open>repeat\<close>.\<close>

definition garble_and_unit ::
  "(m128 \<Rightarrow> m128) \<Rightarrow> m128 \<Rightarrow> bool \<Rightarrow> nat \<times> nat \<times> nat \<times> nat \<Rightarrow> Garbler_state \<Rightarrow> nat \<Rightarrow> Garbler_state result" where
  "garble_and_unit h d repeat = (\<lambda>(n, out, l, r) st j.
    let left = min default_length (n - j * default_length)
    in bind_result (resize_reg m128_zero (g_mem st) (out + j) left) (\<lambda>S.
       fold_result (garble_and_wire h d repeat (out + j) (l + j) (r + j)) (st\<lparr>g_mem := S\<rparr>) [0..<left]))"

definition garble_and_tuple ::
  "(m128 \<Rightarrow> m128) \<Rightarrow> m128 \<Rightarrow> bool \<Rightarrow> Garbler_state \<Rightarrow> nat \<times> nat \<times> nat \<times> nat \<Rightarrow> Garbler_state result" where
  "garble_and_tuple h d repeat st = (\<lambda>(n, out, l, r).
    if n = 1 then garble_and_bit h d out l r st
    else fold_result (garble_and_unit h d repeat (n, out, l, r)) st [0..<div_ceil n default_length])"

text \<open>The static \<^verbatim>\<open>and_\<close> on the arguments from \<open>start\<close> to \<open>stop\<close>.\<close>

definition garble_and_range ::
  "(m128 \<Rightarrow> m128) \<Rightarrow> m128 \<Rightarrow> bool \<Rightarrow> nat list \<Rightarrow> nat \<Rightarrow> nat \<Rightarrow> Garbler_state \<Rightarrow> Garbler_state result" where
  "garble_and_range h d repeat args start stop st =
    fold_result (garble_and_tuple h d repeat) st (quads (drop start (take stop args)))"

text \<open>\<^verbatim>\<open>op\<close>: one AND of a short instruction, on \<^verbatim>\<open>registers[i]\<close> of the resized output.\<close>

definition garble_op ::
  "(m128 \<Rightarrow> m128) \<Rightarrow> m128 \<Rightarrow> bool \<Rightarrow> nat \<Rightarrow> nat \<Rightarrow> nat \<Rightarrow> Garbler_state \<Rightarrow> nat \<Rightarrow> Garbler_state result" where
  "garble_op h d repeat out l r st i =
    (let i' = (if repeat then 0 else i);
         (x, p) = get_doubleword (g_prng st)
     in bind_result (set_reg (g_mem st) out i x) (\<lambda>S.
        bind_result (get_reg S l i) (\<lambda>a.
        bind_result (get_reg S r i') (\<lambda>b.
        let c = g_counter st + 1
        in bind_result (half_construct h d c (Function_of_int 1) a b) (\<lambda>(gate, w).
           bind_result (set_reg S out i w) (\<lambda>S.
           Inr (st\<lparr>g_mem := S, g_gates := g_gates st @ [gate], g_counter := c, g_prng := p\<rparr>)))))))"

definition garble_and_short ::
  "(m128 \<Rightarrow> m128) \<Rightarrow> m128 \<Rightarrow> bool \<Rightarrow> nat \<times> nat \<times> nat \<times> nat \<Rightarrow> Garbler_state \<Rightarrow> nat \<Rightarrow> Garbler_state result" where
  "garble_and_short h d repeat = (\<lambda>(n, out, l, r) st j.
    let m = min default_length (n - j * default_length)
    in bind_result (resize_reg m128_zero (g_mem st) (out + j) m) (\<lambda>S.
       fold_result (garble_op h d repeat (out + j) (l + j) (r + (if repeat then 0 else j)))
         (st\<lparr>g_mem := S\<rparr>) [0..<m]))"

text \<open>
  \<^verbatim>\<open>and_singlethread\<close>: fewer than ten gates go through the processor.  The thread's gate numbers
  start at \<open>base\<close> (\<^verbatim>\<open>gate_id\<close> is \<open>counter + base\<close>), the short instructions use the bare counter.
\<close>

definition garble_and_singlethread ::
  "(m128 \<Rightarrow> m128) \<Rightarrow> m128 \<Rightarrow> u64 \<Rightarrow> bool \<Rightarrow> nat list \<Rightarrow> Garbler_state \<Rightarrow> Garbler_state result" where
  "garble_and_singlethread h d base repeat args st =
    bind_result (check_args args 4) (\<lambda>total_ands.
      if total_ands < 10
      then fold_result (\<lambda>st q. fold_result (garble_and_short h d repeat q) st
             [0..<div_ceil (fst q) default_length]) st (quads args)
      else bind_result (garble_and_range h d repeat args 0 (length args)
             (st\<lparr>g_counter := g_counter st + base\<rparr>)) (\<lambda>st'.
           Inr (st'\<lparr>g_counter := g_counter st + (g_counter st' - (g_counter st + base))\<rparr>)))"

section \<open>Evaluator\<close>

record Evaluator_state =
  e_mem :: "m128 memory"
  e_gates :: "YaoHalfGate list"
  e_counter :: u64

definition eval_and_bit ::
  "(m128 \<Rightarrow> m128) \<Rightarrow> nat \<Rightarrow> nat \<Rightarrow> nat \<Rightarrow> Evaluator_state \<Rightarrow> Evaluator_state result" where
  "eval_and_bit h out l r st =
    (let c = e_counter st + 1
     in bind_result (get_reg (e_mem st) l 0) (\<lambda>a.
        bind_result (get_reg (e_mem st) r 0) (\<lambda>b.
        let hashes = map h (half_eval_inputs a b c)
        in bind_result (resize_reg m128_zero (e_mem st) out 1) (\<lambda>S.
           bind_result (vec_read (e_gates st) 0) (\<lambda>gate.
           bind_result (get_reg S l 0) (\<lambda>a.
           bind_result (get_reg S r 0) (\<lambda>b.
           bind_result (set_reg S out 0 (half_eval gate hashes a b)) (\<lambda>S.
           Inr (st\<lparr>e_mem := S, e_gates := tl (e_gates st), e_counter := c\<rparr>)))))))))"

definition eval_and_wire ::
  "(m128 \<Rightarrow> m128) \<Rightarrow> bool \<Rightarrow> nat \<Rightarrow> nat \<Rightarrow> nat \<Rightarrow> Evaluator_state \<Rightarrow> nat \<Rightarrow> Evaluator_state result" where
  "eval_and_wire h repeat out l r st k =
    (let k' = (if repeat then 0 else k);
         c = e_counter st + 1
     in bind_result (get_reg (e_mem st) l k) (\<lambda>a.
        bind_result (get_reg (e_mem st) r k') (\<lambda>b.
        bind_result (vec_read (e_gates st) 0) (\<lambda>gate.
        let hashes = map h (half_eval_inputs a b c)
        in bind_result (set_reg (e_mem st) out k (half_eval gate hashes a b)) (\<lambda>S.
           Inr (st\<lparr>e_mem := S, e_gates := tl (e_gates st), e_counter := c\<rparr>))))))"

definition eval_and_unit ::
  "(m128 \<Rightarrow> m128) \<Rightarrow> bool \<Rightarrow> nat \<times> nat \<times> nat \<times> nat \<Rightarrow> Evaluator_state \<Rightarrow> nat \<Rightarrow> Evaluator_state result" where
  "eval_and_unit h repeat = (\<lambda>(n, out, l, r) st j.
    let left = min default_length (n - j * default_length)
    in bind_result (resize_reg m128_zero (e_mem st) (out + j) left) (\<lambda>S.
       fold_result (eval_and_wire h repeat (out + j) (l + j) (r + (if repeat then 0 else j)))
         (st\<lparr>e_mem := S\<rparr>) [0..<left]))"

definition eval_and_tuple ::
  "(m128 \<Rightarrow> m128) \<Rightarrow> bool \<Rightarrow> Evaluator_state \<Rightarrow> nat \<times> nat \<times> nat \<times> nat \<Rightarrow> Evaluator_state result" where
  "eval_and_tuple h repeat st = (\<lambda>(n, out, l, r).
    if n = 1 then eval_and_bit h out l r st
    else fold_result (eval_and_unit h repeat (n, out, l, r)) st [0..<div_ceil n default_length])"

definition eval_and_range ::
  "(m128 \<Rightarrow> m128) \<Rightarrow> bool \<Rightarrow> nat list \<Rightarrow> nat \<Rightarrow> nat \<Rightarrow> Evaluator_state \<Rightarrow> Evaluator_state result" where
  "eval_and_range h repeat args start stop st =
    fold_result (eval_and_tuple h repeat) st (quads (drop start (take stop args)))"

text \<open>\<^verbatim>\<open>op\<close>: the gate is loaded and the counter advanced before the evaluation.\<close>

definition eval_op ::
  "(m128 \<Rightarrow> m128) \<Rightarrow> bool \<Rightarrow> nat \<Rightarrow> nat \<Rightarrow> nat \<Rightarrow> Evaluator_state \<Rightarrow> nat \<Rightarrow> Evaluator_state result" where
  "eval_op h repeat out l r st i =
    bind_result (get_reg (e_mem st) l i) (\<lambda>a.
    bind_result (get_reg (e_mem st) r (if repeat then 0 else i)) (\<lambda>b.
    bind_result (vec_read (e_gates st) 0) (\<lambda>gate.
    let c = e_counter st + 1
    in bind_result (set_reg (e_mem st) out i (half_eval_op h c gate a b)) (\<lambda>S.
       Inr (st\<lparr>e_mem := S, e_gates := tl (e_gates st), e_counter := c\<rparr>)))))"

definition eval_and_short ::
  "(m128 \<Rightarrow> m128) \<Rightarrow> bool \<Rightarrow> nat \<times> nat \<times> nat \<times> nat \<Rightarrow> Evaluator_state \<Rightarrow> nat \<Rightarrow> Evaluator_state result" where
  "eval_and_short h repeat = (\<lambda>(n, out, l, r) st j.
    let m = min default_length (n - j * default_length)
    in bind_result (resize_reg m128_zero (e_mem st) (out + j) m) (\<lambda>S.
       fold_result (eval_op h repeat (out + j) (l + j) (r + (if repeat then 0 else j)))
         (st\<lparr>e_mem := S\<rparr>) [0..<m]))"

definition eval_and_singlethread ::
  "(m128 \<Rightarrow> m128) \<Rightarrow> u64 \<Rightarrow> bool \<Rightarrow> nat list \<Rightarrow> Evaluator_state \<Rightarrow> Evaluator_state result" where
  "eval_and_singlethread h base repeat args st =
    bind_result (check_args args 4) (\<lambda>total_ands.
      if total_ands < 10
      then fold_result (\<lambda>st q. fold_result (eval_and_short h repeat q) st
             [0..<div_ceil (fst q) default_length]) st (quads args)
      else bind_result (eval_and_range h repeat args 0 (length args)
             (st\<lparr>e_counter := e_counter st + base\<rparr>)) (\<lambda>st'.
           Inr (st'\<lparr>e_counter := e_counter st + (e_counter st' - (e_counter st + base))\<rparr>)))"

section \<open>The instruction on plain bits\<close>

definition plain_and_wire :: "bool \<Rightarrow> nat \<Rightarrow> nat \<Rightarrow> nat \<Rightarrow> bool memory \<Rightarrow> nat \<Rightarrow> bool memory result" where
  "plain_and_wire repeat out l r V k =
    bind_result (get_reg V l k) (\<lambda>a.
    bind_result (get_reg V r (if repeat then 0 else k)) (\<lambda>b.
    set_reg V out k (a \<and> b)))"

definition plain_and_unit :: "bool \<Rightarrow> nat \<times> nat \<times> nat \<times> nat \<Rightarrow> bool memory \<Rightarrow> nat \<Rightarrow> bool memory result" where
  "plain_and_unit repeat = (\<lambda>(n, out, l, r) V j.
    let m = min default_length (n - j * default_length)
    in bind_result (resize_reg False V (out + j) m) (\<lambda>V.
       fold_result (plain_and_wire repeat (out + j) (l + j) (r + (if repeat then 0 else j))) V [0..<m]))"

definition plain_and :: "bool \<Rightarrow> nat list \<Rightarrow> bool memory \<Rightarrow> bool memory result" where
  "plain_and repeat args V =
    fold_result (\<lambda>V q. fold_result (plain_and_unit repeat q) V [0..<div_ceil (fst q) default_length])
      V (quads args)"

end
