(* ===== verification/Yao_And_Correct.thy ===== *)
theory Yao_And_Correct
  imports Yao_And
begin

text \<open>
  Garbling and evaluating the AND instructions computes the conjunction on every wire: the
  evaluator's memory stays the memory of the labels of the plain bits.  A simulation relation is
  kept by one wire and composed along the loops; the same relation shows that the result does not
  depend on the keys drawn for output wires, hence not on how the work is split over threads.
\<close>

section \<open>Registers\<close>

lemma get_reg_Inr: "get_reg S r k = Inr x \<longleftrightarrow> r < length S \<and> k < length (S ! r) \<and> x = S ! r ! k"
  by (auto simp: get_reg_def bind_result_Inr_iff vec_read_def split: if_splits)

lemma set_reg_Inr:
  "set_reg S r k x = Inr S' \<longleftrightarrow> r < length S \<and> k < length (S ! r) \<and> S' = S[r := (S ! r)[k := x]]"
  by (auto simp: set_reg_def bind_result_Inr_iff vec_read_def vec_write_def split: if_splits)

lemma resize_reg_Inr:
  "resize_reg z S r n = Inr S' \<longleftrightarrow> r < length S \<and> S' = S[r := resize_regs z n (S ! r)]"
  by (auto simp: resize_reg_def bind_result_Inr_iff vec_read_def vec_write_def split: if_splits)

lemmas reg_Inr = get_reg_Inr set_reg_Inr resize_reg_Inr

lemma length_resize_regs [simp]: "length (resize_regs z n ws) = n"
  by (simp add: resize_regs_def)

section \<open>Labels of a memory\<close>

definition same_shape :: "'a memory \<Rightarrow> 'b memory \<Rightarrow> bool" where
  "same_shape S V \<longleftrightarrow> map length S = map length V"

definition labels :: "m128 \<Rightarrow> m128 memory \<Rightarrow> bool memory \<Rightarrow> m128 memory" where
  "labels d S V = map2 (map2 (half_label d)) S V"

lemma same_shapeD:
  assumes "same_shape S V"
  shows "length S = length V" "r < length V \<Longrightarrow> length (S ! r) = length (V ! r)"
proof -
  show L: "length S = length V"
    using assms by (auto simp: same_shape_def dest: map_eq_imp_length_eq)
  have "map length S ! r = map length V ! r" using assms by (simp only: same_shape_def)
  then show "length (S ! r) = length (V ! r)" if "r < length V" using that L by simp
qed

lemma labels_nth:
  assumes "same_shape S V" "r < length V"
  shows "labels d S V ! r = map2 (half_label d) (S ! r) (V ! r)"
  using assms same_shapeD(1) [OF assms(1)] by (simp add: labels_def)

lemma length_labels: "same_shape S V \<Longrightarrow> length (labels d S V) = length V"
  by (simp add: labels_def same_shapeD)

lemma labels_update:
  assumes "same_shape S V" "length ws = length vs"
  shows "same_shape (S[r := ws]) (V[r := vs])"
    and "labels d (S[r := ws]) (V[r := vs]) = (labels d S V)[r := map2 (half_label d) ws vs]"
proof -
  show "same_shape (S[r := ws]) (V[r := vs])"
    using assms by (simp add: same_shape_def map_update)
  show "labels d (S[r := ws]) (V[r := vs]) = (labels d S V)[r := map2 (half_label d) ws vs]"
    by (simp only: labels_def zip_update map_update prod.case)
qed

lemma labels_get:
  assumes "same_shape S V" "get_reg V r k = Inr v"
  shows "get_reg S r k = Inr (S ! r ! k)" "get_reg (labels d S V) r k = Inr (half_label d (S ! r ! k) v)"
  using assms same_shapeD [OF assms(1)] by (simp_all add: get_reg_Inr labels_nth length_labels)

lemma labels_set:
  assumes "same_shape S V" "set_reg V r k v = Inr V'"
  shows "set_reg S r k x = Inr (S[r := (S ! r)[k := x]])"
    and "same_shape (S[r := (S ! r)[k := x]]) V'"
    and "set_reg (labels d S V) r k (half_label d x v) = Inr (labels d (S[r := (S ! r)[k := x]]) V')"
  using assms same_shapeD [OF assms(1)]
  by (auto simp: set_reg_Inr labels_update labels_nth length_labels zip_update map_update)

lemma resize_label: "length ws = length vs \<Longrightarrow>
  resize_regs m128_zero n (map2 (half_label d) ws vs) =
    map2 (half_label d) (resize_regs m128_zero n ws) (resize_regs False n vs)"
  by (simp add: resize_regs_def take_map take_zip zip_append half_label_def [of d m128_zero])

lemma labels_resize:
  assumes "same_shape S V" "resize_reg False V r n = Inr V'"
  shows "resize_reg m128_zero S r n = Inr (S[r := resize_regs m128_zero n (S ! r)])"
    and "same_shape (S[r := resize_regs m128_zero n (S ! r)]) V'"
    and "resize_reg m128_zero (labels d S V) r n =
      Inr (labels d (S[r := resize_regs m128_zero n (S ! r)]) V')"
  using assms same_shapeD [OF assms(1)]
  by (auto simp: resize_reg_Inr labels_update labels_nth length_labels resize_label)

section \<open>The simulation\<close>

text \<open>
  From memories of the same shape on which the plain operation succeeds, the garbler succeeds with
  whatever generator and appends the same gates; the evaluator consumes exactly these gates and
  reaches the labels of the new bits; both counters advance by the number of gates.
\<close>

abbreviation gst :: "m128 memory \<Rightarrow> YaoHalfGate list \<Rightarrow> u64 \<Rightarrow> prng \<Rightarrow> Garbler_state" where
  "gst S gs c p \<equiv> \<lparr>g_mem = S, g_gates = gs, g_counter = c, g_prng = p\<rparr>"

abbreviation est :: "m128 memory \<Rightarrow> YaoHalfGate list \<Rightarrow> u64 \<Rightarrow> Evaluator_state" where
  "est S gs c \<equiv> \<lparr>e_mem = S, e_gates = gs, e_counter = c\<rparr>"

definition steps :: "m128 \<Rightarrow> (Garbler_state \<Rightarrow> Garbler_state result) \<Rightarrow>
    (Evaluator_state \<Rightarrow> Evaluator_state result) \<Rightarrow> m128 memory \<Rightarrow> bool memory \<Rightarrow> u64 \<Rightarrow>
    m128 memory \<Rightarrow> bool memory \<Rightarrow> YaoHalfGate list \<Rightarrow> bool" where
  "steps d G E S V c S' V' gs \<longleftrightarrow> same_shape S' V' \<and>
    (\<forall>gs0 p. \<exists>p'. G (gst S gs0 c p) = Inr (gst S' (gs0 @ gs) (c + word_of_nat (length gs)) p')) \<and>
    (\<forall>rest. E (est (labels d S V) (gs @ rest) c) =
      Inr (est (labels d S' V') rest (c + word_of_nat (length gs))))"

definition sim :: "m128 \<Rightarrow> (Garbler_state \<Rightarrow> Garbler_state result) \<Rightarrow>
    (Evaluator_state \<Rightarrow> Evaluator_state result) \<Rightarrow> (bool memory \<Rightarrow> bool memory result) \<Rightarrow> bool" where
  "sim d G E P \<longleftrightarrow> (\<forall>S V c V'. same_shape S V \<longrightarrow> P V = Inr V' \<longrightarrow>
    (\<exists>S' gs. steps d G E S V c S' V' gs))"

lemma stepsD:
  assumes "steps d G E S V c S' V' gs"
  shows "same_shape S' V'"
    and "\<exists>p'. G (gst S gs0 c p) = Inr (gst S' (gs0 @ gs) (c + word_of_nat (length gs)) p')"
    and "E (est (labels d S V) (gs @ rest) c) =
      Inr (est (labels d S' V') rest (c + word_of_nat (length gs)))"
  using assms by (simp_all add: steps_def)

lemma steps_return: "same_shape S V \<Longrightarrow> steps d Inr Inr S V c S V []"
  by (simp add: steps_def)

lemma steps_bind:
  assumes 1: "steps d G1 E1 S V c S' V' gs"
    and 2: "steps d G2 E2 S' V' (c + word_of_nat (length gs)) S'' V'' gs'"
  shows "steps d (\<lambda>s. bind_result (G1 s) G2) (\<lambda>s. bind_result (E1 s) E2) S V c S'' V'' (gs @ gs')"
  unfolding steps_def
proof (intro conjI allI)
  show "same_shape S'' V''" by (rule stepsD [OF 2])
  show "\<exists>p'. bind_result (G1 (gst S gs0 c p)) G2 =
      Inr (gst S'' (gs0 @ gs @ gs') (c + word_of_nat (length (gs @ gs'))) p')" for gs0 p
  proof -
    obtain p1 where p1: "G1 (gst S gs0 c p) = Inr (gst S' (gs0 @ gs) (c + word_of_nat (length gs)) p1)"
      using stepsD(2) [OF 1] by blast
    obtain p2 where "G2 (gst S' (gs0 @ gs) (c + word_of_nat (length gs)) p1) =
        Inr (gst S'' ((gs0 @ gs) @ gs') (c + word_of_nat (length gs) + word_of_nat (length gs')) p2)"
      using stepsD(2) [OF 2] by blast
    then show ?thesis by (simp add: p1 add.assoc)
  qed
  show "bind_result (E1 (est (labels d S V) ((gs @ gs') @ rest) c)) E2 =
      Inr (est (labels d S'' V'') rest (c + word_of_nat (length (gs @ gs'))))" for rest
    by (simp add: stepsD(3) [OF 1] stepsD(3) [OF 2] add.assoc)
qed

lemma sim_return: "sim d Inr Inr Inr"
  unfolding sim_def by (auto intro: steps_return)

lemma sim_bind:
  assumes "sim d G1 E1 P1" "sim d G2 E2 P2"
  shows "sim d (\<lambda>s. bind_result (G1 s) G2) (\<lambda>s. bind_result (E1 s) E2) (\<lambda>s. bind_result (P1 s) P2)"
  unfolding sim_def
proof (intro allI impI)
  fix S :: "m128 memory" and V c V''
  assume S: "same_shape S V" and "bind_result (P1 V) P2 = Inr V''"
  then obtain V' where P: "P1 V = Inr V'" "P2 V' = Inr V''" by (auto simp: bind_result_Inr_iff)
  obtain S' gs where 1: "steps d G1 E1 S V c S' V' gs" using assms(1) S P(1) sim_def by blast
  obtain S'' gs' where "steps d G2 E2 S' V' (c + word_of_nat (length gs)) S'' V'' gs'"
    using assms(2) stepsD(1) [OF 1] P(2) sim_def by blast
  from steps_bind [OF 1 this]
  show "\<exists>S' gs. steps d (\<lambda>s. bind_result (G1 s) G2) (\<lambda>s. bind_result (E1 s) E2) S V c S' V'' gs"
    by blast
qed

lemma sim_fold:
  assumes "\<And>x. x \<in> set xs \<Longrightarrow> sim d (\<lambda>s. G s x) (\<lambda>s. E s x) (\<lambda>s. P s x)"
  shows "sim d (\<lambda>s. fold_result G s xs) (\<lambda>s. fold_result E s xs) (\<lambda>s. fold_result P s xs)"
  using assms
proof (induction xs)
  case Nil
  then show ?case by (simp add: sim_return)
next
  case (Cons x xs)
  then show ?case by (auto intro: sim_bind)
qed

text \<open>Resizing an output register, on the three sides, before some further operation.\<close>

lemma sim_resize:
  assumes "sim d G E P"
  shows "sim d (\<lambda>st. bind_result (resize_reg m128_zero (g_mem st) r n) (\<lambda>S. G (st\<lparr>g_mem := S\<rparr>)))
     (\<lambda>st. bind_result (resize_reg m128_zero (e_mem st) r n) (\<lambda>S. E (st\<lparr>e_mem := S\<rparr>)))
     (\<lambda>V. bind_result (resize_reg False V r n) P)"
  unfolding sim_def
proof (intro allI impI)
  fix S :: "m128 memory" and V c V''
  assume S: "same_shape S V" and "bind_result (resize_reg False V r n) P = Inr V''"
  then obtain V' where V': "resize_reg False V r n = Inr V'" "P V' = Inr V''"
    by (auto simp: bind_result_Inr_iff)
  note L = labels_resize [OF S V'(1)]
  obtain S' gs where "steps d G E (S[r := resize_regs m128_zero n (S ! r)]) V' c S' V'' gs"
    using assms L(2) V'(2) sim_def by blast
  then show "\<exists>S' gs. steps d
      (\<lambda>st. bind_result (resize_reg m128_zero (g_mem st) r n) (\<lambda>S. G (st\<lparr>g_mem := S\<rparr>)))
      (\<lambda>st. bind_result (resize_reg m128_zero (e_mem st) r n) (\<lambda>S. E (st\<lparr>e_mem := S\<rparr>))) S V c S' V'' gs"
    using L by (intro exI [of _ S'] exI [of _ gs]) (simp add: steps_def)
qed

section \<open>One wire\<close>

lemma get_reg_other:
  "set_reg S r k x = Inr S' \<Longrightarrow> r \<noteq> l \<Longrightarrow> get_reg S' l j = get_reg S l j"
  "resize_reg z S r n = Inr S' \<Longrightarrow> r \<noteq> l \<Longrightarrow> get_reg S' l j = get_reg S l j"
  by (auto simp: reg_Inr get_reg_def vec_read_def)

lemma set_reg_again: "set_reg S r k x = Inr S' \<Longrightarrow> set_reg S' r k y = set_reg S r k y"
  unfolding set_reg_Inr by (auto simp: set_reg_def)

text \<open>The gate of one wire, and the label it gives the evaluator.\<close>

definition wire_gate :: "(m128 \<Rightarrow> m128) \<Rightarrow> m128 \<Rightarrow> u64 \<Rightarrow> m128 \<Rightarrow> m128 \<Rightarrow> YaoHalfGate \<times> m128" where
  "wire_gate h d c a b = half_and_garble (map h (half_E_inputs a b (doubling 1 d) c)) a b d"

lemma wire_gate_eval:
  assumes "get_signal d"
  shows "half_eval (fst (wire_gate h d c a b))
      (map h (half_eval_inputs (half_label d a va) (half_label d b vb) c))
      (half_label d a va) (half_label d b vb) = half_label d (snd (wire_gate h d c a b)) (va \<and> vb)"
  unfolding wire_gate_def by (rule half_gate_step [OF assms])

text \<open>One wire on the three sides, given how the garbler and the evaluator act on success.\<close>

lemma sim_one_wire:
  assumes d: "get_signal d" and disj: "out \<noteq> l" "out \<noteq> r"
    and G: "\<And>S gs0 c p a b S1 S2. get_reg S l k = Inr a \<Longrightarrow> get_reg S r k' = Inr b \<Longrightarrow>
        (\<And>x. \<exists>S1. set_reg S out k x = Inr S1) \<Longrightarrow>
        set_reg S out k (snd (wire_gate h d (c + 1) a b)) = Inr S2 \<Longrightarrow>
        \<exists>p'. G (gst S gs0 c p) = Inr (gst S2 (gs0 @ [fst (wire_gate h d (c + 1) a b)]) (c + 1) p')"
    and E: "\<And>S gate gs c a b S'. get_reg S l k = Inr a \<Longrightarrow> get_reg S r k' = Inr b \<Longrightarrow>
        set_reg S out k (half_eval gate (map h (half_eval_inputs a b (c + 1))) a b) = Inr S' \<Longrightarrow>
        E (est S (gate # gs) c) = Inr (est S' gs (c + 1))"
  shows "sim d G E (\<lambda>V. bind_result (get_reg V l k) (\<lambda>a. bind_result (get_reg V r k') (\<lambda>b.
    set_reg V out k (a \<and> b))))"
  unfolding sim_def
proof (intro allI impI)
  fix S :: "m128 memory" and V c V'
  assume S: "same_shape S V" and "bind_result (get_reg V l k) (\<lambda>a. bind_result (get_reg V r k') (\<lambda>b.
    set_reg V out k (a \<and> b))) = Inr V'"
  then obtain va vb where V: "get_reg V l k = Inr va" "get_reg V r k' = Inr vb"
    "set_reg V out k (va \<and> vb) = Inr V'" by (auto simp: bind_result_Inr_iff)
  define a b where "a = S ! l ! k" and "b = S ! r ! k'"
  define w where "w = snd (wire_gate h d (c + 1) a b)"
  note La = labels_get(1) [OF S V(1), folded a_def] labels_get(2) [OF S V(1), of d, folded a_def]
  note Lb = labels_get(1) [OF S V(2), folded b_def] labels_get(2) [OF S V(2), of d, folded b_def]
  note Lo = labels_set(1) [OF S V(3), of w] labels_set(2) [OF S V(3), of w] labels_set(3) [OF S V(3), of d w]
  have "\<exists>S1. set_reg S out k x = Inr S1" for x using labels_set(1) [OF S V(3)] by blast
  note G' = G [OF La(1) Lb(1) this Lo(1) [unfolded w_def]]
  note E' = E [OF La(2) Lb(2) Lo(3) [unfolded w_def, folded wire_gate_eval [OF d]]]
  show "\<exists>S' gs. steps d G E S V c S' V' gs"
    using Lo(2) G' E' by (intro exI [of _ "S[out := (S ! out)[k := w]]"]
      exI [of _ "[fst (wire_gate h d (c + 1) a b)]"]) (simp add: steps_def w_def)
qed

lemma sim_wire:
  assumes "get_signal d" "out \<noteq> l" "out \<noteq> r"
  shows "sim d (\<lambda>st. garble_and_wire h d repeat out l r st k) (\<lambda>st. eval_and_wire h repeat out l r st k)
    (\<lambda>V. plain_and_wire repeat out l r V k)"
  unfolding plain_and_wire_def
proof (rule sim_one_wire [OF assms])
  fix S gs0 c a b S2 and p :: prng
  let ?k = "if repeat then 0 else k"
  assume A: "get_reg S l k = Inr a" "get_reg S r ?k = Inr b" "\<And>x. \<exists>S1. set_reg S out k x = Inr S1"
    "set_reg S out k (snd (wire_gate h d (c + 1) a b)) = Inr S2"
  obtain S1 where S1: "set_reg S out k (doublewords p (used p)) = Inr S1" using A(3) by blast
  show "\<exists>p'. garble_and_wire h d repeat out l r (gst S gs0 c p) k =
      Inr (gst S2 (gs0 @ [fst (wire_gate h d (c + 1) a b)]) (c + 1) p')"
    using A(1,2,4) S1 get_reg_other(1) [OF S1 assms(2)] get_reg_other(1) [OF S1 assms(3)] set_reg_again [OF S1]
    by (simp add: garble_and_wire_def get_doubleword_def Let_def split_beta wire_gate_def)
qed (simp add: eval_and_wire_def Let_def vec_read_def)

lemma sim_op:
  assumes "get_signal d" "out \<noteq> l" "out \<noteq> r"
  shows "sim d (\<lambda>st. garble_op h d repeat out l r st k) (\<lambda>st. eval_op h repeat out l r st k)
    (\<lambda>V. plain_and_wire repeat out l r V k)"
  unfolding plain_and_wire_def
proof (rule sim_one_wire [OF assms])
  fix S gs0 c a b S2 and p :: prng
  let ?k = "if repeat then 0 else k"
  assume A: "get_reg S l k = Inr a" "get_reg S r ?k = Inr b" "\<And>x. \<exists>S1. set_reg S out k x = Inr S1"
    "set_reg S out k (snd (wire_gate h d (c + 1) a b)) = Inr S2"
  obtain S1 where S1: "set_reg S out k (doublewords p (used p)) = Inr S1" using A(3) by blast
  show "\<exists>p'. garble_op h d repeat out l r (gst S gs0 c p) k =
      Inr (gst S2 (gs0 @ [fst (wire_gate h d (c + 1) a b)]) (c + 1) p')"
    using A(1,2,4) S1 get_reg_other(1) [OF S1 assms(2)] get_reg_other(1) [OF S1 assms(3)] set_reg_again [OF S1]
    by (simp add: garble_op_def half_construct_def Function_of_int_eq get_doubleword_def Let_def
        split_beta wire_gate_def)
qed (simp add: eval_op_def half_eval_op_def Let_def vec_read_def)

section \<open>Instructions\<close>

text \<open>
  A tuple of length one resizes between the two reads of its labels; away from the output register
  that is the same as resizing first.
\<close>

definition garble_bit_wire ::
  "(m128 \<Rightarrow> m128) \<Rightarrow> m128 \<Rightarrow> nat \<Rightarrow> nat \<Rightarrow> nat \<Rightarrow> Garbler_state \<Rightarrow> Garbler_state result" where
  "garble_bit_wire h d out l r st =
    bind_result (get_reg (g_mem st) l 0) (\<lambda>a. bind_result (get_reg (g_mem st) r 0) (\<lambda>b.
    let (gate, w) = wire_gate h d (g_counter st + 1) a b
    in bind_result (set_reg (g_mem st) out 0 w) (\<lambda>S.
       Inr (st\<lparr>g_mem := S, g_gates := g_gates st @ [gate], g_counter := g_counter st + 1\<rparr>))))"

definition eval_bit_wire ::
  "(m128 \<Rightarrow> m128) \<Rightarrow> nat \<Rightarrow> nat \<Rightarrow> nat \<Rightarrow> Evaluator_state \<Rightarrow> Evaluator_state result" where
  "eval_bit_wire h out l r st =
    bind_result (get_reg (e_mem st) l 0) (\<lambda>a. bind_result (get_reg (e_mem st) r 0) (\<lambda>b.
    bind_result (vec_read (e_gates st) 0) (\<lambda>gate.
    bind_result (set_reg (e_mem st) out 0
      (half_eval gate (map h (half_eval_inputs a b (e_counter st + 1))) a b)) (\<lambda>S.
    Inr (st\<lparr>e_mem := S, e_gates := tl (e_gates st), e_counter := e_counter st + 1\<rparr>)))))"

lemma reg_Inl:
  "get_reg S r k = Inl e \<Longrightarrow> e = undefined_access"
  "resize_reg z S r n = Inl e \<Longrightarrow> e = undefined_access"
  by (auto simp: get_reg_def resize_reg_def vec_read_def vec_write_def split: if_splits)

lemma garble_and_bit_eq:
  assumes "out \<noteq> l" "out \<noteq> r"
  shows "garble_and_bit h d out l r st = bind_result (resize_reg m128_zero (g_mem st) out 1)
    (\<lambda>S. garble_bit_wire h d out l r (st\<lparr>g_mem := S\<rparr>))"
proof (cases "resize_reg m128_zero (g_mem st) out 1")
  case (Inl e)
  then show ?thesis
    by (cases "get_reg (g_mem st) l 0"; cases "get_reg (g_mem st) r 0")
      (auto simp: garble_and_bit_def Let_def dest: reg_Inl)
next
  case (Inr S)
  then show ?thesis
    using get_reg_other(2) [OF Inr assms(1)] get_reg_other(2) [OF Inr assms(2)]
    by (cases "get_reg (g_mem st) l 0"; cases "get_reg (g_mem st) r 0")
      (simp_all add: garble_and_bit_def garble_bit_wire_def wire_gate_def Let_def)
qed

lemma eval_and_bit_eq:
  assumes "out \<noteq> l" "out \<noteq> r"
  shows "eval_and_bit h out l r st = bind_result (resize_reg m128_zero (e_mem st) out 1)
    (\<lambda>S. eval_bit_wire h out l r (st\<lparr>e_mem := S\<rparr>))"
proof (cases "resize_reg m128_zero (e_mem st) out 1")
  case (Inl e)
  then show ?thesis
    by (cases "get_reg (e_mem st) l 0"; cases "get_reg (e_mem st) r 0")
      (auto simp: eval_and_bit_def Let_def dest: reg_Inl)
next
  case (Inr S)
  then show ?thesis
    using get_reg_other(2) [OF Inr assms(1)] get_reg_other(2) [OF Inr assms(2)]
    by (cases "get_reg (e_mem st) l 0"; cases "get_reg (e_mem st) r 0"; cases "e_gates st")
      (simp_all add: eval_and_bit_def eval_bit_wire_def vec_read_def Let_def)
qed

lemma sim_bit:
  assumes "get_signal d" "out \<noteq> l" "out \<noteq> r"
  shows "sim d (garble_and_bit h d out l r) (eval_and_bit h out l r)
    (\<lambda>V. bind_result (resize_reg False V out 1) (\<lambda>V. plain_and_wire repeat out l r V 0))"
proof -
  have "sim d (garble_bit_wire h d out l r) (eval_bit_wire h out l r)
      (\<lambda>V. plain_and_wire repeat out l r V 0)"
    unfolding plain_and_wire_def if_cancel
    by (rule sim_one_wire [OF assms, where h = h])
      (simp_all add: garble_bit_wire_def eval_bit_wire_def split_beta vec_read_def)
  note S = sim_resize [OF this, of out 1]
  have "garble_and_bit h d out l r = (\<lambda>st. bind_result (resize_reg m128_zero (g_mem st) out 1)
      (\<lambda>S. garble_bit_wire h d out l r (st\<lparr>g_mem := S\<rparr>)))"
    "eval_and_bit h out l r = (\<lambda>st. bind_result (resize_reg m128_zero (e_mem st) out 1)
      (\<lambda>S. eval_bit_wire h out l r (st\<lparr>e_mem := S\<rparr>)))"
    by (intro ext garble_and_bit_eq eval_and_bit_eq assms(2,3))+
  then show ?thesis using S by (simp only:)
qed

text \<open>What a tuple must satisfy: its output registers are none of its inputs.\<close>

definition quad_disjoint :: "bool \<Rightarrow> nat \<times> nat \<times> nat \<times> nat \<Rightarrow> bool" where
  "quad_disjoint repeat = (\<lambda>(n, out, l, r). \<forall>j < div_ceil n default_length.
    out + j \<noteq> l + j \<and> out + j \<noteq> r + (if repeat then 0 else j))"

lemma sim_unit:
  assumes "get_signal d" "quad_disjoint repeat (n, out, l, r)" "j < div_ceil n default_length"
    and "repeat \<Longrightarrow> j = 0"
  shows "sim d (\<lambda>st. garble_and_unit h d repeat (n, out, l, r) st j)
    (\<lambda>st. eval_and_unit h repeat (n, out, l, r) st j)
    (\<lambda>V. plain_and_unit repeat (n, out, l, r) V j)"
proof -
  have r: "r + (if repeat then 0 else j) = r + j" using assms(4) by simp
  have "out + j \<noteq> l + j" "out + j \<noteq> r + j" using assms(2,3) r by (auto simp: quad_disjoint_def)
  then show ?thesis
    unfolding garble_and_unit_def eval_and_unit_def plain_and_unit_def Let_def prod.case r
    by (intro sim_resize sim_fold sim_wire assms(1))
qed

lemma sim_short:
  assumes "get_signal d" "quad_disjoint repeat (n, out, l, r)" "j < div_ceil n default_length"
  shows "sim d (\<lambda>st. garble_and_short h d repeat (n, out, l, r) st j)
    (\<lambda>st. eval_and_short h repeat (n, out, l, r) st j)
    (\<lambda>V. plain_and_unit repeat (n, out, l, r) V j)"
  unfolding garble_and_short_def eval_and_short_def plain_and_unit_def Let_def prod.case
  using assms(2,3) by (intro sim_resize sim_fold sim_op assms(1)) (auto simp: quad_disjoint_def)

lemma div_ceil_1: "div_ceil 1 default_length = 1"
  by (simp add: div_ceil_def default_length_def)

lemma div_ceil_small: "n \<le> default_length \<Longrightarrow> j < div_ceil n default_length \<Longrightarrow> j = 0"
  by (auto simp: div_ceil_def default_length_def)

lemma sim_tuple:
  assumes "get_signal d" "quad_disjoint repeat q" "repeat \<Longrightarrow> fst q \<le> default_length"
  shows "sim d (\<lambda>st. garble_and_tuple h d repeat st q) (\<lambda>st. eval_and_tuple h repeat st q)
    (\<lambda>V. fold_result (plain_and_unit repeat q) V [0..<div_ceil (fst q) default_length])"
proof -
  obtain n out l r where q: "q = (n, out, l, r)" by (cases q)
  show ?thesis
  proof (cases "n = 1")
    case True
    then have disj: "out \<noteq> l" "out \<noteq> r" using assms(2) by (auto simp: q quad_disjoint_def div_ceil_1 [simplified])
    have "plain_and_unit repeat (1, out, l, r) V 0 =
        bind_result (resize_reg False V out 1) (\<lambda>V. plain_and_wire repeat out l r V 0)" for V
      by (simp add: plain_and_unit_def default_length_def)
    then show ?thesis
      using sim_bit [OF assms(1) disj, of h repeat] True
      by (simp add: q garble_and_tuple_def eval_and_tuple_def div_ceil_1 [simplified])
  next
    case False
    then show ?thesis
      using assms div_ceil_small unfolding q garble_and_tuple_def eval_and_tuple_def
      by (auto intro!: sim_fold sim_unit)
  qed
qed

definition args_disjoint :: "bool \<Rightarrow> nat list \<Rightarrow> bool" where
  "args_disjoint repeat args \<longleftrightarrow> (\<forall>q \<in> set (quads args). quad_disjoint repeat q)"

definition args_single_unit :: "nat list \<Rightarrow> bool" where
  "args_single_unit args \<longleftrightarrow> (\<forall>q \<in> set (quads args). fst q \<le> default_length)"

lemma sim_tuples:
  assumes "get_signal d" "\<And>q. q \<in> set qs \<Longrightarrow> quad_disjoint repeat q"
    "\<And>q. q \<in> set qs \<Longrightarrow> repeat \<Longrightarrow> fst q \<le> default_length"
  shows "sim d (\<lambda>st. fold_result (garble_and_tuple h d repeat) st qs)
    (\<lambda>st. fold_result (eval_and_tuple h repeat) st qs)
    (\<lambda>V. fold_result (\<lambda>V q. fold_result (plain_and_unit repeat q) V [0..<div_ceil (fst q) default_length]) V qs)"
  using assms by (intro sim_fold sim_tuple) auto

lemma sim_shorts:
  assumes "get_signal d" "args_disjoint repeat args"
  shows "sim d (\<lambda>st. fold_result (\<lambda>st q. fold_result (garble_and_short h d repeat q) st
      [0..<div_ceil (fst q) default_length]) st (quads args))
    (\<lambda>st. fold_result (\<lambda>st q. fold_result (eval_and_short h repeat q) st
      [0..<div_ceil (fst q) default_length]) st (quads args)) (plain_and repeat args)"
  unfolding plain_and_def
proof (intro sim_fold)
  fix q j
  assume q: "q \<in> set (quads args)" and j: "j \<in> set [0..<div_ceil (fst q) default_length]"
  obtain n out l r where "q = (n, out, l, r)" by (cases q)
  then show "sim d (\<lambda>s. garble_and_short h d repeat q s j) (\<lambda>s. eval_and_short h repeat q s j)
      (\<lambda>s. plain_and_unit repeat q s j)"
    using assms q j sim_short [OF assms(1)] by (simp add: args_disjoint_def)
qed

section \<open>Correctness of the instruction\<close>

lemma and_singlethread_steps:
  assumes d: "get_signal d" and len: "length args mod 4 = 0"
    and args: "args_disjoint repeat args" "repeat \<Longrightarrow> args_single_unit args"
    and S: "same_shape S V" and P: "plain_and repeat args V = Inr V'"
  obtains S' gs where
    "steps d (garble_and_singlethread h d base repeat args) (eval_and_singlethread h base repeat args) S V c S' V' gs"
proof -
  obtain total where total: "check_args args 4 = Inr total" using len by (simp add: check_args_def)
  show ?thesis
  proof (cases "total < 10")
    case True
    obtain S' gs where 1: "steps d (\<lambda>st. fold_result (\<lambda>st q. fold_result (garble_and_short h d repeat q) st
        [0..<div_ceil (fst q) default_length]) st (quads args))
      (\<lambda>st. fold_result (\<lambda>st q. fold_result (eval_and_short h repeat q) st
        [0..<div_ceil (fst q) default_length]) st (quads args)) S V c S' V' gs"
      using sim_shorts [OF d args(1), of h] S P unfolding sim_def by blast
    have "steps d (garble_and_singlethread h d base repeat args) (eval_and_singlethread h base repeat args) S V c S' V' gs"
      using 1 total True by (simp add: steps_def garble_and_singlethread_def eval_and_singlethread_def)
    then show ?thesis by (rule that)
  next
    case False
    have "sim d (\<lambda>st. fold_result (garble_and_tuple h d repeat) st (quads args))
        (\<lambda>st. fold_result (eval_and_tuple h repeat) st (quads args)) (plain_and repeat args)"
      using sim_tuples [OF d, of "quads args" repeat h] args
      unfolding plain_and_def by (auto simp: args_disjoint_def args_single_unit_def)
    then obtain S' gs where 1: "steps d (\<lambda>st. fold_result (garble_and_tuple h d repeat) st (quads args))
        (\<lambda>st. fold_result (eval_and_tuple h repeat) st (quads args)) S V (c + base) S' V' gs"
      using S P unfolding sim_def by blast
    have c: "c + (c + base + word_of_nat (length gs) - (c + base)) = c + word_of_nat (length gs)" by simp
    have "\<exists>p'. garble_and_singlethread h d base repeat args (gst S gs0 c p) =
        Inr (gst S' (gs0 @ gs) (c + word_of_nat (length gs)) p')" for gs0 p
      using stepsD(2) [OF 1, of gs0 p] total False
      by (auto simp: garble_and_singlethread_def garble_and_range_def c)
    moreover have "eval_and_singlethread h base repeat args (est (labels d S V) (gs @ rest) c) =
        Inr (est (labels d S' V') rest (c + word_of_nat (length gs)))" for rest
      using stepsD(3) [OF 1, of rest] total False
      by (simp add: eval_and_singlethread_def eval_and_range_def c)
    ultimately have "steps d (garble_and_singlethread h d base repeat args)
        (eval_and_singlethread h base repeat args) S V c S' V' gs"
      using stepsD(1) [OF 1] by (simp add: steps_def)
    then show ?thesis by (rule that)
  qed
qed



text \<open>
  \<^verbatim>\<open>andrs\<close> on more than a register reads the wrong register on the garbler's side.  In every
  unit after the first the garbler takes the repeated factor from register \<^verbatim>\<open>r + j\<close>, the evaluator
  and the instruction's meaning from register \<^verbatim>\<open>r\<close>: when \<^verbatim>\<open>r + j\<close> is past the last register the
  garbler accesses memory outside the vector, although the unit succeeds on the plain bits.
\<close>

theorem andrs_reads_past_register:
  assumes "same_shape (g_mem st) V" "plain_and_unit True (n, out, l, r) V j = Inr V'"
    and "0 < j" "j * default_length < n" "length V \<le> r + j"
  shows "garble_and_unit h d True (n, out, l, r) st j = Inl undefined_access"
proof -
  let ?left = "min default_length (n - j * default_length)"
  have pos: "0 < ?left" using assms(4) by (simp add: default_length_def)
  then have upt: "[0..<?left] = 0 # [1..<?left]" by (simp add: upt_conv_Cons)
  obtain S1 where S1: "resize_reg m128_zero (g_mem st) (out + j) ?left = Inr S1"
    using assms(2) labels_resize(1) [OF assms(1)] by (auto simp: plain_and_unit_def Let_def bind_result_Inr_iff)
  have "length S1 = length V" using S1 same_shapeD(1) [OF assms(1)] by (auto simp: resize_reg_Inr)
  then have "get_reg S1 (r + j) 0 = Inl undefined_access"
    using assms(5) by (simp add: get_reg_def vec_read_def)
  then have "garble_and_wire h d True (out + j) (l + j) (r + j) (st\<lparr>g_mem := S1\<rparr>) 0 = Inl undefined_access"
    by (cases "get_reg S1 (l + j) 0") (auto simp: garble_and_wire_def Let_def dest: reg_Inl)
  then show ?thesis by (simp add: garble_and_unit_def Let_def S1 upt)
qed

lemma andrs_reads_past_register_witness:
  "garble_and_unit (\<lambda>k. k) (1, 0) True (65, 0, 2, 4)
    (gst [[], [], [], [(1, 2)], [(3, 4)]] [] 0 \<lparr>doublewords = \<lambda>_. (1, 2), used = 0\<rparr>) 1 = Inl undefined_access"
proof -
  have "plain_and_unit True (65, 0, 2, 4) [[], [], [], [True], [True]] 1 =
      Inr [[], [True], [], [True], [True]]"
    by (simp add: plain_and_unit_def plain_and_wire_def default_length_def
        resize_reg_def resize_regs_def get_reg_def set_reg_def vec_read_def vec_write_def upt_rec)
  from andrs_reads_past_register [OF _ this] show ?thesis
    by (simp add: same_shape_def default_length_def)
qed

end
