(* ===== verification/Yao_Jobs.thy ===== *)
theory Yao_Jobs
  imports Yao_And_Correct
begin

text \<open>
  How the two parties split a long AND instruction over worker threads
  (\<^verbatim>\<open>YaoCommon.hpp\<close>, \<^verbatim>\<open>YaoAndJob.h\<close>, \<^verbatim>\<open>and_multithread\<close>) and number their gates
  (\<^verbatim>\<open>YaoCommon.h\<close>).  The jobs of one instruction are run one after the other here, each on the
  memory its predecessors left; their gate numbers and their places in the gate buffer are those
  fixed at dispatch.
\<close>

section \<open>Gate numbers\<close>

text \<open>\<^verbatim>\<open>floor(log2(n_threads))\<close>.\<close>

fun floor_log2 :: "nat \<Rightarrow> nat" where
  "floor_log2 n = (if n < 2 then 0 else Suc (floor_log2 (n div 2)))"

declare floor_log2.simps [simp del]

text \<open>
  \<^verbatim>\<open>thread_num << (64 - log_n_threads)\<close>; a shift by 64, for one thread, has no meaning in C++.
\<close>

definition gate_id :: "nat \<Rightarrow> u64 \<Rightarrow> nat \<Rightarrow> u64 result" where
  "gate_id log_n_threads counter thread_num =
    (if log_n_threads = 0 then Inl undefined_access
     else Inr (counter + push_bit (64 - log_n_threads) (word_of_nat thread_num)))"

definition n_worker_threads :: "nat \<Rightarrow> nat \<Rightarrow> nat" where
  "n_worker_threads hardware_concurrency nthreads = max 1 (hardware_concurrency div nthreads)"

section \<open>Splitting an instruction\<close>

fun splits :: "nat \<Rightarrow> nat \<Rightarrow> nat \<Rightarrow> (nat \<times> nat \<times> nat \<times> nat) list \<Rightarrow> (nat \<times> nat) list" where
  "splits max_gates i_gate it [] = []"
| "splits max_gates i_gate it (q # qs) =
    (let i_gate = i_gate + fst q;
         stop = it + 4
     in if max_gates \<le> i_gate \<or> qs = []
        then (i_gate, stop) # splits max_gates 0 stop qs
        else splits max_gates i_gate stop qs)"

definition get_splits :: "nat list \<Rightarrow> nat \<Rightarrow> nat \<Rightarrow> nat \<Rightarrow> (nat \<times> nat) list" where
  "get_splits args threshold total_ands workers =
    (let max_gates_per_thread = max (threshold div 2) ((total_ands + workers - 1) div workers)
     in splits max_gates_per_thread 0 0 (quads args))"

section \<open>Garbling in parallel\<close>

text \<open>
  One dispatch: the job garbles from \<open>start\<close> to \<open>stop\<close> with its own generator, numbering its gates
  from the thread's gate number; the party's counter advances by \<open>i_gate\<close>.
\<close>

definition garble_job ::
  "(m128 \<Rightarrow> m128) \<Rightarrow> m128 \<Rightarrow> u64 \<Rightarrow> bool \<Rightarrow> nat list \<Rightarrow> prng list \<Rightarrow>
    Garbler_state \<times> nat \<times> nat \<Rightarrow> nat \<times> nat \<Rightarrow> (Garbler_state \<times> nat \<times> nat) result" where
  "garble_job h d base repeat args jobs = (\<lambda>(st, start, i_thread) (i_gate, stop).
    bind_result (vec_read jobs i_thread) (\<lambda>p.
    bind_result (garble_and_range h d repeat args start stop
      (st\<lparr>g_counter := g_counter st + base, g_prng := p\<rparr>)) (\<lambda>st'.
    Inr (st'\<lparr>g_counter := g_counter st + word_of_nat i_gate, g_prng := g_prng st\<rparr>, stop, i_thread + 1))))"

definition garble_and_multithread ::
  "(m128 \<Rightarrow> m128) \<Rightarrow> m128 \<Rightarrow> u64 \<Rightarrow> bool \<Rightarrow> nat \<Rightarrow> nat list \<Rightarrow> prng list \<Rightarrow> Garbler_state \<Rightarrow> Garbler_state result" where
  "garble_and_multithread h d base repeat threshold args jobs st =
    bind_result (check_args args 4) (\<lambda>total_ands.
      if total_ands < threshold then garble_and_singlethread h d base repeat args st
      else bind_result (fold_result (garble_job h d base repeat args jobs) (st, 0, 0)
             (get_splits args threshold total_ands (length jobs))) (\<lambda>(st, start, i_thread). Inr st))"

text \<open>
  The evaluator: \<^verbatim>\<open>consume\<close> takes the job's gates off the message (and fails when they are not
  there), \<open>1024\<close> is its fixed threshold.
\<close>

definition eval_job ::
  "(m128 \<Rightarrow> m128) \<Rightarrow> u64 \<Rightarrow> bool \<Rightarrow> nat list \<Rightarrow> nat \<Rightarrow>
    Evaluator_state \<times> nat \<times> nat \<Rightarrow> nat \<times> nat \<Rightarrow> (Evaluator_state \<times> nat \<times> nat) result" where
  "eval_job h base repeat args n_jobs = (\<lambda>(st, start, i_thread) (i_gate, stop).
    if n_jobs \<le> i_thread \<or> length (e_gates st) < i_gate then Inl undefined_access
    else bind_result (eval_and_range h repeat args start stop
      (st\<lparr>e_gates := take i_gate (e_gates st), e_counter := e_counter st + base\<rparr>)) (\<lambda>st'.
    Inr (st'\<lparr>e_gates := drop i_gate (e_gates st), e_counter := e_counter st + word_of_nat i_gate\<rparr>,
         stop, i_thread + 1)))"

definition eval_and_multithread ::
  "(m128 \<Rightarrow> m128) \<Rightarrow> u64 \<Rightarrow> bool \<Rightarrow> nat list \<Rightarrow> nat \<Rightarrow> Evaluator_state \<Rightarrow> Evaluator_state result" where
  "eval_and_multithread h base repeat args n_jobs st =
    bind_result (check_args args 4) (\<lambda>total_ands.
      if total_ands < 1024 then eval_and_singlethread h base repeat args st
      else bind_result (fold_result (eval_job h base repeat args n_jobs) (st, 0, 0)
             (get_splits args 1024 total_ands n_jobs)) (\<lambda>(st, start, i_thread). Inr st))"

section \<open>The chunks of a split\<close>

lemma quads_append: "length xs mod 4 = 0 \<Longrightarrow> quads (xs @ ys) = quads xs @ quads ys"
  by (induction xs rule: quads.induct) auto

lemma quads_sum:
  "length args mod 4 = 0 \<Longrightarrow> (\<Sum>i\<leftarrow>[0..<length args div 4]. args ! (4 * i)) = (\<Sum>q\<leftarrow>quads args. fst q)"
proof (induction args rule: quads.induct)
  case (1 n out l r args)
  have "[0..<length (n # out # l # r # args) div 4] = 0 # map Suc [0..<length args div 4]"
  proof -
    have "length (n # out # l # r # args) div 4 = Suc (length args div 4)" by simp
    then show ?thesis by (simp only: map_Suc_upt upt_conv_Cons)
  qed
  then show ?case using 1 by (simp add: o_def)
qed simp_all

lemma check_args_total: "check_args args 4 = Inr total_ands \<longleftrightarrow>
    length args mod 4 = 0 \<and> total_ands = (\<Sum>q\<leftarrow>quads args. fst q)"
  using quads_sum [of args] by (auto simp: check_args_def)

lemma splits_sum: "(\<Sum>x\<leftarrow>splits m i it qs. fst x) = (if qs = [] then 0 else i + (\<Sum>q\<leftarrow>qs. fst q))"
  by (induction m i it qs rule: splits.induct) (auto simp: Let_def)

lemma splits_full: "x \<in> set (butlast (splits m i it qs)) \<Longrightarrow> m \<le> fst x"
proof (induction m i it qs rule: splits.induct)
  case (2 m i it q qs)
  then show ?case by (cases "qs = []") (auto simp: Let_def split: if_splits)
qed simp

lemma splits_last_stop: "qs \<noteq> [] \<Longrightarrow> splits m i it qs \<noteq> [] \<and> snd (last (splits m i it qs)) = it + 4 * length qs"
proof (induction m i it qs rule: splits.induct)
  case (2 m i it q qs)
  then show ?case by (cases "qs = []") (auto simp: Let_def)
qed simp

lemma splits_last_pos:
  "qs \<noteq> [] \<Longrightarrow> \<forall>q \<in> set qs. 0 < fst q \<Longrightarrow> 0 < fst (last (splits m i it qs))"
proof (induction m i it qs rule: splits.induct)
  case (2 m i it q qs)
  then show ?case
    using splits_last_stop [of qs m 0 "it + 4"] by (cases "qs = []") (auto simp: Let_def)
qed simp

lemma length_mult_le_sum: "\<forall>x \<in> set xs. m \<le> f x \<Longrightarrow> length xs * m \<le> (\<Sum>x\<leftarrow>xs. f x)" for m :: nat
  by (induction xs) auto

lemma get_splits_jobs:
  assumes "check_args args 4 = Inr total_ands" "args \<noteq> []" "0 < workers"
    and "\<forall>q \<in> set (quads args). 0 < fst q"
  shows "length (get_splits args threshold total_ands workers) \<le> workers \<and>
    (\<Sum>x\<leftarrow>get_splits args threshold total_ands workers. fst x) = total_ands \<and>
    snd (last (get_splits args threshold total_ands workers)) = length args"
proof -
  define m where "m = max (threshold div 2) ((total_ands + workers - 1) div workers)"
  define ss where "ss = splits m 0 0 (quads args)"
  have args: "length args mod 4 = 0" "total_ands = (\<Sum>q\<leftarrow>quads args. fst q)"
    using assms(1) by (simp_all add: check_args_total)
  have ne: "quads args \<noteq> []" using args(1) assms(2) by (cases args rule: quads.cases) auto
  have len: "4 * length (quads args) = length args"
    using args(1) by (induction args rule: quads.induct) auto
  have sum: "(\<Sum>x\<leftarrow>ss. fst x) = total_ands" using ne by (simp add: ss_def splits_sum args(2))
  have last: "ss \<noteq> []" "snd (last ss) = length args" "0 < fst (last ss)"
    using splits_last_stop [OF ne, of m 0 0] splits_last_pos [OF ne assms(4)] len by (simp_all add: ss_def)
  have "(\<Sum>x\<leftarrow>butlast ss @ [last ss]. fst x) = total_ands" using sum last(1) by simp
  then have "total_ands = (\<Sum>x\<leftarrow>butlast ss. fst x) + fst (last ss)" by simp
  then have less: "length (butlast ss) * m < total_ands"
    using length_mult_le_sum [of "butlast ss" m fst] splits_full last(3) by (force simp: ss_def)
  have "total_ands \<le> workers * ((total_ands + workers - 1) div workers)"
  proof -
    let ?k = "total_ands + workers - 1"
    have "workers * (?k div workers) + ?k mod workers = ?k" by simp
    moreover have "?k mod workers < workers" using assms(3) by simp
    ultimately show ?thesis by linarith
  qed
  also have "\<dots> \<le> workers * m" by (simp add: m_def)
  finally have "total_ands \<le> workers * m" .
  with less have "length (butlast ss) * m < workers * m" by (rule less_le_trans)
  then have "length (butlast ss) < workers" by (simp only: mult_less_cancel2)
  then have "length ss \<le> workers" by simp
  then show ?thesis using sum last(2)
    unfolding get_splits_def Let_def m_def [symmetric] ss_def [symmetric] by blast
qed

section \<open>Gate counts\<close>

text \<open>An operation that appends \<open>k\<close> gates and advances the counter by \<open>k\<close>.\<close>

definition adds :: "(Garbler_state \<Rightarrow> Garbler_state result) \<Rightarrow> nat \<Rightarrow> bool" where
  "adds G k \<longleftrightarrow> (\<forall>st st'. G st = Inr st' \<longrightarrow>
    length (g_gates st') = length (g_gates st) + k \<and> g_counter st' = g_counter st + word_of_nat k)"

lemma adds_fold:
  "(\<And>x. x \<in> set xs \<Longrightarrow> adds (\<lambda>st. G st x) (f x)) \<Longrightarrow> adds (\<lambda>st. fold_result G st xs) (\<Sum>x\<leftarrow>xs. f x)"
proof (induction xs)
  case (Cons x xs)
  then have "adds (\<lambda>st. G st x) (f x)" "adds (\<lambda>st. fold_result G st xs) (\<Sum>x\<leftarrow>xs. f x)" by simp_all
  then show ?case by (fastforce simp: adds_def bind_result_Inr_iff)
qed (simp add: adds_def)

lemma adds_wire: "adds (\<lambda>st. garble_and_wire h d repeat out l r st k) 1"
  by (auto simp: adds_def garble_and_wire_def Let_def bind_result_Inr_iff split_beta)

lemma adds_bit: "adds (garble_and_bit h d out l r) 1"
  by (auto simp: adds_def garble_and_bit_def Let_def bind_result_Inr_iff split_beta)

lemma adds_unit: "adds (\<lambda>st. garble_and_unit h d repeat (n, out, l, r) st j)
    (min default_length (n - j * default_length))"
proof -
  let ?k = "min default_length (n - j * default_length)"
  have "adds (\<lambda>st. fold_result (garble_and_wire h d repeat (out + j) (l + j) (r + j)) st [0..<?k])
      (\<Sum>x\<leftarrow>[0..<?k]. 1)"
    by (intro adds_fold adds_wire)
  then show ?thesis
    by (auto simp: adds_def garble_and_unit_def Let_def bind_result_Inr_iff sum_list_triv)
qed

lemma units_total: "(\<Sum>j\<leftarrow>[0..<div_ceil n default_length]. min default_length (n - j * default_length)) = n"
proof -
  have "(\<Sum>j\<leftarrow>[0..<m]. min L (n - j * L)) = min (m * L) n" for m L by (induction m) auto
  moreover have "n \<le> div_ceil n default_length * default_length"
    by (simp add: div_ceil_def default_length_def)
  ultimately show ?thesis by simp
qed

lemma adds_tuple: "adds (\<lambda>st. garble_and_tuple h d repeat st q) (fst q)"
proof -
  obtain n out l r where q: "q = (n, out, l, r)" by (cases q)
  have "adds (\<lambda>st. fold_result (garble_and_unit h d repeat (n, out, l, r)) st [0..<div_ceil n default_length])
      (\<Sum>j\<leftarrow>[0..<div_ceil n default_length]. min default_length (n - j * default_length))"
    by (intro adds_fold adds_unit)
  then show ?thesis
    using adds_bit [of h d out l r] by (cases "n = 1") (simp_all add: q garble_and_tuple_def units_total)
qed

lemma adds_tuples: "adds (\<lambda>st. fold_result (garble_and_tuple h d repeat) st qs) (\<Sum>q\<leftarrow>qs. fst q)"
  by (intro adds_fold adds_tuple)

section \<open>Parallel garbling is sequential garbling\<close>

abbreviation plain_tuples :: "bool \<Rightarrow> bool memory \<Rightarrow> (nat \<times> nat \<times> nat \<times> nat) list \<Rightarrow> bool memory result" where
  "plain_tuples repeat \<equiv> fold_result
    (\<lambda>V q. fold_result (plain_and_unit repeat q) V [0..<div_ceil (fst q) default_length])"

definition quads_ok :: "bool \<Rightarrow> (nat \<times> nat \<times> nat \<times> nat) list \<Rightarrow> bool" where
  "quads_ok repeat qs \<longleftrightarrow> (\<forall>q \<in> set qs. quad_disjoint repeat q \<and> (repeat \<longrightarrow> fst q \<le> default_length))"

lemma quads_ok_append [simp]: "quads_ok repeat (xs @ ys) \<longleftrightarrow> quads_ok repeat xs \<and> quads_ok repeat ys"
  by (auto simp: quads_ok_def)

lemma tuples_steps:
  assumes "get_signal d" "quads_ok repeat qs" "same_shape S V" "plain_tuples repeat V qs = Inr V'"
  obtains S' gs where
    "steps d (\<lambda>st. fold_result (garble_and_tuple h d repeat) st qs)
      (\<lambda>st. fold_result (eval_and_tuple h repeat) st qs) S V c S' V' gs"
    "length gs = (\<Sum>q\<leftarrow>qs. fst q)"
proof -
  have "sim d (\<lambda>st. fold_result (garble_and_tuple h d repeat) st qs)
      (\<lambda>st. fold_result (eval_and_tuple h repeat) st qs) (\<lambda>V. plain_tuples repeat V qs)"
    using assms(1,2) by (intro sim_tuples) (auto simp: quads_ok_def)
  then obtain S' gs where st: "steps d (\<lambda>st. fold_result (garble_and_tuple h d repeat) st qs)
      (\<lambda>st. fold_result (eval_and_tuple h repeat) st qs) S V c S' V' gs"
    using assms(3,4) unfolding sim_def by blast
  obtain p' where "fold_result (garble_and_tuple h d repeat)
      (gst S [] c \<lparr>doublewords = \<lambda>_. (0, 0), used = 0\<rparr>) qs =
      Inr (gst S' ([] @ gs) (c + word_of_nat (length gs)) p')"
    using stepsD(2) [OF st] by blast
  then have "length gs = (\<Sum>q\<leftarrow>qs. fst q)"
    using adds_tuples [of h d repeat qs] unfolding adds_def by fastforce
  with st show thesis by (rule that)
qed

lemma drop_take_middle: "drop (length pre) (take (length pre + length A) (pre @ A @ B)) = A"
  by simp

lemma job_step:
  assumes "steps d (\<lambda>st. fold_result (garble_and_tuple h d repeat) st (quads A))
      (\<lambda>st. fold_result (eval_and_tuple h repeat) st (quads A)) S V (c + base) S' V' gs"
    and "length gs = i" "k < length jobs"
  shows "garble_job h d base repeat (pre @ A @ B) jobs (gst S gs0 c p, length pre, k) (i, length pre + length A) =
    Inr (gst S' (gs0 @ gs) (c + word_of_nat i) p, length pre + length A, k + 1)"
proof -
  obtain p' where "fold_result (garble_and_tuple h d repeat) (gst S gs0 (c + base) (jobs ! k)) (quads A) =
      Inr (gst S' (gs0 @ gs) (c + base + word_of_nat (length gs)) p')"
    using stepsD(2) [OF assms(1)] by blast
  then show ?thesis using assms(2,3) by (simp add: garble_job_def garble_and_range_def)
qed

lemma jobs_steps:
  assumes d: "get_signal d" and ok: "quads_ok repeat (quads A @ quads B)"
    and len: "length A mod 4 = 0" "length B mod 4 = 0" and i: "i = (\<Sum>q\<leftarrow>quads A. fst q)"
    and S: "same_shape S V" and P: "plain_tuples repeat V (quads A @ quads B) = Inr V'"
    and pos: "pos = length pre + length A" and k: "k + length (splits m i pos (quads B)) \<le> length jobs"
    and ne: "B = [] \<Longrightarrow> A = []"
  shows "\<exists>S' gs. steps d (\<lambda>st. fold_result (garble_and_tuple h d repeat) st (quads A @ quads B))
      (\<lambda>st. fold_result (eval_and_tuple h repeat) st (quads A @ quads B)) S V (c + base) S' V' gs \<and>
    (\<forall>gs0 p. \<exists>stop k'. fold_result (garble_job h d base repeat (pre @ A @ B) jobs) (gst S gs0 c p, length pre, k)
      (splits m i pos (quads B)) =
      Inr (gst S' (gs0 @ gs) (c + word_of_nat (length gs)) p, stop, k'))"
  using ok len i S P pos k ne
proof (induction B arbitrary: pre A i pos S V c k rule: quads.induct)
  case (1 n out l r B)
  let ?q = "(n, out, l, r)"
  let ?A = "A @ [n, out, l, r]"
  have A: "quads ?A = quads A @ [?q]" "length ?A mod 4 = 0"
    using 1(3) by (simp_all add: quads_append)
  have B: "length B mod 4 = 0" using 1(4) by simp
  have qs: "quads A @ quads (n # out # l # r # B) = quads ?A @ quads B" by (simp add: A(1))
  have args: "pre @ A @ n # out # l # r # B = pre @ ?A @ B" by simp
  have pos: "pos + 4 = length pre + length ?A" using 1(8) by simp
  show ?case
  proof (cases "m \<le> i + n \<or> quads B = []")
    case False
    then have sp: "splits m i pos (quads (n # out # l # r # B)) = splits m (i + n) (pos + 4) (quads B)"
      by (simp add: Let_def)
    have "i + n = (\<Sum>q\<leftarrow>quads ?A. fst q)" using 1(5) by (simp add: A(1))
    moreover have "B \<noteq> []" using False by auto
    ultimately show ?thesis
      using 1(1) [of ?A "i + n" S V "pos + 4" pre k c] 1(2,6,7,9) A(2) B pos
      unfolding qs args sp by blast
  next
    case True
    then have sp: "splits m i pos (quads (n # out # l # r # B)) =
        (i + n, length pre + length ?A) # splits m 0 (pos + 4) (quads B)"
      using pos by (simp add: Let_def)
    obtain V1 where P1: "plain_tuples repeat V (quads ?A) = Inr V1" "plain_tuples repeat V1 (quads B) = Inr V'"
      using 1(7) unfolding qs by (auto simp: fold_result_append bind_result_Inr_iff)
    have okA: "quads_ok repeat (quads ?A)" and okB: "quads_ok repeat (quads B)"
      using 1(2) unfolding qs by simp_all
    from tuples_steps [OF d okA 1(6) P1(1), where c = "c + base" and h = h]
    obtain S1 gs1 where st1: "steps d (\<lambda>st. fold_result (garble_and_tuple h d repeat) st (quads ?A))
        (\<lambda>st. fold_result (eval_and_tuple h repeat) st (quads ?A)) S V (c + base) S1 V1 gs1"
      and l0: "length gs1 = (\<Sum>q\<leftarrow>quads ?A. fst q)" .
    have l1: "length gs1 = i + n" using l0 1(5) by (simp add: A(1))
    have kk: "k < length jobs" "k + 1 + length (splits m 0 (pos + 4) (quads B)) \<le> length jobs"
      using 1(9) unfolding sp by simp_all
    note job = job_step [OF st1 l1 kk(1), where pre = pre and B = B]
    from 1(1) [of "[]" 0 S1 V1 "pos + 4" "pre @ ?A" "k + 1" "c + word_of_nat (i + n)"]
    obtain S2 gs2 where st2: "steps d (\<lambda>st. fold_result (garble_and_tuple h d repeat) st (quads B))
        (\<lambda>st. fold_result (eval_and_tuple h repeat) st (quads B)) S1 V1
        (c + word_of_nat (i + n) + base) S2 V' gs2"
      and run: "\<And>gs0 p. \<exists>stop k'. fold_result (garble_job h d base repeat (pre @ ?A @ B) jobs)
        (gst S1 gs0 (c + word_of_nat (i + n)) p, length pre + length ?A, k + 1) (splits m 0 (pos + 4) (quads B)) =
        Inr (gst S2 (gs0 @ gs2) (c + word_of_nat (i + n) + word_of_nat (length gs2)) p, stop, k')"
      using okB B P1(2) stepsD(1) [OF st1] kk(2) pos by (simp del: of_nat_add) blast
    have "c + base + word_of_nat (length gs1) = c + word_of_nat (i + n) + base" by (simp add: l1)
    with st2 have st2: "steps d (\<lambda>st. fold_result (garble_and_tuple h d repeat) st (quads B))
        (\<lambda>st. fold_result (eval_and_tuple h repeat) st (quads B)) S1 V1
        (c + base + word_of_nat (length gs1)) S2 V' gs2" by (simp only:)
    have "\<exists>stop k'. fold_result (garble_job h d base repeat (pre @ ?A @ B) jobs) (gst S gs0 c p, length pre, k)
        ((i + n, length pre + length ?A) # splits m 0 (pos + 4) (quads B)) =
        Inr (gst S2 (gs0 @ gs1 @ gs2) (c + word_of_nat (length (gs1 @ gs2))) p, stop, k')" for gs0 p
      using run [of "gs0 @ gs1" p] job [of gs0 p] l1 by (simp add: add.assoc)
    then show ?thesis
      using steps_bind [OF st1 st2] unfolding qs args sp fold_result_append by blast
  qed
qed (simp_all add: steps_return)

text \<open>
  The splitting never asks for more workers than there are.  When every tuple of the instruction
  is non-empty, the jobs cover the argument list up to its end, their gate counts add up to the
  total, and there are at most as many jobs as worker threads, so that indexing the workers by the
  job's number stays inside the vector.
\<close>

theorem get_splits_bounded:
  assumes "check_args args 4 = Inr total_ands" "args \<noteq> []" "0 < workers"
    and "\<forall>q \<in> set (quads args). 0 < fst q"
  shows "length (get_splits args threshold total_ands workers) \<le> workers \<and>
    (\<Sum>x\<leftarrow>get_splits args threshold total_ands workers. fst x) = total_ands \<and>
    snd (last (get_splits args threshold total_ands workers)) = length args"
  by (rule get_splits_jobs [OF assms])

lemma get_splits_bounded_witness:
  "length (get_splits [600, 1, 2, 3, 500, 4, 5, 6, 700, 7, 8, 9] 1024 1800 3) \<le> 3"
  using get_splits_bounded [of "[600, 1, 2, 3, 500, 4, 5, 6, 700, 7, 8, 9]" 1800 3 1024]
  by (simp add: check_args_total)



section \<open>Gate numbers of different threads\<close>

lemma unat_gate_offset:
  assumes "0 < k" "k \<le> 64" "i < 2 ^ k" "unat c < 2 ^ (64 - k)"
  shows "unat (c + push_bit (64 - k) (word_of_nat i) :: u64) = unat c + i * 2 ^ (64 - k)"
proof -
  have p: "(2 :: nat) ^ k * 2 ^ (64 - k) = 2 ^ 64" using assms(2) by (simp flip: power_add)
  have "(i + 1) * 2 ^ (64 - k) \<le> 2 ^ k * 2 ^ (64 - k)" using assms(3) by (intro mult_right_mono) auto
  then have lt: "unat c + i * 2 ^ (64 - k) < 2 ^ 64" using assms(4) unfolding p by simp
  have "c + push_bit (64 - k) (word_of_nat i) = word_of_nat (unat c + i * 2 ^ (64 - k))"
    by (simp add: push_bit_eq_mult)
  then show ?thesis using lt by (simp only: unat_of_nat) simp
qed

lemma gate_id_inj:
  assumes "i < 2 ^ k" "j < 2 ^ k" "k \<le> 64" "unat c < 2 ^ (64 - k)" "unat c' < 2 ^ (64 - k)"
    and "gate_id k c i = Inr x" "gate_id k c' j = Inr x"
  shows "i = j \<and> c = c'"
proof -
  have k: "0 < k" using assms(6) by (auto simp: gate_id_def split: if_splits)
  have "unat c + i * 2 ^ (64 - k) = unat c' + j * 2 ^ (64 - k)"
    using assms(6,7) unat_gate_offset [OF k assms(3) assms(1,4)] unat_gate_offset [OF k assms(3) assms(2,5)]
    by (auto simp: gate_id_def split: if_splits)
  moreover have "(unat c + i * 2 ^ (64 - k)) div 2 ^ (64 - k) = i" "(unat c' + j * 2 ^ (64 - k)) div 2 ^ (64 - k) = j"
    using assms(4,5) by simp_all
  ultimately have "i = j" by metis
  with \<open>unat c + _ = _\<close> show ?thesis by (simp add: word_unat_eq_iff)
qed

lemma floor_log2_power: "floor_log2 (2 ^ k) = k"
proof (induction k)
  case (Suc k)
  have "floor_log2 (2 * 2 ^ k) = Suc (floor_log2 (2 ^ k))"
    by (subst floor_log2.simps) (simp add: not_less)
  then show ?case using Suc by simp
qed (simp add: floor_log2.simps)

text \<open>
  Gate numbers of different threads are different when the number of program threads is a power
  of two: for \<^verbatim>\<open>2 ^ k\<close> threads and gate counters below \<^verbatim>\<open>2 ^ (64 - k)\<close>, equal gate numbers come
  from the same thread and the same counter, so no two AND gates hash under the same number.
\<close>

theorem gate_id_injective:
  assumes "i < 2 ^ k" "j < 2 ^ k" "k \<le> 64" "unat c < 2 ^ (64 - k)" "unat c' < 2 ^ (64 - k)"
    and "gate_id (floor_log2 (2 ^ k)) c i = Inr x" "gate_id (floor_log2 (2 ^ k)) c' j = Inr x"
  shows "i = j \<and> c = c'"
  using gate_id_inj [OF assms(1-5)] assms(6,7) by (simp add: floor_log2_power)

lemma gate_id_injective_witness:
  "gate_id (floor_log2 (2 ^ 1)) 5 1 = Inr (5 + push_bit 63 1) \<and>
   gate_id (floor_log2 (2 ^ 1)) 5 0 \<noteq> Inr (5 + push_bit 63 1)"
  using gate_id_injective [of 1 1 0 5 5 "5 + push_bit 63 1"]
  by (auto simp: gate_id_def floor_log2.simps)

text \<open>
  For any other number of program threads, gate numbers collide.  The logarithm is rounded down,
  so the last threads, among them \<^verbatim>\<open>2 ^ k\<close>, have a bit too many: thread \<^verbatim>\<open>2 ^ k\<close> shifts its number out of the word and uses the numbers of
  thread 0 at every counter; with three threads, thread 2 repeats thread 0.
\<close>

theorem gate_id_collides:
  assumes "k = floor_log2 n" "2 ^ k < n"
  shows "gate_id k c (2 ^ k) = gate_id k c 0"
proof -
  have "k \<le> 64 \<Longrightarrow> push_bit (64 - k) (word_of_nat (2 ^ k)) = (0 :: u64)"
  proof -
    assume "k \<le> 64"
    then have "push_bit (64 - k) (word_of_nat (2 ^ k)) = (2 ^ LENGTH(64) :: u64)"
      by (simp add: push_bit_eq_mult flip: power_add)
    then show ?thesis by (simp only: word_exp_length_eq_0)
  qed
  moreover have "64 < k \<Longrightarrow> (word_of_nat (2 ^ k) :: u64) = 0"
  proof -
    assume "64 < k"
    then have "k = LENGTH(64) + (k - 64)" by simp
    then have "(2 :: u64) ^ k = 2 ^ LENGTH(64) * 2 ^ (k - 64)" by (metis power_add)
    then show ?thesis by (simp only: word_exp_length_eq_0) simp
  qed
  ultimately show ?thesis by (cases "k \<le> 64") (simp_all add: gate_id_def)
qed

lemma gate_id_collides_witness: "gate_id 1 7 2 = gate_id 1 7 0"
  using gate_id_collides [of 1 3 7] by (simp add: floor_log2.simps)

end
