(* ===== verification/Yao_Wires.thy ===== *)
theory Yao_Wires
  imports Yao_And_Correct
begin

text \<open>
  The instructions of the Yao virtual machine that need no gate, and the wires that enter and leave
  it: exclusive or, negation, public values and masking (\<^verbatim>\<open>GC/Processor.hpp\<close>,
  \<^verbatim>\<open>GC/Secret_inline.h\<close>, \<^verbatim>\<open>YaoWire.hpp\<close>), inputs by correlated oblivious transfer and outputs
  by masks (\<^verbatim>\<open>YaoGarbleWire\<close>, \<^verbatim>\<open>YaoEvalWire\<close>, \<^verbatim>\<open>YaoEvalInput.h\<close>).
\<close>

section \<open>Exclusive or\<close>

text \<open>\<^verbatim>\<open>Secret::xor_\<close>: the output is resized, then written wire by wire.\<close>

definition xor_wire :: "('a \<Rightarrow> 'a \<Rightarrow> 'a) \<Rightarrow> nat \<Rightarrow> nat \<Rightarrow> nat \<Rightarrow> 'a memory \<Rightarrow> nat \<Rightarrow> 'a memory result" where
  "xor_wire f out x y S i =
    bind_result (get_reg S x i) (\<lambda>a. bind_result (get_reg S y i) (\<lambda>b. set_reg S out i (f a b)))"

definition xor_reg :: "('a \<Rightarrow> 'a \<Rightarrow> 'a) \<Rightarrow> 'a \<Rightarrow> nat \<Rightarrow> nat \<Rightarrow> nat \<Rightarrow> nat \<Rightarrow> 'a memory \<Rightarrow> 'a memory result" where
  "xor_reg f fresh n out x y S =
    bind_result (resize_reg fresh S out n) (\<lambda>S. fold_result (xor_wire f out x y) S [0..<n])"

definition xors_tuple ::
  "('a \<Rightarrow> 'a \<Rightarrow> 'a) \<Rightarrow> 'a \<Rightarrow> 'a memory \<Rightarrow> nat \<times> nat \<times> nat \<times> nat \<Rightarrow> 'a memory result" where
  "xors_tuple f fresh S = (\<lambda>(n, out, x, y).
    if n = 1 then xor_reg f fresh 1 out x y S
    else fold_result (\<lambda>S j. xor_reg f fresh (min default_length (n - j * default_length))
           (out + j) (x + j) (y + j) S) S [0..<div_ceil n default_length])"

definition xors :: "('a \<Rightarrow> 'a \<Rightarrow> 'a) \<Rightarrow> 'a \<Rightarrow> nat list \<Rightarrow> nat \<Rightarrow> nat \<Rightarrow> 'a memory \<Rightarrow> 'a memory result" where
  "xors f fresh args start stop S =
    (if start mod 4 = 0 \<and> stop mod 4 = 0 \<and> start < stop \<and> stop \<le> length args
     then fold_result (xors_tuple f fresh) S (quads (drop start (take stop args)))
     else Inl (exit_failure ''assertion failed''))"

section \<open>Negation, public values, masking\<close>

text \<open>\<^verbatim>\<open>Secret::invert\<close> adds the wire \<^verbatim>\<open>one\<close>, a public 1.\<close>

definition invert_wire :: "('a \<Rightarrow> 'a \<Rightarrow> 'a) \<Rightarrow> 'a \<Rightarrow> nat \<Rightarrow> nat \<Rightarrow> 'a memory \<Rightarrow> nat \<Rightarrow> 'a memory result" where
  "invert_wire f one out x S i = bind_result (get_reg S x i) (\<lambda>a. set_reg S out i (f a one))"

definition invert_reg :: "('a \<Rightarrow> 'a \<Rightarrow> 'a) \<Rightarrow> 'a \<Rightarrow> 'a \<Rightarrow> nat \<Rightarrow> nat \<Rightarrow> nat \<Rightarrow> 'a memory \<Rightarrow> 'a memory result" where
  "invert_reg f fresh one n out x S =
    bind_result (resize_reg fresh S out n) (\<lambda>S. fold_result (invert_wire f one out x) S [0..<n])"

definition nots ::
  "('a \<Rightarrow> 'a \<Rightarrow> 'a) \<Rightarrow> 'a \<Rightarrow> 'a \<Rightarrow> nat \<Rightarrow> nat \<Rightarrow> nat \<Rightarrow> 'a memory \<Rightarrow> 'a memory result" where
  "nots f fresh one n_total out x S =
    fold_result (\<lambda>S i. invert_reg f fresh one (min default_length (n_total - i * default_length))
      (out + i) (x + i) S) S [0..<div_ceil n_total default_length]"

text \<open>
  Clear registers are 64-bit words.  \<^verbatim>\<open>convcbit2s\<close> turns bits of clear registers into wires;
  \<open>pub\<close> is \<^verbatim>\<open>public_input\<close> of the party.
\<close>

definition convcbit2s_wire ::
  "(bool \<Rightarrow> 'a) \<Rightarrow> u64 \<Rightarrow> nat \<Rightarrow> 'a memory \<Rightarrow> nat \<Rightarrow> 'a memory result" where
  "convcbit2s_wire pub c out S j = set_reg S out j (pub (bit c j))"

definition convcbit2s ::
  "(bool \<Rightarrow> 'a) \<Rightarrow> 'a \<Rightarrow> nat \<Rightarrow> nat \<Rightarrow> nat \<Rightarrow> u64 list \<Rightarrow> 'a memory \<Rightarrow> 'a memory result" where
  "convcbit2s pub fresh n out src C S =
    fold_result (\<lambda>S i.
      let m = min 64 (n - i * 64)
      in bind_result (resize_reg fresh S (out + i) m) (\<lambda>S.
         bind_result (vec_read C (src + i)) (\<lambda>c.
         fold_result (convcbit2s_wire pub c (out + i)) S [0..<m]))) S [0..<div_ceil n 64]"

text \<open>
  The evaluator's instruction does not look at the clear registers: every wire becomes the public
  label.
\<close>

definition eval_convcbit2s :: "nat \<Rightarrow> nat \<Rightarrow> m128 memory \<Rightarrow> m128 memory result" where
  "eval_convcbit2s n out S =
    fold_result (\<lambda>S i.
      let m = min 64 (n - i * 64)
      in bind_result (resize_reg m128_zero S (out + i) m) (\<lambda>S.
         fold_result (\<lambda>S j. set_reg S (out + i) j m128_zero) S [0..<m])) S [0..<div_ceil n 64]"

text \<open>\<^verbatim>\<open>andm\<close>: a wire is kept where the clear bit is set and becomes a public 0 elsewhere.\<close>

definition andm_wire ::
  "(bool \<Rightarrow> 'a) \<Rightarrow> u64 \<Rightarrow> nat \<Rightarrow> nat \<Rightarrow> 'a memory \<Rightarrow> nat \<Rightarrow> 'a memory result" where
  "andm_wire pub c out x S j =
    (if bit c j then bind_result (get_reg S x j) (set_reg S out j) else set_reg S out j (pub False))"

definition andm ::
  "(bool \<Rightarrow> 'a) \<Rightarrow> 'a \<Rightarrow> nat \<Rightarrow> nat \<Rightarrow> nat \<Rightarrow> nat \<Rightarrow> u64 list \<Rightarrow> 'a memory \<Rightarrow> 'a memory result" where
  "andm pub fresh n out x src C S =
    fold_result (\<lambda>S i.
      let m = min 64 (n - i * 64)
      in bind_result (resize_reg fresh S (out + i) m) (\<lambda>S.
         bind_result (vec_read C (src + i)) (\<lambda>c.
         fold_result (andm_wire pub c (out + i) (x + i)) S [0..<m]))) S [0..<div_ceil n 64]"

text \<open>The wires of the two parties.\<close>

definition garble_public_input :: "m128 \<Rightarrow> bool \<Rightarrow> m128" where
  "garble_public_input d v = half_public_input v d"

definition eval_public_input :: "bool \<Rightarrow> m128" where
  "eval_public_input v = m128_zero"

definition garble_random :: "m128 \<Rightarrow> bool \<Rightarrow> m128" where
  "garble_random d b = (if b then d else m128_zero)"

definition eval_random :: m128 where
  "eval_random = m128_zero"

section \<open>Outputs\<close>

text \<open>
  \<^verbatim>\<open>get_output\<close> of the garbler appends the mask to the party's masks and outputs 0; the evaluator
  takes the next mask off the message.
\<close>

definition garble_output :: "m128 \<Rightarrow> bool list \<Rightarrow> bool \<times> bool list" where
  "garble_output g masks = (False, masks @ [get_signal g])"

definition eval_output :: "m128 \<Rightarrow> bool list \<Rightarrow> (bool \<times> bool list) result" where
  "eval_output e masks = bind_result (vec_read masks 0) (\<lambda>mask. Inr (get_signal e \<noteq> mask, tl masks))"

fun garble_reveal :: "m128 list \<Rightarrow> bool list \<Rightarrow> bool list" where
  "garble_reveal [] masks = masks"
| "garble_reveal (g # gs) masks = garble_reveal gs (snd (garble_output g masks))"

text \<open>\<^verbatim>\<open>Secret::reveal\<close>: bit \<open>i\<close> of the result is the output of wire \<open>i\<close>.\<close>

fun eval_reveal :: "m128 list \<Rightarrow> nat \<Rightarrow> u64 \<Rightarrow> bool list \<Rightarrow> (u64 \<times> bool list) result" where
  "eval_reveal [] i x masks = Inr (x, masks)"
| "eval_reveal (e # es) i x masks =
    bind_result (eval_output e masks) (\<lambda>(out, masks).
    eval_reveal es (i + 1) (x XOR push_bit i (of_bool out)) masks)"

definition secret_reveal :: "nat \<Rightarrow> m128 list \<Rightarrow> bool list \<Rightarrow> (u64 \<times> bool list) result" where
  "secret_reveal n_bits es masks =
    (if length es < n_bits then Inl (runtime_error ''not enough wires for revealing'')
     else eval_reveal (take 64 es) 0 0 masks)"

section \<open>Inputs of the evaluator\<close>

text \<open>
  The garbler draws a key with signal 0 for each input bit of the evaluator and remembers it in the
  last batch of \<^verbatim>\<open>receiver_input_keys\<close>; \<^verbatim>\<open>exchange\<close> opens a batch.
\<close>

definition garble_input_exchange :: "m128 list list \<Rightarrow> m128 list list" where
  "garble_input_exchange keys = keys @ [[]]"

definition garble_finalize_input ::
  "nat \<Rightarrow> m128 \<Rightarrow> prng \<times> m128 list list \<Rightarrow> (m128 \<times> prng \<times> m128 list list) result" where
  "garble_finalize_input party wire = (\<lambda>(p, keys).
    if party = 1 then
      let (x, p) = get_doubleword p;
          key = set_signal False x
      in if keys = [] then Inl undefined_access
         else Inr (key, p, butlast keys @ [last keys @ [key]])
    else Inr (wire, p, keys))"

text \<open>
  \<^verbatim>\<open>process_receiver_inputs\<close>: the keys of a batch leave masked by the sender's first output of the
  correlated transfer, whose matrices \<open>ot\<close> are those of the extension of that batch.
\<close>

definition masked_keys :: "m128 list \<Rightarrow> m128 list \<Rightarrow> m128 list result" where
  "masked_keys senderOutput0 inputs =
    map_result (\<lambda>i. bind_result (vec_read senderOutput0 i) (\<lambda>m. Inr (m128_xor (inputs ! i) m)))
      [0..<length inputs]"

fun process_receiver_inputs :: "m128 list list \<Rightarrow> m128 list list \<Rightarrow> m128 list list result" where
  "process_receiver_inputs ots [] = Inr []"
| "process_receiver_inputs ots (inputs # rest) =
    (case ots of
       [] \<Rightarrow> Inl undefined_access
     | ot # ots \<Rightarrow> bind_result (masked_keys ot inputs) (\<lambda>os.
         bind_result (process_receiver_inputs ots rest) (\<lambda>oss. Inr (os # oss))))"

record YaoEvalInput =
  in_bits :: "bool list"
  i_bit :: nat
  in_os :: "m128 list"

definition eval_my_input :: "bool \<Rightarrow> YaoEvalInput \<Rightarrow> YaoEvalInput" where
  "eval_my_input v st = st\<lparr>in_bits := in_bits st @ [v]\<rparr>"

definition eval_set :: "m128 \<Rightarrow> bool \<Rightarrow> m128 result" where
  "eval_set key external =
    (if get_signal key = external then Inr key else Inl (exit_failure ''assertion failed''))"

definition eval_finalize_input ::
  "nat \<Rightarrow> m128 list \<Rightarrow> YaoEvalInput \<Rightarrow> (m128 \<times> YaoEvalInput) result" where
  "eval_finalize_input party receiverOutput st =
    (if party = 1 then
       bind_result (vec_read (in_os st) 0) (\<lambda>key.
       bind_result (vec_read receiverOutput (i_bit st)) (\<lambda>m.
       bind_result (vec_read (in_bits st) (i_bit st)) (\<lambda>b.
       bind_result (eval_set (m128_xor key m) b) (\<lambda>wire.
       Inr (wire, st\<lparr>in_os := tl (in_os st), i_bit := i_bit st + 1\<rparr>)))))
     else Inr (m128_zero, st))"

text \<open>All inputs of one batch, in order.\<close>

fun garble_inputs_from :: "nat \<Rightarrow> prng \<times> m128 list list \<Rightarrow> (m128 list \<times> prng \<times> m128 list list) result" where
  "garble_inputs_from 0 st = Inr ([], st)"
| "garble_inputs_from (Suc n) st =
    bind_result (garble_finalize_input 1 m128_zero st) (\<lambda>(w, st).
    bind_result (garble_inputs_from n st) (\<lambda>(ws, st). Inr (w # ws, st)))"

fun eval_inputs_from :: "nat \<Rightarrow> m128 list \<Rightarrow> YaoEvalInput \<Rightarrow> (m128 list \<times> YaoEvalInput) result" where
  "eval_inputs_from 0 receiverOutput st = Inr ([], st)"
| "eval_inputs_from (Suc n) receiverOutput st =
    bind_result (eval_finalize_input 1 receiverOutput st) (\<lambda>(w, st).
    bind_result (eval_inputs_from n receiverOutput st) (\<lambda>(ws, st). Inr (w # ws, st)))"

section \<open>Instructions without gates commute with labelling\<close>

text \<open>
  \<open>commutes d G E P\<close>: where the plain operation succeeds, the garbler's and the evaluator's succeed
  and lead from labels to labels.
\<close>

definition commutes :: "m128 \<Rightarrow> (m128 memory \<Rightarrow> m128 memory result) \<Rightarrow> (m128 memory \<Rightarrow> m128 memory result) \<Rightarrow>
    (bool memory \<Rightarrow> bool memory result) \<Rightarrow> bool" where
  "commutes d G E P \<longleftrightarrow> (\<forall>S V V'. same_shape S V \<longrightarrow> P V = Inr V' \<longrightarrow>
    (\<exists>S'. G S = Inr S' \<and> same_shape S' V' \<and> E (labels d S V) = Inr (labels d S' V')))"

named_theorems commute \<open>operations that commute with labelling\<close>

lemma commutes_return [commute]: "commutes d Inr Inr Inr"
  by (simp add: commutes_def)

lemma commutesD:
  assumes "commutes d G E P" "same_shape S V" "P V = Inr V'"
  obtains S' where "G S = Inr S'" "same_shape S' V'" "E (labels d S V) = Inr (labels d S' V')"
  using assms unfolding commutes_def by blast

lemma commutesI:
  assumes "\<And>S V V'. same_shape S V \<Longrightarrow> P V = Inr V' \<Longrightarrow>
    \<exists>S'. G S = Inr S' \<and> same_shape S' V' \<and> E (labels d S V) = Inr (labels d S' V')"
  shows "commutes d G E P"
  using assms unfolding commutes_def by blast

lemma commutes_bind [commute]:
  assumes "commutes d G1 E1 P1" "commutes d G2 E2 P2"
  shows "commutes d (\<lambda>S. bind_result (G1 S) G2) (\<lambda>S. bind_result (E1 S) E2) (\<lambda>V. bind_result (P1 V) P2)"
proof (rule commutesI)
  fix S :: "m128 memory" and V V'
  assume S: "same_shape S V" and "bind_result (P1 V) P2 = Inr V'"
  then obtain W where W: "P1 V = Inr W" "P2 W = Inr V'" by (auto simp: bind_result_Inr_iff)
  obtain T where T: "G1 S = Inr T" "same_shape T W" "E1 (labels d S V) = Inr (labels d T W)"
    by (rule commutesD [OF assms(1) S W(1)])
  obtain S' where S': "G2 T = Inr S'" "same_shape S' V'" "E2 (labels d T W) = Inr (labels d S' V')"
    by (rule commutesD [OF assms(2) T(2) W(2)])
  show "\<exists>S'. bind_result (G1 S) G2 = Inr S' \<and> same_shape S' V' \<and>
      bind_result (E1 (labels d S V)) E2 = Inr (labels d S' V')"
    by (intro exI [of _ S']) (simp add: T S')
qed

lemma commutes_fold [commute]:
  assumes "\<And>x. commutes d (\<lambda>S. G S x) (\<lambda>S. E S x) (\<lambda>V. P V x)"
  shows "commutes d (\<lambda>S. fold_result G S xs) (\<lambda>S. fold_result E S xs) (\<lambda>V. fold_result P V xs)"
  by (induction xs) (auto intro: commute assms)

lemma commutes_resize [commute]:
  "commutes d (\<lambda>S. resize_reg m128_zero S r n) (\<lambda>S. resize_reg m128_zero S r n) (\<lambda>V. resize_reg False V r n)"
  unfolding commutes_def using labels_resize by blast

lemma commutes_set [commute]:
  assumes "half_label d g v = e"
  shows "commutes d (\<lambda>S. set_reg S r k g) (\<lambda>S. set_reg S r k e) (\<lambda>V. set_reg V r k v)"
proof (rule commutesI)
  fix S :: "m128 memory" and V V'
  assume S: "same_shape S V" and V: "set_reg V r k v = Inr V'"
  note L = labels_set [OF S V]
  show "\<exists>S'. set_reg S r k g = Inr S' \<and> same_shape S' V' \<and>
      set_reg (labels d S V) r k e = Inr (labels d S' V')"
    using L assms by blast
qed

lemma commutes_get:
  assumes "\<And>g v. commutes d (G g) (E (half_label d g v)) (P v)"
  shows "commutes d (\<lambda>S. bind_result (get_reg S r k) (\<lambda>g. G g S)) (\<lambda>S. bind_result (get_reg S r k) (\<lambda>e. E e S))
    (\<lambda>V. bind_result (get_reg V r k) (\<lambda>v. P v V))"
  unfolding commutes_def
proof (intro allI impI)
  fix S :: "m128 memory" and V V'
  assume S: "same_shape S V" and "bind_result (get_reg V r k) (\<lambda>v. P v V) = Inr V'"
  then obtain v where v: "get_reg V r k = Inr v" "P v V = Inr V'" by (auto simp: bind_result_Inr_iff)
  note L = labels_get(1) [OF S v(1)] labels_get(2) [OF S v(1), of d]
  show "\<exists>S'. bind_result (get_reg S r k) (\<lambda>g. G g S) = Inr S' \<and> same_shape S' V' \<and>
      bind_result (get_reg (labels d S V) r k) (\<lambda>e. E e (labels d S V)) = Inr (labels d S' V')"
    using assms S v(2) unfolding L commutes_def by simp
qed

lemma xor_labels:
  "half_label d (m128_xor a b) (va \<noteq> vb) = m128_xor (half_label d a va) (half_label d b vb)"
  using half_label_xor [of d a va b vb] by (simp add: wire_xor_def)

lemma commutes_xor_reg [commute]:
  "commutes d (xor_reg m128_xor m128_zero n out x y) (xor_reg m128_xor m128_zero n out x y)
    (xor_reg (\<noteq>) False n out x y)"
  unfolding xor_reg_def xor_wire_def by (intro commute commutes_get xor_labels)

lemma commutes_if [commute]:
  assumes "commutes d G1 E1 P1" "commutes d G2 E2 P2"
  shows "commutes d (\<lambda>S. if c then G1 S else G2 S) (\<lambda>S. if c then E1 S else E2 S) (\<lambda>V. if c then P1 V else P2 V)"
  using assms by (cases c) auto

lemma commutes_xors_tuple [commute]:
  "commutes d (\<lambda>S. xors_tuple m128_xor m128_zero S q) (\<lambda>S. xors_tuple m128_xor m128_zero S q)
    (\<lambda>V. xors_tuple (\<noteq>) False V q)"
proof -
  obtain n out x y where q: "q = (n, out, x, y)" by (cases q)
  show ?thesis unfolding xors_tuple_def q prod.case by (intro commute)
qed

lemma commutes_fail [commute]: "commutes d (\<lambda>S. Inl x) (\<lambda>S. Inl x) (\<lambda>V. Inl x)"
  by (simp add: commutes_def)

lemma commutes_xors:
  "commutes d (xors m128_xor m128_zero args start stop) (xors m128_xor m128_zero args start stop)
    (xors (\<noteq>) False args start stop)"
  unfolding xors_def by (intro commute)

text \<open>Negation: the garbler's \<^verbatim>\<open>one\<close> is the offset, the evaluator's is zero.\<close>

lemma not_labels: "half_label d (m128_xor a d) (v \<noteq> True) = m128_xor (half_label d a v) m128_zero"
  by (simp add: half_label_def m128_xor_assoc)

lemma commutes_nots:
  "commutes d (nots m128_xor m128_zero (garble_public_input d True) n out x)
    (nots m128_xor m128_zero (eval_public_input True) n out x) (nots (\<noteq>) False True n out x)"
  unfolding nots_def invert_reg_def invert_wire_def garble_public_input_def eval_public_input_def
    half_public_input_def if_True
  by (intro commute commutes_get not_labels)

lemma public_labels: "half_label d (garble_public_input d v) v = eval_public_input v"
  by (simp add: half_public_label garble_public_input_def eval_public_input_def)

lemma commutes_read [commute]:
  "(\<And>c. commutes d (G c) (E c) (P c)) \<Longrightarrow>
    commutes d (\<lambda>S. bind_result (vec_read C i) (\<lambda>c. G c S)) (\<lambda>S. bind_result (vec_read C i) (\<lambda>c. E c S))
      (\<lambda>V. bind_result (vec_read C i) (\<lambda>c. P c V))"
  by (cases "vec_read C i") (auto simp: commutes_def)

lemma commutes_read_plain [commute]:
  "(\<And>c. commutes d (G c) E (P c)) \<Longrightarrow>
    commutes d (\<lambda>S. bind_result (vec_read C i) (\<lambda>c. G c S)) E (\<lambda>V. bind_result (vec_read C i) (\<lambda>c. P c V))"
  by (cases "vec_read C i") (auto simp: commutes_def)

lemma commutes_convcbit2s:
  "commutes d (convcbit2s (garble_public_input d) m128_zero n out src C)
    (eval_convcbit2s n out) (convcbit2s id False n out src C)"
  unfolding convcbit2s_def eval_convcbit2s_def convcbit2s_wire_def Let_def id_apply
  by (intro commutes_fold commutes_bind commutes_resize commutes_read_plain commutes_set
      public_labels [unfolded eval_public_input_def])

lemma commutes_andm:
  "commutes d (andm (garble_public_input d) m128_zero n out x src C)
    (andm eval_public_input m128_zero n out x src C) (andm id False n out x src C)"
proof -
  have "commutes d (\<lambda>S. andm_wire (garble_public_input d) c out x S j)
      (\<lambda>S. andm_wire eval_public_input c out x S j) (\<lambda>V. andm_wire id c out x V j)" for c out x j
    unfolding andm_wire_def id_apply
    by (intro commute commutes_get refl public_labels)
  then show ?thesis unfolding andm_def Let_def by (intro commute)
qed

section \<open>Outputs and inputs\<close>

lemma garble_reveal_map: "garble_reveal gs masks = masks @ map get_signal gs"
  by (induction gs arbitrary: masks) (simp_all add: garble_output_def)

lemma eval_reveal_bits:
  assumes "get_signal d" "length gs = length vs" "i + length vs \<le> 64"
  shows "\<exists>w. eval_reveal (map2 (half_label d) gs vs) i x (map get_signal gs @ rest) = Inr (w, rest) \<and>
    (\<forall>k < 64. bit w k = (bit x k \<noteq> (i \<le> k \<and> k < i + length vs \<and> vs ! (k - i))))"
  using assms(2,3)
proof (induction gs vs arbitrary: i x rule: list_induct2')
  case (4 g gs v vs)
  let ?x = "x XOR push_bit i (of_bool v) :: u64"
  obtain w where w: "eval_reveal (map2 (half_label d) gs vs) (i + 1) ?x (map get_signal gs @ rest) = Inr (w, rest)"
      "\<forall>k < 64. bit w k = (bit ?x k \<noteq> (i + 1 \<le> k \<and> k < i + 1 + length vs \<and> vs ! (k - (i + 1))))"
    using 4(1) [of "i + 1" ?x] 4(2,3) by auto
  have out: "(get_signal (half_label d g v) = (\<not> get_signal g)) = v"
    using assms(1) by (auto simp: get_signal_half_label)
  have x: "bit ?x k = (bit x k \<noteq> (k = i \<and> v))" if "k < 64" for k
    using that by (auto simp: bit_simps)
  have step: "(k = i \<and> v) \<noteq> (i + 1 \<le> k \<and> k < i + 1 + length vs \<and> vs ! (k - (i + 1))) \<longleftrightarrow>
      i \<le> k \<and> k < i + length (v # vs) \<and> (v # vs) ! (k - i)" for k
    by (cases "k \<le> i") (auto simp: nth_Cons' Suc_diff_Suc)
  have "bit w k = (bit x k \<noteq> (i \<le> k \<and> k < i + length (v # vs) \<and> (v # vs) ! (k - i)))" if k: "k < 64" for k
    using w(2) [rule_format, OF k] x [OF k] step [of k] by argo
  then show ?case
    using w(1) out by (auto simp: eval_output_def)
qed auto

text \<open>
  Outputs are right: when the evaluator holds the labels of the bits \<open>vs\<close> of a register (at
  most 64) and reads the masks the garbler left for that register, \<^verbatim>\<open>reveal\<close> returns the word whose
  bit \<open>i\<close> is \<open>vs ! i\<close> and leaves the remaining masks.
\<close>

theorem reveal_correct:
  assumes "get_signal d" "length gs = length vs" "n_bits \<le> length vs" "length vs \<le> 64"
  shows "\<exists>w. secret_reveal n_bits (map2 (half_label d) gs vs) (garble_reveal gs [] @ rest) = Inr (w, rest) \<and>
    (\<forall>k < 64. bit w k \<longleftrightarrow> k < length vs \<and> vs ! k)"
  using eval_reveal_bits [OF assms(1,2), of 0 0 rest] assms
  by (auto simp: secret_reveal_def garble_reveal_map)

lemma reveal_correct_witness:
  "\<exists>w. secret_reveal 2 (map2 (half_label (3, 5)) [(6, 1), (7, 2)] [True, False])
      (garble_reveal [(6, 1), (7, 2)] [] @ [True]) = Inr (w, [True]) \<and> bit w 0 \<and> \<not> bit w 1 \<and> \<not> bit w 2"
proof -
  obtain w where w: "secret_reveal 2 (map2 (half_label (3, 5)) [(6, 1), (7, 2)] [True, False])
      (garble_reveal [(6, 1), (7, 2)] [] @ [True]) = Inr (w, [True])"
      "\<forall>k < 64. bit w k \<longleftrightarrow> k < length [True, False] \<and> [True, False] ! k"
    using reveal_correct [of "(3, 5)" "[(6, 1), (7, 2)]" "[True, False]" 2 "[True]"] by (auto simp: get_signal_def)
  then have "bit w 0" "\<not> bit w 1" "\<not> bit w 2" by simp_all
  with w(1) show ?thesis by blast
qed

lemma garble_inputs_from_keys:
  "\<exists>ws p'. garble_inputs_from n (p, keys @ [ks]) = Inr (ws, p', keys @ [ks @ ws]) \<and> length ws = n \<and>
    (\<forall>w \<in> set ws. \<not> get_signal w)"
proof (induction n arbitrary: p ks)
  case (Suc n)
  obtain x p1 where x: "get_doubleword p = (x, p1)" by (cases "get_doubleword p")
  obtain ws p' where ws: "garble_inputs_from n (p1, keys @ [ks @ [set_signal False x]]) =
        Inr (ws, p', keys @ [(ks @ [set_signal False x]) @ ws])" "length ws = n" "\<forall>w \<in> set ws. \<not> get_signal w"
    using Suc [of p1 "ks @ [set_signal False x]"] by blast
  show ?case
    by (rule exI [of _ "set_signal False x # ws"], rule exI [of _ p'])
      (use ws in \<open>simp add: garble_finalize_input_def x Let_def\<close>)
qed simp

definition batch_state :: "bool list \<Rightarrow> m128 list \<Rightarrow> nat \<Rightarrow> YaoEvalInput" where
  "batch_state bits os i = \<lparr>in_bits = bits, i_bit = i, in_os = drop i os\<rparr>"

lemma eval_inputs_from_labels:
  assumes d: "get_signal d" and ws: "\<forall>w \<in> set ws. \<not> get_signal w"
    and len: "length ws = length bits" "length ot = length bits" "length recv = length bits"
    and recv: "\<forall>i < length bits. recv ! i = (if bits ! i then m128_xor (ot ! i) d else ot ! i)"
  shows "n + i = length bits \<Longrightarrow>
    eval_inputs_from n recv (batch_state bits (map2 m128_xor ws ot) i) =
      Inr (drop i (map2 (half_label d) ws bits), batch_state bits (map2 m128_xor ws ot) (length bits))"
proof (induction n arbitrary: i)
  case (Suc n)
  let ?os = "map2 m128_xor ws ot"
  have i: "i < length bits" using Suc(2) by simp
  have key: "m128_xor (m128_xor (ws ! i) (ot ! i)) (recv ! i) = half_label d (ws ! i) (bits ! i)"
    using recv i len by (simp add: half_label_def xor_ac)
  have sig: "get_signal (half_label d (ws ! i) (bits ! i)) = bits ! i"
    using d ws i len by (simp add: get_signal_half_label)
  have "eval_finalize_input 1 recv (batch_state bits ?os i) =
      Inr (half_label d (ws ! i) (bits ! i), batch_state bits ?os (Suc i))"
    using i len sig
    by (simp add: eval_finalize_input_def batch_state_def eval_set_def tl_drop drop_Suc key del: get_signal_xor)
  then show ?case
    using Suc i len by (simp add: Cons_nth_drop_Suc [symmetric])
qed (use len in \<open>simp add: batch_state_def\<close>)

lemma masked_keys_map: "length ks = length ot \<Longrightarrow> masked_keys ot ks = Inr (map2 m128_xor ks ot)"
proof -
  assume len: "length ks = length ot"
  have "masked_keys ot ks = Inr (map (\<lambda>i. m128_xor (ks ! i) (ot ! i)) [0..<length ks])"
    unfolding masked_keys_def by (rule map_result_Inr) (use len in simp)
  also have "map (\<lambda>i. m128_xor (ks ! i) (ot ! i)) [0..<length ks] = map2 m128_xor ks ot"
    by (rule nth_equalityI) (use len in auto)
  finally show ?thesis .
qed

text \<open>
  Inputs of the evaluator are right: after a correlated transfer in which the receiver obtained,
  for each of its bits, the sender's string with the offset added where the bit is 1, the garbler's
  batch of \<open>n\<close> input keys, masked by \<^verbatim>\<open>process_receiver_inputs\<close>, gives the evaluator exactly the
  labels of its bits, without a failed assertion, and every masked key is used once.
\<close>

theorem inputs_correct:
  assumes "get_signal d" "length ot = length bits" "length recv = length bits"
    and "\<forall>i < length bits. recv ! i = (if bits ! i then m128_xor (ot ! i) d else ot ! i)"
  shows "\<exists>ws p' os.
    garble_inputs_from (length bits) (p, garble_input_exchange keys) = Inr (ws, p', keys @ [ws]) \<and>
    process_receiver_inputs [ot] [ws] = Inr [os] \<and>
    eval_inputs_from (length bits) recv \<lparr>in_bits = bits, i_bit = 0, in_os = os\<rparr> =
      Inr (map2 (half_label d) ws bits, \<lparr>in_bits = bits, i_bit = length bits, in_os = []\<rparr>)"
proof -
  obtain ws p' where ws: "garble_inputs_from (length bits) (p, keys @ [[]]) = Inr (ws, p', keys @ [ws])"
      "length ws = length bits" "\<forall>w \<in> set ws. \<not> get_signal w"
    using garble_inputs_from_keys [of "length bits" p keys "[]"] by auto
  have "process_receiver_inputs [ot] [ws] = Inr [map2 m128_xor ws ot]"
    using ws(2) assms(2) by (simp add: masked_keys_map)
  moreover have "eval_inputs_from (length bits) recv \<lparr>in_bits = bits, i_bit = 0, in_os = map2 m128_xor ws ot\<rparr> =
      Inr (map2 (half_label d) ws bits, \<lparr>in_bits = bits, i_bit = length bits, in_os = []\<rparr>)"
    using eval_inputs_from_labels [OF assms(1) ws(3,2) assms(2-4), of "length bits" 0] ws(2) assms(2)
    by (simp add: batch_state_def)
  ultimately show ?thesis using ws(1) unfolding garble_input_exchange_def by blast
qed

lemma inputs_correct_witness:
  "\<exists>ws p' os.
    garble_inputs_from (length [True, False])
      (\<lparr>doublewords = \<lambda>i. (of_nat (7 * i), 9), used = 0\<rparr>,
       garble_input_exchange []) = Inr (ws, p', [] @ [ws]) \<and>
    process_receiver_inputs [[(4, 1), (5, 2)]] [ws] = Inr [os] \<and>
    eval_inputs_from (length [True, False]) [(7, 4), (5, 2)] \<lparr>in_bits = [True, False], i_bit = 0, in_os = os\<rparr> =
      Inr (map2 (half_label (3, 5)) ws [True, False],
        \<lparr>in_bits = [True, False], i_bit = length [True, False], in_os = []\<rparr>)"
  by (rule inputs_correct) (auto simp: get_signal_def m128_xor_def less_Suc_eq)


end
