(* ===== verification/AES_NI.thy ===== *)
theory AES_NI
  imports AES_Tables Prelude
begin

unbundle bit_operations_syntax

text \<open>
  The AES-NI build of MP-SPDZ's AES (\<^verbatim>\<open>Tools/aes-ni.cpp\<close>, \<^verbatim>\<open>Tools/aes.h\<close>): key schedules by
  \<^verbatim>\<open>aeskeygenassist\<close> and encryption by \<^verbatim>\<open>aesenc\<close>, for the three key lengths, and the hash \<^verbatim>\<open>MMO\<close> built
  on it.  Schedules and ciphertexts are proved equal to those of the table-driven build.
\<close>

section \<open>Register operations\<close>

definition mm_shuffle_epi32_all :: "nat \<Rightarrow> block \<Rightarrow> block" where
  "mm_shuffle_epi32_all d x = map (\<lambda>i. x ! (4 * d + i mod 4)) [0..<16]"

text \<open>The low half of the result is a half of \<open>a\<close>, chosen by the first bit of the last argument; the high half
  is a half of \<open>b\<close>, chosen by the second bit, which is 0 in every call.\<close>

definition mm_shuffle_pd :: "block \<Rightarrow> block \<Rightarrow> bool \<Rightarrow> block" where
  "mm_shuffle_pd a b hi = take 8 (if hi then drop 8 a else a) @ take 8 b"

definition loadu_at :: "u8 list \<Rightarrow> nat \<Rightarrow> block result" where
  "loadu_at x i = (if i + 16 \<le> length x then Inr (take 16 (drop i x)) else Inl undefined_access)"

section \<open>Key schedules\<close>

definition AES_128_ASSIST :: "block \<Rightarrow> block \<Rightarrow> block" where
  "AES_128_ASSIST temp1 temp2 =
    (let temp2 = mm_shuffle_epi32_all 3 temp2;
         temp3 = mm_slli_si128_4 temp1; temp1 = xor_block temp1 temp3;
         temp3 = mm_slli_si128_4 temp3; temp1 = xor_block temp1 temp3;
         temp3 = mm_slli_si128_4 temp3; temp1 = xor_block temp1 temp3
     in xor_block temp1 temp2)"

definition aes_128_schedule_ni :: "aesni \<Rightarrow> u8 list \<Rightarrow> block list result" where
  "aes_128_schedule_ni ni userkey =
    bind_result (loadu_at userkey 0) (\<lambda>temp1. Inr (foldl (\<lambda>ks rcon.
      ks @ [AES_128_ASSIST (last ks) (aeskeygenassist ni (last ks) rcon)]) [temp1]
      [0x1, 0x2, 0x4, 0x8, 0x10, 0x20, 0x40, 0x80, 0x1b, 0x36]))"

text \<open>\<^verbatim>\<open>temp2\<close> leaves as the broadcast of the new \<^verbatim>\<open>temp1\<close> and is overwritten by the caller.\<close>

definition KEY_192_ASSIST :: "block \<Rightarrow> block \<Rightarrow> block \<Rightarrow> block \<times> block" where
  "KEY_192_ASSIST temp1 temp2 temp3 =
    (let temp2 = mm_shuffle_epi32_all 1 temp2;
         temp4 = mm_slli_si128_4 temp1; temp1 = xor_block temp1 temp4;
         temp4 = mm_slli_si128_4 temp4; temp1 = xor_block temp1 temp4;
         temp4 = mm_slli_si128_4 temp4; temp1 = xor_block temp1 temp4;
         temp1 = xor_block temp1 temp2;
         temp2 = mm_shuffle_epi32_all 3 temp1;
         temp4 = mm_slli_si128_4 temp3; temp3 = xor_block temp3 temp4
     in (temp1, xor_block temp3 temp2))"

definition aes_192_schedule_ni :: "aesni \<Rightarrow> u8 list \<Rightarrow> block list result" where
  "aes_192_schedule_ni ni userkey =
    bind_result (loadu_at userkey 0) (\<lambda>temp1.
    bind_result (loadu_at userkey 16) (\<lambda>temp3.
    let assist = (\<lambda>temp1 temp3 rcon. KEY_192_ASSIST temp1 (aeskeygenassist ni temp3 rcon) temp3);
        k0 = temp1; k1 = temp3;
        (temp1, temp3) = assist temp1 temp3 0x1;
        k1 = mm_shuffle_pd k1 temp1 False; k2 = mm_shuffle_pd temp1 temp3 True;
        (temp1, temp3) = assist temp1 temp3 0x2;
        k3 = temp1; k4 = temp3;
        (temp1, temp3) = assist temp1 temp3 0x4;
        k4 = mm_shuffle_pd k4 temp1 False; k5 = mm_shuffle_pd temp1 temp3 True;
        (temp1, temp3) = assist temp1 temp3 0x8;
        k6 = temp1; k7 = temp3;
        (temp1, temp3) = assist temp1 temp3 0x10;
        k7 = mm_shuffle_pd k7 temp1 False; k8 = mm_shuffle_pd temp1 temp3 True;
        (temp1, temp3) = assist temp1 temp3 0x20;
        k9 = temp1; k10 = temp3;
        (temp1, temp3) = assist temp1 temp3 0x40;
        k10 = mm_shuffle_pd k10 temp1 False; k11 = mm_shuffle_pd temp1 temp3 True;
        (temp1, temp3) = assist temp1 temp3 0x80;
        k12 = temp1
    in Inr [k0, k1, k2, k3, k4, k5, k6, k7, k8, k9, k10, k11, k12]))"

definition KEY_256_ASSIST_1 :: "block \<Rightarrow> block \<Rightarrow> block" where
  "KEY_256_ASSIST_1 temp1 temp2 =
    (let temp2 = mm_shuffle_epi32_all 3 temp2;
         temp4 = mm_slli_si128_4 temp1; temp1 = xor_block temp1 temp4;
         temp4 = mm_slli_si128_4 temp4; temp1 = xor_block temp1 temp4;
         temp4 = mm_slli_si128_4 temp4; temp1 = xor_block temp1 temp4
     in xor_block temp1 temp2)"

definition KEY_256_ASSIST_2 :: "aesni \<Rightarrow> block \<Rightarrow> block \<Rightarrow> block" where
  "KEY_256_ASSIST_2 ni temp1 temp3 =
    (let temp4 = aeskeygenassist ni temp1 0x0;
         temp2 = mm_shuffle_epi32_all 2 temp4;
         temp4 = mm_slli_si128_4 temp3; temp3 = xor_block temp3 temp4;
         temp4 = mm_slli_si128_4 temp4; temp3 = xor_block temp3 temp4;
         temp4 = mm_slli_si128_4 temp4; temp3 = xor_block temp3 temp4
     in xor_block temp3 temp2)"

definition aes_256_schedule_ni :: "aesni \<Rightarrow> u8 list \<Rightarrow> block list result" where
  "aes_256_schedule_ni ni userkey =
    bind_result (loadu_at userkey 0) (\<lambda>temp1.
    bind_result (loadu_at userkey 16) (\<lambda>temp3.
    let assist = (\<lambda>temp1 temp3 rcon. KEY_256_ASSIST_1 temp1 (aeskeygenassist ni temp3 rcon));
        k0 = temp1; k1 = temp3;
        temp1 = assist temp1 temp3 0x01; k2 = temp1;
        temp3 = KEY_256_ASSIST_2 ni temp1 temp3; k3 = temp3;
        temp1 = assist temp1 temp3 0x02; k4 = temp1;
        temp3 = KEY_256_ASSIST_2 ni temp1 temp3; k5 = temp3;
        temp1 = assist temp1 temp3 0x04; k6 = temp1;
        temp3 = KEY_256_ASSIST_2 ni temp1 temp3; k7 = temp3;
        temp1 = assist temp1 temp3 0x08; k8 = temp1;
        temp3 = KEY_256_ASSIST_2 ni temp1 temp3; k9 = temp3;
        temp1 = assist temp1 temp3 0x10; k10 = temp1;
        temp3 = KEY_256_ASSIST_2 ni temp1 temp3; k11 = temp3;
        temp1 = assist temp1 temp3 0x20; k12 = temp1;
        temp3 = KEY_256_ASSIST_2 ni temp1 temp3; k13 = temp3;
        temp1 = assist temp1 temp3 0x40; k14 = temp1
    in Inr [k0, k1, k2, k3, k4, k5, k6, k7, k8, k9, k10, k11, k12, k13, k14]))"

section \<open>Encryption\<close>

definition aes_128_encrypt_ni :: "aesni \<Rightarrow> block \<Rightarrow> block list \<Rightarrow> block" where
  "aes_128_encrypt_ni ni inp key =
    (let tmp = xor_block inp (key ! 0);
         tmp = foldl (\<lambda>tmp j. aesenc ni tmp (key ! j)) tmp [1..<10]
     in aesenclast ni tmp (key ! 10))"

definition aes_192_encrypt_ni :: "aesni \<Rightarrow> block \<Rightarrow> block list \<Rightarrow> block" where
  "aes_192_encrypt_ni ni inp key =
    (let tmp = xor_block inp (key ! 0);
         tmp = foldl (\<lambda>tmp j. aesenc ni tmp (key ! j)) tmp [1..<12]
     in aesenclast ni tmp (key ! 12))"

definition aes_256_encrypt_ni :: "aesni \<Rightarrow> block \<Rightarrow> block list \<Rightarrow> block" where
  "aes_256_encrypt_ni ni inp key =
    (let tmp = xor_block inp (key ! 0);
         tmp = foldl (\<lambda>tmp j. aesenc ni tmp (key ! j)) tmp [1..<14]
     in aesenclast ni tmp (key ! 14))"

text \<open>Several blocks under one key, the rounds interleaved; the software build takes one block at a time.\<close>

definition ecb_aes_128_encrypt_ni :: "aesni \<Rightarrow> block list \<Rightarrow> block list \<Rightarrow> block list" where
  "ecb_aes_128_encrypt_ni ni key inp =
    (let tmp = map (\<lambda>x. xor_block x (key ! 0)) inp;
         tmp = foldl (\<lambda>tmp j. map (\<lambda>x. aesenc ni x (key ! j)) tmp) tmp [1..<10]
     in map (\<lambda>x. aesenclast ni x (key ! 10)) tmp)"

definition software_ecb_aes_128_encrypt :: "u32 list \<Rightarrow> block list \<Rightarrow> block list" where
  "software_ecb_aes_128_encrypt key inp = map (\<lambda>x. aes_128_encrypt x key) inp"

section \<open>Matyas-Meyer-Oseas hashing\<close>

text \<open>
  \<^verbatim>\<open>MMO\<close> of \<^verbatim>\<open>Tools/MMO.h\<close> for a build of AES: \<open>sched\<close> is its key schedule, \<open>ecb\<close> its encryption of
  several blocks.
\<close>

definition MMO_key :: "nat \<Rightarrow> block" where
  "MMO_key i = (replicate 16 0)[0 := word_of_nat i]"

definition zeroIV :: "(u8 list \<Rightarrow> 'k result) \<Rightarrow> nat \<Rightarrow> 'k list result" where
  "zeroIV sched n_keys =
    (if 2 ^ 8 < n_keys then Inl (runtime_error ''not implemented'')
     else map_result (\<lambda>i. sched (MMO_key i)) [0..<n_keys])"

definition encrypt_and_xor :: "('k \<Rightarrow> block list \<Rightarrow> block list) \<Rightarrow> 'k \<Rightarrow> block list \<Rightarrow> block list" where
  "encrypt_and_xor ecb key inp = map2 xor_block (ecb key inp) inp"

definition MMO_hash :: "('k \<Rightarrow> block list \<Rightarrow> block list) \<Rightarrow> 'k list \<Rightarrow> block list \<Rightarrow> block list" where
  "MMO_hash ecb IV inp = encrypt_and_xor ecb (IV ! 0) inp"

text \<open>\<open>n_bytes\<close> of output for each input, one key per 16 bytes.\<close>

definition hashBlocks ::
  "('k \<Rightarrow> block list \<Rightarrow> block list) \<Rightarrow> 'k list \<Rightarrow> nat \<Rightarrow> block list \<Rightarrow> u8 list list result" where
  "hashBlocks ecb IV n_bytes inp =
    (let n_blocks = (n_bytes + 15) div 16
     in if length IV < n_blocks then Inl (runtime_error ''not enough MMO keys'')
        else Inr (map (\<lambda>j. concat (map (\<lambda>i.
          take (min (n_bytes - i * 16) 16) (encrypt_and_xor ecb (IV ! i) inp ! j)) [0..<n_blocks]))
          [0..<length inp]))"

section \<open>Blocks as four words\<close>

definition blk :: "u32 \<Rightarrow> u32 \<Rightarrow> u32 \<Rightarrow> u32 \<Rightarrow> block" where
  "blk a b c d = store_words (a, b, c, d)"

lemma le_word_cases: obtains a b c d where "w = le_word a b c d"
proof -
  have "w = le_word (ucast w) (ucast (drop_bit 8 w)) (ucast (drop_bit 16 w)) (ucast (drop_bit 24 w))"
    by (rule bit_word_eqI) (auto simp: bit_le_word bit_simps)
  then show ?thesis using that by blast
qed

lemma blk_cases:
  assumes "wf_block x" obtains a b c d where "x = blk a b c d"
  using store_load [OF assms] that unfolding blk_def by (metis prod_cases4)

lemma wf_blk [simp]: "wf_block (blk a b c d)"
  by (simp add: blk_def store_words_def wf_block_def U32_TO_U8_LE_def)

lemma blk_bytes:
  "blk (le_word a0 a1 a2 a3) (le_word b0 b1 b2 b3) (le_word c0 c1 c2 c3) (le_word d0 d1 d2 d3) =
    [a0, a1, a2, a3, b0, b1, b2, b3, c0, c1, c2, c3, d0, d1, d2, d3]"
  by (simp add: blk_def store_words_def U32_TO_U8_LE_word)

lemma word_bytes4:
  assumes "\<And>a0 a1 a2 a3 b0 b1 b2 b3 c0 c1 c2 c3 d0 d1 d2 d3.
    P (le_word a0 a1 a2 a3) (le_word b0 b1 b2 b3) (le_word c0 c1 c2 c3) (le_word d0 d1 d2 d3)"
  shows "P a b c d"
  by (metis assms le_word_cases)

lemma le_word_zero: "0 = le_word 0 0 0 0"
  by (simp add: le_word_def)

lemma slli_blk: "mm_slli_si128_4 (blk a b c d) = blk 0 a b c"
  by (rule word_bytes4 [where P = "\<lambda>a b c d. mm_slli_si128_4 (blk a b c d) = blk 0 a b c"])
    (subst le_word_zero, simp add: blk_bytes mm_slli_si128_4_def upt_16)

lemma shuffle_blk:
  "mm_shuffle_epi32_all 1 (blk a b c d) = blk b b b b"
  "mm_shuffle_epi32_all 2 (blk a b c d) = blk c c c c"
  "mm_shuffle_epi32_all 3 (blk a b c d) = blk d d d d"
  by (rule word_bytes4 [where P = "\<lambda>a b c d. mm_shuffle_epi32_all 1 (blk a b c d) = blk b b b b"]
      word_bytes4 [where P = "\<lambda>a b c d. mm_shuffle_epi32_all 2 (blk a b c d) = blk c c c c"]
      word_bytes4 [where P = "\<lambda>a b c d. mm_shuffle_epi32_all 3 (blk a b c d) = blk d d d d"],
      simp add: blk_bytes mm_shuffle_epi32_all_def upt_16)+

lemma shuffle_pd_blk:
  "mm_shuffle_pd (blk a b c d) (blk a' b' c' d') False = blk a b a' b'"
  "mm_shuffle_pd (blk a b c d) (blk a' b' c' d') True = blk c d a' b'"
  by (simp_all add: mm_shuffle_pd_def blk_def store_words_def U32_TO_U8_LE_def)

lemma xor_blk: "xor_block (blk a b c d) (blk a' b' c' d') = blk (a XOR a') (b XOR b') (c XOR c') (d XOR d')"
  by (rule word_bytes4 [where P = "\<lambda>a b c d. xor_block (blk a b c d) (blk a' b' c' d') =
        blk (a XOR a') (b XOR b') (c XOR c') (d XOR d')"],
      rule word_bytes4 [where a = a' and b = b' and c = c' and d = d'])
    (simp add: blk_bytes le_word_xor xor_block_def upt_16)

lemma keygen_blk:
  "keygen_assisted (blk a b c d) rcon =
    blk (sub_word b) (sub_rot_word b XOR ucast rcon) (sub_word d) (sub_rot_word d XOR ucast rcon)"
proof -
  have u: "ucast rcon = le_word rcon 0 0 0" by (simp add: le_word_def)
  have s: "sub_word (le_word w x y z) = le_word (sub_byte w) (sub_byte x) (sub_byte y) (sub_byte z)"
    "sub_rot_word (le_word w x y z) = le_word (sub_byte x) (sub_byte y) (sub_byte z) (sub_byte w)" for w x y z
    unfolding sub_word_def sub_rot_word_def masks
    by (simp_all add: tables_eq lookup_word le_word_xor le_word_and and_255 del: masks)
  show ?thesis
    by (rule word_bytes4 [where P = "\<lambda>a b c d. keygen_assisted (blk a b c d) rcon =
        blk (sub_word b) (sub_rot_word b XOR ucast rcon) (sub_word d) (sub_rot_word d XOR ucast rcon)"])
      (simp add: u s blk_bytes keygen_assisted_def le_word_xor)
qed

section \<open>The schedules agree\<close>

text \<open>A schedule in words: each block of the other build holds four consecutive words.\<close>

definition words_of_block :: "block \<Rightarrow> u32 list" where
  "words_of_block k = map (U8_TO_U32_LE k) [0, 4, 8, 12]"

lemma words_of_blk: "words_of_block (blk a b c d) = [a, b, c, d]"
  by (rule word_bytes4 [where P = "\<lambda>a b c d. words_of_block (blk a b c d) = [a, b, c, d]"])
    (simp add: words_of_block_def blk_bytes U8_TO_U32_LE_word)

lemma length_words_of_block [simp]: "length (words_of_block k) = 4"
  by (simp add: words_of_block_def)

lemma schedule_words_concat:
  assumes "\<forall>k \<in> set ks. wf_block k" "RK = concat (map words_of_block ks)"
  shows "schedule_words RK ks"
proof -
  have "concat (map words_of_block ks) ! (4 * r + i) = words_of_block (ks ! r) ! i" if "r < length ks" "i < 4" for r i
    using that
  proof (induction ks arbitrary: r)
    case (Cons k ks)
    then show ?case by (cases r) (auto simp: nth_append)
  qed simp
  from this [of _ 0] this [of _ 1] this [of _ 2] this [of _ 3] show ?thesis
    using assms by (simp add: schedule_words_def round_words_def words_of_block_def numeral_2_eq_2)
qed

lemma keygen_documented:
  "aesni_documented ni \<Longrightarrow> aeskeygenassist ni (blk a b c d) rcon =
    blk (sub_word b) (sub_rot_word b XOR ucast rcon) (sub_word d) (sub_rot_word d XOR ucast rcon)"
  by (simp add: aesni_documented_def keygen_blk)

lemmas blk_simps = slli_blk shuffle_blk shuffle_blk [unfolded One_nat_def] shuffle_pd_blk xor_blk keygen_documented

lemma AES_128_ASSIST_chunk:
  assumes "aesni_documented ni" "ucast rcon = rc"
  obtains e f g h where "chunk4 rc [a, b, c, d] = [e, f, g, h]"
    "AES_128_ASSIST (blk a b c d) (aeskeygenassist ni (blk a b c d) rcon) = blk e f g h"
  using assms
  by (simp add: chunk4_def AES_128_ASSIST_def blk_simps Let_def xor_ac)

lemma KEY_192_ASSIST_chunk:
  assumes "aesni_documented ni" "ucast rcon = rc"
  obtains g h i j k l x' y' where "chunk6 rc [a, b, c, d, e, f] = [g, h, i, j, k, l]"
    "KEY_192_ASSIST (blk a b c d) (aeskeygenassist ni (blk e f x y) rcon) (blk e f x y) = (blk g h i j, blk k l x' y')"
  using assms
  by (simp add: chunk6_def KEY_192_ASSIST_def blk_simps Let_def xor_ac)

lemma KEY_256_ASSIST_chunk:
  assumes "aesni_documented ni" "ucast rcon = rc"
  obtains i j k l m n p q where "chunk8 rc [a, b, c, d, e, f, g, h] = [i, j, k, l, m, n, p, q]"
    "KEY_256_ASSIST_1 (blk a b c d) (aeskeygenassist ni (blk e f g h) rcon) = blk i j k l"
    "KEY_256_ASSIST_2 ni (blk i j k l) (blk e f g h) = blk m n p q"
  using assms
  by (simp add: chunk8_def KEY_256_ASSIST_1_def KEY_256_ASSIST_2_def blk_simps Let_def xor_ac)


lemma loadu_at_blk:
  assumes "i + 16 \<le> length x"
  shows "loadu_at x i = Inr (blk (U8_TO_U32_LE x i) (U8_TO_U32_LE x (i + 4)) (U8_TO_U32_LE x (i + 8)) (U8_TO_U32_LE x (i + 12)))"
proof -
  have "take 16 (drop i x) = map (\<lambda>j. x ! (i + j)) [0..<16]"
    using assms by (intro nth_equalityI) auto
  then show ?thesis
    using assms by (simp add: loadu_at_def U8_TO_U32_LE_word blk_bytes upt_16 numeral_2_eq_2 add.commute [of i])
qed

text \<open>
  Each schedule step by step: the words of the next chunk get names, and both builds produce them.
\<close>

lemma aes_128_schedules:
  assumes "aesni_documented ni" "16 \<le> length key"
  shows "\<exists>ks. aes_128_schedule_ni ni key = Inr ks \<and> length ks = 11 \<and> (\<forall>k \<in> set ks. wf_block k) \<and>
    aes_schedule 4 10 key = concat (map words_of_block ks)"
proof -
  let ?w = "\<lambda>i. U8_TO_U32_LE key i"
  obtain w1_0 w1_1 w1_2 w1_3 where A1: "chunk4 1 [(?w 0), (?w 4), (?w 8), (?w 12)] = [w1_0, w1_1, w1_2, w1_3]"
    and B1: "AES_128_ASSIST (blk (?w 0) (?w 4) (?w 8) (?w 12)) (aeskeygenassist ni (blk (?w 0) (?w 4) (?w 8) (?w 12)) 1) = blk w1_0 w1_1 w1_2 w1_3"
    by (rule AES_128_ASSIST_chunk [OF assms(1), of "1" "1"]) simp_all
  obtain w2_0 w2_1 w2_2 w2_3 where A2: "chunk4 2 [w1_0, w1_1, w1_2, w1_3] = [w2_0, w2_1, w2_2, w2_3]"
    and B2: "AES_128_ASSIST (blk w1_0 w1_1 w1_2 w1_3) (aeskeygenassist ni (blk w1_0 w1_1 w1_2 w1_3) 2) = blk w2_0 w2_1 w2_2 w2_3"
    by (rule AES_128_ASSIST_chunk [OF assms(1), of "2" "2"]) simp_all
  obtain w3_0 w3_1 w3_2 w3_3 where A3: "chunk4 4 [w2_0, w2_1, w2_2, w2_3] = [w3_0, w3_1, w3_2, w3_3]"
    and B3: "AES_128_ASSIST (blk w2_0 w2_1 w2_2 w2_3) (aeskeygenassist ni (blk w2_0 w2_1 w2_2 w2_3) 4) = blk w3_0 w3_1 w3_2 w3_3"
    by (rule AES_128_ASSIST_chunk [OF assms(1), of "4" "4"]) simp_all
  obtain w4_0 w4_1 w4_2 w4_3 where A4: "chunk4 8 [w3_0, w3_1, w3_2, w3_3] = [w4_0, w4_1, w4_2, w4_3]"
    and B4: "AES_128_ASSIST (blk w3_0 w3_1 w3_2 w3_3) (aeskeygenassist ni (blk w3_0 w3_1 w3_2 w3_3) 8) = blk w4_0 w4_1 w4_2 w4_3"
    by (rule AES_128_ASSIST_chunk [OF assms(1), of "8" "8"]) simp_all
  obtain w5_0 w5_1 w5_2 w5_3 where A5: "chunk4 0x10 [w4_0, w4_1, w4_2, w4_3] = [w5_0, w5_1, w5_2, w5_3]"
    and B5: "AES_128_ASSIST (blk w4_0 w4_1 w4_2 w4_3) (aeskeygenassist ni (blk w4_0 w4_1 w4_2 w4_3) 0x10) = blk w5_0 w5_1 w5_2 w5_3"
    by (rule AES_128_ASSIST_chunk [OF assms(1), of "0x10" "0x10"]) simp_all
  obtain w6_0 w6_1 w6_2 w6_3 where A6: "chunk4 0x20 [w5_0, w5_1, w5_2, w5_3] = [w6_0, w6_1, w6_2, w6_3]"
    and B6: "AES_128_ASSIST (blk w5_0 w5_1 w5_2 w5_3) (aeskeygenassist ni (blk w5_0 w5_1 w5_2 w5_3) 0x20) = blk w6_0 w6_1 w6_2 w6_3"
    by (rule AES_128_ASSIST_chunk [OF assms(1), of "0x20" "0x20"]) simp_all
  obtain w7_0 w7_1 w7_2 w7_3 where A7: "chunk4 0x40 [w6_0, w6_1, w6_2, w6_3] = [w7_0, w7_1, w7_2, w7_3]"
    and B7: "AES_128_ASSIST (blk w6_0 w6_1 w6_2 w6_3) (aeskeygenassist ni (blk w6_0 w6_1 w6_2 w6_3) 0x40) = blk w7_0 w7_1 w7_2 w7_3"
    by (rule AES_128_ASSIST_chunk [OF assms(1), of "0x40" "0x40"]) simp_all
  obtain w8_0 w8_1 w8_2 w8_3 where A8: "chunk4 0x80 [w7_0, w7_1, w7_2, w7_3] = [w8_0, w8_1, w8_2, w8_3]"
    and B8: "AES_128_ASSIST (blk w7_0 w7_1 w7_2 w7_3) (aeskeygenassist ni (blk w7_0 w7_1 w7_2 w7_3) 0x80) = blk w8_0 w8_1 w8_2 w8_3"
    by (rule AES_128_ASSIST_chunk [OF assms(1), of "0x80" "0x80"]) simp_all
  obtain w9_0 w9_1 w9_2 w9_3 where A9: "chunk4 0x1B [w8_0, w8_1, w8_2, w8_3] = [w9_0, w9_1, w9_2, w9_3]"
    and B9: "AES_128_ASSIST (blk w8_0 w8_1 w8_2 w8_3) (aeskeygenassist ni (blk w8_0 w8_1 w8_2 w8_3) 0x1B) = blk w9_0 w9_1 w9_2 w9_3"
    by (rule AES_128_ASSIST_chunk [OF assms(1), of "0x1B" "0x1B"]) simp_all
  obtain w10_0 w10_1 w10_2 w10_3 where A10: "chunk4 0x36 [w9_0, w9_1, w9_2, w9_3] = [w10_0, w10_1, w10_2, w10_3]"
    and B10: "AES_128_ASSIST (blk w9_0 w9_1 w9_2 w9_3) (aeskeygenassist ni (blk w9_0 w9_1 w9_2 w9_3) 0x36) = blk w10_0 w10_1 w10_2 w10_3"
    by (rule AES_128_ASSIST_chunk [OF assms(1), of "0x36" "0x36"]) simp_all
  have "aes_128_schedule_ni ni key = Inr [blk (?w 0) (?w 4) (?w 8) (?w 12),
      blk w1_0 w1_1 w1_2 w1_3,
      blk w2_0 w2_1 w2_2 w2_3,
      blk w3_0 w3_1 w3_2 w3_3,
      blk w4_0 w4_1 w4_2 w4_3,
      blk w5_0 w5_1 w5_2 w5_3,
      blk w6_0 w6_1 w6_2 w6_3,
      blk w7_0 w7_1 w7_2 w7_3,
      blk w8_0 w8_1 w8_2 w8_3,
      blk w9_0 w9_1 w9_2 w9_3,
      blk w10_0 w10_1 w10_2 w10_3]"
    using assms(2) by (simp add: aes_128_schedule_ni_def loadu_at_blk B1 B2 B3 B4 B5 B6 B7 B8 B9 B10)
  moreover have "aes_schedule 4 10 key = [(?w 0), (?w 4), (?w 8), (?w 12)] @ [w1_0, w1_1, w1_2, w1_3] @
      [w2_0, w2_1, w2_2, w2_3] @ [w3_0, w3_1, w3_2, w3_3] @ [w4_0, w4_1, w4_2, w4_3] @ [w5_0, w5_1, w5_2,
      w5_3] @ [w6_0, w6_1, w6_2, w6_3] @ [w7_0, w7_1, w7_2, w7_3] @ [w8_0, w8_1, w8_2, w8_3] @ [w9_0, w9_1,
      w9_2, w9_3] @ [w10_0, w10_1, w10_2, w10_3]"
    by (simp add: aes_schedule_by_chunks chunks_def upt_rec RC_def A1 A2 A3 A4 A5 A6 A7 A8 A9 A10)
  ultimately show ?thesis by (simp add: words_of_blk)
qed

lemma aes_192_schedules:
  assumes "aesni_documented ni" "32 \<le> length key"
  shows "\<exists>ks. aes_192_schedule_ni ni key = Inr ks \<and> length ks = 13 \<and> (\<forall>k \<in> set ks. wf_block k) \<and>
    aes_schedule 6 12 key = concat (map words_of_block ks)"
proof -
  let ?w = "\<lambda>i. U8_TO_U32_LE key i"
  obtain w1_0 w1_1 w1_2 w1_3 w1_4 w1_5 x1 y1 where A1: "chunk6 1 [(?w 0), (?w 4), (?w 8), (?w 12), (?w 16), (?w 20)] = [w1_0, w1_1, w1_2, w1_3, w1_4, w1_5]"
    and B1: "KEY_192_ASSIST (blk (?w 0) (?w 4) (?w 8) (?w 12)) (aeskeygenassist ni (blk (?w 16) (?w 20) (?w 24) (?w 28)) 1) (blk (?w 16) (?w 20) (?w 24) (?w 28)) =
      (blk w1_0 w1_1 w1_2 w1_3, blk w1_4 w1_5 x1 y1)"
    by (rule KEY_192_ASSIST_chunk [OF assms(1), of "1" "1"]) simp_all
  obtain w2_0 w2_1 w2_2 w2_3 w2_4 w2_5 x2 y2 where A2: "chunk6 2 [w1_0, w1_1, w1_2, w1_3, w1_4, w1_5] = [w2_0, w2_1, w2_2, w2_3, w2_4, w2_5]"
    and B2: "KEY_192_ASSIST (blk w1_0 w1_1 w1_2 w1_3) (aeskeygenassist ni (blk w1_4 w1_5 x1 y1) 2) (blk w1_4 w1_5 x1 y1) =
      (blk w2_0 w2_1 w2_2 w2_3, blk w2_4 w2_5 x2 y2)"
    by (rule KEY_192_ASSIST_chunk [OF assms(1), of "2" "2"]) simp_all
  obtain w3_0 w3_1 w3_2 w3_3 w3_4 w3_5 x3 y3 where A3: "chunk6 4 [w2_0, w2_1, w2_2, w2_3, w2_4, w2_5] = [w3_0, w3_1, w3_2, w3_3, w3_4, w3_5]"
    and B3: "KEY_192_ASSIST (blk w2_0 w2_1 w2_2 w2_3) (aeskeygenassist ni (blk w2_4 w2_5 x2 y2) 4) (blk w2_4 w2_5 x2 y2) =
      (blk w3_0 w3_1 w3_2 w3_3, blk w3_4 w3_5 x3 y3)"
    by (rule KEY_192_ASSIST_chunk [OF assms(1), of "4" "4"]) simp_all
  obtain w4_0 w4_1 w4_2 w4_3 w4_4 w4_5 x4 y4 where A4: "chunk6 8 [w3_0, w3_1, w3_2, w3_3, w3_4, w3_5] = [w4_0, w4_1, w4_2, w4_3, w4_4, w4_5]"
    and B4: "KEY_192_ASSIST (blk w3_0 w3_1 w3_2 w3_3) (aeskeygenassist ni (blk w3_4 w3_5 x3 y3) 8) (blk w3_4 w3_5 x3 y3) =
      (blk w4_0 w4_1 w4_2 w4_3, blk w4_4 w4_5 x4 y4)"
    by (rule KEY_192_ASSIST_chunk [OF assms(1), of "8" "8"]) simp_all
  obtain w5_0 w5_1 w5_2 w5_3 w5_4 w5_5 x5 y5 where A5: "chunk6 0x10 [w4_0, w4_1, w4_2, w4_3, w4_4, w4_5] = [w5_0, w5_1, w5_2, w5_3, w5_4, w5_5]"
    and B5: "KEY_192_ASSIST (blk w4_0 w4_1 w4_2 w4_3) (aeskeygenassist ni (blk w4_4 w4_5 x4 y4) 0x10) (blk w4_4 w4_5 x4 y4) =
      (blk w5_0 w5_1 w5_2 w5_3, blk w5_4 w5_5 x5 y5)"
    by (rule KEY_192_ASSIST_chunk [OF assms(1), of "0x10" "0x10"]) simp_all
  obtain w6_0 w6_1 w6_2 w6_3 w6_4 w6_5 x6 y6 where A6: "chunk6 0x20 [w5_0, w5_1, w5_2, w5_3, w5_4, w5_5] = [w6_0, w6_1, w6_2, w6_3, w6_4, w6_5]"
    and B6: "KEY_192_ASSIST (blk w5_0 w5_1 w5_2 w5_3) (aeskeygenassist ni (blk w5_4 w5_5 x5 y5) 0x20) (blk w5_4 w5_5 x5 y5) =
      (blk w6_0 w6_1 w6_2 w6_3, blk w6_4 w6_5 x6 y6)"
    by (rule KEY_192_ASSIST_chunk [OF assms(1), of "0x20" "0x20"]) simp_all
  obtain w7_0 w7_1 w7_2 w7_3 w7_4 w7_5 x7 y7 where A7: "chunk6 0x40 [w6_0, w6_1, w6_2, w6_3, w6_4, w6_5] = [w7_0, w7_1, w7_2, w7_3, w7_4, w7_5]"
    and B7: "KEY_192_ASSIST (blk w6_0 w6_1 w6_2 w6_3) (aeskeygenassist ni (blk w6_4 w6_5 x6 y6) 0x40) (blk w6_4 w6_5 x6 y6) =
      (blk w7_0 w7_1 w7_2 w7_3, blk w7_4 w7_5 x7 y7)"
    by (rule KEY_192_ASSIST_chunk [OF assms(1), of "0x40" "0x40"]) simp_all
  obtain w8_0 w8_1 w8_2 w8_3 w8_4 w8_5 x8 y8 where A8: "chunk6 0x80 [w7_0, w7_1, w7_2, w7_3, w7_4, w7_5] = [w8_0, w8_1, w8_2, w8_3, w8_4, w8_5]"
    and B8: "KEY_192_ASSIST (blk w7_0 w7_1 w7_2 w7_3) (aeskeygenassist ni (blk w7_4 w7_5 x7 y7) 0x80) (blk w7_4 w7_5 x7 y7) =
      (blk w8_0 w8_1 w8_2 w8_3, blk w8_4 w8_5 x8 y8)"
    by (rule KEY_192_ASSIST_chunk [OF assms(1), of "0x80" "0x80"]) simp_all
  have "aes_192_schedule_ni ni key = Inr [blk (?w 0) (?w 4) (?w 8) (?w 12),
      blk (?w 16) (?w 20) w1_0 w1_1,
      blk w1_2 w1_3 w1_4 w1_5,
      blk w2_0 w2_1 w2_2 w2_3,
      blk w2_4 w2_5 w3_0 w3_1,
      blk w3_2 w3_3 w3_4 w3_5,
      blk w4_0 w4_1 w4_2 w4_3,
      blk w4_4 w4_5 w5_0 w5_1,
      blk w5_2 w5_3 w5_4 w5_5,
      blk w6_0 w6_1 w6_2 w6_3,
      blk w6_4 w6_5 w7_0 w7_1,
      blk w7_2 w7_3 w7_4 w7_5,
      blk w8_0 w8_1 w8_2 w8_3]"
    using assms(2) by (simp add: aes_192_schedule_ni_def loadu_at_blk shuffle_pd_blk B1 B2 B3 B4 B5 B6 B7 B8)
  moreover have "aes_schedule 6 12 key = [(?w 0), (?w 4), (?w 8), (?w 12), (?w 16), (?w 20), w1_0, w1_1,
      w1_2, w1_3, w1_4, w1_5, w2_0, w2_1, w2_2, w2_3, w2_4, w2_5, w3_0, w3_1, w3_2, w3_3, w3_4, w3_5, w4_0,
      w4_1, w4_2, w4_3, w4_4, w4_5, w5_0, w5_1, w5_2, w5_3, w5_4, w5_5, w6_0, w6_1, w6_2, w6_3, w6_4, w6_5,
      w7_0, w7_1, w7_2, w7_3, w7_4, w7_5, w8_0, w8_1, w8_2, w8_3]"
    by (simp add: aes_schedule_by_chunks chunks_def upt_rec RC_def A1 A2 A3 A4 A5 A6 A7 A8)
  ultimately show ?thesis by (simp add: words_of_blk)
qed

lemma aes_256_schedules:
  assumes "aesni_documented ni" "32 \<le> length key"
  shows "\<exists>ks. aes_256_schedule_ni ni key = Inr ks \<and> length ks = 15 \<and> (\<forall>k \<in> set ks. wf_block k) \<and>
    aes_schedule 8 14 key = concat (map words_of_block ks)"
proof -
  let ?w = "\<lambda>i. U8_TO_U32_LE key i"
  obtain w1_0 w1_1 w1_2 w1_3 w1_4 w1_5 w1_6 w1_7 where A1: "chunk8 1 [(?w 0), (?w 4), (?w 8), (?w 12), (?w 16), (?w 20), (?w 24), (?w 28)] = [w1_0, w1_1, w1_2, w1_3, w1_4, w1_5, w1_6, w1_7]"
    and B1: "KEY_256_ASSIST_1 (blk (?w 0) (?w 4) (?w 8) (?w 12)) (aeskeygenassist ni (blk (?w 16) (?w 20) (?w 24) (?w 28)) 1) = blk w1_0 w1_1 w1_2 w1_3"
      "KEY_256_ASSIST_2 ni (blk w1_0 w1_1 w1_2 w1_3) (blk (?w 16) (?w 20) (?w 24) (?w 28)) = blk w1_4 w1_5 w1_6 w1_7"
    by (rule KEY_256_ASSIST_chunk [OF assms(1), of "1" "1"]) simp_all
  obtain w2_0 w2_1 w2_2 w2_3 w2_4 w2_5 w2_6 w2_7 where A2: "chunk8 2 [w1_0, w1_1, w1_2, w1_3, w1_4, w1_5, w1_6, w1_7] = [w2_0, w2_1, w2_2, w2_3, w2_4, w2_5, w2_6, w2_7]"
    and B2: "KEY_256_ASSIST_1 (blk w1_0 w1_1 w1_2 w1_3) (aeskeygenassist ni (blk w1_4 w1_5 w1_6 w1_7) 2) = blk w2_0 w2_1 w2_2 w2_3"
      "KEY_256_ASSIST_2 ni (blk w2_0 w2_1 w2_2 w2_3) (blk w1_4 w1_5 w1_6 w1_7) = blk w2_4 w2_5 w2_6 w2_7"
    by (rule KEY_256_ASSIST_chunk [OF assms(1), of "2" "2"]) simp_all
  obtain w3_0 w3_1 w3_2 w3_3 w3_4 w3_5 w3_6 w3_7 where A3: "chunk8 4 [w2_0, w2_1, w2_2, w2_3, w2_4, w2_5, w2_6, w2_7] = [w3_0, w3_1, w3_2, w3_3, w3_4, w3_5, w3_6, w3_7]"
    and B3: "KEY_256_ASSIST_1 (blk w2_0 w2_1 w2_2 w2_3) (aeskeygenassist ni (blk w2_4 w2_5 w2_6 w2_7) 4) = blk w3_0 w3_1 w3_2 w3_3"
      "KEY_256_ASSIST_2 ni (blk w3_0 w3_1 w3_2 w3_3) (blk w2_4 w2_5 w2_6 w2_7) = blk w3_4 w3_5 w3_6 w3_7"
    by (rule KEY_256_ASSIST_chunk [OF assms(1), of "4" "4"]) simp_all
  obtain w4_0 w4_1 w4_2 w4_3 w4_4 w4_5 w4_6 w4_7 where A4: "chunk8 8 [w3_0, w3_1, w3_2, w3_3, w3_4, w3_5, w3_6, w3_7] = [w4_0, w4_1, w4_2, w4_3, w4_4, w4_5, w4_6, w4_7]"
    and B4: "KEY_256_ASSIST_1 (blk w3_0 w3_1 w3_2 w3_3) (aeskeygenassist ni (blk w3_4 w3_5 w3_6 w3_7) 8) = blk w4_0 w4_1 w4_2 w4_3"
      "KEY_256_ASSIST_2 ni (blk w4_0 w4_1 w4_2 w4_3) (blk w3_4 w3_5 w3_6 w3_7) = blk w4_4 w4_5 w4_6 w4_7"
    by (rule KEY_256_ASSIST_chunk [OF assms(1), of "8" "8"]) simp_all
  obtain w5_0 w5_1 w5_2 w5_3 w5_4 w5_5 w5_6 w5_7 where A5: "chunk8 0x10 [w4_0, w4_1, w4_2, w4_3, w4_4, w4_5, w4_6, w4_7] = [w5_0, w5_1, w5_2, w5_3, w5_4, w5_5, w5_6, w5_7]"
    and B5: "KEY_256_ASSIST_1 (blk w4_0 w4_1 w4_2 w4_3) (aeskeygenassist ni (blk w4_4 w4_5 w4_6 w4_7) 0x10) = blk w5_0 w5_1 w5_2 w5_3"
      "KEY_256_ASSIST_2 ni (blk w5_0 w5_1 w5_2 w5_3) (blk w4_4 w4_5 w4_6 w4_7) = blk w5_4 w5_5 w5_6 w5_7"
    by (rule KEY_256_ASSIST_chunk [OF assms(1), of "0x10" "0x10"]) simp_all
  obtain w6_0 w6_1 w6_2 w6_3 w6_4 w6_5 w6_6 w6_7 where A6: "chunk8 0x20 [w5_0, w5_1, w5_2, w5_3, w5_4, w5_5, w5_6, w5_7] = [w6_0, w6_1, w6_2, w6_3, w6_4, w6_5, w6_6, w6_7]"
    and B6: "KEY_256_ASSIST_1 (blk w5_0 w5_1 w5_2 w5_3) (aeskeygenassist ni (blk w5_4 w5_5 w5_6 w5_7) 0x20) = blk w6_0 w6_1 w6_2 w6_3"
      "KEY_256_ASSIST_2 ni (blk w6_0 w6_1 w6_2 w6_3) (blk w5_4 w5_5 w5_6 w5_7) = blk w6_4 w6_5 w6_6 w6_7"
    by (rule KEY_256_ASSIST_chunk [OF assms(1), of "0x20" "0x20"]) simp_all
  obtain w7_0 w7_1 w7_2 w7_3 w7_4 w7_5 w7_6 w7_7 where A7: "chunk8 0x40 [w6_0, w6_1, w6_2, w6_3, w6_4, w6_5, w6_6, w6_7] = [w7_0, w7_1, w7_2, w7_3, w7_4, w7_5, w7_6, w7_7]"
    and B7: "KEY_256_ASSIST_1 (blk w6_0 w6_1 w6_2 w6_3) (aeskeygenassist ni (blk w6_4 w6_5 w6_6 w6_7) 0x40) = blk w7_0 w7_1 w7_2 w7_3"
      "KEY_256_ASSIST_2 ni (blk w7_0 w7_1 w7_2 w7_3) (blk w6_4 w6_5 w6_6 w6_7) = blk w7_4 w7_5 w7_6 w7_7"
    by (rule KEY_256_ASSIST_chunk [OF assms(1), of "0x40" "0x40"]) simp_all
  have "aes_256_schedule_ni ni key = Inr [blk (?w 0) (?w 4) (?w 8) (?w 12),
      blk (?w 16) (?w 20) (?w 24) (?w 28),
      blk w1_0 w1_1 w1_2 w1_3,
      blk w1_4 w1_5 w1_6 w1_7,
      blk w2_0 w2_1 w2_2 w2_3,
      blk w2_4 w2_5 w2_6 w2_7,
      blk w3_0 w3_1 w3_2 w3_3,
      blk w3_4 w3_5 w3_6 w3_7,
      blk w4_0 w4_1 w4_2 w4_3,
      blk w4_4 w4_5 w4_6 w4_7,
      blk w5_0 w5_1 w5_2 w5_3,
      blk w5_4 w5_5 w5_6 w5_7,
      blk w6_0 w6_1 w6_2 w6_3,
      blk w6_4 w6_5 w6_6 w6_7,
      blk w7_0 w7_1 w7_2 w7_3]"
    using assms(2) by (simp add: aes_256_schedule_ni_def loadu_at_blk Let_def B1 B2 B3 B4 B5 B6 B7
        cong: let_weak_cong)
  moreover have "aes_schedule 8 14 key = [(?w 0), (?w 4), (?w 8), (?w 12), (?w 16), (?w 20), (?w 24),
      (?w 28), w1_0, w1_1, w1_2, w1_3, w1_4, w1_5, w1_6, w1_7, w2_0, w2_1, w2_2, w2_3, w2_4, w2_5, w2_6, w2_7,
      w3_0, w3_1, w3_2, w3_3, w3_4, w3_5, w3_6, w3_7, w4_0, w4_1, w4_2, w4_3, w4_4, w4_5, w4_6, w4_7, w5_0,
      w5_1, w5_2, w5_3, w5_4, w5_5, w5_6, w5_7, w6_0, w6_1, w6_2, w6_3, w6_4, w6_5, w6_6, w6_7, w7_0, w7_1,
      w7_2, w7_3]"
    by (simp add: aes_schedule_by_chunks chunks_def upt_rec RC_def A1 A2 A3 A4 A5 A6 A7)
  ultimately show ?thesis by (simp add: words_of_blk)
qed

section \<open>All builds compute the same cipher\<close>

lemma encrypt_ni_cipher:
  assumes "aesni_documented ni" "\<forall>k \<in> set ks. wf_block k" "wf_block M"
  shows "length ks = 11 \<Longrightarrow> aes_128_encrypt_ni ni M ks = cipher ks M"
    and "length ks = 13 \<Longrightarrow> aes_192_encrypt_ni ni M ks = cipher ks M"
    and "length ks = 15 \<Longrightarrow> aes_256_encrypt_ni ni M ks = cipher ks M"
proof -
  have k: "\<forall>i \<in> set [1..<length ks - 1]. wf_block (ks ! i)" using assms(2) by auto
  note fold = aes_rounds_documented [OF assms(1) wf_xor_block k, of M "ks ! 0", THEN conjunct1]
    aes_rounds_documented [OF assms(1) wf_xor_block k, of M "ks ! 0", THEN conjunct2]
  have final: "aesenclast ni s (ks ! (length ks - 1)) = add_round_key (shift_rows (sub_bytes s)) (ks ! (length ks - 1))"
    if "wf_block s" "ks \<noteq> []" for s
    using assms(1,2) that by (simp add: aesni_documented_def shift_rows_eq sub_bytes_rows_shifted add_round_key_xor)
  show "length ks = 11 \<Longrightarrow> aes_128_encrypt_ni ni M ks = cipher ks M"
    "length ks = 13 \<Longrightarrow> aes_192_encrypt_ni ni M ks = cipher ks M"
    "length ks = 15 \<Longrightarrow> aes_256_encrypt_ni ni M ks = cipher ks M"
    using fold final [OF fold(2)]
    by (cases "ks = []"; auto simp: aes_128_encrypt_ni_def aes_192_encrypt_ni_def aes_256_encrypt_ni_def cipher_def
        add_round_key_xor)+
qed

lemma schedules_128:
  assumes "aesni_documented ni" "16 \<le> length key"
  obtains ks where "aes_128_schedule_ni ni key = Inr ks" "length ks = 11" "\<forall>k \<in> set ks. wf_block k"
    "schedule_words (aes_schedule 4 10 key) ks"
  using aes_128_schedules [OF assms] schedule_words_concat by blast

text \<open>
  C29.  The builds of MP-SPDZ's AES agree for all three key lengths.  If the processor's AES instructions
  behave as documented, then for every key buffer of 32 bytes (the 24-byte key of AES-192 is read
  with the 8 bytes behind it) and every block, key schedule and encryption with the instructions and
  with the tables give the same ciphertext.
\<close>

theorem aes_builds_agree:
  assumes "aesni_documented ni" "32 \<le> length key" "wf_block M"
  shows "(\<exists>ks. aes_128_schedule_ni ni key = Inr ks \<and>
      aes_128_encrypt_ni ni M ks = aes_128_encrypt M (aes_schedule 4 10 key)) \<and>
    (\<exists>ks. aes_192_schedule_ni ni key = Inr ks \<and>
      aes_192_encrypt_ni ni M ks = aes_192_encrypt M (aes_schedule 6 12 key)) \<and>
    (\<exists>ks. aes_256_schedule_ni ni key = Inr ks \<and>
      aes_256_encrypt_ni ni M ks = aes_256_encrypt M (aes_schedule 8 14 key))"
proof (intro conjI)
  show "\<exists>ks. aes_128_schedule_ni ni key = Inr ks \<and>
      aes_128_encrypt_ni ni M ks = aes_128_encrypt M (aes_schedule 4 10 key)"
  proof -
    obtain ks where ks: "aes_128_schedule_ni ni key = Inr ks" "length ks = 11" "\<forall>k \<in> set ks. wf_block k"
      "schedule_words (aes_schedule 4 10 key) ks"
      by (rule schedules_128 [OF assms(1), of key]) (use assms(2) in auto)
    then show ?thesis
      by (simp add: encrypt_ni_cipher(1) [OF assms(1) _ assms(3)] aes_128_encrypt_cipher [OF _ _ assms(3)])
  qed
  show "\<exists>ks. aes_192_schedule_ni ni key = Inr ks \<and>
      aes_192_encrypt_ni ni M ks = aes_192_encrypt M (aes_schedule 6 12 key)"
    using aes_192_schedules [OF assms(1,2)] encrypt_ni_cipher(2) [OF assms(1) _ assms(3)]
      aes_192_encrypt_cipher [OF schedule_words_concat _ assms(3)] by metis
  show "\<exists>ks. aes_256_schedule_ni ni key = Inr ks \<and>
      aes_256_encrypt_ni ni M ks = aes_256_encrypt M (aes_schedule 8 14 key)"
    using aes_256_schedules [OF assms(1,2)] encrypt_ni_cipher(3) [OF assms(1) _ assms(3)]
      aes_256_encrypt_cipher [OF schedule_words_concat _ assms(3)] by metis
qed

text \<open>The instructions by their documentation.\<close>

definition documented_ni :: aesni where
  "documented_ni = \<lparr>aesenc = \<lambda>a k. xor_block (columns_mixed (sub_bytes (rows_shifted a))) k,
    aesenclast = \<lambda>a k. xor_block (sub_bytes (rows_shifted a)) k, aeskeygenassist = keygen_assisted\<rparr>"

lemma documented_ni: "aesni_documented documented_ni"
  by (simp add: aesni_documented_def documented_ni_def)

lemma aes_builds_agree_witness:
  "\<exists>ks. aes_192_schedule_ni documented_ni (replicate 32 7) = Inr ks \<and>
    aes_192_encrypt_ni documented_ni zero_block ks = aes_192_encrypt zero_block (aes_schedule 6 12 (replicate 32 7))"
  using aes_builds_agree [OF documented_ni, of "replicate 32 7" zero_block] by auto

lemma shuffle_ff: "mm_shuffle_epi32_ff = mm_shuffle_epi32_all 3"
  by (rule ext) (simp add: mm_shuffle_epi32_ff_def mm_shuffle_epi32_all_def)

lemma AES_128_ASSIST_eq: "wf_block key \<Longrightarrow> wf_block a \<Longrightarrow> AES_128_ASSIST key a = key_expand_assist key a"
  by (erule blk_cases, erule blk_cases)
    (simp add: AES_128_ASSIST_def key_expand_assist_def shuffle_ff Let_def blk_simps xor_ac)

lemma aes_128_schedule_FixedKeyAES:
  assumes "aesni_documented ni" "wf_block key"
  shows "aes_128_schedule_ni ni key = Inr (rk (FixedKeyAES_init key))"
proof -
  have step: "foldl (\<lambda>ks rcon. ks @ [AES_128_ASSIST (last ks) (aeskeygenassist ni (last ks) rcon)]) ks rcons =
      foldl (\<lambda>ks rcon. ks @ [key_expand_assist (last ks) (aeskeygenassist ni (last ks) rcon)]) ks rcons"
    if "ks \<noteq> []" "wf_block (last ks)" for ks rcons
    using that
  proof (induction rcons arbitrary: ks)
    case (Cons rcon rcons)
    have "wf_block (aeskeygenassist ni (last ks) rcon)"
      using assms(1) Cons(3) by (simp add: aesni_documented_def keygen_assisted_def wf_block_def)
    then show ?case using Cons by (simp add: AES_128_ASSIST_eq)
  qed simp
  have "loadu_at key 0 = Inr (take 16 key)" "take 16 key = key"
    using assms(2) by (simp_all add: loadu_at_def wf_block_def)
  then have "aes_128_schedule_ni ni key = Inr (rk (FixedKeyAES_ni_init ni key))"
    using step [of "[key]"] assms(2)
    by (simp add: aes_128_schedule_ni_def FixedKeyAES_ni_init_def del: foldl_Cons)
  then show ?thesis by (simp add: FixedKeyAES_ni_init_eq [OF assms])
qed

text \<open>The tables encrypt like \<^verbatim>\<open>FixedKeyAES\<close>.\<close>

lemma tables_FixedKeyAES:
  assumes "wf_block key" "wf_block M"
  shows "aes_128_encrypt M (aes_schedule 4 10 key) = encrypt (FixedKeyAES_init key) M"
proof -
  obtain ks where ks: "aes_128_schedule_ni documented_ni key = Inr ks" "length ks = 11"
    "schedule_words (aes_schedule 4 10 key) ks"
    by (rule schedules_128 [OF documented_ni, of key]) (use assms(1) in \<open>auto simp: wf_block_def\<close>)
  then have "ks = rk (FixedKeyAES_init key)"
    using aes_128_schedule_FixedKeyAES [OF documented_ni assms(1)] by simp
  then show ?thesis
    using ks aes_128_encrypt_cipher [OF ks(3,2) assms(2)] cipher_encrypt [OF assms(2), of "FixedKeyAES_init key"] by simp
qed

lemma ecb_ni_map:
  assumes "aesni_documented ni" "\<forall>M \<in> set inp. wf_block M"
  shows "ecb_aes_128_encrypt_ni ni key inp = map (\<lambda>M. aes_128_encrypt_ni ni M key) inp"
proof -
  have "foldl (\<lambda>tmp j. map (\<lambda>x. aesenc ni x (key ! j)) tmp) (map f inp) js =
      map (\<lambda>x. foldl (\<lambda>tmp j. aesenc ni tmp (key ! j)) (f x) js) inp" for f js
  proof (induction js arbitrary: f)
    case (Cons j js)
    then show ?case using Cons.IH [of "\<lambda>x. aesenc ni (f x) (key ! j)"] by (simp add: comp_def)
  qed simp
  then show ?thesis by (simp add: ecb_aes_128_encrypt_ni_def aes_128_encrypt_ni_def comp_def)
qed

lemma wf_MMO_key [simp]: "wf_block (MMO_key i)"
  by (simp add: MMO_key_def wf_block_def)

lemma MMO_key_0: "MMO_key 0 = zero_block"
  by (simp add: MMO_key_def zero_block_def list_update_same_conv)

text \<open>
  The hash of the Yao parties is the hash of the garbler of \<^verbatim>\<open>voprf-bench\<close>.  Under the all-zero key,
  which is the first key of \<^verbatim>\<open>MMO\<close>, both builds of MP-SPDZ hash a batch of blocks to the values that
  \<^verbatim>\<open>mmo_hash\<close> of \<^verbatim>\<open>gc_mmo.hpp\<close> gives.
\<close>

theorem MMO_hash_eq_mmo_hash:
  assumes "aesni_documented ni" "\<forall>M \<in> set inp. wf_block M" "0 < n_keys" "n_keys \<le> 256"
  shows "\<exists>IV IV'. zeroIV (aes_128_schedule_ni ni) n_keys = Inr IV \<and>
    zeroIV (\<lambda>k. Inr (aes_schedule 4 10 k)) n_keys = Inr IV' \<and>
    MMO_hash (ecb_aes_128_encrypt_ni ni) IV inp = map (mmo_hash (FixedKeyAES_init zero_block)) inp \<and>
    MMO_hash software_ecb_aes_128_encrypt IV' inp = map (mmo_hash (FixedKeyAES_init zero_block)) inp"
proof -
  let ?IV = "map (\<lambda>i. rk (FixedKeyAES_init (MMO_key i))) [0..<n_keys]"
  let ?IV' = "map (\<lambda>i. aes_schedule 4 10 (MMO_key i)) [0..<n_keys]"
  have wf0: "wf_block zero_block" by simp
  have IV: "zeroIV (aes_128_schedule_ni ni) n_keys = Inr ?IV"
    unfolding zeroIV_def using assms(4)
    by (simp add: map_result_Inr [where g = "\<lambda>i. rk (FixedKeyAES_init (MMO_key i))"]
        aes_128_schedule_FixedKeyAES [OF assms(1) wf_MMO_key])
  have IV': "zeroIV (\<lambda>k. Inr (aes_schedule 4 10 k)) n_keys = Inr ?IV'"
    unfolding zeroIV_def using assms(4)
    by (simp add: map_result_Inr [where g = "\<lambda>i. aes_schedule 4 10 (MMO_key i)"])
  have zipmap: "map2 xor_block (map f xs) xs = map (\<lambda>x. xor_block (f x) x) xs" for f xs
    by (induction xs) simp_all
  have ni: "aes_128_encrypt_ni ni M (rk (FixedKeyAES_init zero_block)) = encrypt (FixedKeyAES_init zero_block) M"
    if "wf_block M" for M
  proof -
    have "\<forall>k \<in> set (rk (FixedKeyAES_init zero_block)). wf_block k"
      using FixedKeyAES_init_keys [OF wf0] by (auto simp: in_set_conv_nth)
    then show ?thesis
      using encrypt_ni_cipher(1) [OF assms(1) _ that] FixedKeyAES_init_keys(1) [OF wf0]
        cipher_encrypt [OF that, of "FixedKeyAES_init zero_block"] by simp
  qed
  have "MMO_hash (ecb_aes_128_encrypt_ni ni) ?IV inp = map (mmo_hash (FixedKeyAES_init zero_block)) inp"
    using assms(2,3) by (simp add: MMO_hash_def encrypt_and_xor_def ecb_ni_map [OF assms(1,2)] MMO_key_0 zipmap ni mmo_hash_def)
  moreover have "MMO_hash software_ecb_aes_128_encrypt ?IV' inp = map (mmo_hash (FixedKeyAES_init zero_block)) inp"
    using assms(2,3)
    by (simp add: MMO_hash_def encrypt_and_xor_def software_ecb_aes_128_encrypt_def MMO_key_0 zipmap mmo_hash_def
        tables_FixedKeyAES [OF wf0])
  ultimately show ?thesis using IV IV' by blast
qed

lemma MMO_hash_eq_mmo_hash_witness:
  "\<exists>IV. zeroIV (\<lambda>k. Inr (aes_schedule 4 10 k)) 8 = Inr IV \<and>
    MMO_hash software_ecb_aes_128_encrypt IV [replicate 16 3] =
      [mmo_hash (FixedKeyAES_init zero_block) (replicate 16 3)]"
  using MMO_hash_eq_mmo_hash [OF documented_ni, of "[replicate 16 3]" 8] by (auto simp: wf_block_def)

end
