(* ===== verification/Octet_Stream.thy ===== *)
theory Octet_Stream
  imports Prelude "HOL-Library.Sublist"
begin

unbundle bit_operations_syntax

text \<open>
  The message buffer of MP-SPDZ (\<^verbatim>\<open>Tools/octetStream\<close>) with its length fields
  (\<^verbatim>\<open>Networking/data.h\<close>): typed writing at the write head, typed reading at the read head, bits packed
  eight to a byte.  What is written is read again, in any sequence of types.
\<close>

section \<open>Length fields\<close>

definition le_bytes :: "nat \<Rightarrow> u64 \<Rightarrow> u8 list" where
  "le_bytes n x = map (\<lambda>i. ucast (drop_bit (8 * i) x)) [0..<n]"

definition le_value :: "u8 list \<Rightarrow> u64" where
  "le_value bs = foldr (\<lambda>b acc. ucast b OR push_bit 8 acc) bs 0"

text \<open>The upper part is read as signed, so that small negative numbers fit as well.\<close>

definition encode_length :: "u64 \<Rightarrow> nat \<Rightarrow> u8 list result" where
  "encode_length len n_bytes =
    (let upper = signed_drop_bit (8 * n_bytes) len
     in if 8 < n_bytes then Inl (runtime_error ''length field cannot be more than 64 bits'')
        else if n_bytes < 8 \<and> upper \<noteq> 0 \<and> upper \<noteq> - 1 then Inl (runtime_error ''length too large for length field'')
        else if n_bytes = 0 then Inl (runtime_error ''length outside range'')
        else Inr (le_bytes n_bytes len))"

definition decode_length :: "u8 list \<Rightarrow> nat \<Rightarrow> u64 result" where
  "decode_length buff n_bytes =
    (if 8 < n_bytes then Inl (runtime_error ''length field cannot be more than 64 bits'')
     else if n_bytes = 0 then Inl (runtime_error ''length outside range'')
     else Inr (le_value (take n_bytes buff)))"

section \<open>State\<close>

record BitBuffer =
  bits_n :: nat
  bits_buffer :: u8

text \<open>
  \<open>os_data\<close> holds the \<^verbatim>\<open>len\<close> bytes written, \<open>os_mxlen\<close> is the size of the allocation.
\<close>

record octetStream =
  os_data :: "u8 list"
  os_mxlen :: nat
  os_ptr :: nat
  os_wbits :: BitBuffer
  os_rbits :: BitBuffer

definition no_bits :: BitBuffer where
  "no_bits = \<lparr>bits_n = 0, bits_buffer = 0\<rparr>"

definition empty_stream :: octetStream where
  "empty_stream = \<lparr>os_data = [], os_mxlen = 0, os_ptr = 0, os_wbits = no_bits, os_rbits = no_bits\<rparr>"

section \<open>Allocation\<close>

text \<open>A new allocation below \<^verbatim>\<open>len\<close>, which no caller asks for, would leave the content outside it.\<close>

definition resize_precise :: "nat \<Rightarrow> octetStream \<Rightarrow> octetStream result" where
  "resize_precise l os =
    (if l = os_mxlen os then Inr os
     else if l < length (os_data os) then Inl undefined_access
     else Inr (os\<lparr>os_mxlen := l\<rparr>))"

definition os_resize :: "nat \<Rightarrow> octetStream \<Rightarrow> octetStream result" where
  "os_resize l os = (if l < os_mxlen os then Inr os else resize_precise (2 * l) os)"

definition resize_min :: "nat \<Rightarrow> octetStream \<Rightarrow> octetStream result" where
  "resize_min l os = (if os_mxlen os < l then resize_precise l os else Inr os)"

definition os_reserve :: "nat \<Rightarrow> octetStream \<Rightarrow> octetStream result" where
  "os_reserve l os =
    (if os_mxlen os < length (os_data os) + l then resize_precise (length (os_data os) + l) os else Inr os)"

section \<open>Writing\<close>

definition append_raw :: "u8 list \<Rightarrow> octetStream \<Rightarrow> octetStream result" where
  "append_raw x os =
    bind_result (if os_mxlen os < length (os_data os) + length x
      then os_resize (length (os_data os) + length x) os else Inr os) (\<lambda>os.
    Inr (os\<lparr>os_data := os_data os @ x\<rparr>))"

text \<open>Pending bits are written out first, as a byte.\<close>

definition append :: "u8 list \<Rightarrow> octetStream \<Rightarrow> octetStream result" where
  "append x os =
    bind_result
      (if bits_n (os_wbits os) \<noteq> 0
       then bind_result (append_raw [bits_buffer (os_wbits os)] (os\<lparr>os_wbits := (os_wbits os)\<lparr>bits_n := 0\<rparr>\<rparr>)) (\<lambda>os.
         Inr (os\<lparr>os_wbits := no_bits\<rparr>))
       else Inr os)
      (append_raw x)"

definition append_no_resize :: "u8 list \<Rightarrow> octetStream \<Rightarrow> octetStream result" where
  "append_no_resize x os =
    (if os_mxlen os < length (os_data os) + length x then Inl undefined_access
     else Inr (os\<lparr>os_data := os_data os @ x\<rparr>))"

definition store_int :: "u64 \<Rightarrow> nat \<Rightarrow> octetStream \<Rightarrow> octetStream result" where
  "store_int l n_bytes os = bind_result (encode_length l n_bytes) (\<lambda>x. append x os)"

definition store_bytes :: "u8 list \<Rightarrow> octetStream \<Rightarrow> octetStream result" where
  "store_bytes x os = bind_result (store_int (word_of_nat (length x)) 4 os) (append x)"

definition store_bit :: "bool \<Rightarrow> octetStream \<Rightarrow> octetStream result" where
  "store_bit a os =
    bind_result (if bits_n (os_wbits os) = 8 then append [] os else Inr os) (\<lambda>os.
      let n = bits_n (os_wbits os)
      in Inr (os\<lparr>os_wbits := \<lparr>bits_n = n + 1,
            bits_buffer = bits_buffer (os_wbits os) OR push_bit n (of_bool a)\<rparr>\<rparr>))"

definition store_string :: "u8 list \<Rightarrow> octetStream \<Rightarrow> octetStream result" where
  "store_string str os = bind_result (store_int (word_of_nat (length str)) 8 os) (append str)"

definition os_concat :: "octetStream \<Rightarrow> octetStream \<Rightarrow> octetStream result" where
  "os_concat os' os = append (os_data os') os"

section \<open>Reading\<close>

text \<open>
  \<^verbatim>\<open>consume\<close> adds in 64 bits.  When the sum wraps, the check passes and the caller reads outside the
  content.
\<close>

definition consume :: "u64 \<Rightarrow> octetStream \<Rightarrow> (u8 list \<times> octetStream) result" where
  "consume l os =
    (let os = os\<lparr>os_rbits := (os_rbits os)\<lparr>bits_n := 0\<rparr>\<rparr>;
         n = unat l
     in if word_of_nat (length (os_data os)) < (word_of_nat (os_ptr os) + l :: u64)
        then Inl (runtime_error ''insufficient data'')
        else if length (os_data os) < os_ptr os + n then Inl undefined_access
        else Inr (take n (drop (os_ptr os) (os_data os)), os\<lparr>os_ptr := os_ptr os + n\<rparr>))"

definition os_get_int :: "nat \<Rightarrow> octetStream \<Rightarrow> (u64 \<times> octetStream) result" where
  "os_get_int n_bytes os =
    bind_result (consume (word_of_nat n_bytes) os) (\<lambda>(x, os).
    bind_result (decode_length x n_bytes) (\<lambda>l. Inr (l, os)))"

definition get_bytes :: "octetStream \<Rightarrow> (u8 list \<times> octetStream) result" where
  "get_bytes os = bind_result (os_get_int 4 os) (\<lambda>(l, os). consume l os)"

definition get_bit :: "octetStream \<Rightarrow> (bool \<times> octetStream) result" where
  "get_bit os =
    bind_result
      (if bits_n (os_rbits os) = 0
       then bind_result (os_get_int 1 os) (\<lambda>(x, os). Inr (os\<lparr>os_rbits := \<lparr>bits_n = 8, bits_buffer = ucast x\<rparr>\<rparr>))
       else Inr os) (\<lambda>os.
      let n = bits_n (os_rbits os)
      in Inr (bit (bits_buffer (os_rbits os)) (8 - n), os\<lparr>os_rbits := (os_rbits os)\<lparr>bits_n := n - 1\<rparr>\<rparr>))"

definition get_string :: "octetStream \<Rightarrow> (u8 list \<times> octetStream) result" where
  "get_string os = bind_result (os_get_int 8 os) (\<lambda>(l, os). consume l os)"

definition reset_read_head :: "octetStream \<Rightarrow> octetStream" where
  "reset_read_head os = os\<lparr>os_ptr := 0, os_rbits := (os_rbits os)\<lparr>bits_n := 0\<rparr>\<rparr>"

text \<open>The pending bits are forgotten, their buffer is not cleared.\<close>

definition reset_write_head :: "octetStream \<Rightarrow> octetStream" where
  "reset_write_head os = reset_read_head (os\<lparr>os_data := [], os_wbits := (os_wbits os)\<lparr>bits_n := 0\<rparr>\<rparr>)"

definition os_equals :: "octetStream \<Rightarrow> octetStream \<Rightarrow> bool" where
  "os_equals os a \<longleftrightarrow> length (os_data os) = length (os_data a) \<and> os_data os = os_data a"

section \<open>Big integers\<close>

function digits256 :: "nat \<Rightarrow> u8 list" where
  "digits256 n = (if n = 0 then [] else digits256 (n div 256) @ [word_of_nat n])"
  by auto
termination by (relation "measure id") auto

declare digits256.simps [simp del]

definition numBytes :: "int \<Rightarrow> nat" where
  "numBytes x = max 1 (length (digits256 (nat \<bar>x\<bar>)))"

definition bytesFromBigint :: "int \<Rightarrow> nat \<Rightarrow> u8 list result" where
  "bytesFromBigint x len =
    (let ll = (if x = 0 then 0 else numBytes x)
     in if len < ll then Inl (runtime_error ''invalid length'')
        else Inr (replicate (len - ll) 0 @ digits256 (nat \<bar>x\<bar>)))"

definition bigintFromBytes :: "u8 list \<Rightarrow> int" where
  "bigintFromBytes bs = foldl (\<lambda>acc b. 256 * acc + uint b) 0 bs"

definition store_bigint :: "int \<Rightarrow> octetStream \<Rightarrow> octetStream result" where
  "store_bigint x os =
    (let num = numBytes x
     in bind_result (append [of_bool (x < 0)] os) (\<lambda>os.
        bind_result (store_int (word_of_nat num) 4 os) (\<lambda>os.
        bind_result (bytesFromBigint x num) (\<lambda>bs. append bs os))))"

definition get_bigint :: "octetStream \<Rightarrow> (int \<times> octetStream) result" where
  "get_bigint os =
    bind_result (consume 1 os) (\<lambda>(sign, os).
    if sign \<noteq> [0] \<and> sign \<noteq> [1] then Inl (runtime_error ''bad value'')
    else bind_result (os_get_int 4 os) (\<lambda>(len, os).
      if len \<noteq> 0
      then bind_result (consume len os) (\<lambda>(bs, os).
        Inr (if sign = [1] then - bigintFromBytes bs else bigintFromBytes bs, os))
      else Inr (0, os)))"

section \<open>Vectors\<close>

definition store_vector :: "('a \<Rightarrow> octetStream \<Rightarrow> octetStream result) \<Rightarrow> 'a list \<Rightarrow> octetStream \<Rightarrow> octetStream result" where
  "store_vector store v os =
    bind_result (store_int (word_of_nat (length v)) 8 os) (\<lambda>os. fold_result (\<lambda>os x. store x os) os v)"

fun get_items :: "(octetStream \<Rightarrow> ('a \<times> octetStream) result) \<Rightarrow> nat \<Rightarrow> octetStream \<Rightarrow> ('a list \<times> octetStream) result" where
  "get_items get 0 os = Inr ([], os)"
| "get_items get (Suc n) os =
    bind_result (get os) (\<lambda>(x, os). bind_result (get_items get n os) (\<lambda>(xs, os). Inr (x # xs, os)))"

definition get_vector :: "(octetStream \<Rightarrow> ('a \<times> octetStream) result) \<Rightarrow> octetStream \<Rightarrow> ('a list \<times> octetStream) result" where
  "get_vector get os = bind_result (os_get_int 8 os) (\<lambda>(size, os). get_items get (unat size) os)"

section \<open>Length fields are read as they were written\<close>

lemma length_le_bytes [simp]: "length (le_bytes n x) = n"
  by (simp add: le_bytes_def)

lemma le_bytes_Suc: "le_bytes (Suc n) x = ucast x # le_bytes n (drop_bit 8 x)"
  by (simp add: le_bytes_def upt_conv_Cons map_Suc_upt [symmetric] comp_def add.commute del: upt_Suc)

lemma le_value_bytes: "le_value (le_bytes n x) = take_bit (8 * n) x"
proof (induction n arbitrary: x)
  case (Suc n)
  have "(ucast (ucast x :: u8) :: u64) OR push_bit 8 (take_bit (8 * n) (drop_bit 8 x)) = take_bit (8 * Suc n) x"
    by (rule bit_word_eqI) (auto simp: bit_simps)
  then show ?case using Suc by (simp add: le_value_def le_bytes_Suc)
qed (simp add: le_value_def le_bytes_def)

lemma encode_small:
  assumes "0 < n" "n \<le> 8" "unat l < 2 ^ (8 * n)"
  shows "encode_length l n = Inr (le_bytes n l)" "take_bit (8 * n) l = l"
proof -
  show l: "take_bit (8 * n) l = l"
    using assms(3) by (simp add: word_unat_eq_iff unsigned_take_bit_eq take_bit_nat_eq_self)
  have "signed_drop_bit (8 * n) l = 0" if "n < 8"
  proof (rule bit_word_eqI)
    fix k assume k: "k < LENGTH(64)"
    have "\<not> bit l j" if "8 * n \<le> j" for j
      using l that by (metis bit_take_bit_iff leD)
    then show "bit (signed_drop_bit (8 * n) l) k = bit 0 k"
      using \<open>n < 8\<close> k by (auto simp: bit_signed_drop_bit_iff min_def)
  qed
  then show "encode_length l n = Inr (le_bytes n l)"
    using assms(1,2) by (auto simp: encode_length_def Let_def)
qed

section \<open>Writer and reader in step\<close>

definition writable :: "octetStream \<Rightarrow> bool" where
  "writable w \<longleftrightarrow> length (os_data w) \<le> os_mxlen w \<and> bits_n (os_wbits w) \<le> 8 \<and>
    (\<forall>i \<ge> bits_n (os_wbits w). \<not> bit (bits_buffer (os_wbits w)) i)"

text \<open>The bytes of the writer, with a pending byte.\<close>

definition flushed :: "octetStream \<Rightarrow> u8 list" where
  "flushed w = os_data w @ (if bits_n (os_wbits w) = 0 then [] else [bits_buffer (os_wbits w)])"

text \<open>Content \<open>F\<close> that the writer may still produce.\<close>

definition grows_to :: "octetStream \<Rightarrow> u8 list \<Rightarrow> bool" where
  "grows_to w F \<longleftrightarrow> prefix (os_data w) F \<and>
    (bits_n (os_wbits w) \<noteq> 0 \<longrightarrow> length (os_data w) < length F \<and>
      (\<forall>i < bits_n (os_wbits w). bit (F ! length (os_data w)) i = bit (bits_buffer (os_wbits w)) i))"

text \<open>The reader stands where the writer stood.\<close>

definition sync :: "octetStream \<Rightarrow> octetStream \<Rightarrow> bool" where
  "sync w r \<longleftrightarrow> length (os_data r) < 2 ^ 63 \<and> os_ptr r = length (flushed w) \<and>
    (if bits_n (os_wbits w) = 0 then bits_n (os_rbits r) = 0
     else bits_n (os_rbits r) = 8 - bits_n (os_wbits w) \<and>
       bits_buffer (os_rbits r) = os_data r ! length (os_data w))"

definition ahead :: "octetStream \<Rightarrow> octetStream \<Rightarrow> bool" where
  "ahead w w' \<longleftrightarrow> (\<forall>F. grows_to w' F \<longrightarrow> grows_to w F)"

definition delivers ::
  "octetStream \<Rightarrow> octetStream \<Rightarrow> (octetStream \<Rightarrow> ('a \<times> octetStream) result) \<Rightarrow> 'a \<Rightarrow> bool" where
  "delivers w w' get x \<longleftrightarrow> (\<forall>r. grows_to w' (os_data r) \<longrightarrow> sync w r \<longrightarrow>
    (\<exists>r'. get r = Inr (x, r') \<and> os_data r' = os_data r \<and> sync w' r'))"

lemma ahead_trans: "ahead w w1 \<Longrightarrow> ahead w1 w2 \<Longrightarrow> ahead w w2"
  by (simp add: ahead_def)

lemma ahead_refl [simp]: "ahead w w"
  by (simp add: ahead_def)

lemma delivers_return [simp]: "delivers w w (\<lambda>r. Inr (x, r)) x"
  by (simp add: delivers_def)

lemma delivers_bind:
  assumes "delivers w w1 g x" "ahead w1 w2" "delivers w1 w2 (h x) y"
  shows "delivers w w2 (\<lambda>r. bind_result (g r) (\<lambda>(x, r). h x r)) y"
  unfolding delivers_def
proof (intro allI impI)
  fix r assume r: "grows_to w2 (os_data r)" "sync w r"
  then obtain r1 where r1: "g r = Inr (x, r1)" "os_data r1 = os_data r" "sync w1 r1"
    using assms(1,2) by (auto simp: delivers_def ahead_def)
  then obtain r2 where "h x r1 = Inr (y, r2)" "os_data r2 = os_data r1" "sync w2 r2"
    using assms(3) r(1) unfolding delivers_def by metis
  with r1 show "\<exists>r'. bind_result (g r) (\<lambda>(x, r). h x r) = Inr (y, r') \<and> os_data r' = os_data r \<and> sync w2 r'"
    by auto
qed

lemma append_raw_ok:
  assumes "length (os_data w) \<le> os_mxlen w"
  shows "\<exists>m. append_raw x w = Inr (w\<lparr>os_data := os_data w @ x, os_mxlen := m\<rparr>) \<and> length (os_data w) + length x \<le> m"
proof (cases "os_mxlen w < length (os_data w) + length x")
  case True
  then show ?thesis using assms
    by (intro exI [of _ "2 * (length (os_data w) + length x)"])
      (simp add: append_raw_def os_resize_def resize_precise_def)
next
  case False
  then show ?thesis
    by (intro exI [of _ "os_mxlen w"]) (simp add: append_raw_def)
qed

lemma append_ok:
  assumes "writable w"
  shows "\<exists>m. append x w = Inr (w\<lparr>os_data := flushed w @ x, os_mxlen := m,
      os_wbits := if bits_n (os_wbits w) = 0 then os_wbits w else no_bits\<rparr>) \<and> length (flushed w @ x) \<le> m"
proof (cases "bits_n (os_wbits w) = 0")
  case True
  then show ?thesis
    using append_raw_ok [of w x] assms by (auto simp: append_def flushed_def writable_def)
next
  case False
  let ?w = "w\<lparr>os_wbits := (os_wbits w)\<lparr>bits_n := 0\<rparr>\<rparr>"
  obtain m where m: "append_raw [bits_buffer (os_wbits w)] ?w =
      Inr (?w\<lparr>os_data := os_data w @ [bits_buffer (os_wbits w)], os_mxlen := m\<rparr>)" "length (os_data w) + 1 \<le> m"
    using append_raw_ok [of ?w "[bits_buffer (os_wbits w)]"] assms by (auto simp: writable_def)
  let ?w1 = "?w\<lparr>os_data := os_data w @ [bits_buffer (os_wbits w)], os_mxlen := m, os_wbits := no_bits\<rparr>"
  obtain m' where "append_raw x ?w1 = Inr (?w1\<lparr>os_data := (os_data w @ [bits_buffer (os_wbits w)]) @ x, os_mxlen := m'\<rparr>)"
      "length (os_data w) + 1 + length x \<le> m'"
    using append_raw_ok [of ?w1 x] m(2) by auto
  then show ?thesis
    using False m(1) by (intro exI [of _ m']) (simp add: append_def flushed_def)
qed

lemma grows_to_flushed: "writable w \<Longrightarrow> prefix (flushed w) F \<Longrightarrow> grows_to w F"
  by (auto simp: grows_to_def flushed_def prefix_def nth_append split: if_splits)

lemma consume_ok:
  assumes "os_ptr r + n \<le> length (os_data r)" "length (os_data r) < 2 ^ 63"
  shows "consume (word_of_nat n) r = Inr (take n (drop (os_ptr r) (os_data r)),
    r\<lparr>os_rbits := (os_rbits r)\<lparr>bits_n := 0\<rparr>, os_ptr := os_ptr r + n\<rparr>)"
proof -
  have l: "unat (word_of_nat n :: u64) = n"
    using assms by (simp add: unat_u64_of_nat)
  have sum: "word_of_nat (os_ptr r) + word_of_nat n = (word_of_nat (os_ptr r + n) :: u64)" by simp
  have "\<not> word_of_nat (length (os_data r)) < (word_of_nat (os_ptr r) + word_of_nat n :: u64)"
    unfolding sum using assms by (simp add: word_less_nat_alt unat_u64_of_nat del: of_nat_add)
  then show ?thesis
    using l assms(1) by (simp add: consume_def Let_def)
qed

lemma append_consume:
  assumes "writable w" "length x < 2 ^ 63"
  shows "\<exists>w'. append x w = Inr w' \<and> writable w' \<and> ahead w w' \<and>
    delivers w w' (consume (word_of_nat (length x))) x"
proof -
  obtain m where m: "append x w = Inr (w\<lparr>os_data := flushed w @ x, os_mxlen := m,
      os_wbits := if bits_n (os_wbits w) = 0 then os_wbits w else no_bits\<rparr>)" "length (flushed w @ x) \<le> m"
    using append_ok [OF assms(1)] by blast
  define w' where "w' = w\<lparr>os_data := flushed w @ x, os_mxlen := m,
      os_wbits := if bits_n (os_wbits w) = 0 then os_wbits w else no_bits\<rparr>"
  have n: "bits_n (os_wbits w') = 0" "os_data w' = flushed w @ x" by (simp_all add: w'_def no_bits_def)
  have grows_to: "grows_to w' F \<longleftrightarrow> prefix (flushed w @ x) F" for F
    using n by (simp add: grows_to_def)
  have "writable w'"
    using assms(1) m(2) by (auto simp: writable_def w'_def no_bits_def)
  moreover have "ahead w w'"
    unfolding ahead_def grows_to using grows_to_flushed [OF assms(1)] append_prefixD by blast
  moreover have "delivers w w' (consume (word_of_nat (length x))) x"
    unfolding delivers_def grows_to
  proof (intro allI impI)
    fix r assume r: "prefix (flushed w @ x) (os_data r)" "sync w r"
    obtain rest where F: "os_data r = flushed w @ x @ rest" using r(1) by (auto simp: prefix_def)
    have len: "length (os_data r) < 2 ^ 63" "os_ptr r = length (flushed w)" using r(2) by (simp_all add: sync_def)
    then have "consume (word_of_nat (length x)) r =
        Inr (x, r\<lparr>os_rbits := (os_rbits r)\<lparr>bits_n := 0\<rparr>, os_ptr := os_ptr r + length x\<rparr>)"
      using F by (subst consume_ok) simp_all
    then show "\<exists>r'. consume (word_of_nat (length x)) r = Inr (x, r') \<and> os_data r' = os_data r \<and> sync w' r'"
      using len n by (auto simp: sync_def flushed_def)
  qed
  ultimately show ?thesis using m(1) by (auto simp: w'_def)
qed

text \<open>The bytes that follow an item can be read with a second read.\<close>

lemma store_int_get_int:
  assumes "writable w" "0 < n" "n \<le> 8" "unat l < 2 ^ (8 * n)"
  shows "\<exists>w'. store_int l n w = Inr w' \<and> writable w' \<and> ahead w w' \<and> delivers w w' (os_get_int n) l"
proof -
  obtain w' where w': "append (le_bytes n l) w = Inr w'" "writable w'" "ahead w w'"
    "delivers w w' (consume (word_of_nat n)) (le_bytes n l)"
    using append_consume [OF assms(1), of "le_bytes n l"] assms(3) by auto
  have "decode_length (le_bytes n l) n = Inr l"
    using assms encode_small(2) [OF assms(2-4)] by (simp add: decode_length_def le_value_bytes)
  then have "delivers w w' (os_get_int n) l"
    unfolding os_get_int_def by (intro delivers_bind [OF w'(4) ahead_refl]) simp
  then show ?thesis
    using w' encode_small(1) [OF assms(2-4)] by (auto simp: store_int_def)
qed

text \<open>Putting two writes and the two reads together.\<close>

lemma put_put:
  assumes "\<exists>w1. p1 w = Inr w1 \<and> writable w1 \<and> ahead w w1 \<and> delivers w w1 g1 x"
    and "\<And>w1. writable w1 \<Longrightarrow> \<exists>w2. p2 w1 = Inr w2 \<and> writable w2 \<and> ahead w1 w2 \<and> delivers w1 w2 (g2 x) y"
  shows "\<exists>w2. bind_result (p1 w) p2 = Inr w2 \<and> writable w2 \<and> ahead w w2 \<and>
    delivers w w2 (\<lambda>r. bind_result (g1 r) (\<lambda>(x, r). g2 x r)) y"
proof -
  obtain w1 where w1: "p1 w = Inr w1" "writable w1" "ahead w w1" "delivers w w1 g1 x"
    using assms(1) by blast
  obtain w2 where w2: "p2 w1 = Inr w2" "writable w2" "ahead w1 w2" "delivers w1 w2 (g2 x) y"
    using assms(2) [OF w1(2)] by blast
  show ?thesis
    using w1 w2 delivers_bind [where h = g2, OF w1(4) w2(3,4)] ahead_trans by auto
qed

lemma delivers_map: "delivers w w' g x \<Longrightarrow> delivers w w' (\<lambda>r. bind_result (g r) (\<lambda>(x, r). Inr (f x, r))) (f x)"
  by (rule delivers_bind [where h = "\<lambda>x r. Inr (f x, r)" and ?w1.0 = w' and x = x]) simp_all

text \<open>A buffer that was written from empty, without pending bits, is read from its front.\<close>

lemma fresh_delivers:
  assumes "delivers empty_stream w get x" "bits_n (os_wbits w) = 0" "bits_n (os_rbits w) = 0" "os_ptr w = 0"
    and "length (os_data w) < 2 ^ 63"
  shows "\<exists>r. get w = Inr (x, r)"
proof -
  have "grows_to w (os_data w)" using assms(2) by (simp add: grows_to_def)
  moreover have "sync empty_stream w" using assms(3-5) by (simp add: sync_def empty_stream_def flushed_def no_bits_def)
  ultimately show ?thesis using assms(1) unfolding delivers_def by blast
qed

lemma writable_empty: "writable empty_stream" "bits_n (os_wbits empty_stream) = 0"
  by (simp_all add: writable_def empty_stream_def no_bits_def)

section \<open>The interface of a type\<close>

locale codec =
  fixes put :: "'a \<Rightarrow> octetStream \<Rightarrow> octetStream result"
    and get :: "octetStream \<Rightarrow> ('a \<times> octetStream) result"
    and ok :: "'a \<Rightarrow> bool"
  assumes put_get: "\<And>x w. ok x \<Longrightarrow> writable w \<Longrightarrow>
    \<exists>w'. put x w = Inr w' \<and> writable w' \<and> ahead w w' \<and> delivers w w' get x"
begin

lemma items:
  assumes "\<forall>x \<in> set xs. ok x" "writable w"
  shows "\<exists>w'. fold_result (\<lambda>w x. put x w) w xs = Inr w' \<and> writable w' \<and> ahead w w' \<and>
    delivers w w' (get_items get (length xs)) xs"
  using assms
proof (induction xs arbitrary: w)
  case (Cons x xs)
  have "\<exists>w2. bind_result (put x w) (\<lambda>w. fold_result (\<lambda>w x. put x w) w xs) = Inr w2 \<and> writable w2 \<and> ahead w w2 \<and>
      delivers w w2 (\<lambda>r. bind_result (get r) (\<lambda>(x, r).
        bind_result (get_items get (length xs) r) (\<lambda>(xs, r). Inr (x # xs, r)))) (x # xs)"
  proof (rule put_put)
    show "\<exists>w1. put x w = Inr w1 \<and> writable w1 \<and> ahead w w1 \<and> delivers w w1 get x"
      using put_get Cons.prems by simp
    show "\<exists>w2. fold_result (\<lambda>w x. put x w) w1 xs = Inr w2 \<and> writable w2 \<and> ahead w1 w2 \<and>
        delivers w1 w2 (\<lambda>r. bind_result (get_items get (length xs) r) (\<lambda>(xs, r). Inr (x # xs, r))) (x # xs)"
      if "writable w1" for w1
      using Cons.IH [OF _ that] Cons.prems(1) delivers_map [of w1 _ "get_items get (length xs)" xs "(#) x"] by auto
  qed
  then show ?case by simp
qed (simp add: delivers_def)

text \<open>A vector of the type is a type.\<close>

lemma vector:
  assumes "length xs < 2 ^ 63 \<and> (\<forall>x \<in> set xs. ok x)" "writable w"
  shows "\<exists>w'. store_vector put xs w = Inr w' \<and> writable w' \<and> ahead w w' \<and> delivers w w' (get_vector get) xs"
  unfolding store_vector_def get_vector_def
proof (rule put_put)
  show "\<exists>w1. store_int (word_of_nat (length xs)) 8 w = Inr w1 \<and> writable w1 \<and> ahead w w1 \<and>
      delivers w w1 (os_get_int 8) (word_of_nat (length xs))"
    by (rule store_int_get_int) (use assms in \<open>simp_all add: unat_u64_of_nat\<close>)
  show "\<exists>w2. fold_result (\<lambda>w x. put x w) w1 xs = Inr w2 \<and> writable w2 \<and> ahead w1 w2 \<and>
      delivers w1 w2 (get_items get (unat (word_of_nat (length xs) :: u64))) xs" if "writable w1" for w1
    using items [OF _ that] assms(1) by (simp add: unat_u64_of_nat)
qed

end

section \<open>The types of the buffer\<close>

interpretation os_word: codec "\<lambda>x. store_int x 8" "os_get_int 8" "\<lambda>_. True"
proof
  fix x and w
  assume "writable w"
  then show "\<exists>w'. store_int x 8 w = Inr w' \<and> writable w' \<and> ahead w w' \<and> delivers w w' (os_get_int 8) x"
    by (rule store_int_get_int) (use unsigned_less [of x] in simp_all)
qed

interpretation os_bytes: codec store_bytes get_bytes "\<lambda>x. length x < 2 ^ 32"
proof
  fix x :: "u8 list" and w
  assume x: "length x < 2 ^ 32" and w: "writable w"
  show "\<exists>w'. store_bytes x w = Inr w' \<and> writable w' \<and> ahead w w' \<and> delivers w w' get_bytes x"
    unfolding store_bytes_def get_bytes_def
    by (rule put_put [where x = "word_of_nat (length x)"])
      (use x w in \<open>auto intro!: store_int_get_int append_consume simp: unat_u64_of_nat\<close>)
qed

interpretation os_string: codec store_string get_string "\<lambda>x. length x < 2 ^ 63"
proof
  fix x :: "u8 list" and w
  assume x: "length x < 2 ^ 63" and w: "writable w"
  show "\<exists>w'. store_string x w = Inr w' \<and> writable w' \<and> ahead w w' \<and> delivers w w' get_string x"
    unfolding store_string_def get_string_def
    by (rule put_put [where x = "word_of_nat (length x)"])
      (use x w in \<open>auto intro!: store_int_get_int append_consume simp: unat_u64_of_nat\<close>)
qed

text \<open>Bits: the writer fills a byte from its low end, the reader takes a byte when it has none.\<close>

lemma store_bit_get_bit:
  assumes "writable w" "bits_n (os_wbits w) < 8"
  shows "\<exists>w'. store_bit a w = Inr w' \<and> writable w' \<and> ahead w w' \<and> delivers w w' get_bit a"
proof -
  define n where "n = bits_n (os_wbits w)"
  define buf where "buf = bits_buffer (os_wbits w) OR push_bit n (of_bool a)"
  define w' where "w' = w\<lparr>os_wbits := \<lparr>bits_n = n + 1, bits_buffer = buf\<rparr>\<rparr>"
  have n: "n < 8" "\<And>i. n \<le> i \<Longrightarrow> \<not> bit (bits_buffer (os_wbits w)) i"
    using assms by (simp_all add: writable_def n_def)
  have buf: "bit buf i = (if i = n then a else bit (bits_buffer (os_wbits w)) i)" if "i < 8" for i
    using n that by (auto simp: buf_def bit_simps)
  have store: "store_bit a w = Inr w'"
    using n(1) by (simp add: store_bit_def w'_def n_def buf_def Let_def)
  have "writable w'"
    using assms n(1) by (auto simp: writable_def w'_def buf_def n_def bit_simps)
  moreover have "ahead w w'"
    unfolding ahead_def
  proof (intro allI impI)
    fix F assume "grows_to w' F"
    then show "grows_to w F"
      using n(1) buf by (auto simp: grows_to_def w'_def n_def)
  qed
  moreover have "delivers w w' get_bit a"
    unfolding delivers_def
  proof (intro allI impI)
    fix r assume r: "grows_to w' (os_data r)" "sync w r"
    let ?b = "os_data r ! length (os_data w)"
    have b: "length (os_data w) < length (os_data r)" "bit ?b n = a"
      using r(1) n(1) buf [of n] by (auto simp: grows_to_def w'_def)
    show "\<exists>r'. get_bit r = Inr (a, r') \<and> os_data r' = os_data r \<and> sync w' r'"
    proof (cases "n = 0")
      case True
      then have s: "os_ptr r = length (os_data w)" "bits_n (os_rbits r) = 0" "length (os_data r) < 2 ^ 63"
        using r(2) by (simp_all add: sync_def flushed_def n_def)
      have "take 1 (drop (os_ptr r) (os_data r)) = [?b]"
        using b(1) s(1) by (simp add: take_Suc_conv_app_nth [of 0, simplified] hd_drop_conv_nth take_Suc)
      then have "consume 1 r = Inr ([?b], r\<lparr>os_rbits := (os_rbits r)\<lparr>bits_n := 0\<rparr>, os_ptr := os_ptr r + 1\<rparr>)"
        using consume_ok [of r 1] b(1) s by simp
      moreover have "le_value [?b] = ucast ?b" by (simp add: le_value_def)
      moreover have "ucast (ucast ?b :: u64) = ?b" by (rule bit_word_eqI) (simp add: bit_simps)
      ultimately show ?thesis
        using s b True by (auto simp: get_bit_def os_get_int_def decode_length_def Let_def sync_def flushed_def w'_def)
    next
      case False
      then have s: "os_ptr r = length (os_data w) + 1" "bits_n (os_rbits r) = 8 - n" "bits_buffer (os_rbits r) = ?b"
        "length (os_data r) < 2 ^ 63"
        using r(2) by (simp_all add: sync_def flushed_def n_def)
      then show ?thesis
        using b n(1) by (auto simp: get_bit_def Let_def sync_def flushed_def w'_def)
    qed
  qed
  ultimately show ?thesis using store by blast
qed

interpretation os_bit: codec store_bit get_bit "\<lambda>_. True"
proof
  fix a and w
  assume w: "writable w"
  show "\<exists>w'. store_bit a w = Inr w' \<and> writable w' \<and> ahead w w' \<and> delivers w w' get_bit a"
  proof (cases "bits_n (os_wbits w) = 8")
    case True
    obtain m where m: "append [] w = Inr (w\<lparr>os_data := flushed w, os_mxlen := m, os_wbits := no_bits\<rparr>)"
        "length (flushed w) \<le> m"
      using append_ok [OF w, of "[]"] True by auto
    define w1 where "w1 = w\<lparr>os_data := flushed w, os_mxlen := m, os_wbits := no_bits\<rparr>"
    have w1: "writable w1" "bits_n (os_wbits w1) = 0"
      using m(2) by (simp_all add: w1_def writable_def no_bits_def)
    have "ahead w w1"
      using grows_to_flushed [OF w] by (auto simp: ahead_def grows_to_def w1_def)
    moreover have "sync w r \<Longrightarrow> sync w1 r" for r
      using True by (auto simp: sync_def flushed_def w1_def no_bits_def)
    moreover obtain w' where "store_bit a w1 = Inr w'" "writable w'" "ahead w1 w'" "delivers w1 w' get_bit a"
      using store_bit_get_bit [OF w1(1)] w1(2) by auto
    moreover have "store_bit a w = store_bit a w1"
      using True m(1) by (simp add: store_bit_def w1_def no_bits_def)
    ultimately show ?thesis
      unfolding delivers_def ahead_def by metis
  next
    case False
    then show ?thesis using store_bit_get_bit [OF w] w by (simp add: writable_def)
  qed
qed

section \<open>Big integers\<close>

lemma bigintFromBytes_snoc: "bigintFromBytes (bs @ [b]) = 256 * bigintFromBytes bs + uint b"
  by (simp add: bigintFromBytes_def)

lemma bigintFromBytes_digits: "bigintFromBytes (digits256 n) = int n"
proof (induction n rule: digits256.induct)
  case (1 n)
  show ?case
  proof (cases "n = 0")
    case False
    have "uint (word_of_nat n :: u8) = int (n mod 256)"
      by (simp add: uint_nat unsigned_of_nat take_bit_eq_mod zmod_int)
    moreover have "256 * int (n div 256) + int (n mod 256) = int n"
      by (metis mult_div_mod_eq of_nat_add of_nat_mult of_nat_numeral)
    ultimately show ?thesis
      using 1 False by (simp add: digits256.simps [of n] bigintFromBytes_snoc)
  qed (simp add: digits256.simps [of 0] bigintFromBytes_def)
qed

lemma bytesFromBigint_ok:
  "\<exists>bs. bytesFromBigint x (numBytes x) = Inr bs \<and> length bs = numBytes x \<and> bigintFromBytes bs = \<bar>x\<bar>"
proof (cases "x = 0")
  case True
  then show ?thesis
    by (simp add: bytesFromBigint_def numBytes_def digits256.simps [of 0] bigintFromBytes_def)
next
  case False
  then have "digits256 (nat \<bar>x\<bar>) \<noteq> []" by (subst digits256.simps) simp
  then have "numBytes x = length (digits256 (nat \<bar>x\<bar>))"
    by (cases "digits256 (nat \<bar>x\<bar>)") (simp_all add: numBytes_def)
  then show ?thesis
    using False by (simp add: bytesFromBigint_def bigintFromBytes_digits)
qed

interpretation os_bigint: codec store_bigint get_bigint "\<lambda>x. numBytes x < 2 ^ 31"
proof
  fix x :: int and w
  assume x: "numBytes x < 2 ^ 31" and w: "writable w"
  obtain bs where bs: "bytesFromBigint x (numBytes x) = Inr bs" "length bs = numBytes x" "bigintFromBytes bs = \<bar>x\<bar>"
    using bytesFromBigint_ok by blast
  define len where "len = (word_of_nat (numBytes x) :: u64)"
  define sign where "sign = (if x < 0 then [1] else [0 :: u8])"
  have len: "unat len = numBytes x" "len \<noteq> 0" "len = word_of_nat (length bs)"
    using x bs(2) by (simp_all add: len_def unat_u64_of_nat word_unat_eq_iff numBytes_def)
  have sign: "sign = [of_bool (x < 0)]" "sign = [0] \<or> sign = [1]" by (auto simp: sign_def)
  define g2 where "g2 = (\<lambda>os. bind_result (os_get_int 4 os) (\<lambda>(len, os).
      if len \<noteq> 0 then bind_result (consume len os) (\<lambda>(bs, os).
        Inr (if sign = [1] then - bigintFromBytes bs else bigintFromBytes bs, os)) else Inr (0, os)))"
  have g2: "\<exists>w2. bind_result (store_int len 4 w1) (append bs) = Inr w2 \<and> writable w2 \<and> ahead w1 w2 \<and>
      delivers w1 w2 g2 x" if "writable w1" for w1
    unfolding g2_def
  proof (rule put_put [where x = len])
    show "\<exists>w2. store_int len 4 w1 = Inr w2 \<and> writable w2 \<and> ahead w1 w2 \<and> delivers w1 w2 (os_get_int 4) len"
      by (rule store_int_get_int) (use that len x in simp_all)
    show "\<exists>w2. append bs v = Inr w2 \<and> writable w2 \<and> ahead v w2 \<and>
        delivers v w2 (\<lambda>os. if len \<noteq> 0 then bind_result (consume len os) (\<lambda>(bs, os).
          Inr (if sign = [1] then - bigintFromBytes bs else bigintFromBytes bs, os)) else Inr (0, os)) x"
      if v: "writable v" for v
    proof -
      obtain w2 where w2: "append bs v = Inr w2" "writable w2" "ahead v w2" "delivers v w2 (consume len) bs"
        using append_consume [OF v, of bs] x bs(2) len(3) by auto
      have "(if sign = [1] then - bigintFromBytes bs else bigintFromBytes bs) = x"
        using bs(3) by (auto simp: sign_def)
      then show ?thesis
        using w2 len(2) delivers_map [OF w2(4), of "\<lambda>bs. if sign = [1] then - bigintFromBytes bs else bigintFromBytes bs"]
        by auto
    qed
  qed
  have put: "store_bigint x w = bind_result (append sign w) (\<lambda>w1. bind_result (store_int len 4 w1) (append bs))"
    by (simp add: store_bigint_def Let_def sign(1) len_def bs(1))
  have get: "get_bigint = (\<lambda>os. bind_result (consume 1 os) (\<lambda>(s, os). (\<lambda>s os. if s \<noteq> [0] \<and> s \<noteq> [1]
      then Inl (runtime_error ''bad value'')
      else bind_result (os_get_int 4 os) (\<lambda>(len, os). if len \<noteq> 0 then bind_result (consume len os) (\<lambda>(bs, os).
        Inr (if s = [1] then - bigintFromBytes bs else bigintFromBytes bs, os)) else Inr (0, os))) s os))"
    by (rule ext) (simp add: get_bigint_def)
  show "\<exists>w'. store_bigint x w = Inr w' \<and> writable w' \<and> ahead w w' \<and> delivers w w' get_bigint x"
    unfolding put get
  proof (rule put_put [where x = sign])
    show "\<exists>w1. append sign w = Inr w1 \<and> writable w1 \<and> ahead w w1 \<and> delivers w w1 (consume 1) sign"
      using append_consume [OF w, of sign] by (auto simp: sign_def split: if_splits)
    show "\<exists>w2. bind_result (store_int len 4 w1) (append bs) = Inr w2 \<and> writable w2 \<and> ahead w1 w2 \<and>
      delivers w1 w2 (\<lambda>os. if sign \<noteq> [0] \<and> sign \<noteq> [1] then Inl (runtime_error ''bad value'')
        else bind_result (os_get_int 4 os) (\<lambda>(len, os). if len \<noteq> 0 then bind_result (consume len os) (\<lambda>(bs, os).
          Inr (if sign = [1] then - bigintFromBytes bs else bigintFromBytes bs, os)) else Inr (0, os))) x"
      if "writable w1" for w1
      using g2 [OF that] sign(2) unfolding g2_def by auto
  qed
qed

section \<open>Sequences of typed items\<close>

datatype item = Word_item u64 | Bytes_item "u8 list" | String_item "u8 list" | Bit_item bool | Bigint_item int
  | Words_item "u64 list"

datatype item_type = Word_type | Bytes_type | String_type | Bit_type | Bigint_type | Words_type

fun type_of_item :: "item \<Rightarrow> item_type" where
  "type_of_item (Word_item x) = Word_type"
| "type_of_item (Bytes_item x) = Bytes_type"
| "type_of_item (String_item x) = String_type"
| "type_of_item (Bit_item x) = Bit_type"
| "type_of_item (Bigint_item x) = Bigint_type"
| "type_of_item (Words_item x) = Words_type"

fun put_item :: "item \<Rightarrow> octetStream \<Rightarrow> octetStream result" where
  "put_item (Word_item x) = store_int x 8"
| "put_item (Bytes_item x) = store_bytes x"
| "put_item (String_item x) = store_string x"
| "put_item (Bit_item x) = store_bit x"
| "put_item (Bigint_item x) = store_bigint x"
| "put_item (Words_item x) = store_vector (\<lambda>x. store_int x 8) x"

definition tag_item :: "('a \<Rightarrow> item) \<Rightarrow> (octetStream \<Rightarrow> ('a \<times> octetStream) result) \<Rightarrow> octetStream \<Rightarrow> (item \<times> octetStream) result" where
  "tag_item f get os = bind_result (get os) (\<lambda>(x, os). Inr (f x, os))"

fun get_item :: "item_type \<Rightarrow> octetStream \<Rightarrow> (item \<times> octetStream) result" where
  "get_item Word_type = tag_item Word_item (os_get_int 8)"
| "get_item Bytes_type = tag_item Bytes_item get_bytes"
| "get_item String_type = tag_item String_item get_string"
| "get_item Bit_type = tag_item Bit_item get_bit"
| "get_item Bigint_type = tag_item Bigint_item get_bigint"
| "get_item Words_type = tag_item Words_item (get_vector (os_get_int 8))"

fun item_ok :: "item \<Rightarrow> bool" where
  "item_ok (Bytes_item x) = (length x < 2 ^ 32)"
| "item_ok (String_item x) = (length x < 2 ^ 63)"
| "item_ok (Bigint_item x) = (numBytes x < 2 ^ 31)"
| "item_ok (Words_item x) = (length x < 2 ^ 63)"
| "item_ok _ = True"

fun get_types :: "item_type list \<Rightarrow> octetStream \<Rightarrow> (item list \<times> octetStream) result" where
  "get_types [] os = Inr ([], os)"
| "get_types (t # ts) os =
    bind_result (get_item t os) (\<lambda>(x, os). bind_result (get_types ts os) (\<lambda>(xs, os). Inr (x # xs, os)))"

lemma delivers_tag: "delivers w w' get x \<Longrightarrow> delivers w w' (tag_item f get) (f x)"
  unfolding tag_item_def by (rule delivers_map)

lemma put_get_item:
  assumes "item_ok x" "writable w"
  shows "\<exists>w'. put_item x w = Inr w' \<and> writable w' \<and> ahead w w' \<and> delivers w w' (get_item (type_of_item x)) x"
proof (cases x)
  case (Word_item y)
  then show ?thesis using os_word.put_get [where x = y and w = w] assms delivers_tag by fastforce
next
  case (Bytes_item y)
  then show ?thesis using os_bytes.put_get [where x = y and w = w] assms delivers_tag by fastforce
next
  case (String_item y)
  then show ?thesis using os_string.put_get [where x = y and w = w] assms delivers_tag by fastforce
next
  case (Bit_item y)
  then show ?thesis using os_bit.put_get [where x = y and w = w] assms delivers_tag by fastforce
next
  case (Bigint_item y)
  then show ?thesis using os_bigint.put_get [where x = y and w = w] assms delivers_tag by fastforce
next
  case (Words_item y)
  then show ?thesis using os_word.vector [where xs = y and w = w] assms delivers_tag by fastforce
qed

lemma put_get_items:
  assumes "\<forall>x \<in> set xs. item_ok x" "writable w"
  shows "\<exists>w'. fold_result (\<lambda>w x. put_item x w) w xs = Inr w' \<and> writable w' \<and> ahead w w' \<and>
    delivers w w' (get_types (map type_of_item xs)) xs"
  using assms
proof (induction xs arbitrary: w)
  case (Cons x xs)
  have "\<exists>w2. bind_result (put_item x w) (\<lambda>w. fold_result (\<lambda>w x. put_item x w) w xs) = Inr w2 \<and> writable w2 \<and>
      ahead w w2 \<and> delivers w w2 (\<lambda>r. bind_result (get_item (type_of_item x) r) (\<lambda>(x, r).
        bind_result (get_types (map type_of_item xs) r) (\<lambda>(xs, r). Inr (x # xs, r)))) (x # xs)"
  proof (rule put_put)
    show "\<exists>w1. put_item x w = Inr w1 \<and> writable w1 \<and> ahead w w1 \<and> delivers w w1 (get_item (type_of_item x)) x"
      using put_get_item Cons.prems by simp
    show "\<exists>w2. fold_result (\<lambda>w x. put_item x w) w1 xs = Inr w2 \<and> writable w2 \<and> ahead w1 w2 \<and>
        delivers w1 w2 (\<lambda>r. bind_result (get_types (map type_of_item xs) r) (\<lambda>(xs, r). Inr (x # xs, r))) (x # xs)"
      if "writable w1" for w1
      using Cons.IH [OF _ that] Cons.prems(1) delivers_map [of w1 _ "get_types (map type_of_item xs)" xs "(#) x"] by auto
  qed
  then show ?case by simp
qed (simp add: delivers_def)

text \<open>
  C30.  What is written is read.  Any sequence of words, byte strings, strings, bits, big integers and
  vectors, written to a fresh buffer and flushed, is read back by the same sequence of types, bits
  across byte boundaries and mixed with the other types included, as long as the content is shorter
  than \<^verbatim>\<open>2 ^ 63\<close> bytes.
\<close>

theorem octet_items_roundtrip:
  assumes "\<forall>x \<in> set xs. item_ok x"
  shows "\<exists>w w'. fold_result (\<lambda>w x. put_item x w) empty_stream xs = Inr w \<and> append [] w = Inr w' \<and>
    (length (os_data w') < 2 ^ 63 \<longrightarrow>
      (\<exists>r. get_types (map type_of_item xs) (reset_read_head w') = Inr (xs, r)))"
proof -
  have "writable empty_stream" by (simp add: writable_def empty_stream_def no_bits_def)
  from put_get_items [OF assms this] obtain w where w: "fold_result (\<lambda>w x. put_item x w) empty_stream xs = Inr w"
      "writable w" "delivers empty_stream w (get_types (map type_of_item xs)) xs"
    by blast
  obtain m where m: "append [] w = Inr (w\<lparr>os_data := flushed w, os_mxlen := m,
      os_wbits := if bits_n (os_wbits w) = 0 then os_wbits w else no_bits\<rparr>)" (is "_ = Inr ?w'")
    using append_ok [OF w(2), of "[]"] by auto
  have "grows_to w (os_data (reset_read_head ?w'))"
    using grows_to_flushed [OF w(2)] by (simp add: reset_read_head_def)
  moreover have "length (os_data ?w') < 2 ^ 63 \<Longrightarrow> sync empty_stream (reset_read_head ?w')"
    by (simp add: sync_def empty_stream_def flushed_def no_bits_def reset_read_head_def)
  ultimately show ?thesis
    using w(1,3) m unfolding delivers_def by blast
qed

lemma octet_items_roundtrip_witness:
  "\<exists>w w'. fold_result (\<lambda>w x. put_item x w) empty_stream
      [Bit_item True, Bit_item False, Word_item 7, Bigint_item (- 3), Bytes_item [1, 2]] = Inr w \<and> append [] w = Inr w'"
proof -
  have "digits256 3 = [3]" by (simp add: digits256.simps)
  then have "numBytes (- 3) = 1" by (simp add: numBytes_def)
  then show ?thesis
    using octet_items_roundtrip [of "[Bit_item True, Bit_item False, Word_item 7, Bigint_item (- 3), Bytes_item [1, 2]]"]
    by auto
qed

text \<open>
  A buffer that is reused writes a wrong bit.  \<^verbatim>\<open>reset_write_head\<close> drops the count of the pending bits
  but not the bits: the next bit is added to what is left in the byte, so that after a pending 1 a 0
  is written, and read, as 1.
\<close>

theorem reset_write_head_stale_bit:
  "\<exists>os r. bind_result (store_bit True empty_stream) (\<lambda>os. bind_result (store_bit False (reset_write_head os)) (append [])) =
      Inr os \<and> get_bit (reset_read_head os) = Inr (True, r)"
  by (simp add: store_bit_def empty_stream_def no_bits_def reset_write_head_def reset_read_head_def append_def
      append_raw_def os_resize_def resize_precise_def Let_def get_bit_def os_get_int_def consume_def decode_length_def
      le_value_def)

text \<open>
  A length field can lead out of the buffer.  When the 8-byte length of a string is so large that
  adding it to the read position wraps in 64 bits, the check of \<^verbatim>\<open>consume\<close> passes and the bytes are
  read outside the content, instead of the exception for insufficient data.
\<close>

theorem get_string_wraps:
  assumes "os_ptr os + 8 \<le> length (os_data os)" "length (os_data os) < 2 ^ 63"
    and "le_value (take 8 (drop (os_ptr os) (os_data os))) = l"
    and "2 ^ 64 \<le> os_ptr os + 8 + unat l"
  shows "get_string os = Inl undefined_access"
proof -
  let ?p = "os_ptr os + 8"
  have p: "?p < 2 ^ 64" using assms(1,2) by simp
  have "unat l < 2 ^ 64" using unsigned_less [of l] by simp
  then have "unat (word_of_nat ?p + l :: u64) = ?p + unat l - 2 ^ 64"
    using assms(4) p by (simp add: unat_word_ariths unat_u64_of_nat mod_if del: of_nat_add)
  then have "\<not> word_of_nat (length (os_data os)) < (word_of_nat ?p + l :: u64)"
    using assms(1,2) \<open>unat l < 2 ^ 64\<close> by (simp add: word_less_nat_alt unat_u64_of_nat del: of_nat_add)
  moreover have "length (os_data os) < ?p + unat l" using assms(2,4) by simp
  moreover have "os_get_int 8 os = Inr (l, os\<lparr>os_rbits := (os_rbits os)\<lparr>bits_n := 0\<rparr>, os_ptr := ?p\<rparr>)"
    using consume_ok [of os 8] assms(1-3) by (simp add: os_get_int_def decode_length_def)
  ultimately show ?thesis
    by (simp add: get_string_def consume_def Let_def del: of_nat_add)
qed

lemma get_string_wraps_witness:
  "get_string (empty_stream\<lparr>os_data := [0xF8, 0xFF, 0xFF, 0xFF, 0xFF, 0xFF, 0xFF, 0xFF, 1, 2]\<rparr>) = Inl undefined_access"
  by (rule get_string_wraps [where l = "0xFFFFFFFFFFFFFFF8"]) (simp_all add: empty_stream_def le_value_def)

section \<open>On the wire and in files\<close>

text \<open>
  \<^verbatim>\<open>send\<close> and \<^verbatim>\<open>receive\<close> on a socket, which moves some bytes at each call.  \<open>js\<close> are the numbers of bytes
  that the calls of \<^verbatim>\<open>send\<close> accept, 0 when the socket would block; \<open>None\<close> is a loop still running when
  they are used up.
\<close>

fun socket_send :: "nat list \<Rightarrow> u8 list \<Rightarrow> u8 list \<Rightarrow> u8 list option" where
  "socket_send js msg wire =
    (if msg = [] then Some wire
     else case js of [] \<Rightarrow> None | j # js \<Rightarrow> socket_send js (drop j msg) (wire @ take j msg))"

declare socket_send.simps [simp del]

text \<open>A call of \<^verbatim>\<open>recv\<close>: bytes, an interruption, a failure, or the end of the connection.\<close>

datatype recv_result = Received "u8 list" | Unavailable | Broken | Closed

fun socket_receive :: "recv_result list \<Rightarrow> nat \<Rightarrow> nat \<Rightarrow> u8 list \<Rightarrow> u8 list result option" where
  "socket_receive rs len fails msg =
    (if len \<le> length msg then Some (Inr msg)
     else case rs of
       [] \<Rightarrow> None
     | Received bs # rs \<Rightarrow>
         if bs = [] then Some (Inl (runtime_error ''closed connection''))
         else socket_receive rs len 0 (msg @ bs)
     | Unavailable # rs \<Rightarrow>
         if 25 < fails + 1 then Some (Inl (runtime_error ''Unavailable too many times''))
         else socket_receive rs len (fails + 1) msg
     | Broken # rs \<Rightarrow> Some (Inl (runtime_error ''Receiving error - 1''))
     | Closed # rs \<Rightarrow> Some (Inl (runtime_error ''closed connection'')))"

declare socket_receive.simps [simp del]

definition LENGTH_SIZE :: nat where
  "LENGTH_SIZE = 4"

text \<open>A buffer on the wire: its length in \<^verbatim>\<open>LENGTH_SIZE\<close> bytes, its content; no bits may be pending.\<close>

definition os_Send :: "octetStream \<Rightarrow> u8 list result" where
  "os_Send os =
    bind_result (encode_length (word_of_nat (length (os_data os))) LENGTH_SIZE) (\<lambda>len.
    if bits_n (os_wbits os) \<noteq> 0 then Inl (exit_failure ''assertion failed'') else Inr (len @ os_data os))"

definition take_wire :: "nat \<Rightarrow> u8 list \<Rightarrow> (u8 list \<times> u8 list) result" where
  "take_wire n ch = (if length ch < n then Inl (runtime_error ''closed connection'') else Inr (take n ch, drop n ch))"

definition os_Receive :: "u8 list \<Rightarrow> octetStream \<Rightarrow> (octetStream \<times> u8 list) result" where
  "os_Receive ch os =
    bind_result (take_wire LENGTH_SIZE ch) (\<lambda>(b, ch).
    bind_result (decode_length b LENGTH_SIZE) (\<lambda>nlen.
    bind_result (resize_min (unat nlen) (os\<lparr>os_data := []\<rparr>)) (\<lambda>os.
    bind_result (take_wire (unat nlen) ch) (\<lambda>(b, ch).
    Inr (reset_read_head (os\<lparr>os_data := b\<rparr>), ch)))))"

text \<open>In a file the length has eight bytes, and reading does not move the read head.\<close>

definition os_output :: "octetStream \<Rightarrow> u8 list" where
  "os_output os = le_bytes 8 (word_of_nat (length (os_data os))) @ os_data os"

definition os_input :: "u8 list \<Rightarrow> octetStream \<Rightarrow> (octetStream \<times> u8 list) result" where
  "os_input s os =
    (if length s < 8 then Inl (runtime_error ''not enough data'')
     else let size = unat (le_value (take 8 s)); s = drop 8 s
       in bind_result (resize_min size os) (\<lambda>os.
          if length s < size then Inl (runtime_error ''not enough data'')
          else Inr (os\<lparr>os_data := take size s\<rparr>, drop size s)))"

lemma socket_send_all:
  assumes "length msg \<le> sum_list js"
  shows "socket_send js msg wire = Some (wire @ msg)"
  using assms
proof (induction js arbitrary: msg wire)
  case Nil
  then show ?case by (simp add: socket_send.simps)
next
  case (Cons j js)
  then show ?case
    using Cons.IH [of "drop j msg" "wire @ take j msg"] by (simp add: socket_send.simps [of "j # js"])
qed

lemma socket_receive_all:
  assumes "\<forall>bs \<in> set parts. bs \<noteq> []" "length msg + length (concat parts) = len"
  shows "socket_receive (map Received parts) len fails msg = Some (Inr (msg @ concat parts))"
  using assms
proof (induction parts arbitrary: msg fails)
  case Nil
  then show ?case by (simp add: socket_receive.simps)
next
  case (Cons p parts)
  then have "\<not> len \<le> length msg" by (cases p) auto
  then show ?case
    using Cons.IH [of "msg @ p" 0] Cons.prems by (simp add: socket_receive.simps [of "Received p # map Received parts"])
qed

lemma resize_min_ok: "os_data os = [] \<Longrightarrow> \<exists>m. resize_min n os = Inr (os\<lparr>os_mxlen := m\<rparr>) \<and> n \<le> m"
  by (rule exI [of _ "max n (os_mxlen os)"]) (auto simp: resize_min_def resize_precise_def max_def)



end
