(* ===== verification/Msg_Store.thy ===== *)
theory Msg_Store
  imports Octet_Stream
begin

text \<open>
  The buffers of received messages and the store that keeps them until they are used
  (\<^verbatim>\<open>Tools/FlexBuffer\<close>): one message in memory, the others in files, each with its length and its read
  position.  Seen from outside it is a queue.
\<close>

section \<open>Buffers\<close>

text \<open>
  The content of a buffer and the offset of \<^verbatim>\<open>ptr\<close> in it.  Sizes are natural numbers: they are sizes of
  gates and masks, whose sums with an offset stay far below \<open>2 ^ 64\<close>.
\<close>

record FlexBuffer =
  fb_data :: "u8 list"
  fb_ptr :: nat

definition empty_buffer :: FlexBuffer where
  "empty_buffer = \<lparr>fb_data = [], fb_ptr = 0\<rparr>"

definition check_buffer :: "nat \<Rightarrow> FlexBuffer \<Rightarrow> unit result" where
  "check_buffer l b =
    (if length (fb_data b) < fb_ptr b + l then Inl (runtime_error ''not enough data in buffer'') else Inr ())"

definition fb_consume :: "nat \<Rightarrow> FlexBuffer \<Rightarrow> (u8 list \<times> FlexBuffer) result" where
  "fb_consume l b =
    bind_result (check_buffer l b) (\<lambda>_.
    Inr (take l (drop (fb_ptr b) (fb_data b)), b\<lparr>fb_ptr := fb_ptr b + l\<rparr>))"

definition fb_pop_front :: "FlexBuffer \<Rightarrow> (u8 \<times> FlexBuffer) result" where
  "fb_pop_front b =
    bind_result (check_buffer 1 b) (\<lambda>_. Inr (fb_data b ! fb_ptr b, b\<lparr>fb_ptr := fb_ptr b + 1\<rparr>))"

definition fb_left :: "FlexBuffer \<Rightarrow> nat" where
  "fb_left b = length (fb_data b) - fb_ptr b"

definition fb_serialize :: "u8 list \<Rightarrow> FlexBuffer \<Rightarrow> FlexBuffer" where
  "fb_serialize source b = b\<lparr>fb_data := fb_data b @ source\<rparr>"

definition fb_clear :: "FlexBuffer \<Rightarrow> FlexBuffer" where
  "fb_clear b = b\<lparr>fb_data := []\<rparr>"

definition of_octetStream :: "octetStream \<Rightarrow> FlexBuffer \<times> octetStream" where
  "of_octetStream os =
    (\<lparr>fb_data = os_data os, fb_ptr = os_ptr os\<rparr>, os\<lparr>os_data := [], os_mxlen := 0, os_ptr := 0\<rparr>)"

section \<open>The store\<close>

text \<open>\<open>mem\<close> is the array of \<open>N = 1\<close> messages, a circular buffer; a file is its bytes.\<close>

definition store_N :: nat where
  "store_N = 1"

record ReceivedMsgStore =
  store_mem :: "FlexBuffer list"
  store_start :: nat
  store_size :: nat
  store_files :: "u8 list list"

definition empty_store :: ReceivedMsgStore where
  "empty_store = \<lparr>store_mem = replicate store_N empty_buffer, store_start = 0, store_size = 0, store_files = []\<rparr>"

definition file_of_msg :: "FlexBuffer \<Rightarrow> u8 list" where
  "file_of_msg msg = le_bytes 8 (word_of_nat (length (fb_data msg))) @ le_bytes 8 (word_of_nat (fb_ptr msg)) @ fb_data msg"

text \<open>A message moves into memory and leaves an empty buffer behind; one written to a file stays.\<close>

definition store_push :: "FlexBuffer \<Rightarrow> ReceivedMsgStore \<Rightarrow> (FlexBuffer \<times> ReceivedMsgStore) result" where
  "store_push msg q =
    (if store_size q \<noteq> store_N \<and> store_files q = []
     then bind_result (vec_write (store_mem q) ((store_start q + store_size q) mod store_N) msg) (\<lambda>mem.
       Inr (empty_buffer, q\<lparr>store_mem := mem, store_size := store_size q + 1\<rparr>))
     else Inr (msg, q\<lparr>store_files := store_files q @ [file_of_msg msg]\<rparr>))"

definition msg_of_file :: "u8 list \<Rightarrow> FlexBuffer result" where
  "msg_of_file f =
    (if length f < 16 then Inl (runtime_error ''can't read length'')
     else let len = unat (le_value (take 8 f)); ptr = unat (le_value (take 8 (drop 8 f)))
       in if length f < 16 + len then Inl (runtime_error ''can't read data'')
          else Inr \<lparr>fb_data = take len (drop 16 f), fb_ptr = ptr\<rparr>)"

definition store_pop :: "FlexBuffer \<Rightarrow> ReceivedMsgStore \<Rightarrow> (bool \<times> FlexBuffer \<times> ReceivedMsgStore) result" where
  "store_pop msg q =
    (if store_size q \<noteq> 0
     then bind_result (vec_read (store_mem q) (store_start q)) (\<lambda>m.
       Inr (True, m, q\<lparr>store_mem := (store_mem q)[store_start q := empty_buffer],
         store_start := (store_start q + 1) mod store_N, store_size := store_size q - 1\<rparr>))
     else case store_files q of
       [] \<Rightarrow> Inr (False, msg, q)
     | f # fs \<Rightarrow> bind_result (msg_of_file f) (\<lambda>m. Inr (True, m, q\<lparr>store_files := fs\<rparr>)))"

section \<open>The store is a queue\<close>

text \<open>The interface: what is pushed comes out in the same order, and a pop of an empty queue changes nothing.\<close>

locale fifo =
  fixes push :: "'m \<Rightarrow> 'q \<Rightarrow> ('m \<times> 'q) result"
    and pop :: "'m \<Rightarrow> 'q \<Rightarrow> (bool \<times> 'm \<times> 'q) result"
    and contents :: "'q \<Rightarrow> 'm list"
    and inv :: "'q \<Rightarrow> bool"
    and ok :: "'m \<Rightarrow> bool"
  assumes push_law: "inv q \<Longrightarrow> ok m \<Longrightarrow> \<exists>m' q'. push m q = Inr (m', q') \<and> inv q' \<and> contents q' = contents q @ [m]"
    and pop_law: "inv q \<Longrightarrow> contents q = m # ms \<Longrightarrow>
      \<exists>q'. pop m0 q = Inr (True, m, q') \<and> inv q' \<and> contents q' = ms"
    and pop_empty: "inv q \<Longrightarrow> contents q = [] \<Longrightarrow> pop m0 q = Inr (False, m0, q)"
begin

fun push_all :: "'m list \<Rightarrow> 'q \<Rightarrow> 'q result" where
  "push_all [] q = Inr q"
| "push_all (m # ms) q = bind_result (push m q) (\<lambda>(m', q). push_all ms q)"

fun pop_all :: "nat \<Rightarrow> 'm \<Rightarrow> 'q \<Rightarrow> ('m list \<times> 'q) result" where
  "pop_all 0 m q = Inr ([], q)"
| "pop_all (Suc n) m q =
    bind_result (pop m q) (\<lambda>(b, m, q). bind_result (pop_all n m q) (\<lambda>(ms, q). Inr (m # ms, q)))"

lemma push_all_contents:
  "inv q \<Longrightarrow> \<forall>m \<in> set ms. ok m \<Longrightarrow> \<exists>q'. push_all ms q = Inr q' \<and> inv q' \<and> contents q' = contents q @ ms"
proof (induction ms arbitrary: q)
  case (Cons m ms)
  obtain m' q1 where q1: "push m q = Inr (m', q1)" "inv q1" "contents q1 = contents q @ [m]"
    using push_law [OF Cons.prems(1), of m] Cons.prems(2) by auto
  then show ?case using Cons.IH [OF q1(2)] Cons.prems(2) by auto
qed simp

lemma pop_all_contents:
  "inv q \<Longrightarrow> contents q = ms @ rest \<Longrightarrow>
    \<exists>q'. pop_all (length ms) m0 q = Inr (ms, q') \<and> inv q' \<and> contents q' = rest"
proof (induction ms arbitrary: q m0)
  case (Cons m ms)
  obtain q1 where q1: "pop m0 q = Inr (True, m, q1)" "inv q1" "contents q1 = ms @ rest"
    using pop_law [OF Cons.prems(1), of m "ms @ rest"] Cons.prems(2) by auto
  then show ?case using Cons.IH [OF q1(2,3), of m] by auto
qed simp

end

text \<open>The store as a list of messages.\<close>

definition store_contents :: "ReceivedMsgStore \<Rightarrow> FlexBuffer list" where
  "store_contents q =
    map (\<lambda>i. store_mem q ! ((store_start q + i) mod store_N)) [0..<store_size q] @
    map (\<lambda>f. case msg_of_file f of Inl e \<Rightarrow> empty_buffer | Inr m \<Rightarrow> m) (store_files q)"

definition msg_ok :: "FlexBuffer \<Rightarrow> bool" where
  "msg_ok m \<longleftrightarrow> length (fb_data m) < 2 ^ 64 \<and> fb_ptr m < 2 ^ 64"

definition store_inv :: "ReceivedMsgStore \<Rightarrow> bool" where
  "store_inv q \<longleftrightarrow> length (store_mem q) = store_N \<and> store_start q = 0 \<and> store_size q \<le> store_N \<and>
    (\<forall>f \<in> set (store_files q). \<exists>m. msg_of_file f = Inr m)"

lemma msg_of_file_of_msg: "msg_ok m \<Longrightarrow> msg_of_file (file_of_msg m) = Inr m"
proof -
  assume "msg_ok m"
  then have b: "length (fb_data m) < 2 ^ 64" "fb_ptr m < 2 ^ 64" by (simp_all add: msg_ok_def)
  have "unat (le_value (le_bytes 8 (word_of_nat (length (fb_data m))))) = length (fb_data m)"
    "unat (le_value (le_bytes 8 (word_of_nat (fb_ptr m)))) = fb_ptr m"
    using unat_u64_of_nat [OF b(1)] unat_u64_of_nat [OF b(2)] by (simp_all add: le_value_bytes take_bit_word_eq_self)
  then show ?thesis by (simp add: msg_of_file_def file_of_msg_def Let_def)
qed

interpretation msg_store: fifo store_push store_pop store_contents store_inv msg_ok
proof
  fix q m assume q: "store_inv q" and m: "msg_ok m"
  show "\<exists>m' q'. store_push m q = Inr (m', q') \<and> store_inv q' \<and> store_contents q' = store_contents q @ [m]"
  proof (cases "store_size q \<noteq> store_N \<and> store_files q = []")
    case True
    then have "store_size q = 0" using q by (simp add: store_inv_def store_N_def)
    then show ?thesis
      using True q by (simp add: store_push_def store_inv_def store_contents_def store_N_def)
  next
    case False
    then show ?thesis
      using q msg_of_file_of_msg [OF m] unfolding store_push_def if_not_P [OF False]
      by (auto simp: store_inv_def store_contents_def)
  qed
next
  fix q m ms m0 assume q: "store_inv q" and c: "store_contents q = m # ms"
  show "\<exists>q'. store_pop m0 q = Inr (True, m, q') \<and> store_inv q' \<and> store_contents q' = ms"
  proof (cases "store_size q = 0")
    case True
    then obtain f fs where f: "store_files q = f # fs" using c by (cases "store_files q") (auto simp: store_contents_def)
    then obtain m1 where "msg_of_file f = Inr m1" using q by (auto simp: store_inv_def)
    then show ?thesis
      using True f q c by (auto simp: store_pop_def store_inv_def store_contents_def)
  next
    case False
    then have "store_size q = 1" using q by (simp add: store_inv_def store_N_def)
    then show ?thesis
      using q c by (auto simp: store_pop_def store_inv_def store_contents_def store_N_def)
  qed
next
  fix q m0 assume "store_inv q" "store_contents q = []"
  then show "store_pop m0 q = Inr (False, m0, q)"
    by (simp add: store_pop_def store_contents_def)
qed



end
