(* ===== verification/Yao_Andrsvec.thy ===== *)
theory Yao_Andrsvec
  imports Yao_And_Correct
begin

text \<open>
  The instruction \<^verbatim>\<open>andrsvec\<close> (\<^verbatim>\<open>GC/Processor.hpp\<close>): each bit of a base vector with the bits at the same place of
  several vectors.  The loops are those of the processor, for the garbler, the evaluator and plain bits; they keep
  labels as the other AND instructions do, whatever registers coincide.
\<close>

section \<open>Registers with checked access\<close>

definition at_read :: "'a list \<Rightarrow> nat \<Rightarrow> 'a result" where
  "at_read S r = (if r < length S then Inr (S ! r) else Inl (runtime_error ''vector::at''))"

definition at_reg :: "'a memory \<Rightarrow> nat \<Rightarrow> nat \<Rightarrow> 'a result" where
  "at_reg S r k = bind_result (at_read S r) (\<lambda>ws. vec_read ws k)"

definition at_set :: "'a memory \<Rightarrow> nat \<Rightarrow> nat \<Rightarrow> 'a \<Rightarrow> 'a memory result" where
  "at_set S r k w = bind_result (at_read S r) (\<lambda>_. set_reg S r k w)"

definition at_resize :: "'a \<Rightarrow> 'a memory \<Rightarrow> nat \<Rightarrow> nat \<Rightarrow> 'a memory result" where
  "at_resize fresh S r n = bind_result (at_read S r) (\<lambda>_. resize_reg fresh S r n)"

lemma at_Inr:
  "at_reg S r k = Inr x \<longleftrightarrow> get_reg S r k = Inr x"
  "at_set S r k w = Inr S' \<longleftrightarrow> set_reg S r k w = Inr S'"
  "at_resize z S r n = Inr S' \<longleftrightarrow> resize_reg z S r n = Inr S'"
  by (auto simp: at_reg_def at_set_def at_resize_def at_read_def get_reg_def set_reg_def resize_reg_def vec_read_def)

section \<open>The loops\<close>

text \<open>
  \<open>mem\<close> and \<open>put\<close> are the registers in the state of a party, \<open>gate\<close> its AND of two wires (\<^verbatim>\<open>tmp.and_(1, x, y, false)\<close>).
\<close>

definition vec_wire :: "('s \<Rightarrow> 'a memory) \<Rightarrow> ('a memory \<Rightarrow> 's \<Rightarrow> 's) \<Rightarrow> ('a \<Rightarrow> 'a \<Rightarrow> 's \<Rightarrow> ('a \<times> 's) result) \<Rightarrow>
    nat \<Rightarrow> 'a \<Rightarrow> 's \<Rightarrow> nat \<times> nat \<Rightarrow> 's result" where
  "vec_wire mem put gate i y s = (\<lambda>(dest, src).
    bind_result (at_reg (mem s) (src + i div default_length) (i mod default_length)) (\<lambda>x.
    bind_result (gate x y s) (\<lambda>(w, s).
    bind_result (at_set (mem s) (dest + i div default_length) (i mod default_length) w) (\<lambda>S. Inr (put S s)))))"

definition vec_resize :: "('s \<Rightarrow> 'a memory) \<Rightarrow> ('a memory \<Rightarrow> 's \<Rightarrow> 's) \<Rightarrow> 'a \<Rightarrow> nat \<Rightarrow> nat \<Rightarrow> 's \<Rightarrow> nat \<Rightarrow> 's result" where
  "vec_resize mem put fresh n i s dest =
    bind_result (at_resize fresh (mem s) (dest + i div default_length) (min default_length (n - i))) (\<lambda>S. Inr (put S s))"

definition vec_step :: "('s \<Rightarrow> 'a memory) \<Rightarrow> ('a memory \<Rightarrow> 's \<Rightarrow> 's) \<Rightarrow> ('a \<Rightarrow> 'a \<Rightarrow> 's \<Rightarrow> ('a \<times> 's) result) \<Rightarrow> 'a \<Rightarrow>
    nat \<Rightarrow> nat list \<Rightarrow> nat \<Rightarrow> nat list \<Rightarrow> 's \<Rightarrow> nat \<Rightarrow> 's result" where
  "vec_step mem put gate fresh n dests base srcs s i =
    bind_result (fold_result (vec_resize mem put fresh n i) s (if i mod default_length = 0 then dests else [])) (\<lambda>s.
    bind_result (at_reg (mem s) (base + i div default_length) (i mod default_length)) (\<lambda>y.
    fold_result (vec_wire mem put gate i y) s (zip dests srcs)))"

text \<open>
  The arguments of one operation: their number, the size of the vectors, the results, the base, the inputs.
  A number below 2 would make the loop read backwards; together with reading past the arguments it has no meaning
  here.
\<close>

fun andrsvec :: "('s \<Rightarrow> 'a memory) \<Rightarrow> ('a memory \<Rightarrow> 's \<Rightarrow> 's) \<Rightarrow> ('a \<Rightarrow> 'a \<Rightarrow> 's \<Rightarrow> ('a \<times> 's) result) \<Rightarrow> 'a \<Rightarrow>
    nat list \<Rightarrow> 's \<Rightarrow> 's result" where
  "andrsvec mem put gate fresh [] s = Inr s"
| "andrsvec mem put gate fresh [_] s = Inl undefined_access"
| "andrsvec mem put gate fresh (m # n # args) s =
    (let n_args = (m - 3) div 2
     in if m < 2 \<or> length args \<le> 2 * n_args then Inl undefined_access
        else if default_length < n_args then Inl (exit_failure ''assertion failed'')
        else bind_result (fold_result (vec_step mem put gate fresh n (take n_args args) (args ! n_args)
               (take n_args (drop (n_args + 1) args))) s [0..<n])
             (andrsvec mem put gate fresh (drop (2 * n_args + 1) args)))"

text \<open>The AND of two wires by the three sides.\<close>

definition garble_bit_op :: "(m128 \<Rightarrow> m128) \<Rightarrow> m128 \<Rightarrow> m128 \<Rightarrow> m128 \<Rightarrow> Garbler_state \<Rightarrow> (m128 \<times> Garbler_state) result" where
  "garble_bit_op h d a b st =
    (let (x, p) = get_doubleword (g_prng st); c = g_counter st + 1
     in bind_result (half_construct h d c (Function_of_int 1) a b) (\<lambda>(gate, w).
        Inr (w, st\<lparr>g_gates := g_gates st @ [gate], g_counter := c, g_prng := p\<rparr>)))"

definition eval_bit_op :: "(m128 \<Rightarrow> m128) \<Rightarrow> m128 \<Rightarrow> m128 \<Rightarrow> Evaluator_state \<Rightarrow> (m128 \<times> Evaluator_state) result" where
  "eval_bit_op h a b st =
    bind_result (vec_read (e_gates st) 0) (\<lambda>gate. let c = e_counter st + 1
      in Inr (half_eval_op h c gate a b, st\<lparr>e_gates := tl (e_gates st), e_counter := c\<rparr>))"

definition garble_andrsvec :: "(m128 \<Rightarrow> m128) \<Rightarrow> m128 \<Rightarrow> nat list \<Rightarrow> Garbler_state \<Rightarrow> Garbler_state result" where
  "garble_andrsvec h d = andrsvec g_mem (\<lambda>S st. st\<lparr>g_mem := S\<rparr>) (garble_bit_op h d) m128_zero"

definition eval_andrsvec :: "(m128 \<Rightarrow> m128) \<Rightarrow> nat list \<Rightarrow> Evaluator_state \<Rightarrow> Evaluator_state result" where
  "eval_andrsvec h = andrsvec e_mem (\<lambda>S st. st\<lparr>e_mem := S\<rparr>) (eval_bit_op h) m128_zero"

definition plain_andrsvec :: "nat list \<Rightarrow> bool memory \<Rightarrow> bool memory result" where
  "plain_andrsvec = andrsvec (\<lambda>V. V) (\<lambda>V _. V) (\<lambda>a b V. Inr (a \<and> b, V)) False"

section \<open>Correctness\<close>

lemma sim_at_reg:
  assumes "\<And>g v. sim d (G g) (E (half_label d g v)) (P v)"
  shows "sim d (\<lambda>st. bind_result (at_reg (g_mem st) r k) (\<lambda>a. G a st))
    (\<lambda>st. bind_result (at_reg (e_mem st) r k) (\<lambda>a. E a st)) (\<lambda>V. bind_result (at_reg V r k) (\<lambda>v. P v V))"
  unfolding sim_def
proof (intro allI impI)
  fix S :: "m128 memory" and V c V'
  assume S: "same_shape S V" and "bind_result (at_reg V r k) (\<lambda>v. P v V) = Inr V'"
  then obtain v where v: "get_reg V r k = Inr v" "P v V = Inr V'" by (auto simp: bind_result_Inr_iff at_Inr)
  obtain S' gs where "steps d (G (S ! r ! k)) (E (half_label d (S ! r ! k) v)) S V c S' V' gs"
    using assms S v(2) sim_def by blast
  moreover have "at_reg S r k = Inr (S ! r ! k)" "at_reg (labels d S V) r k = Inr (half_label d (S ! r ! k) v)"
    using labels_get [OF S v(1)] by (simp_all add: at_Inr)
  ultimately show "\<exists>S' gs. steps d (\<lambda>st. bind_result (at_reg (g_mem st) r k) (\<lambda>a. G a st))
      (\<lambda>st. bind_result (at_reg (e_mem st) r k) (\<lambda>a. E a st)) S V c S' V' gs"
    by (intro exI [of _ S'] exI [of _ gs]) (simp add: steps_def)
qed

lemma sim_vec_resize:
  "sim d (\<lambda>st. vec_resize g_mem (\<lambda>S st. st\<lparr>g_mem := S\<rparr>) m128_zero n i st dest)
    (\<lambda>st. vec_resize e_mem (\<lambda>S st. st\<lparr>e_mem := S\<rparr>) m128_zero n i st dest)
    (\<lambda>V. vec_resize (\<lambda>V. V) (\<lambda>V _. V) False n i V dest)"
  unfolding sim_def vec_resize_def
proof (intro allI impI)
  let ?r = "dest + i div default_length" and ?n = "min default_length (n - i)"
  fix S :: "m128 memory" and V c V'
  assume S: "same_shape S V" and "bind_result (at_resize False V ?r ?n) Inr = Inr V'"
  then have "resize_reg False V ?r ?n = Inr V'" by (simp add: at_Inr)
  from labels_resize [OF S this] show "\<exists>S' gs. steps d
      (\<lambda>st. bind_result (at_resize m128_zero (g_mem st) ?r ?n) (\<lambda>S. Inr (st\<lparr>g_mem := S\<rparr>)))
      (\<lambda>st. bind_result (at_resize m128_zero (e_mem st) ?r ?n) (\<lambda>S. Inr (st\<lparr>e_mem := S\<rparr>))) S V c S' V' gs"
    by (intro exI [of _ "S[?r := resize_regs m128_zero ?n (S ! ?r)]"] exI [of _ "[]"])
      (simp add: steps_def flip: at_Inr(3))
qed

lemma sim_bit_op:
  assumes d: "get_signal d"
  shows "sim d
    (\<lambda>st. bind_result (garble_bit_op h d a b st) (\<lambda>(w, st). bind_result (at_set (g_mem st) r k w) (\<lambda>S. Inr (st\<lparr>g_mem := S\<rparr>))))
    (\<lambda>st. bind_result (eval_bit_op h (half_label d a va) (half_label d b vb) st)
      (\<lambda>(w, st). bind_result (at_set (e_mem st) r k w) (\<lambda>S. Inr (st\<lparr>e_mem := S\<rparr>))))
    (\<lambda>V. bind_result (at_set V r k (va \<and> vb)) Inr)"
  unfolding sim_def
proof (intro allI impI)
  fix S :: "m128 memory" and V c V'
  assume S: "same_shape S V" and "bind_result (at_set V r k (va \<and> vb)) Inr = Inr V'"
  then have V': "set_reg V r k (va \<and> vb) = Inr V'" by (simp add: at_Inr)
  define w where "w = snd (wire_gate h d (c + 1) a b)"
  note L = labels_set(1) [OF S V', of w] labels_set(2) [OF S V', of w] labels_set(3) [OF S V', of d w]
  have G: "garble_bit_op h d a b (gst T gs0 c p) =
      Inr (w, gst T (gs0 @ [fst (wire_gate h d (c + 1) a b)]) (c + 1) (snd (get_doubleword p)))" for T gs0 p
    by (simp add: garble_bit_op_def half_construct_def Function_of_int_eq Let_def split_beta wire_gate_def w_def)
  have E: "eval_bit_op h (half_label d a va) (half_label d b vb) (est T (fst (wire_gate h d (c + 1) a b) # rest) c) =
      Inr (half_label d w (va \<and> vb), est T rest (c + 1))" for T rest
    using wire_gate_eval [OF d, of h "c + 1" a b va vb]
    by (simp add: eval_bit_op_def half_eval_op_def vec_read_def w_def Let_def)
  show "\<exists>S' gs. steps d
    (\<lambda>st. bind_result (garble_bit_op h d a b st) (\<lambda>(w, st). bind_result (at_set (g_mem st) r k w) (\<lambda>S. Inr (st\<lparr>g_mem := S\<rparr>))))
    (\<lambda>st. bind_result (eval_bit_op h (half_label d a va) (half_label d b vb) st)
      (\<lambda>(w, st). bind_result (at_set (e_mem st) r k w) (\<lambda>S. Inr (st\<lparr>e_mem := S\<rparr>)))) S V c S' V' gs"
    using L G E by (intro exI [of _ "S[r := (S ! r)[k := w]]"] exI [of _ "[fst (wire_gate h d (c + 1) a b)]"])
      (simp add: steps_def flip: at_Inr(2))
qed

lemma sim_vec_wire:
  assumes "get_signal d"
  shows "sim d (\<lambda>st. vec_wire g_mem (\<lambda>S st. st\<lparr>g_mem := S\<rparr>) (garble_bit_op h d) i g st x)
    (\<lambda>st. vec_wire e_mem (\<lambda>S st. st\<lparr>e_mem := S\<rparr>) (eval_bit_op h) i (half_label d g v) st x)
    (\<lambda>V. vec_wire (\<lambda>V. V) (\<lambda>V _. V) (\<lambda>a b V. Inr (a \<and> b, V)) i v V x)"
proof -
  obtain dest src where x: "x = (dest, src)" by (cases x)
  show ?thesis
    unfolding vec_wire_def x prod.case
  proof (rule sim_at_reg, goal_cases)
    case (1 a va)
    then show ?case using sim_bit_op [OF assms, of h a g _ _ va v] by simp
  qed
qed

lemma sim_if:
  "sim d G E P \<Longrightarrow> sim d G' E' P' \<Longrightarrow>
    sim d (\<lambda>s. if b then G s else G' s) (\<lambda>s. if b then E s else E' s) (\<lambda>s. if b then P s else P' s)"
  by (cases b) simp_all

lemma sim_fail: "sim d (\<lambda>s. Inl e) (\<lambda>s. Inl e) (\<lambda>s. Inl e)"
  by (simp add: sim_def)

lemma sim_vec_step:
  assumes "get_signal d"
  shows "sim d (\<lambda>st. vec_step g_mem (\<lambda>S st. st\<lparr>g_mem := S\<rparr>) (garble_bit_op h d) m128_zero n dests base srcs st i)
    (\<lambda>st. vec_step e_mem (\<lambda>S st. st\<lparr>e_mem := S\<rparr>) (eval_bit_op h) m128_zero n dests base srcs st i)
    (\<lambda>V. vec_step (\<lambda>V. V) (\<lambda>V _. V) (\<lambda>a b V. Inr (a \<and> b, V)) False n dests base srcs V i)"
  unfolding vec_step_def
  by (intro sim_bind sim_fold sim_vec_resize sim_at_reg sim_vec_wire [OF assms])

lemma sim_andrsvec:
  assumes d: "get_signal d"
  shows "sim d (garble_andrsvec h d args) (eval_andrsvec h args) (plain_andrsvec args)"
proof -
  have "sim d (\<lambda>s. andrsvec g_mem (\<lambda>S st. st\<lparr>g_mem := S\<rparr>) (garble_bit_op h d) m128_zero args s)
      (\<lambda>s. andrsvec e_mem (\<lambda>S st. st\<lparr>e_mem := S\<rparr>) (eval_bit_op h) m128_zero args s)
      (\<lambda>s. andrsvec (\<lambda>V. V) (\<lambda>V _. V) (\<lambda>a b V. Inr (a \<and> b, V)) False args s)"
  proof (induction args rule: length_induct)
    case (1 args)
    consider "args = []" | x where "args = [x]" | m n rest where "args = m # n # rest"
      by (metis neq_Nil_conv)
    then show ?case
    proof cases
      case 3
      have "sim d (andrsvec g_mem (\<lambda>S st. st\<lparr>g_mem := S\<rparr>) (garble_bit_op h d) m128_zero (drop j rest))
          (andrsvec e_mem (\<lambda>S st. st\<lparr>e_mem := S\<rparr>) (eval_bit_op h) m128_zero (drop j rest))
          (andrsvec (\<lambda>V. V) (\<lambda>V _. V) (\<lambda>a b V. Inr (a \<and> b, V)) False (drop j rest))" for j
        using 1 3 by (auto simp: less_Suc_eq_le)
      then show ?thesis
        unfolding 3 andrsvec.simps Let_def
        by (intro sim_if sim_fail sim_bind sim_fold sim_vec_step [OF d])
    qed (simp_all add: sim_return sim_fail)
  qed
  then show ?thesis by (simp add: garble_andrsvec_def eval_andrsvec_def plain_andrsvec_def)
qed

end
