(* ===== verification/Yao_Machine.thy ===== *)
theory Yao_Machine
  imports Yao_Jobs Yao_Wires Yao_Andrsvec Octet_Stream
begin

text \<open>
  The Yao virtual machine of the two parties: the instructions of \<^verbatim>\<open>GC/instructions.h\<close> on clear, secret and
  integer registers, on the memories and on the stack, what a program prints, the loop of \<^verbatim>\<open>GC/Program.hpp\<close>, the opening of registers with its messages, and one
  round of each party (\<^verbatim>\<open>YaoGarbler.cpp\<close>, \<^verbatim>\<open>YaoEvaluator.cpp\<close>).  The same program runs on plain bits as the
  specification.  Overflow of signed sums and products wraps.
\<close>

section \<open>Instructions and registers\<close>

text \<open>
  Register numbers are those of the bytecode, immediate values the 64-bit field of the instruction.
\<close>

datatype secret_op =
    XORS "nat list" | NOTS nat nat nat | ANDS "nat list" | ANDRS "nat list" | ANDRSVEC "nat list" | ANDM nat nat nat nat
  | MOVSB nat nat | BITDECS "nat list" nat | BITCOMS nat "nat list" | TRANS nat "nat list"
  | LDBITS nat nat u64 | CONVSINT nat nat nat | CONVCBIT2S nat nat nat
  | LDMSB nat nat u64 | STMSB nat nat u64 | LDMSBI nat nat nat | STMSBI nat nat nat
  | LDMSD "nat list" | STMSD "nat list" | LDMSDI "nat list" | STMSDI "nat list"

datatype cbit_op =
    XORCB nat nat nat nat | XORCBI nat nat u64 | NOTCB nat nat nat | BITDECC "nat list" nat
  | ADDCB nat nat nat | ADDCBI nat nat u64 | MULCBI nat nat u64 | SHRCBI nat nat u64 | SHLCBI nat nat u64
  | CONVCINT nat nat
  | LDMCB nat nat u64 | STMCB nat nat u64 | LDMCBI nat nat nat | STMCBI nat nat nat | STMSDCI "nat list"

datatype int_op =
    LDINT nat u64 | MOVINT nat nat | ADDINT nat nat nat | SUBINT nat nat nat | MULINT nat nat nat | DIVINT nat nat nat
  | EQZC nat nat | LTZC nat nat | LTC nat nat nat | GTC nat nat nat | EQC nat nat nat
  | LDMINT nat u64 | STMINT nat u64 | LDMINTI nat nat | STMINTI nat nat
  | PUSHINT nat | POPINT nat | BITDECINT "nat list" nat | LDARG nat | STARG nat | NPLAYERS nat | THRESHOLD nat

datatype print_op =
    PRINTCHR u64 | PRINTSTR u64 | PRINTINT nat | PRINTREGSIGNED u64 nat | PRINTREGB nat u64 nat
  | PRINTREGPLAINB nat | CONDPRINTSTRB nat u64

datatype instr =
    SECRET secret_op | CBIT cbit_op | REGINT int_op | PRINT print_op
  | JMP u64 | JMPNZ nat u64 | JMPEQZ nat u64 | JMPI nat | CRASH nat
  | REVEAL "nat list" | CONVCBIT nat nat | NOP

text \<open>
  The instructions are grouped by the registers they write.  \<open>NOP\<close> stands for those whose body is empty.  The
  instructions that move several memory cells have the size of the bytecode as their first argument.  What a program
  prints is kept as the sequence of the bytes, decimal and hexadecimal numbers that it hands to its output stream.
\<close>

datatype out_item = Out_bytes "u8 list" | Out_dec int | Out_hex int

record control =
  pc :: u32
  complexity :: nat
  C_regs :: "u64 list"
  I_regs :: "u64 list"
  MC_mem :: "u64 list"
  MI_mem :: "u64 list"
  stacki :: "u64 list"
  tape_arg :: u32
  printed :: "out_item list"

definition set_C :: "nat \<Rightarrow> u64 \<Rightarrow> control \<Rightarrow> control result" where
  "set_C r x k = bind_result (vec_write (C_regs k) r x) (\<lambda>C. Inr (k\<lparr>C_regs := C\<rparr>))"

definition set_I :: "nat \<Rightarrow> u64 \<Rightarrow> control \<Rightarrow> control result" where
  "set_I r x k = bind_result (vec_write (I_regs k) r x) (\<lambda>I. Inr (k\<lparr>I_regs := I\<rparr>))"

text \<open>\<^verbatim>\<open>IntBase::mask\<close>, \<^verbatim>\<open>IntBase::operator>>\<close> and \<^verbatim>\<open>operator<<\<close>; a shift by a negative amount has no meaning.\<close>

definition mask_bits :: "nat \<Rightarrow> u64 \<Rightarrow> u64" where
  "mask_bits n x = (if n < 64 then x AND (push_bit n 1 - 1) else x)"

definition shift_right :: "u64 \<Rightarrow> u64 \<Rightarrow> u64 result" where
  "shift_right x n = (if n <s 0 then Inl undefined_access else if n <s 64 then Inr (drop_bit (unat n) x) else Inr 0)"

definition shift_left :: "u64 \<Rightarrow> u64 \<Rightarrow> u64 result" where
  "shift_left x n = (if n <s 0 then Inl undefined_access else if n <s 64 then Inr (push_bit (unat n) x) else Inr 0)"

text \<open>\<^verbatim>\<open>int(IMM)\<close>.\<close>

definition int_imm :: "u64 \<Rightarrow> u64" where
  "int_imm n = scast (ucast n :: u32)"

definition jump :: "u64 \<Rightarrow> control \<Rightarrow> control" where
  "jump n k = k\<lparr>pc := pc k + ucast n\<rparr>"

definition xorc :: "nat \<Rightarrow> nat \<Rightarrow> nat \<Rightarrow> nat \<Rightarrow> control \<Rightarrow> control result" where
  "xorc n_total r0 r1 r2 k =
    fold_result (\<lambda>k i. let n = min default_length (n_total - i * default_length) in
      bind_result (vec_read (C_regs k) (r1 + i)) (\<lambda>a. bind_result (vec_read (C_regs k) (r2 + i)) (\<lambda>b.
      set_C (r0 + i) (mask_bits n a XOR mask_bits n b) k))) k [0..<div_ceil n_total default_length]"

definition notcb :: "nat \<Rightarrow> nat \<Rightarrow> nat \<Rightarrow> control \<Rightarrow> control result" where
  "notcb n_total r0 r1 k =
    fold_result (\<lambda>k i. let n = min 64 (n_total - i * 64) in
      bind_result (vec_read (C_regs k) (r1 + i)) (\<lambda>a. set_C (r0 + i) (mask_bits n (NOT a)) k))
      k [0..<div_ceil n_total 64]"

text \<open>\<^verbatim>\<open>x\<close> is a reference into the registers that are written, and is read again for every bit.\<close>

definition bitdecc :: "nat list \<Rightarrow> nat \<Rightarrow> control \<Rightarrow> control result" where
  "bitdecc regs x k =
    fold_result (\<lambda>k i. bind_result (vec_read (C_regs k) x) (\<lambda>c.
      set_C (regs ! i) (if i < 64 then of_bool (bit c i) else 0) k)) k [0..<length regs]"

definition on_C :: "nat \<Rightarrow> nat \<Rightarrow> (u64 \<Rightarrow> u64 result) \<Rightarrow> control \<Rightarrow> control result" where
  "on_C r0 r1 f k = bind_result (vec_read (C_regs k) r1) (\<lambda>a. bind_result (f a) (\<lambda>x. set_C r0 x k))"

definition on_I :: "nat \<Rightarrow> nat \<Rightarrow> (u64 \<Rightarrow> u64) \<Rightarrow> control \<Rightarrow> control result" where
  "on_I r0 r1 f k = bind_result (vec_read (I_regs k) r1) (\<lambda>a. set_I r0 (f a) k)"

definition on_II :: "nat \<Rightarrow> nat \<Rightarrow> nat \<Rightarrow> (u64 \<Rightarrow> u64 \<Rightarrow> u64) \<Rightarrow> control \<Rightarrow> control result" where
  "on_II r0 r1 r2 f k =
    bind_result (vec_read (I_regs k) r1) (\<lambda>a. bind_result (vec_read (I_regs k) r2) (\<lambda>b. set_I r0 (f a b) k))"

section \<open>Memory, stack and output\<close>

text \<open>
  \<^verbatim>\<open>mem_op\<close> copies cell by cell.  Without \<^verbatim>\<open>CHECK_SIZE\<close> the call of \<^verbatim>\<open>check_index\<close> has no effect, and a cell outside
  either vector has no meaning.  The two vectors are never the same.
\<close>

definition mem_op :: "nat \<Rightarrow> 'a list \<Rightarrow> 'a list \<Rightarrow> nat \<Rightarrow> nat \<Rightarrow> 'a list result" where
  "mem_op n dest source dest_address source_address =
    fold_result (\<lambda>dest i. bind_result (vec_read source (source_address + i)) (\<lambda>x.
      vec_write dest (dest_address + i) x)) dest [0..<n]"

definition load_C :: "nat \<Rightarrow> nat \<Rightarrow> u64 \<Rightarrow> control \<Rightarrow> control result" where
  "load_C n r0 a k = bind_result (mem_op n (C_regs k) (MC_mem k) r0 (unat a)) (\<lambda>C. Inr (k\<lparr>C_regs := C\<rparr>))"

definition store_C :: "nat \<Rightarrow> nat \<Rightarrow> u64 \<Rightarrow> control \<Rightarrow> control result" where
  "store_C n r0 a k = bind_result (mem_op n (MC_mem k) (C_regs k) (unat a) r0) (\<lambda>M. Inr (k\<lparr>MC_mem := M\<rparr>))"

definition load_I :: "nat \<Rightarrow> u64 \<Rightarrow> control \<Rightarrow> control result" where
  "load_I r0 a k = bind_result (vec_read (MI_mem k) (unat a)) (\<lambda>x. set_I r0 x k)"

definition store_I :: "nat \<Rightarrow> u64 \<Rightarrow> control \<Rightarrow> control result" where
  "store_I r0 a k = bind_result (vec_read (I_regs k) r0) (\<lambda>x.
    bind_result (vec_write (MI_mem k) (unat a) x) (\<lambda>M. Inr (k\<lparr>MI_mem := M\<rparr>)))"

text \<open>The top of the stack is the front of the list; taking from an empty stack has no meaning.\<close>

definition pushi :: "u64 \<Rightarrow> control \<Rightarrow> control" where
  "pushi x k = k\<lparr>stacki := x # stacki k\<rparr>"

definition popi :: "control \<Rightarrow> (u64 \<times> control) result" where
  "popi k = (case stacki k of [] \<Rightarrow> Inl undefined_access | x # xs \<Rightarrow> Inr (x, k\<lparr>stacki := xs\<rparr>))"

definition bitdecint :: "nat list \<Rightarrow> nat \<Rightarrow> control \<Rightarrow> control result" where
  "bitdecint regs x k =
    fold_result (\<lambda>k i. bind_result (vec_read (I_regs k) x) (\<lambda>c.
      set_I (regs ! i) (if i < 64 then of_bool (bit c i) else 0) k)) k [0..<length regs]"

text \<open>A signed quotient is rounded to zero; that by 0, and the one that does not fit, have no meaning.\<close>

definition divide_int :: "u64 \<Rightarrow> u64 \<Rightarrow> u64 result" where
  "divide_int a b =
    (if b = 0 \<or> a = 2 ^ 63 \<and> b = - 1 then Inl undefined_access
     else Inr (word_of_int (sgn (sint a) * sgn (sint b) * (\<bar>sint a\<bar> div \<bar>sint b\<bar>))))"

definition print_out :: "out_item list \<Rightarrow> control \<Rightarrow> control" where
  "print_out xs k = k\<lparr>printed := printed k @ xs\<rparr>"

text \<open>\<^verbatim>\<open>print_str\<close> prints the four bytes of an \<^verbatim>\<open>int\<close>.\<close>

definition print_str :: "u64 \<Rightarrow> out_item" where
  "print_str n = Out_bytes (le_bytes 4 n)"

text \<open>The unsigned number in consecutive clear registers.\<close>

definition clear_number :: "nat \<Rightarrow> nat \<Rightarrow> control \<Rightarrow> int result" where
  "clear_number m r k =
    bind_result (map_result (\<lambda>i. vec_read (C_regs k) (r + i)) [0..<m]) (\<lambda>xs. Inr (horner_sum uint (2 ^ 64) xs))"

definition print_reg :: "nat \<Rightarrow> u64 \<Rightarrow> nat \<Rightarrow> control \<Rightarrow> control result" where
  "print_reg r n m k = bind_result (clear_number m r k) (\<lambda>x. Inr (print_out
    [Out_bytes (map of_char ''Reg[''), Out_dec (int r), Out_bytes (map of_char ''] = ''), Out_hex x,
     Out_bytes (map of_char '' # ''), print_str n, Out_bytes [10]] k))"

definition print_reg_signed :: "u64 \<Rightarrow> nat \<Rightarrow> control \<Rightarrow> control result" where
  "print_reg_signed n r k =
    (let n_bits = unat (ucast n :: u32) in
     if n_bits \<le> 64 then
       bind_result (vec_read (C_regs k) r) (\<lambda>v.
       let n_shift = (if 1 < n_bits then 64 - n_bits else 0)
       in Inr (print_out [Out_dec (sint (signed_drop_bit n_shift (push_bit n_shift v)))] k))
     else bind_result (clear_number (div_ceil n_bits 64) r k) (\<lambda>x.
       Inr (print_out [Out_dec (if 2 ^ (n_bits - 1) \<le> x then x - 2 ^ n_bits else x)] k)))"

text \<open>
  Dynamic memory does not exist for Yao wires: the accesses are collected, then loading and storing throw.  Clear
  values stored there are dropped.
\<close>

fun triples :: "nat list \<Rightarrow> (nat \<times> nat \<times> nat) list" where
  "triples (n # r0 # r1 # args) = (n, r0, r1) # triples args"
| "triples _ = []"

fun pairs :: "nat list \<Rightarrow> (nat \<times> nat) list" where
  "pairs (a # b # args) = (a, b) # pairs args"
| "pairs _ = []"

definition dynamic_address :: "bool \<Rightarrow> nat \<Rightarrow> control \<Rightarrow> unit result" where
  "dynamic_address indirect a k = (if indirect then bind_result (vec_read (C_regs k) a) (\<lambda>_. Inr ()) else Inr ())"

definition load_dynamic :: "'a \<Rightarrow> bool \<Rightarrow> nat list \<Rightarrow> control \<Rightarrow> 'a list list \<Rightarrow> 'b result" where
  "load_dynamic fresh indirect args k S =
    (if length args mod 3 \<noteq> 0 then Inl (runtime_error ''invalid number of arguments'')
     else bind_result (fold_result (\<lambda>_ (r, a, n). bind_result (vec_read S r) (\<lambda>_. dynamic_address indirect a k)) () (triples args)) (\<lambda>_.
       bind_result (fold_result (\<lambda>S (r, a, n).
         if n = 0 \<or> default_length < n then Inl (runtime_error ''invalid length for dynamic loading'')
         else resize_reg fresh S r n) S (triples args)) (\<lambda>_.
       Inl (runtime_error ''dynamic memory not implemented''))))"

definition store_dynamic :: "bool \<Rightarrow> nat list \<Rightarrow> control \<Rightarrow> 'a list list \<Rightarrow> 'b result" where
  "store_dynamic indirect args k S =
    (if length args mod 2 \<noteq> 0 then Inl (runtime_error ''invalid number of arguments'')
     else bind_result (fold_result (\<lambda>_ (r, a). bind_result (dynamic_address indirect a k) (\<lambda>_.
         bind_result (vec_read S r) (\<lambda>_. Inr ()))) () (pairs args)) (\<lambda>_.
       Inl (runtime_error ''dynamic memory not implemented'')))"

definition store_clear_in_dynamic :: "nat list \<Rightarrow> control \<Rightarrow> control result" where
  "store_clear_in_dynamic args k =
    bind_result (check_args args 2) (\<lambda>_.
    bind_result (fold_result (\<lambda>_ (v, a). bind_result (vec_read (C_regs k) a) (\<lambda>_.
      bind_result (vec_read (C_regs k) v) (\<lambda>_. Inr ()))) () (pairs args)) (\<lambda>_. Inr k))"

text \<open>
  The instructions that work on clear and integer values only; they are the same in both parties, of which there
  are two.
\<close>

fun cbit_instr :: "cbit_op \<Rightarrow> control \<Rightarrow> control result" where
  "cbit_instr (XORCB n r0 r1 r2) k = xorc n r0 r1 r2 k"
| "cbit_instr (XORCBI r0 r1 n) k = on_C r0 r1 (\<lambda>a. Inr (a XOR n)) k"
| "cbit_instr (NOTCB n r0 r1) k = notcb n r0 r1 k"
| "cbit_instr (BITDECC regs x) k = bitdecc regs x k"
| "cbit_instr (ADDCB r0 r1 r2) k = bind_result (vec_read (C_regs k) r2) (\<lambda>b. on_C r0 r1 (\<lambda>a. Inr (a + b)) k)"
| "cbit_instr (ADDCBI r0 r1 n) k = on_C r0 r1 (\<lambda>a. Inr (a + int_imm n)) k"
| "cbit_instr (MULCBI r0 r1 n) k = on_C r0 r1 (\<lambda>a. Inr (a * int_imm n)) k"
| "cbit_instr (SHRCBI r0 r1 n) k = on_C r0 r1 (\<lambda>a. shift_right a n) k"
| "cbit_instr (SHLCBI r0 r1 n) k = on_C r0 r1 (\<lambda>a. shift_left a n) k"
| "cbit_instr (CONVCINT r0 r1) k = bind_result (vec_read (I_regs k) r1) (\<lambda>a. set_C r0 a k)"
| "cbit_instr (LDMCB n r0 a) k = load_C n r0 a k"
| "cbit_instr (STMCB n r0 a) k = store_C n r0 a k"
| "cbit_instr (LDMCBI n r0 r1) k = bind_result (vec_read (I_regs k) r1) (\<lambda>a. load_C n r0 a k)"
| "cbit_instr (STMCBI n r0 r1) k = bind_result (vec_read (I_regs k) r1) (\<lambda>a. store_C n r0 a k)"
| "cbit_instr (STMSDCI args) k = store_clear_in_dynamic args k"

fun int_instr :: "int_op \<Rightarrow> control \<Rightarrow> control result" where
  "int_instr (LDINT r0 n) k = set_I r0 (int_imm n) k"
| "int_instr (MOVINT r0 r1) k = on_I r0 r1 (\<lambda>a. a) k"
| "int_instr (ADDINT r0 r1 r2) k = on_II r0 r1 r2 (+) k"
| "int_instr (SUBINT r0 r1 r2) k = on_II r0 r1 r2 (-) k"
| "int_instr (MULINT r0 r1 r2) k = on_II r0 r1 r2 (*) k"
| "int_instr (DIVINT r0 r1 r2) k =
    bind_result (vec_read (I_regs k) r1) (\<lambda>a. bind_result (vec_read (I_regs k) r2) (\<lambda>b.
    bind_result (divide_int a b) (\<lambda>x. set_I r0 x k)))"
| "int_instr (EQZC r0 r1) k = on_I r0 r1 (\<lambda>a. of_bool (a = 0)) k"
| "int_instr (LTZC r0 r1) k = on_I r0 r1 (\<lambda>a. of_bool (a <s 0)) k"
| "int_instr (LTC r0 r1 r2) k = on_II r0 r1 r2 (\<lambda>a b. of_bool (a <s b)) k"
| "int_instr (GTC r0 r1 r2) k = on_II r0 r1 r2 (\<lambda>a b. of_bool (b <s a)) k"
| "int_instr (EQC r0 r1 r2) k = on_II r0 r1 r2 (\<lambda>a b. of_bool (a = b)) k"
| "int_instr (LDMINT r0 a) k = load_I r0 a k"
| "int_instr (STMINT r0 a) k = store_I r0 a k"
| "int_instr (LDMINTI r0 r1) k = bind_result (vec_read (I_regs k) r1) (\<lambda>a. load_I r0 a k)"
| "int_instr (STMINTI r0 r1) k = bind_result (vec_read (I_regs k) r1) (\<lambda>a. store_I r0 a k)"
| "int_instr (PUSHINT r0) k = bind_result (vec_read (I_regs k) r0) (\<lambda>x. Inr (pushi x k))"
| "int_instr (POPINT r0) k = bind_result (popi k) (\<lambda>(x, k). set_I r0 x k)"
| "int_instr (BITDECINT regs x) k = bitdecint regs x k"
| "int_instr (LDARG r0) k = set_I r0 (scast (tape_arg k)) k"
| "int_instr (STARG r0) k = bind_result (vec_read (I_regs k) r0) (\<lambda>x. Inr (k\<lparr>tape_arg := ucast x\<rparr>))"
| "int_instr (NPLAYERS r0) k = set_I r0 2 k"
| "int_instr (THRESHOLD r0) k = set_I r0 1 k"

fun print_instr :: "print_op \<Rightarrow> control \<Rightarrow> control result" where
  "print_instr (PRINTCHR n) k = Inr (print_out [Out_bytes [ucast n]] k)"
| "print_instr (PRINTSTR n) k = Inr (print_out [print_str n] k)"
| "print_instr (PRINTINT r0) k = bind_result (vec_read (I_regs k) r0) (\<lambda>x. Inr (print_out [Out_dec (sint x)] k))"
| "print_instr (PRINTREGSIGNED n r0) k = print_reg_signed n r0 k"
| "print_instr (PRINTREGB r0 n m) k = print_reg r0 n m k"
| "print_instr (PRINTREGPLAINB r0) k = bind_result (vec_read (C_regs k) r0) (\<lambda>x. Inr (print_out [Out_hex (uint x)] k))"
| "print_instr (CONDPRINTSTRB r0 n) k = bind_result (vec_read (C_regs k) r0) (\<lambda>x.
    Inr (if x \<noteq> 0 then print_out [print_str n] k else k))"

fun clear_instr :: "instr \<Rightarrow> control \<Rightarrow> control result" where
  "clear_instr (JMP n) k = Inr (jump n k)"
| "clear_instr (JMPNZ r0 n) k = bind_result (vec_read (I_regs k) r0) (\<lambda>a. Inr (if a \<noteq> 0 then jump n k else k))"
| "clear_instr (JMPEQZ r0 n) k = bind_result (vec_read (I_regs k) r0) (\<lambda>a. Inr (if a = 0 then jump n k else k))"
| "clear_instr (JMPI r0) k = bind_result (vec_read (I_regs k) r0) (\<lambda>a. Inr (jump a k))"
| "clear_instr (CRASH r0) k = bind_result (vec_read (I_regs k) r0) (\<lambda>x.
    if x \<noteq> 0 then Inl (runtime_error ''Crash requested by program'') else Inr k)"
| "clear_instr (CBIT op) k = cbit_instr op k"
| "clear_instr (REGINT op) k = int_instr op k"
| "clear_instr (PRINT op) k = print_instr op k"
| "clear_instr _ k = Inr k"

section \<open>Secret registers\<close>

text \<open>\<^verbatim>\<open>YaoWire::xors\<close>: a long instruction is split over the workers, the last part stays with the caller.\<close>

definition yao_xors :: "('a \<Rightarrow> 'a \<Rightarrow> 'a) \<Rightarrow> 'a \<Rightarrow> nat \<Rightarrow> nat list \<Rightarrow> 'a memory \<Rightarrow> 'a memory result" where
  "yao_xors f fresh workers args S =
    (if length args div 4 < 1024 then xors f fresh args 0 (length args) S
     else let batch = length args div 4 div (workers + 1)
       in bind_result (fold_result (\<lambda>S i. xors f fresh args (i * batch * 4) ((i + 1) * batch * 4) S) S [0..<workers])
            (xors f fresh args (workers * batch * 4) (length args)))"

definition movsb :: "nat \<Rightarrow> nat \<Rightarrow> 'a memory \<Rightarrow> 'a memory result" where
  "movsb r0 r1 S = bind_result (vec_read S r1) (\<lambda>ws. vec_write S r0 ws)"

text \<open>
  \<^verbatim>\<open>bitcom\<close> and \<^verbatim>\<open>bitdec\<close> read the registers as they are at that moment, so an operand that is also
  written is seen changed.
\<close>

definition bitcom :: "nat \<Rightarrow> nat list \<Rightarrow> 'a memory \<Rightarrow> 'a memory result" where
  "bitcom x regs S =
    bind_result (vec_write S x []) (\<lambda>S. fold_result (\<lambda>S r.
      bind_result (vec_read S r) (\<lambda>ws.
      if length ws \<noteq> 1 then Inl (runtime_error ''can only compose bits'')
      else bind_result (vec_read S x) (\<lambda>xs. vec_write S x (xs @ ws)))) S regs)"

definition bitdec :: "nat list \<Rightarrow> nat \<Rightarrow> 'a memory \<Rightarrow> 'a memory result" where
  "bitdec regs x S =
    bind_result (vec_read S x) (\<lambda>ws.
    if length ws < length regs then Inl (runtime_error ''not enough bits for bit decomposition'')
    else fold_result (\<lambda>S i.
      bind_result (vec_write S (regs ! i) []) (\<lambda>S.
      bind_result (get_reg S x i) (\<lambda>w. vec_write S (regs ! i) [w]))) S [0..<length regs])"

definition load_clear :: "(bool \<Rightarrow> 'a) \<Rightarrow> 'a \<Rightarrow> nat \<Rightarrow> nat \<Rightarrow> u64 \<Rightarrow> 'a memory \<Rightarrow> 'a memory result" where
  "load_clear pub fresh r n x S =
    (if n < 64 \<and> 2 ^ n < nat \<bar>sint x\<bar> then Inl (runtime_error ''public value too long'')
     else if 64 < n then Inl undefined_access
     else bind_result (resize_reg fresh S r n) (\<lambda>S. fold_result (\<lambda>S i. set_reg S r i (pub (bit x i))) S [0..<n]))"

text \<open>\<^verbatim>\<open>trans\<close>: a wire past the end of its source is a public 0.\<close>

definition trans_wire :: "(bool \<Rightarrow> 'a) \<Rightarrow> nat \<Rightarrow> nat list \<Rightarrow> nat \<Rightarrow> 'a memory \<Rightarrow> nat \<Rightarrow> 'a memory result" where
  "trans_wire pub n_outputs args i S j =
    bind_result (vec_read S (args ! (n_outputs + j) + i div default_length)) (\<lambda>source.
    let dest = args ! i + j div default_length; m = i mod default_length
    in if m < length source
       then bind_result (get_reg S (args ! (n_outputs + j) + i div default_length) m)
              (set_reg S dest (j mod default_length))
       else set_reg S dest (j mod default_length) (pub False))"

definition trans :: "(bool \<Rightarrow> 'a) \<Rightarrow> 'a \<Rightarrow> nat \<Rightarrow> nat list \<Rightarrow> 'a memory \<Rightarrow> 'a memory result" where
  "trans pub fresh n_outputs args S =
    (if length args < n_outputs then Inl undefined_access
     else let n_inputs = length args - n_outputs
       in fold_result (\<lambda>S i.
            bind_result (fold_result (\<lambda>S j. resize_reg fresh S (args ! i + j)
                (min default_length (n_inputs - j * default_length))) S [0..<div_ceil n_inputs default_length])
              (\<lambda>S. fold_result (trans_wire pub n_outputs args i) S [0..<n_inputs])) S [0..<n_outputs])"

text \<open>The instructions on secret registers that need no gate, for the wires of a party.\<close>

fun linear_instr ::
  "('a \<Rightarrow> 'a \<Rightarrow> 'a) \<Rightarrow> 'a \<Rightarrow> (bool \<Rightarrow> 'a) \<Rightarrow> nat \<Rightarrow> secret_op \<Rightarrow> control \<Rightarrow> 'a memory \<Rightarrow> 'a memory result" where
  "linear_instr f fresh pub workers (XORS args) k S = yao_xors f fresh workers args S"
| "linear_instr f fresh pub workers (NOTS n r0 r1) k S = nots f fresh (pub True) n r0 r1 S"
| "linear_instr f fresh pub workers (ANDM n r0 r1 r2) k S = andm pub fresh n r0 r1 r2 (C_regs k) S"
| "linear_instr f fresh pub workers (MOVSB r0 r1) k S = movsb r0 r1 S"
| "linear_instr f fresh pub workers (BITDECS regs x) k S = bitdec regs x S"
| "linear_instr f fresh pub workers (BITCOMS x regs) k S = bitcom x regs S"
| "linear_instr f fresh pub workers (TRANS n args) k S = trans pub fresh n args S"
| "linear_instr f fresh pub workers (LDBITS r0 n x) k S = load_clear pub fresh r0 n (int_imm x) S"
| "linear_instr f fresh pub workers (CONVSINT r0 n r1) k S =
    bind_result (vec_read (I_regs k) r1) (\<lambda>x. load_clear pub fresh r0 n x S)"
| "linear_instr f fresh pub workers (CONVCBIT2S n r0 r1) k S = convcbit2s pub fresh n r0 r1 (C_regs k) S"
| "linear_instr f fresh pub workers (LDMSD args) k S = load_dynamic fresh False args k S"
| "linear_instr f fresh pub workers (LDMSDI args) k S = load_dynamic fresh True args k S"
| "linear_instr f fresh pub workers (STMSD args) k S = store_dynamic False args k S"
| "linear_instr f fresh pub workers (STMSDI args) k S = store_dynamic True args k S"
| "linear_instr f fresh pub workers _ k S = Inr S"

text \<open>
  A party's secret registers and its secret memory, and the instructions that copy between them.
\<close>

type_synonym 'a store = "'a memory \<times> 'a memory"

definition load_S :: "nat \<Rightarrow> nat \<Rightarrow> u64 \<Rightarrow> 'a store \<Rightarrow> 'a store result" where
  "load_S n r0 a = (\<lambda>(S, MS). bind_result (mem_op n S MS r0 (unat a)) (\<lambda>S. Inr (S, MS)))"

definition store_S :: "nat \<Rightarrow> nat \<Rightarrow> u64 \<Rightarrow> 'a store \<Rightarrow> 'a store result" where
  "store_S n r0 a = (\<lambda>(S, MS). bind_result (mem_op n MS S (unat a) r0) (\<lambda>MS. Inr (S, MS)))"

fun memory_instr :: "secret_op \<Rightarrow> control \<Rightarrow> 'a store \<Rightarrow> 'a store result" where
  "memory_instr (LDMSB n r0 a) k M = load_S n r0 a M"
| "memory_instr (STMSB n r0 a) k M = store_S n r0 a M"
| "memory_instr (LDMSBI n r0 r1) k M = bind_result (vec_read (I_regs k) r1) (\<lambda>a. load_S n r0 a M)"
| "memory_instr (STMSBI n r0 r1) k M = bind_result (vec_read (I_regs k) r1) (\<lambda>a. store_S n r0 a M)"
| "memory_instr _ k M = Inr M"

section \<open>The loop\<close>

text \<open>
  What an instruction does: go on, throw \<^verbatim>\<open>needs_cleaning\<close>, or wait for a message that is not there yet.
\<close>

datatype 'a outcome = Next 'a | Cleaning 'a | Blocked

text \<open>The parts of the processor that depend on the type of its wires.\<close>

record 's hooks =
  T_secret :: "instr \<Rightarrow> control \<Rightarrow> 's \<Rightarrow> 's result"
  T_reveal_inst :: "nat list \<Rightarrow> control \<times> 's \<Rightarrow> (control \<times> 's) outcome result"
  T_convcbit :: "nat \<Rightarrow> u64 \<Rightarrow> control \<times> 's \<Rightarrow> (control \<times> 's) outcome result"

text \<open>An AND instruction adds the number of its gates to the complexity.\<close>

definition and_total :: "nat list \<Rightarrow> nat" where
  "and_total args = (\<Sum>q\<leftarrow>quads args. fst q)"

fun instr_complexity :: "instr \<Rightarrow> nat" where
  "instr_complexity (SECRET (ANDS args)) = and_total args"
| "instr_complexity (SECRET (ANDRS args)) = and_total args"
| "instr_complexity _ = 0"

fun gc_step :: "'s hooks \<Rightarrow> instr \<Rightarrow> control \<times> 's \<Rightarrow> (control \<times> 's) outcome result" where
  "gc_step H (REVEAL args) ks = T_reveal_inst H args ks"
| "gc_step H (CONVCBIT r0 r1) ks = bind_result (vec_read (C_regs (fst ks)) r1) (\<lambda>x. T_convcbit H r0 x ks)"
| "gc_step H i (k, s) =
    bind_result (clear_instr i k) (\<lambda>k'. bind_result (T_secret H i k s) (\<lambda>s'.
    Inr (Next (k'\<lparr>complexity := complexity k' + instr_complexity i\<rparr>, s'))))"

datatype BreakType = TIME_BREAK | DONE_BREAK

datatype exec_end = Returned BreakType | Needs_cleaning | Waiting

partial_function (option) exec_loop ::
  "'s hooks \<Rightarrow> instr list \<Rightarrow> nat \<Rightarrow> control \<times> 's \<Rightarrow> (exec_end \<times> control \<times> 's) result option" where
  "exec_loop H p batch ks =
    (if word_of_nat (length p) \<le> pc (fst ks) then Some (Inr (Returned DONE_BREAK, ks))
     else case gc_step H (p ! unat (pc (fst ks))) ((fst ks)\<lparr>pc := pc (fst ks) + 1\<rparr>, snd ks) of
       Inl e \<Rightarrow> Some (Inl e)
     | Inr Blocked \<Rightarrow> Some (Inr (Waiting, ks))
     | Inr (Cleaning ks') \<Rightarrow> Some (Inr (Needs_cleaning, ks'))
     | Inr (Next ks') \<Rightarrow>
         if complexity (fst ks') < batch then exec_loop H p batch ks' else Some (Inr (Returned TIME_BREAK, ks')))"

declare exec_loop.simps [code]

definition gc_execute ::
  "'s hooks \<Rightarrow> instr list \<Rightarrow> nat \<Rightarrow> control \<times> 's \<Rightarrow> (exec_end \<times> control \<times> 's) result option" where
  "gc_execute H p batch = (\<lambda>(k, s). exec_loop H p batch (k\<lparr>complexity := 0\<rparr>, s))"

section \<open>Opening registers\<close>

text \<open>The registers of an opening one by one: bits to reveal, clear register, secret register.\<close>

definition reveal_units :: "nat list \<Rightarrow> (nat \<times> nat \<times> nat) list" where
  "reveal_units args = concat (map (\<lambda>(n, r0, r1).
    map (\<lambda>i. (min 64 (n - i * 64), r0 + i, r1 + i)) [0..<div_ceil n default_length]) (triples args))"

text \<open>\<open>rv\<close> is \<^verbatim>\<open>Secret::reveal\<close> of the party.\<close>

definition processor_reveal ::
  "(nat \<Rightarrow> nat \<Rightarrow> 's \<Rightarrow> (u64 \<times> 's) result) \<Rightarrow> nat list \<Rightarrow> control \<times> 's \<Rightarrow> (control \<times> 's) result" where
  "processor_reveal rv args ks =
    (if length args mod 3 \<noteq> 0 then Inl undefined_access
     else fold_result (\<lambda>(k, s) (n, r0, r1).
       bind_result (rv n r1 s) (\<lambda>(x, s). bind_result (set_C r0 x k) (\<lambda>k. Inr (k, s)))) ks (reveal_units args))"

definition pack_clear :: "nat list \<Rightarrow> control \<Rightarrow> octetStream result" where
  "pack_clear args k =
    fold_result (\<lambda>os (n, r0, r1). bind_result (vec_read (C_regs k) r0) (\<lambda>x. store_int x 8 os))
      empty_stream (reveal_units args)"

definition unpack_clear :: "nat list \<Rightarrow> octetStream \<Rightarrow> control \<Rightarrow> control result" where
  "unpack_clear args buffer k =
    bind_result (fold_result (\<lambda>(k, os) (n, r0, r1).
      bind_result (os_get_int 8 os) (\<lambda>(x, os). bind_result (set_C r0 x k) (\<lambda>k. Inr (k, os))))
      (k, buffer) (reveal_units args)) (\<lambda>(k, os). Inr k)"

section \<open>The garbler\<close>

text \<open>
  What the two parties know beside the program: the hash, the offset, the first gate number of the
  thread, the size of a batch, the threshold and the workers of each party, and the mode.
\<close>

record yao_config =
  cf_hash :: "m128 \<Rightarrow> m128"
  cf_delta :: m128
  cf_base :: u64
  cf_batch :: nat
  cf_threshold :: nat
  cf_jobs :: "prng list"
  cf_workers :: nat
  cf_continuous :: bool

record Garbler_party =
  gp_st :: Garbler_state
  gp_MS :: "m128 memory"
  gp_masks :: "bool list"
  gp_tainted :: bool
  gp_inbox :: "octetStream list"

definition lift_mem :: "('s \<Rightarrow> 'm) \<Rightarrow> ('m \<Rightarrow> 's \<Rightarrow> 's) \<Rightarrow> ('m \<Rightarrow> 'm result) \<Rightarrow> 's \<Rightarrow> 's result" where
  "lift_mem get put f s = bind_result (f (get s)) (\<lambda>m. Inr (put m s))"

fun garble_instr :: "yao_config \<Rightarrow> secret_op \<Rightarrow> control \<Rightarrow> Garbler_state \<Rightarrow> Garbler_state result" where
  "garble_instr cf (ANDS args) k =
    garble_and_multithread (cf_hash cf) (cf_delta cf) (cf_base cf) False (cf_threshold cf) args (cf_jobs cf)"
| "garble_instr cf (ANDRS args) k =
    garble_and_multithread (cf_hash cf) (cf_delta cf) (cf_base cf) True (cf_threshold cf) args (cf_jobs cf)"
| "garble_instr cf (ANDRSVEC args) k = garble_andrsvec (cf_hash cf) (cf_delta cf) args"
| "garble_instr cf i k = lift_mem g_mem (\<lambda>S st. st\<lparr>g_mem := S\<rparr>)
    (linear_instr m128_xor m128_zero (garble_public_input (cf_delta cf)) (length (cf_jobs cf)) i k)"

text \<open>An instruction with its effect on the secret memory.\<close>

fun garble_party_instr :: "yao_config \<Rightarrow> instr \<Rightarrow> control \<Rightarrow> Garbler_party \<Rightarrow> Garbler_party result" where
  "garble_party_instr cf (SECRET op) k g =
    bind_result (garble_instr cf op k (gp_st g)) (\<lambda>st.
    bind_result (memory_instr op k (g_mem st, gp_MS g)) (\<lambda>(S, MS).
    Inr (g\<lparr>gp_st := st\<lparr>g_mem := S\<rparr>, gp_MS := MS\<rparr>)))"
| "garble_party_instr cf _ k g = Inr g"

definition garble_secret_reveal :: "nat \<Rightarrow> nat \<Rightarrow> Garbler_party \<Rightarrow> (u64 \<times> Garbler_party) result" where
  "garble_secret_reveal n r g =
    bind_result (vec_read (g_mem (gp_st g)) r) (\<lambda>ws.
    if length ws < n then Inl (runtime_error ''not enough wires for revealing'')
    else Inr (0, g\<lparr>gp_masks := garble_reveal (take 64 ws) (gp_masks g), gp_tainted := gp_tainted g \<or> ws \<noteq> []\<rparr>))"

text \<open>
  \<^verbatim>\<open>reveal_inst\<close>.  While tainted, the garbler outputs the masks and interrupts the round; run again in the
  next round, untainted, it takes the opened values from the evaluator.  \<^verbatim>\<open>untaint\<close> throws when the party was
  tainted and restores the taint otherwise.
\<close>

definition garble_reveal_inst ::
  "bool \<Rightarrow> nat list \<Rightarrow> control \<times> Garbler_party \<Rightarrow> (control \<times> Garbler_party) outcome result" where
  "garble_reveal_inst continuous args = (\<lambda>(k, g).
    if continuous then
      if gp_tainted g then
        bind_result (processor_reveal garble_secret_reveal args (k, g)) (\<lambda>(k, g).
        Inr (Cleaning (k, g\<lparr>gp_tainted := False\<rparr>)))
      else case gp_inbox g of
        [] \<Rightarrow> Inr Blocked
      | buffer # inbox \<Rightarrow>
          bind_result (unpack_clear args buffer k) (\<lambda>k. Inr (Next (k, g\<lparr>gp_tainted := True, gp_inbox := inbox\<rparr>)))
    else bind_result (processor_reveal garble_secret_reveal args (k, g)) (\<lambda>ks. Inr (Next ks)))"

text \<open>In one-shot mode the number comes as eight bytes.\<close>

definition garble_convcbit ::
  "bool \<Rightarrow> nat \<Rightarrow> u64 \<Rightarrow> control \<times> Garbler_party \<Rightarrow> (control \<times> Garbler_party) outcome result" where
  "garble_convcbit continuous r0 source = (\<lambda>(k, g).
    if continuous then bind_result (set_I r0 source k) (\<lambda>k. Inr (Next (k, g)))
    else if gp_tainted g then Inr (Cleaning (k, g\<lparr>gp_tainted := False\<rparr>))
    else case gp_inbox g of
      [] \<Rightarrow> Inr Blocked
    | buffer # inbox \<Rightarrow>
        bind_result (os_get_int 8 buffer) (\<lambda>(x, os). bind_result (set_I r0 x k) (\<lambda>k.
        Inr (Next (k, g\<lparr>gp_tainted := True, gp_inbox := inbox\<rparr>)))))"

definition garble_hooks :: "yao_config \<Rightarrow> Garbler_party hooks" where
  "garble_hooks cf = \<lparr>T_secret = garble_party_instr cf,
    T_reveal_inst = garble_reveal_inst (cf_continuous cf), T_convcbit = garble_convcbit (cf_continuous cf)\<rparr>"

text \<open>
  One turn of the loop in \<^verbatim>\<open>YaoGarbler::run\<close>: execute, send the gates and the masks, clear them.  After an
  interruption the program counter is set to the same instruction.  A turn that waits for a message is
  run from its start when the message has come.
\<close>

datatype 'a turn = Turn 'a | Must_wait

definition garble_round :: "yao_config \<Rightarrow> instr list \<Rightarrow> control \<times> Garbler_party \<Rightarrow>
    ((control \<times> Garbler_party) \<times> (YaoHalfGate list \<times> bool list) \<times> BreakType) turn result option" where
  "garble_round cf p ks =
    (case gc_execute (garble_hooks cf) p (cf_batch cf) ks of
       None \<Rightarrow> None
     | Some (Inl e) \<Rightarrow> Some (Inl e)
     | Some (Inr (fin, k, g)) \<Rightarrow>
         let msg = (g_gates (gp_st g), gp_masks g);
             g' = g\<lparr>gp_st := (gp_st g)\<lparr>g_gates := []\<rparr>, gp_masks := []\<rparr>
         in case fin of
              Waiting \<Rightarrow> Some (Inr Must_wait)
            | Returned b \<Rightarrow> Some (Inr (Turn ((k, g'), msg, b)))
            | Needs_cleaning \<Rightarrow>
                if cf_continuous cf then Some (Inr (Turn ((k\<lparr>pc := pc k - 1\<rparr>, g'), msg, TIME_BREAK)))
                else Some (Inl (runtime_error ''run-time branching impossible with garbling at once'')))"

section \<open>The evaluator\<close>

record Evaluator_party =
  ep_st :: Evaluator_state
  ep_MS :: "m128 memory"
  ep_masks :: "bool list"
  ep_outbox :: "octetStream list"

fun eval_instr :: "yao_config \<Rightarrow> secret_op \<Rightarrow> control \<Rightarrow> Evaluator_state \<Rightarrow> Evaluator_state result" where
  "eval_instr cf (ANDS args) k = eval_and_multithread (cf_hash cf) (cf_base cf) False args (cf_workers cf)"
| "eval_instr cf (ANDRS args) k = eval_and_multithread (cf_hash cf) (cf_base cf) True args (cf_workers cf)"
| "eval_instr cf (ANDRSVEC args) k = eval_andrsvec (cf_hash cf) args"
| "eval_instr cf (CONVCBIT2S n r0 r1) k =
    lift_mem e_mem (\<lambda>S st. st\<lparr>e_mem := S\<rparr>) (eval_convcbit2s n r0)"
| "eval_instr cf i k = lift_mem e_mem (\<lambda>S st. st\<lparr>e_mem := S\<rparr>)
    (linear_instr m128_xor m128_zero eval_public_input (cf_workers cf) i k)"

fun eval_party_instr :: "yao_config \<Rightarrow> instr \<Rightarrow> control \<Rightarrow> Evaluator_party \<Rightarrow> Evaluator_party result" where
  "eval_party_instr cf (SECRET op) k e =
    bind_result (eval_instr cf op k (ep_st e)) (\<lambda>st.
    bind_result (memory_instr op k (e_mem st, ep_MS e)) (\<lambda>(S, MS).
    Inr (e\<lparr>ep_st := st\<lparr>e_mem := S\<rparr>, ep_MS := MS\<rparr>)))"
| "eval_party_instr cf _ k e = Inr e"

definition eval_secret_reveal :: "nat \<Rightarrow> nat \<Rightarrow> Evaluator_party \<Rightarrow> (u64 \<times> Evaluator_party) result" where
  "eval_secret_reveal n r e =
    bind_result (vec_read (e_mem (ep_st e)) r) (\<lambda>ws.
    bind_result (secret_reveal n ws (ep_masks e)) (\<lambda>(x, masks). Inr (x, e\<lparr>ep_masks := masks\<rparr>)))"

definition eval_reveal_inst ::
  "bool \<Rightarrow> nat list \<Rightarrow> control \<times> Evaluator_party \<Rightarrow> (control \<times> Evaluator_party) outcome result" where
  "eval_reveal_inst continuous args ks =
    bind_result (processor_reveal eval_secret_reveal args ks) (\<lambda>(k, e).
    if continuous then
      bind_result (pack_clear args k) (\<lambda>buffer. Inr (Cleaning (k, e\<lparr>ep_outbox := ep_outbox e @ [buffer]\<rparr>)))
    else Inr (Next (k, e)))"

definition eval_convcbit ::
  "bool \<Rightarrow> nat \<Rightarrow> u64 \<Rightarrow> control \<times> Evaluator_party \<Rightarrow> (control \<times> Evaluator_party) outcome result" where
  "eval_convcbit continuous r0 source = (\<lambda>(k, e).
    bind_result (set_I r0 source k) (\<lambda>k.
    if continuous then Inr (Next (k, e))
    else bind_result (store_int source 8 empty_stream) (\<lambda>buffer.
      Inr (Cleaning (k, e\<lparr>ep_outbox := ep_outbox e @ [buffer]\<rparr>)))))"

definition eval_hooks :: "yao_config \<Rightarrow> Evaluator_party hooks" where
  "eval_hooks cf = \<lparr>T_secret = eval_party_instr cf,
    T_reveal_inst = eval_reveal_inst (cf_continuous cf), T_convcbit = eval_convcbit (cf_continuous cf)\<rparr>"

text \<open>
  One turn of \<^verbatim>\<open>YaoEvaluator::run\<close>: receive the gates and the masks, execute; what was sent to the garbler
  is the result's second part.  An interruption is caught and the loop goes on.
\<close>

definition eval_round :: "yao_config \<Rightarrow> instr list \<Rightarrow> control \<times> Evaluator_party \<Rightarrow> YaoHalfGate list \<times> bool list \<Rightarrow>
    ((control \<times> Evaluator_party) \<times> octetStream list \<times> BreakType) result option" where
  "eval_round cf p = (\<lambda>(k, e) (gates, masks).
    (case gc_execute (eval_hooks cf) p (cf_batch cf)
        (k, e\<lparr>ep_st := (ep_st e)\<lparr>e_gates := gates\<rparr>, ep_masks := masks, ep_outbox := []\<rparr>) of
       None \<Rightarrow> None
     | Some (Inl err) \<Rightarrow> Some (Inl err)
     | Some (Inr (fin, k, e)) \<Rightarrow>
         Some (Inr ((k, e\<lparr>ep_outbox := []\<rparr>), ep_outbox e, case fin of Returned b \<Rightarrow> b | _ \<Rightarrow> TIME_BREAK))))"

section \<open>The program on plain bits\<close>

fun plain_instr :: "secret_op \<Rightarrow> control \<Rightarrow> bool memory \<Rightarrow> bool memory result" where
  "plain_instr (ANDS args) k V = bind_result (check_args args 4) (\<lambda>_. plain_and False args V)"
| "plain_instr (ANDRS args) k V = bind_result (check_args args 4) (\<lambda>_. plain_and True args V)"
| "plain_instr (ANDRSVEC args) k V = plain_andrsvec args V"
| "plain_instr (XORS args) k V = xors (\<noteq>) False args 0 (length args) V"
| "plain_instr i k V = linear_instr (\<noteq>) False id 0 i k V"

fun plain_store_instr :: "instr \<Rightarrow> control \<Rightarrow> bool store \<Rightarrow> bool store result" where
  "plain_store_instr (SECRET op) k V = bind_result (plain_instr op k (fst V)) (\<lambda>S. memory_instr op k (S, snd V))"
| "plain_store_instr _ k V = Inr V"

definition plain_secret_reveal :: "nat \<Rightarrow> nat \<Rightarrow> bool store \<Rightarrow> (u64 \<times> bool store) result" where
  "plain_secret_reveal n r V =
    bind_result (vec_read (fst V) r) (\<lambda>vs.
    if length vs < n then Inl (runtime_error ''not enough wires for revealing'')
    else Inr (horner_sum of_bool 2 (take 64 vs), V))"

definition plain_hooks :: "bool \<Rightarrow> bool store hooks" where
  "plain_hooks continuous = \<lparr>T_secret = plain_store_instr,
    T_reveal_inst = (\<lambda>args ks. bind_result (processor_reveal plain_secret_reveal args ks) (\<lambda>ks.
      Inr (if continuous then Cleaning ks else Next ks))),
    T_convcbit = (\<lambda>r0 x (k, V). bind_result (set_I r0 x k) (\<lambda>k. Inr (Next (k, V))))\<rparr>"

end
