(* ===== verification/Yao_Machine_Correct.thy ===== *)
theory Yao_Machine_Correct
  imports Yao_Machine
begin

text \<open>
  The two parties run the program together: instruction by instruction the garbler holds keys, the evaluator
  the labels of the plain bits, both the same clear and integer registers as the plain run; a round of the
  garbler produces exactly what the evaluator needs for the same round.
\<close>

section \<open>Instructions without gates\<close>

lemma commutes_read_reg [commute]:
  assumes "\<And>gs vs. length gs = length vs \<Longrightarrow> commutes d (G gs) (E (map2 (half_label d) gs vs)) (P vs)"
  shows "commutes d (\<lambda>S. bind_result (vec_read S r) (\<lambda>ws. G ws S)) (\<lambda>S. bind_result (vec_read S r) (\<lambda>ws. E ws S))
    (\<lambda>V. bind_result (vec_read V r) (\<lambda>ws. P ws V))"
proof (rule commutesI)
  fix S :: "m128 memory" and V V'
  assume S: "same_shape S V" and P: "bind_result (vec_read V r) (\<lambda>ws. P ws V) = Inr V'"
  then have r: "r < length V" by (auto simp: vec_read_def split: if_splits)
  note L = same_shapeD [OF S] labels_nth [OF S r] length_labels [OF S]
  have "commutes d (G (S ! r)) (E (labels d S V ! r)) (P (V ! r))"
    using assms [of "S ! r" "V ! r"] L r by simp
  then show "\<exists>S'. bind_result (vec_read S r) (\<lambda>ws. G ws S) = Inr S' \<and> same_shape S' V' \<and>
      bind_result (vec_read (labels d S V) r) (\<lambda>ws. E ws (labels d S V)) = Inr (labels d S' V')"
    using S P r L unfolding commutes_def by simp
qed

lemma commutes_write_reg [commute]:
  assumes "length gs = length vs"
  shows "commutes d (\<lambda>S. vec_write S r gs) (\<lambda>S. vec_write S r (map2 (half_label d) gs vs)) (\<lambda>V. vec_write V r vs)"
proof (rule commutesI)
  fix S :: "m128 memory" and V V'
  assume S: "same_shape S V" and P: "vec_write V r vs = Inr V'"
  then have r: "r < length V" "V' = V[r := vs]" by (auto simp: vec_write_def split: if_splits)
  then show "\<exists>S'. vec_write S r gs = Inr S' \<and> same_shape S' V' \<and>
      vec_write (labels d S V) r (map2 (half_label d) gs vs) = Inr (labels d S' V')"
    using same_shapeD(1) [OF S] length_labels [OF S] labels_update [OF S assms] by simp
qed

lemma commutes_write_one [commute]:
  "half_label d g v = e \<Longrightarrow> commutes d (\<lambda>S. vec_write S r [g]) (\<lambda>S. vec_write S r [e]) (\<lambda>V. vec_write V r [v])"
  using commutes_write_reg [of "[g]" "[v]" d r] by simp

lemma commutes_write_none [commute]: "commutes d (\<lambda>S. vec_write S r []) (\<lambda>S. vec_write S r []) (\<lambda>V. vec_write V r [])"
  using commutes_write_reg [of "[]" "[]" d r] by simp

lemma commutes_movsb: "commutes d (movsb r0 r1) (movsb r0 r1) (movsb r0 r1)"
  unfolding movsb_def by (intro commute)

lemma commutes_bitcom: "commutes d (bitcom x regs) (bitcom x regs) (bitcom x regs)"
proof -
  have *: "commutes d
      (\<lambda>S. if length gs \<noteq> 1 then Inl e else bind_result (vec_read S x) (\<lambda>xs. vec_write S x (xs @ gs)))
      (\<lambda>S. if length (map2 (half_label d) gs vs) \<noteq> 1 then Inl e
        else bind_result (vec_read S x) (\<lambda>xs. vec_write S x (xs @ map2 (half_label d) gs vs)))
      (\<lambda>V. if length vs \<noteq> 1 then Inl e else bind_result (vec_read V x) (\<lambda>xs. vec_write V x (xs @ vs)))"
    if "length gs = length vs" for gs vs e
  proof -
    have "commutes d (\<lambda>S. vec_write S x (xs @ gs)) (\<lambda>S. vec_write S x (map2 (half_label d) xs ys @ map2 (half_label d) gs vs))
        (\<lambda>V. vec_write V x (ys @ vs))" if "length xs = length ys" for xs ys
      using commutes_write_reg [of "xs @ gs" "ys @ vs" d x] that \<open>length gs = length vs\<close> by simp
    then show ?thesis
      unfolding length_map length_zip that min.idem by (intro commute)
  qed
  show ?thesis unfolding bitcom_def by (intro commutes_bind commutes_write_none commutes_fold commutes_read_reg *)
qed

lemma commutes_bitdec: "commutes d (bitdec regs x) (bitdec regs x) (bitdec regs x)"
proof -
  have *: "commutes d (\<lambda>S. if length gs < n then Inl e else G S)
      (\<lambda>S. if length (map2 (half_label d) gs vs) < n then Inl e else E S) (\<lambda>V. if length vs < n then Inl e else P V)"
    if "commutes d G E P" "length gs = length vs" for gs vs n e G E P
    unfolding length_map length_zip that(2) min.idem by (intro commute that(1))
  show ?thesis unfolding bitdec_def
    by (intro commutes_read_reg * commutes_fold commutes_bind commutes_write_none commutes_get commutes_write_one refl)
qed

lemma commutes_load_clear:
  "commutes d (load_clear (garble_public_input d) m128_zero r n x) (load_clear eval_public_input m128_zero r n x)
    (load_clear id False r n x)"
  unfolding load_clear_def id_apply by (intro commute public_labels)

lemma commutes_trans:
  "commutes d (trans (garble_public_input d) m128_zero n args) (trans eval_public_input m128_zero n args) (trans id False n args)"
proof -
  have *: "commutes d (\<lambda>S. if m < length gs then G S else G' S) (\<lambda>S. if m < length (map2 (half_label d) gs vs) then E S else E' S)
      (\<lambda>V. if m < length vs then P V else P' V)"
    if "commutes d G E P" "commutes d G' E' P'" "length gs = length vs" for gs vs m G E P G' E' P'
    unfolding length_map length_zip that(3) min.idem by (intro commutes_if that)
  have "commutes d (\<lambda>S. trans_wire (garble_public_input d) n args i S j)
      (\<lambda>S. trans_wire eval_public_input n args i S j) (\<lambda>V. trans_wire id n args i V j)" for i j
    unfolding trans_wire_def Let_def id_apply
    by (intro commutes_read_reg * commutes_get commutes_set public_labels refl)
  then show ?thesis unfolding trans_def Let_def by (intro commute)
qed

text \<open>Splitting an exclusive or over workers changes nothing.\<close>

lemma bind_result_assoc: "bind_result (bind_result r f) g = bind_result r (\<lambda>x. bind_result (f x) g)"
  by (cases r) auto

lemma xors_join:
  assumes "a mod 4 = 0" "b mod 4 = 0" "c mod 4 = 0" "a < b" "b < c" "c \<le> length args"
  shows "bind_result (xors f fresh args a b S) (xors f fresh args b c) = xors f fresh args a c S"
proof -
  have "drop a (take c args) = drop a (take b args) @ drop b (take c args)"
    using assms(4-6) by (metis append_take_drop_id drop_append length_take diff_is_0_eq drop_0 less_or_eq_imp_le
        min.absorb2 order.trans take_take min.absorb1)
  moreover have "length (drop a (take b args)) mod 4 = 0"
    using assms by (simp add: mod_eq_0_iff_dvd dvd_diff_nat)
  ultimately have "quads (drop a (take c args)) = quads (drop a (take b args)) @ quads (drop b (take c args))"
    by (simp add: quads_append)
  then show ?thesis
    using assms unfolding xors_def [abs_def] by (simp add: fold_result_append)
qed

lemma xors_parts:
  assumes "0 < batch" "(w + 1) * batch * 4 \<le> length args"
  shows "fold_result (\<lambda>S i. xors f fresh args (i * batch * 4) ((i + 1) * batch * 4) S) S [0..<w + 1] =
    xors f fresh args 0 ((w + 1) * batch * 4) S"
  using assms(2)
proof (induction w)
  case (Suc w)
  have "fold_result (\<lambda>S i. xors f fresh args (i * batch * 4) ((i + 1) * batch * 4) S) S [0..<Suc w + 1] =
      bind_result (fold_result (\<lambda>S i. xors f fresh args (i * batch * 4) ((i + 1) * batch * 4) S) S [0..<w + 1])
        (xors f fresh args ((w + 1) * batch * 4) ((w + 2) * batch * 4))"
    by (simp add: fold_result_append bind_result_assoc)
  also have "\<dots> = bind_result (xors f fresh args 0 ((w + 1) * batch * 4) S)
      (xors f fresh args ((w + 1) * batch * 4) ((w + 2) * batch * 4))"
    using Suc by (simp add: bind_result_assoc)
  also have "\<dots> = xors f fresh args 0 ((w + 2) * batch * 4) S"
    by (rule xors_join) (use Suc.prems assms(1) in simp_all)
  finally show ?case by simp
qed simp

lemma yao_xors_eq:
  assumes "length args mod 4 = 0" "length args div 4 < 1024 \<or> workers < length args div 4"
  shows "yao_xors f fresh workers args S = xors f fresh args 0 (length args) S"
proof (cases "length args div 4 < 1024 \<or> workers = 0")
  case True
  then show ?thesis by (auto simp: yao_xors_def Let_def)
next
  case False
  define batch where "batch = length args div 4 div (workers + 1)"
  have le: "(workers + 1) * batch \<le> length args div 4" unfolding batch_def by (metis div_times_less_eq_dividend mult.commute)
  have pos: "0 < batch" using assms(2) False by (simp add: batch_def div_greater_zero_iff)
  have total: "length args div 4 * 4 = length args" using assms(1) by auto
  have lt: "workers * batch * 4 < length args" "(workers - 1 + 1) * batch * 4 \<le> length args"
    using le pos total False by (auto simp: algebra_simps)
  have w: "workers - 1 + 1 = workers" using False by simp
  have "fold_result (\<lambda>S i. xors f fresh args (i * batch * 4) ((i + 1) * batch * 4) S) S [0..<workers] =
      xors f fresh args 0 (workers * batch * 4) S"
    using xors_parts [OF pos lt(2), of f fresh S] unfolding w .
  moreover have "bind_result (xors f fresh args 0 (workers * batch * 4) S) (xors f fresh args (workers * batch * 4) (length args)) =
      xors f fresh args 0 (length args) S"
    by (rule xors_join) (use lt assms(1) pos False in simp_all)
  ultimately show ?thesis using False by (simp add: yao_xors_def Let_def batch_def)
qed

lemma commutes_yao_xors:
  assumes "length args div 4 < 1024 \<or> w1 < length args div 4 \<and> w2 < length args div 4"
  shows "commutes d (yao_xors m128_xor m128_zero w1 args) (yao_xors m128_xor m128_zero w2 args)
    (xors (\<noteq>) False args 0 (length args))"
proof (cases "length args mod 4 = 0")
  case True
  then have "yao_xors m128_xor m128_zero w args = xors m128_xor m128_zero args 0 (length args)" if "w = w1 \<or> w = w2" for w
    using assms that by (intro ext yao_xors_eq) auto
  then show ?thesis using commutes_xors [of d args 0 "length args"] by simp
next
  case False
  then show ?thesis by (simp add: commutes_def xors_def)
qed


section \<open>Instructions on secret registers\<close>

text \<open>
  What the correctness of a program needs of its instructions: no AND writes one of its inputs, no \<^verbatim>\<open>andrs\<close>
  is longer than a register, AND instructions stay below the thresholds for worker threads, an exclusive or
  that is split has more parts than workers, and an opening fits into a message.
\<close>

fun instr_ok :: "yao_config \<Rightarrow> instr \<Rightarrow> bool" where
  "instr_ok cf (SECRET (ANDS args)) \<longleftrightarrow> args_disjoint False args \<and> and_total args < 1024 \<and> and_total args < cf_threshold cf"
| "instr_ok cf (SECRET (ANDRS args)) \<longleftrightarrow> args_disjoint True args \<and> args_single_unit args \<and>
    and_total args < 1024 \<and> and_total args < cf_threshold cf"
| "instr_ok cf (SECRET (XORS args)) \<longleftrightarrow> length args div 4 < 1024 \<or>
    length (cf_jobs cf) < length args div 4 \<and> cf_workers cf < length args div 4"
| "instr_ok cf (REVEAL args) \<longleftrightarrow> length (reveal_units args) < 2 ^ 60"
| "instr_ok cf _ \<longleftrightarrow> True"

lemma steps_of_commutes:
  assumes "commutes d G E P" "same_shape S V" "P V = Inr V'"
  shows "\<exists>S' gs. steps d (lift_mem g_mem (\<lambda>S st. st\<lparr>g_mem := S\<rparr>) G) (lift_mem e_mem (\<lambda>S st. st\<lparr>e_mem := S\<rparr>) E) S V c S' V' gs"
proof -
  obtain S' where "G S = Inr S'" "same_shape S' V'" "E (labels d S V) = Inr (labels d S' V')"
    by (rule commutesD [OF assms])
  then have "steps d (lift_mem g_mem (\<lambda>S st. st\<lparr>g_mem := S\<rparr>) G) (lift_mem e_mem (\<lambda>S st. st\<lparr>e_mem := S\<rparr>) E) S V c S' V' []"
    by (simp add: steps_def lift_mem_def)
  then show ?thesis by blast
qed

lemma and_instr_steps:
  assumes "get_signal d" "args_disjoint repeat args" "repeat \<Longrightarrow> args_single_unit args"
    and "and_total args < 1024" "and_total args < threshold"
    and "same_shape S V" "bind_result (check_args args 4) (\<lambda>_. plain_and repeat args V) = Inr V'"
  shows "\<exists>S' gs. steps d (garble_and_multithread h d base repeat threshold args jobs)
    (eval_and_multithread h base repeat args workers) S V c S' V' gs"
proof -
  obtain total where total: "check_args args 4 = Inr total" "plain_and repeat args V = Inr V'"
    using assms(7) by (auto simp: bind_result_Inr_iff)
  then have len: "length args mod 4 = 0" and eq: "total = and_total args"
    by (simp_all add: check_args_total and_total_def)
  obtain S' gs where "steps d (garble_and_singlethread h d base repeat args)
      (eval_and_singlethread h base repeat args) S V c S' V' gs"
    using and_singlethread_steps [OF assms(1) len assms(2,3,6) total(2)] by blast
  moreover have "garble_and_multithread h d base repeat threshold args jobs = garble_and_singlethread h d base repeat args"
    "eval_and_multithread h base repeat args workers = eval_and_singlethread h base repeat args"
    using assms(4,5) total eq by (auto simp: garble_and_multithread_def eval_and_multithread_def fun_eq_iff)
  ultimately show ?thesis by auto
qed

lemma load_dynamic_fails: "load_dynamic fresh b args k S \<noteq> Inr x"
  by (auto simp: load_dynamic_def bind_result_Inr_iff)

lemma store_dynamic_fails: "store_dynamic b args k S \<noteq> Inr x"
  by (auto simp: store_dynamic_def bind_result_Inr_iff)

lemma instr_steps:
  assumes d: "get_signal (cf_delta cf)" and ok: "instr_ok cf (SECRET i)" and S: "same_shape S V" and P: "plain_instr i k V = Inr V'"
  shows "\<exists>S' gs. steps (cf_delta cf) (garble_instr cf i k) (eval_instr cf i k) S V c S' V' gs"
proof (cases i)
  case (ANDS args)
  then show ?thesis using and_instr_steps [OF d _ _ _ _ S] ok P by simp
next
  case (ANDRS args)
  then show ?thesis using and_instr_steps [OF d _ _ _ _ S] ok P by simp
next
  case (ANDRSVEC args)
  then show ?thesis using sim_andrsvec [OF d, of "cf_hash cf" args] S P unfolding sim_def by auto
next
  case (XORS args)
  then have "commutes (cf_delta cf) (yao_xors m128_xor m128_zero (length (cf_jobs cf)) args)
      (yao_xors m128_xor m128_zero (cf_workers cf) args) (xors (\<noteq>) False args 0 (length args))"
    using ok by (intro commutes_yao_xors) auto
  from steps_of_commutes [OF this S] show ?thesis using XORS P by (simp add: lift_mem_def [abs_def])
next
  case (NOTS n r0 r1)
  then show ?thesis using steps_of_commutes [OF commutes_nots S] P by (simp add: lift_mem_def [abs_def])
next
  case (ANDM n r0 r1 r2)
  then show ?thesis using steps_of_commutes [OF commutes_andm S] P by (simp add: lift_mem_def [abs_def])
next
  case (MOVSB r0 r1)
  then show ?thesis using steps_of_commutes [OF commutes_movsb S] P by (simp add: lift_mem_def [abs_def])
next
  case (BITDECS regs x)
  then show ?thesis using steps_of_commutes [OF commutes_bitdec S] P by (simp add: lift_mem_def [abs_def])
next
  case (BITCOMS x regs)
  then show ?thesis using steps_of_commutes [OF commutes_bitcom S] P by (simp add: lift_mem_def [abs_def])
next
  case (TRANS n args)
  then show ?thesis using steps_of_commutes [OF commutes_trans S] P by (simp add: lift_mem_def [abs_def])
next
  case (LDBITS r0 n x)
  then show ?thesis using steps_of_commutes [OF commutes_load_clear S] P by (simp add: lift_mem_def [abs_def])
next
  case (CONVSINT r0 n r1)
  have "commutes (cf_delta cf)
      (\<lambda>S. bind_result (vec_read (I_regs k) r1) (\<lambda>x. load_clear (garble_public_input (cf_delta cf)) m128_zero r0 n x S))
      (\<lambda>S. bind_result (vec_read (I_regs k) r1) (\<lambda>x. load_clear eval_public_input m128_zero r0 n x S))
      (\<lambda>V. bind_result (vec_read (I_regs k) r1) (\<lambda>x. load_clear id False r0 n x V))"
    by (intro commutes_read commutes_load_clear)
  from steps_of_commutes [OF this S] show ?thesis using CONVSINT P by (simp add: lift_mem_def [abs_def])
next
  case (CONVCBIT2S n r0 r1)
  then show ?thesis using steps_of_commutes [OF commutes_convcbit2s S] P by (simp add: lift_mem_def [abs_def])
qed (use steps_of_commutes [OF commutes_return S] P in
    \<open>simp_all add: lift_mem_def [abs_def] load_dynamic_fails store_dynamic_fails\<close>)

text \<open>Registers and memory of a party together.\<close>

definition same_store :: "'a store \<Rightarrow> 'b store \<Rightarrow> bool" where
  "same_store S V \<longleftrightarrow> same_shape (fst S) (fst V) \<and> same_shape (snd S) (snd V)"

definition store_labels :: "m128 \<Rightarrow> m128 store \<Rightarrow> bool store \<Rightarrow> m128 store" where
  "store_labels d S V = (labels d (fst S) (fst V), labels d (snd S) (snd V))"

lemma store_labels_sel:
  "fst (store_labels d S V) = labels d (fst S) (fst V)" "snd (store_labels d S V) = labels d (snd S) (snd V)"
  by (simp_all add: store_labels_def)

lemma mem_op_labels:
  assumes "same_shape D W" "same_shape S V" "mem_op n W V a b = Inr W'"
  shows "\<exists>D'. mem_op n D S a b = Inr D' \<and> same_shape D' W' \<and> mem_op n (labels d D W) (labels d S V) a b = Inr (labels d D' W')"
  using assms(1,3) unfolding mem_op_def
proof (induction n arbitrary: W')
  case 0
  then show ?case by simp
next
  case (Suc m)
  obtain W1 where W1: "fold_result (\<lambda>dest i. bind_result (vec_read V (b + i)) (vec_write dest (a + i))) W [0..<m] = Inr W1"
      "bind_result (vec_read V (b + m)) (vec_write W1 (a + m)) = Inr W'"
    using Suc.prems(2) by (auto simp: fold_result_append bind_result_Inr_iff)
  obtain D1 where D1: "fold_result (\<lambda>dest i. bind_result (vec_read S (b + i)) (vec_write dest (a + i))) D [0..<m] = Inr D1"
      "same_shape D1 W1"
      "fold_result (\<lambda>dest i. bind_result (vec_read (labels d S V) (b + i)) (vec_write dest (a + i))) (labels d D W) [0..<m] =
        Inr (labels d D1 W1)"
    using Suc.IH [OF Suc.prems(1) W1(1)] by blast
  have r: "b + m < length V" "a + m < length W1" "W' = W1[a + m := V ! (b + m)]"
    using W1(2) by (auto simp: bind_result_Inr_iff vec_read_def vec_write_def split: if_splits)
  note L = same_shapeD [OF assms(2)] same_shapeD(1) [OF D1(2)] length_labels [OF assms(2)] length_labels [OF D1(2)]
    labels_nth [OF assms(2) r(1)] labels_update [OF D1(2), of "S ! (b + m)" "V ! (b + m)"]
  show ?case
    using D1 r L by (intro exI [of _ "D1[a + m := S ! (b + m)]"]) (simp add: fold_result_append)
qed

lemma memory_instr_labels:
  assumes S: "same_store S V" and P: "memory_instr i k V = Inr V'"
  shows "\<exists>S'. memory_instr i k S = Inr S' \<and> same_store S' V' \<and>
    memory_instr i k (store_labels d S V) = Inr (store_labels d S' V')"
proof -
  obtain R M W X where SV: "S = (R, M)" "V = (W, X)" by (cases S; cases V)
  then have sh: "same_shape R W" "same_shape M X" using S by (simp_all add: same_store_def)
  have load: "\<exists>S'. load_S n r0 a S = Inr S' \<and> same_store S' V' \<and> load_S n r0 a (store_labels d S V) = Inr (store_labels d S' V')"
    if V': "load_S n r0 a V = Inr V'" for n r0 a
  proof -
    obtain W' where W': "mem_op n W X r0 (unat a) = Inr W'" "V' = (W', X)"
      using V' by (auto simp: SV load_S_def bind_result_Inr_iff)
    from mem_op_labels [OF sh W'(1), of d] show ?thesis
      using sh(2) W'(2) by (auto simp: SV load_S_def same_store_def store_labels_def)
  qed
  have store: "\<exists>S'. store_S n r0 a S = Inr S' \<and> same_store S' V' \<and> store_S n r0 a (store_labels d S V) = Inr (store_labels d S' V')"
    if V': "store_S n r0 a V = Inr V'" for n r0 a
  proof -
    obtain X' where X': "mem_op n X W (unat a) r0 = Inr X'" "V' = (W, X')"
      using V' by (auto simp: SV store_S_def bind_result_Inr_iff)
    from mem_op_labels [OF sh(2,1) X'(1), of d] show ?thesis
      using sh(1) X'(2) by (auto simp: SV store_S_def same_store_def store_labels_def)
  qed
  show ?thesis
    using P S load store by (cases i) (auto simp: bind_result_Inr_iff)
qed


section \<open>Openings\<close>

text \<open>Words stored in a fresh buffer are read from it one after the other.\<close>

lemma store_word:
  assumes "writable w" "bits_n (os_wbits w) = 0"
  shows "\<exists>m. store_int x 8 w = Inr (w\<lparr>os_data := os_data w @ le_bytes 8 x, os_mxlen := m\<rparr>)"
proof -
  have "encode_length x 8 = Inr (le_bytes 8 x)" using encode_small(1) [of 8 x] unsigned_less [of x] by simp
  then show ?thesis using append_ok [OF assms(1), of "le_bytes 8 x"] assms(2) by (auto simp: store_int_def flushed_def)
qed

lemma store_words_data:
  assumes "writable w" "bits_n (os_wbits w) = 0"
  shows "\<exists>m. fold_result (\<lambda>w x. store_int x 8 w) w xs =
    Inr (w\<lparr>os_data := os_data w @ concat (map (le_bytes 8) xs), os_mxlen := m\<rparr>)"
  using assms
proof (induction xs arbitrary: w)
  case Nil
  then show ?case by (intro exI [of _ "os_mxlen w"]) simp
next
  case (Cons x xs)
  obtain m where m: "store_int x 8 w = Inr (w\<lparr>os_data := os_data w @ le_bytes 8 x, os_mxlen := m\<rparr>)" (is "_ = Inr ?w")
    using store_word [OF Cons.prems] by blast
  have "writable ?w" using os_word.put_get [OF _ Cons.prems(1), of x] m by auto
  then obtain m' where "fold_result (\<lambda>w x. store_int x 8 w) ?w xs =
      Inr (?w\<lparr>os_data := os_data ?w @ concat (map (le_bytes 8) xs), os_mxlen := m'\<rparr>)"
    using Cons.IH [of ?w] Cons.prems(2) by auto
  then show ?case using m by auto
qed

lemma length_concat_bytes: "length (concat (map (le_bytes 8) xs)) = 8 * length xs"
  by (induction xs) simp_all

lemma words_roundtrip:
  assumes "length xs < 2 ^ 60"
  shows "\<exists>w r. fold_result (\<lambda>w x. store_int x 8 w) empty_stream xs = Inr w \<and>
    get_items (os_get_int 8) (length xs) w = Inr (xs, r)"
proof -
  obtain m where m: "fold_result (\<lambda>w x. store_int x 8 w) empty_stream xs =
      Inr (empty_stream\<lparr>os_data := concat (map (le_bytes 8) xs), os_mxlen := m\<rparr>)" (is "_ = Inr ?w")
    using store_words_data [OF writable_empty] by (auto simp: empty_stream_def)
  then have "delivers empty_stream ?w (get_items (os_get_int 8) (length xs)) xs"
    using os_word.items [OF _ writable_empty(1), of xs] by auto
  then have "\<exists>r. get_items (os_get_int 8) (length xs) ?w = Inr (xs, r)"
    by (rule fresh_delivers) (use assms in \<open>simp_all add: empty_stream_def no_bits_def length_concat_bytes del: length_concat\<close>)
  then show ?thesis using m by blast
qed

lemma unpack_items:
  "get_items (os_get_int 8) (length us) os = Inr (xs, os') \<Longrightarrow>
    fold_result (\<lambda>(k, os) (n, r0, r1). bind_result (os_get_int 8 os) (\<lambda>(x, os). bind_result (set_C r0 x k) (\<lambda>k. Inr (k, os))))
      (k, os) us =
    bind_result (fold_result (\<lambda>k (r0, x). set_C r0 x k) k (zip (map (\<lambda>(n, r0, r1). r0) us) xs)) (\<lambda>k. Inr (k, os'))"
proof (induction us arbitrary: k os xs)
  case (Cons u us)
  obtain x os1 xs1 where x: "os_get_int 8 os = Inr (x, os1)" "get_items (os_get_int 8) (length us) os1 = Inr (xs1, os')"
      "xs = x # xs1"
    using Cons.prems by (auto simp: bind_result_Inr_iff)
  obtain n r0 r1 where u: "u = (n, r0, r1)" by (cases u)
  show ?case using x Cons.IH [OF x(2)] by (cases "set_C r0 x k") (simp_all add: u)
qed simp

text \<open>Clear registers that agree outside a set of registers.\<close>

definition agree :: "nat set \<Rightarrow> u64 list \<Rightarrow> u64 list \<Rightarrow> bool" where
  "agree X C D \<longleftrightarrow> length D = length C \<and> (\<forall>i < length C. i \<notin> X \<longrightarrow> D ! i = C ! i)"

lemma agree_write: "agree X C D \<Longrightarrow> agree (insert r X) (C[r := x]) (D[r := y])"
  by (auto simp: agree_def nth_list_update)

lemma agree_eq: "agree {} C D \<Longrightarrow> D = C"
  by (simp add: agree_def list_eq_iff_nth_eq)

lemma rewrite_registers:
  assumes "agree (set rs) C D" "\<forall>r \<in> set rs. r < length C"
  shows "fold_result (\<lambda>k (r0, x). set_C r0 x k) (k\<lparr>C_regs := D\<rparr>) (zip rs (map ((!) C) rs)) = Inr (k\<lparr>C_regs := C\<rparr>)"
  using assms
proof (induction rs arbitrary: D)
  case Nil
  then show ?case using agree_eq by simp
next
  case (Cons r rs)
  then have "agree (set rs) C (D[r := C ! r])" "r < length D"
    by (auto simp: agree_def nth_list_update)
  then show ?case using Cons.IH Cons.prems(2) by (simp add: set_C_def)
qed


abbreviation gpt :: "m128 store \<Rightarrow> YaoHalfGate list \<Rightarrow> u64 \<Rightarrow> prng \<Rightarrow> bool list \<Rightarrow> bool \<Rightarrow> octetStream list \<Rightarrow> Garbler_party" where
  "gpt S gs c p ms t inbox \<equiv> \<lparr>gp_st = gst (fst S) gs c p, gp_MS = snd S, gp_masks = ms, gp_tainted = t, gp_inbox = inbox\<rparr>"

abbreviation ept :: "m128 store \<Rightarrow> YaoHalfGate list \<Rightarrow> u64 \<Rightarrow> bool list \<Rightarrow> octetStream list \<Rightarrow> Evaluator_party" where
  "ept S gs c ms out \<equiv> \<lparr>ep_st = est (fst S) gs c, ep_MS = snd S, ep_masks = ms, ep_outbox = out\<rparr>"

text \<open>One register: the garbler's masks are the signals of its keys, the evaluator computes the plain word.\<close>

lemma secret_reveal_sim:
  assumes d: "get_signal d" and S: "same_store S V" and P: "plain_secret_reveal n r V = Inr (x, V')"
  shows "V' = V" "\<exists>ms.
    (\<forall>gs c p ms0 inbox. garble_secret_reveal n r (gpt S gs c p ms0 True inbox) = Inr (0, gpt S gs c p (ms0 @ ms) True inbox)) \<and>
    (\<forall>gs c rm out. eval_secret_reveal n r (ept (store_labels d S V) gs c (ms @ rm) out) = Inr (x, ept (store_labels d S V) gs c rm out))"
proof -
  have r: "r < length (fst V)" "n \<le> length (fst V ! r)" "x = horner_sum of_bool 2 (take 64 (fst V ! r))" "V' = V"
    using P by (auto simp: plain_secret_reveal_def bind_result_Inr_iff vec_read_def split: if_splits)
  let ?gs = "take 64 (fst S ! r)" and ?vs = "take 64 (fst V ! r)"
  have S1: "same_shape (fst S) (fst V)" using S by (simp add: same_store_def)
  note L = same_shapeD [OF S1] length_labels [OF S1] labels_nth [OF S1 r(1)]
  have take: "take 64 (labels d (fst S) (fst V) ! r) = map2 (half_label d) ?gs ?vs"
    using L by (simp add: take_map take_zip)
  have len: "length ?gs = length ?vs" "0 + length ?vs \<le> 64" using L r(1) by simp_all
  have E: "eval_secret_reveal n r (ept (store_labels d S V) gs c (map get_signal ?gs @ rm) out) = Inr (x, ept (store_labels d S V) gs c rm out)"
    for gs c rm out
  proof -
    obtain w where w: "eval_reveal (map2 (half_label d) ?gs ?vs) 0 0 (map get_signal ?gs @ rm) = Inr (w, rm)"
        "\<forall>k < 64. bit w k = (bit (0 :: u64) k \<noteq> (0 \<le> k \<and> k < 0 + length ?vs \<and> ?vs ! (k - 0)))"
      using eval_reveal_bits [OF d len, of 0 rm] by blast
    have "w = x" unfolding r(3)
      by (rule bit_word_eqI) (use w(2) in \<open>auto simp: bit_horner_sum_bit_word_iff\<close>)
    then show ?thesis
      using w(1) take L r(1,2) by (simp add: eval_secret_reveal_def secret_reveal_def store_labels_sel)
  qed
  show "V' = V" by (fact r(4))
  show "\<exists>ms.
    (\<forall>gs c p ms0 inbox. garble_secret_reveal n r (gpt S gs c p ms0 True inbox) = Inr (0, gpt S gs c p (ms0 @ ms) True inbox)) \<and>
    (\<forall>gs c rm out. eval_secret_reveal n r (ept (store_labels d S V) gs c (ms @ rm) out) = Inr (x, ept (store_labels d S V) gs c rm out))"
    using E L r by (intro exI [of _ "map get_signal ?gs"]) (simp add: garble_secret_reveal_def garble_reveal_map)
qed

abbreviation reveal_list ::
  "(nat \<Rightarrow> nat \<Rightarrow> 's \<Rightarrow> (u64 \<times> 's) result) \<Rightarrow> control \<times> 's \<Rightarrow> (nat \<times> nat \<times> nat) list \<Rightarrow> (control \<times> 's) result" where
  "reveal_list rv \<equiv> fold_result (\<lambda>(k, s) (n, r0, r1).
    bind_result (rv n r1 s) (\<lambda>(x, s). bind_result (set_C r0 x k) (\<lambda>k. Inr (k, s))))"

lemma reveal_list_sim:
  assumes d: "get_signal d" and S: "same_store S V"
  shows "reveal_list plain_secret_reveal (k, V) us = Inr (k', V') \<Longrightarrow> agree X (C_regs k) D \<Longrightarrow>
    V' = V \<and> k' = k\<lparr>C_regs := C_regs k'\<rparr> \<and> length (C_regs k') = length (C_regs k) \<and>
    (\<forall>u \<in> set us. fst (snd u) < length (C_regs k)) \<and>
    (\<exists>ms D'. agree (X \<union> set (map (\<lambda>(n, r0, r1). r0) us)) (C_regs k') D' \<and>
      (\<forall>gs c p ms0 inbox. reveal_list garble_secret_reveal (k\<lparr>C_regs := D\<rparr>, gpt S gs c p ms0 True inbox) us =
        Inr (k\<lparr>C_regs := D'\<rparr>, gpt S gs c p (ms0 @ ms) True inbox)) \<and>
      (\<forall>gs c rm out. reveal_list eval_secret_reveal (k, ept (store_labels d S V) gs c (ms @ rm) out) us =
        Inr (k', ept (store_labels d S V) gs c rm out)))"
proof (induction us arbitrary: k D X)
  case Nil
  then show ?case by (intro conjI exI [of _ "[]"] exI [of _ D]) auto
next
  case (Cons u us)
  obtain n r0 r1 where u: "u = (n, r0, r1)" by (cases u)
  obtain x V1 k1 where x: "plain_secret_reveal n r1 V = Inr (x, V1)" "set_C r0 x k = Inr k1"
      "reveal_list plain_secret_reveal (k1, V1) us = Inr (k', V')"
    using Cons.prems(1) by (auto simp: u bind_result_Inr_iff)
  have V1: "V1 = V" by (rule secret_reveal_sim(1) [OF d S x(1)])
  obtain ms1 where ms1:
      "\<And>gs c p ms0 inbox. garble_secret_reveal n r1 (gpt S gs c p ms0 True inbox) = Inr (0, gpt S gs c p (ms0 @ ms1) True inbox)"
      "\<And>gs c rm out. eval_secret_reveal n r1 (ept (store_labels d S V) gs c (ms1 @ rm) out) = Inr (x, ept (store_labels d S V) gs c rm out)"
    using secret_reveal_sim(2) [OF d S x(1)] by blast
  have k1: "r0 < length (C_regs k)" "k1 = k\<lparr>C_regs := (C_regs k)[r0 := x]\<rparr>"
    using x(2) by (auto simp: set_C_def bind_result_Inr_iff vec_write_def split: if_splits)
  have r0: "r0 < length D" using Cons.prems(2) k1(1) by (simp add: agree_def)
  have "agree (insert r0 X) (C_regs k1) (D[r0 := 0])" using agree_write [OF Cons.prems(2)] k1(2) by simp
  from Cons.IH [OF x(3) [unfolded V1] this] obtain ms D' where IH: "V' = V" "k' = k1\<lparr>C_regs := C_regs k'\<rparr>"
      "length (C_regs k') = length (C_regs k1)" "\<forall>u \<in> set us. fst (snd u) < length (C_regs k1)"
      "agree (insert r0 X \<union> set (map (\<lambda>(n, r0, r1). r0) us)) (C_regs k') D'"
      "\<And>gs c p ms0 inbox. reveal_list garble_secret_reveal (k1\<lparr>C_regs := D[r0 := 0]\<rparr>, gpt S gs c p ms0 True inbox) us =
        Inr (k1\<lparr>C_regs := D'\<rparr>, gpt S gs c p (ms0 @ ms) True inbox)"
      "\<And>gs c rm out. reveal_list eval_secret_reveal (k1, ept (store_labels d S V) gs c (ms @ rm) out) us =
        Inr (k', ept (store_labels d S V) gs c rm out)"
    by blast
  have "set_C r0 0 (k\<lparr>C_regs := D\<rparr>) = Inr (k1\<lparr>C_regs := D[r0 := 0]\<rparr>)"
    using r0 k1(2) by (simp add: set_C_def)
  then have G: "reveal_list garble_secret_reveal (k\<lparr>C_regs := D\<rparr>, gpt S gs c p ms0 True inbox) (u # us) =
      Inr (k\<lparr>C_regs := D'\<rparr>, gpt S gs c p (ms0 @ ms1 @ ms) True inbox)" for gs c p ms0 inbox
    using ms1(1) IH(6) k1(2) by (simp add: u)
  have E: "reveal_list eval_secret_reveal (k, ept (store_labels d S V) gs c ((ms1 @ ms) @ rm) out) (u # us) =
      Inr (k', ept (store_labels d S V) gs c rm out)" for gs c rm out
    using ms1(2) x(2) IH(7) by (simp add: u)
  have A: "agree (X \<union> set (map (\<lambda>(n, r0, r1). r0) (u # us))) (C_regs k') D'"
    using IH(5) by (simp add: u Un_insert_right)
  have K: "k' = k\<lparr>C_regs := C_regs k'\<rparr>" using IH(2) k1(2) by simp
  show ?case
    using IH(1,3,4) k1 K A G E by (intro conjI exI [of _ "ms1 @ ms"] exI [of _ D']) (auto simp: u)
qed


text \<open>
  The instruction in continuous mode: tainted, the garbler outputs masks and is interrupted; the evaluator opens,
  sends the opened registers and is interrupted; untainted, the garbler takes them over.
\<close>

lemma reveal_inst_sim:
  assumes d: "get_signal d" and S: "same_store S V" and us: "length (reveal_units args) < 2 ^ 60"
    and P: "processor_reveal plain_secret_reveal args (k, V) = Inr (k', V')"
  shows "V' = V" "\<exists>ms buf kg. pc kg = pc k \<and>
    (\<forall>gs c p ms0 inbox. garble_reveal_inst True args (k, gpt S gs c p ms0 True inbox) =
      Inr (Cleaning (kg, gpt S gs c p (ms0 @ ms) False inbox))) \<and>
    (\<forall>z T gs c p ms0 inbox. garble_reveal_inst True args (kg\<lparr>complexity := z\<rparr>, gpt T gs c p ms0 False (buf # inbox)) =
      Inr (Next (k'\<lparr>complexity := z\<rparr>, gpt T gs c p ms0 True inbox))) \<and>
    (\<forall>gs c rm out. eval_reveal_inst True args (k, ept (store_labels d S V) gs c (ms @ rm) out) =
      Inr (Cleaning (k', ept (store_labels d S V) gs c rm (out @ [buf]))))"
proof -
  let ?us = "reveal_units args" and ?rs = "map (\<lambda>(n, r0, r1). r0) (reveal_units args)"
  have mod3: "length args mod 3 = 0" and P': "reveal_list plain_secret_reveal (k, V) ?us = Inr (k', V')"
    using P by (simp_all add: processor_reveal_def split: if_splits)
  have "agree {} (C_regs k) (C_regs k)" by (simp add: agree_def)
  from reveal_list_sim [OF d S P' this] obtain ms D where R: "V' = V" "k' = k\<lparr>C_regs := C_regs k'\<rparr>"
      "length (C_regs k') = length (C_regs k)" "\<forall>u \<in> set ?us. fst (snd u) < length (C_regs k)"
      "agree (set ?rs) (C_regs k') D"
      "\<And>gs c p ms0 inbox. reveal_list garble_secret_reveal (k, gpt S gs c p ms0 True inbox) ?us =
        Inr (k\<lparr>C_regs := D\<rparr>, gpt S gs c p (ms0 @ ms) True inbox)"
      "\<And>gs c rm out. reveal_list eval_secret_reveal (k, ept (store_labels d S V) gs c (ms @ rm) out) ?us =
        Inr (k', ept (store_labels d S V) gs c rm out)"
    by auto
  have rs: "\<forall>r \<in> set ?rs. r < length (C_regs k')" using R(3,4) by auto
  have "length (map ((!) (C_regs k')) ?rs) < 2 ^ 60" using us by simp
  from words_roundtrip [OF this] obtain buf r where
    buf: "fold_result (\<lambda>w x. store_int x 8 w) empty_stream (map ((!) (C_regs k')) ?rs) = Inr buf"
    "get_items (os_get_int 8) (length ?us) buf = Inr (map ((!) (C_regs k')) ?rs, r)"
    by auto
  have pack: "pack_clear args k' = Inr buf"
  proof -
    have "fold_result (\<lambda>os (n, r0, r1). bind_result (vec_read (C_regs k') r0) (\<lambda>x. store_int x 8 os)) w us =
        fold_result (\<lambda>w x. store_int x 8 w) w (map ((!) (C_regs k')) (map (\<lambda>(n, r0, r1). r0) us))"
      if "\<forall>u \<in> set us. fst (snd u) < length (C_regs k')" for w us
      using that
    proof (induction us arbitrary: w)
      case (Cons u us)
      obtain n r0 r1 where "u = (n, r0, r1)" by (cases u)
      then show ?case using Cons.prems by (cases "store_int (C_regs k' ! r0) 8 w") (simp_all add: Cons.IH)
    qed simp
    from this [of ?us empty_stream] show ?thesis using R(3,4) buf(1) by (simp add: pack_clear_def)
  qed
  have unpack: "unpack_clear args buf (k\<lparr>C_regs := D, complexity := z\<rparr>) = Inr (k'\<lparr>complexity := z\<rparr>)" for z
  proof -
    have "fold_result (\<lambda>k (r0, x). set_C r0 x k) (k\<lparr>complexity := z\<rparr>\<lparr>C_regs := D\<rparr>) (zip ?rs (map ((!) (C_regs k')) ?rs)) =
        Inr (k\<lparr>complexity := z\<rparr>\<lparr>C_regs := C_regs k'\<rparr>)"
      by (rule rewrite_registers [OF R(5) rs])
    moreover have "k\<lparr>complexity := z\<rparr>\<lparr>C_regs := C_regs k'\<rparr> = k'\<lparr>complexity := z\<rparr>"
      by (subst (2) R(2)) simp
    moreover have "k\<lparr>C_regs := D, complexity := z\<rparr> = k\<lparr>complexity := z\<rparr>\<lparr>C_regs := D\<rparr>" by simp
    ultimately show ?thesis
      unfolding unpack_clear_def unpack_items [OF buf(2)] by (simp only: bind_result.simps prod.case)
  qed
  show "V' = V" by (fact R(1))
  show "\<exists>ms buf kg. pc kg = pc k \<and>
    (\<forall>gs c p ms0 inbox. garble_reveal_inst True args (k, gpt S gs c p ms0 True inbox) =
      Inr (Cleaning (kg, gpt S gs c p (ms0 @ ms) False inbox))) \<and>
    (\<forall>z T gs c p ms0 inbox. garble_reveal_inst True args (kg\<lparr>complexity := z\<rparr>, gpt T gs c p ms0 False (buf # inbox)) =
      Inr (Next (k'\<lparr>complexity := z\<rparr>, gpt T gs c p ms0 True inbox))) \<and>
    (\<forall>gs c rm out. eval_reveal_inst True args (k, ept (store_labels d S V) gs c (ms @ rm) out) =
      Inr (Cleaning (k', ept (store_labels d S V) gs c rm (out @ [buf]))))"
    by (rule exI [of _ ms], rule exI [of _ buf], rule exI [of _ "k\<lparr>C_regs := D\<rparr>"])
      (simp add: garble_reveal_inst_def eval_reveal_inst_def processor_reveal_def mod3 R(6,7) pack unpack)
qed


section \<open>A round\<close>

definition conf_ok :: "yao_config \<Rightarrow> instr list \<Rightarrow> bool" where
  "conf_ok cf p \<longleftrightarrow> get_signal (cf_delta cf) \<and> cf_continuous cf \<and> 0 < cf_batch cf \<and> (\<forall>i \<in> set p. instr_ok cf i)"

lemma gc_step_linear:
  "\<forall>args. i \<noteq> REVEAL args \<Longrightarrow> \<forall>r0 r1. i \<noteq> CONVCBIT r0 r1 \<Longrightarrow> gc_step H i (k, s) =
    bind_result (clear_instr i k) (\<lambda>k'. bind_result (T_secret H i k s) (\<lambda>s'.
    Inr (Next (k'\<lparr>complexity := complexity k' + instr_complexity i\<rparr>, s'))))"
  by (cases i) simp_all

text \<open>An instruction on secret registers and memory.\<close>

lemma party_instr_steps:
  assumes d: "get_signal (cf_delta cf)" and ok: "instr_ok cf i" and S: "same_store S V" and P: "plain_store_instr i k V = Inr V'"
  shows "\<exists>S' gs c'. same_store S' V' \<and>
    (\<forall>gs0 p ms inbox. \<exists>p'. garble_party_instr cf i k (gpt S gs0 c p ms True inbox) = Inr (gpt S' (gs0 @ gs) c' p' ms True inbox)) \<and>
    (\<forall>rg rm out. eval_party_instr cf i k (ept (store_labels (cf_delta cf) S V) (gs @ rg) c rm out) =
      Inr (ept (store_labels (cf_delta cf) S' V') rg c' rm out))"
proof (cases "\<exists>op. i = SECRET op")
  case True
  then obtain op where i: "i = SECRET op" by blast
  obtain W where W: "plain_instr op k (fst V) = Inr W" "memory_instr op k (W, snd V) = Inr V'"
    using P by (auto simp: i bind_result_Inr_iff)
  have S1: "same_shape (fst S) (fst V)" using S by (simp add: same_store_def)
  obtain T gs where st: "steps (cf_delta cf) (garble_instr cf op k) (eval_instr cf op k) (fst S) (fst V) c T W gs"
    using instr_steps [OF d ok [unfolded i] S1 W(1)] by blast
  have "same_store (T, snd S) (W, snd V)" using stepsD(1) [OF st] S by (simp add: same_store_def)
  from memory_instr_labels [OF this W(2), of "cf_delta cf"] obtain S' where S':
      "memory_instr op k (T, snd S) = Inr S'" "same_store S' V'"
      "memory_instr op k (labels (cf_delta cf) T W, labels (cf_delta cf) (snd S) (snd V)) = Inr (store_labels (cf_delta cf) S' V')"
    by (auto simp: store_labels_def)
  let ?c = "c + word_of_nat (length gs)"
  have G: "\<exists>p'. garble_party_instr cf i k (gpt S gs0 c p ms True inbox) = Inr (gpt S' (gs0 @ gs) ?c p' ms True inbox)"
    for gs0 p ms inbox
    using stepsD(2) [OF st, of gs0 p] S'(1) by (auto simp: i split_beta)
  have E: "eval_party_instr cf i k (ept (store_labels (cf_delta cf) S V) (gs @ rg) c rm out) =
      Inr (ept (store_labels (cf_delta cf) S' V') rg ?c rm out)" for rg rm out
    using stepsD(3) [OF st, of rg] S'(3) by (simp add: i split_beta store_labels_sel)
  show ?thesis using S'(2) G E by blast
next
  case False
  then have "plain_store_instr i k V = Inr V" "garble_party_instr cf i k g = Inr g" "eval_party_instr cf i k e = Inr e" for g e
    by (cases i; simp)+
  then show ?thesis
    using S P by (intro exI [of _ S] exI [of _ "[]"] exI [of _ c]) simp
qed

text \<open>
  An instruction that goes on: the garbler appends gates, the evaluator uses them up, both change their clear
  and integer registers as the plain run.
\<close>

lemma step_next:
  assumes cf: "get_signal (cf_delta cf)" "cf_continuous cf" and ok: "instr_ok cf i" and S: "same_store S V"
    and P: "gc_step (plain_hooks True) i (k, V) = Inr (Next (k', V'))"
  shows "\<exists>S' gs c'. same_store S' V' \<and>
    (\<forall>gs0 p ms inbox. \<exists>p'. gc_step (garble_hooks cf) i (k, gpt S gs0 c p ms True inbox) =
      Inr (Next (k', gpt S' (gs0 @ gs) c' p' ms True inbox))) \<and>
    (\<forall>rg rm out. gc_step (eval_hooks cf) i (k, ept (store_labels (cf_delta cf) S V) (gs @ rg) c rm out) =
      Inr (Next (k', ept (store_labels (cf_delta cf) S' V') rg c' rm out)))"
proof (cases "\<exists>r0 r1. i = CONVCBIT r0 r1")
  case True
  then obtain r0 r1 x where x: "i = CONVCBIT r0 r1" "vec_read (C_regs k) r1 = Inr x" "set_I r0 x k = Inr k'" "V' = V"
    using P by (auto simp: plain_hooks_def bind_result_Inr_iff)
  show ?thesis
    by (rule exI [of _ S], rule exI [of _ "[]"], rule exI [of _ c])
      (use S x cf(2) in \<open>simp add: garble_hooks_def eval_hooks_def garble_convcbit_def eval_convcbit_def\<close>)
next
  case False
  moreover have "\<forall>args. i \<noteq> REVEAL args"
    using P by (auto simp: plain_hooks_def bind_result_Inr_iff)
  ultimately have i: "\<forall>args. i \<noteq> REVEAL args" "\<forall>r0 r1. i \<noteq> CONVCBIT r0 r1" by auto
  obtain k1 where k1: "clear_instr i k = Inr k1" "plain_store_instr i k V = Inr V'"
      "k' = k1\<lparr>complexity := complexity k1 + instr_complexity i\<rparr>"
    using P by (auto simp: gc_step_linear [OF i] plain_hooks_def bind_result_Inr_iff)
  obtain S' gs c' where S': "same_store S' V'"
      "\<And>gs0 p ms inbox. \<exists>p'. garble_party_instr cf i k (gpt S gs0 c p ms True inbox) = Inr (gpt S' (gs0 @ gs) c' p' ms True inbox)"
      "\<And>rg rm out. eval_party_instr cf i k (ept (store_labels (cf_delta cf) S V) (gs @ rg) c rm out) =
        Inr (ept (store_labels (cf_delta cf) S' V') rg c' rm out)"
    using party_instr_steps [OF cf(1) ok S k1(2)] by blast
  have G: "\<exists>p'. gc_step (garble_hooks cf) i (k, gpt S gs0 c p ms True inbox) =
      Inr (Next (k', gpt S' (gs0 @ gs) c' p' ms True inbox))" for gs0 p ms inbox
    using S'(2) [of gs0 p ms inbox] k1 by (auto simp: gc_step_linear [OF i] garble_hooks_def)
  have E: "gc_step (eval_hooks cf) i (k, ept (store_labels (cf_delta cf) S V) (gs @ rg) c rm out) =
      Inr (Next (k', ept (store_labels (cf_delta cf) S' V') rg c' rm out))" for rg rm out
    using S'(3) [of rg rm out] k1 by (simp add: gc_step_linear [OF i] eval_hooks_def)
  show ?thesis using S'(1) G E by blast
qed

text \<open>
  An instruction that interrupts is an opening.  The garbler is left before it, untainted: with the evaluator's
  message it goes on where the plain run stands, without it waits.
\<close>

definition resumes :: "yao_config \<Rightarrow> instr \<Rightarrow> control \<Rightarrow> octetStream \<Rightarrow> control \<Rightarrow> bool" where
  "resumes cf i kg buf k' \<longleftrightarrow> pc kg = pc k' \<and>
    (\<forall>z S gs c p ms inbox. gc_step (garble_hooks cf) i (kg\<lparr>complexity := z\<rparr>, gpt S gs c p ms False (buf # inbox)) =
      Inr (Next (k'\<lparr>complexity := z\<rparr>, gpt S gs c p ms True inbox))) \<and>
    (\<forall>z S gs c p ms. gc_step (garble_hooks cf) i (kg\<lparr>complexity := z\<rparr>, gpt S gs c p ms False []) = Inr Blocked)"

lemma step_cleaning:
  assumes cf: "get_signal (cf_delta cf)" "cf_continuous cf" and ok: "instr_ok cf i" and S: "same_store S V"
    and P: "gc_step (plain_hooks True) i (k, V) = Inr (Cleaning (k', V'))"
  shows "V' = V" "pc k' = pc k" "\<exists>ms buf kg. resumes cf i kg buf k' \<and>
    (\<forall>gs c p ms0 inbox. gc_step (garble_hooks cf) i (k, gpt S gs c p ms0 True inbox) =
      Inr (Cleaning (kg, gpt S gs c p (ms0 @ ms) False inbox))) \<and>
    (\<forall>gs c rm out. gc_step (eval_hooks cf) i (k, ept (store_labels (cf_delta cf) S V) gs c (ms @ rm) out) =
      Inr (Cleaning (k', ept (store_labels (cf_delta cf) S V) gs c rm (out @ [buf]))))"
proof -
  have "\<exists>args. i = REVEAL args"
  proof (rule ccontr)
    assume "\<nexists>args. i = REVEAL args"
    then show False using P
      by (cases "\<exists>r0 r1. i = CONVCBIT r0 r1") (auto simp: gc_step_linear plain_hooks_def bind_result_Inr_iff)
  qed
  then obtain args where i: "i = REVEAL args" by blast
  then have R: "processor_reveal plain_secret_reveal args (k, V) = Inr (k', V')"
    using P by (auto simp: plain_hooks_def bind_result_Inr_iff)
  have us: "length (reveal_units args) < 2 ^ 60" using ok i by simp
  show "V' = V" by (rule reveal_inst_sim(1) [OF cf(1) S us R])
  obtain ms buf kg where sim: "pc kg = pc k"
      "\<And>gs c p ms0 inbox. garble_reveal_inst True args (k, gpt S gs c p ms0 True inbox) =
        Inr (Cleaning (kg, gpt S gs c p (ms0 @ ms) False inbox))"
      "\<And>z T gs c p ms0 inbox. garble_reveal_inst True args (kg\<lparr>complexity := z\<rparr>, gpt T gs c p ms0 False (buf # inbox)) =
        Inr (Next (k'\<lparr>complexity := z\<rparr>, gpt T gs c p ms0 True inbox))"
      "\<And>gs c rm out. eval_reveal_inst True args (k, ept (store_labels (cf_delta cf) S V) gs c (ms @ rm) out) =
        Inr (Cleaning (k', ept (store_labels (cf_delta cf) S V) gs c rm (out @ [buf])))"
    using reveal_inst_sim(2) [OF cf(1) S us R] by metis
  have "k' = k\<lparr>C_regs := C_regs k'\<rparr>"
    using reveal_list_sim [OF cf(1) S, of k "reveal_units args" k' V' "{}" "C_regs k"] R
    by (auto simp: processor_reveal_def agree_def split: if_splits)
  then show pc: "pc k' = pc k" by (metis control.select_convs(1) control.surjective control.update_convs(3))
  have "resumes cf i kg buf k'"
    using sim(1,3) pc cf(2) by (auto simp: resumes_def i garble_hooks_def garble_reveal_inst_def)
  then show "\<exists>ms buf kg. resumes cf i kg buf k' \<and>
    (\<forall>gs c p ms0 inbox. gc_step (garble_hooks cf) i (k, gpt S gs c p ms0 True inbox) =
      Inr (Cleaning (kg, gpt S gs c p (ms0 @ ms) False inbox))) \<and>
    (\<forall>gs c rm out. gc_step (eval_hooks cf) i (k, ept (store_labels (cf_delta cf) S V) gs c (ms @ rm) out) =
      Inr (Cleaning (k', ept (store_labels (cf_delta cf) S V) gs c rm (out @ [buf]))))"
    using sim(2,4) cf(2) by (intro exI [of _ ms] exI [of _ buf] exI [of _ kg]) (simp add: i garble_hooks_def eval_hooks_def)
qed


text \<open>
  \<open>serves\<close>: from labels of the bits \<open>V\<close>, with gates \<open>gs\<close> and masks \<open>ms\<close> from the garbler, both parties come to the
  end of the plain round.
\<close>

definition serves :: "yao_config \<Rightarrow> instr list \<Rightarrow> control \<Rightarrow> m128 store \<Rightarrow> bool store \<Rightarrow> u64 \<Rightarrow> exec_end \<Rightarrow> control \<Rightarrow>
    m128 store \<Rightarrow> bool store \<Rightarrow> u64 \<Rightarrow> YaoHalfGate list \<Rightarrow> bool list \<Rightarrow> octetStream list \<Rightarrow> control \<Rightarrow> bool" where
  "serves cf p k S V c fin k' S' V' c' gs ms bufs kg \<longleftrightarrow> same_store S' V' \<and>
    (\<forall>gs0 pr ms0 inbox. \<exists>pr'. exec_loop (garble_hooks cf) p (cf_batch cf) (k, gpt S gs0 c pr ms0 True inbox) =
      Some (Inr (fin, kg, gpt S' (gs0 @ gs) c' pr' (ms0 @ ms) (fin \<noteq> Needs_cleaning) inbox))) \<and>
    (\<forall>rg rm out. exec_loop (eval_hooks cf) p (cf_batch cf) (k, ept (store_labels (cf_delta cf) S V) (gs @ rg) c (ms @ rm) out) =
      Some (Inr (fin, k', ept (store_labels (cf_delta cf) S' V') rg c' rm (out @ bufs)))) \<and>
    (case fin of
       Needs_cleaning \<Rightarrow> \<exists>buf. bufs = [buf] \<and> pc kg - 1 < word_of_nat (length p) \<and>
         resumes cf (p ! unat (pc kg - 1)) kg buf k'
     | Returned b \<Rightarrow> bufs = [] \<and> kg = k' \<and> (b = DONE_BREAK \<longrightarrow> word_of_nat (length p) \<le> pc k')
     | Waiting \<Rightarrow> False)"

lemma serves_next:
  assumes S': "\<And>gs0 pr ms inbox. \<exists>pr'. gc_step (garble_hooks cf) i (k\<lparr>pc := pc k + 1\<rparr>, gpt S gs0 c pr ms True inbox) =
      Inr (Next (k1, gpt S1 (gs0 @ gs1) c1 pr' ms True inbox))"
    "\<And>rg rm out. gc_step (eval_hooks cf) i (k\<lparr>pc := pc k + 1\<rparr>, ept (store_labels (cf_delta cf) S V) (gs1 @ rg) c rm out) =
      Inr (Next (k1, ept (store_labels (cf_delta cf) S1 V1) rg c1 rm out))"
    and pc: "pc k < word_of_nat (length p)" "i = p ! unat (pc k)" and batch: "complexity k1 < cf_batch cf"
    and rest: "serves cf p k1 S1 V1 c1 fin k' S' V' c' gs ms bufs kg"
  shows "serves cf p k S V c fin k' S' V' c' (gs1 @ gs) ms bufs kg"
proof -
  have G: "\<exists>pr'. exec_loop (garble_hooks cf) p (cf_batch cf) (k, gpt S gs0 c pr ms0 True inbox) =
      Some (Inr (fin, kg, gpt S' (gs0 @ gs1 @ gs) c' pr' (ms0 @ ms) (fin \<noteq> Needs_cleaning) inbox))" for gs0 pr ms0 inbox
  proof -
    obtain pr1 where 1: "gc_step (garble_hooks cf) i (k\<lparr>pc := pc k + 1\<rparr>, gpt S gs0 c pr ms0 True inbox) =
        Inr (Next (k1, gpt S1 (gs0 @ gs1) c1 pr1 ms0 True inbox))" using S'(1) by blast
    obtain pr' where "exec_loop (garble_hooks cf) p (cf_batch cf) (k1, gpt S1 (gs0 @ gs1) c1 pr1 ms0 True inbox) =
        Some (Inr (fin, kg, gpt S' ((gs0 @ gs1) @ gs) c' pr' (ms0 @ ms) (fin \<noteq> Needs_cleaning) inbox))"
      using rest unfolding serves_def by blast
    then show ?thesis using 1 pc batch by (subst exec_loop.simps) (auto simp: not_le)
  qed
  have E: "exec_loop (eval_hooks cf) p (cf_batch cf) (k, ept (store_labels (cf_delta cf) S V) ((gs1 @ gs) @ rg) c (ms @ rm) out) =
      Some (Inr (fin, k', ept (store_labels (cf_delta cf) S' V') rg c' rm (out @ bufs)))" for rg rm out
    using rest S'(2) pc batch by (subst exec_loop.simps) (auto simp: serves_def not_le)
  show ?thesis using rest G E unfolding serves_def by blast
qed

text \<open>Induction along the loop for one program.\<close>

lemma exec_loop_rule [consumes 1, case_names loop]:
  assumes "exec_loop H p batch ks = Some y"
    and step: "\<And>loop ks y. (\<And>ks y. loop ks = Some y \<Longrightarrow> Q ks y) \<Longrightarrow>
      (if word_of_nat (length p) \<le> pc (fst ks) then Some (Inr (Returned DONE_BREAK, ks))
       else case gc_step H (p ! unat (pc (fst ks))) ((fst ks)\<lparr>pc := pc (fst ks) + 1\<rparr>, snd ks) of
         Inl e \<Rightarrow> Some (Inl e)
       | Inr Blocked \<Rightarrow> Some (Inr (Waiting, ks))
       | Inr (Cleaning ks') \<Rightarrow> Some (Inr (Needs_cleaning, ks'))
       | Inr (Next ks') \<Rightarrow> if complexity (fst ks') < batch then loop ks' else Some (Inr (Returned TIME_BREAK, ks'))) = Some y \<Longrightarrow>
      Q ks y"
  shows "Q ks y"
proof -
  have "H' = H \<longrightarrow> p' = p \<longrightarrow> batch' = batch \<longrightarrow> Q ks y" if "exec_loop H' p' batch' ks = Some y" for H' p' batch' ks y
  proof (rule exec_loop.raw_induct [OF _ that, where P = "\<lambda>H' p' batch' ks y. H' = H \<longrightarrow> p' = p \<longrightarrow> batch' = batch \<longrightarrow> Q ks y"], intro impI, goal_cases)
    case (1 loop H' p' batch' ks y)
    show ?case
      by (rule step [of "loop H p batch"]) (use 1 in auto)
  qed
  with assms(1) show ?thesis by blast
qed

lemma plain_not_blocked: "gc_step (plain_hooks True) i (k, V) \<noteq> Inr Blocked"
  by (cases i) (auto simp: plain_hooks_def bind_result_Inr_iff)

lemma exec_loop_serves:
  assumes cf: "conf_ok cf p" and P: "exec_loop (plain_hooks True) p (cf_batch cf) (k, V) = Some (Inr (fin, k', V'))"
    and S: "same_store S V"
  shows "\<exists>S' c' gs ms bufs kg. serves cf p k S V c fin k' S' V' c' gs ms bufs kg"
proof -
  have "y = Inr (fin, k', V') \<Longrightarrow> ks = (k, V) \<Longrightarrow> same_store S V \<Longrightarrow>
      \<exists>S' c' gs ms bufs kg. serves cf p k S V c fin k' S' V' c' gs ms bufs kg"
    if "exec_loop (plain_hooks True) p (cf_batch cf) ks = Some y" for ks y k V S c
    using that
  proof (induction arbitrary: k V S c rule: exec_loop_rule)
    case (loop loop ks y k V S c)
    let ?i = "p ! unat (pc k)" and ?k = "k\<lparr>pc := pc k + 1\<rparr>"
    note S = loop.prems(3) and body = loop.hyps [unfolded loop.prems(1,2) fst_conv snd_conv]
    show ?case
    proof (cases "word_of_nat (length p) \<le> pc k")
      case True
      then have "fin = Returned DONE_BREAK" "k' = k" "V' = V" using body by simp_all
      then have "serves cf p k S V c fin k' S V' c [] [] [] k"
        using True S by (simp add: serves_def exec_loop.simps [of _ _ _ "(k, s)" for s])
      then show ?thesis by blast
    next
      case False
      have d: "get_signal (cf_delta cf)" "cf_continuous cf" "instr_ok cf ?i"
      proof -
        have "unat (pc k) < length p"
          using False by (metis linorder_not_le unat_of_nat le_less_trans mod_less_eq_dividend word_less_nat_alt less_le_trans)
        then show "get_signal (cf_delta cf)" "cf_continuous cf" "instr_ok cf ?i"
          using cf by (simp_all add: conf_ok_def)
      qed
      consider k1 V1 where "gc_step (plain_hooks True) ?i (?k, V) = Inr (Next (k1, V1))"
        | "gc_step (plain_hooks True) ?i (?k, V) = Inr (Cleaning (k', V'))" "fin = Needs_cleaning"
        using body False plain_not_blocked [of ?i ?k V]
        by (auto split: sum.splits outcome.splits prod.splits)
      then show ?thesis
      proof cases
        case 1: 1
        obtain S1 gs1 c1 where S1: "same_store S1 V1"
            "\<And>gs0 pr ms inbox. \<exists>pr'. gc_step (garble_hooks cf) ?i (?k, gpt S gs0 c pr ms True inbox) =
              Inr (Next (k1, gpt S1 (gs0 @ gs1) c1 pr' ms True inbox))"
            "\<And>rg rm out. gc_step (eval_hooks cf) ?i (?k, ept (store_labels (cf_delta cf) S V) (gs1 @ rg) c rm out) =
              Inr (Next (k1, ept (store_labels (cf_delta cf) S1 V1) rg c1 rm out))"
          using step_next [OF d S 1] by metis
        show ?thesis
        proof (cases "complexity k1 < cf_batch cf")
          case True
          have "loop (k1, V1) = Some (Inr (fin, k', V'))"
            using body False 1 True by simp
          then obtain S' c' gs ms bufs kg where "serves cf p k1 S1 V1 c1 fin k' S' V' c' gs ms bufs kg"
            using loop.IH [OF _ refl refl S1(1)] by blast
          moreover have "pc k < word_of_nat (length p)" using False by simp
          ultimately show ?thesis using serves_next [OF S1(2,3) _ refl True] by blast
        next
          case late: False
          then have fin: "fin = Returned TIME_BREAK" "k1 = k'" "V1 = V'" using body False 1 by simp_all
          have "\<exists>pr'. exec_loop (garble_hooks cf) p (cf_batch cf) (k, gpt S gs0 c pr ms0 True inbox) =
              Some (Inr (fin, k', gpt S1 (gs0 @ gs1) c1 pr' (ms0 @ []) True inbox))" for gs0 pr ms0 inbox
          proof -
            obtain pr' where "gc_step (garble_hooks cf) ?i (?k, gpt S gs0 c pr ms0 True inbox) =
                Inr (Next (k1, gpt S1 (gs0 @ gs1) c1 pr' ms0 True inbox))" using S1(2) by blast
            then show ?thesis using False late fin by (subst exec_loop.simps) simp
          qed
          moreover have "exec_loop (eval_hooks cf) p (cf_batch cf) (k, ept (store_labels (cf_delta cf) S V) (gs1 @ rg) c ([] @ rm) out) =
              Some (Inr (fin, k', ept (store_labels (cf_delta cf) S1 V') rg c1 rm (out @ [])))" for rg rm out
            using S1(3) False late fin by (subst exec_loop.simps) simp
          ultimately have "serves cf p k S V c fin k' S1 V' c1 gs1 [] [] k'"
            using S1(1) fin by (simp add: serves_def)
          then show ?thesis by blast
        qed
      next
        case 2
        note C = step_cleaning [OF d S 2(1)]
        obtain ms buf kg where R: "resumes cf ?i kg buf k'"
            "\<And>gs c p ms0 inbox. gc_step (garble_hooks cf) ?i (?k, gpt S gs c p ms0 True inbox) =
              Inr (Cleaning (kg, gpt S gs c p (ms0 @ ms) False inbox))"
            "\<And>gs c rm out. gc_step (eval_hooks cf) ?i (?k, ept (store_labels (cf_delta cf) S V) gs c (ms @ rm) out) =
              Inr (Cleaning (k', ept (store_labels (cf_delta cf) S V) gs c rm (out @ [buf])))"
          using C(3) by metis
        have "pc kg - 1 = pc k" using R(1) C(2) by (simp add: resumes_def)
        then have "serves cf p k S V c fin k' S V' c [] ms [buf] kg"
          using R S C(1) 2(2) False unfolding serves_def
          by (auto simp: exec_loop.simps [of _ _ _ "(k, s)" for s] not_le)
        then show ?thesis by blast
      qed
    qed
  qed
  from this [OF P refl refl S] show ?thesis .
qed

end
