(* ===== verification/Yao_Session.thy ===== *)
theory Yao_Session
  imports Yao_Machine_Correct
begin

text \<open>
  A session of the two parties in continuous mode: the garbler's loop and the evaluator's loop as two processes
  with a channel in each direction (\<^verbatim>\<open>YaoGarbler.cpp\<close>, \<^verbatim>\<open>YaoEvaluator.cpp\<close>), followed by the packet of the
  Init phase or by nothing.  Every interleaving ends, and ends with the result of the plain program.
\<close>

section \<open>Processes and channels\<close>

text \<open>\<open>Closing\<close>: the loop has ended, the last message of \<^verbatim>\<open>run\<close> is still to be sent or received.\<close>

datatype phase = Running | Closing | Finished

record ('g, 'e, 'm, 'b) session =
  ss_garbler :: 'g
  ss_evaluator :: 'e
  ss_g2e :: "'m list"
  ss_e2g :: "'b list"
  ss_g_phase :: phase
  ss_e_phase :: phase
  ss_got :: "'b option"

definition after_break :: "BreakType \<Rightarrow> phase" where
  "after_break b = (if b = DONE_BREAK then Closing else Running)"

text \<open>
  \<open>final\<close> is the packet that the evaluator sends after its loop and the garbler receives after its own, if there is one.
  A turn that must wait is not taken.
\<close>

inductive session_step ::
  "('g \<Rightarrow> 'b list \<Rightarrow> ('g \<times> 'b list \<times> 'm \<times> BreakType) turn result option) \<Rightarrow>
   ('e \<Rightarrow> 'm \<Rightarrow> ('e \<times> 'b list \<times> BreakType) result option) \<Rightarrow> 'b option \<Rightarrow>
   ('g, 'e, 'm, 'b) session \<Rightarrow> ('g, 'e, 'm, 'b) session \<Rightarrow> bool"
  for g_round e_round final where
  garble: "ss_g_phase c = Running \<Longrightarrow>
    g_round (ss_garbler c) (ss_e2g c) = Some (Inr (Turn (g, inbox, m, brk))) \<Longrightarrow>
    session_step g_round e_round final c (c\<lparr>ss_garbler := g, ss_e2g := inbox, ss_g2e := ss_g2e c @ [m],
      ss_g_phase := after_break brk\<rparr>)"
| evaluate: "ss_e_phase c = Running \<Longrightarrow> ss_g2e c = m # ms \<Longrightarrow>
    e_round (ss_evaluator c) m = Some (Inr (e, outs, brk)) \<Longrightarrow>
    session_step g_round e_round final c (c\<lparr>ss_evaluator := e, ss_g2e := ms, ss_e2g := ss_e2g c @ outs,
      ss_e_phase := after_break brk\<rparr>)"
| send_final: "ss_e_phase c = Closing \<Longrightarrow>
    session_step g_round e_round final c (c\<lparr>ss_e2g := ss_e2g c @ (case final of None \<Rightarrow> [] | Some b \<Rightarrow> [b]),
      ss_e_phase := Finished\<rparr>)"
| no_final: "ss_g_phase c = Closing \<Longrightarrow> final = None \<Longrightarrow>
    session_step g_round e_round final c (c\<lparr>ss_g_phase := Finished\<rparr>)"
| receive_final: "ss_g_phase c = Closing \<Longrightarrow> final \<noteq> None \<Longrightarrow> ss_e2g c = b # bs \<Longrightarrow>
    session_step g_round e_round final c (c\<lparr>ss_e2g := bs, ss_got := Some b, ss_g_phase := Finished\<rparr>)"

text \<open>The specification by rounds: \<open>rounds p_round n x\<close> is the state after exactly \<open>n\<close> rounds, of which the last is done.\<close>

fun rounds :: "('p \<Rightarrow> ('p \<times> BreakType) option) \<Rightarrow> nat \<Rightarrow> 'p \<Rightarrow> 'p option" where
  "rounds p_round 0 x = None"
| "rounds p_round (Suc n) x =
    (case p_round x of
       None \<Rightarrow> None
     | Some (x', DONE_BREAK) \<Rightarrow> if n = 0 then Some x' else None
     | Some (x', TIME_BREAK) \<Rightarrow> rounds p_round n x')"

section \<open>The contract of the rounds\<close>

text \<open>
  A round of the plain run is served by a message \<open>m\<close>: the garbler produces it, from a state that is ready or that
  waits for a message of the evaluator; the evaluator, given it, comes to the end of the same round and perhaps
  answers.  After a round with an answer the garbler waits for it.
\<close>

locale garbled_rounds =
  fixes p_round :: "'p \<Rightarrow> ('p \<times> BreakType) option"
    and g_round :: "'g \<Rightarrow> 'b list \<Rightarrow> ('g \<times> 'b list \<times> 'm \<times> BreakType) turn result option"
    and e_round :: "'e \<Rightarrow> 'm \<Rightarrow> ('e \<times> 'b list \<times> BreakType) result option"
    and secret :: "'p \<Rightarrow> 's \<Rightarrow> bool"
    and g_ready :: "'p \<Rightarrow> 's \<Rightarrow> 'g \<Rightarrow> bool"
    and g_waits :: "'p \<Rightarrow> 's \<Rightarrow> 'b \<Rightarrow> 'g \<Rightarrow> bool"
    and e_ready :: "'p \<Rightarrow> 's \<Rightarrow> 'e \<Rightarrow> bool"
  assumes round_law: "p_round x = Some (x', brk) \<Longrightarrow> secret x t \<Longrightarrow>
    \<exists>t' m outs. secret x' t' \<and> (outs = [] \<or> brk = TIME_BREAK \<and> (\<exists>b. outs = [b])) \<and>
      (\<forall>g inbox. g_ready x t g \<longrightarrow> (\<exists>g'. g_round g inbox = Some (Inr (Turn (g', inbox, m, brk))) \<and>
        (if outs = [] then g_ready x' t' g' else g_waits x' t' (hd outs) g'))) \<and>
      (\<forall>g b inbox. g_waits x t b g \<longrightarrow> (\<exists>g'. g_round g (b # inbox) = Some (Inr (Turn (g', inbox, m, brk))) \<and>
        (if outs = [] then g_ready x' t' g' else g_waits x' t' (hd outs) g'))) \<and>
      (\<forall>e. e_ready x t e \<longrightarrow> (\<exists>e'. e_round e m = Some (Inr (e', outs, brk)) \<and> e_ready x' t' e'))"
    and wait_law: "g_waits x t b g \<Longrightarrow> g_round g [] = Some (Inr Must_wait)"
begin

definition turn_ok :: "'p \<Rightarrow> 's \<Rightarrow> 'm \<Rightarrow> 'b list \<Rightarrow> BreakType \<Rightarrow> 'p \<Rightarrow> 's \<Rightarrow> bool" where
  "turn_ok x t m outs brk x' t' \<longleftrightarrow> p_round x = Some (x', brk) \<and> secret x' t' \<and> (outs = [] \<or> brk = TIME_BREAK) \<and>
    (\<forall>e. e_ready x t e \<longrightarrow> (\<exists>e'. e_round e m = Some (Inr (e', outs, brk)) \<and> e_ready x' t' e'))"

text \<open>
  \<open>behind x t ms os y u\<close>: with the messages \<open>ms\<close> on their way the evaluator stands at \<open>x\<close>, the garbler at \<open>y\<close>, and
  the evaluator will answer \<open>os\<close>.
\<close>

inductive behind :: "'p \<Rightarrow> 's \<Rightarrow> 'm list \<Rightarrow> 'b list \<Rightarrow> 'p \<Rightarrow> 's \<Rightarrow> bool" where
  level: "behind x t [] [] x t"
| pending: "turn_ok x t m outs brk x' t' \<Longrightarrow> behind x' t' ms os y u \<Longrightarrow> behind x t (m # ms) (outs @ os) y u"

inductive_cases behind_NilE: "behind x t [] os y u"
inductive_cases behind_ConsE: "behind x t (m # ms) os y u"

lemma behind_snoc:
  "behind x t ms os y u \<Longrightarrow> turn_ok y u m outs brk y' u' \<Longrightarrow> behind x t (ms @ [m]) (os @ outs) y' u'"
proof (induction rule: behind.induct)
  case (level x t)
  then show ?case using pending [OF level behind.level] by simp
next
  case (pending x t m1 outs1 brk1 x' t' ms os y u)
  then show ?case using behind.pending [OF pending(1) pending(3)] by simp
qed

definition todo :: "nat \<Rightarrow> 'p \<Rightarrow> 'p \<Rightarrow> bool" where
  "todo j x xf \<longleftrightarrow> (if j = 0 then x = xf else rounds p_round j x = Some xf)"

lemma todo_Suc:
  assumes "todo j x xf" "0 < j"
  obtains x' brk where "p_round x = Some (x', brk)" "todo (j - 1) x' xf" "brk = DONE_BREAK \<longleftrightarrow> j = 1"
proof -
  obtain n where n: "j = Suc n" using assms(2) by (cases j) auto
  then have r: "rounds p_round (Suc n) x = Some xf" using assms(1) by (simp add: todo_def)
  then obtain x' brk where p: "p_round x = Some (x', brk)" by (cases "p_round x") auto
  show thesis
  proof (rule that [OF p])
    show "todo (j - 1) x' xf" "brk = DONE_BREAK \<longleftrightarrow> j = 1"
      using r p n by (cases brk; cases n; auto simp: todo_def split: if_splits)+
  qed
qed

text \<open>The invariant, with the number of steps that are left.\<close>

definition session_at :: "'p \<Rightarrow> 'b option \<Rightarrow> nat \<Rightarrow> ('g, 'e, 'm, 'b) session \<Rightarrow>
    'p \<Rightarrow> 's \<Rightarrow> 'p \<Rightarrow> 's \<Rightarrow> 'b list \<Rightarrow> 'b list \<Rightarrow> nat \<Rightarrow> bool" where
  "session_at xf final r c x t y u q os j \<longleftrightarrow>
    behind x t (ss_g2e c) os y u \<and> secret y u \<and> e_ready x t (ss_evaluator c) \<and>
    todo j y xf \<and> todo (length (ss_g2e c) + j) x xf \<and>
    (ss_g_phase c = Running \<longleftrightarrow> 0 < j) \<and> (ss_e_phase c = Running \<longleftrightarrow> 0 < length (ss_g2e c) + j) \<and>
    ss_e2g c = q @ (if ss_e_phase c = Finished \<and> ss_g_phase c \<noteq> Finished
      then (case final of None \<Rightarrow> [] | Some b \<Rightarrow> [b]) else []) \<and>
    (g_ready y u (ss_garbler c) \<and> q @ os = [] \<or> 0 < j \<and> (\<exists>b. g_waits y u b (ss_garbler c) \<and> q @ os = [b])) \<and>
    (if ss_g_phase c = Finished then ss_got c = final \<and> (final \<noteq> None \<longrightarrow> ss_e_phase c = Finished) else ss_got c = None) \<and>
    r = j + (length (ss_g2e c) + j) + of_bool (ss_g_phase c \<noteq> Finished) + of_bool (ss_e_phase c \<noteq> Finished)"

definition session_inv :: "'p \<Rightarrow> 'b option \<Rightarrow> nat \<Rightarrow> ('g, 'e, 'm, 'b) session \<Rightarrow> bool" where
  "session_inv xf final r c \<longleftrightarrow> (\<exists>x t y u q os j. session_at xf final r c x t y u q os j)"

abbreviation step :: "'b option \<Rightarrow> ('g, 'e, 'm, 'b) session \<Rightarrow> ('g, 'e, 'm, 'b) session \<Rightarrow> bool" where
  "step \<equiv> session_step g_round e_round"

lemma inv_start:
  assumes "secret x t" "g_ready x t g" "e_ready x t e" "rounds p_round n x = Some xf"
  shows "session_inv xf final (2 * n + 2) \<lparr>ss_garbler = g, ss_evaluator = e, ss_g2e = [], ss_e2g = [],
    ss_g_phase = Running, ss_e_phase = Running, ss_got = None\<rparr>"
proof -
  have "0 < n" using assms(4) by (cases n) auto
  then show ?thesis
    unfolding session_inv_def session_at_def using assms behind.level [of x t]
    by (intro exI [of _ x] exI [of _ t] exI [of _ x] exI [of _ t] exI [of _ "[]"] exI [of _ "[]"] exI [of _ n])
      (simp add: todo_def)
qed

lemma garble_inv:
  assumes inv: "session_inv xf final r c" and run: "ss_g_phase c = Running"
    and turn: "g_round (ss_garbler c) (ss_e2g c) = Some (Inr (Turn (g, inbox, m, brk)))"
  shows "0 < r \<and> session_inv xf final (r - 1) (c\<lparr>ss_garbler := g, ss_e2g := inbox, ss_g2e := ss_g2e c @ [m],
    ss_g_phase := after_break brk\<rparr>)"
proof -
  obtain x t y u q os j where at: "session_at xf final r c x t y u q os j"
    using inv unfolding session_inv_def by blast
  have I: "behind x t (ss_g2e c) os y u" "secret y u" "e_ready x t (ss_evaluator c)"
    "todo j y xf" "todo (length (ss_g2e c) + j) x xf" "0 < j" "ss_e_phase c = Running" "ss_e2g c = q"
    "g_ready y u (ss_garbler c) \<and> q @ os = [] \<or> (\<exists>b. g_waits y u b (ss_garbler c) \<and> q @ os = [b])"
    "r = j + (length (ss_g2e c) + j) + 2" "ss_got c = None"
    using at run by (auto simp: session_at_def)
  obtain y' brk' where y': "p_round y = Some (y', brk')" "todo (j - 1) y' xf" "brk' = DONE_BREAK \<longleftrightarrow> j = 1"
    by (rule todo_Suc [OF I(4,6)])
  obtain u' m' outs where law: "secret y' u'" "outs = [] \<or> brk' = TIME_BREAK \<and> (\<exists>b. outs = [b])"
      "\<And>g inbox. g_ready y u g \<Longrightarrow> \<exists>g'. g_round g inbox = Some (Inr (Turn (g', inbox, m', brk'))) \<and>
        (if outs = [] then g_ready y' u' g' else g_waits y' u' (hd outs) g')"
      "\<And>g b inbox. g_waits y u b g \<Longrightarrow> \<exists>g'. g_round g (b # inbox) = Some (Inr (Turn (g', inbox, m', brk'))) \<and>
        (if outs = [] then g_ready y' u' g' else g_waits y' u' (hd outs) g')"
      "\<forall>e. e_ready y u e \<longrightarrow> (\<exists>e'. e_round e m' = Some (Inr (e', outs, brk')) \<and> e_ready y' u' e')"
    using round_law [OF y'(1) I(2)] by blast
  have step: "inbox = [] \<and> os = [] \<and> m = m' \<and> brk = brk' \<and> (if outs = [] then g_ready y' u' g else g_waits y' u' (hd outs) g)"
    using I(9)
  proof (elim disjE exE conjE)
    assume "g_ready y u (ss_garbler c)" "q @ os = []"
    with law(3) [of "ss_garbler c" "[]"] turn I(8) show ?thesis by auto
  next
    fix b assume w: "g_waits y u b (ss_garbler c)" "q @ os = [b]"
    then have "q = [b] \<and> os = []" using wait_law [OF w(1)] turn I(8) by (cases q) auto
    with law(4) [OF w(1), of "[]"] turn I(8) show ?thesis by auto
  qed
  have ok: "turn_ok y u m outs brk y' u'"
    using y'(1) law(1,2,5) step by (auto simp: turn_ok_def)
  have "behind x t (ss_g2e c @ [m]) (os @ outs) y' u'" by (rule behind_snoc [OF I(1) ok])
  then show ?thesis
    unfolding session_inv_def session_at_def using I(3,5,6,7,10,11) y'(2,3) law(1,2) step
    by (intro conjI exI [of _ x] exI [of _ t] exI [of _ y'] exI [of _ u'] exI [of _ "[]"] exI [of _ outs] exI [of _ "j - 1"])
      (auto simp: after_break_def)
qed

lemma evaluate_inv:
  assumes inv: "session_inv xf final r c" and g2e: "ss_g2e c = m # ms"
    and turn: "e_round (ss_evaluator c) m = Some (Inr (e, outs, brk))" and run: "ss_e_phase c = Running"
  shows "0 < r \<and> session_inv xf final (r - 1) (c\<lparr>ss_evaluator := e, ss_g2e := ms, ss_e2g := ss_e2g c @ outs,
    ss_e_phase := after_break brk\<rparr>)"
proof -
  obtain x t y u q os j where at: "session_at xf final r c x t y u q os j"
    using inv unfolding session_inv_def by blast
  have I: "behind x t (m # ms) os y u" "secret y u" "e_ready x t (ss_evaluator c)"
    "todo j y xf" "todo (Suc (length ms + j)) x xf" "ss_g_phase c = Running \<longleftrightarrow> 0 < j"
    "ss_e2g c = q" "g_ready y u (ss_garbler c) \<and> q @ os = [] \<or> 0 < j \<and> (\<exists>b. g_waits y u b (ss_garbler c) \<and> q @ os = [b])"
    "if ss_g_phase c = Finished then ss_got c = final \<and> final = None else ss_got c = None"
    "r = j + Suc (length ms + j) + of_bool (ss_g_phase c \<noteq> Finished) + 1"
    using at g2e run by (simp_all add: session_at_def) (auto split: if_splits)
  obtain outs' brk' x' t' os' where B: "os = outs' @ os'" "turn_ok x t m outs' brk' x' t'" "behind x' t' ms os' y u"
    using behind_ConsE [OF I(1)] by metis
  have e: "outs' = outs" "brk' = brk" "e_ready x' t' e" "p_round x = Some (x', brk)"
    using B(2) I(3) turn by (auto simp: turn_ok_def)
  obtain x1 brk1 where "p_round x = Some (x1, brk1)" "todo (length ms + j) x1 xf"
      "brk1 = DONE_BREAK \<longleftrightarrow> length ms + j = 0"
    using todo_Suc [OF I(5)] by auto
  then have todo: "todo (length ms + j) x' xf" "brk = DONE_BREAK \<longleftrightarrow> length ms + j = 0" using e(4) by auto
  have answer: "g_ready y u (ss_garbler c) \<and> (q @ outs) @ os' = [] \<or>
      0 < j \<and> (\<exists>b. g_waits y u b (ss_garbler c) \<and> (q @ outs) @ os' = [b])"
    using I(8) B(1) e(1) by simp
  have phase: "after_break brk = Running \<longleftrightarrow> 0 < length ms + j" "after_break brk \<noteq> Finished"
    using todo(2) by (simp_all add: after_break_def)
  show ?thesis
    unfolding session_inv_def session_at_def
    by (intro conjI exI [of _ x'] exI [of _ t'] exI [of _ y] exI [of _ u] exI [of _ "q @ outs"] exI [of _ os'] exI [of _ j])
      (use I(2,4,6,7,9,10) B(3) e(3) todo(1) phase answer in \<open>simp_all split: if_splits\<close>)
qed

lemma step_inv:
  assumes "session_inv xf final r c" "step final c c'"
  shows "0 < r \<and> session_inv xf final (r - 1) c'"
  using assms(2)
proof cases
  case (garble g inbox m brk)
  then show ?thesis using garble_inv [OF assms(1)] by simp
next
  case (evaluate m ms e outs brk)
  then show ?thesis using evaluate_inv [OF assms(1)] by simp
next
  case send_final
  obtain x t y u q os j where at: "session_at xf final r c x t y u q os j"
    using assms(1) unfolding session_inv_def by blast
  then have "session_at xf final (r - 1) c' x t y u q os j" "0 < r"
    using send_final by (auto simp: session_at_def elim: behind_NilE)
  then show ?thesis unfolding session_inv_def by blast
next
  case no_final
  obtain x t y u q os j where at: "session_at xf final r c x t y u q os j"
    using assms(1) unfolding session_inv_def by blast
  then have "session_at xf final (r - 1) c' x t y u q os j" "0 < r"
    using no_final by (auto simp: session_at_def)
  then show ?thesis unfolding session_inv_def by blast
next
  case (receive_final b bs)
  obtain x t y u q os j where at: "session_at xf final r c x t y u q os j"
    using assms(1) unfolding session_inv_def by blast
  then have "session_at xf final (r - 1) c' x t y u q os j" "0 < r"
    using receive_final by (auto simp: session_at_def split: if_splits)
  then show ?thesis unfolding session_inv_def by blast
qed

text \<open>As long as steps are left one of them can be taken, and at the end the result is there.\<close>

lemma progress:
  assumes "session_inv xf final r c" "0 < r"
  shows "\<exists>c'. step final c c'"
proof -
  obtain x t y u q os j where at: "session_at xf final r c x t y u q os j"
    using assms(1) unfolding session_inv_def by blast
  have evaluator: "\<exists>c'. step final c c'" if ne: "ss_g2e c \<noteq> []"
  proof -
    obtain m ms where m: "ss_g2e c = m # ms" using ne by (cases "ss_g2e c") auto
    then have b: "behind x t (m # ms) os y u" and e: "e_ready x t (ss_evaluator c)" and run: "ss_e_phase c = Running"
      using at by (auto simp: session_at_def)
    obtain outs os' brk x' t' where "turn_ok x t m outs brk x' t'"
      using behind_ConsE [OF b] by metis
    then obtain e' where "e_round (ss_evaluator c) m = Some (Inr (e', outs, brk))"
      using e unfolding turn_ok_def by blast
    then show ?thesis using session_step.evaluate [OF run m] by blast
  qed
  show ?thesis
  proof (cases "ss_g_phase c = Running")
    case True
    then have j: "0 < j" "todo j y xf" "secret y u" and e2g: "ss_e2g c = q"
      and rw: "g_ready y u (ss_garbler c) \<and> q @ os = [] \<or> (\<exists>b. g_waits y u b (ss_garbler c) \<and> q @ os = [b])"
      using at by (auto simp: session_at_def)
    obtain y' brk where y': "p_round y = Some (y', brk)" using todo_Suc [OF j(2,1)] by metis
    obtain m where m: "\<And>g inbox. g_ready y u g \<Longrightarrow> \<exists>g'. g_round g inbox = Some (Inr (Turn (g', inbox, m, brk)))"
      "\<And>g b inbox. g_waits y u b g \<Longrightarrow> \<exists>g'. g_round g (b # inbox) = Some (Inr (Turn (g', inbox, m, brk)))"
      using round_law [OF y' j(3)] by metis
    show ?thesis
    proof (cases "ss_g2e c = []")
      case e: True
      then have "os = []" using at behind_NilE [of x t os y u] unfolding session_at_def by metis
      then have "\<exists>g' inbox. g_round (ss_garbler c) (ss_e2g c) = Some (Inr (Turn (g', inbox, m, brk)))"
        using rw m e2g by fastforce
      then show ?thesis using session_step.garble [OF True] by blast
    qed (rule evaluator)
  next
    case g: False
    show ?thesis
    proof (cases "ss_e_phase c")
      case Running
      then have "ss_g2e c \<noteq> []" using at g by (auto simp: session_at_def)
      then show ?thesis by (rule evaluator)
    next
      case Closing
      then show ?thesis using session_step.send_final by blast
    next
      case Finished
      then have "ss_g_phase c = Closing" using at g assms(2) by (cases "ss_g_phase c") (auto simp: session_at_def)
      moreover have "final \<noteq> None \<Longrightarrow> \<exists>b bs. ss_e2g c = b # bs"
        using at g Finished \<open>ss_g_phase c = Closing\<close> by (auto simp: session_at_def)
      ultimately show ?thesis using session_step.no_final session_step.receive_final by metis
    qed
  qed
qed

lemma finished:
  assumes "session_inv xf final 0 c"
  shows "\<exists>t. secret xf t \<and> g_ready xf t (ss_garbler c) \<and> e_ready xf t (ss_evaluator c) \<and>
    ss_g2e c = [] \<and> ss_e2g c = [] \<and> ss_g_phase c = Finished \<and> ss_e_phase c = Finished \<and> ss_got c = final"
proof -
  obtain x t y u q os j where at: "session_at xf final 0 c x t y u q os j"
    using assms unfolding session_inv_def by blast
  then have e: "ss_g2e c = []" "j = 0" "ss_g_phase c = Finished" "ss_e_phase c = Finished" by (auto simp: session_at_def)
  have "behind x t (ss_g2e c) os y u" using at unfolding session_at_def by blast
  then have "behind x t [] os y u" using e(1) by simp
  then have "x = y \<and> t = u" by (rule behind_NilE) simp
  then have "e_ready y u (ss_evaluator c)" using at by (simp add: session_at_def)
  then show ?thesis using at e unfolding session_at_def todo_def by (intro exI [of _ u]) auto
qed

lemma session_exists:
  assumes "secret x t" "g_ready x t g" "e_ready x t e" "rounds p_round n x = Some xf" "k \<le> 2 * n + 2"
  shows "\<exists>c. (step final ^^ k) \<lparr>ss_garbler = g, ss_evaluator = e, ss_g2e = [], ss_e2g = [],
      ss_g_phase = Running, ss_e_phase = Running, ss_got = None\<rparr> c \<and> session_inv xf final (2 * n + 2 - k) c"
  using assms(5)
proof (induction k)
  case 0
  then show ?case using inv_start [OF assms(1-4)] by simp
next
  case (Suc k)
  then obtain c where c: "(step final ^^ k) \<lparr>ss_garbler = g, ss_evaluator = e, ss_g2e = [], ss_e2g = [],
      ss_g_phase = Running, ss_e_phase = Running, ss_got = None\<rparr> c" "session_inv xf final (2 * n + 2 - k) c"
    by auto
  obtain c' where c': "step final c c'" using progress [OF c(2)] Suc.prems by auto
  have "session_inv xf final (2 * n + 2 - Suc k) c'" using step_inv [OF c(2) c'] by simp
  then show ?case using c(1) c' by auto
qed

text \<open>Every session of \<open>n\<close> rounds takes \<open>2 * n + 2\<close> steps in whatever order and cannot stop before.\<close>

lemma session:
  assumes "secret x t" "g_ready x t g" "e_ready x t e" "rounds p_round n x = Some xf"
    and "(step final ^^ k) \<lparr>ss_garbler = g, ss_evaluator = e, ss_g2e = [], ss_e2g = [],
      ss_g_phase = Running, ss_e_phase = Running, ss_got = None\<rparr> c"
  shows "k \<le> 2 * n + 2 \<and> (k < 2 * n + 2 \<longrightarrow> (\<exists>c'. step final c c')) \<and>
    (k = 2 * n + 2 \<longrightarrow> (\<exists>t. secret xf t \<and> g_ready xf t (ss_garbler c) \<and> e_ready xf t (ss_evaluator c) \<and>
      ss_g2e c = [] \<and> ss_e2g c = [] \<and> ss_g_phase c = Finished \<and> ss_e_phase c = Finished \<and> ss_got c = final))"
proof -
  have "k \<le> 2 * n + 2 \<and> session_inv xf final (2 * n + 2 - k) c"
    using assms(5)
  proof (induction k arbitrary: c)
    case 0
    then show ?case using inv_start [OF assms(1-4)] by simp
  next
    case (Suc k)
    obtain c1 where c1: "(step final ^^ k) \<lparr>ss_garbler = g, ss_evaluator = e, ss_g2e = [], ss_e2g = [],
        ss_g_phase = Running, ss_e_phase = Running, ss_got = None\<rparr> c1" "step final c1 c"
      using Suc.prems by auto
    show ?case using step_inv [OF _ c1(2)] Suc.IH [OF c1(1)] by fastforce
  qed
  then show ?thesis using progress finished by auto
qed

end

section \<open>The rounds of the machine\<close>

text \<open>The garbler's turn with the channel as its inbox; the plain round ends where the evaluator's ends.\<close>

definition garbler_turn :: "yao_config \<Rightarrow> instr list \<Rightarrow> control \<times> Garbler_party \<Rightarrow> octetStream list \<Rightarrow>
    ((control \<times> Garbler_party) \<times> octetStream list \<times> (YaoHalfGate list \<times> bool list) \<times> BreakType) turn result option" where
  "garbler_turn cf p = (\<lambda>(k, g) inbox.
    case garble_round cf p (k, g\<lparr>gp_inbox := inbox\<rparr>) of
      None \<Rightarrow> None
    | Some (Inl e) \<Rightarrow> Some (Inl e)
    | Some (Inr Must_wait) \<Rightarrow> Some (Inr Must_wait)
    | Some (Inr (Turn ((k, g), m, b))) \<Rightarrow> Some (Inr (Turn ((k, g\<lparr>gp_inbox := []\<rparr>), gp_inbox g, m, b))))"

definition plain_turn :: "yao_config \<Rightarrow> instr list \<Rightarrow> control \<times> bool store \<Rightarrow> ((control \<times> bool store) \<times> BreakType) option" where
  "plain_turn cf p ks =
    (case gc_execute (plain_hooks True) p (cf_batch cf) ks of
       Some (Inr (fin, ks)) \<Rightarrow> Some (ks, case fin of Returned b \<Rightarrow> b | _ \<Rightarrow> TIME_BREAK)
     | _ \<Rightarrow> None)"

text \<open>What the parties hold between rounds: keys and labels of the plain bits, and the same registers.\<close>

abbreviation same_control :: "control \<Rightarrow> control \<Rightarrow> bool" where
  "same_control k k' \<equiv> k\<lparr>complexity := 0\<rparr> = k'\<lparr>complexity := 0\<rparr>"

fun yao_secret :: "yao_config \<Rightarrow> instr list \<Rightarrow> control \<times> bool store \<Rightarrow> m128 store \<times> u64 \<Rightarrow> bool" where
  "yao_secret cf p (k, V) (S, c) \<longleftrightarrow> conf_ok cf p \<and> same_store S V"

fun garbler_ready :: "control \<times> bool store \<Rightarrow> m128 store \<times> u64 \<Rightarrow> control \<times> Garbler_party \<Rightarrow> bool" where
  "garbler_ready (k, V) (S, c) (kg, g) \<longleftrightarrow> same_control kg k \<and> (\<exists>pr. g = gpt S [] c pr [] True [])"

fun garbler_waits :: "yao_config \<Rightarrow> instr list \<Rightarrow>
    control \<times> bool store \<Rightarrow> m128 store \<times> u64 \<Rightarrow> octetStream \<Rightarrow> control \<times> Garbler_party \<Rightarrow> bool" where
  "garbler_waits cf p (k, V) (S, c) buf (kg, g) \<longleftrightarrow> (\<exists>pr. g = gpt S [] c pr [] False []) \<and>
    pc kg < word_of_nat (length p) \<and> resumes cf (p ! unat (pc kg)) (kg\<lparr>pc := pc kg + 1\<rparr>) buf k"

fun evaluator_ready :: "yao_config \<Rightarrow> control \<times> bool store \<Rightarrow> m128 store \<times> u64 \<Rightarrow> control \<times> Evaluator_party \<Rightarrow> bool" where
  "evaluator_ready cf (k, V) (S, c) (ke, e) \<longleftrightarrow> same_control ke k \<and>
    (\<exists>gs ms. e = ept (store_labels (cf_delta cf) S V) gs c ms [])"

lemma exec_loop_inside:
  assumes "pc (fst ks) < word_of_nat (length p)"
  shows "exec_loop H p batch ks =
    (case gc_step H (p ! unat (pc (fst ks))) ((fst ks)\<lparr>pc := pc (fst ks) + 1\<rparr>, snd ks) of
       Inl e \<Rightarrow> Some (Inl e)
     | Inr Blocked \<Rightarrow> Some (Inr (Waiting, ks))
     | Inr (Cleaning ks') \<Rightarrow> Some (Inr (Needs_cleaning, ks'))
     | Inr (Next ks') \<Rightarrow>
         if complexity (fst ks') < batch then exec_loop H p batch ks' else Some (Inr (Returned TIME_BREAK, ks')))"
  by (subst exec_loop.simps) (simp only: assms [folded not_le] if_False)

lemma resume_round:
  assumes "garbler_waits cf p (k, V) (S, c) b (kg, g)"
  shows "\<exists>pr. g = gpt S [] c pr [] False [] \<and> (0 < cf_batch cf \<longrightarrow>
      gc_execute (garble_hooks cf) p (cf_batch cf) (kg, g\<lparr>gp_inbox := b # inbox\<rparr>) =
      exec_loop (garble_hooks cf) p (cf_batch cf) (k\<lparr>complexity := 0\<rparr>, gpt S [] c pr [] True inbox))"
    and "garbler_turn cf p (kg, g) [] = Some (Inr Must_wait)"
proof -
  obtain pr where g: "g = gpt S [] c pr [] False []" and pc: "pc kg < word_of_nat (length p)"
    and r: "resumes cf (p ! unat (pc kg)) (kg\<lparr>pc := pc kg + 1\<rparr>) b k"
    using assms by auto
  have up: "kg\<lparr>complexity := 0, pc := pc kg + 1\<rparr> = kg\<lparr>pc := pc kg + 1\<rparr>\<lparr>complexity := 0\<rparr>" by simp
  have 1: "gc_step (garble_hooks cf) (p ! unat (pc kg)) (kg\<lparr>complexity := 0, pc := pc kg + 1\<rparr>, gpt S [] c pr [] False (b # inbox)) =
      Inr (Next (k\<lparr>complexity := 0\<rparr>, gpt S [] c pr [] True inbox))"
    using r unfolding resumes_def up by blast
  have 2: "gc_step (garble_hooks cf) (p ! unat (pc kg)) (kg\<lparr>complexity := 0, pc := pc kg + 1\<rparr>, gpt S [] c pr [] False []) =
      Inr Blocked"
    using r unfolding resumes_def up by blast
  have run: "gc_execute (garble_hooks cf) p (cf_batch cf) (kg, g\<lparr>gp_inbox := b # inbox\<rparr>) =
      exec_loop (garble_hooks cf) p (cf_batch cf) (k\<lparr>complexity := 0\<rparr>, gpt S [] c pr [] True inbox)" if "0 < cf_batch cf"
    unfolding gc_execute_def prod.case g using pc that by (simp add: exec_loop_inside 1)
  show "\<exists>pr. g = gpt S [] c pr [] False [] \<and> (0 < cf_batch cf \<longrightarrow>
      gc_execute (garble_hooks cf) p (cf_batch cf) (kg, g\<lparr>gp_inbox := b # inbox\<rparr>) =
      exec_loop (garble_hooks cf) p (cf_batch cf) (k\<lparr>complexity := 0\<rparr>, gpt S [] c pr [] True inbox))"
    by (rule exI [of _ pr]) (intro conjI impI g run)
  have "gc_execute (garble_hooks cf) p (cf_batch cf) (kg, g) = Some (Inr (Waiting, kg\<lparr>complexity := 0\<rparr>, g))"
    unfolding gc_execute_def prod.case g
    using pc by (simp add: exec_loop_inside 2)
  then show "garbler_turn cf p (kg, g) [] = Some (Inr Must_wait)"
    by (simp add: garbler_turn_def garble_round_def g)
qed

text \<open>What a garbler's turn returns once its loop has served the round.\<close>

lemma turn_of_exec:
  assumes run: "gc_execute (garble_hooks cf) p (cf_batch cf) (kg, g\<lparr>gp_inbox := inbox\<rparr>) =
      Some (Inr (fin, k1, gpt S' gs c' pr' ms (fin \<noteq> Needs_cleaning) inbox'))"
    and cf: "cf_continuous cf" and fin: "fin = Needs_cleaning \<and> outs = [buf] \<and> pc k1 - 1 < word_of_nat (length p) \<and>
        resumes cf (p ! unat (pc k1 - 1)) k1 buf k' \<or> (\<exists>b. fin = Returned b) \<and> outs = [] \<and> k1 = k'"
  shows "\<exists>g'. garbler_turn cf p (kg, g) inbox =
      Some (Inr (Turn (g', inbox', (gs, ms), case fin of Returned b \<Rightarrow> b | _ \<Rightarrow> TIME_BREAK))) \<and>
    (if outs = [] then garbler_ready (k', V') (S', c') g' else garbler_waits cf p (k', V') (S', c') (hd outs) g')"
  using fin
proof (elim disjE conjE exE)
  fix b assume "fin = Returned b" "outs = []" "k1 = k'"
  then show ?thesis using run by (simp add: garbler_turn_def garble_round_def Let_def)
next
  assume "fin = Needs_cleaning" "outs = [buf]" "pc k1 - 1 < word_of_nat (length p)"
    "resumes cf (p ! unat (pc k1 - 1)) k1 buf k'"
  then show ?thesis using run cf by (simp add: garbler_turn_def garble_round_def Let_def)
qed

interpretation yao: garbled_rounds "plain_turn cf p" "garbler_turn cf p" "eval_round cf p"
    "yao_secret cf p" garbler_ready "garbler_waits cf p" "evaluator_ready cf"
  for cf p
proof
  fix x :: "control \<times> bool store" and x' brk and t :: "m128 store \<times> u64"
  assume turn: "plain_turn cf p x = Some (x', brk)" and sec: "yao_secret cf p x t"
  obtain k V where x: "x = (k, V)" by (cases x)
  obtain S c where t: "t = (S, c)" by (cases t)
  obtain k' V' where x': "x' = (k', V')" by (cases x')
  have cf: "conf_ok cf p" and S: "same_store S V" using sec by (simp_all add: x t)
  obtain fin where fin: "exec_loop (plain_hooks True) p (cf_batch cf) (k\<lparr>complexity := 0\<rparr>, V) = Some (Inr (fin, k', V'))"
      "brk = (case fin of Returned b \<Rightarrow> b | _ \<Rightarrow> TIME_BREAK)"
    using turn by (auto simp: plain_turn_def gc_execute_def x x' split: option.splits sum.splits)
  obtain S' c' gs ms bufs kg where serves: "serves cf p (k\<lparr>complexity := 0\<rparr>) S V c fin k' S' V' c' gs ms bufs kg"
    using exec_loop_serves [OF cf fin(1) S] by blast
  have S': "same_store S' V'"
    and G: "\<And>gs0 pr ms0 inbox. \<exists>pr'. exec_loop (garble_hooks cf) p (cf_batch cf) (k\<lparr>complexity := 0\<rparr>, gpt S gs0 c pr ms0 True inbox) =
      Some (Inr (fin, kg, gpt S' (gs0 @ gs) c' pr' (ms0 @ ms) (fin \<noteq> Needs_cleaning) inbox))"
    and E: "\<And>rg rm out. exec_loop (eval_hooks cf) p (cf_batch cf)
        (k\<lparr>complexity := 0\<rparr>, ept (store_labels (cf_delta cf) S V) (gs @ rg) c (ms @ rm) out) =
      Some (Inr (fin, k', ept (store_labels (cf_delta cf) S' V') rg c' rm (out @ bufs)))"
    using serves unfolding serves_def by blast+
  have ends: "(\<exists>buf. fin = Needs_cleaning \<and> bufs = [buf] \<and> pc kg - 1 < word_of_nat (length p) \<and>
      resumes cf (p ! unat (pc kg - 1)) kg buf k') \<or> (\<exists>b. fin = Returned b) \<and> bufs = [] \<and> kg = k'"
    using serves by (cases fin) (auto simp: serves_def)
  have cont: "cf_continuous cf" "0 < cf_batch cf" using cf by (simp_all add: conf_ok_def)
  have garble: "\<exists>g'. garbler_turn cf p (kg0, g) inbox = Some (Inr (Turn (g', inbox', (gs, ms), brk))) \<and>
      (if bufs = [] then garbler_ready x' (S', c') g' else garbler_waits cf p x' (S', c') (hd bufs) g')"
    if exec: "gc_execute (garble_hooks cf) p (cf_batch cf) (kg0, g\<lparr>gp_inbox := inbox\<rparr>) =
      exec_loop (garble_hooks cf) p (cf_batch cf) (k\<lparr>complexity := 0\<rparr>, gpt S [] c pr [] True inbox')" for kg0 g inbox inbox' pr
  proof -
    obtain pr' where "gc_execute (garble_hooks cf) p (cf_batch cf) (kg0, g\<lparr>gp_inbox := inbox\<rparr>) =
        Some (Inr (fin, kg, gpt S' gs c' pr' ms (fin \<noteq> Needs_cleaning) inbox'))"
      using G [of "[]" pr "[]" inbox'] exec by auto
    from turn_of_exec [OF this cont(1)] show ?thesis using ends fin(2) unfolding x' by blast
  qed
  show "\<exists>t' m outs. yao_secret cf p x' t' \<and> (outs = [] \<or> brk = TIME_BREAK \<and> (\<exists>b. outs = [b])) \<and>
      (\<forall>g inbox. garbler_ready x t g \<longrightarrow> (\<exists>g'. garbler_turn cf p g inbox = Some (Inr (Turn (g', inbox, m, brk))) \<and>
        (if outs = [] then garbler_ready x' t' g' else garbler_waits cf p x' t' (hd outs) g'))) \<and>
      (\<forall>g b inbox. garbler_waits cf p x t b g \<longrightarrow>
        (\<exists>g'. garbler_turn cf p g (b # inbox) = Some (Inr (Turn (g', inbox, m, brk))) \<and>
          (if outs = [] then garbler_ready x' t' g' else garbler_waits cf p x' t' (hd outs) g'))) \<and>
      (\<forall>e. evaluator_ready cf x t e \<longrightarrow> (\<exists>e'. eval_round cf p e m = Some (Inr (e', outs, brk)) \<and> evaluator_ready cf x' t' e'))"
  proof (rule exI [of _ "(S', c')"], rule exI [of _ "(gs, ms)"], rule exI [of _ bufs], intro conjI allI impI)
    show "yao_secret cf p x' (S', c')" using cf S' by (simp add: x')
    show "bufs = [] \<or> brk = TIME_BREAK \<and> (\<exists>b. bufs = [b])" using ends fin(2) by auto
  next
    fix g inbox assume g: "garbler_ready x t g"
    obtain kg0 pr where "g = (kg0, gpt S [] c pr [] True [])" "same_control kg0 k"
      using g by (cases g) (auto simp: x t)
    then show "\<exists>g'. garbler_turn cf p g inbox = Some (Inr (Turn (g', inbox, (gs, ms), brk))) \<and>
        (if bufs = [] then garbler_ready x' (S', c') g' else garbler_waits cf p x' (S', c') (hd bufs) g')"
      using garble [where g = "gpt S [] c pr [] True []" and inbox = inbox and pr = pr and inbox' = inbox] by (simp add: gc_execute_def)
  next
    fix g b inbox assume g: "garbler_waits cf p x t b g"
    obtain kg0 g0 where g0: "g = (kg0, g0)" by (cases g)
    then show "\<exists>g'. garbler_turn cf p g (b # inbox) = Some (Inr (Turn (g', inbox, (gs, ms), brk))) \<and>
        (if bufs = [] then garbler_ready x' (S', c') g' else garbler_waits cf p x' (S', c') (hd bufs) g')"
      using garble resume_round(1) [OF g [unfolded g0 x t], of inbox] cont(2) by blast
  next
    fix e assume e: "evaluator_ready cf x t e"
    obtain ke gs0 ms0 where ke: "e = (ke, ept (store_labels (cf_delta cf) S V) gs0 c ms0 [])" "same_control ke k"
      using e by (cases e) (auto simp: x t)
    have "eval_round cf p e (gs, ms) = Some (Inr ((k', ept (store_labels (cf_delta cf) S' V') [] c' [] []), bufs, brk))"
      using E [of "[]" "[]" "[]"] fin(2) by (simp add: ke eval_round_def gc_execute_def)
    then show "\<exists>e'. eval_round cf p e (gs, ms) = Some (Inr (e', bufs, brk)) \<and> evaluator_ready cf x' (S', c') e'"
      by (simp add: x')
  qed
next
  fix x :: "control \<times> bool store" and t :: "m128 store \<times> u64" and b and g :: "control \<times> Garbler_party"
  assume g: "garbler_waits cf p x t b g"
  obtain k V S c kg g0 where "x = (k, V)" "t = (S, c)" "g = (kg, g0)" by (cases x; cases t; cases g)
  then show "garbler_turn cf p g [] = Some (Inr Must_wait)"
    using resume_round(2) g by simp
qed

section \<open>Sessions of the machine\<close>

text \<open>Both parties at the start of \<^verbatim>\<open>run\<close>, the garbler with the keys, the evaluator with the labels of \<open>V\<close>.\<close>

definition start_session :: "yao_config \<Rightarrow> control \<Rightarrow> m128 store \<Rightarrow> bool store \<Rightarrow> u64 \<Rightarrow> prng \<Rightarrow>
    (control \<times> Garbler_party, control \<times> Evaluator_party, YaoHalfGate list \<times> bool list, octetStream) session" where
  "start_session cf k S V c pr =
    \<lparr>ss_garbler = (k, gpt S [] c pr [] True []), ss_evaluator = (k, ept (store_labels (cf_delta cf) S V) [] c [] []),
     ss_g2e = [], ss_e2g = [], ss_g_phase = Running, ss_e_phase = Running, ss_got = None\<rparr>"

abbreviation yao_step where
  "yao_step cf p final \<equiv> session_step (garbler_turn cf p) (eval_round cf p) final"

lemma start_ready:
  assumes "conf_ok cf p" "same_store S V"
  shows "yao_secret cf p (k, V) (S, c)" "garbler_ready (k, V) (S, c) (k, gpt S [] c pr [] True [])"
    "evaluator_ready cf (k, V) (S, c) (k, ept (store_labels (cf_delta cf) S V) [] c [] [])"
  using assms by auto

text \<open>A small program: a conjunction, its opening, a jump that depends on the opened bit, and the bit printed.\<close>

definition demo_config :: yao_config where
  "demo_config = \<lparr>cf_hash = (\<lambda>k. m128_add k k), cf_delta = (3, 5), cf_base = 0, cf_batch = 1000, cf_threshold = 1024,
    cf_jobs = [], cf_workers = 0, cf_continuous = True\<rparr>"

definition demo_program :: "instr list" where
  "demo_program = [SECRET (ANDS [1, 2, 0, 1]), SECRET (STMSB 1 2 0), REVEAL [1, 0, 2], CONVCBIT 0 0, JMPNZ 0 1,
    SECRET (NOTS 1 2 2), PRINT (PRINTINT 0)]"

definition demo_control :: "u32 \<Rightarrow> u64 \<Rightarrow> control" where
  "demo_control n x = \<lparr>pc = n, complexity = 0, C_regs = [x], I_regs = [x],
    MC_mem = [], MI_mem = [], stacki = [], tape_arg = 0, printed = (if n = 0 then [] else [Out_dec (sint x)])\<rparr>"

lemma demo_rounds:
  "rounds (plain_turn demo_config demo_program) 2 (demo_control 0 0, [[True], [True], []], [[]]) =
    Some (demo_control 7 1, [[True], [True], [True]], [[True]])"
  by code_simp

lemma demo_ok: "conf_ok demo_config demo_program"
  by (simp add: conf_ok_def demo_config_def demo_program_def get_signal_def args_disjoint_def quad_disjoint_def
      and_total_def div_ceil_def default_length_def reveal_units_def)

text \<open>Sessions of the small program with keys for its input bits.\<close>

lemma demo_shape: "same_store ([[(1, 2)], [(3, 4)], []], [[]]) ([[True], [True], []], [[]])"
  by (simp add: same_store_def same_shape_def)





end
