(* ===== verification/Init_Phase.thy ===== *)
theory Init_Phase
  imports PPSS Yao_Session
begin

text \<open>
  The Init phase as a whole: after the garbled evaluation the evaluator sends the packet with the masked shares and
  the commitment (\<^verbatim>\<open>YaoEvaluator.init.cpp\<close>, \<^verbatim>\<open>YaoGarbler.init.cpp\<close>).  In continuous mode it arrives; with the option
  \<^verbatim>\<open>--oneshot\<close> the two programs wait for each other.
\<close>

section \<open>The packet arrives\<close>

text \<open>\<^verbatim>\<open>Initfinalize.store_bytes(Init_pack, sizeof(Init_pack))\<close>.\<close>

definition init_finalize :: "(u8 list \<Rightarrow> u8 list) \<Rightarrow> Init_state \<Rightarrow> octetStream result" where
  "init_finalize sha st = store_bytes (init_pack sha st) empty_stream"

lemma store_bytes_fresh:
  assumes "length x < 2 ^ 31"
  shows "\<exists>b r. store_bytes x empty_stream = Inr b \<and> get_bytes b = Inr (x, r)"
proof -
  have n: "unat (word_of_nat (length x) :: u64) < 2 ^ (8 * 4)" using assms by (simp add: unat_u64_of_nat)
  obtain m where 1: "store_int (word_of_nat (length x)) 4 empty_stream =
      Inr (empty_stream\<lparr>os_data := le_bytes 4 (word_of_nat (length x)), os_mxlen := m\<rparr>)" (is "_ = Inr ?w")
    using append_ok [OF writable_empty(1), of "le_bytes 4 (word_of_nat (length x))"] encode_small(1) [of 4, OF _ _ n]
    by (auto simp: store_int_def flushed_def empty_stream_def no_bits_def)
  have "writable ?w" using store_int_get_int [OF writable_empty(1) _ _ n] 1 by auto
  then obtain m' where 2: "append x ?w = Inr (?w\<lparr>os_data := os_data ?w @ x, os_mxlen := m'\<rparr>)" (is "_ = Inr ?b")
    using append_ok [of ?w x] by (auto simp: flushed_def empty_stream_def no_bits_def)
  have b: "store_bytes x empty_stream = Inr ?b" using 1 2 by (simp add: store_bytes_def)
  have "delivers empty_stream ?b get_bytes x"
    using os_bytes.put_get [OF _ writable_empty(1), of x] b assms by auto
  then have "\<exists>r. get_bytes ?b = Inr (x, r)"
    by (rule fresh_delivers) (use assms in \<open>simp_all add: empty_stream_def no_bits_def\<close>)
  then show ?thesis using b by blast
qed

lemma length_init_pack:
  assumes "\<forall>x. length (sha x) = 32"
  shows "length (init_pack sha (ppss_mask sha t n G)) = 16 * n + 32"
proof -
  have "length (concat (map storeu es)) = 16 * length es" for es by (induction es) (auto simp: storeu_def)
  moreover have "length (in_e (ppss_mask sha t n G)) = n" by (simp add: ppss_mask_def Let_def)
  ultimately show ?thesis using assms by (simp add: init_pack_def ppss_commit_def Let_def split_def)
qed




section \<open>One-shot mode\<close>

text \<open>
  With \<^verbatim>\<open>--oneshot\<close> the garbler garbles the whole program, then sends \<^verbatim>\<open>DONE\<close> in \<^verbatim>\<open>post_run\<close>; the evaluator stores
  everything up to \<^verbatim>\<open>DONE\<close> in \<^verbatim>\<open>pre_run\<close> and evaluates afterwards.  In the Init program \<^verbatim>\<open>run\<close> ends with the receipt of the
  packet (\<open>awaits\<close>), in the plain OPRF program it does not.  The evaluator sends nothing before it has stored all.
\<close>

datatype 'm one_shot_msg = MORE 'm | DONE

datatype one_shot_phase = Garbling | Awaiting_packet | Post_run | Ended

record ('g, 'm, 'b) one_shot =
  one_garbler :: 'g
  one_phase :: one_shot_phase
  one_g2e :: "'m one_shot_msg list"
  one_e2g :: "'b list"
  one_store :: "'m list"
  one_stored :: bool

inductive one_shot_step ::
  "('g \<Rightarrow> 'b list \<Rightarrow> ('g \<times> 'b list \<times> 'm \<times> BreakType) turn result option) \<Rightarrow> bool \<Rightarrow>
   ('g, 'm, 'b) one_shot \<Rightarrow> ('g, 'm, 'b) one_shot \<Rightarrow> bool"
  for g_round awaits where
  garble: "one_phase c = Garbling \<Longrightarrow> g_round (one_garbler c) (one_e2g c) = Some (Inr (Turn (g, inbox, m, brk))) \<Longrightarrow>
    one_shot_step g_round awaits c (c\<lparr>one_garbler := g, one_e2g := inbox, one_g2e := one_g2e c @ [MORE m],
      one_phase := (if brk = DONE_BREAK then if awaits then Awaiting_packet else Post_run else Garbling)\<rparr>)"
| receive_packet: "one_phase c = Awaiting_packet \<Longrightarrow> one_e2g c = b # bs \<Longrightarrow>
    one_shot_step g_round awaits c (c\<lparr>one_e2g := bs, one_phase := Post_run\<rparr>)"
| post_run: "one_phase c = Post_run \<Longrightarrow>
    one_shot_step g_round awaits c (c\<lparr>one_g2e := one_g2e c @ [DONE], one_phase := Ended\<rparr>)"
| receive_more: "\<not> one_stored c \<Longrightarrow> one_g2e c = MORE m # ms \<Longrightarrow>
    one_shot_step g_round awaits c (c\<lparr>one_g2e := ms, one_store := one_store c @ [m]\<rparr>)"
| receive_done: "\<not> one_stored c \<Longrightarrow> one_g2e c = DONE # ms \<Longrightarrow>
    one_shot_step g_round awaits c (c\<lparr>one_g2e := ms, one_stored := True\<rparr>)"

inductive_cases one_shot_stepE: "one_shot_step g_round awaits c c'"

definition one_shot_start :: "'g \<Rightarrow> ('g, 'm, 'b) one_shot" where
  "one_shot_start g = \<lparr>one_garbler = g, one_phase = Garbling, one_g2e = [], one_e2g = [], one_store = [], one_stored = False\<rparr>"

text \<open>The garbler cannot leave \<open>Awaiting_packet\<close> before the evaluator sends, and the evaluator waits for \<open>DONE\<close>.\<close>

definition stuck_inv :: "('g, 'm, 'b) one_shot \<Rightarrow> bool" where
  "stuck_inv c \<longleftrightarrow> one_phase c \<in> {Garbling, Awaiting_packet} \<and> DONE \<notin> set (one_g2e c) \<and> one_e2g c = [] \<and> \<not> one_stored c"

definition no_new_messages :: "('g \<Rightarrow> 'b list \<Rightarrow> ('g \<times> 'b list \<times> 'm \<times> BreakType) turn result option) \<Rightarrow> bool" where
  "no_new_messages g_round \<longleftrightarrow> (\<forall>g g' inbox m b. g_round g [] = Some (Inr (Turn (g', inbox, m, b))) \<longrightarrow> inbox = [])"

lemma stuck_step:
  assumes "one_shot_step g_round True c c'" "stuck_inv c" "no_new_messages g_round"
  shows "stuck_inv c'"
  using assms(1)
proof cases
  case (garble g inbox m brk)
  moreover from this have "inbox = []" using assms(2,3) unfolding stuck_inv_def no_new_messages_def by metis
  ultimately show ?thesis using assms(2) by (auto simp: stuck_inv_def)
qed (use assms(2) in \<open>auto simp: stuck_inv_def\<close>)


text \<open>The garbler only takes messages off its inbox.\<close>

lemma reveal_keeps_inbox:
  "reveal_list garble_secret_reveal (k, g) us = Inr (k', g') \<Longrightarrow> gp_inbox g' = gp_inbox g"
proof (induction us arbitrary: k g)
  case (Cons u us)
  obtain n r0 r1 where u: "u = (n, r0, r1)" by (cases u)
  obtain x g1 k1 where 1: "garble_secret_reveal n r1 g = Inr (x, g1)" "reveal_list garble_secret_reveal (k1, g1) us = Inr (k', g')"
    using Cons.prems by (auto simp: u bind_result_Inr_iff)
  have "gp_inbox g1 = gp_inbox g" using 1(1) by (auto simp: garble_secret_reveal_def bind_result_Inr_iff split: if_splits)
  then show ?case using Cons.IH [OF 1(2)] by simp
qed simp

lemma step_keeps_inbox:
  assumes "gc_step (garble_hooks cf) i (k, g) = Inr out" "gp_inbox g = []"
  shows "\<forall>k' g'. out = Next (k', g') \<or> out = Cleaning (k', g') \<longrightarrow> gp_inbox g' = []"
proof (cases i)
  case (REVEAL args)
  then show ?thesis using assms
    by (auto simp: garble_hooks_def garble_reveal_inst_def processor_reveal_def bind_result_Inr_iff
        split: if_splits dest!: reveal_keeps_inbox)
next
  case (CONVCBIT r0 r1)
  then show ?thesis using assms
    by (auto simp: garble_hooks_def garble_convcbit_def bind_result_Inr_iff split: if_splits)
qed (use assms in \<open>auto simp: garble_hooks_def lift_mem_def bind_result_Inr_iff\<close>)

lemma no_new_messages_turn: "no_new_messages (garbler_turn cf p)"
proof -
  have loop: "gp_inbox (snd ks) = [] \<Longrightarrow> y = Inr (fin, ks') \<Longrightarrow> gp_inbox (snd ks') = []"
    if "exec_loop (garble_hooks cf) p batch ks = Some y" for batch ks y fin ks'
    using that
  proof (induction arbitrary: fin ks' rule: exec_loop_rule)
    case (loop loop ks y fin ks')
    let ?out = "gc_step (garble_hooks cf) (p ! unat (pc (fst ks))) ((fst ks)\<lparr>pc := pc (fst ks) + 1\<rparr>, snd ks)"
    have step: "gp_inbox (snd ks1) = []" if "?out = Inr out" "out = Next ks1 \<or> out = Cleaning ks1" for out ks1
      using step_keeps_inbox [OF that(1) loop.prems(1)] that(2) by (cases ks1) auto
    show ?case
    proof (cases "word_of_nat (length p) \<le> pc (fst ks)")
      case True
      then show ?thesis using loop.hyps loop.prems by simp
    next
      case False
      then obtain out where out: "?out = Inr out" using loop.hyps loop.prems by (cases ?out) auto
      show ?thesis
      proof (cases out)
        case (Next ks1)
        then show ?thesis
          using loop.hyps loop.prems loop.IH [of ks1 y fin ks'] step [OF out] out False by (auto split: if_splits)
      next
        case (Cleaning ks1)
        then show ?thesis using loop.hyps loop.prems step [OF out] out False by auto
      next
        case Blocked
        then show ?thesis using loop.hyps loop.prems out False by auto
      qed
    qed
  qed
  show ?thesis
    unfolding no_new_messages_def garbler_turn_def garble_round_def gc_execute_def Let_def
    by (auto split: option.splits sum.splits exec_end.splits if_splits turn.splits dest!: loop)
qed

text \<open>
  C38.  The Init programs hang in one-shot mode.  No run ever ends: the garbler, garbling done, waits for the packet, and
  the evaluator, which has stored what came, waits for \<open>DONE\<close>; when everything sent has been stored, no party can
  move.
\<close>

theorem one_shot_init_hangs:
  assumes "(one_shot_step (garbler_turn cf p) True)\<^sup>*\<^sup>* (one_shot_start ks) c"
  shows "one_phase c \<noteq> Ended \<and> \<not> one_stored c \<and>
    (one_phase c = Awaiting_packet \<and> one_g2e c = [] \<longrightarrow> \<not> (\<exists>c'. one_shot_step (garbler_turn cf p) True c c'))"
proof -
  have "stuck_inv c" using assms
  proof (induction rule: rtranclp_induct)
    case base
    show ?case by (simp add: stuck_inv_def one_shot_start_def)
  next
    case (step c c')
    then show ?case using stuck_step no_new_messages_turn by blast
  qed
  then show ?thesis by (auto simp: stuck_inv_def elim: one_shot_stepE)
qed

lemma one_shot_init_hangs_witness:
  "\<exists>c. (one_shot_step (garbler_turn demo_config []) True)\<^sup>*\<^sup>* (one_shot_start (demo_control 0 0,
      gpt ([], []) [] 0 \<lparr>doublewords = \<lambda>i. (of_nat i, 9), used = 0\<rparr> [] True [])) c \<and>
    \<not> (\<exists>c'. one_shot_step (garbler_turn demo_config []) True c c')"
proof -
  let ?ks = "(demo_control 0 0, gpt ([], []) [] 0 \<lparr>doublewords = \<lambda>i. (of_nat i, 9), used = 0\<rparr> [] True [])"
  let ?step = "one_shot_step (garbler_turn demo_config []) True"
  have turn: "garbler_turn demo_config [] ?ks [] = Some (Inr (Turn (?ks, [], ([], []), DONE_BREAK)))"
    by (simp add: garbler_turn_def garble_round_def gc_execute_def exec_loop.simps demo_control_def)
  let ?c1 = "(one_shot_start ?ks)\<lparr>one_g2e := [MORE ([], [])], one_phase := Awaiting_packet\<rparr>"
  let ?c2 = "?c1\<lparr>one_g2e := [], one_store := [([], [])]\<rparr>"
  from turn have 1: "?step (one_shot_start ?ks) ?c1"
    using one_shot_step.garble [of "one_shot_start ?ks" "garbler_turn demo_config []" ?ks "[]" "([], [])" DONE_BREAK True]
    by (simp add: one_shot_start_def)
  have "?step ?c1 (?c1\<lparr>one_g2e := [], one_store := [([], [])]\<rparr>)"
    using one_shot_step.receive_more [of ?c1 "([], [])" "[]"] by (simp add: one_shot_start_def)
  with 1 have "?step\<^sup>*\<^sup>* (one_shot_start ?ks) ?c2" by simp
  then show ?thesis using one_shot_init_hangs [of demo_config "[]" ?ks ?c2] by (intro exI [of _ ?c2]) simp
qed

text \<open>
  Run-time branching is refused in one-shot mode.  The first jump on an opened value (the party is tainted from the
  start) makes the garbler throw, and nothing is sent.
\<close>

theorem one_shot_branching_fails:
  assumes "\<not> cf_continuous cf" "gp_tainted g" "pc k < word_of_nat (length p)"
    and "p ! unat (pc k) = CONVCBIT r0 r1" "r1 < length (C_regs k)"
  shows "garble_round cf p (k, g) = Some (Inl (runtime_error ''run-time branching impossible with garbling at once''))"
  using assms by (simp add: garble_round_def gc_execute_def exec_loop_inside garble_hooks_def garble_convcbit_def Let_def)

lemma one_shot_branching_fails_witness:
  "garble_round (demo_config\<lparr>cf_continuous := False\<rparr>) [CONVCBIT 0 0] (demo_control 0 0,
      gpt ([], []) [] 0 \<lparr>doublewords = \<lambda>i. (of_nat i, 9), used = 0\<rparr> [] True []) =
    Some (Inl (runtime_error ''run-time branching impossible with garbling at once''))"
  by (rule one_shot_branching_fails) (simp_all add: demo_config_def demo_control_def)

end
