(* ===== verification/Yao_Ends.thy ===== *)
theory Yao_Ends
  imports Yao_Session
begin

text \<open>
  The loop of the virtual machine may run for ever, as the bytecode may.  This theory shows when it does not: a program
  that only jumps forward comes to an end in every round of either party, and on plain bits.
\<close>

text \<open>
  A jump adds the low 32 bits of its offset to the program counter, so an offset below \<open>2\<^sup>3\<^sup>1\<close> goes forward.  The
  target of \<^verbatim>\<open>JMPI\<close> is not known before the run.
\<close>

fun goes_forward :: "instr \<Rightarrow> bool" where
  "goes_forward (JMP n) \<longleftrightarrow> (ucast n :: u32) < 2 ^ 31"
| "goes_forward (JMPNZ r n) \<longleftrightarrow> (ucast n :: u32) < 2 ^ 31"
| "goes_forward (JMPEQZ r n) \<longleftrightarrow> (ucast n :: u32) < 2 ^ 31"
| "goes_forward (JMPI r) \<longleftrightarrow> False"
| "goes_forward _ \<longleftrightarrow> True"

text \<open>No instruction but a jump moves the program counter.\<close>

lemma set_C_pc: "set_C r x k = Inr k' \<Longrightarrow> pc k' = pc k"
  by (auto simp: set_C_def bind_result_Inr_iff)

lemma set_I_pc: "set_I r x k = Inr k' \<Longrightarrow> pc k' = pc k"
  by (auto simp: set_I_def bind_result_Inr_iff)

lemmas pc_simps = bind_result_Inr_iff on_C_def on_I_def on_II_def

lemma xorc_pc: "xorc n r0 r1 r2 k = Inr k' \<Longrightarrow> pc k' = pc k"
  unfolding xorc_def by (rule fold_result_keeps [of _ pc]) (auto simp: Let_def pc_simps dest: set_C_pc)

lemma notcb_pc: "notcb n r0 r1 k = Inr k' \<Longrightarrow> pc k' = pc k"
  unfolding notcb_def by (rule fold_result_keeps [of _ pc]) (auto simp: Let_def pc_simps dest: set_C_pc)

lemma bitdecc_pc: "bitdecc regs x k = Inr k' \<Longrightarrow> pc k' = pc k"
  unfolding bitdecc_def by (rule fold_result_keeps [of _ pc]) (auto simp: pc_simps dest: set_C_pc)

lemma bitdecint_pc: "bitdecint regs x k = Inr k' \<Longrightarrow> pc k' = pc k"
  unfolding bitdecint_def by (rule fold_result_keeps [of _ pc]) (auto simp: pc_simps dest: set_I_pc)

lemma memory_pc:
  "load_C n r a k = Inr k' \<Longrightarrow> pc k' = pc k" "store_C n r a k = Inr k' \<Longrightarrow> pc k' = pc k"
  "load_I r a k = Inr k' \<Longrightarrow> pc k' = pc k" "store_I r a k = Inr k' \<Longrightarrow> pc k' = pc k"
  by (auto simp: load_C_def store_C_def load_I_def store_I_def pc_simps dest: set_I_pc)

lemma popi_pc: "popi k = Inr (x, k') \<Longrightarrow> pc k' = pc k"
  by (auto simp: popi_def split: list.splits)

lemma dynamic_pc: "store_clear_in_dynamic args k = Inr k' \<Longrightarrow> pc k' = pc k"
  by (auto simp: store_clear_in_dynamic_def pc_simps)

lemma print_pc:
  "pc (print_out xs k) = pc k" "print_reg r n m k = Inr k' \<Longrightarrow> pc k' = pc k" "print_reg_signed n r k = Inr k' \<Longrightarrow> pc k' = pc k"
  by (auto simp: print_out_def print_reg_def print_reg_signed_def pc_simps Let_def split: if_splits)

lemma cbit_instr_pc: "cbit_instr op k = Inr k' \<Longrightarrow> pc k' = pc k"
  by (cases op) (auto simp: pc_simps dest: set_C_pc xorc_pc notcb_pc bitdecc_pc memory_pc dynamic_pc)

lemma int_instr_pc: "int_instr op k = Inr k' \<Longrightarrow> pc k' = pc k"
  by (cases op) (auto simp: pc_simps pushi_def dest!: set_I_pc memory_pc bitdecint_pc popi_pc)

lemma print_instr_pc: "print_instr op k = Inr k' \<Longrightarrow> pc k' = pc k"
  by (cases op) (auto simp: pc_simps print_pc(1) dest: print_pc(2,3))

lemma clear_instr_pc:
  assumes "clear_instr i k = Inr k'" "goes_forward i"
  shows "\<exists>n < 2 ^ 31. pc k' = pc k + n"
proof -
  have stay: "\<exists>n < 2 ^ 31. pc k' = pc k + n" if "pc k' = pc k" using that by (intro exI [of _ 0]) simp
  show ?thesis
    using assms
    by (cases i) (auto simp: pc_simps jump_def split: if_splits intro: stay exI [of _ "ucast n" for n]
        dest: cbit_instr_pc int_instr_pc print_instr_pc)
qed

text \<open>What opens a register leaves the program counter alone.\<close>

definition keeps_pc :: "'s hooks \<Rightarrow> bool" where
  "keeps_pc H \<longleftrightarrow>
    (\<forall>args k s k' s'. T_reveal_inst H args (k, s) = Inr (Next (k', s')) \<longrightarrow> pc k' = pc k) \<and>
    (\<forall>r x k s k' s'. T_convcbit H r x (k, s) = Inr (Next (k', s')) \<longrightarrow> pc k' = pc k)"

lemma processor_reveal_pc: "processor_reveal rv args (k, s) = Inr (k', s') \<Longrightarrow> pc k' = pc k"
  unfolding processor_reveal_def
  by (auto simp: pc_simps split: if_splits prod.splits dest!: set_C_pc fold_result_keeps [of _ "\<lambda>ks. pc (fst ks)", rotated])

lemma unpack_clear_pc: "unpack_clear args b k = Inr k' \<Longrightarrow> pc k' = pc k"
  unfolding unpack_clear_def
  by (auto simp: pc_simps split: prod.splits dest!: set_C_pc fold_result_keeps [of _ "\<lambda>ks. pc (fst ks)", rotated])

lemma garble_keeps_pc: "keeps_pc (garble_hooks cf)"
  by (auto simp: keeps_pc_def garble_hooks_def garble_reveal_inst_def garble_convcbit_def pc_simps
      split: if_splits list.splits dest: processor_reveal_pc unpack_clear_pc set_I_pc)

lemma eval_keeps_pc: "keeps_pc (eval_hooks cf)"
  by (auto simp: keeps_pc_def eval_hooks_def eval_reveal_inst_def eval_convcbit_def pc_simps
      split: if_splits dest: processor_reveal_pc set_I_pc)

lemma plain_keeps_pc: "keeps_pc (plain_hooks c)"
  by (auto simp: keeps_pc_def plain_hooks_def pc_simps split: if_splits dest: processor_reveal_pc set_I_pc)

lemma keeps_pcD:
  assumes "keeps_pc H"
  shows "T_reveal_inst H args (k, s) = Inr (Next (k', s')) \<Longrightarrow> pc k' = pc k"
    and "T_convcbit H r x (k, s) = Inr (Next (k', s')) \<Longrightarrow> pc k' = pc k"
  using assms unfolding keeps_pc_def by blast+

lemma stay_pc: "\<exists>n < 2 ^ 31. (c :: u32) = c + n"
  by (intro exI [of _ 0]) simp

lemma gc_step_pc:
  assumes "gc_step H i (k, s) = Inr (Next (k', s'))" "goes_forward i" "keeps_pc H"
  shows "\<exists>n < 2 ^ 31. pc k' = pc k + n"
proof -
  have "pc k' = pc k" if "\<nexists>k1. clear_instr i k = Inr k1 \<and> pc k1 = pc k'"
    using assms(1) that by (cases i) (auto simp: pc_simps dest: keeps_pcD [OF assms(3)])
  then show ?thesis using clear_instr_pc [OF _ assms(2), of k] by (metis add_0_right stay_pc)
qed

lemma next_pc:
  fixes c :: u32
  assumes "c < word_of_nat l" "l \<le> 2 ^ 31" "n < 2 ^ 31"
  shows "unat c < l" "l - unat (c + 1 + n) < l - unat c"
proof -
  have l: "unat (word_of_nat l :: u32) = l" using assms(2) by (simp add: unat_of_nat)
  then show 1: "unat c < l" using assms(1) by (simp add: word_less_nat_alt)
  have "unat n < 2 ^ 31" using assms(3) by (simp add: word_less_nat_alt)
  then have "unat (c + 1 + n) = unat c + 1 + unat n"
    using 1 assms(2) by (simp add: unat_word_ariths)
  then show "l - unat (c + 1 + n) < l - unat c" using 1 by simp
qed

lemma exec_loop_ends:
  assumes "keeps_pc H" "list_all goes_forward p" "length p \<le> 2 ^ 31"
  shows "exec_loop H p batch (k, s) \<noteq> None"
proof (induction "length p - unat (pc k)" arbitrary: k s rule: less_induct)
  case less
  let ?k = "k\<lparr>pc := pc k + 1\<rparr>" and ?i = "p ! unat (pc k)"
  have next_call: "exec_loop H p batch ks' \<noteq> None"
    if c: "\<not> word_of_nat (length p) \<le> pc k" and step: "gc_step H ?i (?k, s) = Inr (Next ks')" for ks'
  proof -
    obtain k' s' where ks': "ks' = (k', s')" by (cases ks')
    have in_p: "unat (pc k) < length p" using next_pc(1) [OF _ assms(3), of "pc k" 0] c by simp
    then have "goes_forward ?i" using assms(2) by (simp add: list_all_length)
    then obtain n where "n < 2 ^ 31" "pc k' = pc ?k + n"
      using gc_step_pc [of H ?i ?k s k' s'] step assms(1) ks' by auto
    then show ?thesis
      using less next_pc(2) [OF _ assms(3), of "pc k" n] c ks' by simp
  qed
  show ?case
    using next_call by (auto simp: exec_loop.simps [of _ _ _ "(k, s)"] split: sum.splits outcome.splits)
qed

text \<open>
  C39.  Every round ends for programs without backward jumps.  Whatever the registers, the messages and the size of a
  batch, each of the garbler's and the evaluator's rounds, and the run on plain bits, come to a result: the end of the
  program, the end of a batch, an interruption, a wait for a message, or an error.
\<close>

theorem forward_programs_end:
  assumes "list_all goes_forward p" "length p \<le> 2 ^ 31"
  shows "garble_round cf p ks \<noteq> None \<and> eval_round cf p ke m \<noteq> None \<and> gc_execute (plain_hooks c) p batch kv \<noteq> None"
  by (auto simp: garble_round_def eval_round_def gc_execute_def Let_def exec_loop_ends [OF garble_keeps_pc assms]
      exec_loop_ends [OF eval_keeps_pc assms] exec_loop_ends [OF plain_keeps_pc assms, simplified]
      split: prod.splits option.splits sum.splits exec_end.splits
      dest: exec_loop_ends [OF garble_keeps_pc assms, THEN notE] exec_loop_ends [OF eval_keeps_pc assms, THEN notE])

lemma forward_programs_end_witness:
  "list_all goes_forward [JMPNZ 0 1, JMP 1, REGINT (LDINT 0 7)] \<and>
    gc_execute (plain_hooks True) [JMPNZ 0 1, JMP 1, REGINT (LDINT 0 7)] 10 (demo_control 0 0, [], []) \<noteq> None"
  using forward_programs_end [of "[JMPNZ 0 1, JMP 1, REGINT (LDINT 0 7)]"] by (simp add: word_less_nat_alt)

end
