(* ===== verification/Bit_Square.thy ===== *)
theory Bit_Square
  imports M128_Bytes
begin

text \<open>
  The 128 by 128 bit matrix of \<^verbatim>\<open>Math/square128.cpp\<close>: 128 registers, seen by the \<^verbatim>\<open>union\<close> also as bytes.
  Its transposition is a network of byte interleavings inside groups of rows, then the extraction of the top
  bits of all bytes, eight times; there is a build for 128-bit and one for 256-bit registers.  Both are shown to be the
  transposition of the matrix.
\<close>

type_synonym square128 = "m128 list"

definition wf_square :: "square128 \<Rightarrow> bool" where
  "wf_square M \<longleftrightarrow> length M = 128"

definition zero_square :: square128 where
  "zero_square = replicate 128 m128_zero"

definition square_bit :: "square128 \<Rightarrow> nat \<Rightarrow> nat \<Rightarrow> bool" where
  "square_bit M x y \<longleftrightarrow> m128_bit (M ! x) y"

section \<open>Interleaving bytes\<close>

text \<open>
  \<^verbatim>\<open>_mm_unpacklo_epiI\<close> interleaves groups of \<open>k = I / 8\<close> bytes from the low halves of two registers,
  \<^verbatim>\<open>_mm_unpackhi_epiI\<close> from the high halves; the 256-bit versions do so in each 128-bit lane.
\<close>

definition unpack_at :: "nat \<Rightarrow> nat \<Rightarrow> 'b list \<Rightarrow> 'b list \<Rightarrow> 'b list" where
  "unpack_at off k a b =
    concat (map (\<lambda>i. take k (drop (off + k * i) a) @ take k (drop (off + k * i) b)) [0..<8 div k])"

definition mm_unpacklo :: "nat \<Rightarrow> 'b list \<Rightarrow> 'b list \<Rightarrow> 'b list" where
  "mm_unpacklo k a b = unpack_at 0 k a b"

definition mm_unpackhi :: "nat \<Rightarrow> 'b list \<Rightarrow> 'b list \<Rightarrow> 'b list" where
  "mm_unpackhi k a b = unpack_at 8 k a b"

definition mm256_unpacklo :: "nat \<Rightarrow> 'b list \<Rightarrow> 'b list \<Rightarrow> 'b list" where
  "mm256_unpacklo k a b = unpack_at 0 k a b @ unpack_at 16 k a b"

definition mm256_unpackhi :: "nat \<Rightarrow> 'b list \<Rightarrow> 'b list \<Rightarrow> 'b list" where
  "mm256_unpackhi k a b = unpack_at 8 k a b @ unpack_at 24 k a b"

text \<open>The macros \<^verbatim>\<open>X\<close> and \<^verbatim>\<open>Z\<close> on the sixteen rows from \<^verbatim>\<open>base\<close>, with the distance \<open>J\<close> of the groups.\<close>

definition unpack_pairs :: "nat \<Rightarrow> (nat \<times> nat) list" where
  "unpack_pairs J = concat (map (\<lambda>i. map (\<lambda>j. (J * i + j, J * i + j + J div 2)) [0..<J div 2]) [0..<16 div J])"

definition unpack_pass ::
  "('b list \<Rightarrow> 'b list \<Rightarrow> 'b list) \<Rightarrow> ('b list \<Rightarrow> 'b list \<Rightarrow> 'b list) \<Rightarrow> nat \<Rightarrow> 'b list list \<Rightarrow> 'b list list" where
  "unpack_pass lo hi J rows =
    foldl (\<lambda>rows (a, b). rows[b := hi (rows ! a) (rows ! b), a := lo (rows ! a) (rows ! b)]) rows (unpack_pairs J)"

definition X :: "nat \<Rightarrow> 'b list list \<Rightarrow> 'b list list" where
  "X I = unpack_pass (mm_unpacklo (I div 8)) (mm_unpackhi (I div 8)) (I div 4)"

definition Z :: "nat \<Rightarrow> 'b list list \<Rightarrow> 'b list list" where
  "Z I = unpack_pass (mm256_unpacklo (I div 8)) (mm256_unpackhi (I div 8)) (I div 8)"

definition perm :: "nat list" where
  "perm = [0, 8, 4, 12, 2, 10, 6, 14, 1, 9, 5, 13, 3, 11, 7, 15]"

definition perm2 :: "nat list" where
  "perm2 = [0, 4, 2, 6, 1, 5, 3, 7, 8, 12, 10, 14, 9, 13, 11, 15]"

text \<open>Sixteen rows of \<^verbatim>\<open>tmp\<close> from sixteen rows of the matrix.\<close>

definition interleave16 :: "'b list list \<Rightarrow> 'b list list" where
  "interleave16 rows = (let rows = X 64 (X 32 (X 16 (X 8 rows))) in map (\<lambda>j. rows ! j) perm)"

text \<open>
  With 256-bit registers, sixteen double rows of \<^verbatim>\<open>tmp\<close> from 32 rows; the loop in the middle exchanges the high
  half of double row \<open>i\<close> with the low half of double row \<open>i + 8\<close>.
\<close>

definition doublerows :: "'b list list \<Rightarrow> 'b list list" where
  "doublerows rows = map (\<lambda>i. rows ! (2 * i) @ rows ! (2 * i + 1)) [0..<length rows div 2]"

definition swap_halves :: "'b list list \<Rightarrow> 'b list list" where
  "swap_halves drows = foldl (\<lambda>drows a. let b = a + 8; tmp = take 16 (drows ! b) in
      drows[b := drop 16 (drows ! a) @ drop 16 (drows ! b), a := take 16 (drows ! a) @ tmp]) drows [0..<8]"

definition interleave32 :: "'b list list \<Rightarrow> 'b list list" where
  "interleave32 rows =
    (let drows = doublerows (X 8 (take 16 rows) @ X 8 (drop 16 rows));
         drows = swap_halves (Z 64 (Z 32 (Z 16 drows)))
     in map (\<lambda>j. drows ! j) perm2)"

section \<open>Extracting bits\<close>

text \<open>
  The register \<^verbatim>\<open>whole\<close> by its 64-bit lanes: \<^verbatim>\<open>movemask_epi8\<close> collects the top bits of the bytes, \<^verbatim>\<open>slli_epi64\<close>
  shifts each lane.  Stored, the mask has a byte for each lane.
\<close>

definition register_lanes :: "u8 list \<Rightarrow> u64 list" where
  "register_lanes bs = map (\<lambda>i. le_lane (take 8 (drop (8 * i) bs))) [0..<length bs div 8]"

definition movemask_epi8 :: "u64 list \<Rightarrow> u8 list" where
  "movemask_epi8 whole = map (\<lambda>w. horner_sum of_bool 2 (map (\<lambda>m. bit w (8 * m + 7)) [0..<8])) whole"

definition slli_epi64 :: "nat \<Rightarrow> u64 list \<Rightarrow> u64 list" where
  "slli_epi64 n = map (push_bit n)"

text \<open>\<^verbatim>\<open>output.doublebytes[x][y] = row\<close> and \<^verbatim>\<open>output.words[x][y] = row\<close>.\<close>

definition put_part :: "nat \<Rightarrow> u8 list \<Rightarrow> u8 list \<Rightarrow> u8 list" where
  "put_part y bs row = take (length bs * y) row @ bs @ drop (length bs * (y + 1)) row"

definition matrix_transpose :: "u8 list \<Rightarrow> nat \<Rightarrow> nat \<Rightarrow> u8 list list \<Rightarrow> u8 list list" where
  "matrix_transpose whole x y dest =
    snd (foldl (\<lambda>(whole, dest) j. (slli_epi64 1 whole,
        dest[8 * x + 7 - j := put_part y (movemask_epi8 whole) (dest ! (8 * x + 7 - j))]))
      (register_lanes whole, dest) [0..<8])"

definition square_transpose_with :: "nat \<Rightarrow> (u8 list list \<Rightarrow> u8 list list) \<Rightarrow> square128 \<Rightarrow> square128" where
  "square_transpose_with n interleave M =
    (let bytes = map storeu M;
         tmp = concat (map (\<lambda>k. interleave (take (16 * n) (drop (16 * n * k) bytes))) [0..<8 div n])
     in map loadu (foldl (\<lambda>dest (i, k). matrix_transpose (tmp ! (k * 16 + i)) i k dest) bytes
          (List.product [0..<16] [0..<8 div n])))"

text \<open>The two builds of \<^verbatim>\<open>square128::transpose\<close>.\<close>

definition square_transpose :: "square128 \<Rightarrow> square128" where
  "square_transpose = square_transpose_with 1 interleave16"

definition square_transpose_avx2 :: "square128 \<Rightarrow> square128" where
  "square_transpose_avx2 = square_transpose_with 2 interleave32"

section \<open>The network moves every byte to its place\<close>

text \<open>The network does not look at the bytes, so it can be run once on the positions.\<close>

lemma unpack_at_map: "unpack_at off k (map f a) (map f b) = map f (unpack_at off k a b)"
  by (simp add: unpack_at_def map_concat comp_def take_map drop_map)

lemma unpack_pass_map:
  assumes "\<And>a b. lo (map f a) (map f b) = map f (lo' a b)" "\<And>a b. hi (map f a) (map f b) = map f (hi' a b)"
    and "\<forall>(a, b) \<in> set (unpack_pairs J). a < length rows \<and> b < length rows"
  shows "unpack_pass lo hi J (map (map f) rows) = map (map f) (unpack_pass lo' hi' J rows)"
proof -
  have "foldl (\<lambda>rows (a, b). rows[b := hi (rows ! a) (rows ! b), a := lo (rows ! a) (rows ! b)]) (map (map f) rows) ps =
      map (map f) (foldl (\<lambda>rows (a, b). rows[b := hi' (rows ! a) (rows ! b), a := lo' (rows ! a) (rows ! b)]) rows ps)"
    if "\<forall>(a, b) \<in> set ps. a < length rows \<and> b < length rows" for ps
    using that
  proof (induction ps arbitrary: rows)
    case (Cons p ps)
    obtain a b where p: "p = (a, b)" by (cases p)
    show ?case
      using Cons.prems Cons.IH [of "rows[b := hi' (rows ! a) (rows ! b), a := lo' (rows ! a) (rows ! b)]"]
      by (simp add: p assms(1,2) map_update)
  qed simp
  with assms(3) show ?thesis unfolding unpack_pass_def by blast
qed

lemma length_unpack_pass [simp]: "length (unpack_pass lo hi J rows) = length rows"
proof -
  have "length (foldl (\<lambda>rows (a, b). rows[b := hi (rows ! a) (rows ! b), a := lo (rows ! a) (rows ! b)]) rows ps) =
      length rows" for ps
    by (induction ps arbitrary: rows) (auto split: prod.splits)
  then show ?thesis by (simp add: unpack_pass_def)
qed

lemma X_map: "length rows = 16 \<Longrightarrow> I \<in> {8, 16, 32, 64} \<Longrightarrow> X I (map (map f) rows) = map (map f) (X I rows)"
  unfolding X_def
  by (rule unpack_pass_map) (auto simp: mm_unpacklo_def mm_unpackhi_def unpack_at_map unpack_pairs_def)

lemma Z_map: "length rows = 16 \<Longrightarrow> I \<in> {16, 32, 64} \<Longrightarrow> Z I (map (map f) rows) = map (map f) (Z I rows)"
  unfolding Z_def
  by (rule unpack_pass_map) (auto simp: mm256_unpacklo_def mm256_unpackhi_def unpack_at_map unpack_pairs_def)

lemma length_X [simp]: "length (X I rows) = length rows"
  by (simp add: X_def)

lemma length_Z [simp]: "length (Z I rows) = length rows"
  by (simp add: Z_def)

lemma interleave16_map:
  "length rows = 16 \<Longrightarrow> interleave16 (map (map f) rows) = map (map f) (interleave16 rows)"
  by (simp add: interleave16_def Let_def X_map perm_def)

definition positions :: "nat \<Rightarrow> (nat \<times> nat) list list" where
  "positions n = map (\<lambda>x. map (\<lambda>y. (x, y)) [0..<16]) [0..<n]"

lemma length_positions [simp]: "length (positions n) = n"
  by (simp add: positions_def)

lemma interleave16_positions: "interleave16 (positions 16) = map (\<lambda>i. map (\<lambda>l. (l, i)) [0..<16]) [0..<16]"
  by code_simp

lemma doublerows_map: "even (length rows) \<Longrightarrow> doublerows (map (map f) rows) = map (map f) (doublerows rows)"
  by (auto simp: doublerows_def elim!: evenE)

lemma swap_halves_map:
  assumes "length drows = 16"
  shows "swap_halves (map (map f) drows) = map (map f) (swap_halves drows) \<and> length (swap_halves drows) = 16"
proof -
  let ?step = "\<lambda>drows a. let b = a + 8; tmp = take 16 (drows ! b) in
      drows[b := drop 16 (drows ! a) @ drop 16 (drows ! b), a := take 16 (drows ! a) @ tmp]"
  have "foldl ?step (map (map f) drows) as = map (map f) (foldl ?step drows as) \<and>
      length (foldl ?step drows as) = length drows" if "\<forall>a \<in> set as. a + 8 < length drows" for as
    using that
  proof (induction as arbitrary: drows)
    case (Cons a as)
    have "?step (map (map f) drows) a = map (map f) (?step drows a)"
      using Cons.prems by (simp add: Let_def map_update take_map drop_map)
    moreover have "length (?step drows a) = length drows" by (simp add: Let_def)
    ultimately show ?case using Cons.prems Cons.IH [of "?step drows a"] by auto
  qed simp
  from this [of "[0..<8]"] assms show ?thesis by (auto simp: swap_halves_def)
qed

lemma interleave32_map:
  assumes "length rows = 32"
  shows "interleave32 (map (map f) rows) = map (map f) (interleave32 rows)"
proof -
  have l: "length (X 8 (take 16 rows) @ X 8 (drop 16 rows)) = 32" using assms by simp
  have "doublerows (X 8 (take 16 (map (map f) rows)) @ X 8 (drop 16 (map (map f) rows))) =
      map (map f) (doublerows (X 8 (take 16 rows) @ X 8 (drop 16 rows)))"
    using assms by (simp add: take_map drop_map X_map doublerows_map flip: map_append)
  moreover have "length (doublerows (X 8 (take 16 rows) @ X 8 (drop 16 rows))) = 16"
    using assms by (simp add: doublerows_def)
  ultimately show ?thesis
    by (simp add: interleave32_def Let_def Z_map swap_halves_map perm2_def)
qed

lemma interleave32_positions: "interleave32 (positions 32) = map (\<lambda>i. map (\<lambda>l. (l, i)) [0..<32]) [0..<16]"
  by code_simp

text \<open>So row \<open>i\<close> of the result holds byte \<open>i\<close> of every row.\<close>

lemma from_positions:
  assumes "length rows = n" "\<forall>r \<in> set rows. length r = 16"
  shows "rows = map (map (\<lambda>(x, y). rows ! x ! y)) (positions n)"
  by (rule nth_equalityI) (use assms in \<open>auto simp: positions_def intro: nth_equalityI\<close>)

lemma interleave16_bytes:
  assumes "length rows = 16" "\<forall>r \<in> set rows. length r = 16"
  shows "interleave16 rows = map (\<lambda>i. map (\<lambda>l. rows ! l ! i) [0..<16]) [0..<16]"
  by (subst from_positions [OF assms])
    (simp add: interleave16_map interleave16_positions comp_def)

lemma interleave32_bytes:
  assumes "length rows = 32" "\<forall>r \<in> set rows. length r = 16"
  shows "interleave32 rows = map (\<lambda>i. map (\<lambda>l. rows ! l ! i) [0..<32]) [0..<16]"
  by (subst from_positions [OF assms])
    (simp add: interleave32_map interleave32_positions comp_def)

section \<open>The transposition\<close>

lemma length_movemask [simp]: "length (movemask_epi8 whole) = length whole"
  by (simp add: movemask_epi8_def)

lemma length_put_part: "length bs * (y + 1) \<le> length row \<Longrightarrow> length (put_part y bs row) = length row"
  by (simp add: put_part_def)

lemma nth_put_part:
  assumes "length bs = n" "0 < n" "n * (y + 1) \<le> length row" "c < length row"
  shows "put_part y bs row ! c = (if c div n = y then bs ! (c mod n) else row ! c)"
proof -
  have "c div n = y \<longleftrightarrow> n * y \<le> c \<and> c < n * (y + 1)"
    using assms(2) by (auto simp: div_nat_eqI algebra_simps dividend_less_times_div)
  moreover have "c - n * y = c mod n" if "c div n = y" using that by (auto simp: minus_mult_div_eq_mod)
  ultimately show ?thesis using assms by (auto simp: put_part_def nth_append not_less)
qed

lemma slli_slli: "slli_epi64 a (slli_epi64 b ws) = slli_epi64 (a + b) ws"
  by (simp add: slli_epi64_def push_bit_push_bit comp_def)

text \<open>One register gives one part of each of eight rows.\<close>

definition strip_row :: "u8 list \<Rightarrow> nat \<Rightarrow> nat \<Rightarrow> u8 list \<Rightarrow> u8 list" where
  "strip_row whole y r row = put_part y (movemask_epi8 (slli_epi64 (7 - r mod 8) (register_lanes whole))) row"

lemma matrix_transpose_rows:
  assumes "8 * x + 7 < length dest"
  shows "matrix_transpose whole x y dest =
    map (\<lambda>r. if r div 8 = x then strip_row whole y r (dest ! r) else dest ! r) [0..<length dest]"
proof -
  let ?step = "\<lambda>(whole, dest) j. (slli_epi64 1 whole,
        dest[8 * x + 7 - j := put_part y (movemask_epi8 whole) (dest ! (8 * x + 7 - j))])"
  let ?rows = "\<lambda>m. map (\<lambda>r. if r div 8 = x \<and> 7 - r mod 8 < m then strip_row whole y r (dest ! r) else dest ! r)
      [0..<length dest]"
  have "foldl ?step (register_lanes whole, dest) [0..<m] = (slli_epi64 m (register_lanes whole), ?rows m)"
    if "m \<le> 8" for m
    using that
  proof (induction m)
    case 0
    then show ?case by (simp add: slli_epi64_def map_upt_nth_eq)
  next
    case (Suc m)
    let ?r = "8 * x + 7 - m"
    define q where "q = 7 - m"
    have q: "?r = 8 * x + q" "q < 8" "m = 7 - q" using Suc.prems by (simp_all add: q_def)
    have r: "?r div 8 = x" "?r mod 8 = q" "?r < length dest" unfolding q(1) using q(2) assms by simp_all
    have at: "r = ?r \<longleftrightarrow> r div 8 = x \<and> 7 - r mod 8 = m" for r
    proof
      assume "r div 8 = x \<and> 7 - r mod 8 = m"
      then have "r mod 8 = q" using q mod_less_divisor [of 8 r] by linarith
      then show "r = ?r" using \<open>r div 8 = x \<and> _\<close> q(1) mult_div_mod_eq [of 8 r] by simp
    qed (use r q in simp)
    have "(?rows m)[?r := put_part y (movemask_epi8 (slli_epi64 m (register_lanes whole))) (?rows m ! ?r)] = ?rows (Suc m)"
    proof (rule nth_equalityI)
      fix r assume "r < length ((?rows m)[?r := put_part y (movemask_epi8 (slli_epi64 m (register_lanes whole))) (?rows m ! ?r)])"
      then show "(?rows m)[?r := put_part y (movemask_epi8 (slli_epi64 m (register_lanes whole))) (?rows m ! ?r)] ! r =
          ?rows (Suc m) ! r"
        using r at [of r] at [of ?r] by (auto simp: nth_list_update strip_row_def less_Suc_eq)
    qed simp
    then show ?case using Suc by (simp add: slli_slli)
  qed
  from this [of 8] have "matrix_transpose whole x y dest = ?rows 8" by (simp add: matrix_transpose_def)
  moreover have "7 - r mod 8 < 8" for r :: nat by simp
  ultimately show ?thesis by (simp only: simp_thms)
qed

definition strip_byte :: "u8 list \<Rightarrow> nat \<Rightarrow> nat \<Rightarrow> u8" where
  "strip_byte whole r t = movemask_epi8 (slli_epi64 (7 - r mod 8) (register_lanes whole)) ! t"

definition byte_rows :: "u8 list list \<Rightarrow> bool" where
  "byte_rows dest \<longleftrightarrow> length dest = 128 \<and> (\<forall>row \<in> set dest. length row = 16)"

lemma matrix_transpose_bytes:
  assumes "byte_rows dest" "x < 16" "length whole = 8 * w" "0 < w" "w * (y + 1) \<le> 16"
  shows "byte_rows (matrix_transpose whole x y dest)"
    and "r < 128 \<Longrightarrow> c < 16 \<Longrightarrow> matrix_transpose whole x y dest ! r ! c =
      (if (r div 8, c div w) = (x, y) then strip_byte whole r (c mod w) else dest ! r ! c)"
proof -
  have out: "length dest = 128" "\<And>r. r < 128 \<Longrightarrow> length (dest ! r) = 16"
    using assms(1) by (simp_all add: byte_rows_def)
  have w: "length (movemask_epi8 (slli_epi64 m (register_lanes whole))) = w" for m
    using assms(3) by (simp add: slli_epi64_def register_lanes_def)
  have rows: "matrix_transpose whole x y dest =
      map (\<lambda>r. if r div 8 = x then strip_row whole y r (dest ! r) else dest ! r) [0..<128]"
    using matrix_transpose_rows [of x dest whole y] out(1) assms(2) by simp
  have len: "length (strip_row whole y r (dest ! r)) = 16" if "r < 128" for r
    using that assms(5) out(2) [of r] length_put_part [of "movemask_epi8 (slli_epi64 (7 - r mod 8) (register_lanes whole))" y "dest ! r"]
    unfolding strip_row_def w by simp
  show "byte_rows (matrix_transpose whole x y dest)"
    using out len by (auto simp: rows byte_rows_def)
  show "matrix_transpose whole x y dest ! r ! c =
      (if (r div 8, c div w) = (x, y) then strip_byte whole r (c mod w) else dest ! r ! c)" if "r < 128" "c < 16"
    using that assms(4,5) out(2)
    by (simp add: rows strip_row_def strip_byte_def nth_put_part [OF w])
qed

lemma fold_strips:
  assumes "byte_rows dest" "0 < w" "\<forall>(x, y) \<in> set ps. x < 16 \<and> w * (y + 1) \<le> 16 \<and> length (W x y) = 8 * w"
  shows "byte_rows (foldl (\<lambda>dest (x, y). matrix_transpose (W x y) x y dest) dest ps) \<and>
    (\<forall>r < 128. \<forall>c < 16. foldl (\<lambda>dest (x, y). matrix_transpose (W x y) x y dest) dest ps ! r ! c =
      (if (r div 8, c div w) \<in> set ps then strip_byte (W (r div 8) (c div w)) r (c mod w) else dest ! r ! c))"
  using assms(1,3)
proof (induction ps arbitrary: dest)
  case (Cons p ps)
  obtain x y where p: "p = (x, y)" by (cases p)
  have *: "x < 16" "w * (y + 1) \<le> 16" "length (W x y) = 8 * w" using Cons.prems(2) by (auto simp: p)
  note mt = matrix_transpose_bytes [OF Cons.prems(1) *(1,3) assms(2) *(2)]
  show ?case using Cons.IH [OF mt(1)] Cons.prems(2) mt(2) by (auto simp: p)
qed simp

lemma strip_byte_bit:
  assumes "length whole = 8 * w" "t < w" "b < 8"
  shows "bit (strip_byte whole r t) b \<longleftrightarrow> bit (whole ! (8 * t + b)) (r mod 8)"
proof -
  have t: "register_lanes whole ! t = le_lane (take 8 (drop (8 * t) whole))"
    using assms by (simp add: register_lanes_def)
  have n: "8 * b + 7 - (7 - r mod 8) = 8 * b + r mod 8" "7 - r mod 8 \<le> 8 * b + 7" "8 * b + r mod 8 < 64"
    "8 * b + 7 < 64"
    using assms(3) mod_less_divisor [of 8 r] by linarith+
  have "bit (strip_byte whole r t) b \<longleftrightarrow> bit (push_bit (7 - r mod 8) (register_lanes whole ! t)) (8 * b + 7)"
    using assms by (simp add: strip_byte_def movemask_epi8_def slli_epi64_def register_lanes_def
        bit_horner_sum_bit_word_iff)
  also have "\<dots> \<longleftrightarrow> bit (le_lane (take 8 (drop (8 * t) whole))) (8 * b + r mod 8)"
    unfolding t bit_push_bit_iff n(1) using n by simp
  also have "\<dots> \<longleftrightarrow> bit (whole ! (8 * t + b)) (r mod 8)"
    using n(3) assms by (simp add: bit_le_lane)
  finally show ?thesis .
qed

lemma square_transpose_with_bit:
  assumes M: "wf_square M" and n: "n \<in> {1, 2}"
    and inter: "\<And>rows. length rows = 16 * n \<Longrightarrow> \<forall>r \<in> set rows. length r = 16 \<Longrightarrow>
      interleave rows = map (\<lambda>i. map (\<lambda>l. rows ! l ! i) [0..<16 * n]) [0..<16]"
  shows "wf_square (square_transpose_with n interleave M) \<and>
    (\<forall>x < 128. \<forall>y < 128. square_bit (square_transpose_with n interleave M) x y = square_bit M y x)"
proof -
  define bytes where "bytes = map storeu M"
  define tmp where "tmp = concat (map (\<lambda>k. interleave (take (16 * n) (drop (16 * n * k) bytes))) [0..<8 div n])"
  define W where "W i k = tmp ! (k * 16 + i)" for i k
  let ?ps = "List.product [0..<16] [0..<8 div n]"
  let ?out = "foldl (\<lambda>dest (i, k). matrix_transpose (W i k) i k dest) bytes ?ps"
  have bytes: "byte_rows bytes" using M by (auto simp: bytes_def byte_rows_def wf_square_def)
  have slice: "interleave (take (16 * n) (drop (16 * n * k) bytes)) =
      map (\<lambda>i. map (\<lambda>l. bytes ! (16 * n * k + l) ! i) [0..<16 * n]) [0..<16]" if "k < 8 div n" for k
  proof -
    have le: "16 * n * k + 16 * n \<le> 128" using that n by auto
    then have "length (take (16 * n) (drop (16 * n * k) bytes)) = 16 * n"
      "\<forall>r \<in> set (take (16 * n) (drop (16 * n * k) bytes)). length r = 16"
      using bytes by (auto simp: byte_rows_def dest!: in_set_takeD in_set_dropD)
    moreover have "drop (16 * n * k) bytes ! l = bytes ! (16 * n * k + l)" for l
      by (rule nth_drop) (use order_trans [OF le_add1 le] bytes in \<open>simp add: byte_rows_def\<close>)
    ultimately show ?thesis using inter by simp
  qed
  have W: "W i k = map (\<lambda>l. bytes ! (16 * n * k + l) ! i) [0..<16 * n]" if "i < 16" "k < 8 div n" for i k
  proof -
    have "concat (map f [0..<m]) ! (k * 16 + i) = f k ! i" if "\<And>j. j < m \<Longrightarrow> length (f j) = 16" "k < m" for m and f :: "nat \<Rightarrow> 'x list"
      using that \<open>i < 16\<close>
    proof (induction m)
      case (Suc m)
      have "length (concat (map f [0..<m])) = 16 * m"
        using Suc.prems(1) by (induction m) (auto simp: algebra_simps)
      then show ?case using Suc by (cases "k = m") (auto simp: nth_append)
    qed simp
    from this [of "8 div n" "\<lambda>k. interleave (take (16 * n) (drop (16 * n * k) bytes))"] that
    show ?thesis by (simp add: W_def tmp_def slice)
  qed
  have w: "\<forall>(x, y) \<in> set ?ps. x < 16 \<and> 2 * n * (y + 1) \<le> 16 \<and> length (W x y) = 8 * (2 * n)"
    using n by (auto simp: W)
  note fold = fold_strips [OF bytes _ w, simplified]
  have res: "square_transpose_with n interleave M = map loadu ?out"
    by (simp add: square_transpose_with_def Let_def bytes_def tmp_def W_def)
  have out: "byte_rows ?out" using fold n by auto
  have "square_bit (map loadu ?out) x y = square_bit M y x" if xy: "x < 128" "y < 128" for x y
  proof -
    let ?c = "y div 8"
    have c: "?c < 16" "?c div (2 * n) < 8 div n" "x div 8 < 16" "y mod 8 < 8" "?c mod (2 * n) < 2 * n"
      using xy n by auto
    have "square_bit (map loadu ?out) x y = bit (?out ! x ! ?c) (y mod 8)"
      using out xy by (simp add: square_bit_def bit_loadu byte_rows_def)
    also have "?out ! x ! ?c = strip_byte (W (x div 8) (?c div (2 * n))) x (?c mod (2 * n))"
      using fold n xy c by auto
    also have "bit \<dots> (y mod 8) = bit (W (x div 8) (?c div (2 * n)) ! (8 * (?c mod (2 * n)) + y mod 8)) (x mod 8)"
      using c by (intro strip_byte_bit [of _ "2 * n"]) (simp_all add: W)
    also have "W (x div 8) (?c div (2 * n)) ! (8 * (?c mod (2 * n)) + y mod 8) = bytes ! y ! (x div 8)"
    proof -
      have "8 * (?c mod (2 * n)) + y mod 8 < 16 * n" using c(4,5) by linarith
      moreover have "16 * n * (?c div (2 * n)) + (8 * (?c mod (2 * n)) + y mod 8) = y"
      proof -
        have "8 * (2 * n * (?c div (2 * n)) + ?c mod (2 * n)) + y mod 8 = y" by (simp only: mult_div_mod_eq)
        then show ?thesis by (simp add: algebra_simps)
      qed
      ultimately show ?thesis using c by (simp add: W)
    qed
    also have "bit \<dots> (x mod 8) = square_bit M y x"
      using xy M by (simp add: bytes_def square_bit_def bit_storeu wf_square_def)
    finally show ?thesis .
  qed
  then show ?thesis using out by (simp add: res wf_square_def byte_rows_def)
qed

lemma square_eqI:
  assumes "wf_square M" "wf_square N" "\<And>x y. x < 128 \<Longrightarrow> y < 128 \<Longrightarrow> square_bit M x y = square_bit N x y"
  shows "M = N"
  using assms by (intro nth_equalityI m128_bit_eqI) (auto simp: wf_square_def square_bit_def)

text \<open>
  C12.  The network of \<^verbatim>\<open>square128::transpose\<close> is the transposition: in both builds, for every matrix, bit \<open>(x, y)\<close> of the
  result is bit \<open>(y, x)\<close> of the argument, so the builds agree.
\<close>

theorem square_transpose_correct:
  assumes "wf_square M" "x < 128" "y < 128"
  shows "square_bit (square_transpose M) x y = square_bit M y x \<and>
    square_bit (square_transpose_avx2 M) x y = square_bit M y x \<and> square_transpose_avx2 M = square_transpose M"
proof -
  note sse = square_transpose_with_bit [OF assms(1), of 1 interleave16, simplified, OF interleave16_bytes, simplified]
  note avx = square_transpose_with_bit [OF assms(1), of 2 interleave32, simplified, OF interleave32_bytes, simplified]
  show ?thesis
    using sse avx assms(2,3) square_eqI [of "square_transpose_avx2 M" "square_transpose M"]
    unfolding square_transpose_def square_transpose_avx2_def by simp
qed

lemma square_transpose_correct_witness:
  "square_bit (square_transpose (map (\<lambda>i. (of_nat i, 7)) [0..<128])) 2 12 =
    square_bit (map (\<lambda>i. (of_nat i, 7)) [0..<128]) 12 2"
  using square_transpose_correct [of "map (\<lambda>i. (of_nat i, 7)) [0..<128]" 2 12] by (simp add: wf_square_def)

lemma wf_square_transpose: "wf_square M \<Longrightarrow> wf_square (square_transpose M)"
  using square_transpose_with_bit [of M 1 interleave16, simplified, OF _ interleave16_bytes, simplified]
  by (simp add: square_transpose_def)

lemma square_bit_transpose:
  "wf_square M \<Longrightarrow> x < 128 \<Longrightarrow> y < 128 \<Longrightarrow> square_bit (square_transpose M) x y = square_bit M y x"
  using square_transpose_with_bit [of M 1 interleave16, simplified, OF _ interleave16_bytes, simplified]
  by (simp add: square_transpose_def)

end
