(* ===== verification/Prng.thy ===== *)
theory Prng
  imports AES_NI M128_Bytes
begin

text \<open>
  The pseudorandom generator of \<^verbatim>\<open>Tools/random.h\<close> and \<^verbatim>\<open>Tools/random.cpp\<close>: AES in counter mode, some blocks
  at a time, with a read position.  The number of blocks and the build of AES are parameters.  Whatever the
  requests, the bytes come in the order of one stream, which does not depend on the build.
\<close>

text \<open>\<^verbatim>\<open>PIPELINES\<close> is 8 with AES instructions and 1 without.\<close>

record 'k prng_build =
  PIPELINES :: nat
  pb_schedule :: "u8 list \<Rightarrow> 'k result"
  pb_ecb :: "'k \<Rightarrow> block list \<Rightarrow> block list"

abbreviation RAND_SIZE :: "'k prng_build \<Rightarrow> nat" where
  "RAND_SIZE b \<equiv> PIPELINES b * 16"

definition build_c :: "u32 list prng_build" where
  "build_c = \<lparr>PIPELINES = 1, pb_schedule = \<lambda>k. Inr (aes_schedule 4 10 k), pb_ecb = software_ecb_aes_128_encrypt\<rparr>"

definition build_ni :: "aesni \<Rightarrow> block list prng_build" where
  "build_ni ni = \<lparr>PIPELINES = 8, pb_schedule = aes_128_schedule_ni ni, pb_ecb = ecb_aes_128_encrypt_ni ni\<rparr>"

text \<open>A generator exists from its seeding on; before, \<^verbatim>\<open>hash\<close> fails an assertion.\<close>

record 'k PRNG =
  pr_schedule :: 'k
  pr_state :: "m128 list"
  pr_random :: "u8 list"
  pr_cnt :: nat
  pr_n_cached :: nat
  pr_cached_bits :: u64

definition PRNG_hash :: "'k prng_build \<Rightarrow> 'k PRNG \<Rightarrow> 'k PRNG" where
  "PRNG_hash b g = g\<lparr>pr_random := concat (pb_ecb b (pr_schedule g) (map storeu (pr_state g))), pr_cnt := 0\<rparr>"

definition PRNG_SetSeed :: "'k prng_build \<Rightarrow> u8 list \<Rightarrow> 'k PRNG result" where
  "PRNG_SetSeed b inp =
    (if length inp < 16 then Inl undefined_access
     else bind_result (pb_schedule b (take 16 inp)) (\<lambda>ks.
       Inr (PRNG_hash b \<lparr>pr_schedule = ks, pr_state = map (\<lambda>i. (word_of_nat i, 0)) [0..<PIPELINES b],
         pr_random = [], pr_cnt = 0, pr_n_cached = 0, pr_cached_bits = 0\<rparr>)))"

text \<open>The counter of each block on its own; a carry goes to the second half.\<close>

definition PRNG_next :: "'k prng_build \<Rightarrow> 'k PRNG \<Rightarrow> 'k PRNG" where
  "PRNG_next b g = PRNG_hash b (g\<lparr>pr_state := map (\<lambda>(s0, s1).
    let s0 = s0 + word_of_nat (PIPELINES b) in (s0, if s0 = 0 then s1 + 1 else s1)) (pr_state g)\<rparr>)"

definition PRNG_get_uchar :: "'k prng_build \<Rightarrow> 'k PRNG \<Rightarrow> u8 \<times> 'k PRNG" where
  "PRNG_get_uchar b g =
    (let g = if RAND_SIZE b \<le> pr_cnt g then PRNG_next b g else g
     in (pr_random g ! pr_cnt g, g\<lparr>pr_cnt := pr_cnt g + 1\<rparr>))"

definition PRNG_get_uint :: "'k prng_build \<Rightarrow> 'k PRNG \<Rightarrow> u32 \<times> 'k PRNG" where
  "PRNG_get_uint b g =
    (let g = if RAND_SIZE b - 4 < pr_cnt g then PRNG_next b g else g;
         a = (\<lambda>i. ucast (pr_random g ! (pr_cnt g + i)) :: u32)
     in (a 0 + push_bit 8 (a 1) + push_bit 16 (a 2) + push_bit 24 (a 3), g\<lparr>pr_cnt := pr_cnt g + 4\<rparr>))"

definition PRNG_get_doubleword :: "'k prng_build \<Rightarrow> 'k PRNG \<Rightarrow> m128 \<times> 'k PRNG" where
  "PRNG_get_doubleword b g =
    (let g = if RAND_SIZE b - 16 < pr_cnt g then PRNG_next b g else g
     in (loadu (take 16 (drop (pr_cnt g) (pr_random g))), g\<lparr>pr_cnt := pr_cnt g + 16\<rparr>))"

text \<open>Reading \<open>len\<close> bytes; a buffer that is used up is refilled at once.\<close>

lemma pr_cnt_next [simp]: "pr_cnt (PRNG_next b g) = 0"
  by (simp add: PRNG_next_def PRNG_hash_def)

function PRNG_get_octets :: "'k prng_build \<Rightarrow> nat \<Rightarrow> 'k PRNG \<Rightarrow> u8 list \<times> 'k PRNG" where
  "PRNG_get_octets b len g =
    (if len = 0 \<or> RAND_SIZE b = 0 \<or> RAND_SIZE b < pr_cnt g then ([], g)
     else let step = min len (RAND_SIZE b - pr_cnt g);
              xs = take step (drop (pr_cnt g) (pr_random g));
              g = g\<lparr>pr_cnt := pr_cnt g + step\<rparr>;
              g = if pr_cnt g = RAND_SIZE b then PRNG_next b g else g;
              (ys, g) = PRNG_get_octets b (len - step) g
          in (xs @ ys, g))"
  by auto
termination
  by (relation "measure (\<lambda>(b, len, g). 2 * len + (if pr_cnt g = RAND_SIZE b then 1 else 0))") auto

declare PRNG_get_octets.simps [simp del]

definition PRNG_get_word :: "'k prng_build \<Rightarrow> 'k PRNG \<Rightarrow> u64 \<times> 'k PRNG" where
  "PRNG_get_word b g = (let (bs, g) = PRNG_get_octets b 8 g in (le_lane bs, g))"

definition PRNG_get_bit :: "'k prng_build \<Rightarrow> 'k PRNG \<Rightarrow> bool \<times> 'k PRNG" where
  "PRNG_get_bit b g =
    (let g = if pr_n_cached g = 0
             then let (w, g) = PRNG_get_word b g in g\<lparr>pr_cached_bits := w, pr_n_cached := 64\<rparr>
             else g;
         n = pr_n_cached g - 1
     in (bit (pr_cached_bits g) n, g\<lparr>pr_n_cached := n\<rparr>))"

text \<open>Several requests for bytes one after the other.\<close>

fun read_chunks :: "'k prng_build \<Rightarrow> nat list \<Rightarrow> 'k PRNG \<Rightarrow> u8 list \<times> 'k PRNG" where
  "read_chunks b [] g = ([], g)"
| "read_chunks b (n # ns) g =
     (let (xs, g) = PRNG_get_octets b n g; (ys, g) = read_chunks b ns g in (xs @ ys, g))"

section \<open>One stream\<close>

text \<open>The stream of a key: the encryptions of 0, 1, 2 and so on.\<close>

definition ctr_block :: "block \<Rightarrow> nat \<Rightarrow> block" where
  "ctr_block key j = encrypt (FixedKeyAES_init key) (storeu (word_of_nat j, 0))"

definition stream_byte :: "block \<Rightarrow> nat \<Rightarrow> u8" where
  "stream_byte key p = ctr_block key (p div 16) ! (p mod 16)"

lemma length_ctr_block [simp]: "length (ctr_block key j) = 16"
  using wf_encrypt by (simp add: ctr_block_def wf_block_def)

lemma concat_blocks:
  "concat (map (ctr_block key) [m..<n]) = map (stream_byte key) [16 * m..<16 * n]"
proof (induction n)
  case (Suc n)
  have block: "ctr_block key n = map (stream_byte key) [16 * n..<16 * n + 16]"
    by (rule nth_equalityI) (simp_all add: stream_byte_def)
  show ?case
  proof (cases "m \<le> n")
    case True
    have "[16 * m..<16 * Suc n] = [16 * m..<16 * n] @ [16 * n..<16 * n + 16]"
      using upt_add_eq_append [of "16 * m" "16 * n" 16] True by (simp add: algebra_simps)
    then show ?thesis using True Suc block by simp
  qed simp
qed simp

text \<open>
  What the generator needs from a build of AES.  \<open>at_byte key p g\<close>: it stands at byte \<open>p\<close> of the stream and holds the
  blocks of some round.
\<close>

locale counter_mode =
  fixes b :: "'k prng_build" and sched :: "block \<Rightarrow> 'k"
  assumes pipelines: "0 < PIPELINES b"
    and schedule: "wf_block key \<Longrightarrow> pb_schedule b key = Inr (sched key)"
    and ecb: "wf_block key \<Longrightarrow> pb_ecb b (sched key) (map storeu xs) =
      map (\<lambda>x. encrypt (FixedKeyAES_init key) (storeu x)) xs"
begin

definition round_at :: "block \<Rightarrow> nat \<Rightarrow> 'k PRNG \<Rightarrow> bool" where
  "round_at ks r g \<longleftrightarrow> wf_block ks \<and> pr_schedule g = sched ks \<and>
    pr_state g = map (\<lambda>i. (word_of_nat (r * PIPELINES b + i), 0)) [0..<PIPELINES b] \<and>
    pr_random g = map (stream_byte ks) [RAND_SIZE b * r..<RAND_SIZE b * (r + 1)]"

definition at_byte :: "block \<Rightarrow> nat \<Rightarrow> 'k PRNG \<Rightarrow> bool" where
  "at_byte ks p g \<longleftrightarrow> (\<exists>r. round_at ks r g \<and> pr_cnt g \<le> RAND_SIZE b \<and> p = RAND_SIZE b * r + pr_cnt g)"

lemma hash_round:
  assumes "wf_block ks" "pr_schedule g = sched ks"
    and "pr_state g = map (\<lambda>i. (word_of_nat (r * PIPELINES b + i), 0)) [0..<PIPELINES b]"
  shows "round_at ks r (PRNG_hash b g)"
proof -
  have "map (\<lambda>i. ctr_block ks (r * PIPELINES b + i)) [0..<PIPELINES b] =
      map (ctr_block ks) [r * PIPELINES b..<(r + 1) * PIPELINES b]"
    by (rule nth_equalityI) auto
  then have "concat (map (\<lambda>i. ctr_block ks (r * PIPELINES b + i)) [0..<PIPELINES b]) =
      map (stream_byte ks) [16 * (r * PIPELINES b)..<16 * ((r + 1) * PIPELINES b)]"
    by (simp only: concat_blocks)
  moreover have "pb_ecb b (sched ks) (map storeu (pr_state g)) =
      map (\<lambda>i. ctr_block ks (r * PIPELINES b + i)) [0..<PIPELINES b]"
    unfolding assms(3) ecb [OF assms(1)] by (simp add: ctr_block_def comp_def)
  ultimately show ?thesis using assms by (simp add: round_at_def PRNG_hash_def algebra_simps)
qed

lemma SetSeed_start:
  assumes "wf_block seed"
  shows "\<exists>g. PRNG_SetSeed b seed = Inr g \<and> at_byte seed 0 g"
  using hash_round [OF assms, of "\<lparr>pr_schedule = sched seed, pr_state = map (\<lambda>i. (word_of_nat i, 0)) [0..<PIPELINES b],
      pr_random = [], pr_cnt = 0, pr_n_cached = 0, pr_cached_bits = 0\<rparr>" 0] schedule [OF assms] assms
  by (auto simp: PRNG_SetSeed_def at_byte_def PRNG_hash_def wf_block_def)

lemma next_round:
  assumes "round_at ks r g" "(r + 2) * PIPELINES b < 2 ^ 64"
  shows "round_at ks (r + 1) (PRNG_next b g)"
proof -
  have nz: "word_of_nat (r * PIPELINES b + i + PIPELINES b) \<noteq> (0 :: u64)" if "i < PIPELINES b" for i
  proof -
    have "r * PIPELINES b + i + PIPELINES b < 2 ^ 64" using that assms(2) by (simp add: algebra_simps)
    then have "unat (word_of_nat (r * PIPELINES b + i + PIPELINES b) :: u64) \<noteq> 0"
      using pipelines by (subst unat_u64_of_nat) simp_all
    then show ?thesis by (metis unat_0)
  qed
  let ?g = "g\<lparr>pr_state := map (\<lambda>(s0, s1).
      let s0 = s0 + word_of_nat (PIPELINES b) in (s0, if s0 = 0 then s1 + 1 else s1)) (pr_state g)\<rparr>"
  have "pr_state ?g = map (\<lambda>i. (word_of_nat ((r + 1) * PIPELINES b + i), 0)) [0..<PIPELINES b]"
    using assms(1) nz by (auto simp: round_at_def Let_def algebra_simps)
  from hash_round [OF _ _ this, of ks] assms(1) show ?thesis by (simp add: PRNG_next_def round_at_def)
qed

lemma get_octets:
  assumes "at_byte ks p g" "p + len + 3 * RAND_SIZE b < 2 ^ 64"
  shows "\<exists>g'. PRNG_get_octets b len g = (map (stream_byte ks) [p..<p + len], g') \<and> at_byte ks (p + len) g'"
  using assms
proof (induction "2 * len + (if pr_cnt g = RAND_SIZE b then 1 else 0 :: nat)" arbitrary: len g p rule: less_induct)
  case less
  obtain r where r: "round_at ks r g" "pr_cnt g \<le> RAND_SIZE b" "p = RAND_SIZE b * r + pr_cnt g"
    using less.prems(1) by (auto simp: at_byte_def)
  show ?case
  proof (cases "len = 0")
    case True
    then show ?thesis using less.prems(1) by (simp add: PRNG_get_octets.simps)
  next
    case False
    define step where "step = min len (RAND_SIZE b - pr_cnt g)"
    define g1 where "g1 = g\<lparr>pr_cnt := pr_cnt g + step\<rparr>"
    define g2 where "g2 = (if pr_cnt g1 = RAND_SIZE b then PRNG_next b g1 else g1)"
    have c: "\<not> (len = 0 \<or> RAND_SIZE b = 0 \<or> RAND_SIZE b < pr_cnt g)" using False r(2) pipelines by simp
    have eq: "PRNG_get_octets b len g = (let (ys, g') = PRNG_get_octets b (len - step) g2
        in (take step (drop (pr_cnt g) (pr_random g)) @ ys, g'))"
      unfolding PRNG_get_octets.simps [of b len g] g2_def g1_def step_def by (simp only: c if_False Let_def)
    have xs: "take step (drop (pr_cnt g) (pr_random g)) = map (stream_byte ks) [p..<p + step]"
    proof -
      have "pr_random g = map (stream_byte ks) [RAND_SIZE b * r..<RAND_SIZE b * r + RAND_SIZE b]"
        using r(1) by (simp add: round_at_def algebra_simps)
      then show ?thesis using r(2,3) by (simp add: take_map drop_map take_upt step_def)
    qed
    have r1: "round_at ks r g1" using r(1) by (simp add: round_at_def g1_def)
    have at: "at_byte ks (p + step) g2"
    proof (cases "pr_cnt g1 = RAND_SIZE b")
      case True
      have "16 * ((r + 2) * PIPELINES b) = RAND_SIZE b * r + 2 * RAND_SIZE b" by (simp add: algebra_simps)
      also have "\<dots> < 2 ^ 64" using less.prems(2) r(3) by linarith
      finally have "round_at ks (r + 1) g2" using next_round [OF r1] True by (simp add: g2_def)
      then show ?thesis using True r(3) unfolding at_byte_def
        by (intro exI [of _ "r + 1"]) (simp add: g2_def g1_def algebra_simps)
    next
      case False
      then show ?thesis using r1 r(2,3) by (auto simp: at_byte_def g2_def g1_def step_def)
    qed
    have smaller: "2 * (len - step) + (if pr_cnt g2 = RAND_SIZE b then 1 else 0) <
        2 * len + (if pr_cnt g = RAND_SIZE b then 1 else 0)"
      using False r(2) pipelines by (auto simp: g2_def g1_def step_def)
    have "step \<le> len" by (simp add: step_def)
    then obtain g' where g': "PRNG_get_octets b (len - step) g2 = (map (stream_byte ks) [p + step..<p + len], g')"
      "at_byte ks (p + len) g'"
      using less.hyps [OF smaller at] less.prems(2) by auto
    have "[p..<p + len] = [p..<p + step] @ [p + step..<p + len]"
      using upt_add_eq_append [of p "p + step" "len - step"] \<open>step \<le> len\<close> by simp
    then show ?thesis using eq xs g' by simp
  qed
qed

text \<open>Sixteen bytes at a block boundary, by either function.\<close>

lemma get_doubleword:
  assumes "at_byte ks p g" "p mod 16 = 0" "p + 2 * RAND_SIZE b < 2 ^ 64"
  shows "\<exists>g'. PRNG_get_doubleword b g = (loadu (ctr_block ks (p div 16)), g') \<and> at_byte ks (p + 16) g'"
proof -
  obtain r where r: "round_at ks r g" "pr_cnt g \<le> RAND_SIZE b" "p = RAND_SIZE b * r + pr_cnt g"
    using assms(1) by (auto simp: at_byte_def)
  define g1 where "g1 = (if RAND_SIZE b - 16 < pr_cnt g then PRNG_next b g else g)"
  obtain r1 where r1: "round_at ks r1 g1" "pr_cnt g1 + 16 \<le> RAND_SIZE b" "p = RAND_SIZE b * r1 + pr_cnt g1"
  proof (cases "RAND_SIZE b - 16 < pr_cnt g")
    case True
    have c: "pr_cnt g mod 16 = 0"
      using assms(2) r(3) by (metis dvd_add_right_iff dvd_mult2 dvd_triv_right mod_0_imp_dvd mod_eq_0_iff_dvd)
    then obtain m where m: "pr_cnt g = 16 * m" by (auto elim!: dvdE simp: mod_eq_0_iff_dvd)
    then have "m = PIPELINES b" using True r(2) by simp
    then have "pr_cnt g = RAND_SIZE b" using m by simp
    moreover have "(r + 2) * PIPELINES b < 2 ^ 64"
    proof -
      have "16 * ((r + 2) * PIPELINES b) = RAND_SIZE b * r + 2 * RAND_SIZE b" by (simp add: algebra_simps)
      also have "\<dots> < 2 ^ 64" using assms(3) r(3) by linarith
      finally show ?thesis by simp
    qed
    ultimately show ?thesis
      using that [of "r + 1"] next_round [OF r(1)] True r(3) pipelines by (simp add: g1_def algebra_simps)
  next
    case False
    then show ?thesis using that [of r] r pipelines by (simp add: g1_def)
  qed
  have "take 16 (drop (pr_cnt g1) (pr_random g1)) = map (stream_byte ks) [p..<p + 16]"
  proof -
    have "pr_random g1 = map (stream_byte ks) [RAND_SIZE b * r1..<RAND_SIZE b * r1 + RAND_SIZE b]"
      using r1(1) by (simp add: round_at_def algebra_simps)
    then show ?thesis using r1(2,3) by (simp add: take_map drop_map take_upt)
  qed
  also have "\<dots> = ctr_block ks (p div 16)"
  proof (rule nth_equalityI)
    fix i assume i: "i < length (map (stream_byte ks) [p..<p + 16])"
    have "(p + i) div 16 = p div 16" "(p + i) mod 16 = i" using i assms(2) by (auto simp: div_add1_eq mod_add_eq [symmetric] mod_eq_0_iff_dvd elim!: dvdE)
    then show "map (stream_byte ks) [p..<p + 16] ! i = ctr_block ks (p div 16) ! i"
      using i by (simp add: stream_byte_def)
  qed simp
  finally show ?thesis
    using r1 unfolding PRNG_get_doubleword_def at_byte_def
    by (auto simp: g1_def [symmetric] Let_def round_at_def)
qed

lemma chunks:
  assumes "at_byte ks p g" "p + sum_list ns + 3 * RAND_SIZE b < 2 ^ 64"
  shows "fst (read_chunks b ns g) = map (stream_byte ks) [p..<p + sum_list ns]"
  using assms
proof (induction ns arbitrary: p g)
  case (Cons n ns)
  obtain g' where g': "PRNG_get_octets b n g = (map (stream_byte ks) [p..<p + n], g')" "at_byte ks (p + n) g'"
    using get_octets [OF Cons.prems(1), of n] Cons.prems(2) by auto
  show ?case
    using Cons.IH [OF g'(2)] Cons.prems(2) g'(1) upt_add_eq_append [of p "p + n" "sum_list ns"]
    by (simp add: split_def Let_def add.assoc)
qed simp

end

lemma length_store_words: "length (store_words t) = 16"
  by (cases t) (simp add: store_words_def U32_TO_U8_LE_def)

interpretation prng_c: counter_mode build_c "aes_schedule 4 10"
proof
  show "pb_ecb build_c (aes_schedule 4 10 key) (map storeu xs) = map (\<lambda>x. encrypt (FixedKeyAES_init key) (storeu x)) xs"
    if "wf_block key" for key xs
    using tables_FixedKeyAES [OF that] by (simp add: build_c_def software_ecb_aes_128_encrypt_def wf_block_def)
qed (simp_all add: build_c_def)

lemma counter_mode_ni:
  assumes "aesni_documented ni"
  shows "counter_mode (build_ni ni) (\<lambda>key. rk (FixedKeyAES_init key))"
proof
  show "pb_schedule (build_ni ni) key = Inr (rk (FixedKeyAES_init key))" if "wf_block key" for key
    using aes_128_schedule_FixedKeyAES [OF assms that] by (simp add: build_ni_def)
  show "pb_ecb (build_ni ni) (rk (FixedKeyAES_init key)) (map storeu xs) =
      map (\<lambda>x. encrypt (FixedKeyAES_init key) (storeu x)) xs" if key: "wf_block key" for key xs
  proof -
    have keys: "\<forall>k \<in> set (rk (FixedKeyAES_init key)). wf_block k"
      using FixedKeyAES_init_keys [OF key] by (auto simp: in_set_conv_nth)
    have "aes_128_encrypt_ni ni (storeu x) (rk (FixedKeyAES_init key)) = encrypt (FixedKeyAES_init key) (storeu x)" for x
      using encrypt_ni_cipher(1) [OF assms keys, of "storeu x"] FixedKeyAES_init_keys(1) [OF key]
        cipher_encrypt [of "storeu x" "FixedKeyAES_init key"] by (simp add: wf_block_def)
    then show ?thesis
      using ecb_ni_map [OF assms, of "map storeu xs"] by (auto simp: build_ni_def wf_block_def comp_def)
  qed
qed (simp add: build_ni_def)

interpretation prng_ni: counter_mode "build_ni documented_ni" "\<lambda>key. rk (FixedKeyAES_init key)"
  by (rule counter_mode_ni [OF documented_ni])

text \<open>
  C13.  The generator is one stream of bytes.  From a 16-byte seed, whatever the sizes of the requests, the bytes
  that \<^verbatim>\<open>get_octets\<close> returns are those of AES in counter mode under the seed, in order: with the tables, one block at a
  time, and with the processor's instructions, eight blocks at a time.
\<close>

theorem prng_builds_agree:
  assumes "aesni_documented ni" "wf_block seed" "sum_list ns < 2 ^ 63"
  shows "\<exists>gc gn. PRNG_SetSeed build_c seed = Inr gc \<and> PRNG_SetSeed (build_ni ni) seed = Inr gn \<and>
    fst (read_chunks build_c ns gc) = map (stream_byte seed) [0..<sum_list ns] \<and>
    fst (read_chunks (build_ni ni) ns gn) = map (stream_byte seed) [0..<sum_list ns]"
proof -
  obtain gc where c: "PRNG_SetSeed build_c seed = Inr gc" "prng_c.at_byte seed 0 gc"
    using prng_c.SetSeed_start [OF assms(2)] by blast
  note ni = counter_mode_ni [OF assms(1)]
  obtain gn where n: "PRNG_SetSeed (build_ni ni) seed = Inr gn"
      "counter_mode.at_byte (build_ni ni) (\<lambda>key. rk (FixedKeyAES_init key)) seed 0 gn"
    using counter_mode.SetSeed_start [OF ni assms(2)] by blast
  have "fst (read_chunks build_c ns gc) = map (stream_byte seed) [0..<sum_list ns]"
    using prng_c.chunks [OF c(2), of ns] assms(3) by (simp add: build_c_def)
  moreover have "fst (read_chunks (build_ni ni) ns gn) = map (stream_byte seed) [0..<sum_list ns]"
    using counter_mode.chunks [OF ni n(2), of ns] assms(3) by (simp add: build_ni_def)
  ultimately show ?thesis using c(1) n(1) by blast
qed

lemma prng_builds_agree_witness:
  "\<exists>gc gn. PRNG_SetSeed build_c zero_block = Inr gc \<and> PRNG_SetSeed (build_ni documented_ni) zero_block = Inr gn \<and>
    fst (read_chunks build_c [3, 200] gc) = fst (read_chunks (build_ni documented_ni) [3, 200] gn)"
  using prng_builds_agree [OF documented_ni, of zero_block "[3, 200]"] by auto

text \<open>
  The builds disagree when requests of different sizes are mixed: after a word of eight bytes, a doubleword is the
  next whole block where one block is held at a time, the rest of the first being dropped, and the next sixteen bytes where
  eight are held.
\<close>

theorem prng_builds_disagree:
  assumes "aesni_documented ni" "wf_block seed"
    and "PRNG_SetSeed build_c seed = Inr gc" "PRNG_SetSeed (build_ni ni) seed = Inr gn"
  shows "fst (PRNG_get_doubleword build_c (snd (PRNG_get_word build_c gc))) = loadu (map (stream_byte seed) [16..<32]) \<and>
    fst (PRNG_get_doubleword (build_ni ni) (snd (PRNG_get_word (build_ni ni) gn))) = loadu (map (stream_byte seed) [8..<24])"
proof -
  note nm = counter_mode_ni [OF assms(1)]
  have sizes: "PIPELINES build_c = 1" "PIPELINES (build_ni ni) = 8" by (simp_all add: build_c_def build_ni_def)
  have "prng_c.at_byte seed 0 gc" using prng_c.SetSeed_start [OF assms(2)] assms(3) by auto
  then obtain g where c: "PRNG_get_octets build_c 8 gc = (map (stream_byte seed) [0..<8], g)" "prng_c.at_byte seed 8 g"
    using prng_c.get_octets [of seed 0 gc 8] by (auto simp: sizes)
  have cg: "prng_c.round_at seed 0 g" "pr_cnt g = 8"
  proof -
    obtain r where r: "prng_c.round_at seed r g" "8 = 16 * r + pr_cnt g"
      using c(2) by (auto simp: prng_c.at_byte_def sizes)
    then have "r = 0" by simp
    with r show "prng_c.round_at seed 0 g" "pr_cnt g = 8" by simp_all
  qed
  have "prng_c.round_at seed 1 (PRNG_next build_c g)" using prng_c.next_round [OF cg(1)] by (simp add: sizes)
  then have r: "pr_random (PRNG_next build_c g) = map (stream_byte seed) [16..<32]"
    by (simp add: prng_c.round_at_def sizes)
  have 1: "fst (PRNG_get_doubleword build_c (snd (PRNG_get_word build_c gc))) = loadu (map (stream_byte seed) [16..<32])"
    using c(1) cg(2) r by (simp add: PRNG_get_word_def PRNG_get_doubleword_def sizes Let_def)
  have "counter_mode.at_byte (build_ni ni) (\<lambda>key. rk (FixedKeyAES_init key)) seed 0 gn"
    using counter_mode.SetSeed_start [OF nm assms(2)] assms(4) by auto
  then obtain g' where n: "PRNG_get_octets (build_ni ni) 8 gn = (map (stream_byte seed) [0..<8], g')"
      "counter_mode.at_byte (build_ni ni) (\<lambda>key. rk (FixedKeyAES_init key)) seed 8 g'"
    using counter_mode.get_octets [OF nm, of seed 0 gn 8] by (auto simp: sizes)
  have ng: "pr_random g' = map (stream_byte seed) [0..<128]" "pr_cnt g' = 8"
  proof -
    obtain r where r: "counter_mode.round_at (build_ni ni) (\<lambda>key. rk (FixedKeyAES_init key)) seed r g'"
      "pr_cnt g' \<le> 128" "8 = 128 * r + pr_cnt g'"
      using n(2) by (auto simp: counter_mode.at_byte_def [OF nm] sizes)
    then have "r = 0" by simp
    with r show "pr_random g' = map (stream_byte seed) [0..<128]" "pr_cnt g' = 8"
      by (simp_all add: counter_mode.round_at_def [OF nm] sizes)
  qed
  have "fst (PRNG_get_doubleword (build_ni ni) (snd (PRNG_get_word (build_ni ni) gn))) = loadu (map (stream_byte seed) [8..<24])"
    using n(1) ng by (simp add: PRNG_get_word_def PRNG_get_doubleword_def sizes Let_def take_map drop_map take_upt)
  with 1 show ?thesis ..
qed

lemma prng_builds_disagree_witness:
  "\<exists>gc gn. PRNG_SetSeed build_c zero_block = Inr gc \<and> PRNG_SetSeed (build_ni documented_ni) zero_block = Inr gn \<and>
    fst (PRNG_get_doubleword build_c (snd (PRNG_get_word build_c gc))) = loadu (map (stream_byte zero_block) [16..<32]) \<and>
    fst (PRNG_get_doubleword (build_ni documented_ni) (snd (PRNG_get_word (build_ni documented_ni) gn))) =
      loadu (map (stream_byte zero_block) [8..<24])"
proof -
  obtain gc gn where g: "PRNG_SetSeed build_c zero_block = Inr gc" "PRNG_SetSeed (build_ni documented_ni) zero_block = Inr gn"
    using prng_c.SetSeed_start [of zero_block] prng_ni.SetSeed_start [of zero_block] by auto
  from prng_builds_disagree [OF documented_ni _ g] g show ?thesis by auto
qed

end
