(* ===== verification/OT_Extension.thy ===== *)
theory OT_Extension
  imports Bit_Square Prng Yao_And Octet_Stream
begin

text \<open>
  The correlated oblivious transfer extension of \<^verbatim>\<open>OT/OTExtensionWithMatrix.cpp\<close>, \<^verbatim>\<open>OT/OTCorrelator.hpp\<close> and
  \<^verbatim>\<open>OT/OTExtension.h\<close>: 128 base transfers seed generators, whose outputs are the columns of bit matrices; one
  message corrects the sender's matrix, and the transposition makes a transfer of every column.
  Vectors of bits are those of \<^verbatim>\<open>Tools/BitVector.h\<close>.
\<close>

section \<open>Vectors of bits\<close>

record BitVector =
  bv_bytes :: "u8 list"
  bv_nbits :: nat

definition bv_zero :: "nat \<Rightarrow> BitVector" where
  "bv_zero n = \<lparr>bv_bytes = replicate (div_ceil n 8) 0, bv_nbits = n\<rparr>"

text \<open>\<^verbatim>\<open>get_bit\<close> and \<^verbatim>\<open>set_word\<close> do not check the index; \<^verbatim>\<open>set_bit\<close> does.\<close>

definition bv_get_bit :: "BitVector \<Rightarrow> nat \<Rightarrow> bool result" where
  "bv_get_bit v i = bind_result (vec_read (bv_bytes v) (i div 8)) (\<lambda>b. Inr (bit b (i mod 8)))"

definition bv_set_bit :: "BitVector \<Rightarrow> nat \<Rightarrow> bool \<Rightarrow> BitVector result" where
  "bv_set_bit v i a =
    (if bv_nbits v \<le> i then Inl (runtime_error ''overflow'')
     else bind_result (vec_read (bv_bytes v) (i div 8)) (\<lambda>b.
       bind_result (vec_write (bv_bytes v) (i div 8) (if a then b OR push_bit (i mod 8) 1 else b AND NOT (push_bit (i mod 8) 1)))
         (\<lambda>bs. Inr (v\<lparr>bv_bytes := bs\<rparr>))))"

definition bv_set_word :: "BitVector \<Rightarrow> nat \<Rightarrow> u64 \<Rightarrow> BitVector result" where
  "bv_set_word v i w =
    (if length (bv_bytes v) < 8 * i + 8 then Inl undefined_access
     else Inr (v\<lparr>bv_bytes := take (8 * i) (bv_bytes v) @ u64_bytes w @ drop (8 * i + 8) (bv_bytes v)\<rparr>))"

definition bv_resize_zero :: "nat \<Rightarrow> BitVector \<Rightarrow> BitVector" where
  "bv_resize_zero n v =
    (if bv_nbits v = n then v
     else \<lparr>bv_bytes = take (div_ceil n 8) (bv_bytes v) @ replicate (div_ceil n 8 - length (bv_bytes v)) 0, bv_nbits = n\<rparr>)"

text \<open>The assertion of \<^verbatim>\<open>get_ptr_to_byte\<close> is weaker than what the access needs.\<close>

definition bv_block_at :: "BitVector \<Rightarrow> nat \<Rightarrow> m128 result" where
  "bv_block_at v i =
    (if length (bv_bytes v) < i + 16 then Inl (exit_failure ''assertion failed'')
     else if length (bv_bytes v) < 16 * i + 16 then Inl undefined_access
     else Inr (loadu (take 16 (drop (16 * i) (bv_bytes v)))))"

section \<open>Bit matrices\<close>

type_synonym bit_matrix = "square128 list"

definition resize_vertical :: "nat \<Rightarrow> bit_matrix \<Rightarrow> bit_matrix" where
  "resize_vertical n M = (let k = div_ceil n 128 in take k M @ replicate (k - length M) zero_square)"

definition bm_resize :: "nat \<Rightarrow> bit_matrix \<Rightarrow> bit_matrix result" where
  "bm_resize n M =
    (if n mod 128 \<noteq> 0 then Inl (runtime_error ''invalid length'')
     else Inr (take (n div 128) M @ replicate (n div 128 - length M) zero_square))"

definition bm_row :: "bit_matrix \<Rightarrow> nat \<Rightarrow> m128" where
  "bm_row M i = M ! (i div 128) ! (i mod 128)"

definition square_xor :: "square128 \<Rightarrow> square128 \<Rightarrow> square128" where
  "square_xor = map2 m128_xor"

definition square_xor_row :: "square128 \<Rightarrow> m128 \<Rightarrow> square128" where
  "square_xor_row M x = map (\<lambda>r. m128_xor r x) M"

definition conditional_add :: "BitVector \<Rightarrow> nat \<Rightarrow> square128 \<Rightarrow> square128 \<Rightarrow> square128 result" where
  "conditional_add conditions offset M other =
    fold_result (\<lambda>M i. bind_result (bv_get_bit conditions (128 * offset + i)) (\<lambda>c.
      Inr (if c then M[i := m128_xor (M ! i) (other ! i)] else M))) M [0..<128]"

definition square_pack :: "square128 \<Rightarrow> octetStream \<Rightarrow> octetStream result" where
  "square_pack M os = append (concat (map storeu M)) os"

definition square_unpack :: "octetStream \<Rightarrow> (square128 \<times> octetStream) result" where
  "square_unpack os = bind_result (consume 2048 os) (\<lambda>(bs, os).
    Inr (map (\<lambda>i. loadu (take 16 (drop (16 * i) bs))) [0..<128], os))"

text \<open>
  A slice is the squares from \<open>start\<close> on, \<open>nsq\<close> of them; making one that does not lie in the matrix throws.
  A function on squares is applied to each of them with its number.
\<close>

definition make_slices :: "nat \<Rightarrow> nat \<Rightarrow> bit_matrix list \<Rightarrow> unit result" where
  "make_slices start nsq Ms =
    (if \<exists>M \<in> set Ms. length M < start + nsq then Inl (runtime_error ''Matrix slice larger than matrix'') else Inr ())"

definition slice_map :: "nat \<Rightarrow> nat \<Rightarrow> (nat \<Rightarrow> square128 \<Rightarrow> square128 result) \<Rightarrow> bit_matrix \<Rightarrow> bit_matrix result" where
  "slice_map start nsq f M =
    fold_result (\<lambda>M i. bind_result (f i (M ! i)) (\<lambda>x. Inr (M[i := x]))) M [start..<start + nsq]"

fun slice_randomize ::
  "'k prng_build \<Rightarrow> nat \<Rightarrow> nat list \<Rightarrow> bit_matrix \<times> 'k PRNG \<Rightarrow> bit_matrix \<times> 'k PRNG" where
  "slice_randomize b row [] (M, g) = (M, g)"
| "slice_randomize b row (i # is) (M, g) =
     (let (x, g) = PRNG_get_doubleword b g in slice_randomize b row is (M[i := (M ! i)[row := x]], g))"

section \<open>State and roles\<close>

datatype OT_ROLE = RECEIVER | SENDER | BOTH

fun INV_ROLE :: "OT_ROLE \<Rightarrow> OT_ROLE" where
  "INV_ROLE RECEIVER = SENDER"
| "INV_ROLE SENDER = RECEIVER"
| "INV_ROLE BOTH = BOTH"

definition is_receiver :: "OT_ROLE \<Rightarrow> bool" where
  "is_receiver r \<longleftrightarrow> r \<noteq> SENDER"

definition is_sender :: "OT_ROLE \<Rightarrow> bool" where
  "is_sender r \<longleftrightarrow> r \<noteq> RECEIVER"

record 'k OTExtension =
  ot_role :: OT_ROLE
  passive_only :: bool
  nbaseOTs :: nat
  baseReceiverInput :: BitVector
  G_sender :: "('k PRNG \<times> 'k PRNG) list"
  G_receiver :: "'k PRNG list"
  senderOutput0 :: bit_matrix
  senderOutput1 :: bit_matrix
  receiverOutputMatrix :: bit_matrix
  ot_t1 :: bit_matrix
  ot_u :: bit_matrix
  nsubloops :: nat
  ot_G :: "'k PRNG"

section \<open>The steps of the extension\<close>

definition correlator_resize :: "nat \<Rightarrow> 'k OTExtension \<Rightarrow> 'k OTExtension" where
  "correlator_resize n st = st\<lparr>ot_t1 := resize_vertical n (ot_t1 st), ot_u := resize_vertical n (ot_u st),
    senderOutput0 := resize_vertical n (senderOutput0 st), senderOutput1 := resize_vertical n (senderOutput1 st),
    receiverOutputMatrix := resize_vertical n (receiverOutputMatrix st)\<rparr>"

definition expand_receiver_row :: "'k prng_build \<Rightarrow> nat \<Rightarrow> nat \<Rightarrow> 'k OTExtension \<Rightarrow> nat \<Rightarrow> 'k OTExtension result" where
  "expand_receiver_row b start nsq st i =
    bind_result (vec_read (G_sender st) i) (\<lambda>(g0, g1).
      let (R, g0) = slice_randomize b i [start..<start + nsq] (receiverOutputMatrix st, g0);
          (T, g1) = slice_randomize b i [start..<start + nsq] (ot_t1 st, g1)
      in Inr (st\<lparr>receiverOutputMatrix := R, ot_t1 := T, G_sender := (G_sender st)[i := (g0, g1)]\<rparr>))"

definition expand_sender_row :: "'k prng_build \<Rightarrow> nat \<Rightarrow> nat \<Rightarrow> 'k OTExtension \<Rightarrow> nat \<Rightarrow> 'k OTExtension result" where
  "expand_sender_row b start nsq st i =
    bind_result (vec_read (G_receiver st) i) (\<lambda>g.
      let (S, g) = slice_randomize b i [start..<start + nsq] (senderOutput0 st, g)
      in Inr (st\<lparr>senderOutput0 := S, G_receiver := (G_receiver st)[i := g]\<rparr>))"

definition expand :: "'k prng_build \<Rightarrow> nat \<Rightarrow> nat \<Rightarrow> 'k OTExtension \<Rightarrow> 'k OTExtension result" where
  "expand b start nsq st =
    bind_result (make_slices start nsq [receiverOutputMatrix st, senderOutput0 st, senderOutput1 st, ot_t1 st]) (\<lambda>_.
    bind_result (if is_receiver (ot_role st)
      then fold_result (expand_receiver_row b start nsq) st [0..<nbaseOTs st] else Inr st) (\<lambda>st.
    if is_sender (ot_role st)
      then fold_result (expand_sender_row b start nsq) st [0..<nbaseOTs st] else Inr st))"

text \<open>
  \<^verbatim>\<open>correlate\<close> up to the exchange: the receiver's message \<open>t0 + t1 + x\<close>, with \<open>x\<close> the choice bits of a square in every
  row; and after the exchange: the sender adds the message to the rows where its base choice is 1.
\<close>

definition slice_fits :: "nat \<Rightarrow> nat \<Rightarrow> BitVector \<Rightarrow> bool" where
  "slice_fits start nsq x \<longleftrightarrow> (start + nsq) * 128 \<le> bv_nbits x"

definition correlate_send ::
  "nat \<Rightarrow> nat \<Rightarrow> BitVector \<Rightarrow> 'k OTExtension \<Rightarrow> ('k OTExtension \<times> octetStream) result" where
  "correlate_send start nsq x st =
    bind_result (make_slices start nsq [receiverOutputMatrix st, senderOutput0 st, ot_t1 st, ot_u st]) (\<lambda>_.
    if is_receiver (ot_role st) then
      bind_result (slice_map start nsq (\<lambda>i s. Inr (square_xor s (receiverOutputMatrix st ! i))) (ot_t1 st)) (\<lambda>T.
      bind_result (if slice_fits start nsq x then Inr () else Inl (runtime_error ''128'')) (\<lambda>_.
      bind_result (slice_map start nsq (\<lambda>i s. bind_result (bv_block_at x i) (\<lambda>w. Inr (square_xor_row s w))) T) (\<lambda>T.
      bind_result (os_reserve (2048 * nsq) empty_stream) (\<lambda>os.
      bind_result (fold_result (\<lambda>os i. square_pack (T ! i) os) os [start..<start + nsq]) (\<lambda>os.
      Inr (st\<lparr>ot_t1 := T\<rparr>, os))))))
    else Inr (st, empty_stream))"

definition correlate_receive ::
  "nat \<Rightarrow> nat \<Rightarrow> octetStream \<Rightarrow> 'k OTExtension \<Rightarrow> 'k OTExtension result" where
  "correlate_receive start nsq os st =
    (if is_sender (ot_role st) then
       bind_result (get_items square_unpack nsq os) (\<lambda>(squares, os).
       let U = take start (ot_u st) @ squares @ drop (start + nsq) (ot_u st)
       in bind_result (slice_map start nsq (\<lambda>i s. conditional_add (baseReceiverInput st) 0 s (U ! i)) (senderOutput0 st)) (\<lambda>S.
         Inr (st\<lparr>ot_u := U, senderOutput0 := S\<rparr>)))
     else Inr st)"

definition transpose_slice :: "nat \<Rightarrow> nat \<Rightarrow> 'k OTExtension \<Rightarrow> 'k OTExtension result" where
  "transpose_slice start nsq st =
    bind_result (make_slices start nsq [receiverOutputMatrix st, senderOutput0 st, senderOutput1 st]) (\<lambda>_.
    bind_result (if is_receiver (ot_role st)
       then slice_map start nsq (\<lambda>_ s. Inr (square_transpose s)) (receiverOutputMatrix st)
       else Inr (receiverOutputMatrix st)) (\<lambda>R.
    bind_result (if is_sender (ot_role st)
       then slice_map start nsq (\<lambda>_ s. Inr (square_transpose s)) (senderOutput0 st)
       else Inr (senderOutput0 st)) (\<lambda>S.
    Inr (st\<lparr>receiverOutputMatrix := R, senderOutput0 := S\<rparr>))))"

section \<open>Extension\<close>

text \<open>
  One turn of the loop over the slices.  \<open>incoming\<close> are the messages that the other side sends, one for each turn; what
  this side sends is collected.
\<close>

definition subloop ::
  "'k prng_build \<Rightarrow> nat \<Rightarrow> BitVector \<Rightarrow> 'k OTExtension \<times> octetStream list \<times> octetStream list \<Rightarrow> nat \<Rightarrow>
    ('k OTExtension \<times> octetStream list \<times> octetStream list) result" where
  "subloop b nsq x = (\<lambda>(st, incoming, sent) start.
    bind_result (expand b start nsq st) (\<lambda>st.
    bind_result (correlate_send start nsq x st) (\<lambda>(st, os).
    let sent = (if is_receiver (ot_role st) then sent @ [os] else sent) in
    bind_result
      (if is_sender (ot_role st)
       then case incoming of
           [] \<Rightarrow> Inl (runtime_error ''connection closed'')
         | os # incoming \<Rightarrow> bind_result (correlate_receive start nsq os st) (\<lambda>st. Inr (st, incoming))
       else Inr (st, incoming)) (\<lambda>(st, incoming).
    bind_result (transpose_slice start nsq st) (\<lambda>st. Inr (st, incoming, sent))))))"

text \<open>The last 256 choice bits are random.\<close>

definition randomize_tail :: "'k prng_build \<Rightarrow> nat \<Rightarrow> BitVector \<times> 'k PRNG \<Rightarrow> (BitVector \<times> 'k PRNG) result" where
  "randomize_tail b nOTs xg = fold_result (\<lambda>(x, g) i.
    let (w, g) = PRNG_get_word b g in bind_result (bv_set_word x (nOTs div 64 - i - 1) w) (\<lambda>x. Inr (x, g))) xg [0..<4]"

text \<open>
  The check of correlation at the end is a parameter: it is skipped when both sides are passive, as in the Yao programs.
\<close>

definition extend_correlated ::
  "'k prng_build \<Rightarrow> (nat \<Rightarrow> BitVector \<Rightarrow> 'k OTExtension \<Rightarrow> unit result) \<Rightarrow> nat \<Rightarrow> BitVector \<Rightarrow>
    octetStream list \<Rightarrow> 'k OTExtension \<Rightarrow> ('k OTExtension \<times> octetStream list) result" where
  "extend_correlated b check n_requested choice_bits incoming st =
    (if n_requested = 0 then Inr (st, [])
     else if is_receiver (ot_role st) \<and> n_requested \<noteq> bv_nbits choice_bits
     then Inl (runtime_error ''wrong number of choice bits'')
     else let rounded = (n_requested + 127) div 128 * 128;
              nsq = (rounded + 2 * 128) div nsubloops st div 128;
              nOTs = nsq * nsubloops st * 128;
              st = correlator_resize nOTs st
       in bind_result (randomize_tail b nOTs (bv_resize_zero nOTs choice_bits, ot_G st)) (\<lambda>(x, g).
          bind_result (fold_result (subloop b nsq x) (st\<lparr>ot_G := g\<rparr>, incoming, [])
            (map (\<lambda>i. i * nsq) [0..<nsubloops st])) (\<lambda>(st, incoming, sent).
          bind_result (if passive_only st then Inr () else check nOTs x st) (\<lambda>_.
          bind_result (bm_resize rounded (receiverOutputMatrix st)) (\<lambda>R.
          bind_result (bm_resize rounded (senderOutput0 st)) (\<lambda>S0.
          bind_result (bm_resize rounded (senderOutput1 st)) (\<lambda>S1.
          Inr (st\<lparr>receiverOutputMatrix := R, senderOutput0 := S0, senderOutput1 := S1\<rparr>, sent))))))))"

end
