(* ===== verification/OT_Extension_Correct.thy ===== *)
theory OT_Extension_Correct
  imports OT_Extension
begin

text \<open>
  The extension is correct: when the seeds of the two sides are those of base transfers, one run of the receiver and one
  of the sender give a correlated transfer of every choice bit, and leave the seeds in step for the next run.
\<close>

definition wf_matrix :: "bit_matrix \<Rightarrow> bool" where
  "wf_matrix M \<longleftrightarrow> (\<forall>s \<in> set M. wf_square s)"

lemma wf_matrix_nth: "wf_matrix M \<Longrightarrow> k < length M \<Longrightarrow> length (M ! k) = 128"
  by (auto simp: wf_matrix_def wf_square_def)

lemma wf_matrix_map_upt: "(\<And>k. k < n \<Longrightarrow> wf_square (f k)) \<Longrightarrow> wf_matrix (map f [0..<n])"
  by (auto simp: wf_matrix_def)

lemma resize_vertical_128:
  "length (resize_vertical (128 * n) M) = n" "wf_matrix M \<Longrightarrow> wf_matrix (resize_vertical (128 * n) M)"
  by (auto simp: resize_vertical_def div_ceil_def Let_def wf_matrix_def wf_square_def zero_square_def dest: in_set_takeD)

section \<open>Rows from the generators\<close>

fun draws :: "'k prng_build \<Rightarrow> nat \<Rightarrow> 'k PRNG \<Rightarrow> m128 list \<times> 'k PRNG" where
  "draws b 0 g = ([], g)"
| "draws b (Suc n) g = (let (x, g) = PRNG_get_doubleword b g; (xs, g) = draws b n g in (x # xs, g))"

lemma slice_randomize_from:
  "s + n \<le> length M \<Longrightarrow> slice_randomize b row [s..<s + n] (M, g) =
    (map (\<lambda>k. if s \<le> k \<and> k < s + n then (M ! k)[row := fst (draws b n g) ! (k - s)] else M ! k) [0..<length M],
     snd (draws b n g))"
proof (induction n arbitrary: s M g)
  case 0
  have "M = map (\<lambda>k. if s \<le> k \<and> k < s + 0 then (M ! k)[row := fst (draws b 0 g) ! (k - s)] else M ! k) [0..<length M]"
    by (rule nth_equalityI) auto
  then show ?case by simp
next
  case (Suc n)
  obtain x g1 where x: "PRNG_get_doubleword b g = (x, g1)" by fastforce
  have "slice_randomize b row [s..<s + Suc n] (M, g) =
      slice_randomize b row [Suc s..<Suc s + n] (M[s := (M ! s)[row := x]], g1)"
    by (simp add: x upt_conv_Cons del: upt_Suc)
  also have "\<dots> = (map (\<lambda>k. if Suc s \<le> k \<and> k < Suc s + n
        then (M[s := (M ! s)[row := x]] ! k)[row := fst (draws b n g1) ! (k - Suc s)]
        else M[s := (M ! s)[row := x]] ! k) [0..<length M], snd (draws b n g1))"
    using Suc.IH [of "Suc s" "M[s := (M ! s)[row := x]]" g1] Suc.prems by simp
  finally show ?case
    using Suc.prems by (auto simp: x nth_Cons' nth_list_update split: prod.splits)
qed

lemma slice_randomize_all:
  "length M = n \<Longrightarrow> slice_randomize b row [0..<n] (M, g) =
    (map (\<lambda>k. (M ! k)[row := fst (draws b n g) ! k]) [0..<n], snd (draws b n g))"
  using slice_randomize_from [of 0 n M b row g] by simp

text \<open>The matrix \<open>M\<close> with its first \<open>m\<close> rows replaced: row \<open>i\<close> of square \<open>k\<close> by \<open>w i ! k\<close>.\<close>

definition with_rows :: "nat \<Rightarrow> (nat \<Rightarrow> m128 list) \<Rightarrow> bit_matrix \<Rightarrow> bit_matrix" where
  "with_rows m w M = map (\<lambda>k. map (\<lambda>i. if i < m then w i ! k else M ! k ! i) [0..<128]) [0..<length M]"

lemma length_with_rows [simp]: "length (with_rows m w M) = length M"
  by (simp add: with_rows_def)

lemma with_rows_0: "wf_matrix M \<Longrightarrow> with_rows 0 w M = M"
  by (auto simp: with_rows_def wf_matrix_nth map_upt_nth_eq intro!: nth_equalityI)

lemma with_rows_Suc:
  "m < 128 \<Longrightarrow> map (\<lambda>k. (with_rows m w M ! k)[m := w m ! k]) [0..<length M] = with_rows (Suc m) w M"
  by (auto simp: with_rows_def nth_list_update less_Suc_eq intro!: nth_equalityI)

definition rows_of :: "'k prng_build \<Rightarrow> nat \<Rightarrow> 'k PRNG list \<Rightarrow> nat \<Rightarrow> m128 list" where
  "rows_of b n gs i = fst (draws b n (gs ! i))"

definition advance :: "'k prng_build \<Rightarrow> nat \<Rightarrow> 'k PRNG \<Rightarrow> 'k PRNG" where
  "advance b n g = snd (draws b n g)"

lemma map_take_update:
  "m < length xs \<Longrightarrow> (map f (take m xs) @ drop m xs)[m := f (xs ! m)] = map f (take (Suc m) xs) @ drop (Suc m) xs"
  by (simp add: take_Suc_conv_app_nth list_update_append flip: Cons_nth_drop_Suc)

lemma expand_sender_rows:
  assumes "m \<le> length (G_receiver st)" "m \<le> 128" "length (senderOutput0 st) = n" "wf_matrix (senderOutput0 st)"
  shows "fold_result (expand_sender_row b 0 n) st [0..<m] = Inr (st\<lparr>
    senderOutput0 := with_rows m (rows_of b n (G_receiver st)) (senderOutput0 st),
    G_receiver := map (advance b n) (take m (G_receiver st)) @ drop m (G_receiver st)\<rparr>)"
  using assms(1,2)
proof (induction m)
  case (Suc m)
  have *: "G_receiver st ! m = (map (advance b n) (take m (G_receiver st)) @ drop m (G_receiver st)) ! m"
    using Suc.prems by (simp add: nth_append)
  have "m < 128" "m < length (G_receiver st)" using Suc.prems by simp_all
  then show ?case
    using Suc.IH assms(3) with_rows_Suc [of m "rows_of b n (G_receiver st)" "senderOutput0 st"]
      map_take_update [of m "G_receiver st" "advance b n"]
    by (simp add: fold_result_append expand_sender_row_def slice_randomize_all flip: *)
      (simp add: rows_of_def advance_def)
qed (use assms with_rows_0 in simp)

lemma expand_receiver_rows:
  assumes "m \<le> length (G_sender st)" "m \<le> 128" "length (receiverOutputMatrix st) = n" "length (ot_t1 st) = n"
    and "wf_matrix (receiverOutputMatrix st)" "wf_matrix (ot_t1 st)"
  shows "fold_result (expand_receiver_row b 0 n) st [0..<m] = Inr (st\<lparr>
    receiverOutputMatrix := with_rows m (rows_of b n (map fst (G_sender st))) (receiverOutputMatrix st),
    ot_t1 := with_rows m (rows_of b n (map snd (G_sender st))) (ot_t1 st),
    G_sender := map (map_prod (advance b n) (advance b n)) (take m (G_sender st)) @ drop m (G_sender st)\<rparr>)"
  using assms(1,2)
proof (induction m)
  case (Suc m)
  have m: "m < 128" "m < length (G_sender st)" using Suc.prems by simp_all
  have *: "(map (map_prod (advance b n) (advance b n)) (take m (G_sender st)) @ drop m (G_sender st)) ! m = G_sender st ! m"
    using m by (simp add: nth_append)
  obtain g0 g1 where g: "G_sender st ! m = (g0, g1)" by fastforce
  show ?case
    using m Suc.IH assms(3,4) with_rows_Suc [of m "rows_of b n (map fst (G_sender st))" "receiverOutputMatrix st"]
      with_rows_Suc [of m "rows_of b n (map snd (G_sender st))" "ot_t1 st"]
      map_take_update [of m "G_sender st" "map_prod (advance b n) (advance b n)"]
    by (simp add: fold_result_append expand_receiver_row_def slice_randomize_all * g)
      (simp add: rows_of_def advance_def g)
qed (use assms with_rows_0 in simp)

section \<open>Squares one by one\<close>

lemma slice_map_all:
  assumes "length M = n" "\<And>i. i < n \<Longrightarrow> f i (M ! i) = Inr (g i)"
  shows "slice_map 0 n f M = Inr (map g [0..<n])"
proof -
  have "fold_result (\<lambda>M i. bind_result (f i (M ! i)) (\<lambda>x. Inr (M[i := x]))) M [0..<m] = Inr (map g [0..<m] @ drop m M)"
    if "m \<le> n" for m
    using that
  proof (induction m)
    case (Suc m)
    then show ?case using assms
      by (simp add: fold_result_append nth_append list_update_append flip: Cons_nth_drop_Suc)
  qed simp
  from this [of n] show ?thesis using assms(1) by (simp add: slice_map_def)
qed

lemma make_slices_all: "\<forall>M \<in> set Ms. length M = n \<Longrightarrow> make_slices 0 n Ms = Inr ()"
  by (auto simp: make_slices_def)

definition square_bytes :: "square128 \<Rightarrow> u8 list" where
  "square_bytes M = concat (map storeu M)"

lemma length_square_bytes: "wf_square M \<Longrightarrow> length (square_bytes M) = 2048"
proof -
  have "length (concat (map storeu M)) = 16 * length M" by (induction M) simp_all
  then show "wf_square M \<Longrightarrow> length (square_bytes M) = 2048" by (simp add: square_bytes_def wf_square_def)
qed

lemma drop_square_bytes: "i < length M \<Longrightarrow> take 16 (drop (16 * i) (square_bytes M)) = storeu (M ! i)"
proof (induction M arbitrary: i)
  case (Cons r M)
  then show ?case by (cases i) (simp_all add: square_bytes_def)
qed simp

interpretation os_square: Octet_Stream.codec square_pack square_unpack wf_square
proof
  fix M :: square128 and w
  assume M: "wf_square M" and "writable w"
  then obtain w' where w': "append (square_bytes M) w = Inr w'" "writable w'" "ahead w w'"
    "delivers w w' (consume 2048) (square_bytes M)"
    using append_consume [of w "square_bytes M"] length_square_bytes [of M] by auto
  have "map (\<lambda>i. loadu (take 16 (drop (16 * i) (square_bytes M)))) [0..<128] = M"
    using M by (intro nth_equalityI) (simp_all add: wf_square_def drop_square_bytes loadu_storeu')
  then show "\<exists>w'. square_pack M w = Inr w' \<and> writable w' \<and> ahead w w' \<and> delivers w w' square_unpack M"
    using w' delivers_map [OF w'(4), of "\<lambda>bs. map (\<lambda>i. loadu (take 16 (drop (16 * i) bs))) [0..<128]"]
    by (simp add: square_pack_def square_bytes_def square_unpack_def [abs_def])
qed

text \<open>The receiver's message arrives.\<close>

lemma pack_squares:
  assumes "writable w" "bits_n (os_wbits w) = 0" "wf_matrix Ms"
  shows "\<exists>m. fold_result (\<lambda>w x. square_pack x w) w Ms =
    Inr (w\<lparr>os_data := os_data w @ concat (map square_bytes Ms), os_mxlen := m\<rparr>)"
  using assms
proof (induction Ms arbitrary: w)
  case Nil
  then show ?case by (intro exI [of _ "os_mxlen w"]) simp
next
  case (Cons x Ms)
  obtain m where m: "square_pack x w = Inr (w\<lparr>os_data := os_data w @ square_bytes x, os_mxlen := m\<rparr>)"
    using append_ok [OF Cons.prems(1), of "square_bytes x"] Cons.prems(2)
    by (auto simp: square_pack_def square_bytes_def flushed_def)
  let ?w = "w\<lparr>os_data := os_data w @ square_bytes x, os_mxlen := m\<rparr>"
  have "writable ?w" using os_square.put_get [OF _ Cons.prems(1), of x] m Cons.prems(3) by (auto simp: wf_matrix_def)
  then obtain m' where "fold_result (\<lambda>w x. square_pack x w) ?w Ms =
      Inr (?w\<lparr>os_data := os_data ?w @ concat (map square_bytes Ms), os_mxlen := m'\<rparr>)"
    using Cons.IH [of ?w] Cons.prems(2,3) by (auto simp: wf_matrix_def)
  then show ?case using m by auto
qed

lemma squares_delivered:
  assumes "wf_matrix Ms" "length Ms < 2 ^ 48"
  shows "\<exists>os r. bind_result (os_reserve (2048 * length Ms) empty_stream) (\<lambda>os.
      fold_result (\<lambda>os i. square_pack (Ms ! i) os) os [0..<length Ms]) = Inr os \<and>
    get_items square_unpack (length Ms) os = Inr (Ms, r)"
proof -
  let ?w = "empty_stream\<lparr>os_mxlen := 2048 * length Ms\<rparr>"
  have reserve: "os_reserve (2048 * length Ms) empty_stream = Inr ?w"
    by (cases "Ms = []") (simp_all add: os_reserve_def resize_precise_def empty_stream_def)
  have w: "writable ?w" "bits_n (os_wbits ?w) = 0"
    using writable_empty by (simp_all add: writable_def empty_stream_def)
  have fold: "fold_result (\<lambda>os i. square_pack (Ms ! i) os) ?w [0..<length Ms] = fold_result (\<lambda>os x. square_pack x os) ?w Ms"
    using fold_result_map [of "\<lambda>os x. square_pack x os" ?w "\<lambda>i. Ms ! i" "[0..<length Ms]"] by (simp add: map_nth)
  obtain m where m: "fold_result (\<lambda>os x. square_pack x os) ?w Ms =
      Inr (?w\<lparr>os_data := os_data ?w @ concat (map square_bytes Ms), os_mxlen := m\<rparr>)" (is "_ = Inr ?os")
    using pack_squares [OF w assms(1)] by blast
  then have "delivers ?w ?os (get_items square_unpack (length Ms)) Ms"
    using os_square.items [OF _ w(1), of Ms] assms(1) by (auto simp: wf_matrix_def)
  then have "delivers empty_stream ?os (get_items square_unpack (length Ms)) Ms"
    by (simp add: delivers_def sync_def flushed_def)
  moreover have "length (concat (map square_bytes Ms)) = 2048 * length Ms"
    using assms(1) by (induction Ms) (simp_all add: wf_matrix_def length_square_bytes)
  ultimately have "\<exists>r. get_items square_unpack (length Ms) ?os = Inr (Ms, r)"
    using assms(2) by (intro fresh_delivers) (simp_all add: empty_stream_def no_bits_def del: length_concat)
  then show ?thesis using reserve fold m by auto
qed

section \<open>Bits of the vectors\<close>

definition bv_bit :: "BitVector \<Rightarrow> nat \<Rightarrow> bool" where
  "bv_bit v i \<longleftrightarrow> bit (bv_bytes v ! (i div 8)) (i mod 8)"

definition wf_bv :: "BitVector \<Rightarrow> bool" where
  "wf_bv v \<longleftrightarrow> length (bv_bytes v) = div_ceil (bv_nbits v) 8"

lemma bv_get_bit_Inr: "wf_bv v \<Longrightarrow> i < bv_nbits v \<Longrightarrow> bv_get_bit v i = Inr (bv_bit v i)"
proof -
  assume "wf_bv v" "i < bv_nbits v"
  then have "i div 8 < length (bv_bytes v)"
    by (auto simp: wf_bv_def div_ceil_def div_less_iff_less_mult less_mult_imp_div_less)
  then show ?thesis by (simp add: bv_get_bit_def bv_bit_def)
qed

lemma bv_block_at_ok:
  assumes "16 * i + 16 \<le> length (bv_bytes v)"
  shows "\<exists>w. bv_block_at v i = Inr w \<and> (\<forall>r < 128. m128_bit w r = bv_bit v (128 * i + r))"
proof -
  let ?bs = "take 16 (drop (16 * i) (bv_bytes v))"
  have "m128_bit (loadu ?bs) r = bv_bit v (128 * i + r)" if r: "r < 128" for r
  proof -
    have "r div 8 < 16" using r by (simp add: div_less_iff_less_mult)
    moreover have "(128 * i + r) div 8 = 16 * i + r div 8" "(128 * i + r) mod 8 = r mod 8"
      using div_mult_self1 [of 8 r "16 * i"] mod_mult_self1 [of r "16 * i" 8] by (simp_all add: add.commute)
    ultimately show ?thesis using assms r by (simp add: bit_loadu bv_bit_def)
  qed
  moreover have "bv_block_at v i = Inr (loadu ?bs)" using assms by (simp add: bv_block_at_def)
  ultimately show ?thesis by blast
qed

lemma bv_resize_zero_bits:
  assumes "wf_bv v" "bv_nbits v \<le> n"
  shows "wf_bv (bv_resize_zero n v)" "bv_nbits (bv_resize_zero n v) = n"
    "i < bv_nbits v \<Longrightarrow> bv_bit (bv_resize_zero n v) i = bv_bit v i"
proof -
  have le: "length (bv_bytes v) \<le> div_ceil n 8"
    using assms by (simp add: wf_bv_def div_ceil_def div_le_mono)
  show "wf_bv (bv_resize_zero n v)" "bv_nbits (bv_resize_zero n v) = n"
    using assms le by (auto simp: bv_resize_zero_def wf_bv_def)
  assume "i < bv_nbits v"
  then have "i div 8 < length (bv_bytes v)"
    using assms(1) by (auto simp: wf_bv_def div_ceil_def div_less_iff_less_mult less_mult_imp_div_less)
  then show "bv_bit (bv_resize_zero n v) i = bv_bit v i"
    using le by (simp add: bv_resize_zero_def bv_bit_def nth_append)
qed

text \<open>The random tail leaves the rest alone.\<close>

lemma randomize_tail_ok:
  assumes "length (bv_bytes x) = 16 * (q + 2)"
  shows "\<exists>x' g'. randomize_tail b (128 * (q + 2)) (x, g) = Inr (x', g') \<and> length (bv_bytes x') = length (bv_bytes x) \<and>
    bv_nbits x' = bv_nbits x \<and> (\<forall>i < 128 * q. bv_bit x' i = bv_bit x i)"
proof -
  have words: "128 * (q + 2) div 64 = 2 * q + 4" by (simp add: div_mult2_eq)
  let ?step = "\<lambda>(x, g) i. let (w, g) = PRNG_get_word b g in
    bind_result (bv_set_word x (128 * (q + 2) div 64 - i - 1) w) (\<lambda>x. Inr (x, g))"
  have "\<exists>x' g'. fold_result ?step (x, g) is = Inr (x', g') \<and> length (bv_bytes x') = length (bv_bytes x) \<and>
      bv_nbits x' = bv_nbits x \<and> (\<forall>j < 16 * q. bv_bytes x' ! j = bv_bytes x ! j)"
    if "\<forall>i \<in> set is. i < 4" "length (bv_bytes x) = 16 * (q + 2)" for "is" x g
    using that
  proof (induction "is" arbitrary: x g)
    case (Cons i "is")
    obtain w g1 where w: "PRNG_get_word b g = (w, g1)" by fastforce
    define k where "k = 3 + 2 * q - i"
    have k: "2 * q \<le> k" "8 * k + 8 \<le> 16 * (q + 2)" using Cons.prems(1) by (auto simp: k_def)
    let ?x = "x\<lparr>bv_bytes := take (8 * k) (bv_bytes x) @ u64_bytes w @ drop (8 * k + 8) (bv_bytes x)\<rparr>"
    have "?step (x, g) i = Inr (?x, g1)"
      using k Cons.prems(2) by (simp add: w words bv_set_word_def flip: k_def)
    moreover have "length (bv_bytes ?x) = 16 * (q + 2)" "\<forall>j < 16 * q. bv_bytes ?x ! j = bv_bytes x ! j"
      using k Cons.prems(2) by (simp_all add: nth_append)
    ultimately show ?case using Cons.IH [of ?x g1] Cons.prems by simp
  qed simp
  from this [of "[0..<4]" x g] obtain x' g' where x': "randomize_tail b (128 * (q + 2)) (x, g) = Inr (x', g')"
    "length (bv_bytes x') = length (bv_bytes x)" "bv_nbits x' = bv_nbits x"
    "\<forall>j < 16 * q. bv_bytes x' ! j = bv_bytes x ! j"
    using assms by (auto simp: randomize_tail_def)
  moreover have "i div 8 < 16 * q" if "i < 128 * q" for i
    using that by (simp add: div_less_iff_less_mult)
  ultimately show ?thesis by (auto simp: bv_bit_def)
qed

text \<open>The vector of 128 bits as a register.\<close>

definition bv_register :: "BitVector \<Rightarrow> m128" where
  "bv_register v = loadu (bv_bytes v)"

lemma bit_bv_register: "wf_bv v \<Longrightarrow> bv_nbits v = 128 \<Longrightarrow> i < 128 \<Longrightarrow> m128_bit (bv_register v) i = bv_bit v i"
  by (simp add: bv_register_def bv_bit_def wf_bv_def div_ceil_def bit_loadu)

lemma conditional_add_all:
  assumes "wf_bv v" "bv_nbits v = 128" "length M = 128"
  shows "conditional_add v 0 M other =
    Inr (map (\<lambda>i. if bv_bit v i then m128_xor (M ! i) (other ! i) else M ! i) [0..<128])" (is "_ = Inr (map ?f _)")
proof -
  have "fold_result (\<lambda>M i. bind_result (bv_get_bit v (128 * 0 + i)) (\<lambda>c.
      Inr (if c then M[i := m128_xor (M ! i) (other ! i)] else M))) M [0..<m] = Inr (map ?f [0..<m] @ drop m M)"
    if "m \<le> 128" for m
    using that
  proof (induction m)
    case (Suc m)
    have "bv_get_bit v m = Inr (bv_bit v m)"
      using Suc.prems assms(1,2) by (simp add: bv_get_bit_Inr)
    then show ?case using Suc assms(3)
      by (simp add: fold_result_append nth_append list_update_append flip: Cons_nth_drop_Suc)
  qed simp
  from this [of 128] show ?thesis using assms(3) by (simp add: conditional_add_def)
qed

section \<open>One turn\<close>

definition rows_matrix :: "nat \<Rightarrow> (nat \<Rightarrow> nat \<Rightarrow> m128) \<Rightarrow> bit_matrix" where
  "rows_matrix n w = map (\<lambda>k. map (w k) [0..<128]) [0..<n]"

lemma rows_matrix_shape [simp]: "length (rows_matrix n w) = n" "wf_matrix (rows_matrix n w)"
  by (auto simp: rows_matrix_def wf_matrix_def wf_square_def)

lemma rows_matrix_nth [simp]: "k < n \<Longrightarrow> rows_matrix n w ! k = map (w k) [0..<128]"
  by (simp add: rows_matrix_def)

lemma with_rows_all: "length M = n \<Longrightarrow> with_rows 128 w M = rows_matrix n (\<lambda>k i. w i ! k)"
  by (auto simp: with_rows_def rows_matrix_def)

lemma map_rows_matrix: "map (\<lambda>k. map (f k) [0..<128]) [0..<n] = rows_matrix n f"
  by (simp add: rows_matrix_def)

definition bv_word :: "BitVector \<Rightarrow> nat \<Rightarrow> m128" where
  "bv_word x k = loadu (take 16 (drop (16 * k) (bv_bytes x)))"

definition ready :: "nat \<Rightarrow> 'k OTExtension \<Rightarrow> bool" where
  "ready n st \<longleftrightarrow> nbaseOTs st = 128 \<and> length (G_sender st) = 128 \<and> length (G_receiver st) = 128 \<and>
    wf_bv (baseReceiverInput st) \<and> bv_nbits (baseReceiverInput st) = 128 \<and>
    length (senderOutput0 st) = n \<and> length (senderOutput1 st) = n \<and> length (receiverOutputMatrix st) = n \<and>
    length (ot_t1 st) = n \<and> length (ot_u st) = n \<and>
    wf_matrix (senderOutput0 st) \<and> wf_matrix (receiverOutputMatrix st) \<and> wf_matrix (ot_t1 st)"

text \<open>The matrices that the seeds give: \<open>t0\<close> and \<open>t1\<close> on the receiver's side, \<open>q\<close> on the sender's.\<close>

definition seed_rows :: "'k prng_build \<Rightarrow> nat \<Rightarrow> 'k PRNG list \<Rightarrow> nat \<Rightarrow> nat \<Rightarrow> m128" where
  "seed_rows b n gs k i = rows_of b n gs i ! k"

definition receiver_message :: "'k prng_build \<Rightarrow> nat \<Rightarrow> BitVector \<Rightarrow> 'k OTExtension \<Rightarrow> bit_matrix" where
  "receiver_message b n x st = rows_matrix n (\<lambda>k i. m128_xor
    (m128_xor (seed_rows b n (map snd (G_sender st)) k i) (seed_rows b n (map fst (G_sender st)) k i)) (bv_word x k))"

lemma expand_receiver:
  assumes "ready n st" "ot_role st = RECEIVER"
  shows "expand b 0 n st = Inr (st\<lparr>
    receiverOutputMatrix := rows_matrix n (seed_rows b n (map fst (G_sender st))),
    ot_t1 := rows_matrix n (seed_rows b n (map snd (G_sender st))),
    G_sender := map (map_prod (advance b n) (advance b n)) (G_sender st)\<rparr>)"
  using assms expand_receiver_rows [of 128 st n b]
  by (simp add: expand_def ready_def make_slices_all is_receiver_def is_sender_def with_rows_all seed_rows_def [abs_def])

lemma expand_sender:
  assumes "ready n st" "ot_role st = SENDER"
  shows "expand b 0 n st = Inr (st\<lparr>
    senderOutput0 := rows_matrix n (seed_rows b n (G_receiver st)),
    G_receiver := map (advance b n) (G_receiver st)\<rparr>)"
  using assms expand_sender_rows [of 128 st n b]
  by (simp add: expand_def ready_def make_slices_all is_receiver_def is_sender_def with_rows_all seed_rows_def [abs_def])

lemma transpose_all: "length M = n \<Longrightarrow> slice_map 0 n (\<lambda>_ s. Inr (square_transpose s)) M = Inr (map square_transpose M)"
  using slice_map_all [of M n "\<lambda>_ s. Inr (square_transpose s)" "\<lambda>i. square_transpose (M ! i)"]
  by (auto intro: nth_equalityI)

lemma receiver_turn:
  assumes "ready n st" "ot_role st = RECEIVER" "length (bv_bytes x) = 16 * n" "bv_nbits x = 128 * n" "n < 2 ^ 48"
  shows "\<exists>os r. subloop b n x (st, incoming, sent) 0 = Inr (st\<lparr>
      receiverOutputMatrix := map square_transpose (rows_matrix n (seed_rows b n (map fst (G_sender st)))),
      ot_t1 := receiver_message b n x st,
      G_sender := map (map_prod (advance b n) (advance b n)) (G_sender st)\<rparr>, incoming, sent @ [os]) \<and>
    get_items square_unpack n os = Inr (receiver_message b n x st, r)"
proof -
  let ?T0 = "rows_matrix n (seed_rows b n (map fst (G_sender st)))"
  let ?T1 = "rows_matrix n (seed_rows b n (map snd (G_sender st)))"
  let ?st = "st\<lparr>receiverOutputMatrix := ?T0, ot_t1 := ?T1, G_sender := map (map_prod (advance b n) (advance b n)) (G_sender st)\<rparr>"
  let ?D = "rows_matrix n (\<lambda>k i. m128_xor
    (seed_rows b n (map snd (G_sender st)) k i) (seed_rows b n (map fst (G_sender st)) k i))"
  note st = assms(1) [unfolded ready_def]
  have rsub: "slice_map 0 n (\<lambda>i s. Inr (square_xor s (?T0 ! i))) ?T1 = Inr ?D"
    by (subst slice_map_all [where g = "\<lambda>k. map (\<lambda>i. m128_xor
          (seed_rows b n (map snd (G_sender st)) k i) (seed_rows b n (map fst (G_sender st)) k i)) [0..<128]"])
      (simp_all add: square_xor_def map_rows_matrix, auto intro: nth_equalityI)
  have word: "bv_block_at x i = Inr (bv_word x i)" if "i < n" for i
    using that assms(3) by (simp add: bv_block_at_def bv_word_def)
  have sub: "slice_map 0 n (\<lambda>i s. bind_result (bv_block_at x i) (\<lambda>w. Inr (square_xor_row s w))) ?D =
      Inr (receiver_message b n x st)"
    by (subst slice_map_all [where g = "\<lambda>k. map (\<lambda>i. m128_xor (m128_xor
          (seed_rows b n (map snd (G_sender st)) k i) (seed_rows b n (map fst (G_sender st)) k i)) (bv_word x k)) [0..<128]"])
      (simp_all add: word square_xor_row_def receiver_message_def map_rows_matrix comp_def)
  obtain os r where os: "bind_result (os_reserve (2048 * n) empty_stream) (\<lambda>os.
      fold_result (\<lambda>os i. square_pack (receiver_message b n x st ! i) os) os [0..<n]) = Inr os"
    "get_items square_unpack n os = Inr (receiver_message b n x st, r)"
    using squares_delivered [of "receiver_message b n x st"] assms(5) by (auto simp: receiver_message_def)
  then obtain os0 where os0: "os_reserve (2048 * n) empty_stream = Inr os0"
    "fold_result (\<lambda>os i. square_pack (receiver_message b n x st ! i) os) os0 [0..<n] = Inr os"
    by (auto simp: bind_result_Inr_iff)
  have send: "correlate_send 0 n x ?st = Inr (?st\<lparr>ot_t1 := receiver_message b n x st\<rparr>, os)"
    using st assms(2,4) rsub sub os0 by (simp add: correlate_send_def make_slices_all is_receiver_def slice_fits_def)
  have "subloop b n x (st, incoming, sent) 0 = Inr (st\<lparr>receiverOutputMatrix := map square_transpose ?T0,
      ot_t1 := receiver_message b n x st, G_sender := map (map_prod (advance b n) (advance b n)) (G_sender st)\<rparr>, incoming, sent @ [os])"
    using st assms(2) transpose_all [of ?T0 n]
    by (simp add: subloop_def expand_receiver [OF assms(1,2)] send is_receiver_def is_sender_def transpose_slice_def
        make_slices_all)
  then show ?thesis using os(2) by blast
qed

definition corrected_rows :: "'k prng_build \<Rightarrow> nat \<Rightarrow> bit_matrix \<Rightarrow> 'k OTExtension \<Rightarrow> nat \<Rightarrow> nat \<Rightarrow> m128" where
  "corrected_rows b n U st k i =
    (if bv_bit (baseReceiverInput st) i then m128_xor (seed_rows b n (G_receiver st) k i) (U ! k ! i)
     else seed_rows b n (G_receiver st) k i)"

lemma sender_turn:
  assumes "ready n st" "ot_role st = SENDER" "get_items square_unpack n os = Inr (U, r)" "length U = n"
  shows "subloop b n x (st, os # incoming, sent) 0 = Inr (st\<lparr>
      senderOutput0 := map square_transpose (rows_matrix n (corrected_rows b n U st)), ot_u := U,
      G_receiver := map (advance b n) (G_receiver st)\<rparr>, incoming, sent)"
proof -
  let ?Q = "rows_matrix n (seed_rows b n (G_receiver st))"
  note st = assms(1) [unfolded ready_def]
  have add: "slice_map 0 n (\<lambda>i s. conditional_add (baseReceiverInput st) 0 s (U ! i)) ?Q =
      Inr (rows_matrix n (corrected_rows b n U st))"
    by (subst slice_map_all [where g = "\<lambda>k. map (corrected_rows b n U st k) [0..<128]"])
      (use st in \<open>simp_all add: conditional_add_all map_rows_matrix, auto simp: corrected_rows_def intro: nth_equalityI\<close>)
  show ?thesis
    using st assms(2-4) add transpose_all [of "rows_matrix n (corrected_rows b n U st)" n]
    by (simp add: subloop_def expand_sender [OF assms(1,2)] correlate_send_def correlate_receive_def is_receiver_def
        is_sender_def transpose_slice_def make_slices_all)
qed

section \<open>The whole extension\<close>

text \<open>
  A state that the constructor and \<^verbatim>\<open>init\<close> leave, or an extension; and seeds as base transfers give them: the sender
  holds, for each of its 128 bits, the generator that the bit chooses.
\<close>

definition ot_ready :: "'k OTExtension \<Rightarrow> bool" where
  "ot_ready st \<longleftrightarrow> nbaseOTs st = 128 \<and> nsubloops st = 1 \<and> length (G_sender st) = 128 \<and> length (G_receiver st) = 128 \<and>
    wf_bv (baseReceiverInput st) \<and> bv_nbits (baseReceiverInput st) = 128 \<and>
    wf_matrix (senderOutput0 st) \<and> wf_matrix (receiverOutputMatrix st) \<and> wf_matrix (ot_t1 st)"

definition seeds_linked :: "'k OTExtension \<Rightarrow> 'k OTExtension \<Rightarrow> bool" where
  "seeds_linked S R \<longleftrightarrow> (\<forall>i < 128. G_receiver S ! i =
    (if bv_bit (baseReceiverInput S) i then snd (G_sender R ! i) else fst (G_sender R ! i)))"

lemma correlator_resize_keeps:
  "ot_G (correlator_resize k st) = ot_G st" "nsubloops (correlator_resize k st) = nsubloops st"
  by (simp_all add: correlator_resize_def)

lemma ready_resized: "ot_ready st \<Longrightarrow> ready n (correlator_resize (128 * n) st\<lparr>ot_G := g\<rparr>)"
  by (simp add: ot_ready_def ready_def correlator_resize_def resize_vertical_128)

lemma wf_square_transpose_rows: "wf_matrix M \<Longrightarrow> wf_matrix (map square_transpose M)"
  by (auto simp: wf_matrix_def wf_square_transpose)

lemma bm_resize_take: "q \<le> length M \<Longrightarrow> bm_resize (128 * q) M = Inr (take q M)"
  by (simp add: bm_resize_def)

definition squares_for :: "nat \<Rightarrow> nat" where
  "squares_for n = (n + 127) div 128"

definition all_squares :: "nat \<Rightarrow> nat" where
  "all_squares n = squares_for n + 2"

lemma extend_correlated_unfold:
  assumes "0 < n" "is_receiver (ot_role st) \<Longrightarrow> n = bv_nbits y" "nsubloops st = 1" "wf_bv y"
  shows "\<exists>x g. length (bv_bytes x) = 16 * (all_squares n) \<and> bv_nbits x = 128 * (all_squares n) \<and>
    (bv_nbits y = n \<longrightarrow> (\<forall>i < n. bv_bit x i = bv_bit y i)) \<and>
    extend_correlated b check n y incoming st =
      bind_result (subloop b (all_squares n) x (correlator_resize (128 * (all_squares n)) st\<lparr>ot_G := g\<rparr>, incoming, []) 0)
        (\<lambda>(st, incoming, sent).
      bind_result (if passive_only st then Inr () else check (128 * (all_squares n)) x st) (\<lambda>_.
      bind_result (bm_resize (128 * squares_for n) (receiverOutputMatrix st)) (\<lambda>R.
      bind_result (bm_resize (128 * squares_for n) (senderOutput0 st)) (\<lambda>S0.
      bind_result (bm_resize (128 * squares_for n) (senderOutput1 st)) (\<lambda>S1.
      Inr (st\<lparr>receiverOutputMatrix := R, senderOutput0 := S0, senderOutput1 := S1\<rparr>, sent))))))"
proof -
  define q where "q = squares_for n"
  have n: "n \<le> 128 * q" unfolding q_def squares_for_def by simp
  have q: "(n + 127) div 128 = q" by (simp add: q_def squares_for_def)
  let ?y = "bv_resize_zero (128 * (q + 2)) y"
  have len: "length (bv_bytes ?y) = 16 * (q + 2)"
    using assms(4) by (auto simp: bv_resize_zero_def wf_bv_def div_ceil_def)
  obtain x g where x: "randomize_tail b (128 * (q + 2)) (?y, ot_G st) = Inr (x, g)" "length (bv_bytes x) = 16 * (q + 2)"
    "bv_nbits x = bv_nbits ?y" "\<forall>i < 128 * q. bv_bit x i = bv_bit ?y i"
    using randomize_tail_ok [of ?y q b "ot_G st"] len by auto
  have "bv_nbits x = 128 * (q + 2)" using x(3) by (simp add: bv_resize_zero_def)
  moreover have "bv_bit x i = bv_bit y i" if "bv_nbits y = n" "i < n" for i
    using that x(4) n bv_resize_zero_bits(3) [of y "128 * (q + 2)" i] assms(4) by simp
  moreover have "extend_correlated b check n y incoming st =
      bind_result (subloop b (q + 2) x (correlator_resize (128 * (q + 2)) st\<lparr>ot_G := g\<rparr>, incoming, []) 0)
        (\<lambda>(st, incoming, sent).
      bind_result (if passive_only st then Inr () else check (128 * (q + 2)) x st) (\<lambda>_.
      bind_result (bm_resize (128 * q) (receiverOutputMatrix st)) (\<lambda>R.
      bind_result (bm_resize (128 * q) (senderOutput0 st)) (\<lambda>S0.
      bind_result (bm_resize (128 * q) (senderOutput1 st)) (\<lambda>S1.
      Inr (st\<lparr>receiverOutputMatrix := R, senderOutput0 := S0, senderOutput1 := S1\<rparr>, sent))))))"
  proof -
    have "(n + 127) div 128 * 128 = 128 * q" "(128 * q + 2 * 128) div 1 div 128 = q + 2" "(q + 2) * 1 * 128 = 128 * (q + 2)"
      using q div_mult_self1_is_m [of 128 "q + 2"] by simp_all
    moreover have "n \<noteq> 0" "\<not> (is_receiver (ot_role st) \<and> n \<noteq> bv_nbits y)" using assms(1,2) by auto
    moreover have "map (\<lambda>i. i * (q + 2)) [0..<1] = [0]" by simp
    ultimately show ?thesis
      using x(1) by (simp only: extend_correlated_def assms(3) Let_def if_False fold_result.simps bind_result_Inr
          bind_result.simps split_conv correlator_resize_keeps)
  qed
  ultimately show ?thesis using x(2) unfolding q_def all_squares_def by blast
qed

lemma bm_row_square: "i < 128 * q \<Longrightarrow> q \<le> length M \<Longrightarrow> bm_row (take q M) i = M ! (i div 128) ! (i mod 128)"
  by (simp add: bm_row_def div_less_iff_less_mult mult.commute)

lemma bit_row_transposed:
  assumes "r < 128" "c < 128"
  shows "m128_bit (square_transpose (map w [0..<128]) ! r) c \<longleftrightarrow> m128_bit (w c) r"
proof -
  have "wf_square (map w [0..<128])" by (simp add: wf_square_def)
  then show ?thesis using assms square_bit_transpose [of "map w [0..<128]" r c] by (simp add: square_bit_def)
qed

lemma bit_bv_word:
  assumes "16 * k + 16 \<le> length (bv_bytes x)" "r < 128"
  shows "m128_bit (bv_word x k) r \<longleftrightarrow> bv_bit x (128 * k + r)"
  using bv_block_at_ok [OF assms(1)] assms by (auto simp: bv_block_at_def bv_word_def)

lemma seeds_chosen:
  assumes "seeds_linked S R" "i < 128" "length (G_sender R) = 128"
  shows "seed_rows b n (G_receiver S) k i =
    (if bv_bit (baseReceiverInput S) i then seed_rows b n (map snd (G_sender R)) k i
     else seed_rows b n (map fst (G_sender R)) k i)"
  using assms by (simp add: seeds_linked_def seed_rows_def rows_of_def)

lemma seeds_stay_linked:
  assumes "seeds_linked S R" "length (G_sender R) = 128" "length (G_receiver S) = 128"
    and "G_receiver S' = map (advance b n) (G_receiver S)" "baseReceiverInput S' = baseReceiverInput S"
    and "G_sender R' = map (map_prod (advance b n) (advance b n)) (G_sender R)"
  shows "seeds_linked S' R'"
  using assms by (simp add: seeds_linked_def)

lemma run_receiver:
  assumes "ot_ready R" "ot_role R = RECEIVER" "passive_only R" "wf_bv y" "0 < bv_nbits y" "bv_nbits y < 2 ^ 31"
  shows "\<exists>x os r R'. length (bv_bytes x) = 16 * (all_squares (bv_nbits y)) \<and>
    (\<forall>i < bv_nbits y. bv_bit x i = bv_bit y i) \<and>
    extend_correlated b check (bv_nbits y) y incoming R = Inr (R', [os]) \<and>
    get_items square_unpack (all_squares (bv_nbits y)) os =
      Inr (receiver_message b (all_squares (bv_nbits y)) x R, r) \<and>
    receiverOutputMatrix R' = take (squares_for (bv_nbits y)) (map square_transpose
      (rows_matrix (all_squares (bv_nbits y)) (seed_rows b (all_squares (bv_nbits y)) (map fst (G_sender R))))) \<and>
    G_sender R' = map (map_prod (advance b (all_squares (bv_nbits y))) (advance b (all_squares (bv_nbits y)))) (G_sender R) \<and>
    ot_ready R' \<and> ot_role R' = RECEIVER \<and> passive_only R'"
proof -
  define q where "q = squares_for (bv_nbits y)"
  define m where "m = (all_squares (bv_nbits y))"
  have qm: "q \<le> m" by (simp add: q_def m_def all_squares_def)
  have R: "nsubloops R = 1" using assms(1) by (simp add: ot_ready_def)
  obtain x g where x: "length (bv_bytes x) = 16 * m" "bv_nbits x = 128 * m"
      "\<forall>i < bv_nbits y. bv_bit x i = bv_bit y i"
      "extend_correlated b check (bv_nbits y) y incoming R =
      bind_result (subloop b m x (correlator_resize (128 * m) R\<lparr>ot_G := g\<rparr>, incoming, []) 0)
        (\<lambda>(st, incoming, sent).
      bind_result (if passive_only st then Inr () else check (128 * m) x st) (\<lambda>_.
      bind_result (bm_resize (128 * q) (receiverOutputMatrix st)) (\<lambda>R.
      bind_result (bm_resize (128 * q) (senderOutput0 st)) (\<lambda>S0.
      bind_result (bm_resize (128 * q) (senderOutput1 st)) (\<lambda>S1.
      Inr (st\<lparr>receiverOutputMatrix := R, senderOutput0 := S0, senderOutput1 := S1\<rparr>, sent))))))"
    using extend_correlated_unfold [where st = R and y = y and n = "bv_nbits y" and b = b and check = check
        and incoming = incoming] assms(4,5) R unfolding q_def m_def by blast
  let ?R = "correlator_resize (128 * m) R\<lparr>ot_G := g\<rparr>"
  have ready: "ready m ?R" using assms(1) by (rule ready_resized)
  have keeps: "ot_role ?R = RECEIVER" "passive_only ?R" "G_sender ?R = G_sender R"
    "receiver_message b m x ?R = receiver_message b m x R" "nsubloops ?R = 1"
    using assms(2,3) R by (simp_all add: correlator_resize_def receiver_message_def)
  have "m < 2 ^ 48" using assms(6) unfolding m_def all_squares_def squares_for_def by (simp add: div_less_iff_less_mult)
  then obtain os r where os: "subloop b m x (?R, incoming, []) 0 = Inr (?R\<lparr>
      receiverOutputMatrix := map square_transpose (rows_matrix m (seed_rows b m (map fst (G_sender R)))),
      ot_t1 := receiver_message b m x R,
      G_sender := map (map_prod (advance b m) (advance b m)) (G_sender R)\<rparr>, incoming, [os])"
    "get_items square_unpack m os = Inr (receiver_message b m x R, r)"
    using receiver_turn [OF ready keeps(1) x(1,2), of b incoming "[]"] keeps(3,4) by auto
  let ?M = "map square_transpose (rows_matrix m (seed_rows b m (map fst (G_sender R))))"
  let ?R' = "?R\<lparr>receiverOutputMatrix := take q ?M, ot_t1 := receiver_message b m x R,
    G_sender := map (map_prod (advance b m) (advance b m)) (G_sender R),
    senderOutput0 := take q (senderOutput0 ?R), senderOutput1 := take q (senderOutput1 ?R)\<rparr>"
  have run: "extend_correlated b check (bv_nbits y) y incoming R = Inr (?R', [os])"
    using ready keeps(2) qm by (simp add: x(4) os(1) bm_resize_take ready_def)
  have wf: "wf_matrix (take q M)" if "wf_matrix M" for M using that by (auto simp: wf_matrix_def dest: in_set_takeD)
  have "ot_ready ?R'"
    using assms(1) ready keeps(5) wf [of "senderOutput0 ?R"] wf [OF wf_square_transpose_rows [OF rows_matrix_shape(2)]]
    by (simp add: ot_ready_def ready_def receiver_message_def)
  moreover have "receiverOutputMatrix ?R' = take q ?M"
    "G_sender ?R' = map (map_prod (advance b m) (advance b m)) (G_sender R)" "ot_role ?R' = RECEIVER" "passive_only ?R'"
    using keeps(1,2) by simp_all
  ultimately show ?thesis
    using run x(1,3) os(2) unfolding q_def m_def by blast
qed

lemma run_sender:
  assumes "ot_ready S" "ot_role S = SENDER" "passive_only S" "wf_bv z" "0 < n"
    and "get_items square_unpack (all_squares n) os = Inr (U, r)" "length U = all_squares n"
  shows "\<exists>S'. extend_correlated b check n z [os] S = Inr (S', []) \<and>
    senderOutput0 S' = take (squares_for n) (map square_transpose
      (rows_matrix (all_squares n) (corrected_rows b (all_squares n) U S))) \<and>
    G_receiver S' = map (advance b (all_squares n)) (G_receiver S) \<and> baseReceiverInput S' = baseReceiverInput S \<and>
    ot_ready S' \<and> ot_role S' = SENDER \<and> passive_only S'"
proof -
  define q where "q = squares_for n"
  define m where "m = all_squares n"
  have qm: "q \<le> m" by (simp add: q_def m_def all_squares_def)
  have not_receiver: "\<not> is_receiver (ot_role S)" using assms(2) by (simp add: is_receiver_def)
  have S: "nsubloops S = 1" using assms(1) by (simp add: ot_ready_def)
  obtain x g where x: "extend_correlated b check n z [os] S =
      bind_result (subloop b m x (correlator_resize (128 * m) S\<lparr>ot_G := g\<rparr>, [os], []) 0)
        (\<lambda>(st, incoming, sent).
      bind_result (if passive_only st then Inr () else check (128 * m) x st) (\<lambda>_.
      bind_result (bm_resize (128 * q) (receiverOutputMatrix st)) (\<lambda>R.
      bind_result (bm_resize (128 * q) (senderOutput0 st)) (\<lambda>S0.
      bind_result (bm_resize (128 * q) (senderOutput1 st)) (\<lambda>S1.
      Inr (st\<lparr>receiverOutputMatrix := R, senderOutput0 := S0, senderOutput1 := S1\<rparr>, sent))))))"
    using extend_correlated_unfold [where st = S and y = z and n = n and b = b and check = check
        and incoming = "[os]"] not_receiver assms(4,5) S unfolding q_def m_def by blast
  let ?S = "correlator_resize (128 * m) S\<lparr>ot_G := g\<rparr>"
  have ready: "ready m ?S" using assms(1) by (rule ready_resized)
  have keeps: "ot_role ?S = SENDER" "passive_only ?S" "G_receiver ?S = G_receiver S"
    "corrected_rows b m U ?S = corrected_rows b m U S" "nsubloops ?S = 1" "baseReceiverInput ?S = baseReceiverInput S"
    using assms(2,3) S by (simp_all add: correlator_resize_def corrected_rows_def fun_eq_iff)
  let ?M = "map square_transpose (rows_matrix m (corrected_rows b m U S))"
  have turn: "subloop b m x (?S, [os], []) 0 = Inr (?S\<lparr>senderOutput0 := ?M, ot_u := U,
      G_receiver := map (advance b m) (G_receiver S)\<rparr>, [], [])"
    using sender_turn [OF ready keeps(1) assms(6,7) [folded m_def], of b x "[]" "[]"] keeps(3,4) by simp
  let ?S' = "?S\<lparr>senderOutput0 := take q ?M, ot_u := U, G_receiver := map (advance b m) (G_receiver S),
    receiverOutputMatrix := take q (receiverOutputMatrix ?S), senderOutput1 := take q (senderOutput1 ?S)\<rparr>"
  have run: "extend_correlated b check n z [os] S = Inr (?S', [])"
    using ready keeps(2) qm by (simp add: x turn bm_resize_take ready_def)
  have wf: "wf_matrix (take q M)" if "wf_matrix M" for M using that by (auto simp: wf_matrix_def dest: in_set_takeD)
  have "ot_ready ?S'"
    using assms(1) ready keeps(5) wf [of "receiverOutputMatrix ?S"] wf [OF wf_square_transpose_rows [OF rows_matrix_shape(2)]]
    by (simp add: ot_ready_def ready_def)
  moreover have "senderOutput0 ?S' = take q ?M" "G_receiver ?S' = map (advance b m) (G_receiver S)"
    "baseReceiverInput ?S' = baseReceiverInput S" "ot_role ?S' = SENDER" "passive_only ?S'"
    using keeps(1,2,6) by simp_all
  ultimately show ?thesis
    using run unfolding q_def m_def by blast
qed

lemma rows_correlated:
  assumes "seeds_linked S R" "ot_ready S" "ot_ready R" "length (bv_bytes x) = 16 * m" "i < 128 * q" "q \<le> m"
  shows "bm_row (take q (map square_transpose (rows_matrix m (seed_rows b m (map fst (G_sender R)))))) i =
    m128_xor (bm_row (take q (map square_transpose (rows_matrix m (corrected_rows b m (receiver_message b m x R) S)))) i)
      (if bv_bit x i then bv_register (baseReceiverInput S) else m128_zero)"
proof (rule m128_bit_eqI)
  fix c :: nat assume c: "c < 128"
  define k r where "k = i div 128" and "r = i mod 128"
  have kr: "k < m" "r < 128" "128 * k + r = i"
    using assms(5,6) less_mult_imp_div_less [of i q 128] by (auto simp: k_def r_def mult.commute)
  have "16 * k + 16 \<le> length (bv_bytes x)" using assms(4) kr(1) by simp
  then have word: "m128_bit (bv_word x k) r = bv_bit x i" using kr by (simp add: bit_bv_word)
  have "corrected_rows b m (receiver_message b m x R) S k c = m128_xor (seed_rows b m (map fst (G_sender R)) k c)
      (if bv_bit (baseReceiverInput S) c then bv_word x k else m128_zero)"
    using seeds_chosen [OF assms(1) c, of b m k] assms(3) kr(1) c
    by (simp add: corrected_rows_def receiver_message_def ot_ready_def m128_xor_assoc)
  moreover have "m128_bit (bv_register (baseReceiverInput S)) c = bv_bit (baseReceiverInput S) c"
    using assms(2) c by (simp add: ot_ready_def bit_bv_register)
  ultimately show "m128_bit (bm_row (take q (map square_transpose (rows_matrix m (seed_rows b m (map fst (G_sender R)))))) i) c =
      m128_bit (m128_xor (bm_row (take q (map square_transpose (rows_matrix m (corrected_rows b m (receiver_message b m x R) S)))) i)
        (if bv_bit x i then bv_register (baseReceiverInput S) else m128_zero)) c"
    using assms(5,6) kr(1,2) c word
    by (simp add: bm_row_square bit_row_transposed m128_bit_xor flip: k_def r_def)
qed

lemma extension_linked:
  assumes "ot_ready R" "ot_role R = RECEIVER" "passive_only R" "ot_ready S" "ot_role S = SENDER" "passive_only S"
    and "seeds_linked S R" "wf_bv y" "0 < bv_nbits y" "bv_nbits y < 2 ^ 31" "wf_bv z"
  shows "\<exists>R' S' os.
    extend_correlated b check (bv_nbits y) y [] R = Inr (R', [os]) \<and>
    extend_correlated b check' (bv_nbits y) z [os] S = Inr (S', []) \<and>
    (\<forall>i < bv_nbits y. bm_row (receiverOutputMatrix R') i =
      m128_xor (bm_row (senderOutput0 S') i) (if bv_bit y i then bv_register (baseReceiverInput S) else m128_zero)) \<and>
    baseReceiverInput S' = baseReceiverInput S \<and> seeds_linked S' R' \<and>
    ot_ready R' \<and> ot_role R' = RECEIVER \<and> passive_only R' \<and> ot_ready S' \<and> ot_role S' = SENDER \<and> passive_only S'"
proof -
  define q where "q = squares_for (bv_nbits y)"
  define m where "m = all_squares (bv_nbits y)"
  have q: "q \<le> m" "bv_nbits y \<le> 128 * q" by (simp_all add: q_def m_def all_squares_def squares_for_def)
  obtain x os r R' where R': "length (bv_bytes x) = 16 * m" "\<forall>i < bv_nbits y. bv_bit x i = bv_bit y i"
    "extend_correlated b check (bv_nbits y) y [] R = Inr (R', [os])"
    "get_items square_unpack m os = Inr (receiver_message b m x R, r)"
    "receiverOutputMatrix R' = take q (map square_transpose (rows_matrix m (seed_rows b m (map fst (G_sender R)))))"
    "G_sender R' = map (map_prod (advance b m) (advance b m)) (G_sender R)"
    "ot_ready R'" "ot_role R' = RECEIVER" "passive_only R'"
    using run_receiver [OF assms(1-3,8-10), of b check "[]"] unfolding q_def m_def by blast
  have "length (receiver_message b m x R) = m" by (simp add: receiver_message_def)
  then obtain S' where S': "extend_correlated b check' (bv_nbits y) z [os] S = Inr (S', [])"
    "senderOutput0 S' = take q (map square_transpose (rows_matrix m (corrected_rows b m (receiver_message b m x R) S)))"
    "G_receiver S' = map (advance b m) (G_receiver S)" "baseReceiverInput S' = baseReceiverInput S"
    "ot_ready S'" "ot_role S' = SENDER" "passive_only S'"
    using run_sender [OF assms(4-6,11,9), of os _ r b check'] R'(4) unfolding q_def m_def by blast
  have "bm_row (receiverOutputMatrix R') i = m128_xor (bm_row (senderOutput0 S') i)
      (if bv_bit y i then bv_register (baseReceiverInput S) else m128_zero)" if "i < bv_nbits y" for i
    using rows_correlated [OF assms(7,4,1) R'(1), of i q b] that q R'(2,5) S'(2) by simp
  moreover have "seeds_linked S' R'"
    using seeds_stay_linked [OF assms(7) _ _ S'(3,4) R'(6)] assms(1,4) by (simp add: ot_ready_def)
  ultimately show ?thesis using R' S' by blast
qed

text \<open>Two sides whose seeds are those of the transfers of a correlation.\<close>

definition demo_PRNG :: "m128 \<Rightarrow> u32 list PRNG" where
  "demo_PRNG seed = projr (PRNG_SetSeed build_c (storeu seed))"

definition demo_extension :: "OT_ROLE \<Rightarrow> u32 list OTExtension" where
  "demo_extension role = \<lparr>ot_role = role, passive_only = True, nbaseOTs = 128,
    baseReceiverInput = \<lparr>bv_bytes = replicate 16 165, bv_nbits = 128\<rparr>,
    G_sender = map (\<lambda>i. (demo_PRNG (word_of_nat i, 0), demo_PRNG (word_of_nat i, 1))) [0..<128],
    G_receiver = map (\<lambda>i. demo_PRNG (word_of_nat i, of_bool (bit (165 :: u8) (i mod 8)))) [0..<128],
    senderOutput0 = [], senderOutput1 = [], receiverOutputMatrix = [], ot_t1 = [], ot_u = [], nsubloops = 1,
    ot_G = demo_PRNG (5, 5)\<rparr>"

lemma demo_extension_ready: "ot_ready (demo_extension role)"
  "ot_role (demo_extension role) = role" "passive_only (demo_extension role)"
  by (simp_all add: demo_extension_def ot_ready_def wf_bv_def div_ceil_def wf_matrix_def)

lemma demo_extension_linked: "seeds_linked (demo_extension SENDER) (demo_extension RECEIVER)"
proof -
  have "replicate 16 (165 :: u8) ! (i div 8) = 165" if "i < 128" for i
    using that by (simp add: div_less_iff_less_mult)
  then show ?thesis by (auto simp: seeds_linked_def demo_extension_def bv_bit_def)
qed

text \<open>
  C8.  The correlated extension is correct, and stays so.  Two sides that are linked by base transfers, the one with the
  sender's role and a correlation, the other with the receiver's role and choice bits: the receiver's run produces one
  message; the sender's run on this message ends; and for every choice bit, the receiver's row is the sender's row, plus
  the correlation where the bit is 1.  Both states are ready, and linked, for the next extension.
\<close>

theorem extend_correlated_correct:
  assumes "ot_ready R" "ot_role R = RECEIVER" "passive_only R" "ot_ready S" "ot_role S = SENDER" "passive_only S"
    and "seeds_linked S R" "wf_bv y" "0 < bv_nbits y" "bv_nbits y < 2 ^ 31" "wf_bv z"
  shows "\<exists>R' S' os.
    extend_correlated b check (bv_nbits y) y [] R = Inr (R', [os]) \<and>
    extend_correlated b check' (bv_nbits y) z [os] S = Inr (S', []) \<and>
    (\<forall>i < bv_nbits y. bm_row (receiverOutputMatrix R') i =
      m128_xor (bm_row (senderOutput0 S') i) (if bv_bit y i then bv_register (baseReceiverInput S) else m128_zero)) \<and>
    baseReceiverInput S' = baseReceiverInput S \<and> seeds_linked S' R' \<and>
    ot_ready R' \<and> ot_role R' = RECEIVER \<and> passive_only R' \<and> ot_ready S' \<and> ot_role S' = SENDER \<and> passive_only S'"
  by (rule extension_linked [OF assms])

lemma extend_correlated_correct_witness:
  "\<exists>R' S' os.
    extend_correlated build_c (\<lambda>_ _ _. Inr ()) 3 \<lparr>bv_bytes = [5], bv_nbits = 3\<rparr> [] (demo_extension RECEIVER) = Inr (R', [os]) \<and>
    extend_correlated build_c (\<lambda>_ _ _. Inr ()) 3 (bv_zero 0) [os] (demo_extension SENDER) = Inr (S', []) \<and>
    bm_row (receiverOutputMatrix R') 1 = bm_row (senderOutput0 S') 1 \<and> seeds_linked S' R'"
proof -
  let ?y = "\<lparr>bv_bytes = [5], bv_nbits = 3\<rparr>"
  have y: "wf_bv ?y" "0 < bv_nbits ?y" "bv_nbits ?y < 2 ^ 31" "wf_bv (bv_zero 0)" "\<not> bv_bit ?y 1" "bv_nbits ?y = 3"
    by (simp_all add: wf_bv_def div_ceil_def bv_zero_def bv_bit_def bit_iff_odd)
  show ?thesis
    using extend_correlated_correct [OF demo_extension_ready demo_extension_ready demo_extension_linked y(1-4),
      where b = build_c and check = "\<lambda>_ _ _. Inr ()" and check' = "\<lambda>_ _ _. Inr ()"] y(5,6) by auto
qed

end
