(* ===== verification/OT_Types.thy ===== *)
theory OT_Types
  imports OT_Extension_Correct
begin

text \<open>
  The shape of the matrices of the extension, whatever the other side sends and whatever the roles and the number of
  slices: every square keeps its 128 rows, and after an extension there is a row for every transfer.
\<close>

definition ot_typed :: "'k OTExtension \<Rightarrow> bool" where
  "ot_typed st \<longleftrightarrow> wf_matrix (senderOutput0 st) \<and> wf_matrix (senderOutput1 st) \<and> wf_matrix (receiverOutputMatrix st) \<and>
    wf_matrix (ot_t1 st) \<and> wf_matrix (ot_u st)"

named_theorems typed \<open>operations keep the squares\<close>

lemma fold_result_invariant:
  assumes "\<And>x s s'. x \<in> set xs \<Longrightarrow> P s \<Longrightarrow> f s x = Inr s' \<Longrightarrow> P s'"
  shows "fold_result f s xs = Inr s' \<Longrightarrow> P s \<Longrightarrow> P s'"
  using assms
proof (induction xs arbitrary: s)
  case (Cons x xs)
  then obtain s1 where "f s x = Inr s1" "fold_result f s1 xs = Inr s'" by (auto simp: bind_result_Inr_iff)
  moreover have "P s1" by (rule Cons.prems(3) [OF _ Cons.prems(2) calculation(1)]) simp
  moreover have "P t'" if "y \<in> set xs" "P t" "f t y = Inr t'" for y t t' by (rule Cons.prems(3) [OF _ that(2,3)]) (simp add: that(1))
  ultimately show ?case by (intro Cons.IH [of s1])
qed simp

lemma wf_matrix_update: "wf_matrix M \<Longrightarrow> (i < length M \<Longrightarrow> wf_square x) \<Longrightarrow> wf_matrix (M[i := x])"
  using set_update_subset_insert [of M i x] by (cases "i < length M") (auto simp: wf_matrix_def list_update_beyond)

lemma wf_matrix_square: "wf_matrix M \<Longrightarrow> i < length M \<Longrightarrow> wf_square (M ! i)"
  by (simp add: wf_matrix_def)

lemma wf_matrix_take: "wf_matrix M \<Longrightarrow> wf_matrix (take n M)"
  by (auto simp: wf_matrix_def dest: in_set_takeD)

lemma wf_zero_square: "wf_square zero_square"
  by (simp add: wf_square_def zero_square_def)

lemma wf_slice_randomize: "wf_matrix M \<Longrightarrow> wf_matrix (fst (slice_randomize b row is (M, g)))"
proof (induction b row "is" "(M, g)" arbitrary: M g rule: slice_randomize.induct)
  case (2 b row i "is" M g)
  obtain x g1 where x: "PRNG_get_doubleword b g = (x, g1)" by fastforce
  have "wf_matrix (M[i := (M ! i)[row := x]])"
    by (rule wf_matrix_update [OF 2(2)]) (use wf_matrix_square [OF 2(2)] in \<open>simp add: wf_square_def\<close>)
  then show ?case using 2(1) [OF x [symmetric] refl] by (simp add: x)
qed simp

lemma wf_slice_map:
  assumes "slice_map start nsq f M = Inr M'" "wf_matrix M"
    and "\<And>i s x. start \<le> i \<Longrightarrow> i < start + nsq \<Longrightarrow> i < length M \<Longrightarrow> wf_square s \<Longrightarrow> f i s = Inr x \<Longrightarrow> wf_square x"
  shows "wf_matrix M' \<and> length M' = length M"
proof -
  have "length M' = length M \<and> wf_matrix M'"
  proof (rule fold_result_invariant [where P = "\<lambda>M'. length M' = length M \<and> wf_matrix M'"])
    show "fold_result (\<lambda>M i. bind_result (f i (M ! i)) (\<lambda>x. Inr (M[i := x]))) M [start..<start + nsq] = Inr M'"
      using assms(1) by (simp add: slice_map_def)
    show "length M = length M \<and> wf_matrix M" using assms(2) by simp
    fix i N N' assume i: "i \<in> set [start..<start + nsq]" and N: "length N = length M \<and> wf_matrix N"
      and "bind_result (f i (N ! i)) (\<lambda>x. Inr (N[i := x])) = Inr N'"
    then obtain x where x: "f i (N ! i) = Inr x" "N' = N[i := x]" by (auto simp: bind_result_Inr_iff)
    show "length N' = length M \<and> wf_matrix N'"
      unfolding x(2) using i N x(1) assms(3) [of i "N ! i" x] wf_matrix_square [of N i] by (auto intro: wf_matrix_update)
  qed
  then show ?thesis by simp
qed

lemma expand_typed [typed]:
  assumes "expand b start nsq st = Inr st'" "ot_typed st"
  shows "ot_typed st'"
proof -
  have receiver: "ot_typed s'" if "fold_result (expand_receiver_row b start nsq) s xs = Inr s'" "ot_typed s" for s s' xs
  proof (rule fold_result_invariant [where P = ot_typed, OF _ that])
    fix i and s s' :: "'a OTExtension"
    assume s: "ot_typed s" "expand_receiver_row b start nsq s i = Inr s'"
    then obtain g0 g1 where g: "vec_read (G_sender s) i = Inr (g0, g1)" by (auto simp: expand_receiver_row_def bind_result_Inr_iff)
    show "ot_typed s'"
      using s wf_slice_randomize [of "receiverOutputMatrix s" b i "[start..<start + nsq]" g0]
        wf_slice_randomize [of "ot_t1 s" b i "[start..<start + nsq]" g1]
      by (auto simp: expand_receiver_row_def g ot_typed_def split_def Let_def)
  qed
  have sender: "ot_typed s'" if "fold_result (expand_sender_row b start nsq) s xs = Inr s'" "ot_typed s" for s s' xs
  proof (rule fold_result_invariant [where P = ot_typed, OF _ that])
    fix i and s s' :: "'a OTExtension"
    assume s: "ot_typed s" "expand_sender_row b start nsq s i = Inr s'"
    then obtain g where g: "vec_read (G_receiver s) i = Inr g" by (auto simp: expand_sender_row_def bind_result_Inr_iff)
    show "ot_typed s'"
      using s wf_slice_randomize [of "senderOutput0 s" b i "[start..<start + nsq]" g]
      by (auto simp: expand_sender_row_def g ot_typed_def split_def Let_def)
  qed
  show ?thesis
    using assms receiver sender by (auto simp: expand_def bind_result_Inr_iff split: if_splits)
qed

lemma make_slices_fit: "make_slices start nsq Ms = Inr u \<Longrightarrow> M \<in> set Ms \<Longrightarrow> start + nsq \<le> length M"
  by (auto simp: make_slices_def split: if_splits)

lemma correlate_send_typed [typed]:
  assumes "correlate_send start nsq x st = Inr (st', os)" "ot_typed st"
  shows "ot_typed st'"
proof (cases "is_receiver (ot_role st)")
  case True
  obtain u where "make_slices start nsq [receiverOutputMatrix st, senderOutput0 st, ot_t1 st, ot_u st] = Inr u"
    using assms(1) by (auto simp: correlate_send_def bind_result_Inr_iff)
  then have fit: "start + nsq \<le> length (receiverOutputMatrix st)" by (rule make_slices_fit) simp
  obtain T T' where T: "slice_map start nsq (\<lambda>i s. Inr (square_xor s (receiverOutputMatrix st ! i))) (ot_t1 st) = Inr T"
    "slice_map start nsq (\<lambda>i s. bind_result (bv_block_at x i) (\<lambda>w. Inr (square_xor_row s w))) T = Inr T'"
    "st' = st\<lparr>ot_t1 := T'\<rparr>"
    using assms(1) True by (auto simp: correlate_send_def bind_result_Inr_iff split: if_splits)
  have typed: "wf_matrix (ot_t1 st)" "wf_matrix (receiverOutputMatrix st)" using assms(2) by (simp_all add: ot_typed_def)
  have "wf_matrix T"
    by (rule wf_slice_map [OF T(1) typed(1), THEN conjunct1])
      (use wf_matrix_square [OF typed(2)] fit in \<open>auto simp: square_xor_def wf_square_def\<close>)
  then have "wf_matrix T'"
    by (rule wf_slice_map [OF T(2), THEN conjunct1]) (auto simp: square_xor_row_def wf_square_def bind_result_Inr_iff)
  then show ?thesis using assms(2) T(3) by (simp add: ot_typed_def)
next
  case False
  then show ?thesis using assms by (auto simp: correlate_send_def bind_result_Inr_iff)
qed

lemma unpacked_squares: "get_items square_unpack n os = Inr (Ms, r) \<Longrightarrow> wf_matrix Ms"
proof (induction n arbitrary: os Ms)
  case (Suc n)
  then obtain M os1 Ms' where "square_unpack os = Inr (M, os1)" "get_items square_unpack n os1 = Inr (Ms', r)" "Ms = M # Ms'"
    by (auto simp: bind_result_Inr_iff)
  moreover from this have "wf_square M" by (auto simp: square_unpack_def bind_result_Inr_iff wf_square_def)
  ultimately show ?case using Suc.IH by (auto simp: wf_matrix_def)
qed (simp add: wf_matrix_def)

lemma conditional_add_wf: "conditional_add v k M other = Inr M' \<Longrightarrow> wf_square M \<Longrightarrow> wf_square M'"
  unfolding conditional_add_def
  by (erule fold_result_invariant [where P = wf_square, rotated])
    (auto simp: bind_result_Inr_iff wf_square_def split: if_splits)

lemma correlate_receive_typed [typed]:
  assumes "correlate_receive start nsq os st = Inr st'" "ot_typed st"
  shows "ot_typed st'"
proof (cases "is_sender (ot_role st)")
  case True
  obtain Ms r S where S: "get_items square_unpack nsq os = Inr (Ms, r)"
    "slice_map start nsq (\<lambda>i s. conditional_add (baseReceiverInput st) 0 s
      ((take start (ot_u st) @ Ms @ drop (start + nsq) (ot_u st)) ! i)) (senderOutput0 st) = Inr S"
    "st' = st\<lparr>ot_u := take start (ot_u st) @ Ms @ drop (start + nsq) (ot_u st), senderOutput0 := S\<rparr>"
    using assms(1) True by (auto simp: correlate_receive_def bind_result_Inr_iff Let_def)
  have "wf_matrix S" using wf_slice_map [OF S(2)] assms(2) conditional_add_wf by (auto simp: ot_typed_def)
  moreover have "wf_matrix (take start (ot_u st) @ Ms @ drop (start + nsq) (ot_u st))"
    using unpacked_squares [OF S(1)] assms(2) by (auto simp: ot_typed_def wf_matrix_def dest: in_set_takeD in_set_dropD)
  ultimately show ?thesis using assms(2) S(3) by (simp add: ot_typed_def)
next
  case False
  then show ?thesis using assms by (simp add: correlate_receive_def)
qed

lemma transpose_slice_typed [typed]:
  assumes "transpose_slice start nsq st = Inr st'" "ot_typed st"
  shows "ot_typed st'"
proof -
  have wf: "wf_matrix M'" if "slice_map start nsq (\<lambda>_ s. Inr (square_transpose s)) M = Inr M'" "wf_matrix M" for M M'
    using wf_slice_map [OF that] wf_square_transpose by auto
  show ?thesis
    using assms wf [of "receiverOutputMatrix st"] wf [of "senderOutput0 st"]
    by (auto simp: transpose_slice_def bind_result_Inr_iff ot_typed_def split: if_splits)
qed

lemma subloop_typed:
  assumes "subloop b nsq x (st, incoming, sent) start = Inr (st', incoming', sent')" "ot_typed st"
  shows "ot_typed st'"
proof -
  obtain st1 st2 os where 1: "expand b start nsq st = Inr st1" "correlate_send start nsq x st1 = Inr (st2, os)"
    and rest: "bind_result
      (if is_sender (ot_role st2)
       then case incoming of
           [] \<Rightarrow> Inl (runtime_error ''connection closed'')
         | os # incoming \<Rightarrow> bind_result (correlate_receive start nsq os st2) (\<lambda>st. Inr (st, incoming))
       else Inr (st2, incoming)) (\<lambda>(st, incoming).
      bind_result (transpose_slice start nsq st) (\<lambda>st. Inr (st, incoming, if is_receiver (ot_role st2) then sent @ [os] else sent))) =
      Inr (st', incoming', sent')"
    using assms(1) by (auto simp: subloop_def bind_result_Inr_iff Let_def)
  have "ot_typed st2" using 1 assms(2) by (blast intro: typed)
  then show ?thesis
    using rest by (auto simp: bind_result_Inr_iff split: if_splits list.splits intro: typed)
qed

lemma resize_vertical_typed: "wf_matrix M \<Longrightarrow> wf_matrix (resize_vertical n M)"
  using wf_zero_square by (auto simp: resize_vertical_def Let_def wf_matrix_def dest: in_set_takeD)

lemma bm_resize_typed: "bm_resize n M = Inr M' \<Longrightarrow> wf_matrix M \<Longrightarrow> wf_matrix M' \<and> length M' = n div 128"
  using wf_zero_square wf_matrix_take [of M "n div 128"] by (auto simp: bm_resize_def wf_matrix_def split: if_splits)



end
