(* ===== verification/Bounded_Random.thy ===== *)
theory Bounded_Random
  imports Prng
begin

text \<open>
  Random numbers below a bound: \<^verbatim>\<open>PRNG::get_uint(int upper)\<close> of \<^verbatim>\<open>Tools/random.cpp\<close>.  Numbers are drawn until one lies in an
  acceptable range; the loop may run for ever, then the result is \<open>None\<close>.
\<close>

section \<open>The code\<close>

definition draw_uint :: "'k prng_build \<Rightarrow> bool \<Rightarrow> 'k PRNG \<Rightarrow> u32 \<times> 'k PRNG" where
  "draw_uint b use_char g =
    (if use_char then let (x, g) = PRNG_get_uchar b g in (ucast x, g) else PRNG_get_uint b g)"

text \<open>The condition that ends the loop, with a signed comparison.\<close>

definition accepts :: "u32 \<Rightarrow> u32 \<Rightarrow> bool" where
  "accepts upper r \<longleftrightarrow> \<not> (if upper \<le> 128 then 256 else 0) <s r - r mod upper + (upper - 1)"

partial_function (option) get_uint_loop :: "'k prng_build \<Rightarrow> u32 \<Rightarrow> 'k PRNG \<Rightarrow> (u32 \<times> 'k PRNG) option" where
  "get_uint_loop b upper g =
    (let (r, g) = draw_uint b (upper \<le> 128) g
     in if accepts upper r then Some (r mod upper, g) else get_uint_loop b upper g)"

declare get_uint_loop.simps [code]

definition PRNG_get_uint_below :: "'k prng_build \<Rightarrow> u32 \<Rightarrow> 'k PRNG \<Rightarrow> (u32 \<times> 'k PRNG) result option" where
  "PRNG_get_uint_below b upper g =
    (if upper \<le>s 0 then Some (Inl (runtime_error ''Must be positive''))
     else if upper AND (upper - 1) = 0
     then let (r, g) = draw_uint b (upper < 255) g in Some (Inr (r mod upper, g))
     else map_option Inr (get_uint_loop b upper g))"

section \<open>The result is below the bound\<close>

lemma get_uint_loop_below: "get_uint_loop b upper g = Some y \<Longrightarrow> 0 < upper \<longrightarrow> fst y < upper"
proof (erule get_uint_loop.raw_induct [rotated])
  fix get b upper g y
  assume IH: "\<And>b upper (g :: 'a PRNG) y. get b upper g = Some y \<Longrightarrow> 0 < upper \<longrightarrow> fst y < upper"
    and "(let (r, g) = draw_uint b (upper \<le> 128) g in if accepts upper r then Some (r mod upper, g) else get b upper g) = Some y"
  then show "0 < upper \<longrightarrow> fst y < upper"
    by (auto simp: Let_def split_def word_mod_less_divisor split: if_splits)
qed

text \<open>
  A number that \<^verbatim>\<open>get_uint(upper)\<close> returns is below the bound.
\<close>

theorem get_uint_below:
  assumes "PRNG_get_uint_below b upper g = Some (Inr (x, g'))"
  shows "x < upper"
proof -
  have "0 < upper" using assms by (auto simp: PRNG_get_uint_below_def word_gt_0 word_sle_eq split: if_splits)
  then show ?thesis
    using assms get_uint_loop_below [of b upper g "(x, g')"]
    by (auto simp: PRNG_get_uint_below_def split_def Let_def word_mod_less_divisor split: if_splits)
qed

text \<open>A generator that has a byte left.\<close>

definition one_byte_left :: "u8 \<Rightarrow> u32 list PRNG" where
  "one_byte_left x = \<lparr>pr_schedule = [], pr_state = [], pr_random = replicate 15 0 @ [x], pr_cnt = 15, pr_n_cached = 0, pr_cached_bits = 0\<rparr>"

lemma get_uint_below_witness:
  "\<exists>x g'. PRNG_get_uint_below build_c 6 (one_byte_left 7) = Some (Inr (x, g')) \<and> x < 6"
proof -
  have "\<exists>x g'. PRNG_get_uint_below build_c 6 (one_byte_left 7) = Some (Inr (x, g'))"
    by (subst PRNG_get_uint_below_def, subst get_uint_loop.simps)
      (simp add: draw_uint_def PRNG_get_uchar_def one_byte_left_def build_c_def accepts_def word_sle_eq word_sless_alt nth_append)
  then show ?thesis using get_uint_below by blast
qed

section \<open>All results are equally likely\<close>

text \<open>The number of values that a draw takes.\<close>

definition draw_range :: "u32 \<Rightarrow> nat" where
  "draw_range upper = (if upper \<le> 128 then 2 ^ 8 else 2 ^ 32)"

lemma accepts_block: "r div upper = s div upper \<Longrightarrow> accepts upper r \<longleftrightarrow> accepts upper s" for upper :: u32
  by (simp add: accepts_def minus_mod_eq_mult_div)

lemma block_end:
  fixes upper r :: u32
  assumes "0 < unat upper" "unat upper < 2 ^ 31"
  shows "unat (r - r mod upper + (upper - 1)) =
    (let v = unat r div unat upper * unat upper + unat upper - 1 in if v < 2 ^ 32 then v else v - 2 ^ 32)"
proof -
  define q where "q = unat r div unat upper * unat upper"
  have q: "q \<le> unat r" "unat r < 2 ^ 32" using unsigned_less [of r, where ?'a = nat] by (simp_all add: q_def)
  have "r - r mod upper = word_of_nat q" by (simp add: minus_mod_eq_div_mult q_def word_arith_nat_div)
  moreover have "upper - 1 = word_of_nat (unat upper - 1)" using assms(1) by (simp add: of_nat_diff)
  ultimately have "unat (r - r mod upper + (upper - 1)) = unat (word_of_nat (q + (unat upper - 1)) :: u32)" by (simp only: of_nat_add)
  also have "\<dots> = (q + unat upper - 1) mod 2 ^ 32"
    using assms(1) by (simp add: unsigned_of_nat take_bit_eq_mod del: of_nat_add of_nat_diff)
  finally have "unat (r - r mod upper + (upper - 1)) = (q + unat upper - 1) mod 2 ^ 32" .
  moreover have "(q + unat upper - 1) mod 2 ^ 32 = (if q + unat upper - 1 < 2 ^ 32 then q + unat upper - 1 else q + unat upper - 1 - 2 ^ 32)"
    using q assms by (auto simp: le_mod_geq)
  ultimately show ?thesis by (simp add: q_def Let_def)
qed

lemma accepts_complete:
  assumes "0 < unat upper" "unat upper < 2 ^ 31" "accepts upper r" "unat r < draw_range upper" "\<not> unat upper dvd draw_range upper + 1"
  shows "unat r div unat upper * unat upper + unat upper \<le> draw_range upper"
proof -
  define v where "v = unat r div unat upper * unat upper + unat upper - 1"
  have v: "v + 1 = (unat r div unat upper + 1) * unat upper" using assms(1) by (simp add: v_def)
  then have "unat upper dvd v + 1" by simp
  then have ne: "v \<noteq> draw_range upper" using assms(5) by auto
  have "unat r div unat upper * unat upper \<le> unat r" by simp
  then have less: "v < draw_range upper + unat upper" using assms(1,4) unfolding v_def by linarith
  have e: "unat (r - r mod upper + (upper - 1)) = (if v < 2 ^ 32 then v else v - 2 ^ 32)"
    using block_end [OF assms(1,2), of r] by (simp only: v_def Let_def)
  have "v \<le> draw_range upper"
  proof (cases "upper \<le> 128")
    case True
    then have u: "unat upper \<le> 128" by (simp add: word_le_nat_alt)
    then have "v < 2 ^ 31" using less True by (simp add: draw_range_def)
    then show ?thesis
      using assms(3) True by (simp add: accepts_def sless_u32 e draw_range_def)
  next
    case False
    then show ?thesis
      using assms(2,3) less by (auto simp: accepts_def sless_u32 e draw_range_def split: if_splits)
  qed
  then have "v < draw_range upper" using ne by simp
  then show ?thesis by (simp add: v_def)
qed

lemma residue_class:
  fixes upper :: u32
  defines "u \<equiv> unat upper"
  assumes u: "0 < u" "u < 2 ^ 31" "\<not> u dvd draw_range upper + 1" and c: "c < u"
  shows "{r. unat r < draw_range upper \<and> accepts upper r \<and> unat r mod u = c} =
    (\<lambda>q. word_of_nat (q * u + c)) ` {q. q * u + u \<le> draw_range upper \<and> accepts upper (word_of_nat (q * u))}" (is "?A = ?f ` ?Q")
proof -
  have range: "draw_range upper \<le> 2 ^ 32" by (simp add: draw_range_def)
  have f: "unat (word_of_nat (q * u + c) :: u32) = q * u + c" "unat (word_of_nat (q * u) :: u32) = q * u"
    if "q * u + u \<le> draw_range upper" "c < u" for q c
    using that range by (simp_all add: unsigned_of_nat take_bit_nat_eq_self del: of_nat_add of_nat_mult)
  have same: "accepts upper (word_of_nat (q * u + c)) \<longleftrightarrow> accepts upper (word_of_nat (q * u))"
    if "q * u + u \<le> draw_range upper" "c < u" for q c
  proof (rule accepts_block)
    show "(word_of_nat (q * u + c) :: u32) div upper = word_of_nat (q * u) div upper"
      using f [OF that] that(2) u(1) by (simp add: word_arith_nat_div u_def)
  qed
  show ?thesis
  proof (intro equalityI subsetI)
    fix r assume r: "r \<in> ?A"
    let ?q = "unat r div u"
    have q: "?q * u + u \<le> draw_range upper" using accepts_complete [of upper r] r u by (simp add: u_def)
    have "?q * u + c = unat r" using r by auto
    then have "r = word_of_nat (?q * u + c)" by (simp del: of_nat_add of_nat_mult)
    then show "r \<in> ?f ` ?Q" using same [OF q c] q r by auto
  next
    fix r assume "r \<in> ?f ` ?Q"
    then obtain q where q: "r = word_of_nat (q * u + c)" "q * u + u \<le> draw_range upper" "accepts upper (word_of_nat (q * u))" by auto
    then show "r \<in> ?A" using f(1) [OF q(2) c] same [OF q(2) c] c by simp
  qed
qed

text \<open>
  C19.  The results are equally likely: of the values that a draw can take and that end the loop, each residue has equally many.
  The bound must not divide \<open>257\<close> or \<open>2 ^ 32 + 1\<close>, where the condition lets an incomplete block pass.
\<close>

theorem get_uint_uniform:
  assumes "0 <s upper" "\<not> unat upper dvd draw_range upper + 1" "c < unat upper" "d < unat upper"
  shows "card {r. unat r < draw_range upper \<and> accepts upper r \<and> unat r mod unat upper = c} =
    card {r. unat r < draw_range upper \<and> accepts upper r \<and> unat r mod unat upper = d}"
proof -
  have u: "0 < unat upper" "unat upper < 2 ^ 31" using assms(1) by (simp_all add: sless_u32)
  let ?Q = "{q. q * unat upper + unat upper \<le> draw_range upper \<and> accepts upper (word_of_nat (q * unat upper))}"
  have "card ((\<lambda>q. word_of_nat (q * unat upper + c) :: u32) ` ?Q) = card ?Q" if "c < unat upper" for c
  proof (rule card_image, rule inj_onI)
    fix q q' assume q: "q \<in> ?Q" "q' \<in> ?Q" "(word_of_nat (q * unat upper + c) :: u32) = word_of_nat (q' * unat upper + c)"
    moreover have "draw_range upper \<le> 2 ^ 32" by (simp add: draw_range_def)
    ultimately have "q * unat upper + c = q' * unat upper + c"
      using that by (simp add: word_unat_eq_iff unsigned_of_nat take_bit_nat_eq_self del: of_nat_add of_nat_mult)
    then show "q = q'" using u(1) by simp
  qed
  then show ?thesis using residue_class [OF u assms(2)] assms(3,4) by simp
qed

lemma get_uint_uniform_witness:
  "card {r. unat r < draw_range 100 \<and> accepts 100 r \<and> unat r mod unat (100 :: u32) = 0} =
    card {r. unat r < draw_range 100 \<and> accepts 100 r \<and> unat r mod unat (100 :: u32) = 99}"
  by (rule get_uint_uniform) (simp_all add: draw_range_def word_sless_alt)

end
