(* ===== verification/Coin_Toss.thy ===== *)
theory Coin_Toss
  imports Octet_Stream Bounded_Random "HOL-Library.Signed_Division"
begin

text \<open>
  Commitments and the joint choice of a seed: \<^verbatim>\<open>Tools/Commit.cpp\<close>, \<^verbatim>\<open>Tools/Subroutines.cpp\<close>, and \<^verbatim>\<open>SeedGlobally\<close> of
  \<^verbatim>\<open>Tools/random.cpp\<close>.  A broadcast is a list with an entry for each player, which the other players fill as they like.  The hash
  of libsodium is a parameter, as is the randomness of openings.
\<close>

section \<open>Commitments\<close>

text \<open>\<^verbatim>\<open>get_data\<close> asserts that no bits are pending; \<^verbatim>\<open>hash\<close> does not.\<close>

definition os_get_data :: "octetStream \<Rightarrow> u8 list result" where
  "os_get_data os = (if bits_n (os_wbits os) \<noteq> 0 then Inl (exit_failure ''assertion failed'') else Inr (os_data os))"

definition os_hash :: "(u8 list \<Rightarrow> u8 list) \<Rightarrow> octetStream \<Rightarrow> octetStream" where
  "os_hash H os = empty_stream\<lparr>os_data := H (os_data os), os_mxlen := 16\<rparr>"

text \<open>The commitment and the opening for the player \<open>p\<close>; \<open>r\<close> are random bytes.\<close>

definition Commit :: "(u8 list \<Rightarrow> u8 list) \<Rightarrow> u8 list \<Rightarrow> octetStream \<Rightarrow> octetStream \<Rightarrow> nat \<Rightarrow> (octetStream \<times> octetStream) result" where
  "Commit H r opn message p =
    bind_result (store_int (word_of_nat p) 4 opn) (\<lambda>opn.
    bind_result (os_get_data message) (\<lambda>bs.
    bind_result (append bs opn) (\<lambda>opn.
    bind_result (append r opn) (\<lambda>opn.
    Inr (os_hash H opn, opn)))))"

text \<open>
  \<open>None\<close> is \<^verbatim>\<open>false\<close>.  The number is read before anything is checked; a difference of lengths that is negative is a huge length,
  for which the allocation throws.
\<close>

definition Open :: "(u8 list \<Rightarrow> u8 list) \<Rightarrow> octetStream \<Rightarrow> octetStream \<Rightarrow> octetStream \<Rightarrow> nat \<Rightarrow> octetStream option result" where
  "Open H message comm opn p =
    bind_result (os_get_data opn) (\<lambda>bs.
    if length bs < 4 then Inl undefined_access
    else if \<not> (os_equals (os_hash H opn) comm \<and> le_value (take 4 bs) = word_of_nat p) then Inr None
    else if length bs < 20 then Inl (runtime_error ''bad_array_new_length'')
    else bind_result (append (take (length bs - 20) (drop 4 bs)) (reset_write_head message)) (\<lambda>m. Inr (Some m)))"

section \<open>A joint seed\<close>

fun draw_uchars :: "'k prng_build \<Rightarrow> nat \<Rightarrow> 'k PRNG \<Rightarrow> u8 list \<times> 'k PRNG" where
  "draw_uchars b 0 g = ([], g)"
| "draw_uchars b (Suc n) g = (let (x, g) = PRNG_get_uchar b g; (xs, g) = draw_uchars b n g in (x # xs, g))"

definition PRNG_get_octetStream :: "'k prng_build \<Rightarrow> octetStream \<Rightarrow> nat \<Rightarrow> 'k PRNG \<Rightarrow> (octetStream \<times> 'k PRNG) result" where
  "PRNG_get_octetStream b ans len g = bind_result (os_resize len ans) (\<lambda>ans.
    let (bs, g) = draw_uchars b len g in Inr (ans\<lparr>os_data := bs, os_ptr := 0\<rparr>, g))"

text \<open>\<open>Create_Random_Seed\<close> up to its broadcasts: the own contribution, its commitment and its opening.\<close>

definition seed_commit :: "(u8 list \<Rightarrow> u8 list) \<Rightarrow> 'k prng_build \<Rightarrow> nat \<Rightarrow> nat \<Rightarrow> u8 list \<Rightarrow> 'k PRNG \<Rightarrow>
    (octetStream \<times> octetStream \<times> octetStream) result" where
  "seed_commit H b len me r g = bind_result (PRNG_get_octetStream b empty_stream len g) (\<lambda>(e, g).
    bind_result (Commit H r empty_stream e me) (\<lambda>(comm, opn). Inr (e, comm, opn)))"

definition xor_seed :: "nat \<Rightarrow> u8 list \<Rightarrow> octetStream \<Rightarrow> u8 list result" where
  "xor_seed len seed e = bind_result (os_get_data e) (\<lambda>bs.
    if length bs < len then Inl undefined_access else Inr (map2 (XOR) seed (take len bs)))"

text \<open>After the broadcasts: every other contribution is opened, all are added.\<close>

definition open_one :: "(u8 list \<Rightarrow> u8 list) \<Rightarrow> nat \<Rightarrow> octetStream list \<Rightarrow> octetStream list \<Rightarrow> octetStream list \<Rightarrow> nat \<Rightarrow> octetStream list result" where
  "open_one H me comms opens es i =
    (if i = me then Inr es
     else bind_result (vec_read es i) (\<lambda>e. bind_result (vec_read comms i) (\<lambda>comm. bind_result (vec_read opens i) (\<lambda>opn.
       bind_result (Open H e comm opn i) (\<lambda>r. case r of
           None \<Rightarrow> Inl (runtime_error ''invalid commitment'')
         | Some m \<Rightarrow> Inr (es[i := m]))))))"

definition seed_open :: "(u8 list \<Rightarrow> u8 list) \<Rightarrow> nat \<Rightarrow> nat \<Rightarrow> octetStream \<Rightarrow> nat \<Rightarrow> octetStream list \<Rightarrow> octetStream list \<Rightarrow> u8 list result" where
  "seed_open H n me e len comms opens =
    bind_result (fold_result (\<lambda>(seed, es) i.
        bind_result (open_one H me comms opens es i) (\<lambda>es.
        bind_result (vec_read es i) (\<lambda>e. bind_result (xor_seed len seed e) (\<lambda>seed. Inr (seed, es)))))
      (replicate len 0, (replicate n empty_stream)[me := e]) [0..<n])
    (\<lambda>(seed, es). Inr seed)"

definition SeedGlobally :: "(u8 list \<Rightarrow> u8 list) \<Rightarrow> 'k prng_build \<Rightarrow> nat \<Rightarrow> nat \<Rightarrow> octetStream \<Rightarrow> octetStream list \<Rightarrow> octetStream list \<Rightarrow> 'k PRNG result" where
  "SeedGlobally H b n me e comms opens = bind_result (seed_open H n me e 16 comms opens) (PRNG_SetSeed b)"

section \<open>Opening what was committed to\<close>

lemma le_value_player: "p < 2 ^ 32 \<Longrightarrow> le_value (le_bytes 4 (word_of_nat p)) = word_of_nat p"
  using encode_small(2) [of 4 "word_of_nat p"] by (simp add: le_value_bytes unat_u64_of_nat)

lemma append_plain:
  assumes "writable w" "bits_n (os_wbits w) = 0"
  shows "\<exists>w'. append x w = Inr w' \<and> os_data w' = os_data w @ x \<and> writable w' \<and> bits_n (os_wbits w') = 0"
proof -
  obtain m where m: "append x w = Inr (w\<lparr>os_data := flushed w @ x, os_mxlen := m,
      os_wbits := if bits_n (os_wbits w) = 0 then os_wbits w else no_bits\<rparr>)" "length (flushed w @ x) \<le> m"
    using append_ok [OF assms(1)] by blast
  then show ?thesis using assms by (auto simp: flushed_def writable_def)
qed

lemma Commit_ok:
  assumes "bits_n (os_wbits e) = 0" "p < 2 ^ 32"
  shows "\<exists>opn. Commit H r empty_stream e p = Inr (os_hash H opn, opn) \<and>
    os_data opn = le_bytes 4 (word_of_nat p) @ os_data e @ r \<and> bits_n (os_wbits opn) = 0"
proof -
  have p: "encode_length (word_of_nat p) 4 = Inr (le_bytes 4 (word_of_nat p))"
    by (rule encode_small(1)) (use assms(2) in \<open>simp_all add: unat_u64_of_nat\<close>)
  obtain w1 where w1: "append (le_bytes 4 (word_of_nat p)) empty_stream = Inr w1"
    "os_data w1 = le_bytes 4 (word_of_nat p)" "writable w1" "bits_n (os_wbits w1) = 0"
    using append_plain [OF writable_empty] by (auto simp: empty_stream_def)
  obtain w2 where w2: "append (os_data e) w1 = Inr w2" "os_data w2 = os_data w1 @ os_data e" "writable w2" "bits_n (os_wbits w2) = 0"
    using append_plain [OF w1(3,4)] by blast
  obtain w3 where w3: "append r w2 = Inr w3" "os_data w3 = os_data w2 @ r" "bits_n (os_wbits w3) = 0"
    using append_plain [OF w2(3,4)] by blast
  show ?thesis using assms(1) p w1(1,2) w2(1,2) w3 by (simp add: Commit_def store_int_def os_get_data_def)
qed

lemma Open_ok:
  assumes "os_data opn = le_bytes 4 (word_of_nat p) @ x @ r" "bits_n (os_wbits opn) = 0" "length r = 16" "p < 2 ^ 32" "writable m"
    and "os_data comm = H (os_data opn)" "bits_buffer (os_wbits m) = 0"
  shows "\<exists>m'. Open H m comm opn p = Inr (Some m') \<and> os_data m' = x \<and> bits_n (os_wbits m') = 0"
proof -
  have "writable (reset_write_head m)" "bits_n (os_wbits (reset_write_head m)) = 0" "os_data (reset_write_head m) = []"
    using assms(5,7) by (simp_all add: writable_def reset_write_head_def reset_read_head_def)
  then obtain m' where "append x (reset_write_head m) = Inr m'" "os_data m' = x" "bits_n (os_wbits m') = 0"
    using append_plain [of "reset_write_head m" x] by auto
  then show ?thesis
    using assms(1-4,6) by (simp add: Open_def os_get_data_def os_equals_def os_hash_def le_value_player)
qed

lemma length_draw_uchars: "length (fst (draw_uchars b n g)) = n"
  by (induction n arbitrary: g) (simp_all add: split_def Let_def)

lemma seed_commit_ok:
  assumes "me < 2 ^ 32"
  shows "\<exists>e opn. seed_commit H b len me r g = Inr (e, os_hash H opn, opn) \<and> length (os_data e) = len \<and> bits_n (os_wbits e) = 0 \<and>
    os_data opn = le_bytes 4 (word_of_nat me) @ os_data e @ r \<and> bits_n (os_wbits opn) = 0"
proof -
  obtain ans where ans: "os_resize len empty_stream = Inr ans" "bits_n (os_wbits ans) = 0"
    by (cases "len = 0") (auto simp: os_resize_def resize_precise_def empty_stream_def no_bits_def)
  let ?e = "ans\<lparr>os_data := fst (draw_uchars b len g), os_ptr := 0\<rparr>"
  have e: "PRNG_get_octetStream b empty_stream len g = Inr (?e, snd (draw_uchars b len g))" "length (os_data ?e) = len"
    "bits_n (os_wbits ?e) = 0"
    using length_draw_uchars [of b len g] ans by (simp_all add: PRNG_get_octetStream_def split_def Let_def)
  then show ?thesis using Commit_ok [OF e(3) assms, of H r] by (auto simp: seed_commit_def)
qed

section \<open>All players get the same seed\<close>

definition seed_sum :: "nat \<Rightarrow> (nat \<Rightarrow> u8 list) \<Rightarrow> nat \<Rightarrow> u8 list" where
  "seed_sum len x n = foldl (\<lambda>seed i. map2 (XOR) seed (x i)) (replicate len 0) [0..<n]"

lemma seed_open_sum:
  assumes "me < n" "os_data e = x me" "bits_n (os_wbits e) = 0" "length comms = n" "length opens = n"
    and "\<And>i. i < n \<Longrightarrow> length (x i) = len"
    and "\<And>i. i < n \<Longrightarrow> i \<noteq> me \<Longrightarrow> \<exists>m. Open H empty_stream (comms ! i) (opens ! i) i = Inr (Some m) \<and> os_data m = x i \<and> bits_n (os_wbits m) = 0"
  shows "seed_open H n me e len comms opens = Inr (seed_sum len x n)"
proof -
  have "\<exists>es. fold_result (\<lambda>(seed, es) i.
        bind_result (open_one H me comms opens es i) (\<lambda>es.
        bind_result (vec_read es i) (\<lambda>e. bind_result (xor_seed len seed e) (\<lambda>seed. Inr (seed, es)))))
      (replicate len 0, (replicate n empty_stream)[me := e]) [0..<k] = Inr (seed_sum len x k, es) \<and>
      length es = n \<and> es ! me = e \<and> (\<forall>i. k \<le> i \<longrightarrow> i < n \<longrightarrow> i \<noteq> me \<longrightarrow> es ! i = empty_stream)" if "k \<le> n" for k
    using that
  proof (induction k)
    case 0
    then show ?case using assms(1) by (simp add: seed_sum_def)
  next
    case (Suc k)
    then obtain es where es: "fold_result (\<lambda>(seed, es) i.
        bind_result (open_one H me comms opens es i) (\<lambda>es.
        bind_result (vec_read es i) (\<lambda>e. bind_result (xor_seed len seed e) (\<lambda>seed. Inr (seed, es)))))
      (replicate len 0, (replicate n empty_stream)[me := e]) [0..<k] = Inr (seed_sum len x k, es)"
      "length es = n" "es ! me = e" "\<forall>i. k \<le> i \<longrightarrow> i < n \<longrightarrow> i \<noteq> me \<longrightarrow> es ! i = empty_stream" by auto
    have k: "k < n" using Suc.prems by simp
    obtain es' m where es': "open_one H me comms opens es k = Inr es'" "es' ! k = m" "os_data m = x k" "bits_n (os_wbits m) = 0"
      "length es' = n" "es' ! me = e" "\<forall>i. Suc k \<le> i \<longrightarrow> i < n \<longrightarrow> i \<noteq> me \<longrightarrow> es' ! i = empty_stream"
    proof (cases "k = me")
      case True
      then show ?thesis using that [of es e] es assms(2,3) by (simp add: open_one_def)
    next
      case False
      then obtain m where m: "Open H empty_stream (comms ! k) (opens ! k) k = Inr (Some m)" "os_data m = x k" "bits_n (os_wbits m) = 0"
        using assms(7) [OF k] by blast
      show ?thesis
        by (rule that [of "es[k := m]" m]) (use False es k m assms(4,5) in \<open>simp_all add: open_one_def\<close>)
    qed
    have "seed_sum len x (Suc k) = map2 (XOR) (seed_sum len x k) (x k)" by (simp add: seed_sum_def)
    then show ?case
      using es(1) es' k assms(6) [OF k]
      by (simp add: fold_result_append xor_seed_def os_get_data_def)
  qed
  from this [of n] show ?thesis by (auto simp: seed_open_def)
qed

text \<open>What the players compute when all of them follow the protocol.\<close>

definition honest_toss :: "(u8 list \<Rightarrow> u8 list) \<Rightarrow> 'k prng_build \<Rightarrow> nat \<Rightarrow> (nat \<Rightarrow> octetStream \<times> octetStream \<times> octetStream) \<Rightarrow> bool" where
  "honest_toss H b n toss \<longleftrightarrow> n < 2 ^ 32 \<and> (\<forall>i < n. \<exists>r g. length r = 16 \<and> seed_commit H b 16 i r g = Inr (toss i))"

definition toss_result :: "(u8 list \<Rightarrow> u8 list) \<Rightarrow> 'k prng_build \<Rightarrow> nat \<Rightarrow> (nat \<Rightarrow> octetStream \<times> octetStream \<times> octetStream) \<Rightarrow> nat \<Rightarrow> 'k PRNG result" where
  "toss_result H b n toss me = SeedGlobally H b n me (fst (toss me)) (map (fst \<circ> snd \<circ> toss) [0..<n]) (map (snd \<circ> snd \<circ> toss) [0..<n])"

lemma honest_player:
  assumes "honest_toss H b n toss" "i < n"
  shows "\<exists>r. length r = 16 \<and> fst (snd (toss i)) = os_hash H (snd (snd (toss i))) \<and> length (os_data (fst (toss i))) = 16 \<and>
    bits_n (os_wbits (fst (toss i))) = 0 \<and> os_data (snd (snd (toss i))) = le_bytes 4 (word_of_nat i) @ os_data (fst (toss i)) @ r \<and>
    bits_n (os_wbits (snd (snd (toss i)))) = 0 \<and> i < 2 ^ 32"
proof -
  obtain r g where rg: "length r = 16" "seed_commit H b 16 i r g = Inr (toss i)" "n < 2 ^ 32"
    using assms unfolding honest_toss_def by blast
  then have "i < 2 ^ 32" using assms(2) by simp
  then show ?thesis using rg seed_commit_ok [of i H b 16 r g] by auto
qed

lemma honest_seed_open:
  assumes "honest_toss H b n toss" "p < n"
  shows "seed_open H n p (fst (toss p)) 16 (map (fst \<circ> snd \<circ> toss) [0..<n]) (map (snd \<circ> snd \<circ> toss) [0..<n]) =
    Inr (seed_sum 16 (\<lambda>i. os_data (fst (toss i))) n)"
proof -
  note c = honest_player [OF assms(1)]
  have "\<exists>m. Open H empty_stream (map (fst \<circ> snd \<circ> toss) [0..<n] ! i) (map (snd \<circ> snd \<circ> toss) [0..<n] ! i) i = Inr (Some m) \<and>
      os_data m = os_data (fst (toss i)) \<and> bits_n (os_wbits m) = 0" if i: "i < n" for i
  proof -
    obtain r where r: "length r = 16" "fst (snd (toss i)) = os_hash H (snd (snd (toss i)))"
      "os_data (snd (snd (toss i))) = le_bytes 4 (word_of_nat i) @ os_data (fst (toss i)) @ r" "bits_n (os_wbits (snd (snd (toss i)))) = 0"
      "i < 2 ^ 32" using c [OF i] by blast
    have "\<exists>m. Open H empty_stream (fst (snd (toss i))) (snd (snd (toss i))) i = Inr (Some m) \<and>
        os_data m = os_data (fst (toss i)) \<and> bits_n (os_wbits m) = 0"
      by (rule Open_ok [OF r(3,4,1,5) writable_empty(1)]) (simp_all add: r(2) os_hash_def empty_stream_def no_bits_def)
    then show ?thesis using i by simp
  qed
  moreover have "bits_n (os_wbits (fst (toss p))) = 0" "\<And>i. i < n \<Longrightarrow> length (os_data (fst (toss i))) = 16"
    using c assms(2) by blast+
  ultimately show ?thesis by (intro seed_open_sum [OF assms(2)]) simp_all
qed

lemma length_seed_sum: "(\<And>i. i < n \<Longrightarrow> length (x i) = len) \<Longrightarrow> length (seed_sum len x n) = len"
  by (induction n) (simp_all add: seed_sum_def)

lemma honest_toss_result:
  assumes "honest_toss H b n toss" "\<And>seed. length seed = 16 \<Longrightarrow> \<exists>g. PRNG_SetSeed b seed = Inr g"
  shows "\<exists>g. \<forall>p < n. toss_result H b n toss p = Inr g"
proof -
  have "length (os_data (fst (toss i))) = 16" if "i < n" for i
    using honest_player [OF assms(1) that] by blast
  then obtain g where "PRNG_SetSeed b (seed_sum 16 (\<lambda>i. os_data (fst (toss i))) n) = Inr g"
    using assms(2) length_seed_sum [of n "\<lambda>i. os_data (fst (toss i))" 16] by blast
  then show ?thesis using honest_seed_open [OF assms(1)] by (auto simp: toss_result_def SeedGlobally_def)
qed

text \<open>
  C16.  A joint seed.  When all players follow \<^verbatim>\<open>Create_Random_Seed\<close>, every one of them comes to the same seed, the sum of all
  contributions, and so to the same generator.
\<close>

theorem coin_toss_agree:
  assumes "honest_toss H b n toss" "me < n" "them < n"
  shows "seed_open H n me (fst (toss me)) 16 (map (fst \<circ> snd \<circ> toss) [0..<n]) (map (snd \<circ> snd \<circ> toss) [0..<n]) =
      Inr (seed_sum 16 (\<lambda>i. os_data (fst (toss i))) n) \<and>
    toss_result H b n toss me = toss_result H b n toss them"
  using honest_seed_open [OF assms(1)] assms(2,3) by (simp add: toss_result_def SeedGlobally_def)

text \<open>Two players with generators that stand anywhere.\<close>

definition demo_toss :: "nat \<Rightarrow> octetStream \<times> octetStream \<times> octetStream" where
  "demo_toss i = projr (seed_commit (take 16) build_c 16 i (replicate 16 0) (one_byte_left (word_of_nat i)))"

lemma demo_toss_honest: "honest_toss (take 16) build_c 2 demo_toss"
proof -
  have "seed_commit (take 16) build_c 16 i (replicate 16 0) (one_byte_left (word_of_nat i)) = Inr (demo_toss i)" if "i < 2" for i
    using seed_commit_ok [of i "take 16" build_c 16 "replicate 16 0" "one_byte_left (word_of_nat i)"] that by (auto simp: demo_toss_def)
  then show ?thesis unfolding honest_toss_def by (auto intro!: exI [of _ "replicate 16 0"])
qed

lemma coin_toss_agree_witness:
  "toss_result (take 16) build_c 2 demo_toss 0 = toss_result (take 16) build_c 2 demo_toss 1"
  using coin_toss_agree [OF demo_toss_honest, of 0 1] by simp

section \<open>Nobody changes the seed after the commitments\<close>

lemma open_one_accepts:
  assumes "open_one H me comms opens es i = Inr es'" "i \<noteq> me"
  shows "H (os_data (opens ! i)) = os_data (comms ! i)" "bits_n (os_wbits (opens ! i)) = 0"
  using assms
  by (auto simp: open_one_def Open_def os_get_data_def os_equals_def os_hash_def bind_result_Inr_iff vec_read_def
      split: if_splits option.splits)

lemma open_one_cong:
  assumes "open_one H me comms opens es i = Inr es1" "open_one H me comms opens' es i = Inr es2"
    and "i \<noteq> me \<Longrightarrow> os_data (opens ! i) = os_data (opens' ! i)"
  shows "es1 = es2"
  using assms
  by (auto simp: open_one_def Open_def os_get_data_def os_equals_def os_hash_def bind_result_Inr_iff vec_read_def
      split: if_splits option.splits)

lemma seed_open_cong:
  assumes "seed_open H n me e len comms opens = Inr s" "seed_open H n me e len comms opens' = Inr s'"
    and "\<forall>i < n. i \<noteq> me \<longrightarrow> os_data (opens ! i) = os_data (opens' ! i)"
  shows "s = s'"
proof -
  define f where "f opens = (\<lambda>(seed, es) i. bind_result (open_one H me comms opens es i) (\<lambda>es.
        bind_result (vec_read es i) (\<lambda>e. bind_result (xor_seed len seed e) (\<lambda>seed. Inr (seed, es)))))" for opens
  have eq: "t = t'" if "fold_result (f opens) t0 xs = Inr t" "fold_result (f opens') t0 xs = Inr t'" "set xs \<subseteq> {..<n}" for t t' t0 xs
    using that
  proof (induction xs arbitrary: t0)
    case (Cons i xs)
    obtain t1 t2 where t: "f opens t0 i = Inr t1" "f opens' t0 i = Inr t2" "fold_result (f opens) t1 xs = Inr t" "fold_result (f opens') t2 xs = Inr t'"
      using Cons.prems(1,2) by (auto simp: bind_result_Inr_iff)
    obtain es1 es2 where "open_one H me comms opens (snd t0) i = Inr es1" "open_one H me comms opens' (snd t0) i = Inr es2"
      using t(1,2) by (auto simp: f_def split_def bind_result_Inr_iff)
    moreover from this have "es1 = es2" using open_one_cong assms(3) Cons.prems(3) by (metis insert_subset lessThan_iff list.simps(15))
    ultimately have "t1 = t2" using t(1,2) by (simp add: f_def split_def)
    then show ?case using Cons t(3,4) by simp
  qed simp
  obtain t t' where "fold_result (f opens) (replicate len 0, (replicate n empty_stream)[me := e]) [0..<n] = Inr t" "s = fst t"
    "fold_result (f opens') (replicate len 0, (replicate n empty_stream)[me := e]) [0..<n] = Inr t'" "s' = fst t'"
    using assms(1,2) by (auto simp: seed_open_def f_def bind_result_Inr_iff split_def)
  moreover from this(1,3) have "t = t'" by (rule eq) auto
  ultimately show ?thesis by simp
qed

text \<open>
  C17.  Commitments bind.  When the openings that the other players send, for the same commitments, lead a player to different
  seeds, then two of these openings are a collision of the hash.
\<close>

theorem coin_toss_binding:
  assumes "seed_open H n me e len comms opens = Inr s" "seed_open H n me e len comms opens' = Inr s'" "s \<noteq> s'"
  shows "\<exists>i < n. i \<noteq> me \<and> os_data (opens ! i) \<noteq> os_data (opens' ! i) \<and> H (os_data (opens ! i)) = H (os_data (opens' ! i))"
proof -
  obtain i where i: "i < n" "i \<noteq> me" "os_data (opens ! i) \<noteq> os_data (opens' ! i)"
    using seed_open_cong [OF assms(1,2)] assms(3) by blast
  have accepts: "H (os_data (os ! i)) = os_data (comms ! i)" if "seed_open H n me e len comms os = Inr u" for os u
  proof -
    have "\<exists>es es'. open_one H me comms os es i = Inr es'"
      using that i(1) by (fastforce simp: seed_open_def bind_result_Inr_iff split_def dest!: fold_result_reached [where x = i])
    then show ?thesis using open_one_accepts(1) i(2) by blast
  qed
  show ?thesis using i accepts [OF assms(1)] accepts [OF assms(2)] by (intro exI [of _ i]) simp
qed

text \<open>With a hash that maps everything to one value, two openings of the same commitment.\<close>

definition demo_opening :: "u8 \<Rightarrow> octetStream" where
  "demo_opening x = empty_stream\<lparr>os_data := [1, 0, 0, 0, x] @ replicate 16 0\<rparr>"

definition demo_commitments :: "octetStream list" where
  "demo_commitments = replicate 2 (empty_stream\<lparr>os_data := replicate 16 0\<rparr>)"

lemma coin_toss_binding_witness:
  "os_data ([empty_stream, demo_opening 5] ! 1) \<noteq> os_data ([empty_stream, demo_opening 6] ! 1) \<and>
    (\<exists>i < 2. i \<noteq> 0 \<and> os_data ([empty_stream, demo_opening 5] ! i) \<noteq> os_data ([empty_stream, demo_opening 6] ! i))"
proof -
  have "seed_open (\<lambda>_. replicate 16 0) 2 0 (empty_stream\<lparr>os_data := [0]\<rparr>) 1 demo_commitments [empty_stream, demo_opening 5] = Inr [5]"
    "seed_open (\<lambda>_. replicate 16 0) 2 0 (empty_stream\<lparr>os_data := [0]\<rparr>) 1 demo_commitments [empty_stream, demo_opening 6] = Inr [6]"
    by code_simp+
  from coin_toss_binding [OF this] show ?thesis by (auto simp: demo_opening_def)
qed

section \<open>All commitments at once\<close>

text \<open>\<^verbatim>\<open>class Commitment\<close>, where the opening holds the randomness only; \<open>H\<close> is here the longer hash of \<^verbatim>\<open>class Hash\<close>.\<close>

definition Commitment_hash :: "(u8 list \<Rightarrow> u8 list) \<Rightarrow> nat \<Rightarrow> octetStream \<Rightarrow> octetStream \<Rightarrow> octetStream result" where
  "Commitment_hash H send_player message opn =
    bind_result (os_get_data message) (\<lambda>m. bind_result (os_get_data opn) (\<lambda>o'.
    Inr (empty_stream\<lparr>os_data := H (le_bytes 4 (word_of_nat send_player) @ m @ o'), os_mxlen := 32\<rparr>)))"

definition Commitment_commit :: "(u8 list \<Rightarrow> u8 list) \<Rightarrow> u8 list \<Rightarrow> nat \<Rightarrow> octetStream \<Rightarrow> (octetStream \<times> octetStream) result" where
  "Commitment_commit H r send_player message =
    bind_result (append r (reset_write_head empty_stream)) (\<lambda>opn.
    bind_result (Commitment_hash H send_player message opn) (\<lambda>comm. Inr (comm, opn)))"

definition Commitment_check :: "(u8 list \<Rightarrow> u8 list) \<Rightarrow> nat \<Rightarrow> octetStream \<Rightarrow> octetStream \<Rightarrow> octetStream \<Rightarrow> unit result" where
  "Commitment_check H send_player message comm opn =
    bind_result (Commitment_hash H send_player message opn) (\<lambda>own.
    if os_equals comm own then Inr () else Inl (runtime_error ''invalid commitment''))"

text \<open>
  \<^verbatim>\<open>AllCommitments\<close> with what the broadcasts delivered.  The loop of \<^verbatim>\<open>open\<close> stops at the own number, where it was meant to skip it.
\<close>

record all_commitments =
  ac_comms :: "octetStream list"
  ac_opens :: "octetStream list"
  ac_messages :: "octetStream list"

definition AllCommitments_check :: "(u8 list \<Rightarrow> u8 list) \<Rightarrow> all_commitments \<Rightarrow> nat \<Rightarrow> octetStream \<Rightarrow> unit result" where
  "AllCommitments_check H ac player message =
    bind_result (vec_read (ac_comms ac) player) (\<lambda>comm. bind_result (vec_read (ac_opens ac) player) (\<lambda>opn.
    Commitment_check H player message comm opn))"

definition AllCommitments_open :: "(u8 list \<Rightarrow> u8 list) \<Rightarrow> nat \<Rightarrow> all_commitments \<Rightarrow> unit result" where
  "AllCommitments_open H me ac = fold_result (\<lambda>_ i. bind_result (vec_read (ac_messages ac) i) (AllCommitments_check H ac i)) () [0..<me]"

definition AllCommitments_check_relative :: "(u8 list \<Rightarrow> u8 list) \<Rightarrow> nat \<Rightarrow> nat \<Rightarrow> all_commitments \<Rightarrow> nat \<Rightarrow> octetStream \<Rightarrow> unit result" where
  "AllCommitments_check_relative H n me ac diff message = AllCommitments_check H ac ((me + n - diff) mod n) message"


section \<open>A joint challenge\<close>

definition Commit_To_Challenge :: "(u8 list \<Rightarrow> u8 list) \<Rightarrow> 'k prng_build \<Rightarrow> u32 \<Rightarrow> nat \<Rightarrow> u8 list \<Rightarrow> 'k PRNG \<Rightarrow>
    (u32 \<times> octetStream \<times> octetStream) result option" where
  "Commit_To_Challenge H b num_runs me r g = map_option (\<lambda>eg. bind_result eg (\<lambda>(e, g).
    bind_result (store_int (ucast e) 4 empty_stream) (\<lambda>ee. bind_result (Commit H r empty_stream ee me) (\<lambda>(comm, opn).
    Inr (e, comm, opn))))) (PRNG_get_uint_below b num_runs g)"

text \<open>The sum wraps, and its remainder is that of a signed number.\<close>

definition Open_Challenge :: "(u8 list \<Rightarrow> u8 list) \<Rightarrow> nat \<Rightarrow> nat \<Rightarrow> u32 \<Rightarrow> u32 \<Rightarrow> octetStream list \<Rightarrow> octetStream list \<Rightarrow> int result" where
  "Open_Challenge H n me num_runs e comms opens =
    bind_result (fold_result (\<lambda>(challenge, ee) i.
        if i = me then Inr (challenge + e, ee)
        else bind_result (vec_read comms i) (\<lambda>comm. bind_result (vec_read opens i) (\<lambda>opn.
          bind_result (Open H ee comm opn i) (\<lambda>r. case r of
              None \<Rightarrow> Inl (runtime_error ''invalid commitment'')
            | Some ee \<Rightarrow> bind_result (os_get_int 4 ee) (\<lambda>(x, ee). Inr (challenge + ucast x, ee))))))
      (0, empty_stream) [0..<n])
    (\<lambda>(challenge, ee). if num_runs = 0 then Inl undefined_access else Inr (sint challenge smod sint num_runs))"

text \<open>A player that commits to a number that is too large makes the challenge of the other one negative.\<close>

lemma challenge_negative:
  "Open_Challenge (\<lambda>_. replicate 16 0) 2 0 3 1 demo_commitments
    [empty_stream, empty_stream\<lparr>os_data := [1, 0, 0, 0] @ [0, 0, 0, 128] @ replicate 16 0\<rparr>] = Inr (- 1)"
  by code_simp

end
