(* ===== verification/Clmul.thy ===== *)
theory Clmul
  imports M128_Bytes
begin

text \<open>
  Multiplication of polynomials over the field of two elements: the table-driven multiplication of words of
  \<^verbatim>\<open>Math/gf2n.cpp\<close>, the processor's instruction, and \<^verbatim>\<open>mul128\<close> of \<^verbatim>\<open>Math/gf2nlong.h\<close> over either.
\<close>

section \<open>The code\<close>

text \<open>An entry of \<^verbatim>\<open>gf2n_short_table\<close>, as the loop of \<^verbatim>\<open>init_tables\<close> computes it.\<close>

function table_loop :: "u64 \<Rightarrow> u64 \<Rightarrow> u64 \<Rightarrow> u64" where
  "table_loop ii jj acc =
    (if ii = 0 then acc
     else table_loop (drop_bit 1 ii) (push_bit 1 jj) (if ii AND 1 = 1 then acc XOR jj else acc))"
  by auto
termination
proof (relation "measure (\<lambda>(ii, jj, acc). unat ii)")
  fix ii jj acc :: u64 assume "ii \<noteq> 0"
  then have "0 < unat ii" by (simp add: unat_gt_0)
  then show "((drop_bit 1 ii, push_bit 1 jj, if ii AND 1 = 1 then acc XOR jj else acc), ii, jj, acc) \<in> measure (\<lambda>(ii, jj, acc). unat ii)"
    by (simp add: drop_bit_Suc unat_div)
qed simp

declare table_loop.simps [simp del]

definition gf2n_short_table :: "u64 \<Rightarrow> u64 \<Rightarrow> u64" where
  "gf2n_short_table i j = table_loop i j 0"

text \<open>The two versions of \<^verbatim>\<open>mul16\<close>: the product in two parts, and in one word.\<close>

definition mul16_parts :: "u64 \<Rightarrow> u64 \<Rightarrow> u64 \<times> u64" where
  "mul16_parts x y =
    (let a1 = x AND 0xFF; b1 = y AND 0xFF; a2 = drop_bit 8 x; b2 = drop_bit 8 y;
         c0 = gf2n_short_table a1 b1; c1 = gf2n_short_table a2 b2;
         te = gf2n_short_table a1 b2 XOR gf2n_short_table a2 b1
     in (c0 XOR push_bit 8 (te AND 0xFF), c1 XOR drop_bit 8 te))"

definition mul16 :: "u64 \<Rightarrow> u64 \<Rightarrow> u64" where
  "mul16 x y =
    (let a1 = x AND 0xFF; b1 = y AND 0xFF; a2 = drop_bit 8 x; b2 = drop_bit 8 y;
         ans = push_bit 8 (gf2n_short_table a2 b2);
         ans = ans XOR (gf2n_short_table a1 b2 XOR gf2n_short_table a2 b1);
         ans = push_bit 8 ans
     in ans XOR gf2n_short_table a1 b1)"

definition mul32 :: "u64 \<Rightarrow> u64 \<Rightarrow> u64" where
  "mul32 x y =
    (let a1 = x AND 0xFFFF; b1 = y AND 0xFFFF; a2 = drop_bit 16 x; b2 = drop_bit 16 y;
         ans = mul16 a1 b1; upp = mul16 a2 b2;
         (c0, c1) = mul16_parts a1 b2;
         ans = ans XOR push_bit 16 c0; upp = upp XOR c1;
         (c0, c1) = mul16_parts a2 b1;
         ans = ans XOR push_bit 16 c0; upp = upp XOR c1
     in ans XOR push_bit 32 upp)"

definition mul_words :: "u64 \<Rightarrow> u64 \<Rightarrow> m128" where
  "mul_words x y =
    (let xl = x AND 0xFFFFFFFF; yl = y AND 0xFFFFFFFF; xh = drop_bit 32 x; yh = drop_bit 32 y;
         c = mul32 xl yl; d = mul32 xh yh; e = mul32 (xl XOR xh) (yl XOR yh);
         t = c XOR e XOR d
     in (c XOR push_bit 32 t, d XOR drop_bit 32 t))"

definition get_half :: "m128 \<Rightarrow> bool \<Rightarrow> u64" where
  "get_half a upper = (if upper then snd a else fst a)"

text \<open>
  \<open>clmul\<close> multiplies two words, by \<^verbatim>\<open>software_clmul\<close> or by the instruction; the constants of the code choose the halves.
\<close>

definition mul128 :: "(u64 \<Rightarrow> u64 \<Rightarrow> m128) \<Rightarrow> m128 \<Rightarrow> m128 \<Rightarrow> m128 \<times> m128" where
  "mul128 clmul a b =
    (let tmp3 = clmul (get_half a False) (get_half b False);
         tmp4 = clmul (get_half a False) (get_half b True);
         tmp5 = clmul (get_half a True) (get_half b False);
         tmp6 = clmul (get_half a True) (get_half b True);
         tmp4 = m128_xor tmp4 tmp5;
         tmp5 = (0, fst tmp4);
         tmp4 = (snd tmp4, 0)
     in (m128_xor tmp3 tmp5, m128_xor tmp6 tmp4))"

section \<open>Products of polynomials\<close>

text \<open>The product in words of any length, modulo the power of the variable that does not fit.\<close>

definition cprod :: "'a::len word \<Rightarrow> 'a word \<Rightarrow> 'a word" where
  "cprod x y = foldl (\<lambda>acc i. if bit x i then acc XOR push_bit i y else acc) 0 [0..<LENGTH('a)]"

definition cterms :: "'a::len word \<Rightarrow> 'a word \<Rightarrow> nat \<Rightarrow> nat set" where
  "cterms x y n = {j. j \<le> n \<and> bit x j \<and> bit y (n - j)}"

lemma finite_cterms [simp]: "finite (cterms x y n)"
  by (rule finite_subset [of _ "{..n}"]) (auto simp: cterms_def)

lemma bit_cprod:
  assumes "n < LENGTH('a::len)"
  shows "bit (cprod x y :: 'a word) n \<longleftrightarrow> odd (card (cterms x y n))"
proof -
  have "bit (foldl (\<lambda>acc i. if bit x i then acc XOR push_bit i y else acc) 0 [0..<m]) n \<longleftrightarrow>
      odd (card {j \<in> cterms x y n. j < m})" for m
  proof (induction m)
    case (Suc m)
    let ?A = "{j \<in> cterms x y n. j < m}"
    have "{j \<in> cterms x y n. j < Suc m} = (if m \<in> cterms x y n then insert m ?A else ?A)" by (auto simp: less_Suc_eq)
    moreover have "finite ?A" "m \<notin> ?A" by simp_all
    moreover have "bit (push_bit m y) n \<longleftrightarrow> m \<le> n \<and> bit y (n - m)" using assms by (auto simp: bit_simps)
    ultimately show ?case using Suc by (auto simp: bit_xor_iff cterms_def)
  qed simp
  moreover have "{j \<in> cterms x y n. j < LENGTH('a)} = cterms x y n" using assms by (auto simp: cterms_def)
  ultimately show ?thesis by (simp add: cprod_def)
qed

lemma odd_card_sym_diff:
  assumes "finite A" "finite B"
  shows "odd (card ((A - B) \<union> (B - A))) \<longleftrightarrow> odd (card A) \<noteq> odd (card B)"
proof -
  have "card A = card (A - B) + card (A \<inter> B)" "card B = card (B - A) + card (A \<inter> B)"
    using assms card_Diff_subset_Int [of A B] card_Diff_subset_Int [of B A] card_mono [of A "A \<inter> B"] card_mono [of B "A \<inter> B"]
    by (simp_all add: Int_commute)
  moreover have "card ((A - B) \<union> (B - A)) = card (A - B) + card (B - A)"
    using assms by (intro card_Un_disjoint) auto
  ultimately show ?thesis by presburger
qed

lemma cprod_commute: "cprod x y = cprod y x"
proof (rule bit_word_eqI)
  fix n assume n: "n < LENGTH('a)"
  have "cterms y x n = (\<lambda>j. n - j) ` cterms x y n"
  proof (intro equalityI subsetI)
    fix j assume "j \<in> cterms y x n"
    then have "j = n - (n - j)" "n - j \<in> cterms x y n" by (simp_all add: cterms_def)
    then show "j \<in> (\<lambda>j. n - j) ` cterms x y n" by (rule image_eqI)
  qed (auto simp: cterms_def)
  moreover have "inj_on (\<lambda>j. n - j) (cterms x y n)" by (rule inj_onI) (auto simp: cterms_def)
  ultimately show "bit (cprod x y) n = bit (cprod y x) n" using n by (simp add: bit_cprod card_image)
qed

lemma cprod_xor_left: "cprod (x XOR x') y = cprod x y XOR cprod x' y"
proof (rule bit_word_eqI)
  fix n assume n: "n < LENGTH('a)"
  have "cterms (x XOR x') y n = (cterms x y n - cterms x' y n) \<union> (cterms x' y n - cterms x y n)"
    by (auto simp: cterms_def bit_xor_iff)
  then show "bit (cprod (x XOR x') y) n = bit (cprod x y XOR cprod x' y) n"
    using n by (simp add: bit_cprod bit_xor_iff odd_card_sym_diff)
qed

lemma cprod_xor_right: "cprod x (y XOR y') = cprod x y XOR cprod x y'"
  by (simp add: cprod_commute [of x] cprod_xor_left)

lemma cprod_push_left: "cprod (push_bit k x) y = push_bit k (cprod x y)"
proof (rule bit_word_eqI)
  fix n assume n: "n < LENGTH('a)"
  have "cterms (push_bit k x) y n = (if k \<le> n then (\<lambda>j. j + k) ` cterms x y (n - k) else {})"
  proof (intro equalityI subsetI)
    fix j assume j: "j \<in> cterms (push_bit k x) y n"
    then have "k \<le> j" "j \<le> n" using n by (auto simp: cterms_def bit_simps)
    then have "j = (j - k) + k" "j - k \<in> cterms x y (n - k)" "k \<le> n" using j n by (auto simp: cterms_def bit_simps)
    then show "j \<in> (if k \<le> n then (\<lambda>j. j + k) ` cterms x y (n - k) else {})" by auto
  qed (use n in \<open>auto simp: cterms_def bit_simps add.commute split: if_splits\<close>)
  moreover have "inj_on (\<lambda>j. j + k) (cterms x y (n - k))" by (rule inj_onI) simp
  ultimately show "bit (cprod (push_bit k x) y) n = bit (push_bit k (cprod x y)) n"
    using n by (simp add: bit_cprod card_image bit_simps)
qed

lemma cprod_push_right: "cprod x (push_bit k y) = push_bit k (cprod x y)"
  by (simp add: cprod_commute [of x] cprod_push_left)

lemma cprod_zero [simp]: "cprod 0 y = 0" "cprod x 0 = 0"
  using cprod_xor_left [of 0 0 y] cprod_xor_right [of x 0 0] by simp_all

lemmas cprod_linear = cprod_xor_left cprod_xor_right cprod_push_left cprod_push_right push_bit_xor

text \<open>A product that fits is the same in longer words.\<close>

lemma ucast_cprod:
  fixes x y :: "'a::len word"
  assumes "\<And>n. k \<le> n \<Longrightarrow> \<not> bit x n" "\<And>n. k \<le> n \<Longrightarrow> \<not> bit y n" "2 * k \<le> LENGTH('a)" "LENGTH('a) \<le> LENGTH('b::len)"
  shows "(ucast (cprod x y) :: 'b word) = cprod (ucast x) (ucast y)"
proof (rule bit_word_eqI)
  fix n assume n: "n < LENGTH('b)"
  have same: "cterms (ucast x :: 'b word) (ucast y) n = cterms x y n"
    using n assms(4) by (auto simp: cterms_def bit_simps dest: bit_imp_le_length)
  have "cterms x y n = {}" if "LENGTH('a) \<le> n"
  proof -
    have False if "j \<in> cterms x y n" for j
    proof -
      have "j \<le> n" "bit x j" "bit y (n - j)" using that by (simp_all add: cterms_def)
      then have "j < k" "n - j < k" using assms(1,2) not_less by blast+
      then show False using \<open>j \<le> n\<close> \<open>LENGTH('a) \<le> n\<close> assms(3) by linarith
    qed
    then show ?thesis by blast
  qed
  then have long: "LENGTH('a) \<le> n \<Longrightarrow> \<not> bit (cprod (ucast x) (ucast y) :: 'b word) n"
    using n same by (simp add: bit_cprod)
  have short: "n < LENGTH('a) \<Longrightarrow> bit (cprod x y) n = bit (cprod (ucast x) (ucast y) :: 'b word) n"
    using n same by (simp add: bit_cprod)
  have "bit (ucast (cprod x y) :: 'b word) n \<longleftrightarrow> n < LENGTH('a) \<and> bit (cprod x y) n"
    using n bit_imp_le_length by (auto simp: bit_ucast_iff)
  then show "bit (ucast (cprod x y) :: 'b word) n = bit (cprod (ucast x) (ucast y) :: 'b word) n"
    using long short by (cases "n < LENGTH('a)") simp_all
qed

section \<open>The code computes products\<close>

lemma cprod_one [simp]: "cprod 1 y = y"
proof (rule bit_word_eqI)
  fix n assume n: "n < LENGTH('a)"
  have "cterms 1 y n = (if bit y n then {0} else {})" by (auto simp: cterms_def bit_1_iff)
  then show "bit (cprod 1 y) n = bit y n" using n by (simp add: bit_cprod)
qed

lemma split_word: "x = take_bit k x XOR push_bit k (drop_bit k x)" for x :: "'a::len word"
  by (rule bit_word_eqI) (auto simp: bit_simps)

lemma low_masks:
  "(x :: u64) AND 0xFF = take_bit 8 x" "x AND 0xFFFF = take_bit 16 x" "x AND 0xFFFFFFFF = take_bit 32 x"
  by (simp_all add: take_bit_eq_mask mask_eq_exp_minus_1)

lemma table_loop_cprod: "table_loop ii jj acc = acc XOR cprod ii jj"
proof (induction ii jj acc rule: table_loop.induct)
  case (1 ii jj acc)
  show ?case
  proof (cases "ii = 0")
    case True
    then show ?thesis by (simp add: table_loop.simps)
  next
    case False
    have low: "take_bit 1 ii = (if ii AND 1 = 1 then 1 else 0)"
    proof -
      have "take_bit 1 ii = ii AND 1" by (simp add: take_bit_eq_mask mask_eq_exp_minus_1)
      moreover have "ii AND 1 = 0 \<or> ii AND 1 = 1" by (cases "even ii") (simp_all add: and_one_eq even_iff_mod_2_eq_zero odd_iff_mod_2_eq_one)
      ultimately show ?thesis by auto
    qed
    have "cprod ii jj = cprod (take_bit 1 ii XOR push_bit 1 (drop_bit 1 ii)) jj"
      by (simp only: split_word [of ii 1, symmetric])
    also have "\<dots> = (if ii AND 1 = 1 then jj else 0) XOR cprod (drop_bit 1 ii) (push_bit 1 jj)"
      unfolding low by (simp add: cprod_linear del: push_bit_Suc)
    finally have step: "cprod ii jj = (if ii AND 1 = 1 then jj else 0) XOR cprod (drop_bit 1 ii) (push_bit 1 jj)" .
    show ?thesis
      using 1 [OF False] False by (subst table_loop.simps) (simp add: step xor_ac)
  qed
qed

lemma short_table_cprod: "gf2n_short_table i j = cprod i j"
  by (simp add: gf2n_short_table_def table_loop_cprod)

lemma cprod_split:
  "cprod x y = cprod (take_bit k x) (take_bit k y) XOR push_bit k (cprod (take_bit k x) (drop_bit k y) XOR
    cprod (drop_bit k x) (take_bit k y)) XOR push_bit (k + k) (cprod (drop_bit k x) (drop_bit k y))"
proof -
  have "cprod x y = cprod (take_bit k x XOR push_bit k (drop_bit k x)) (take_bit k y XOR push_bit k (drop_bit k y))"
    by (simp only: split_word [of x k, symmetric] split_word [of y k, symmetric])
  then show ?thesis by (simp add: cprod_linear xor_ac)
qed

lemma mul16_cprod: "mul16 x y = cprod x y"
  unfolding cprod_split [of x y 8]
  by (simp add: mul16_def low_masks short_table_cprod Let_def push_bit_xor xor_ac)

lemma mul16_parts_cprod:
  assumes "mul16_parts x y = (c0, c1)"
  shows "c0 XOR push_bit 16 c1 = cprod x y"
proof -
  let ?te = "cprod (take_bit 8 x) (drop_bit 8 y) XOR cprod (drop_bit 8 x) (take_bit 8 y)"
  have "push_bit 8 (take_bit 8 ?te) XOR push_bit 16 (drop_bit 8 ?te) = push_bit 8 (take_bit 8 ?te XOR push_bit 8 (drop_bit 8 ?te))"
    by (simp add: push_bit_xor)
  also have "\<dots> = push_bit 8 ?te" by (simp only: split_word [of ?te 8, symmetric])
  finally have te: "push_bit 8 (take_bit 8 ?te) XOR push_bit 16 (drop_bit 8 ?te) = push_bit 8 ?te" .
  have "c0 = cprod (take_bit 8 x) (take_bit 8 y) XOR push_bit 8 (take_bit 8 ?te)"
    "c1 = cprod (drop_bit 8 x) (drop_bit 8 y) XOR drop_bit 8 ?te"
    using assms by (auto simp: mul16_parts_def low_masks short_table_cprod Let_def)
  then have "c0 XOR push_bit 16 c1 = cprod (take_bit 8 x) (take_bit 8 y) XOR
      (push_bit 8 (take_bit 8 ?te) XOR push_bit 16 (drop_bit 8 ?te)) XOR push_bit 16 (cprod (drop_bit 8 x) (drop_bit 8 y))"
    by (simp only: push_bit_xor xor_ac)
  then show ?thesis unfolding cprod_split [of x y 8] te by simp
qed

lemma mul32_cprod: "mul32 x y = cprod x y"
proof -
  obtain c0 c1 where c: "mul16_parts (take_bit 16 x) (drop_bit 16 y) = (c0, c1)" by fastforce
  obtain d0 d1 where d: "mul16_parts (drop_bit 16 x) (take_bit 16 y) = (d0, d1)" by fastforce
  have "mul32 x y = cprod (take_bit 16 x) (take_bit 16 y) XOR push_bit 16 (c0 XOR push_bit 16 c1) XOR
      push_bit 16 (d0 XOR push_bit 16 d1) XOR push_bit 32 (cprod (drop_bit 16 x) (drop_bit 16 y))"
    by (simp add: mul32_def low_masks mul16_cprod c d push_bit_xor xor_ac)
  then show ?thesis
    unfolding cprod_split [of x y 16] mul16_parts_cprod [OF c] mul16_parts_cprod [OF d]
    by (simp add: push_bit_xor xor_ac)
qed

text \<open>Registers as words of 256 bits, in which all products of this section fit.\<close>

definition join128 :: "m128 \<Rightarrow> 256 word" where
  "join128 a = ucast (fst a) XOR push_bit 64 (ucast (snd a))"

lemma join128_xor: "join128 (m128_xor a b) = join128 a XOR join128 b"
  by (rule bit_word_eqI) (auto simp: join128_def m128_xor_def bit_simps)

lemma mul_words_cprod: "join128 (mul_words x y) = cprod (ucast x) (ucast y)"
proof -
  let ?xl = "take_bit 32 x" and ?xh = "drop_bit 32 x" and ?yl = "take_bit 32 y" and ?yh = "drop_bit 32 y"
  let ?u = "\<lambda>w :: u64. ucast w :: 256 word"
  define t where "t = cprod ?xl ?yl XOR cprod (?xl XOR ?xh) (?yl XOR ?yh) XOR cprod ?xh ?yh"
  have halves: "\<not> bit ?xl n" "\<not> bit ?xh n" "\<not> bit ?yl n" "\<not> bit ?yh n" if "32 \<le> n" for n
    using that by (auto simp: bit_simps dest: bit_imp_le_length)
  have fits: "?u (cprod a b) = cprod (?u a) (?u b)" if "a \<in> {?xl, ?xh, ?xl XOR ?xh}" "b \<in> {?yl, ?yh, ?yl XOR ?yh}" for a b
    using that halves by (intro ucast_cprod [where k = 32]) (auto simp: bit_xor_iff)
  have cross: "t = cprod ?xl ?yh XOR cprod ?xh ?yl"
    by (simp add: t_def cprod_linear xor_ac)
  have pair: "mul_words x y = (cprod ?xl ?yl XOR push_bit 32 t, cprod ?xh ?yh XOR drop_bit 32 t)"
    by (simp add: mul_words_def low_masks mul32_cprod t_def Let_def)
  have key: "?u (push_bit 32 t) XOR push_bit 64 (?u (drop_bit 32 t)) = push_bit 32 (?u t)"
    by (rule bit_word_eqI) (auto simp: bit_simps dest: bit_imp_le_length)
  have u_xor: "?u (a XOR b) = ?u a XOR ?u b" for a b by (rule bit_word_eqI) (auto simp: bit_simps)
  have "join128 (mul_words x y) = ?u (cprod ?xl ?yl) XOR (?u (push_bit 32 t) XOR push_bit 64 (?u (drop_bit 32 t))) XOR
      push_bit 64 (?u (cprod ?xh ?yh))"
    by (simp add: pair join128_def u_xor push_bit_xor xor_ac)
  also have "\<dots> = ?u (cprod ?xl ?yl) XOR push_bit 32 (?u t) XOR push_bit 64 (?u (cprod ?xh ?yh))"
    by (simp only: key)
  also have "?u t = cprod (?u ?xl) (?u ?yh) XOR cprod (?u ?xh) (?u ?yl)"
    by (simp add: cross u_xor fits)
  finally have lhs: "join128 (mul_words x y) = cprod (?u ?xl) (?u ?yl) XOR
      push_bit 32 (cprod (?u ?xl) (?u ?yh) XOR cprod (?u ?xh) (?u ?yl)) XOR push_bit 64 (cprod (?u ?xh) (?u ?yh))"
    by (simp add: fits)
  have "take_bit 32 (?u x) = ?u ?xl" "drop_bit 32 (?u x) = ?u ?xh" "take_bit 32 (?u y) = ?u ?yl" "drop_bit 32 (?u y) = ?u ?yh"
    by (rule bit_word_eqI, auto simp: bit_simps dest: bit_imp_le_length)+
  then show ?thesis unfolding lhs cprod_split [of "?u x" "?u y" 32] by simp
qed

text \<open>The instruction \<^verbatim>\<open>pclmulqdq\<close>, as its documentation states it.\<close>

definition pclmul :: "u64 \<Rightarrow> u64 \<Rightarrow> m128" where
  "pclmul x y = (let p = cprod (ucast x :: 128 word) (ucast y) in (ucast p, ucast (drop_bit 64 p)))"

lemma join128_inject: "join128 a = join128 b \<Longrightarrow> a = b"
proof -
  assume eq: "join128 a = join128 b"
  have low: "bit (fst c) n = bit (join128 c) n" "bit (snd c) n = bit (join128 c) (n + 64)" if "n < 64" for c n
    using that by (auto simp: join128_def bit_simps dest: bit_imp_le_length)
  have "fst a = fst b" "snd a = snd b" by (rule bit_word_eqI, simp add: low eq)+
  then show ?thesis by (simp add: prod_eq_iff)
qed

lemma pclmul_cprod: "join128 (pclmul x y) = cprod (ucast x) (ucast y)"
proof -
  define X Y where "X = (ucast x :: 128 word)" and "Y = (ucast y :: 128 word)"
  have "\<not> bit X n" "\<not> bit Y n" if "64 \<le> n" for n
    using that by (auto simp: X_def Y_def bit_simps dest: bit_imp_le_length)
  then have "(ucast (cprod X Y) :: 256 word) = cprod (ucast X) (ucast Y)" by (intro ucast_cprod [where k = 64]) auto
  moreover have "(ucast X :: 256 word) = ucast x" "(ucast Y :: 256 word) = ucast y"
    by (rule bit_word_eqI, auto simp: X_def Y_def bit_simps dest: bit_imp_le_length)+
  moreover have "join128 (pclmul x y) = ucast (cprod X Y)"
    by (rule bit_word_eqI) (auto simp: join128_def pclmul_def X_def Y_def Let_def bit_simps dest: bit_imp_le_length)
  ultimately show ?thesis by simp
qed

text \<open>
  C14.  The table-driven multiplication of two words, three levels of divisions in halves over a table of products of bytes,
  the last by Karatsuba's identity, computes for all operands what the carry-less multiplication instruction computes.
\<close>

theorem software_clmul_correct: "mul_words x y = pclmul x y"
  by (rule join128_inject) (simp add: mul_words_cprod pclmul_cprod)

section \<open>Products of registers\<close>

definition join256 :: "m128 \<times> m128 \<Rightarrow> 256 word" where
  "join256 r = join128 (fst r) XOR push_bit 128 (join128 (snd r))"

definition clmul_ok :: "(u64 \<Rightarrow> u64 \<Rightarrow> m128) \<Rightarrow> bool" where
  "clmul_ok clmul \<longleftrightarrow> (\<forall>x y. join128 (clmul x y) = cprod (ucast x) (ucast y))"

lemma clmul_providers: "clmul_ok mul_words" "clmul_ok pclmul"
  by (simp_all add: clmul_ok_def mul_words_cprod pclmul_cprod)

lemma mul128_product:
  assumes "clmul_ok clmul"
  shows "join256 (mul128 clmul a b) = cprod (join128 a) (join128 b)"
proof -
  have clm: "join128 (clmul x y) = cprod (ucast x) (ucast y)" for x y using assms by (simp add: clmul_ok_def)
  define t where "t = m128_xor (clmul (fst a) (snd b)) (clmul (snd a) (fst b))"
  have t: "join128 t = cprod (ucast (fst a)) (ucast (snd b)) XOR cprod (ucast (snd a)) (ucast (fst b))"
    by (simp add: t_def join128_xor clm)
  have shift: "join128 (0, fst t) XOR push_bit 128 (join128 (snd t, 0)) = push_bit 64 (join128 t)"
    by (rule bit_word_eqI) (auto simp: join128_def bit_simps dest: bit_imp_le_length)
  have "mul128 clmul a b = (m128_xor (clmul (fst a) (fst b)) (0, fst t), m128_xor (clmul (snd a) (snd b)) (snd t, 0))"
    by (simp add: mul128_def get_half_def t_def Let_def)
  then have "join256 (mul128 clmul a b) = join128 (clmul (fst a) (fst b)) XOR (join128 (0, fst t) XOR push_bit 128 (join128 (snd t, 0))) XOR
      push_bit 128 (join128 (clmul (snd a) (snd b)))"
    by (simp add: join256_def join128_xor push_bit_xor xor_ac)
  also have "\<dots> = cprod (ucast (fst a)) (ucast (fst b)) XOR push_bit 64 (join128 t) XOR
      push_bit 128 (cprod (ucast (snd a)) (ucast (snd b)))"
    by (simp only: shift clm)
  also have "\<dots> = cprod (join128 a) (join128 b)"
    unfolding t by (simp add: join128_def cprod_linear xor_ac)
  finally show ?thesis .
qed

lemma join256_inject: "join256 r = join256 s \<Longrightarrow> r = s"
proof -
  assume eq: "join256 r = join256 s"
  have high: "\<not> bit (join128 a) n" if "128 \<le> n" for a n
    using that by (auto simp: join128_def bit_simps dest: bit_imp_le_length)
  have low: "bit (join128 (fst r)) n = bit (join256 r) n" "bit (join128 (snd r)) n = bit (join256 r) (n + 128)"
    if "n < 128" for r n
    using that high [of "n + 128"] by (simp_all add: join256_def bit_xor_iff bit_push_bit_iff)
  have "join128 (fst r) = join128 (fst s)"
  proof (rule bit_word_eqI)
    fix n show "bit (join128 (fst r)) n = bit (join128 (fst s)) n"
      using low(1) [of n r] low(1) [of n s] eq high [of n] by (cases "n < 128") simp_all
  qed
  moreover have "join128 (snd r) = join128 (snd s)"
  proof (rule bit_word_eqI)
    fix n show "bit (join128 (snd r)) n = bit (join128 (snd s)) n"
      using low(2) [of n r] low(2) [of n s] eq high [of n] by (cases "n < 128") simp_all
  qed
  ultimately have "fst r = fst s" "snd r = snd s" using join128_inject [of "fst r" "fst s"] join128_inject [of "snd r" "snd s"] by auto
  then show ?thesis by (rule prod_eqI)
qed

text \<open>The laws that the check of correlation needs.\<close>

definition pair_xor :: "m128 \<times> m128 \<Rightarrow> m128 \<times> m128 \<Rightarrow> m128 \<times> m128" where
  "pair_xor r s = (m128_xor (fst r) (fst s), m128_xor (snd r) (snd s))"

lemma join256_xor: "join256 (pair_xor r s) = join256 r XOR join256 s"
  by (simp add: join256_def pair_xor_def join128_xor push_bit_xor xor_ac)

lemma mul128_laws:
  assumes "clmul_ok clmul"
  shows "mul128 clmul a b = mul128 clmul b a"
    and "mul128 clmul (m128_xor a a') b = pair_xor (mul128 clmul a b) (mul128 clmul a' b)"
    and "mul128 clmul m128_zero b = (m128_zero, m128_zero)"
proof -
  show "mul128 clmul a b = mul128 clmul b a"
    by (rule join256_inject) (simp add: mul128_product [OF assms] cprod_commute)
  show "mul128 clmul (m128_xor a a') b = pair_xor (mul128 clmul a b) (mul128 clmul a' b)"
    by (rule join256_inject) (simp add: mul128_product [OF assms] join256_xor join128_xor cprod_xor_left)
  show "mul128 clmul m128_zero b = (m128_zero, m128_zero)"
  proof (rule join256_inject)
    have "join128 m128_zero = 0" by (simp add: join128_def m128_zero_def)
    then have "join256 (m128_zero, m128_zero) = 0" "join256 (mul128 clmul m128_zero b) = 0"
      by (simp add: join256_def, simp add: mul128_product [OF assms])
    then show "join256 (mul128 clmul m128_zero b) = join256 (m128_zero, m128_zero)" by simp
  qed
qed

end
