(* ===== verification/OT_Check.thy ===== *)
theory OT_Check
  imports Clmul Coin_Toss OT_Extension_Correct
begin

text \<open>
  The correlation check of \<^verbatim>\<open>OT/OTExtension.cpp\<close>, which an extension between active parties runs on the whole matrices, the
  rows included that are dropped afterwards.  The common generator, which the parties make by a coin toss, is an argument.
\<close>

section \<open>The check\<close>

definition eq_m128i :: "m128 \<Rightarrow> m128 \<Rightarrow> bool" where
  "eq_m128i a b \<longleftrightarrow> list_all (\<lambda>i. storeu a ! i = storeu b ! i) [0..<16]"

text \<open>\<^verbatim>\<open>get_receiver_output\<close> and \<^verbatim>\<open>get_sender_output\<close>.\<close>

definition matrix_row :: "bit_matrix \<Rightarrow> nat \<Rightarrow> m128 result" where
  "matrix_row M i = bind_result (vec_read M (i div 128)) (\<lambda>s. vec_read s (i mod 128))"

record check_sums =
  cs_x :: m128
  cs_t :: m128
  cs_t2 :: m128
  cs_q :: m128
  cs_q2 :: m128

definition no_sums :: check_sums where
  "no_sums = \<lparr>cs_x = m128_zero, cs_t = m128_zero, cs_t2 = m128_zero, cs_q = m128_zero, cs_q2 = m128_zero\<rparr>"

definition check_step :: "'k prng_build \<Rightarrow> (u64 \<Rightarrow> u64 \<Rightarrow> m128) \<Rightarrow> BitVector \<Rightarrow> 'k OTExtension \<Rightarrow>
    check_sums \<times> 'k PRNG \<Rightarrow> nat \<Rightarrow> (check_sums \<times> 'k PRNG) result" where
  "check_step b clmul receiverInput st = (\<lambda>(c, g) i.
    let (chii, g) = PRNG_get_doubleword b g in
    bind_result (if is_receiver (ot_role st)
      then bind_result (bv_get_bit receiverInput i) (\<lambda>a. bind_result (matrix_row (receiverOutputMatrix st) i) (\<lambda>ti.
        let (ti, ti2) = mul128 clmul ti chii in
        Inr (c\<lparr>cs_x := if a then m128_xor (cs_x c) chii else cs_x c,
          cs_t := m128_xor (cs_t c) ti, cs_t2 := m128_xor (cs_t2 c) ti2\<rparr>)))
      else Inr c) (\<lambda>c.
    bind_result (if is_sender (ot_role st)
      then bind_result (matrix_row (senderOutput0 st) i) (\<lambda>qi.
        let (qi, qi2) = mul128 clmul qi chii in
        Inr (c\<lparr>cs_q := m128_xor (cs_q c) qi, cs_q2 := m128_xor (cs_q2 c) qi2\<rparr>))
      else Inr c) (\<lambda>c. Inr (c, g))))"

definition get_m128 :: "octetStream \<Rightarrow> (m128 \<times> octetStream) result" where
  "get_m128 os = bind_result (consume 16 os) (\<lambda>(bs, os). Inr (loadu bs, os))"

text \<open>\<^verbatim>\<open>check_iteration\<close>: what the receiver sends, and what the sender does with it.\<close>

definition check_send :: "check_sums \<Rightarrow> octetStream result" where
  "check_send c = fold_result (\<lambda>os v. append (storeu v) os) empty_stream [cs_x c, cs_t c, cs_t2 c]"

definition check_receive :: "(u64 \<Rightarrow> u64 \<Rightarrow> m128) \<Rightarrow> m128 \<Rightarrow> check_sums \<Rightarrow> octetStream \<Rightarrow> unit result" where
  "check_receive clmul Dlt c os =
    bind_result (get_m128 os) (\<lambda>(received_x, os). bind_result (get_m128 os) (\<lambda>(received_t, os).
    bind_result (get_m128 os) (\<lambda>(received_t2, os).
    let (tmp1, tmp2) = mul128 clmul received_x Dlt;
        tmp1 = m128_xor tmp1 (cs_q c); tmp2 = m128_xor tmp2 (cs_q2 c)
    in if eq_m128i tmp1 received_t \<and> eq_m128i tmp2 received_t2 then Inr () else Inl (runtime_error ''correlation check''))))"

text \<open>\<open>toss\<close> is the result of \<^verbatim>\<open>GlobalPRNG\<close>.\<close>

definition check_correlation :: "'k prng_build \<Rightarrow> (u64 \<Rightarrow> u64 \<Rightarrow> m128) \<Rightarrow> 'k PRNG result \<Rightarrow> octetStream list \<Rightarrow>
    nat \<Rightarrow> BitVector \<Rightarrow> 'k OTExtension \<Rightarrow> octetStream list result" where
  "check_correlation b clmul toss incoming nOTs receiverInput st =
    (if nbaseOTs st \<noteq> 128 then Inl (runtime_error ''not implemented'')
     else bind_result toss (\<lambda>g.
       bind_result (fold_result (check_step b clmul receiverInput st) (no_sums, g) [0..<nOTs]) (\<lambda>(c, g).
       bind_result (if is_receiver (ot_role st) then bind_result (check_send c) (\<lambda>os. Inr [os]) else Inr []) (\<lambda>sent.
       bind_result (if is_sender (ot_role st)
         then case incoming of
             [] \<Rightarrow> Inl (runtime_error ''connection closed'')
           | os # _ \<Rightarrow> check_receive clmul (loadu (take 16 (bv_bytes (baseReceiverInput st)))) c os
         else Inr ()) (\<lambda>_. Inr sent)))))"

section \<open>Honest parties pass\<close>

lemma eq_m128i_iff: "eq_m128i a b \<longleftrightarrow> a = b"
proof
  assume "eq_m128i a b"
  then have "storeu a = storeu b" by (intro nth_equalityI) (auto simp: eq_m128i_def list_all_iff)
  then show "a = b" using loadu_storeu' by metis
qed (simp add: eq_m128i_def list_all_iff)

interpretation os_m128: Octet_Stream.codec "\<lambda>x. append (storeu x)" get_m128 "\<lambda>_. True"
proof
  fix x w
  assume "writable w"
  then obtain w' where w': "append (storeu x) w = Inr w'" "writable w'" "ahead w w'" "delivers w w' (consume 16) (storeu x)"
    using append_consume [of w "storeu x"] by auto
  then show "\<exists>w'. append (storeu x) w = Inr w' \<and> writable w' \<and> ahead w w' \<and> delivers w w' get_m128 x"
    using delivers_map [OF w'(4), of loadu] by (auto simp: get_m128_def [abs_def] loadu_storeu')
qed

lemma check_message:
  "\<exists>os os1 os2 os3. check_send c = Inr os \<and> get_m128 os = Inr (cs_x c, os1) \<and> get_m128 os1 = Inr (cs_t c, os2) \<and>
    get_m128 os2 = Inr (cs_t2 c, os3)"
proof -
  let ?xs = "[cs_x c, cs_t c, cs_t2 c]"
  have data: "\<exists>m. fold_result (\<lambda>w x. append (storeu x) w) w xs =
      Inr (w\<lparr>os_data := os_data w @ concat (map storeu xs), os_mxlen := m\<rparr>)"
    if "writable w" "bits_n (os_wbits w) = 0" for w xs
    using that
  proof (induction xs arbitrary: w)
    case Nil
    then show ?case by (intro exI [of _ "os_mxlen w"]) simp
  next
    case (Cons x xs)
    obtain m where m: "append (storeu x) w = Inr (w\<lparr>os_data := os_data w @ storeu x, os_mxlen := m\<rparr>)" (is "_ = Inr ?w")
      using append_ok [OF Cons.prems(1), of "storeu x"] Cons.prems(2) by (auto simp: flushed_def)
    have "writable ?w" using os_m128.put_get [OF _ Cons.prems(1), of x] m by auto
    then obtain m' where "fold_result (\<lambda>w x. append (storeu x) w) ?w xs =
        Inr (?w\<lparr>os_data := os_data ?w @ concat (map storeu xs), os_mxlen := m'\<rparr>)"
      using Cons.IH [of ?w] Cons.prems(2) by auto
    then show ?case using m by auto
  qed
  obtain m where m: "check_send c = Inr (empty_stream\<lparr>os_data := concat (map storeu ?xs), os_mxlen := m\<rparr>)" (is "_ = Inr ?os")
    using data [OF writable_empty, of ?xs] unfolding check_send_def by (auto simp: empty_stream_def)
  then have "delivers empty_stream ?os (get_items get_m128 (length ?xs)) ?xs"
    using os_m128.items [OF _ writable_empty(1), of ?xs] unfolding check_send_def by auto
  then have "\<exists>r. get_items get_m128 (length ?xs) ?os = Inr (?xs, r)"
    by (rule fresh_delivers) (simp_all add: empty_stream_def no_bits_def)
  then show ?thesis using m by (auto simp: numeral_eq_Suc bind_result_Inr_iff)
qed

lemma sums_agree:
  assumes "clmul_ok clmul" "ot_role R = RECEIVER" "ot_role S = SENDER" "wf_bv x" "n \<le> bv_nbits x"
    and "\<And>i. i < n \<Longrightarrow> matrix_row (receiverOutputMatrix R) i = Inr (t i) \<and> matrix_row (senderOutput0 S) i = Inr (q i) \<and>
      t i = m128_xor (q i) (if bv_bit x i then D else m128_zero)"
  shows "\<exists>cr cq g'. fold_result (check_step b clmul x R) (no_sums, g) [0..<n] = Inr (cr, g') \<and>
    fold_result (check_step b clmul y S) (no_sums, g) [0..<n] = Inr (cq, g') \<and>
    (cs_t cr, cs_t2 cr) = pair_xor (mul128 clmul (cs_x cr) D) (cs_q cq, cs_q2 cq)"
  using assms(5,6)
proof (induction n)
  case 0
  show ?case by (simp add: no_sums_def mul128_laws(3) [OF assms(1)] pair_xor_def)
next
  case (Suc n)
  have "\<exists>cr cq g'. fold_result (check_step b clmul x R) (no_sums, g) [0..<n] = Inr (cr, g') \<and>
      fold_result (check_step b clmul y S) (no_sums, g) [0..<n] = Inr (cq, g') \<and>
      (cs_t cr, cs_t2 cr) = pair_xor (mul128 clmul (cs_x cr) D) (cs_q cq, cs_q2 cq)"
    using Suc.IH Suc.prems by simp
  then obtain cr cq g1 where IH: "fold_result (check_step b clmul x R) (no_sums, g) [0..<n] = Inr (cr, g1)"
    "fold_result (check_step b clmul y S) (no_sums, g) [0..<n] = Inr (cq, g1)"
    "(cs_t cr, cs_t2 cr) = pair_xor (mul128 clmul (cs_x cr) D) (cs_q cq, cs_q2 cq)" by blast
  obtain chi g2 where chi: "PRNG_get_doubleword b g1 = (chi, g2)" by fastforce
  obtain qa qb where qs: "mul128 clmul (q n) chi = (qa, qb)" by (metis surj_pair)
  obtain ta tb where ts: "mul128 clmul (t n) chi = (ta, tb)" by (metis surj_pair)
  note row = Suc.prems(2) [OF lessI]
  let ?a = "bv_bit x n"
  let ?cr = "cr\<lparr>cs_x := if ?a then m128_xor (cs_x cr) chi else cs_x cr, cs_t := m128_xor (cs_t cr) ta, cs_t2 := m128_xor (cs_t2 cr) tb\<rparr>"
  let ?cq = "cq\<lparr>cs_q := m128_xor (cs_q cq) qa, cs_q2 := m128_xor (cs_q2 cq) qb\<rparr>"
  have "check_step b clmul x R (cr, g1) n = Inr (?cr, g2)" "check_step b clmul y S (cq, g1) n = Inr (?cq, g2)"
    using assms(2-4) Suc.prems(1) conjunct1 [OF row] conjunct1 [OF conjunct2 [OF row]]
    by (simp_all add: check_step_def chi is_receiver_def is_sender_def bv_get_bit_Inr qs ts)
  moreover have "(cs_t ?cr, cs_t2 ?cr) = pair_xor (mul128 clmul (cs_x ?cr) D) (cs_q ?cq, cs_q2 ?cq)"
  proof (cases ?a)
    case True
    have "(ta, tb) = pair_xor (qa, qb) (mul128 clmul D chi)"
      using row True mul128_laws(2) [OF assms(1), of "q n" D chi] qs ts by simp
    moreover have "mul128 clmul (m128_xor (cs_x cr) chi) D = pair_xor (mul128 clmul (cs_x cr) D) (mul128 clmul D chi)"
      using mul128_laws(2) [OF assms(1), of "cs_x cr" chi D] mul128_laws(1) [OF assms(1), of chi D] by simp
    ultimately show ?thesis using IH(3) True by (simp add: pair_xor_def xor_ac)
  next
    case False
    then have "(ta, tb) = (qa, qb)" using row qs ts by simp
    then show ?thesis using IH(3) False by (simp add: pair_xor_def xor_ac)
  qed
  ultimately show ?case using IH(1,2) by (simp add: fold_result_append)
qed

text \<open>
  C15.  Honest parties pass the correlation check.  When the rows of the two sides are correlated as the extension leaves them,
  and both parties follow the coin toss: the receiver's part sends its message, and the sender's part accepts it, with the
  table-driven multiplication and with the instruction.
\<close>

theorem check_correlation_complete:
  assumes "clmul_ok clmul" "ot_ready R" "ot_role R = RECEIVER" "ot_ready S" "ot_role S = SENDER" "wf_bv x" "n \<le> bv_nbits x"
    and "n \<le> 128 * length (receiverOutputMatrix R)" "n \<le> 128 * length (senderOutput0 S)"
    and "\<forall>i < n. bm_row (receiverOutputMatrix R) i =
      m128_xor (bm_row (senderOutput0 S) i) (if bv_bit x i then bv_register (baseReceiverInput S) else m128_zero)"
    and "honest_toss H b 2 toss" "\<forall>seed. length seed = 16 \<longrightarrow> (\<exists>g. PRNG_SetSeed b seed = Inr g)" "p < 2" "p' < 2"
  shows "\<exists>os. check_correlation b clmul (toss_result H b 2 toss p) incoming n x R = Inr [os] \<and>
    check_correlation b clmul (toss_result H b 2 toss p') [os] n y S = Inr []"
proof -
  let ?D = "bv_register (baseReceiverInput S)"
  obtain g where g: "toss_result H b 2 toss p = Inr g" "toss_result H b 2 toss p' = Inr g"
    using honest_toss_result [OF assms(11)] assms(12-14) by blast
  have row: "matrix_row M i = Inr (bm_row M i)" if "wf_matrix M" "n \<le> 128 * length M" "i < n" for M i
  proof -
    have i: "i div 128 < length M" using that(2,3) by (simp add: div_less_iff_less_mult mult.commute)
    then show ?thesis using wf_matrix_nth [OF that(1) i] by (simp add: matrix_row_def bm_row_def)
  qed
  have "\<exists>cr cq g'. fold_result (check_step b clmul x R) (no_sums, g) [0..<n] = Inr (cr, g') \<and>
      fold_result (check_step b clmul y S) (no_sums, g) [0..<n] = Inr (cq, g') \<and>
      (cs_t cr, cs_t2 cr) = pair_xor (mul128 clmul (cs_x cr) ?D) (cs_q cq, cs_q2 cq)"
    by (rule sums_agree [OF assms(1,3,5,6,7), where t = "bm_row (receiverOutputMatrix R)" and q = "bm_row (senderOutput0 S)"])
      (use assms(2,4,8-10) row in \<open>simp add: ot_ready_def\<close>)
  then obtain cr cq g' where sums: "fold_result (check_step b clmul x R) (no_sums, g) [0..<n] = Inr (cr, g')"
    "fold_result (check_step b clmul y S) (no_sums, g) [0..<n] = Inr (cq, g')"
    "(cs_t cr, cs_t2 cr) = pair_xor (mul128 clmul (cs_x cr) ?D) (cs_q cq, cs_q2 cq)" by blast
  obtain os os1 os2 os3 where os: "check_send cr = Inr os" "get_m128 os = Inr (cs_x cr, os1)" "get_m128 os1 = Inr (cs_t cr, os2)"
    "get_m128 os2 = Inr (cs_t2 cr, os3)" using check_message by blast
  have D: "loadu (take 16 (bv_bytes (baseReceiverInput S))) = ?D"
    using assms(4) by (simp add: bv_register_def ot_ready_def wf_bv_def div_ceil_def)
  have "check_receive clmul ?D cq os = Inr ()"
    using sums(3) by (simp add: check_receive_def os(2-4) eq_m128i_iff pair_xor_def split: prod.splits)
  then show ?thesis
    using assms(2-5) sums(1,2) os(1) D
    by (simp add: check_correlation_def ot_ready_def is_receiver_def is_sender_def g)
qed

lemma check_correlation_complete_witness:
  "\<exists>os.
    check_correlation build_c mul_words (toss_result (take 16) build_c 2 demo_toss 0) [] 2 \<lparr>bv_bytes = [1], bv_nbits = 2\<rparr> ((demo_extension RECEIVER)\<lparr>
      receiverOutputMatrix := [bv_register (baseReceiverInput (demo_extension SENDER)) # replicate 127 m128_zero]\<rparr>) = Inr [os] \<and>
    check_correlation build_c mul_words (toss_result (take 16) build_c 2 demo_toss 1) [os] 2 (bv_zero 0) ((demo_extension SENDER)\<lparr>
      senderOutput0 := [replicate 128 m128_zero]\<rparr>) = Inr []"
proof -
  let ?x = "\<lparr>bv_bytes = [1], bv_nbits = 2\<rparr>"
  let ?R = "(demo_extension RECEIVER)\<lparr>
    receiverOutputMatrix := [bv_register (baseReceiverInput (demo_extension SENDER)) # replicate 127 m128_zero]\<rparr>"
  let ?S = "(demo_extension SENDER)\<lparr>senderOutput0 := [replicate 128 m128_zero]\<rparr>"
  have states: "ot_ready ?R" "ot_role ?R = RECEIVER" "ot_ready ?S" "ot_role ?S = SENDER" "wf_bv ?x" "2 \<le> bv_nbits ?x"
    "2 \<le> 128 * length (receiverOutputMatrix ?R)" "2 \<le> 128 * length (senderOutput0 ?S)"
    by (simp_all add: demo_extension_def ot_ready_def wf_bv_def div_ceil_def wf_matrix_def wf_square_def)
  have "bm_row (receiverOutputMatrix ?R) i = m128_xor (bm_row (senderOutput0 ?S) i)
      (if bv_bit ?x i then bv_register (baseReceiverInput ?S) else m128_zero)" if i: "i < 2" for i
  proof -
    consider "i = 0" | "i = 1" using i by linarith
    then show ?thesis by cases (simp_all add: bm_row_def bv_bit_def m128_xor_def m128_zero_def demo_extension_def bit_1_iff)
  qed
  moreover have "\<forall>seed. length seed = 16 \<longrightarrow> (\<exists>g. PRNG_SetSeed build_c seed = Inr g)"
    by (simp add: PRNG_SetSeed_def build_c_def)
  ultimately show ?thesis
    using check_correlation_complete [OF clmul_providers(1) states _ demo_toss_honest, of 0 1] by simp
qed

end
