(* ===== verification/Base_OT.thy ===== *)
theory Base_OT
  imports OT_Extension
begin

text \<open>
  Base transfers: \<^verbatim>\<open>OT/BaseOT.h\<close> and \<^verbatim>\<open>OT/BaseOT.cpp\<close>, with the transfer over Kyber of \<^verbatim>\<open>OT/KyberOT.c\<close> and the insecure
  \<^verbatim>\<open>FakeOT\<close>, and the construction of the extension from them in \<^verbatim>\<open>OT/OTExtension.h\<close> and \<^verbatim>\<open>OT/OTExtensionWithMatrix.cpp\<close>.
  The lattice cryptosystem, SHA-3 and the hash of libsodium are parameters.
\<close>

section \<open>Vectors of bits on the wire\<close>

definition bv_pack :: "BitVector \<Rightarrow> octetStream \<Rightarrow> octetStream result" where
  "bv_pack v os = bind_result (store_int (word_of_nat (bv_nbits v)) 8 os) (append (bv_bytes v))"

definition bv_unpack :: "octetStream \<Rightarrow> (BitVector \<times> octetStream) result" where
  "bv_unpack os = bind_result (os_get_int 8 os) (\<lambda>(n, os).
    bind_result (consume (word_of_nat (div_ceil (unat n) 8)) os) (\<lambda>(bs, os).
    Inr (\<lparr>bv_bytes = bs, bv_nbits = unat n\<rparr>, os)))"

definition bv_randomize :: "'k prng_build \<Rightarrow> BitVector \<Rightarrow> 'k PRNG \<Rightarrow> BitVector \<times> 'k PRNG" where
  "bv_randomize b v g = (let (bs, g) = PRNG_get_octets b (length (bv_bytes v)) g in (v\<lparr>bv_bytes := bs\<rparr>, g))"

text \<open>\<open>set_byte\<close> for the bytes of a block.\<close>

definition bv_set_block :: "u8 list \<Rightarrow> BitVector \<Rightarrow> BitVector result" where
  "bv_set_block bs v =
    (if length bs < 16 \<or> length (bv_bytes v) < 16 then Inl undefined_access
     else Inr (v\<lparr>bv_bytes := take 16 bs @ drop 16 (bv_bytes v)\<rparr>))"

text \<open>The shift of \<^verbatim>\<open>int128\<close> to the right, from shifts of the lanes.\<close>

definition int128_shr :: "m128 \<Rightarrow> nat \<Rightarrow> m128" where
  "int128_shr a i =
    (let res = (drop_bit i (fst a), drop_bit i (snd a));
         mask = (if i < 64 then (push_bit (64 - i) (fst a), push_bit (64 - i) (snd a))
                 else (drop_bit (i - 64) (fst a), drop_bit (i - 64) (snd a)))
     in m128_xor res (snd mask, 0))"

section \<open>State\<close>

record 'k BaseOT =
  receiver_inputs :: BitVector
  sender_inputs :: "(BitVector \<times> BitVector) list"
  receiver_outputs :: "BitVector list"
  nOT :: nat
  base_role :: OT_ROLE
  base_G_sender :: "('k PRNG \<times> 'k PRNG) list"
  base_G_receiver :: "'k PRNG list"

text \<open>The constructor; \<open>mem\<close> is the content of the memory that \<^verbatim>\<open>resize\<close> leaves uninitialised.\<close>

definition BaseOT_new :: "u8 list \<Rightarrow> nat \<Rightarrow> OT_ROLE \<Rightarrow> 'k BaseOT" where
  "BaseOT_new mem n role = \<lparr>receiver_inputs = \<lparr>bv_bytes = mem, bv_nbits = n\<rparr>,
    sender_inputs = replicate n (bv_zero 128, bv_zero 128), receiver_outputs = replicate n (bv_zero 128),
    nOT = n, base_role = role, base_G_sender = [], base_G_receiver = []\<rparr>"

definition set_receiver_inputs :: "BitVector \<Rightarrow> 'k BaseOT \<Rightarrow> 'k BaseOT result" where
  "set_receiver_inputs v st =
    (if bv_nbits v \<noteq> nOT st then Inl (runtime_error ''BaseOT'') else Inr (st\<lparr>receiver_inputs := v\<rparr>))"

definition bits_of_int128 :: "m128 \<Rightarrow> BitVector result" where
  "bits_of_int128 a = fold_result (\<lambda>v i. bv_set_bit v i (fst (int128_shr a i) AND 1 \<noteq> 0)) (bv_zero 128) [0..<128]"

definition set_receiver_inputs_int128 :: "m128 \<Rightarrow> 'k BaseOT \<Rightarrow> 'k BaseOT result" where
  "set_receiver_inputs_int128 a st = bind_result (bits_of_int128 a) (\<lambda>v. set_receiver_inputs v st)"

section \<open>Seeds and lengths\<close>

definition hash_with_id :: "(u8 list \<Rightarrow> nat \<Rightarrow> u8 list) \<Rightarrow> nat \<Rightarrow> BitVector \<Rightarrow> BitVector result" where
  "hash_with_id H i v =
    (if length (bv_bytes v) < 16 then Inl (exit_failure ''assertion failed'')
     else Inr (v\<lparr>bv_bytes := H (bv_bytes v @ u64_bytes (word_of_nat i)) (length (bv_bytes v))\<rparr>))"

definition set_seeds :: "'k prng_build \<Rightarrow> 'k BaseOT \<Rightarrow> 'k BaseOT result" where
  "set_seeds b st =
    bind_result (if is_sender (base_role st)
      then map_result (\<lambda>i. bind_result (vec_read (sender_inputs st) i) (\<lambda>(v0, v1).
        bind_result (PRNG_SetSeed b (bv_bytes v0)) (\<lambda>g0.
        bind_result (PRNG_SetSeed b (bv_bytes v1)) (\<lambda>g1. Inr (g0, g1))))) [0..<nOT st]
      else Inr (base_G_sender st)) (\<lambda>gs.
    bind_result (if is_receiver (base_role st)
      then map_result (\<lambda>i. bind_result (vec_read (receiver_outputs st) i) (\<lambda>v. PRNG_SetSeed b (bv_bytes v))) [0..<nOT st]
      else Inr (base_G_receiver st)) (\<lambda>gr.
    Inr (st\<lparr>base_G_sender := gs, base_G_receiver := gr\<rparr>)))"

definition randomize_pair :: "'k prng_build \<Rightarrow> (BitVector \<times> BitVector) \<times> ('k PRNG \<times> 'k PRNG) \<Rightarrow>
    (BitVector \<times> BitVector) \<times> ('k PRNG \<times> 'k PRNG)" where
  "randomize_pair b = (\<lambda>((v0, v1), (g0, g1)).
    let (v0, g0) = bv_randomize b v0 g0; (v1, g1) = bv_randomize b v1 g1 in ((v0, v1), (g0, g1)))"

definition extend_length :: "'k prng_build \<Rightarrow> 'k BaseOT \<Rightarrow> 'k BaseOT" where
  "extend_length b st =
    (let ps = map (randomize_pair b) (zip (sender_inputs st) (base_G_sender st));
         rs = map (\<lambda>(v, g). bv_randomize b v g) (zip (receiver_outputs st) (base_G_receiver st));
         st = (if is_sender (base_role st) then st\<lparr>sender_inputs := map fst ps, base_G_sender := map snd ps\<rparr> else st)
     in if is_receiver (base_role st) then st\<lparr>receiver_outputs := map fst rs, base_G_receiver := map snd rs\<rparr> else st)"

definition seed_and_extend :: "'k prng_build \<Rightarrow> 'k BaseOT \<Rightarrow> 'k BaseOT result" where
  "seed_and_extend b st = bind_result (set_seeds b st) (\<lambda>st. Inr (extend_length b st))"

text \<open>New random choice bits, where they are asked for.\<close>

definition new_choice :: "'k prng_build \<Rightarrow> nat \<Rightarrow> 'k BaseOT \<times> 'k PRNG \<Rightarrow> ('k BaseOT \<times> 'k PRNG) result" where
  "new_choice b i = (\<lambda>(st, g). let (x, g) = PRNG_get_uchar b g in
    bind_result (bv_set_bit (receiver_inputs st) i (x AND 1 \<noteq> 0)) (\<lambda>v. Inr (st\<lparr>receiver_inputs := v\<rparr>, g)))"

section \<open>The insecure transfer\<close>

text \<open>The sender's side: both inputs of every transfer are random, and are sent.\<close>

definition FakeOT_send :: "'k prng_build \<Rightarrow> 'k PRNG \<Rightarrow> 'k BaseOT \<Rightarrow> ('k BaseOT \<times> 'k PRNG \<times> octetStream) result" where
  "FakeOT_send b g st = fold_result (\<lambda>(st, g, os) i. bind_result (vec_read (sender_inputs st) i) (\<lambda>(v0, v1).
      let (v0, g) = bv_randomize b v0 g in bind_result (bv_pack v0 os) (\<lambda>os.
      let (v1, g) = bv_randomize b v1 g in bind_result (bv_pack v1 os) (\<lambda>os.
      Inr (st\<lparr>sender_inputs := (sender_inputs st)[i := (v0, v1)]\<rparr>, g, os)))))
    (st, g, empty_stream) [0..<nOT st]"

definition FakeOT_receive :: "octetStream \<Rightarrow> 'k BaseOT \<Rightarrow> 'k BaseOT result" where
  "FakeOT_receive os st = bind_result (fold_result (\<lambda>(st, os) i.
      bind_result (bv_unpack os) (\<lambda>(v0, os). bind_result (bv_unpack os) (\<lambda>(v1, os).
      bind_result (bv_get_bit (receiver_inputs st) i) (\<lambda>c.
      bind_result (vec_write (receiver_outputs st) i (if c then v1 else v0)) (\<lambda>vs.
      Inr (st\<lparr>receiver_outputs := vs\<rparr>, os))))))
    (st, os) [0..<nOT st]) (\<lambda>(st, os). Inr st)"

text \<open>\<open>incoming\<close> is the message of the other side; what this side sends is returned.\<close>

definition FakeOT_exec_base ::
  "'k prng_build \<Rightarrow> bool \<Rightarrow> 'k PRNG \<Rightarrow> octetStream list \<Rightarrow> 'k BaseOT \<Rightarrow> ('k BaseOT \<times> octetStream list) result" where
  "FakeOT_exec_base b new_receiver_inputs g incoming st =
    bind_result (if is_receiver (base_role st) \<and> new_receiver_inputs
      then fold_result (\<lambda>sg i. new_choice b i sg) (st, g) [0..<nOT st] else Inr (st, g)) (\<lambda>(st, g).
    bind_result (if is_sender (base_role st)
      then bind_result (FakeOT_send b g st) (\<lambda>(st, g, os). Inr (st, [os])) else Inr (st, [])) (\<lambda>(st, sent).
    bind_result (if is_receiver (base_role st)
      then case incoming of
          [] \<Rightarrow> Inl (runtime_error ''connection closed'')
        | os # _ \<Rightarrow> FakeOT_receive os st
      else Inr st) (\<lambda>st.
    bind_result (seed_and_extend b st) (\<lambda>st. Inr (st, sent)))))"

end
