(* ===== verification/Kyber_OT.thy ===== *)
theory Kyber_OT
  imports Base_OT
begin

text \<open>
  The base transfer that the program runs: the transfer over Kyber of \<^verbatim>\<open>OT/KyberOT.c\<close> and \<^verbatim>\<open>BaseOT::exec_base\<close> of
  \<^verbatim>\<open>OT/BaseOT.cpp\<close>, which runs it 128 times.  The transfer itself is correct; the way \<^verbatim>\<open>exec_base\<close> uses it is not.
\<close>

section \<open>One transfer\<close>

text \<open>
  The functions of the vendored lattice code (\<^verbatim>\<open>indcpa.c\<close>, with its assembler parts, and \<^verbatim>\<open>fips202.c\<close>).  A public key is
  a vector of polynomials and the seed of the matrix.
\<close>

record lattice =
  indcpa_keypair :: "u8 list \<Rightarrow> u8 list \<times> u8 list"
  indcpa_enc :: "u8 list \<Rightarrow> u8 list \<Rightarrow> u8 list \<Rightarrow> u8 list"
  indcpa_dec :: "u8 list \<Rightarrow> u8 list \<Rightarrow> u8 list"
  randomPK :: "u8 list \<Rightarrow> u8 list \<Rightarrow> u8 list"
  pkPlus :: "u8 list \<Rightarrow> u8 list \<Rightarrow> u8 list"
  pkMinus :: "u8 list \<Rightarrow> u8 list \<Rightarrow> u8 list"
  sha3_256 :: "u8 list \<Rightarrow> u8 list"

definition PKlengthsmall :: nat where
  "PKlengthsmall = 1248"

definition PKlength :: nat where
  "PKlength = 1280"

definition CTlength :: nat where
  "CTlength = 1664"

record KyberOTRecver =
  kr_secretKey :: "u8 list"
  kr_rot :: "u8 list"
  kr_b :: bool

definition pkHash :: "lattice \<Rightarrow> u8 list \<Rightarrow> u8 list \<Rightarrow> u8 list" where
  "pkHash K pk publicseed = randomPK K (sha3_256 K (take PKlengthsmall pk)) publicseed"

text \<open>What \<^verbatim>\<open>randombytes\<close> returns is an argument.\<close>

definition KyberReceiverMessage ::
  "lattice \<Rightarrow> u8 list \<Rightarrow> u8 list \<Rightarrow> KyberOTRecver \<Rightarrow> KyberOTRecver \<times> u8 list \<times> u8 list" where
  "KyberReceiverMessage K coins seed recver =
    (let (pk, sk) = indcpa_keypair K coins;
         other = randomPK K seed (drop PKlengthsmall pk);
         h = pkHash K other (drop PKlengthsmall pk);
         mine = pkMinus K pk h
     in (recver\<lparr>kr_secretKey := sk\<rparr>, if kr_b recver then (other, mine) else (mine, other)))"

definition KyberSenderMessage ::
  "lattice \<Rightarrow> u8 list \<Rightarrow> u8 list \<Rightarrow> u8 list \<times> u8 list \<Rightarrow> u8 list \<times> u8 list \<Rightarrow> u8 list \<times> u8 list" where
  "KyberSenderMessage K coins0 coins1 = (\<lambda>(sot0, sot1) (key0, key1).
    (indcpa_enc K sot0 (pkPlus K key0 (pkHash K key1 (drop PKlengthsmall key0))) coins0,
     indcpa_enc K sot1 (pkPlus K key1 (pkHash K key0 (drop PKlengthsmall key0))) coins1))"

definition KyberReceiverStrings :: "lattice \<Rightarrow> u8 list \<times> u8 list \<Rightarrow> KyberOTRecver \<Rightarrow> KyberOTRecver" where
  "KyberReceiverStrings K ctxt recver =
    recver\<lparr>kr_rot := indcpa_dec K (if kr_b recver then snd ctxt else fst ctxt) (kr_secretKey recver)\<rparr>"

text \<open>
  What the transfer relies on: a difference of keys can be undone, and the operations put the seed where the code expects
  it.  Decryption inverts encryption up to a failure of small probability, so that it is stated of given coins.
\<close>

definition lattice_ok :: "lattice \<Rightarrow> bool" where
  "lattice_ok K \<longleftrightarrow>
    (\<forall>pk h. length pk = PKlength \<longrightarrow> length h = PKlength \<longrightarrow> drop PKlengthsmall pk = drop PKlengthsmall h \<longrightarrow>
      pkPlus K (pkMinus K pk h) h = pk) \<and>
    (\<forall>pk h. length pk = PKlength \<longrightarrow> length h = PKlength \<longrightarrow> drop PKlengthsmall (pkMinus K pk h) = drop PKlengthsmall h) \<and>
    (\<forall>seed ps. length ps = 32 \<longrightarrow> length (randomPK K seed ps) = PKlength \<and> drop PKlengthsmall (randomPK K seed ps) = ps) \<and>
    (\<forall>coins. length (fst (indcpa_keypair K coins)) = PKlength)"

definition decrypts :: "lattice \<Rightarrow> u8 list \<Rightarrow> u8 list \<Rightarrow> u8 list \<Rightarrow> bool" where
  "decrypts K key_coins m coins \<longleftrightarrow>
    indcpa_dec K (indcpa_enc K m (fst (indcpa_keypair K key_coins)) coins) (snd (indcpa_keypair K key_coins)) = m"

section \<open>All transfers\<close>

text \<open>The receiver's first message: a pair of keys for every choice bit.  The one \<^verbatim>\<open>recver\<close> is written anew each time.\<close>

definition send_keys :: "'k prng_build \<Rightarrow> lattice \<Rightarrow> bool \<Rightarrow> (nat \<Rightarrow> u8 list \<times> u8 list) \<Rightarrow>
    'k BaseOT \<times> 'k PRNG \<times> KyberOTRecver \<times> octetStream \<Rightarrow> nat \<Rightarrow> ('k BaseOT \<times> 'k PRNG \<times> KyberOTRecver \<times> octetStream) result" where
  "send_keys b K new_receiver_inputs rnd = (\<lambda>(st, g, recver, os) i.
    bind_result (if new_receiver_inputs then new_choice b i (st, g) else Inr (st, g)) (\<lambda>(st, g).
    bind_result (bv_get_bit (receiver_inputs st) i) (\<lambda>cs.
    let (recver, key0, key1) = KyberReceiverMessage K (fst (rnd i)) (snd (rnd i)) (recver\<lparr>kr_b := cs\<rparr>) in
    bind_result (store_bytes (key0 @ key1) os) (\<lambda>os. Inr (st, g, recver, os)))))"

text \<open>The sender's answer: two random strings, encrypted; \<open>packs\<close> collects the pairs of ciphertexts.\<close>

definition answer_keys :: "lattice \<Rightarrow> (nat \<Rightarrow> (u8 list \<times> u8 list) \<times> (u8 list \<times> u8 list)) \<Rightarrow>
    'k BaseOT \<times> octetStream \<times> u8 list list \<Rightarrow> nat \<Rightarrow> ('k BaseOT \<times> octetStream \<times> u8 list list) result" where
  "answer_keys K rnd = (\<lambda>(st, os, packs) i.
    bind_result (get_bytes os) (\<lambda>(Rs, os).
    if length Rs \<noteq> 2 * PKlength then Inl (exit_failure ''Received invalid length in base OT'')
    else let ((sot0, sot1), (coins0, coins1)) = rnd i;
             (c0, c1) = KyberSenderMessage K coins0 coins1 (sot0, sot1) (take PKlength Rs, drop PKlength Rs)
      in bind_result (vec_read (sender_inputs st) i) (\<lambda>(v0, v1).
         bind_result (bv_set_block sot0 v0) (\<lambda>v0. bind_result (bv_set_block sot1 v1) (\<lambda>v1.
         Inr (st\<lparr>sender_inputs := (sender_inputs st)[i := (v0, v1)]\<rparr>, os, packs @ [c0 @ c1]))))))"

text \<open>
  The receiver's last step.  It reads the ciphertexts into \<^verbatim>\<open>Sr_pack[1]\<close>, but decrypts \<^verbatim>\<open>Sr_pack[0]\<close>, the array of its
  own ciphertexts \<open>own\<close>, with the one \<^verbatim>\<open>recver\<close> that the first loop left.
\<close>

definition open_strings :: "lattice \<Rightarrow> (nat \<Rightarrow> u8 list) \<Rightarrow>
    'k BaseOT \<times> KyberOTRecver \<times> octetStream \<Rightarrow> nat \<Rightarrow> ('k BaseOT \<times> KyberOTRecver \<times> octetStream) result" where
  "open_strings K own = (\<lambda>(st, recver, os) i.
    bind_result (get_bytes os) (\<lambda>(Sr, os).
    if length Sr \<noteq> 2 * CTlength then Inl (exit_failure ''Received invalid length in base OT'')
    else let recver = KyberReceiverStrings K (take CTlength (own i), drop CTlength (own i)) recver
      in bind_result (vec_read (receiver_outputs st) i) (\<lambda>v. bind_result (bv_set_block (kr_rot recver) v) (\<lambda>v.
         Inr (st\<lparr>receiver_outputs := (receiver_outputs st)[i := v]\<rparr>, recver, os)))))"

definition hash_all :: "(u8 list \<Rightarrow> nat \<Rightarrow> u8 list) \<Rightarrow> 'k BaseOT \<Rightarrow> 'k BaseOT result" where
  "hash_all H st = fold_result (\<lambda>st i.
    bind_result (if is_receiver (base_role st)
      then bind_result (vec_read (receiver_outputs st) i) (\<lambda>v. bind_result (hash_with_id H i v) (\<lambda>v.
        Inr (st\<lparr>receiver_outputs := (receiver_outputs st)[i := v]\<rparr>)))
      else Inr st) (\<lambda>st.
    if is_sender (base_role st)
      then bind_result (vec_read (sender_inputs st) i) (\<lambda>(v0, v1).
        bind_result (hash_with_id H i v0) (\<lambda>v0. bind_result (hash_with_id H i v1) (\<lambda>v1.
        Inr (st\<lparr>sender_inputs := (sender_inputs st)[i := (v0, v1)]\<rparr>))))
      else Inr st)) st [0..<nOT st]"

record 'k base_randomness =
  br_G :: "'k PRNG"
  br_receiver :: "nat \<Rightarrow> u8 list \<times> u8 list"
  br_sender :: "nat \<Rightarrow> (u8 list \<times> u8 list) \<times> (u8 list \<times> u8 list)"

text \<open>
  \<open>in_keys\<close> and \<open>in_texts\<close> are the messages of the other side.  \<open>mem\<close> is what the array \<^verbatim>\<open>Sr_pack[0]\<close> on the stack holds
  before it is written, and \<open>recver\<close> the variable \<^verbatim>\<open>recver\<close>: both are uninitialised.
\<close>

definition exec_base :: "'k prng_build \<Rightarrow> lattice \<Rightarrow> (u8 list \<Rightarrow> nat \<Rightarrow> u8 list) \<Rightarrow> 'k base_randomness \<Rightarrow>
    (nat \<Rightarrow> u8 list) \<Rightarrow> KyberOTRecver \<Rightarrow> bool \<Rightarrow> octetStream \<Rightarrow> octetStream \<Rightarrow> 'k BaseOT \<Rightarrow>
    ('k BaseOT \<times> octetStream list) result" where
  "exec_base b K H rnd mem recver new_receiver_inputs in_keys in_texts st =
    bind_result (if is_receiver (base_role st)
      then bind_result (fold_result (send_keys b K new_receiver_inputs (br_receiver rnd))
        (st, br_G rnd, recver, empty_stream) [0..<nOT st]) (\<lambda>(st, g, recver, os). Inr (st, recver, [os]))
      else Inr (st, recver, [])) (\<lambda>(st, recver, keys).
    bind_result (if is_sender (base_role st)
      then bind_result (fold_result (answer_keys K (br_sender rnd)) (st, in_keys, []) [0..<nOT st]) (\<lambda>(st, os, packs).
        bind_result (fold_result (\<lambda>os p. store_bytes p os) empty_stream packs) (\<lambda>os. Inr (st, packs, [os])))
      else Inr (st, [], [])) (\<lambda>(st, packs, texts).
    bind_result (if is_receiver (base_role st)
      then bind_result (fold_result (open_strings K (\<lambda>i. if is_sender (base_role st) then packs ! i else mem i))
        (st, recver, in_texts) [0..<nOT st]) (\<lambda>(st, recver, os). Inr st)
      else Inr st) (\<lambda>st.
    bind_result (hash_all H st) (\<lambda>st.
    bind_result (seed_and_extend b st) (\<lambda>st. Inr (st, keys @ texts))))))"

section \<open>Properties\<close>

lemma kyber_keys:
  assumes "lattice_ok K" "KyberReceiverMessage K coins seed recver = (recver', key0, key1)"
  shows "kr_secretKey recver' = snd (indcpa_keypair K coins)" "kr_b recver' = kr_b recver"
    and "(if kr_b recver then pkPlus K key1 (pkHash K key0 (drop PKlengthsmall key0))
      else pkPlus K key0 (pkHash K key1 (drop PKlengthsmall key0))) = fst (indcpa_keypair K coins)"
proof -
  obtain pk sk where k: "indcpa_keypair K coins = (pk, sk)" by fastforce
  let ?ps = "drop PKlengthsmall pk"
  have pk: "length pk = PKlength" using assms(1) k unfolding lattice_ok_def by (metis fst_conv)
  then have ps: "length ?ps = 32" by (simp add: PKlength_def PKlengthsmall_def)
  have rnd: "length (randomPK K s ?ps) = PKlength" "drop PKlengthsmall (randomPK K s ?ps) = ?ps" for s
    using assms(1) ps unfolding lattice_ok_def by blast+
  let ?other = "randomPK K seed ?ps"
  let ?h = "pkHash K ?other ?ps"
  have h: "length ?h = PKlength" "drop PKlengthsmall ?h = ?ps" using rnd by (simp_all add: pkHash_def)
  have mine: "pkPlus K (pkMinus K pk ?h) ?h = pk" "drop PKlengthsmall (pkMinus K pk ?h) = ?ps"
    using assms(1) pk h unfolding lattice_ok_def by metis+
  show "kr_secretKey recver' = snd (indcpa_keypair K coins)" "kr_b recver' = kr_b recver"
    using assms(2) k by (auto simp: KyberReceiverMessage_def Let_def)
  show "(if kr_b recver then pkPlus K key1 (pkHash K key0 (drop PKlengthsmall key0))
      else pkPlus K key0 (pkHash K key1 (drop PKlengthsmall key0))) = fst (indcpa_keypair K coins)"
    using assms(2) k mine rnd(2) by (auto simp: KyberReceiverMessage_def Let_def split: if_splits)
qed


text \<open>A toy instance: bytes added one by one, and an encryption that hides nothing.\<close>

definition toy_lattice :: lattice where
  "toy_lattice = \<lparr>indcpa_keypair = \<lambda>coins. (replicate 1280 1, []), indcpa_enc = \<lambda>m pk r. m, indcpa_dec = \<lambda>c sk. c,
    randomPK = \<lambda>seed ps. take 1248 (seed @ replicate 1248 0) @ ps,
    pkPlus = \<lambda>k h. map2 (+) (take 1248 k) (take 1248 h) @ drop 1248 h,
    pkMinus = \<lambda>k h. map2 (-) (take 1248 k) (take 1248 h) @ drop 1248 h,
    sha3_256 = \<lambda>bs. take 32 bs\<rparr>"

lemma toy_lattice_ok: "lattice_ok toy_lattice"
proof -
  have "map2 (+) (map2 (-) xs ys) ys = xs" if "length xs = length ys" for xs ys :: "u8 list"
    using that by (induction rule: list_induct2) simp_all
  moreover have "take 1248 pk @ drop 1248 h = pk" if "drop 1248 pk = drop 1248 h" for pk h :: "u8 list"
    using that append_take_drop_id [of 1248 pk] by simp
  ultimately show ?thesis
    by (auto simp: lattice_ok_def toy_lattice_def PKlength_def PKlengthsmall_def min_def)
qed


lemma open_strings_ignores:
  assumes "get_items get_bytes (length is) os = Inr (xs, r)" "\<forall>x \<in> set xs. length x = 2 * CTlength"
  shows "bind_result (fold_result (open_strings K own) (st, recver, os) is) (\<lambda>(st, recver, os). Inr st) =
    fold_result (\<lambda>st i. bind_result (vec_read (receiver_outputs st) i) (\<lambda>v.
      bind_result (bv_set_block (indcpa_dec K (if kr_b recver then drop CTlength (own i) else take CTlength (own i))
        (kr_secretKey recver)) v) (\<lambda>v. Inr (st\<lparr>receiver_outputs := (receiver_outputs st)[i := v]\<rparr>)))) st is"
  using assms
proof (induction "is" arbitrary: st recver os xs)
  case (Cons i "is")
  obtain x os1 xs1 where x: "get_bytes os = Inr (x, os1)" "get_items get_bytes (length is) os1 = Inr (xs1, r)" "xs = x # xs1"
    using Cons.prems(1) by (auto simp: bind_result_Inr_iff split: prod.splits)
  let ?recver = "KyberReceiverStrings K (take CTlength (own i), drop CTlength (own i)) recver"
  have keeps: "kr_b ?recver = kr_b recver" "kr_secretKey ?recver = kr_secretKey recver"
    by (simp_all add: KyberReceiverStrings_def)
  have rot: "kr_rot ?recver = indcpa_dec K (if kr_b recver then drop CTlength (own i) else take CTlength (own i)) (kr_secretKey recver)"
    by (simp add: KyberReceiverStrings_def)
  have len: "length x = 2 * CTlength" using Cons.prems(2) x(3) by simp
  let ?body = "\<lambda>st. bind_result (vec_read (receiver_outputs st) i) (\<lambda>v. bind_result (bv_set_block (kr_rot ?recver) v) (\<lambda>v.
    Inr (st\<lparr>receiver_outputs := (receiver_outputs st)[i := v]\<rparr>)))"
  have step: "open_strings K own (st, recver, os) i = bind_result (?body st) (\<lambda>st. Inr (st, ?recver, os1))"
    by (cases "vec_read (receiver_outputs st) i"; cases "bv_set_block (kr_rot ?recver) (projr (vec_read (receiver_outputs st) i))")
      (simp_all add: open_strings_def x(1) len Let_def)
  show ?case
  proof (cases "?body st")
    case (Inl e)
    then show ?thesis by (simp add: step del: rot add: rot [symmetric])
  next
    case (Inr st1)
    have "\<forall>x \<in> set xs1. length x = 2 * CTlength" using Cons.prems(2) x(3) by simp
    from Cons.IH [OF x(2) this, of st1 ?recver] Inr show ?thesis
      by (simp add: step keeps rot [symmetric])
  qed
qed simp

lemma send_keys_keeps:
  assumes "fold_result (send_keys b K new rnd) (st, g, recver, os) is = Inr (st', g', recver', os')"
  shows "base_role st' = base_role st" "nOT st' = nOT st"
proof -
  let ?P = "\<lambda>(st :: 'a BaseOT, g :: 'a PRNG, recver :: KyberOTRecver, os :: octetStream). (base_role st, nOT st)"
  have "?P (st', g', recver', os') = ?P (st, g, recver, os)"
    by (rule fold_result_keeps [OF _ assms])
      (auto simp: send_keys_def new_choice_def bind_result_Inr_iff Let_def split_def split: if_splits)
  then show "base_role st' = base_role st" "nOT st' = nOT st" by simp_all
qed

text \<open>
  C11.  The base transfer of the program transfers nothing.  In the receiver's role, whatever ciphertexts the sender puts
  into its message, as long as their lengths are right, the receiver ends in the same state, with the same outputs: they come
  from memory that was never written.
\<close>

theorem exec_base_ignores_sender:
  assumes "base_role st = RECEIVER"
    and "get_items get_bytes (nOT st) texts = Inr (xs, r)" "\<forall>x \<in> set xs. length x = 2 * CTlength"
    and "get_items get_bytes (nOT st) texts' = Inr (xs', r')" "\<forall>x \<in> set xs'. length x = 2 * CTlength"
  shows "exec_base b K H rnd mem recver new in_keys texts st = exec_base b K H rnd mem recver new in_keys' texts' st"
proof (cases "fold_result (send_keys b K new (br_receiver rnd)) (st, br_G rnd, recver, empty_stream) [0..<nOT st]")
  case (Inl e)
  then show ?thesis using assms(1) by (simp add: exec_base_def is_receiver_def)
next
  case (Inr p)
  obtain st1 g1 recver1 os1 where p: "p = (st1, g1, recver1, os1)" by (cases p)
  have st1: "base_role st1 = RECEIVER" "nOT st1 = nOT st" using send_keys_keeps [OF Inr [unfolded p]] assms(1) by simp_all
  have same: "bind_result (fold_result (open_strings K mem) (st1, recver1, texts) [0..<nOT st1]) (\<lambda>(st, recver, os). Inr st) =
      bind_result (fold_result (open_strings K mem) (st1, recver1, texts') [0..<nOT st1]) (\<lambda>(st, recver, os). Inr st)"
    using open_strings_ignores [of "[0..<nOT st1]" texts xs r K mem st1 recver1]
      open_strings_ignores [of "[0..<nOT st1]" texts' xs' r' K mem st1 recver1] assms(2-5) st1(2) by simp
  show ?thesis
    using Inr p assms(1) st1(1) same by (simp add: exec_base_def is_receiver_def is_sender_def)
qed

text \<open>A message with one block of the length of two ciphertexts.\<close>

definition text_stream :: "u8 \<Rightarrow> octetStream" where
  "text_stream x = empty_stream\<lparr>os_data := [0, 13, 0, 0] @ replicate 3328 x, os_mxlen := 3332\<rparr>"

lemma get_text_stream: "\<exists>r. get_items get_bytes 1 (text_stream x) = Inr ([replicate 3328 x], r)"
proof -
  have int: "\<exists>os. os_get_int 4 (text_stream x) = Inr (3328, os) \<and> os_data os = os_data (text_stream x) \<and> os_ptr os = 4"
    using consume_ok [of "text_stream x" 4]
    by (simp add: os_get_int_def decode_length_def le_value_def text_stream_def empty_stream_def)
  then obtain os where os: "os_get_int 4 (text_stream x) = Inr (3328, os)" "os_data os = os_data (text_stream x)" "os_ptr os = 4"
    by blast
  then have "get_bytes (text_stream x) = Inr (replicate 3328 x, os\<lparr>os_rbits := (os_rbits os)\<lparr>bits_n := 0\<rparr>, os_ptr := 3332\<rparr>)"
    using consume_ok [of os 3328] by (simp add: get_bytes_def text_stream_def)
  then show ?thesis by (simp add: numeral_eq_Suc)
qed

definition one_transfer :: "u32 list BaseOT" where
  "one_transfer = BaseOT_new [1] 1 RECEIVER"

definition demo_randomness :: "u32 list base_randomness" where
  "demo_randomness = \<lparr>br_G = \<lparr>pr_schedule = [], pr_state = [], pr_random = [], pr_cnt = 0, pr_n_cached = 0, pr_cached_bits = 0\<rparr>,
    br_receiver = \<lambda>_. ([], []), br_sender = \<lambda>_. (([], []), ([], []))\<rparr>"

lemma exec_base_ignores_sender_witness:
  "exec_base build_c toy_lattice (\<lambda>bs n. take n bs) demo_randomness (\<lambda>_. replicate 3328 7)
      \<lparr>kr_secretKey = [], kr_rot = [], kr_b = True\<rparr> False empty_stream (text_stream 1) one_transfer =
   exec_base build_c toy_lattice (\<lambda>bs n. take n bs) demo_randomness (\<lambda>_. replicate 3328 7)
      \<lparr>kr_secretKey = [], kr_rot = [], kr_b = True\<rparr> False empty_stream (text_stream 2) one_transfer"
proof -
  have st: "base_role one_transfer = RECEIVER" "nOT one_transfer = 1" by (simp_all add: one_transfer_def BaseOT_new_def)
  obtain r r' where "get_items get_bytes 1 (text_stream 1) = Inr ([replicate 3328 1], r)"
    "get_items get_bytes 1 (text_stream 2) = Inr ([replicate 3328 2], r')"
    using get_text_stream by blast
  note texts = this [folded st(2)]
  show ?thesis
    by (rule exec_base_ignores_sender [OF st(1) texts(1) _ texts(2)])
      (simp_all only: list.set CTlength_def length_replicate ball_simps, simp_all)
qed

end
