(* ===== verification/OT_Setup.thy ===== *)
theory OT_Setup
  imports Kyber_OT OT_Extension_Correct
begin

text \<open>
  From base transfers to the extension: \<^verbatim>\<open>OTExtension::init\<close>, the constructors, and \<^verbatim>\<open>OTExtensionWithMatrix::setup\<close>.  A
  base transfer is an interface, which the repository's \<^verbatim>\<open>FakeOT\<close> provides.
\<close>

section \<open>Construction\<close>

definition init_one :: "'k prng_build \<Rightarrow> (BitVector \<times> BitVector) list \<Rightarrow> BitVector list \<Rightarrow> 'k OTExtension \<Rightarrow> nat \<Rightarrow> 'k OTExtension result" where
  "init_one b baseSenderInput baseReceiverOutput st i =
    bind_result (vec_read baseSenderInput i) (\<lambda>(v0, v1). bind_result (vec_read baseReceiverOutput i) (\<lambda>r.
    if length (bv_bytes v0) < 16 \<or> length (bv_bytes v1) < 16 \<or> length (bv_bytes r) < 16
    then Inl (exit_failure ''assertion failed'')
    else bind_result (if is_receiver (ot_role st)
      then if loadu (take 16 (bv_bytes v0)) = loadu (take 16 (bv_bytes v1))
        then Inl (runtime_error ''base sender outputs are the same'')
        else bind_result (PRNG_SetSeed b (bv_bytes v0)) (\<lambda>g0. bind_result (PRNG_SetSeed b (bv_bytes v1)) (\<lambda>g1.
          Inr (st\<lparr>G_sender := (G_sender st)[i := (g0, g1)]\<rparr>)))
      else Inr st) (\<lambda>st.
    if is_sender (ot_role st)
      then bind_result (PRNG_SetSeed b (bv_bytes r)) (\<lambda>g. Inr (st\<lparr>G_receiver := (G_receiver st)[i := g]\<rparr>))
      else Inr st)))"

text \<open>\<open>unseeded\<close> is a generator as its constructor leaves it.\<close>

definition OTExtension_init :: "'k prng_build \<Rightarrow> 'k PRNG \<Rightarrow> BitVector \<Rightarrow> (BitVector \<times> BitVector) list \<Rightarrow> BitVector list \<Rightarrow>
    'k OTExtension \<Rightarrow> 'k OTExtension result" where
  "OTExtension_init b unseeded recvIn sendIn recvOut st =
    (let n = bv_nbits recvIn; st = st\<lparr>nbaseOTs := n, baseReceiverInput := recvIn\<rparr>
     in if length sendIn \<noteq> length recvOut then Inl (runtime_error ''mismatch in number of base OTs'')
        else if n \<noteq> length sendIn then Inl (exit_failure ''assertion failed'')
        else fold_result (init_one b sendIn recvOut)
          (st\<lparr>G_sender := replicate n (unseeded, unseeded), G_receiver := replicate n unseeded\<rparr>) [0..<n])"

text \<open>The constructors turn the role around; \<open>g\<close> is the generator \<^verbatim>\<open>G\<close> after \<^verbatim>\<open>ReSeed\<close>.\<close>

definition OTExtension_new :: "'k prng_build \<Rightarrow> 'k PRNG \<Rightarrow> 'k PRNG \<Rightarrow> bool \<Rightarrow> 'k BaseOT \<Rightarrow> 'k OTExtension result" where
  "OTExtension_new b unseeded g is_passive base =
    OTExtension_init b unseeded (receiver_inputs base) (sender_inputs base) (receiver_outputs base)
      \<lparr>ot_role = INV_ROLE (base_role base), passive_only = is_passive, nbaseOTs = 0, baseReceiverInput = bv_zero 0,
       G_sender = [], G_receiver = [], senderOutput0 = [], senderOutput1 = [], receiverOutputMatrix = [],
       ot_t1 = [], ot_u = [], nsubloops = 1, ot_G = g\<rparr>"

text \<open>
  \<^verbatim>\<open>setup\<close>, for a way \<open>exec\<close> of running the base transfers.  The file in \<^verbatim>\<open>MP-SPDZ-master\<close> gives \<^verbatim>\<open>BaseOT\<close> the inverted role,
  the file at the root of the repository the role itself: \<open>conv\<close> is \<^verbatim>\<open>INV_ROLE\<close> or the identity.
\<close>

definition OT_setup :: "(OT_ROLE \<Rightarrow> OT_ROLE) \<Rightarrow> 'k prng_build \<Rightarrow> ('k BaseOT \<Rightarrow> 'k BaseOT result) \<Rightarrow> 'k PRNG \<Rightarrow> 'k PRNG \<Rightarrow> u8 list \<Rightarrow>
    m128 \<Rightarrow> OT_ROLE \<Rightarrow> bool \<Rightarrow> 'k OTExtension result" where
  "OT_setup conv b exec unseeded g mem offset role is_passive =
    bind_result (set_receiver_inputs_int128 offset (BaseOT_new mem 128 (conv role))) (\<lambda>base.
    bind_result (exec base) (OTExtension_new b unseeded g is_passive))"

section \<open>Choice bits from a register\<close>

lemma bit_int128_shr: "i < 128 \<Longrightarrow> bit (fst (int128_shr a i)) 0 \<longleftrightarrow> m128_bit a i"
  by (auto simp: int128_shr_def m128_xor_def m128_bit_def Let_def bit_simps dest: bit_imp_le_length)

lemma bv_bit_set:
  assumes "wf_bv v" "i < bv_nbits v"
  shows "\<exists>v'. bv_set_bit v i x = Inr v' \<and> wf_bv v' \<and> bv_nbits v' = bv_nbits v \<and>
    (\<forall>j. bv_bit v' j = (if j = i then x else bv_bit v j))"
proof -
  have i: "i div 8 < length (bv_bytes v)"
    using assms by (auto simp: wf_bv_def div_ceil_def div_less_iff_less_mult less_mult_imp_div_less)
  let ?b = "bv_bytes v ! (i div 8)"
  let ?b' = "if x then ?b OR push_bit (i mod 8) 1 else ?b AND NOT (push_bit (i mod 8) 1)"
  let ?v = "v\<lparr>bv_bytes := (bv_bytes v)[i div 8 := ?b']\<rparr>"
  have "bv_bit ?v j = (if j = i then x else bv_bit v j)" for j
  proof (cases "j div 8 = i div 8")
    case True
    then have "j = i \<longleftrightarrow> j mod 8 = i mod 8" by (metis div_mult_mod_eq)
    moreover have "j mod 8 < 8" "i mod 8 < 8" by simp_all
    ultimately show ?thesis using True i by (auto simp: bv_bit_def bit_simps)
  next
    case False
    then show ?thesis using i by (auto simp: bv_bit_def)
  qed
  moreover have "bv_set_bit v i x = Inr ?v" using assms(2) i by (simp add: bv_set_bit_def)
  ultimately show ?thesis using assms(1) by (auto simp: wf_bv_def)
qed

lemma bits_of_int128_ok:
  "\<exists>v. bits_of_int128 a = Inr v \<and> wf_bv v \<and> bv_nbits v = 128 \<and> (\<forall>i < 128. bv_bit v i = m128_bit a i)"
proof -
  let ?f = "\<lambda>v i. bv_set_bit v i (fst (int128_shr a i) AND 1 \<noteq> 0)"
  have "\<exists>v. fold_result ?f (bv_zero 128) [0..<n] = Inr v \<and> wf_bv v \<and> bv_nbits v = 128 \<and> (\<forall>i < n. bv_bit v i = m128_bit a i)"
    if "n \<le> 128" for n
    using that
  proof (induction n)
    case 0
    show ?case by (simp add: bv_zero_def wf_bv_def)
  next
    case (Suc n)
    then obtain v where v: "fold_result ?f (bv_zero 128) [0..<n] = Inr v" "wf_bv v" "bv_nbits v = 128"
      "\<forall>i < n. bv_bit v i = m128_bit a i" by auto
    have "fst (int128_shr a n) AND 1 \<noteq> 0 \<longleftrightarrow> m128_bit a n"
      using bit_int128_shr [of n a] Suc.prems by (simp add: and_one_eq bit_0 odd_iff_mod_2_eq_one)
    then show ?case
      using bv_bit_set [OF v(2), of n "m128_bit a n"] v Suc.prems by (auto simp: fold_result_append less_Suc_eq)
  qed
  from this [of 128] show ?thesis by (simp add: bits_of_int128_def)
qed

lemma bv_register_bits: "wf_bv v \<Longrightarrow> bv_nbits v = 128 \<Longrightarrow> \<forall>i < 128. bv_bit v i = m128_bit a i \<Longrightarrow> bv_register v = a"
  by (intro m128_bit_eqI) (simp add: bit_bv_register)

lemma init_one_role: "init_one b vs rs st i = Inr st' \<Longrightarrow> ot_role st' = ot_role st"
  by (auto simp: init_one_def bind_result_Inr_iff split_def split: if_splits)

lemma OTExtension_new_role:
  assumes "OTExtension_new b unseeded g is_passive base = Inr st"
  shows "ot_role st = INV_ROLE (base_role base)"
proof -
  have "ot_role st' = ot_role st" if "fold_result (init_one b vs rs) st is = Inr st'" for vs rs st st' "is"
    by (rule fold_result_keeps [OF init_one_role that])
  from this [of "sender_inputs base" "receiver_outputs base"] show ?thesis
    using assms by (simp add: OTExtension_new_def OTExtension_init_def Let_def split: if_splits)
qed

section \<open>The extension from base transfers\<close>

definition block_bv :: "BitVector \<Rightarrow> bool" where
  "block_bv v \<longleftrightarrow> length (bv_bytes v) = 16 \<and> bv_nbits v = 128"

definition base_ready :: "'k BaseOT \<Rightarrow> bool" where
  "base_ready st \<longleftrightarrow> nOT st = 128 \<and> wf_bv (receiver_inputs st) \<and> bv_nbits (receiver_inputs st) = 128 \<and>
    length (sender_inputs st) = 128 \<and> length (receiver_outputs st) = 128 \<and>
    (\<forall>v \<in> set (sender_inputs st). block_bv (fst v) \<and> block_bv (snd v)) \<and> (\<forall>v \<in> set (receiver_outputs st). block_bv v)"

text \<open>The receiver holds, for every transfer, the sender's string of its choice.\<close>

definition transferred :: "'k BaseOT \<Rightarrow> 'k BaseOT \<Rightarrow> bool" where
  "transferred Sd Rc \<longleftrightarrow> (\<forall>i < 128. receiver_outputs Rc ! i =
    (if bv_bit (receiver_inputs Rc) i then snd (sender_inputs Sd ! i) else fst (sender_inputs Sd ! i)))"

definition distinct_pairs :: "'k BaseOT \<Rightarrow> bool" where
  "distinct_pairs st \<longleftrightarrow> (\<forall>v \<in> set (sender_inputs st). bv_bytes (fst v) \<noteq> bv_bytes (snd v))"

definition same_pair :: "(BitVector \<times> BitVector) list \<Rightarrow> nat \<Rightarrow> bool" where
  "same_pair vs i \<longleftrightarrow> bv_bytes (fst (vs ! i)) = bv_bytes (snd (vs ! i))"

lemma new_base_ready:
  assumes "length mem = 16"
  shows "\<exists>st. set_receiver_inputs_int128 a (BaseOT_new mem 128 role) = Inr st \<and> base_ready st \<and> base_role st = role \<and>
    bv_register (receiver_inputs st) = a"
proof -
  obtain v where v: "bits_of_int128 a = Inr v" "wf_bv v" "bv_nbits v = 128" "\<forall>i < 128. bv_bit v i = m128_bit a i"
    using bits_of_int128_ok by blast
  then show ?thesis
    using bv_register_bits [OF v(2-4)]
    by (simp add: set_receiver_inputs_int128_def set_receiver_inputs_def BaseOT_new_def base_ready_def block_bv_def
        bv_zero_def div_ceil_def)
qed

lemma loadu_inject:
  assumes "length xs = 16" "length ys = 16" "loadu xs = loadu ys"
  shows "xs = ys"
proof (rule nth_equalityI)
  fix i assume "i < length xs"
  then have i: "i < 16" using assms(1) by simp
  show "xs ! i = ys ! i"
  proof (rule bit_word_eqI)
    fix n assume "n < LENGTH(8)"
    then have "8 * i + n < 128" "(8 * i + n) div 8 = i" "(8 * i + n) mod 8 = n" using i by simp_all
    then show "bit (xs ! i) n = bit (ys ! i) n"
      using bit_loadu [of xs "8 * i + n"] bit_loadu [of ys "8 * i + n"] assms by simp
  qed
qed (use assms in simp)

text \<open>
  What the extension needs from a build of the generator and from a base transfer: seeding does not fail, and two ready
  sides end with the chosen strings transferred.
\<close>

locale base_ot =
  fixes b :: "'k prng_build"
    and send :: "'k BaseOT \<Rightarrow> ('k BaseOT \<times> octetStream) result"
    and receive :: "octetStream \<Rightarrow> 'k BaseOT \<Rightarrow> 'k BaseOT result"
  assumes seeds: "length seed = 16 \<Longrightarrow> \<exists>g. PRNG_SetSeed b seed = Inr g"
    and transfer: "base_ready Sd \<Longrightarrow> base_role Sd = SENDER \<Longrightarrow> base_ready Rc \<Longrightarrow> base_role Rc = RECEIVER \<Longrightarrow>
      \<exists>Sd' os Rc'. send Sd = Inr (Sd', os) \<and> receive os Rc = Inr Rc' \<and> base_ready Sd' \<and> base_role Sd' = SENDER \<and>
        base_ready Rc' \<and> base_role Rc' = RECEIVER \<and> receiver_inputs Rc' = receiver_inputs Rc \<and> transferred Sd' Rc'"
begin

abbreviation seeded :: "BitVector \<Rightarrow> 'k PRNG" where
  "seeded v \<equiv> projr (PRNG_SetSeed b (bv_bytes v))"

lemma init_all:
  assumes "base_ready base" "ot_role st = SENDER \<or> ot_role st = RECEIVER \<and> distinct_pairs base"
    and "length (G_sender st) = 128" "length (G_receiver st) = 128" "n \<le> 128"
  shows "fold_result (init_one b (sender_inputs base) (receiver_outputs base)) st [0..<n] = Inr (st\<lparr>
    G_sender := if ot_role st = RECEIVER
      then map (\<lambda>(v0, v1). (seeded v0, seeded v1)) (take n (sender_inputs base)) @ drop n (G_sender st) else G_sender st,
    G_receiver := if ot_role st = SENDER
      then map seeded (take n (receiver_outputs base)) @ drop n (G_receiver st) else G_receiver st\<rparr>)"
  using assms(5)
proof (induction n)
  case (Suc n)
  have n: "n < 128" "n < length (sender_inputs base)" "n < length (receiver_outputs base)"
    using Suc.prems assms(1) by (simp_all add: base_ready_def)
  obtain v0 v1 where v: "sender_inputs base ! n = (v0, v1)" by fastforce
  let ?r = "receiver_outputs base ! n"
  have "sender_inputs base ! n \<in> set (sender_inputs base)" "?r \<in> set (receiver_outputs base)" using n by simp_all
  then have blocks: "block_bv v0" "block_bv v1" "block_bv ?r"
    and distinct: "distinct_pairs base \<Longrightarrow> bv_bytes v0 \<noteq> bv_bytes v1"
    using assms(1) v unfolding base_ready_def distinct_pairs_def by fastforce+
  have len: "length (bv_bytes v0) = 16" "length (bv_bytes v1) = 16" "length (bv_bytes ?r) = 16"
    using blocks by (simp_all add: block_bv_def)
  obtain g0 where s0: "PRNG_SetSeed b (bv_bytes v0) = Inr g0" using seeds [OF len(1)] by blast
  obtain g1 where s1: "PRNG_SetSeed b (bv_bytes v1) = Inr g1" using seeds [OF len(2)] by blast
  obtain gr where sr: "PRNG_SetSeed b (bv_bytes ?r) = Inr gr" using seeds [OF len(3)] by blast
  have neq: "loadu (bv_bytes v0) \<noteq> loadu (bv_bytes v1)" if "distinct_pairs base"
    using loadu_inject [OF len(1,2)] distinct [OF that] by blast
  note IH = Suc.IH [OF Suc_leD [OF Suc.prems]]
  show ?case
    using assms(2)
  proof
    assume role: "ot_role st = SENDER"
    then show ?thesis
      using IH n assms(3,4) len sr
      by (simp add: fold_result_append init_one_def v is_sender_def is_receiver_def list_update_append take_Suc_conv_app_nth
          flip: Cons_nth_drop_Suc)
  next
    assume role: "ot_role st = RECEIVER \<and> distinct_pairs base"
    then show ?thesis
      using IH n assms(3,4) len s0 s1 neq
      by (simp add: fold_result_append init_one_def v is_sender_def is_receiver_def list_update_append take_Suc_conv_app_nth
          flip: Cons_nth_drop_Suc)
  qed
qed simp

lemma OTExtension_new_ok:
  assumes "base_ready base" "base_role base = RECEIVER \<or> base_role base = SENDER \<and> distinct_pairs base"
  shows "\<exists>st. OTExtension_new b unseeded g is_passive base = Inr st \<and> ot_ready st \<and> ot_role st = INV_ROLE (base_role base) \<and>
    passive_only st = is_passive \<and> baseReceiverInput st = receiver_inputs base \<and>
    (base_role base = SENDER \<longrightarrow> G_sender st = map (\<lambda>(v0, v1). (seeded v0, seeded v1)) (sender_inputs base)) \<and>
    (base_role base = RECEIVER \<longrightarrow> G_receiver st = map seeded (receiver_outputs base))"
  using assms init_all [OF assms(1), where n = 128]
  by (auto simp: OTExtension_new_def OTExtension_init_def base_ready_def ot_ready_def wf_matrix_def Let_def)

text \<open>A pair of equal strings is noticed.\<close>

lemma init_collision:
  assumes "base_ready base" "\<forall>i \<in> set is. i < 128" "\<exists>i \<in> set is. same_pair (sender_inputs base) i"
  shows "ot_role st = RECEIVER \<Longrightarrow> length (G_sender st) = 128 \<Longrightarrow>
    fold_result (init_one b (sender_inputs base) (receiver_outputs base)) st is =
      Inl (runtime_error ''base sender outputs are the same'')"
  using assms(2,3)
proof (induction "is" arbitrary: st)
  case (Cons i "is")
  have i: "i < length (sender_inputs base)" "i < length (receiver_outputs base)"
    using Cons.prems(3) assms(1) by (simp_all add: base_ready_def)
  obtain v0 v1 where v: "sender_inputs base ! i = (v0, v1)" by fastforce
  let ?r = "receiver_outputs base ! i"
  have "sender_inputs base ! i \<in> set (sender_inputs base)" "?r \<in> set (receiver_outputs base)" using i by simp_all
  then have "block_bv v0 \<and> block_bv v1 \<and> block_bv ?r" using assms(1) v unfolding base_ready_def by fastforce
  then have len: "length (bv_bytes v0) = 16" "length (bv_bytes v1) = 16" "length (bv_bytes ?r) = 16"
    by (simp_all add: block_bv_def)
  obtain g0 where s0: "PRNG_SetSeed b (bv_bytes v0) = Inr g0" using seeds [OF len(1)] by blast
  obtain g1 where s1: "PRNG_SetSeed b (bv_bytes v1) = Inr g1" using seeds [OF len(2)] by blast
  show ?case
  proof (cases "same_pair (sender_inputs base) i")
    case True
    then show ?thesis using i len v Cons.prems(1) by (simp add: init_one_def same_pair_def is_receiver_def)
  next
    case False
    then have "loadu (bv_bytes v0) \<noteq> loadu (bv_bytes v1)"
      using loadu_inject [OF len(1,2)] v by (auto simp: same_pair_def)
    then have "init_one b (sender_inputs base) (receiver_outputs base) st i = Inr (st\<lparr>G_sender := (G_sender st)[i := (g0, g1)]\<rparr>)"
      using i len v s0 s1 Cons.prems(1) by (simp add: init_one_def is_receiver_def is_sender_def)
    then show ?thesis
      using Cons.IH [of "st\<lparr>G_sender := (G_sender st)[i := (g0, g1)]\<rparr>"] Cons.prems False by simp
  qed
qed simp

lemma OTExtension_new_collision:
  assumes "base_ready base" "base_role base = SENDER" "\<not> distinct_pairs base"
  shows "OTExtension_new b unseeded g is_passive base = Inl (runtime_error ''base sender outputs are the same'')"
proof -
  obtain i where "i < 128" "same_pair (sender_inputs base) i"
    using assms(1,3) by (auto simp: distinct_pairs_def same_pair_def in_set_conv_nth base_ready_def)
  then have "\<exists>i \<in> set [0..<128]. same_pair (sender_inputs base) i" by auto
  then show ?thesis
    using assms(1,2) init_collision [OF assms(1), of "[0..<128]"]
    by (auto simp: OTExtension_new_def OTExtension_init_def base_ready_def Let_def)
qed

text \<open>Two extensions that are set up over the transfer are linked.\<close>

lemma setup_linked:
  assumes "base_ready Sd" "base_role Sd = SENDER" "base_ready Rc" "base_role Rc = RECEIVER"
    and "send Sd = Inr (Sd', os)" "receive os Rc = Inr Rc'" "distinct_pairs Sd'"
  shows "\<exists>R S. OTExtension_new b u0 g0 is_passive Sd' = Inr R \<and> OTExtension_new b u1 g1 is_passive Rc' = Inr S \<and>
    ot_ready R \<and> ot_role R = RECEIVER \<and> passive_only R = is_passive \<and>
    ot_ready S \<and> ot_role S = SENDER \<and> passive_only S = is_passive \<and>
    baseReceiverInput S = receiver_inputs Rc \<and> seeds_linked S R"
proof -
  have t: "base_ready Sd'" "base_role Sd' = SENDER" "base_ready Rc'" "base_role Rc' = RECEIVER"
    "receiver_inputs Rc' = receiver_inputs Rc" "transferred Sd' Rc'"
    using transfer [OF assms(1-4)] assms(5,6) by auto
  obtain R where R: "OTExtension_new b u0 g0 is_passive Sd' = Inr R" "ot_ready R" "ot_role R = RECEIVER" "passive_only R = is_passive"
    "G_sender R = map (\<lambda>(v0, v1). (seeded v0, seeded v1)) (sender_inputs Sd')"
    using OTExtension_new_ok [OF t(1), where unseeded = u0 and g = g0 and is_passive = is_passive] t(2) assms(7) by auto
  obtain S where S: "OTExtension_new b u1 g1 is_passive Rc' = Inr S" "ot_ready S" "ot_role S = SENDER" "passive_only S = is_passive"
    "baseReceiverInput S = receiver_inputs Rc'" "G_receiver S = map seeded (receiver_outputs Rc')"
    using OTExtension_new_ok [OF t(3), where unseeded = u1 and g = g1 and is_passive = is_passive] t(4) by auto
  have "seeds_linked S R"
    using t(1,3,6) R(5) S(5,6) by (simp add: seeds_linked_def transferred_def base_ready_def split_def)
  then show ?thesis using R S t(5) by auto
qed

end

end
