(* ===== verification/Fake_OT.thy ===== *)
theory Fake_OT
  imports OT_Setup
begin

text \<open>
  \<^verbatim>\<open>FakeOT\<close>, which sends both strings in the clear, transfers the chosen ones: it provides the interface of base
  transfers, with the table-driven build of the generator.
\<close>

section \<open>Vectors on the wire\<close>

definition wire_bv :: "BitVector \<Rightarrow> bool" where
  "wire_bv v \<longleftrightarrow> wf_bv v \<and> bv_nbits v < 2 ^ 62"

interpretation os_bv: Octet_Stream.codec bv_pack bv_unpack wire_bv
proof
  fix v and w
  assume v: "wire_bv v" and w: "writable w"
  have n: "unat (word_of_nat (bv_nbits v) :: u64) = bv_nbits v"
    using v by (simp add: wire_bv_def unat_u64_of_nat)
  have eta: "\<lparr>bv_bytes = bv_bytes v, bv_nbits = bv_nbits v\<rparr> = v" by (cases v) simp
  have len: "length (bv_bytes v) = div_ceil (bv_nbits v) 8" "length (bv_bytes v) < 2 ^ 63"
    using v by (simp_all add: wire_bv_def wf_bv_def div_ceil_def div_less_iff_less_mult)
  have "\<exists>w2. bind_result (store_int (word_of_nat (bv_nbits v)) 8 w) (append (bv_bytes v)) = Inr w2 \<and> writable w2 \<and> ahead w w2 \<and>
      delivers w w2 (\<lambda>r. bind_result (os_get_int 8 r) (\<lambda>(n, r).
        bind_result (consume (word_of_nat (div_ceil (unat n) 8)) r) (\<lambda>(bs, r). Inr (\<lparr>bv_bytes = bs, bv_nbits = unat n\<rparr>, r)))) v"
  proof (rule put_put)
    show "\<exists>w1. store_int (word_of_nat (bv_nbits v)) 8 w = Inr w1 \<and> writable w1 \<and> ahead w w1 \<and>
        delivers w w1 (os_get_int 8) (word_of_nat (bv_nbits v))"
      using os_word.put_get [OF _ w, of "word_of_nat (bv_nbits v)"] by simp
    fix w1 assume "writable w1"
    then obtain w2 where w2: "append (bv_bytes v) w1 = Inr w2" "writable w2" "ahead w1 w2"
      "delivers w1 w2 (consume (word_of_nat (length (bv_bytes v)))) (bv_bytes v)"
      using append_consume [of w1 "bv_bytes v"] len(2) by blast
    then show "\<exists>w2. append (bv_bytes v) w1 = Inr w2 \<and> writable w2 \<and> ahead w1 w2 \<and>
        delivers w1 w2 (\<lambda>r. bind_result (consume (word_of_nat (div_ceil (unat (word_of_nat (bv_nbits v) :: u64)) 8)) r)
          (\<lambda>(bs, r). Inr (\<lparr>bv_bytes = bs, bv_nbits = unat (word_of_nat (bv_nbits v) :: u64)\<rparr>, r))) v"
      using delivers_map [OF w2(4), of "\<lambda>bs. \<lparr>bv_bytes = bs, bv_nbits = bv_nbits v\<rparr>"] by (auto simp: n len(1) eta)
  qed
  then show "\<exists>w'. bv_pack v w = Inr w' \<and> writable w' \<and> ahead w w' \<and> delivers w w' bv_unpack v"
    by (simp add: bv_pack_def bv_unpack_def [abs_def])
qed

definition pack_pair :: "BitVector \<times> BitVector \<Rightarrow> octetStream \<Rightarrow> octetStream result" where
  "pack_pair v os = bind_result (bv_pack (fst v) os) (bv_pack (snd v))"

definition unpack_pair :: "octetStream \<Rightarrow> ((BitVector \<times> BitVector) \<times> octetStream) result" where
  "unpack_pair os = bind_result (bv_unpack os) (\<lambda>(v0, os). bind_result (bv_unpack os) (\<lambda>(v1, os). Inr ((v0, v1), os)))"

interpretation os_pair: Octet_Stream.codec pack_pair unpack_pair "\<lambda>v. wire_bv (fst v) \<and> wire_bv (snd v)"
proof
  fix v and w
  assume v: "wire_bv (fst v) \<and> wire_bv (snd v)" and w: "writable w"
  have "\<exists>w2. bind_result (bv_pack (fst v) w) (bv_pack (snd v)) = Inr w2 \<and> writable w2 \<and> ahead w w2 \<and>
      delivers w w2 (\<lambda>r. bind_result (bv_unpack r) (\<lambda>(v0, r). bind_result (bv_unpack r) (\<lambda>(v1, r). Inr ((v0, v1), r)))) v"
  proof (rule put_put)
    show "\<exists>w1. bv_pack (fst v) w = Inr w1 \<and> writable w1 \<and> ahead w w1 \<and> delivers w w1 bv_unpack (fst v)"
      using os_bv.put_get v w by blast
    show "\<exists>w2. bv_pack (snd v) w1 = Inr w2 \<and> writable w2 \<and> ahead w1 w2 \<and>
        delivers w1 w2 (\<lambda>r. bind_result (bv_unpack r) (\<lambda>(v1, r). Inr ((fst v, v1), r))) v" if "writable w1" for w1
      using os_bv.put_get [of "snd v" w1] v that delivers_map [of w1 _ bv_unpack "snd v" "\<lambda>v1. (fst v, v1)"] by auto
  qed
  then show "\<exists>w'. pack_pair v w = Inr w' \<and> writable w' \<and> ahead w w' \<and> delivers w w' unpack_pair v"
    by (simp add: pack_pair_def unpack_pair_def [abs_def])
qed

text \<open>Writing whole bytes into a fresh buffer keeps it fresh.\<close>

definition plain :: "nat \<Rightarrow> octetStream \<Rightarrow> bool" where
  "plain n w \<longleftrightarrow> writable w \<and> bits_n (os_wbits w) = 0 \<and> bits_n (os_rbits w) = 0 \<and> os_ptr w = 0 \<and> length (os_data w) = n"

lemma plain_append: "plain n w \<Longrightarrow> append x w = Inr w' \<Longrightarrow> plain (n + length x) w'"
  using append_ok [of w x] by (auto simp: plain_def flushed_def writable_def)

lemma plain_bv_pack: "plain n w \<Longrightarrow> bv_pack v w = Inr w' \<Longrightarrow> plain (n + 8 + length (bv_bytes v)) w'"
proof -
  assume w: "plain n w" "bv_pack v w = Inr w'"
  let ?x = "word_of_nat (bv_nbits v) :: u64"
  have "unat ?x < 2 ^ (8 * 8)" using unsigned_less [of ?x] by simp
  then have "encode_length ?x 8 = Inr (le_bytes 8 ?x)" using encode_small(1) [of 8 ?x] by simp
  then obtain w1 where w1: "append (le_bytes 8 ?x) w = Inr w1" "append (bv_bytes v) w1 = Inr w'"
    using w(2) by (auto simp: bv_pack_def store_int_def bind_result_Inr_iff)
  show ?thesis using plain_append [OF plain_append [OF w(1) w1(1)] w1(2)] by simp
qed

lemma plain_pack_pair:
  assumes "plain n w" "pack_pair v w = Inr w'"
  shows "plain (n + 8 + length (bv_bytes (fst v)) + 8 + length (bv_bytes (snd v))) w'"
proof -
  obtain w1 where w1: "bv_pack (fst v) w = Inr w1" "bv_pack (snd v) w1 = Inr w'"
    using assms(2) by (auto simp: pack_pair_def bind_result_Inr_iff)
  show ?thesis by (rule plain_bv_pack [OF plain_bv_pack [OF assms(1) w1(1)] w1(2)])
qed

lemma plain_pack_pairs:
  "plain n w \<Longrightarrow> \<forall>v \<in> set vs. block_bv (fst v) \<and> block_bv (snd v) \<Longrightarrow>
    fold_result (\<lambda>w v. pack_pair v w) w vs = Inr w' \<Longrightarrow> plain (n + 48 * length vs) w'"
proof (induction vs arbitrary: n w)
  case (Cons v vs)
  then obtain w1 where "pack_pair v w = Inr w1" "fold_result (\<lambda>w v. pack_pair v w) w1 vs = Inr w'"
    by (auto simp: bind_result_Inr_iff)
  then show ?case
    using Cons.IH [of "n + 48" w1] plain_pack_pair [OF Cons.prems(1), of v w1] Cons.prems(2)
    by (simp add: block_bv_def algebra_simps)
qed simp

lemma block_wire: "block_bv v \<Longrightarrow> wire_bv v"
  by (simp add: block_bv_def wire_bv_def wf_bv_def div_ceil_def)

lemma pairs_delivered:
  assumes "\<forall>v \<in> set vs. block_bv (fst v) \<and> block_bv (snd v)" "length vs < 2 ^ 40"
  shows "\<exists>os r. fold_result (\<lambda>w v. pack_pair v w) empty_stream vs = Inr os \<and> get_items unpack_pair (length vs) os = Inr (vs, r)"
proof -
  obtain os where os: "fold_result (\<lambda>w v. pack_pair v w) empty_stream vs = Inr os"
    "delivers empty_stream os (get_items unpack_pair (length vs)) vs"
    using os_pair.items [OF _ writable_empty(1), of vs] assms(1) block_wire by blast
  have "plain 0 empty_stream" using writable_empty by (simp add: plain_def empty_stream_def no_bits_def)
  then have "plain (48 * length vs) os"
    using plain_pack_pairs [OF _ assms(1) os(1), of 0] by simp
  then show ?thesis using fresh_delivers [OF os(2)] os(1) assms(2) by (auto simp: plain_def)
qed

section \<open>The transfer\<close>

lemma build_c_size: "PIPELINES build_c = 1"
  by (simp add: build_c_def)

lemma bv_randomize_block:
  assumes "prng_c.at_byte ks p g" "block_bv v" "p < 2 ^ 62"
  shows "\<exists>v' g'. bv_randomize build_c v g = (v', g') \<and> block_bv v' \<and> prng_c.at_byte ks (p + 16) g'"
  using prng_c.get_octets [OF assms(1), of 16] assms(2,3) by (auto simp: bv_randomize_def block_bv_def build_c_size)

lemma fake_pairs:
  assumes "prng_c.at_byte ks p g" "p + 32 * n < 2 ^ 62" "s + n \<le> length (sender_inputs st)"
    and "\<forall>v \<in> set (sender_inputs st). block_bv (fst v) \<and> block_bv (snd v)"
  shows "\<exists>vs g'. length vs = n \<and> (\<forall>v \<in> set vs. block_bv (fst v) \<and> block_bv (snd v)) \<and>
    (\<forall>os. fold_result (\<lambda>(st, g, os) i. bind_result (vec_read (sender_inputs st) i) (\<lambda>(v0, v1).
      let (v0, g) = bv_randomize build_c v0 g in bind_result (bv_pack v0 os) (\<lambda>os.
      let (v1, g) = bv_randomize build_c v1 g in bind_result (bv_pack v1 os) (\<lambda>os.
      Inr (st\<lparr>sender_inputs := (sender_inputs st)[i := (v0, v1)]\<rparr>, g, os))))) (st, g, os) [s..<s + n] =
    bind_result (fold_result (\<lambda>w v. pack_pair v w) os vs) (\<lambda>os.
      Inr (st\<lparr>sender_inputs := take s (sender_inputs st) @ vs @ drop (s + n) (sender_inputs st)\<rparr>, g', os)))"
  (is "\<exists>vs g'. _ \<and> _ \<and> (\<forall>os. fold_result ?f _ _ = _)")
  using assms
proof (induction n arbitrary: s st g p)
  case 0
  then show ?case by (intro exI [of _ "[]"] exI [of _ g]) simp
next
  case (Suc n)
  obtain v0 v1 where v: "sender_inputs st ! s = (v0, v1)" by fastforce
  have s: "s < length (sender_inputs st)" using Suc.prems(3) by simp
  then have blocks: "block_bv v0" "block_bv v1" using Suc.prems(4) v nth_mem [OF s] by fastforce+
  obtain w0 g0 where w0: "bv_randomize build_c v0 g = (w0, g0)" "block_bv w0" "prng_c.at_byte ks (p + 16) g0"
    using bv_randomize_block [OF Suc.prems(1) blocks(1)] Suc.prems(2) by auto
  obtain w1 g1 where w1: "bv_randomize build_c v1 g0 = (w1, g1)" "block_bv w1" "prng_c.at_byte ks (p + 16 + 16) g1"
    using bv_randomize_block [OF w0(3) blocks(2)] Suc.prems(2) by auto
  let ?st = "st\<lparr>sender_inputs := (sender_inputs st)[s := (w0, w1)]\<rparr>"
  have blocks': "\<forall>v \<in> set (sender_inputs ?st). block_bv (fst v) \<and> block_bv (snd v)"
    using Suc.prems(4) w0(2) w1(2) set_update_subset_insert [of "sender_inputs st" s "(w0, w1)"] by auto
  have step: "?f (st, g, os) s = bind_result (pack_pair (w0, w1) os) (\<lambda>os. Inr (?st, g1, os))" for os
    using s by (cases "bv_pack w0 os") (simp_all add: v w0(1) w1(1) pack_pair_def)
  obtain vs g' where vs: "length vs = n" "\<forall>v \<in> set vs. block_bv (fst v) \<and> block_bv (snd v)"
    "\<And>os. fold_result ?f (?st, g1, os) [Suc s..<Suc s + n] = bind_result (fold_result (\<lambda>w v. pack_pair v w) os vs) (\<lambda>os.
      Inr (?st\<lparr>sender_inputs := take (Suc s) (sender_inputs ?st) @ vs @ drop (Suc s + n) (sender_inputs ?st)\<rparr>, g', os))"
    using Suc.IH [OF w1(3), of "Suc s" ?st] Suc.prems(2,3) blocks' by auto
  have upd: "take (Suc s) (sender_inputs ?st) @ vs @ drop (Suc s + n) (sender_inputs ?st) =
      take s (sender_inputs st) @ ((w0, w1) # vs) @ drop (s + Suc n) (sender_inputs st)"
    using s by (simp add: take_Suc_conv_app_nth)
  have "fold_result ?f (st, g, os) [s..<s + Suc n] = bind_result (fold_result (\<lambda>w v. pack_pair v w) os ((w0, w1) # vs)) (\<lambda>os.
      Inr (st\<lparr>sender_inputs := take s (sender_inputs st) @ ((w0, w1) # vs) @ drop (s + Suc n) (sender_inputs st)\<rparr>, g', os))" for os
  proof -
    have "[s..<s + Suc n] = s # [Suc s..<Suc s + n]" by (simp add: upt_conv_Cons del: upt_Suc)
    then show ?thesis
      by (cases "pack_pair (w0, w1) os") (simp_all only: fold_result.simps step bind_result.simps vs(3) upd, simp_all)
  qed
  then show ?case
    using vs(1,2) w0(2) w1(2) by (intro exI [of _ "(w0, w1) # vs"] exI [of _ g']) simp
qed

lemma fake_received:
  assumes "get_items unpack_pair n os = Inr (vs, r)" "s + n \<le> length (receiver_outputs st)"
    and "wf_bv (receiver_inputs st)" "s + n \<le> bv_nbits (receiver_inputs st)"
  shows "fold_result (\<lambda>(st, os) i. bind_result (bv_unpack os) (\<lambda>(v0, os). bind_result (bv_unpack os) (\<lambda>(v1, os).
      bind_result (bv_get_bit (receiver_inputs st) i) (\<lambda>c.
      bind_result (vec_write (receiver_outputs st) i (if c then v1 else v0)) (\<lambda>vs.
      Inr (st\<lparr>receiver_outputs := vs\<rparr>, os)))))) (st, os) [s..<s + n] =
    Inr (st\<lparr>receiver_outputs := take s (receiver_outputs st) @
      map (\<lambda>j. if bv_bit (receiver_inputs st) (s + j) then snd (vs ! j) else fst (vs ! j)) [0..<n] @
      drop (s + n) (receiver_outputs st)\<rparr>, r)"
  (is "fold_result ?f _ _ = _")
  using assms
proof (induction n arbitrary: s st os vs)
  case (Suc n)
  obtain v0 v1 os0 os1 vs' where u: "bv_unpack os = Inr (v0, os0)" "bv_unpack os0 = Inr (v1, os1)"
    "get_items unpack_pair n os1 = Inr (vs', r)" "vs = (v0, v1) # vs'"
  proof -
    obtain v os1 vs' where 1: "unpack_pair os = Inr (v, os1)" "get_items unpack_pair n os1 = Inr (vs', r)" "vs = v # vs'"
      using Suc.prems(1) by (auto simp: bind_result_Inr_iff)
    then obtain v0 v1 os0 where "bv_unpack os = Inr (v0, os0)" "bv_unpack os0 = Inr (v1, os1)" "v = (v0, v1)"
      by (auto simp: unpack_pair_def bind_result_Inr_iff)
    then show ?thesis using 1 that by blast
  qed
  have s: "s < length (receiver_outputs st)" "s < bv_nbits (receiver_inputs st)" using Suc.prems(2,4) by simp_all
  let ?w = "if bv_bit (receiver_inputs st) s then v1 else v0"
  let ?st = "st\<lparr>receiver_outputs := (receiver_outputs st)[s := ?w]\<rparr>"
  have step: "?f (st, os) s = Inr (?st, os1)"
    using s u(1,2) Suc.prems(3) by (simp add: bv_get_bit_Inr)
  let ?c = "\<lambda>j. if bv_bit (receiver_inputs st) (Suc s + j) then snd (vs' ! j) else fst (vs' ! j)"
  have "fold_result ?f (?st, os1) [Suc s..<Suc s + n] = Inr (?st\<lparr>receiver_outputs := take (Suc s) (receiver_outputs ?st) @
      map ?c [0..<n] @ drop (Suc s + n) (receiver_outputs ?st)\<rparr>, r)"
    using Suc.IH [OF u(3), of "Suc s" ?st] Suc.prems(2-4) by simp
  moreover have "take (Suc s) (receiver_outputs ?st) @ map ?c [0..<n] @ drop (Suc s + n) (receiver_outputs ?st) =
      take s (receiver_outputs st) @
      map (\<lambda>j. if bv_bit (receiver_inputs st) (s + j) then snd (vs ! j) else fst (vs ! j)) [0..<Suc n] @
      drop (s + Suc n) (receiver_outputs st)"
    using s(1) by (simp add: take_Suc_conv_app_nth u(4) upt_conv_Cons map_Suc_upt [symmetric] comp_def del: upt_Suc)
  moreover have "[s..<s + Suc n] = s # [Suc s..<Suc s + n]" by (simp add: upt_conv_Cons del: upt_Suc)
  ultimately show ?case by (simp only: fold_result.simps step bind_result.simps) simp
qed (simp add: append_take_drop_id)

definition stretched :: "BitVector \<Rightarrow> BitVector" where
  "stretched v = fst (bv_randomize build_c v (projr (PRNG_SetSeed build_c (bv_bytes v))))"

lemma stretch:
  assumes "block_bv v"
  shows "\<exists>g g'. PRNG_SetSeed build_c (bv_bytes v) = Inr g \<and> bv_randomize build_c v g = (stretched v, g')" "block_bv (stretched v)"
proof -
  obtain g where g: "PRNG_SetSeed build_c (bv_bytes v) = Inr g" "prng_c.at_byte (bv_bytes v) 0 g"
    using prng_c.SetSeed_start [of "bv_bytes v"] assms by (auto simp: wf_block_def block_bv_def)
  from bv_randomize_block [OF g(2) assms]
  show "\<exists>g g'. PRNG_SetSeed build_c (bv_bytes v) = Inr g \<and> bv_randomize build_c v g = (stretched v, g')" "block_bv (stretched v)"
    by (auto simp: stretched_def g(1))
qed

definition first_state :: "BitVector \<Rightarrow> u32 list PRNG" where
  "first_state v = projr (PRNG_SetSeed build_c (bv_bytes v))"

lemma SetSeed_first: "block_bv v \<Longrightarrow> PRNG_SetSeed build_c (bv_bytes v) = Inr (first_state v)"
  using stretch(1) [of v] by (auto simp: first_state_def)

lemma stretched_first: "stretched v = fst (bv_randomize build_c v (first_state v))"
  by (simp add: stretched_def first_state_def)

lemma seed_and_extend_sender:
  assumes "base_ready st" "base_role st = SENDER"
  shows "\<exists>gs. seed_and_extend build_c st = Inr (st\<lparr>sender_inputs := map (map_prod stretched stretched) (sender_inputs st), base_G_sender := gs\<rparr>)"
proof -
  let ?vs = "sender_inputs st"
  let ?gs = "map (\<lambda>i. (first_state (fst (?vs ! i)), first_state (snd (?vs ! i)))) [0..<128]"
  have len: "length ?vs = 128" "nOT st = 128" using assms(1) by (simp_all add: base_ready_def)
  have "map_result (\<lambda>i. bind_result (vec_read ?vs i) (\<lambda>(v0, v1).
      bind_result (PRNG_SetSeed build_c (bv_bytes v0)) (\<lambda>g0. bind_result (PRNG_SetSeed build_c (bv_bytes v1)) (\<lambda>g1. Inr (g0, g1)))))
      [0..<128] = Inr ?gs"
  proof (rule map_result_Inr)
    fix i :: nat assume "i \<in> set [0..<128]"
    then have i: "i < length ?vs" using len by simp
    then have "block_bv (fst (?vs ! i))" "block_bv (snd (?vs ! i))" using assms(1) unfolding base_ready_def by auto
    then show "bind_result (vec_read ?vs i) (\<lambda>(v0, v1). bind_result (PRNG_SetSeed build_c (bv_bytes v0)) (\<lambda>g0.
        bind_result (PRNG_SetSeed build_c (bv_bytes v1)) (\<lambda>g1. Inr (g0, g1)))) =
        Inr (first_state (fst (?vs ! i)), first_state (snd (?vs ! i)))"
      using i by (simp add: split_def SetSeed_first)
  qed
  moreover have "map fst (map (randomize_pair build_c) (zip ?vs ?gs)) = map (map_prod stretched stretched) ?vs"
    by (rule nth_equalityI) (simp_all add: len randomize_pair_def split_def Let_def stretched_first map_prod_def)
  ultimately show ?thesis
    using assms(2) len by (auto simp: seed_and_extend_def set_seeds_def extend_length_def is_sender_def is_receiver_def Let_def)
qed

lemma seed_and_extend_receiver:
  assumes "base_ready st" "base_role st = RECEIVER"
  shows "\<exists>gs. seed_and_extend build_c st = Inr (st\<lparr>receiver_outputs := map stretched (receiver_outputs st), base_G_receiver := gs\<rparr>)"
proof -
  let ?vs = "receiver_outputs st"
  let ?gs = "map (\<lambda>i. first_state (?vs ! i)) [0..<128]"
  have len: "length ?vs = 128" "nOT st = 128" using assms(1) by (simp_all add: base_ready_def)
  have "map_result (\<lambda>i. bind_result (vec_read ?vs i) (\<lambda>v. PRNG_SetSeed build_c (bv_bytes v))) [0..<128] = Inr ?gs"
  proof (rule map_result_Inr)
    fix i :: nat assume "i \<in> set [0..<128]"
    then have i: "i < length ?vs" using len by simp
    then have "block_bv (?vs ! i)" using assms(1) unfolding base_ready_def by auto
    then show "bind_result (vec_read ?vs i) (\<lambda>v. PRNG_SetSeed build_c (bv_bytes v)) = Inr (first_state (?vs ! i))"
      using i by (simp add: SetSeed_first)
  qed
  moreover have "map fst (map (\<lambda>(v, g). bv_randomize build_c v g) (zip ?vs ?gs)) = map stretched ?vs"
    by (rule nth_equalityI) (simp_all add: len stretched_first)
  ultimately show ?thesis
    using assms(2) len by (auto simp: seed_and_extend_def set_seeds_def extend_length_def is_sender_def is_receiver_def Let_def)
qed

text \<open>The two sides as they run; \<open>seed\<close> is the random seed that \<^verbatim>\<open>ReSeed\<close> takes.\<close>

definition fake_send :: "m128 \<Rightarrow> u32 list BaseOT \<Rightarrow> (u32 list BaseOT \<times> octetStream) result" where
  "fake_send seed st = bind_result (PRNG_SetSeed build_c (storeu seed)) (\<lambda>g.
    bind_result (FakeOT_exec_base build_c False g [] st) (\<lambda>(st, sent). bind_result (vec_read sent 0) (\<lambda>os. Inr (st, os))))"

definition fake_receive :: "m128 \<Rightarrow> octetStream \<Rightarrow> u32 list BaseOT \<Rightarrow> u32 list BaseOT result" where
  "fake_receive seed os st = bind_result (PRNG_SetSeed build_c (storeu seed)) (\<lambda>g.
    bind_result (FakeOT_exec_base build_c False g [os] st) (\<lambda>(st, sent). Inr st))"

lemma fake_send_ok:
  assumes "base_ready Sd" "base_role Sd = SENDER"
  shows "\<exists>vs os r Sd'. fake_send seed Sd = Inr (Sd', os) \<and> get_items unpack_pair 128 os = Inr (vs, r) \<and> length vs = 128 \<and>
    (\<forall>v \<in> set vs. block_bv (fst v) \<and> block_bv (snd v)) \<and> base_ready Sd' \<and> base_role Sd' = SENDER \<and>
    sender_inputs Sd' = map (map_prod stretched stretched) vs"
proof -
  obtain g where g: "PRNG_SetSeed build_c (storeu seed) = Inr g" "prng_c.at_byte (storeu seed) 0 g"
    using prng_c.SetSeed_start [of "storeu seed"] by (auto simp: wf_block_def)
  have Sd: "length (sender_inputs Sd) = 128" "nOT Sd = 128"
    "\<forall>v \<in> set (sender_inputs Sd). block_bv (fst v) \<and> block_bv (snd v)"
    using assms(1) by (simp_all add: base_ready_def)
  obtain vs g' where vs: "length vs = 128" "\<forall>v \<in> set vs. block_bv (fst v) \<and> block_bv (snd v)"
    "FakeOT_send build_c g Sd = bind_result (fold_result (\<lambda>w v. pack_pair v w) empty_stream vs) (\<lambda>os.
      Inr (Sd\<lparr>sender_inputs := vs\<rparr>, g', os))"
    using fake_pairs [OF g(2), of 128 0 Sd] Sd by (auto simp: FakeOT_send_def)
  obtain os r where os: "fold_result (\<lambda>w v. pack_pair v w) empty_stream vs = Inr os" "get_items unpack_pair 128 os = Inr (vs, r)"
    using pairs_delivered [OF vs(2)] vs(1) by auto
  let ?Sd = "Sd\<lparr>sender_inputs := vs\<rparr>"
  have ready: "base_ready ?Sd" "base_role ?Sd = SENDER" using assms vs(1,2) by (simp_all add: base_ready_def)
  obtain gs where gs: "seed_and_extend build_c ?Sd =
      Inr (?Sd\<lparr>sender_inputs := map (map_prod stretched stretched) vs, base_G_sender := gs\<rparr>)"
    using seed_and_extend_sender [OF ready] by auto
  let ?Sd' = "?Sd\<lparr>sender_inputs := map (map_prod stretched stretched) vs, base_G_sender := gs\<rparr>"
  have "fake_send seed Sd = Inr (?Sd', os)"
    using assms(2) gs by (simp add: fake_send_def g(1) FakeOT_exec_base_def is_receiver_def is_sender_def vs(3) os(1))
  moreover have "base_ready ?Sd'" using ready vs(2) stretch(2) by (auto simp: base_ready_def)
  ultimately show ?thesis using vs(1,2) os(2) ready(2) by auto
qed

lemma fake_receive_ok:
  assumes "base_ready Rc" "base_role Rc = RECEIVER" "get_items unpack_pair 128 os = Inr (vs, r)" "length vs = 128"
    and "\<forall>v \<in> set vs. block_bv (fst v) \<and> block_bv (snd v)"
  shows "\<exists>Rc'. fake_receive seed os Rc = Inr Rc' \<and> base_ready Rc' \<and> base_role Rc' = RECEIVER \<and>
    receiver_inputs Rc' = receiver_inputs Rc \<and>
    (\<forall>i < 128. receiver_outputs Rc' ! i = stretched (if bv_bit (receiver_inputs Rc) i then snd (vs ! i) else fst (vs ! i)))"
proof -
  obtain g where g: "PRNG_SetSeed build_c (storeu seed) = Inr g"
    using prng_c.SetSeed_start [of "storeu seed"] by (auto simp: wf_block_def)
  let ?w = "map (\<lambda>j. if bv_bit (receiver_inputs Rc) j then snd (vs ! j) else fst (vs ! j)) [0..<128]"
  let ?Rc = "Rc\<lparr>receiver_outputs := ?w\<rparr>"
  have Rc: "nOT Rc = 128" "length (receiver_outputs Rc) = 128" "wf_bv (receiver_inputs Rc)" "bv_nbits (receiver_inputs Rc) = 128"
    using assms(1) by (simp_all add: base_ready_def)
  have recv: "FakeOT_receive os Rc = Inr ?Rc"
    using fake_received [OF assms(3), of 0 Rc] Rc by (simp add: FakeOT_receive_def)
  have w: "\<forall>v \<in> set ?w. block_bv v" using assms(4,5) by auto
  have ready: "base_ready ?Rc" "base_role ?Rc = RECEIVER" using assms(1,2) w by (simp_all add: base_ready_def)
  obtain gs where gs: "seed_and_extend build_c ?Rc =
      Inr (?Rc\<lparr>receiver_outputs := map stretched ?w, base_G_receiver := gs\<rparr>)"
    using seed_and_extend_receiver [OF ready] by auto
  let ?Rc' = "?Rc\<lparr>receiver_outputs := map stretched ?w, base_G_receiver := gs\<rparr>"
  have "fake_receive seed os Rc = Inr ?Rc'"
    using assms(2) gs recv by (simp add: fake_receive_def g FakeOT_exec_base_def is_receiver_def is_sender_def)
  moreover have "base_ready ?Rc'" using ready(1) w stretch(2) by (auto simp: base_ready_def)
  ultimately show ?thesis using ready(2) by auto
qed

interpretation fake: base_ot build_c "fake_send seed" "fake_receive seed'" for seed seed'
proof
  show "\<exists>g. PRNG_SetSeed build_c bs = Inr g" if "length bs = 16" for bs
    using prng_c.SetSeed_start [of bs] that by (auto simp: wf_block_def)
  fix Sd Rc :: "u32 list BaseOT"
  assume "base_ready Sd" "base_role Sd = SENDER" and Rc: "base_ready Rc" "base_role Rc = RECEIVER"
  then obtain vs os r Sd' where Sd': "fake_send seed Sd = Inr (Sd', os)" "get_items unpack_pair 128 os = Inr (vs, r)"
    "length vs = 128" "\<forall>v \<in> set vs. block_bv (fst v) \<and> block_bv (snd v)" "base_ready Sd'" "base_role Sd' = SENDER"
    "sender_inputs Sd' = map (map_prod stretched stretched) vs"
    using fake_send_ok by blast
  obtain Rc' where Rc': "fake_receive seed' os Rc = Inr Rc'" "base_ready Rc'" "base_role Rc' = RECEIVER"
    "receiver_inputs Rc' = receiver_inputs Rc"
    "\<forall>i < 128. receiver_outputs Rc' ! i = stretched (if bv_bit (receiver_inputs Rc) i then snd (vs ! i) else fst (vs ! i))"
    using fake_receive_ok [OF Rc Sd'(2-4)] by blast
  have "transferred Sd' Rc'" using Rc'(4,5) Sd'(3,7) by (simp add: transferred_def)
  then show "\<exists>Sd' os Rc'. fake_send seed Sd = Inr (Sd', os) \<and> fake_receive seed' os Rc = Inr Rc' \<and> base_ready Sd' \<and>
      base_role Sd' = SENDER \<and> base_ready Rc' \<and> base_role Rc' = RECEIVER \<and> receiver_inputs Rc' = receiver_inputs Rc \<and>
      transferred Sd' Rc'"
    using Sd' Rc' by blast
qed

end
