(* ===== verification/Yao_Inputs.thy ===== *)
theory Yao_Inputs
  imports Fake_OT Yao_Wires
begin

text \<open>
  The evaluator's inputs, from the set-up of the transfers to the labels: \<^verbatim>\<open>YaoEvalInput::exchange\<close> of \<^verbatim>\<open>Yao/YaoEvalInput.h\<close>
  runs the extension with the input bits, \<^verbatim>\<open>process_receiver_inputs\<close> of \<^verbatim>\<open>Yao/YaoGarbler.cpp\<close> with its offset and an empty
  vector; the rows of the matrices mask and unmask the keys.
\<close>

text \<open>The vector of input bits, as \<^verbatim>\<open>my_input\<close> makes it.\<close>

definition push_input :: "BitVector \<Rightarrow> bool \<Rightarrow> BitVector result" where
  "push_input v x = bv_set_bit (bv_resize_zero (bv_nbits v + 1) v) (bv_nbits v) x"

definition input_vector :: "bool list \<Rightarrow> BitVector result" where
  "input_vector bits = fold_result push_input (bv_zero 0) bits"

text \<open>The rows that a batch of \<open>n\<close> uses.\<close>

definition output_rows :: "nat \<Rightarrow> bit_matrix \<Rightarrow> m128 list" where
  "output_rows n M = map (bm_row M) [0..<n]"

definition eval_exchange :: "'k prng_build \<Rightarrow> (nat \<Rightarrow> BitVector \<Rightarrow> 'k OTExtension \<Rightarrow> unit result) \<Rightarrow> bool list \<Rightarrow>
    'k OTExtension \<Rightarrow> ('k OTExtension \<times> octetStream list) result" where
  "eval_exchange b check bits ot = bind_result (input_vector bits) (\<lambda>v. extend_correlated b check (bv_nbits v) v [] ot)"

definition process_batch :: "'k prng_build \<Rightarrow> (nat \<Rightarrow> BitVector \<Rightarrow> 'k OTExtension \<Rightarrow> unit result) \<Rightarrow> m128 list \<Rightarrow>
    octetStream list \<Rightarrow> 'k OTExtension \<Rightarrow> ('k OTExtension \<times> m128 list) result" where
  "process_batch b check keys incoming ot =
    bind_result (extend_correlated b check (length keys) (bv_zero 0) incoming ot) (\<lambda>(ot, sent).
    bind_result (masked_keys (output_rows (length keys) (senderOutput0 ot)) keys) (\<lambda>os. Inr (ot, os)))"

lemma push_input_ok:
  assumes "wf_bv v"
  shows "\<exists>v'. push_input v x = Inr v' \<and> wf_bv v' \<and> bv_nbits v' = bv_nbits v + 1 \<and>
    (\<forall>i \<le> bv_nbits v. bv_bit v' i = (if i = bv_nbits v then x else bv_bit v i))"
proof -
  let ?v = "bv_resize_zero (bv_nbits v + 1) v"
  have v: "wf_bv ?v" "bv_nbits ?v = bv_nbits v + 1" "\<And>i. i < bv_nbits v \<Longrightarrow> bv_bit ?v i = bv_bit v i"
    using bv_resize_zero_bits [OF assms] by simp_all
  show ?thesis using bv_bit_set [OF v(1), of "bv_nbits v" x] v(2,3) by (auto simp: push_input_def)
qed

lemma input_vector_ok:
  "\<exists>v. input_vector bits = Inr v \<and> wf_bv v \<and> bv_nbits v = length bits \<and> (\<forall>i < length bits. bv_bit v i = bits ! i)"
proof (induction bits rule: rev_induct)
  case Nil
  show ?case by (simp add: input_vector_def bv_zero_def wf_bv_def div_ceil_def)
next
  case (snoc x bits)
  then obtain v where v: "input_vector bits = Inr v" "wf_bv v" "bv_nbits v = length bits" "\<forall>i < length bits. bv_bit v i = bits ! i"
    by blast
  then show ?case
    using push_input_ok [OF v(2), of x]
    by (auto simp: input_vector_def fold_result_append bind_result_Inr nth_append less_Suc_eq_le)
qed

lemma length_output_rows [simp]: "length (output_rows n M) = n"
  by (simp add: output_rows_def)

text \<open>
  C7.  A batch of inputs of the evaluator.  Over linked extensions, the garbler's being chosen by its offset, for any input
  bits: the evaluator's \<^verbatim>\<open>exchange\<close> sends one message; the garbler's \<^verbatim>\<open>process_receiver_inputs\<close> on it ends and sends one
  masked key for each bit; with these the evaluator holds exactly the labels of its bits, without a failed assertion, and the
  extensions are linked for the next batch.
\<close>

theorem yao_inputs_correct:
  assumes "ot_ready R" "ot_role R = RECEIVER" "passive_only R" "ot_ready S" "ot_role S = SENDER" "passive_only S"
    and "seeds_linked S R" "bv_register (baseReceiverInput S) = d" "get_signal d"
    and "bits \<noteq> []" "length bits < 2 ^ 31"
  shows "\<exists>R' S' os ws p' kos.
    eval_exchange b check bits R = Inr (R', [os]) \<and>
    garble_inputs_from (length bits) (p, garble_input_exchange keys) = Inr (ws, p', keys @ [ws]) \<and>
    process_batch b check' ws [os] S = Inr (S', kos) \<and>
    eval_inputs_from (length bits) (output_rows (length bits) (receiverOutputMatrix R')) \<lparr>in_bits = bits, i_bit = 0, in_os = kos\<rparr> =
      Inr (map2 (half_label d) ws bits, \<lparr>in_bits = bits, i_bit = length bits, in_os = []\<rparr>) \<and>
    baseReceiverInput S' = baseReceiverInput S \<and> seeds_linked S' R' \<and> ot_ready R' \<and> ot_role R' = RECEIVER \<and> ot_ready S' \<and> ot_role S' = SENDER"
proof -
  obtain v where v: "input_vector bits = Inr v" "wf_bv v" "bv_nbits v = length bits" "\<forall>i < length bits. bv_bit v i = bits ! i"
    using input_vector_ok by blast
  have wf0: "wf_bv (bv_zero 0)" by (simp add: bv_zero_def wf_bv_def div_ceil_def)
  obtain R' S' os where ext: "extend_correlated b check (bv_nbits v) v [] R = Inr (R', [os])"
    "extend_correlated b check' (bv_nbits v) (bv_zero 0) [os] S = Inr (S', [])"
    "\<forall>i < bv_nbits v. bm_row (receiverOutputMatrix R') i = m128_xor (bm_row (senderOutput0 S') i)
      (if bv_bit v i then bv_register (baseReceiverInput S) else m128_zero)"
    "baseReceiverInput S' = baseReceiverInput S" "seeds_linked S' R'" "ot_ready R'" "ot_role R' = RECEIVER"
    "ot_ready S'" "ot_role S' = SENDER"
    using extension_linked [OF assms(1-7) v(2) _ _ wf0, of b check check'] v(3) assms(10,11) by auto
  let ?recv = "output_rows (length bits) (receiverOutputMatrix R')"
  let ?ot = "output_rows (length bits) (senderOutput0 S')"
  have "\<forall>i < length bits. ?recv ! i = (if bits ! i then m128_xor (?ot ! i) d else ?ot ! i)"
    using ext(3) v(3,4) assms(8) by (simp add: output_rows_def)
  from inputs_correct [OF assms(9) _ _ this, of p keys] obtain ws p' kos where ws:
    "garble_inputs_from (length bits) (p, garble_input_exchange keys) = Inr (ws, p', keys @ [ws])"
    "process_receiver_inputs [?ot] [ws] = Inr [kos]"
    "eval_inputs_from (length bits) ?recv \<lparr>in_bits = bits, i_bit = 0, in_os = kos\<rparr> =
      Inr (map2 (half_label d) ws bits, \<lparr>in_bits = bits, i_bit = length bits, in_os = []\<rparr>)"
    by auto
  have len: "length ws = length bits"
    using garble_inputs_from_keys [of "length bits" p keys "[]"] ws(1) by (auto simp: garble_input_exchange_def)
  have "process_batch b check' ws [os] S = Inr (S', kos)"
    using ext(2) v(3) len ws(2) by (auto simp: process_batch_def bind_result_Inr_iff)
  moreover have "eval_exchange b check bits R = Inr (R', [os])" using v(1,3) ext(1) by (simp add: eval_exchange_def)
  ultimately show ?thesis using ws(1,3) ext(4-9) by blast
qed

lemma demo_extension_signal: "get_signal (bv_register (baseReceiverInput (demo_extension SENDER)))"
  by (simp add: demo_extension_def bv_register_def) code_simp

lemma yao_inputs_correct_witness:
  "\<exists>R' S' os ws p' kos.
    eval_exchange build_c (\<lambda>_ _ _. Inr ()) [True, False, True] (demo_extension RECEIVER) = Inr (R', [os]) \<and>
    garble_inputs_from (length [True, False, True]) (\<lparr>doublewords = \<lambda>i. (of_nat (7 * i), 9), used = 0\<rparr>, garble_input_exchange []) =
      Inr (ws, p', [] @ [ws]) \<and>
    process_batch build_c (\<lambda>_ _ _. Inr ()) ws [os] (demo_extension SENDER) = Inr (S', kos) \<and>
    eval_inputs_from (length [True, False, True]) (output_rows (length [True, False, True]) (receiverOutputMatrix R'))
        \<lparr>in_bits = [True, False, True], i_bit = 0, in_os = kos\<rparr> =
      Inr (map2 (half_label (bv_register (baseReceiverInput (demo_extension SENDER)))) ws [True, False, True],
        \<lparr>in_bits = [True, False, True], i_bit = length [True, False, True], in_os = []\<rparr>)"
proof -
  have "[True, False, True] \<noteq> []" "length [True, False, True] < 2 ^ 31" by simp_all
  from yao_inputs_correct [OF demo_extension_ready demo_extension_ready demo_extension_linked refl demo_extension_signal this,
      of build_c "\<lambda>_ _ _. Inr ()" "\<lparr>doublewords = \<lambda>i. (of_nat (7 * i), 9), used = 0\<rparr>" "[]" "\<lambda>_ _ _. Inr ()"]
  show ?thesis by blast
qed



text \<open>A base transfer that leaves different constants, for an example.\<close>

definition constant_base :: "u32 list BaseOT \<Rightarrow> u32 list BaseOT result" where
  "constant_base st = Inr (st\<lparr>sender_inputs := replicate 128
    (\<lparr>bv_bytes = replicate 16 0, bv_nbits = 128\<rparr>, \<lparr>bv_bytes = replicate 16 1, bv_nbits = 128\<rparr>)\<rparr>)"

text \<open>
  C21.  With the file at the root of the repository in place, no input of the evaluator can be processed: the garbler, for which \<^verbatim>\<open>setup\<close> is called with the
  sender's role, becomes the receiver of the extension, and as it passes no choice bits, every extension of a batch that is not empty throws.
\<close>

theorem root_setup_garbler_fails:
  assumes "OT_setup (\<lambda>r. r) b exec unseeded g mem offset SENDER is_passive = Inr st"
    and "\<And>base base'. exec base = Inr base' \<Longrightarrow> base_role base' = base_role base" and "0 < n"
  shows "extend_correlated b check n (bv_zero 0) incoming st = Inl (runtime_error ''wrong number of choice bits'')"
proof -
  obtain base base' where base: "set_receiver_inputs_int128 offset (BaseOT_new mem 128 SENDER) = Inr base"
    "exec base = Inr base'" "OTExtension_new b unseeded g is_passive base' = Inr st"
    using assms(1) by (auto simp: OT_setup_def bind_result_Inr_iff)
  have "base_role base = SENDER"
    using base(1) by (auto simp: set_receiver_inputs_int128_def set_receiver_inputs_def bind_result_Inr_iff BaseOT_new_def split: if_splits)
  then have "base_role base' = SENDER" using assms(2) base(2) by simp
  moreover have "ot_role st = INV_ROLE (base_role base')" using base(3) by (rule OTExtension_new_role)
  ultimately show ?thesis using assms(3) by (simp add: extend_correlated_def is_receiver_def bv_zero_def)
qed

lemma root_setup_garbler_fails_witness:
  "\<exists>st. OT_setup (\<lambda>r. r) build_c constant_base (demo_PRNG (0, 0)) (demo_PRNG (0, 1)) (replicate 16 0) (1, 0) SENDER True = Inr st \<and>
    extend_correlated build_c (\<lambda>_ _ _. Inr ()) 5 (bv_zero 0) [] st = Inl (runtime_error ''wrong number of choice bits'')"
proof -
  obtain base :: "u32 list BaseOT" where base: "set_receiver_inputs_int128 (1, 0) (BaseOT_new (replicate 16 0) 128 SENDER) = Inr base"
    "base_ready base" "base_role base = SENDER"
    using new_base_ready [of "replicate 16 0" "(1, 0)" SENDER] by auto
  let ?vs = "replicate 128 (\<lparr>bv_bytes = replicate 16 0, bv_nbits = 128\<rparr>, \<lparr>bv_bytes = replicate 16 1, bv_nbits = 128\<rparr>)"
  let ?base = "base\<lparr>sender_inputs := ?vs\<rparr>"
  have vs: "set ?vs = {(\<lparr>bv_bytes = replicate 16 0, bv_nbits = 128\<rparr>, \<lparr>bv_bytes = replicate 16 1, bv_nbits = 128\<rparr>)}"
    by (simp add: set_replicate)
  have "base_ready ?base" "distinct_pairs ?base"
    using base(2) vs by (simp_all add: base_ready_def block_bv_def distinct_pairs_def del: set_replicate)
  then obtain st where st: "OTExtension_new build_c (demo_PRNG (0, 0)) (demo_PRNG (0, 1)) True ?base = Inr st"
    using fake.OTExtension_new_ok [of ?base "demo_PRNG (0, 0)" "demo_PRNG (0, 1)" True] base(3) by auto
  then have run: "OT_setup (\<lambda>r. r) build_c constant_base (demo_PRNG (0, 0)) (demo_PRNG (0, 1)) (replicate 16 0) (1, 0) SENDER True = Inr st"
    using base(1) by (simp add: OT_setup_def constant_base_def)
  have "extend_correlated build_c (\<lambda>_ _ _. Inr ()) 5 (bv_zero 0) [] st = Inl (runtime_error ''wrong number of choice bits'')"
    by (rule root_setup_garbler_fails [OF run]) (auto simp: constant_base_def)
  with run show ?thesis by blast
qed

end
