(* ===== verification/Bytecode.thy ===== *)
theory Bytecode
  imports Yao_Machine
begin

text \<open>
  Bytecode files of the binary virtual machine: the encoding of an instruction (\<^verbatim>\<open>Processor/Instruction.hpp\<close>,
  \<^verbatim>\<open>Tools/parse.h\<close>), the loader (\<^verbatim>\<open>GC/Program.hpp\<close>, \<^verbatim>\<open>GC/Instruction.cpp\<close>), the numbers of registers and memory
  cells that it computes, the sizes they give the processor, and the dispatch from opcodes to the instructions of the
  machine (\<^verbatim>\<open>GC/instructions.h\<close>).
\<close>

section \<open>Opcodes\<close>

definition arithmetic_opcodes :: "(string \<times> nat) list" where
  "arithmetic_opcodes =
   [(''CISC'', 0x0), (''LDI'', 0x1), (''LDSI'', 0x2), (''LDMC'', 0x3), (''LDMS'', 0x4), (''STMC'', 0x5),
    (''STMS'', 0x6), (''LDMCI'', 0x7), (''LDMSI'', 0x8), (''STMCI'', 0x9), (''STMSI'', 0xa), (''MOVC'', 0xb),
    (''MOVS'', 0xc), (''PROTECTMEMS'', 0xd), (''PROTECTMEMC'', 0xe), (''PROTECTMEMINT'', 0xf),
    (''LDMINT'', 0xca), (''STMINT'', 0xcb), (''LDMINTI'', 0xcc), (''STMINTI'', 0xcd), (''PUSHINT'', 0xce),
    (''POPINT'', 0xcf), (''MOVINT'', 0xd0), (''LDTN'', 0x10), (''LDARG'', 0x11), (''REQBL'', 0x12),
    (''STARG'', 0x13), (''TIME'', 0x14), (''START'', 0x15), (''STOP'', 0x16), (''USE'', 0x17),
    (''USE_INP'', 0x18), (''RUN_TAPE'', 0x19), (''JOIN_TAPE'', 0x1a), (''CRASH'', 0x1b), (''USE_PREP'', 0x1c),
    (''STARTGRIND'', 0x1d), (''STOPGRIND'', 0x1e), (''NPLAYERS'', 0xe2), (''THRESHOLD'', 0xe3),
    (''PLAYERID'', 0xe4), (''USE_EDABIT'', 0xe5), (''USE_MATMUL'', 0x1f), (''ACTIVE'', 0xe9), (''ADDC'', 0x20),
    (''ADDS'', 0x21), (''ADDM'', 0x22), (''ADDCI'', 0x23), (''ADDSI'', 0x24), (''SUBC'', 0x25),
    (''SUBS'', 0x26), (''SUBML'', 0x27), (''SUBMR'', 0x28), (''SUBCI'', 0x29), (''SUBSI'', 0x2a),
    (''SUBCFI'', 0x2b), (''SUBSFI'', 0x2c), (''PREFIXSUMS'', 0x2d), (''MULC'', 0x30), (''MULM'', 0x31),
    (''MULCI'', 0x32), (''MULSI'', 0x33), (''DIVC'', 0x34), (''DIVCI'', 0x35), (''MODC'', 0x36),
    (''MODCI'', 0x37), (''LEGENDREC'', 0x38), (''DIGESTC'', 0x39), (''INV2M'', 0x3a), (''FLOORDIVC'', 0x3b),
    (''OPEN'', 0xa5), (''MULS'', 0xa6), (''MULRS'', 0xa7), (''DOTPRODS'', 0xa8), (''TRUNC_PR'', 0xa9),
    (''MATMULS'', 0xaa), (''MATMULSM'', 0xab), (''CONV2DS'', 0xac), (''CHECK'', 0xaf),
    (''PRIVATEOUTPUT'', 0xad), (''SECSHUFFLE'', 0xfa), (''GENSECSHUFFLE'', 0xfb), (''APPLYSHUFFLE'', 0xfc),
    (''DELSHUFFLE'', 0xfd), (''INVPERM'', 0xfe), (''TRIPLE'', 0x50), (''BIT'', 0x51), (''SQUARE'', 0x52),
    (''INV'', 0x53), (''INPUTMASK'', 0x56), (''INPUTMASKREG'', 0x5c), (''PREP'', 0x57), (''DABIT'', 0x58),
    (''EDABIT'', 0x59), (''SEDABIT'', 0x5a), (''RANDOMS'', 0x5b), (''RANDOMFULLS'', 0x5d), (''INPUT'', 0x60),
    (''INPUTFIX'', 0xf0), (''INPUTFLOAT'', 0xf1), (''INPUTMIXED'', 0xf2), (''INPUTMIXEDREG'', 0xf3),
    (''RAWINPUT'', 0xf4), (''INPUTPERSONAL'', 0xf5), (''SENDPERSONAL'', 0xf6), (''STARTINPUT'', 0x61),
    (''STOPINPUT'', 0x62), (''READSOCKETC'', 0x63), (''READSOCKETS'', 0x64), (''WRITESOCKETC'', 0x65),
    (''WRITESOCKETS'', 0x66), (''READSOCKETINT'', 0x69), (''WRITESOCKETINT'', 0x6a),
    (''WRITESOCKETSHARE'', 0x6b), (''LISTEN'', 0x6c), (''ACCEPTCLIENTCONNECTION'', 0x6d),
    (''CLOSECLIENTCONNECTION'', 0x6e), (''READCLIENTPUBLICKEY'', 0x6f), (''ANDC'', 0x70), (''XORC'', 0x71),
    (''ORC'', 0x72), (''ANDCI'', 0x73), (''XORCI'', 0x74), (''ORCI'', 0x75), (''NOTC'', 0x76),
    (''SHLC'', 0x80), (''SHRC'', 0x81), (''SHLCI'', 0x82), (''SHRCI'', 0x83), (''SHRSI'', 0x84)]"

definition control_opcodes :: "(string \<times> nat) list" where
  "control_opcodes =
   [(''JMP'', 0x90), (''JMPNZ'', 0x91), (''JMPEQZ'', 0x92), (''EQZC'', 0x93), (''LTZC'', 0x94),
    (''LTC'', 0x95), (''GTC'', 0x96), (''EQC'', 0x97), (''JMPI'', 0x98), (''BITDECINT'', 0x99),
    (''LDINT'', 0x9a), (''ADDINT'', 0x9b), (''SUBINT'', 0x9c), (''MULINT'', 0x9d), (''DIVINT'', 0x9e),
    (''PRINTINT'', 0x9f), (''INCINT'', 0xd1), (''SHUFFLE'', 0xd2), (''CONVINT'', 0xc0), (''CONVMODP'', 0xc1),
    (''PRINTMEM'', 0xb0), (''PRINTREG'', 0xb1), (''RAND'', 0xb2), (''PRINTREGPLAIN'', 0xb3),
    (''PRINTCHR'', 0xb4), (''PRINTSTR'', 0xb5), (''PUBINPUT'', 0xb6), (''RAWOUTPUT'', 0xb7),
    (''STARTPRIVATEOUTPUT'', 0xb8), (''STOPPRIVATEOUTPUT'', 0xb9), (''PRINTCHRINT'', 0xba),
    (''PRINTSTRINT'', 0xbb), (''PRINTFLOATPLAIN'', 0xbc), (''WRITEFILESHARE'', 0xbd),
    (''READFILESHARE'', 0xbe), (''CONDPRINTSTR'', 0xbf), (''PRINTFLOATPREC'', 0xe0),
    (''CONDPRINTPLAIN'', 0xe1), (''INTOUTPUT'', 0xe6), (''FLOATOUTPUT'', 0xe7), (''FIXINPUT'', 0xe8),
    (''GLDI'', 0x101), (''GLDSI'', 0x102), (''GLDMC'', 0x103), (''GLDMS'', 0x104), (''GSTMC'', 0x105),
    (''GSTMS'', 0x106), (''GLDMCI'', 0x107), (''GLDMSI'', 0x108), (''GSTMCI'', 0x109), (''GSTMSI'', 0x10a),
    (''GMOVC'', 0x10b), (''GMOVS'', 0x10c), (''GPROTECTMEMS'', 0x10d), (''GPROTECTMEMC'', 0x10e),
    (''GREQBL'', 0x112), (''GUSE_PREP'', 0x11c), (''GADDC'', 0x120), (''GADDS'', 0x121), (''GADDM'', 0x122),
    (''GADDCI'', 0x123), (''GADDSI'', 0x124), (''GSUBC'', 0x125), (''GSUBS'', 0x126), (''GSUBML'', 0x127),
    (''GSUBMR'', 0x128), (''GSUBCI'', 0x129), (''GSUBSI'', 0x12a), (''GSUBCFI'', 0x12b), (''GSUBSFI'', 0x12c),
    (''GMULC'', 0x130), (''GMULM'', 0x131), (''GMULCI'', 0x132), (''GMULSI'', 0x133), (''GDIVC'', 0x134),
    (''GDIVCI'', 0x135), (''GMULBITC'', 0x136), (''GMULBITM'', 0x137), (''GOPEN'', 0x1a5), (''GMULS'', 0x1a6),
    (''GMULRS'', 0x1a7), (''GDOTPRODS'', 0x1a8), (''GSECSHUFFLE'', 0x1fa), (''GTRIPLE'', 0x150),
    (''GBIT'', 0x151), (''GSQUARE'', 0x152), (''GINV'', 0x153), (''GBITTRIPLE'', 0x154),
    (''GBITGF2NTRIPLE'', 0x155), (''GINPUTMASK'', 0x156), (''GPREP'', 0x157), (''GINPUT'', 0x160),
    (''GSTARTINPUT'', 0x161), (''GSTOPINPUT'', 0x162), (''GREADSOCKETS'', 0x164), (''GWRITESOCKETS'', 0x166),
    (''GRAWINPUT'', 0x1f4), (''GANDC'', 0x170), (''GXORC'', 0x171), (''GORC'', 0x172), (''GANDCI'', 0x173),
    (''GXORCI'', 0x174), (''GORCI'', 0x175), (''GNOTC'', 0x176), (''GSHLCI'', 0x182), (''GSHRCI'', 0x183),
    (''GSHRSI'', 0x184), (''GBITDEC'', 0x18a), (''GBITCOM'', 0x18b), (''GCONVINT'', 0x1c0),
    (''GCONVGF2N'', 0x1c1), (''GPRINTMEM'', 0x1b0), (''GPRINTREG'', 0x1b1), (''GPRINTREGPLAIN'', 0x1b3),
    (''GRAWOUTPUT'', 0x1b7), (''GSTARTPRIVATEOUTPUT'', 0x1b8), (''GSTOPPRIVATEOUTPUT'', 0x1b9),
    (''INITSECURESOCKET'', 0x1ba), (''RESPSECURESOCKET'', 0x1bb)]"

definition opcode_table :: "(string \<times> nat) list" where
  "opcode_table = arithmetic_opcodes @ control_opcodes"

definition gc_opcode_table :: "(string \<times> nat) list" where
  "gc_opcode_table =
   [(''XORS'', 0x200), (''XORM'', 0x201), (''ANDRS'', 0x202), (''BITDECS'', 0x203), (''BITCOMS'', 0x204),
    (''CONVSINT'', 0x205), (''LDMSDI'', 0x206), (''STMSDI'', 0x207), (''LDMSD'', 0x208), (''STMSD'', 0x209),
    (''LDBITS'', 0x20a), (''ANDS'', 0x20b), (''TRANS'', 0x20c), (''BITB'', 0x20d), (''ANDM'', 0x20e),
    (''NOTS'', 0x20f), (''LDMSB'', 0x240), (''STMSB'', 0x241), (''LDMSBI'', 0x242), (''STMSBI'', 0x243),
    (''MOVSB'', 0x244), (''INPUTB'', 0x246), (''INPUTBVEC'', 0x247), (''SPLIT'', 0x248),
    (''CONVCBIT2S'', 0x249), (''ANDRSVEC'', 0x24a), (''XORCBI'', 0x210), (''BITDECC'', 0x211),
    (''NOTCB'', 0x212), (''CONVCINT'', 0x213), (''REVEAL'', 0x214), (''STMSDCI'', 0x215), (''LDMCB'', 0x217),
    (''STMCB'', 0x218), (''XORCB'', 0x219), (''ADDCB'', 0x21a), (''ADDCBI'', 0x21b), (''MULCBI'', 0x21c),
    (''SHRCBI'', 0x21d), (''SHLCBI'', 0x21e), (''CONVCINTVEC'', 0x21f), (''LDMCBI'', 0x258),
    (''STMCBI'', 0x259), (''PRINTREGSIGNED'', 0x220), (''PRINTREGB'', 0x221), (''PRINTREGPLAINB'', 0x222),
    (''PRINTFLOATPLAINB'', 0x223), (''CONDPRINTSTRB'', 0x224), (''CONVCBIT'', 0x230), (''CONVCBITVEC'', 0x231)]"

text \<open>What the switch of \<^verbatim>\<open>parse_operands\<close> reads: the fields of the instruction in the order of the calls.
  The checks of \<^verbatim>\<open>REQBL\<close>, \<^verbatim>\<open>GREQBL\<close> and \<^verbatim>\<open>ACTIVE\<close> against the machine are left out: the binary machine has none for the last, and
  rejects the other two.\<close>

datatype read_action =
    RD_ints nat | RD_r nat | RD_n | RD_long | RD_count nat | RD_vector | RD_fixed nat | RD_raw | RD_throw string

definition register_rows :: "(string list \<times> read_action list) list" where
  "register_rows =
   [([''ADDC'', ''ADDCB'', ''ADDS'', ''ADDM'', ''SUBC'', ''SUBS'', ''SUBML'', ''SUBMR'', ''MULC'', ''MULM'',
     ''DIVC'', ''MODC'', ''FLOORDIVC'', ''TRIPLE'', ''ANDC'', ''XORC'', ''ORC'', ''SHLC'', ''SHRC'', ''GADDC'',
     ''GADDS'', ''GADDM'', ''GSUBC'', ''GSUBS'', ''GSUBML'', ''GSUBMR'', ''GMULC'', ''GMULM'', ''GDIVC'',
     ''GTRIPLE'', ''GANDC'', ''GXORC'', ''GORC'', ''LTC'', ''GTC'', ''EQC'', ''ADDINT'', ''SUBINT'',
     ''MULINT'', ''DIVINT'', ''CONDPRINTPLAIN'', ''INPUTMASKREG''],
     [RD_ints 3]),
    ([''LDMCI'', ''LDMSI'', ''STMCI'', ''STMSI'', ''LDMSBI'', ''STMSBI'', ''LDMCBI'', ''STMCBI'', ''MOVC'',
     ''MOVS'', ''MOVSB'', ''MOVINT'', ''LDMINTI'', ''STMINTI'', ''LEGENDREC'', ''SQUARE'', ''INV'', ''GINV'',
     ''CONVINT'', ''GLDMCI'', ''GLDMSI'', ''GSTMCI'', ''GSTMSI'', ''GMOVC'', ''GMOVS'', ''GSQUARE'', ''GNOTC'',
     ''GCONVINT'', ''GCONVGF2N'', ''LTZC'', ''EQZC'', ''RAND'', ''DABIT'', ''SHUFFLE'',
     ''ACCEPTCLIENTCONNECTION'', ''PREFIXSUMS''],
     [RD_ints 2]),
    ([''BIT'', ''BITB'', ''RANDOMFULLS'', ''PRINTREGPLAIN'', ''PRINTREGPLAINB'', ''LDTN'', ''LDARG'', ''STARG'',
     ''JMPI'', ''GBIT'', ''GPRINTREGPLAIN'', ''JOIN_TAPE'', ''PUSHINT'', ''POPINT'', ''PUBINPUT'',
     ''RAWOUTPUT'', ''GRAWOUTPUT'', ''PRINTINT'', ''NPLAYERS'', ''THRESHOLD'', ''PLAYERID'', ''LISTEN'',
     ''CLOSECLIENTCONNECTION'', ''CRASH'', ''DELSHUFFLE''],
     [RD_r 0])]"

definition value_rows :: "(string list \<times> read_action list) list" where
  "value_rows =
   [([''ADDCI'', ''ADDCBI'', ''ADDSI'', ''SUBCI'', ''SUBSI'', ''SUBCFI'', ''SUBSFI'', ''MULCI'', ''MULCBI'',
     ''MULSI'', ''DIVCI'', ''MODCI'', ''ANDCI'', ''XORCI'', ''XORCBI'', ''ORCI'', ''SHLCI'', ''SHRCI'',
     ''SHRSI'', ''SHLCBI'', ''SHRCBI'', ''NOTC'', ''CONVMODP'', ''GADDCI'', ''GADDSI'', ''GSUBCI'', ''GSUBSI'',
     ''GSUBCFI'', ''GSUBSFI'', ''GMULCI'', ''GMULSI'', ''GDIVCI'', ''GANDCI'', ''GXORCI'', ''GORCI'',
     ''GSHLCI'', ''GSHRCI'', ''GSHRSI'', ''DIGESTC'', ''INPUTMASK'', ''GINPUTMASK'', ''SECSHUFFLE'',
     ''GSECSHUFFLE''],
     [RD_ints 2, RD_n]),
    ([''USE'', ''USE_INP'', ''USE_EDABIT''],
     [RD_ints 2, RD_long]),
    ([''STARTPRIVATEOUTPUT'', ''GSTARTPRIVATEOUTPUT'', ''STOPPRIVATEOUTPUT'', ''GSTOPPRIVATEOUTPUT''],
     [RD_throw ''two-stage private output not supported any more'']),
    ([''USE_MATMUL''],
     [RD_ints 3, RD_long]),
    ([''LDI'', ''LDSI'', ''JMPNZ'', ''JMPEQZ'', ''GLDI'', ''GLDSI'', ''PRINTREG'', ''PRINTREGB'', ''GPRINTREG'',
     ''LDINT'', ''INV2M'', ''CONDPRINTSTR'', ''CONDPRINTSTRB'', ''RANDOMS'', ''GENSECSHUFFLE''],
     [RD_r 0, RD_n]),
    ([''LDMC'', ''LDMS'', ''STMC'', ''STMS'', ''LDMSB'', ''STMSB'', ''LDMCB'', ''STMCB'', ''LDMINT'',
     ''STMINT'', ''GLDMC'', ''GLDMS'', ''GSTMC'', ''GSTMS''],
     [RD_r 0, RD_long]),
    ([''PRINTSTR'', ''PRINTCHR'', ''JMP'', ''START'', ''STOP'', ''PRINTFLOATPREC''],
     [RD_n]),
    ([''TIME'', ''STARTGRIND'', ''STOPGRIND'', ''CHECK''],
     []),
    ([''PRINTFLOATPLAIN'', ''PRINTFLOATPLAINB'', ''APPLYSHUFFLE''],
     [RD_fixed 5]),
    ([''INCINT''],
     [RD_r 0, RD_r 1, RD_n, RD_fixed 2]),
    ([''INVPERM''],
     [RD_fixed 2])]"

definition vector_rows :: "(string list \<times> read_action list) list" where
  "vector_rows =
   [([''MULS'', ''GMULS'', ''MULRS'', ''GMULRS'', ''DOTPRODS'', ''GDOTPRODS'', ''INPUT'', ''GINPUT'',
     ''INPUTFIX'', ''INPUTFLOAT'', ''INPUTMIXED'', ''INPUTMIXEDREG'', ''RAWINPUT'', ''GRAWINPUT'',
     ''INPUTPERSONAL'', ''SENDPERSONAL'', ''PRIVATEOUTPUT'', ''TRUNC_PR'', ''RUN_TAPE'', ''CONV2DS''],
     [RD_count 0, RD_vector]),
    ([''MATMULS''],
     [RD_ints 3, RD_fixed 3]),
    ([''MATMULSM''],
     [RD_ints 3, RD_fixed 9]),
    ([''READFILESHARE''],
     [RD_count 2, RD_r 0, RD_r 1, RD_vector]),
    ([''READSOCKETC'', ''READSOCKETS'', ''READSOCKETINT''],
     [RD_count 2, RD_r 0, RD_n, RD_vector]),
    ([''WRITESOCKETC'', ''WRITESOCKETS'', ''WRITESOCKETSHARE'', ''WRITESOCKETINT''],
     [RD_count 3, RD_r 0, RD_r 1, RD_n, RD_vector]),
    ([''READCLIENTPUBLICKEY'', ''INITSECURESOCKET'', ''RESPSECURESOCKET''],
     [RD_throw ''VM-controlled encryption not supported any more'']),
    ([''STARTINPUT'', ''GSTARTINPUT'', ''STOPINPUT'', ''GSTOPINPUT''],
     [RD_throw ''two-stage input not supported any more'']),
    ([''PRINTMEM'', ''GPRINTMEM''],
     [RD_throw ''memory printing not supported any more'']),
    ([''PRINTCHRINT'', ''PRINTSTRINT''],
     [RD_throw ''run-time printing not supported any more'']),
    ([''PROTECTMEMS'', ''PROTECTMEMC'', ''GPROTECTMEMS'', ''GPROTECTMEMC'', ''PROTECTMEMINT''],
     [RD_throw ''memory protection not supported any more'']),
    ([''GBITTRIPLE'', ''GBITGF2NTRIPLE'', ''GMULBITC'', ''GMULBITM''],
     [RD_throw ''GF(2^n) bit operations not supported any more'']),
    ([''GBITDEC'', ''GBITCOM''],
     [RD_count 2, RD_r 0, RD_n, RD_vector]),
    ([''BITDECINT'', ''EDABIT'', ''SEDABIT'', ''WRITEFILESHARE''],
     [RD_count 1, RD_r 0, RD_vector]),
    ([''PREP'', ''GPREP'', ''CISC''],
     [RD_count 1, RD_raw, RD_vector]),
    ([''USE_PREP'', ''GUSE_PREP''],
     [RD_raw, RD_long]),
    ([''REQBL''],
     [RD_n]),
    ([''GREQBL''],
     [RD_n]),
    ([''ACTIVE''],
     [RD_n])]"

definition binary_rows :: "(string list \<times> read_action list) list" where
  "binary_rows =
   [([''XORM'', ''ANDM'', ''XORCB'', ''FIXINPUT''],
     [RD_n, RD_ints 3]),
    ([''LDBITS''],
     [RD_ints 2, RD_n]),
    ([''BITDECS'', ''BITCOMS'', ''BITDECC'', ''CONVCINTVEC''],
     [RD_count 1, RD_ints 1, RD_vector]),
    ([''CONVCINT'', ''CONVCBIT''],
     [RD_ints 2]),
    ([''CONVSINT'', ''CONVCBITVEC'', ''CONVCBIT2S'', ''NOTS'', ''NOTCB''],
     [RD_n, RD_ints 2]),
    ([''LDMSDI'', ''STMSDI'', ''LDMSD'', ''STMSD'', ''STMSDCI'', ''XORS'', ''ANDRS'', ''ANDRSVEC'', ''ANDS'',
     ''INPUTB'', ''INPUTBVEC'', ''REVEAL''],
     [RD_count 0, RD_vector]),
    ([''PRINTREGSIGNED'', ''INTOUTPUT''],
     [RD_n, RD_ints 1]),
    ([''FLOATOUTPUT''],
     [RD_n, RD_fixed 4]),
    ([''OPEN'', ''GOPEN'', ''TRANS''],
     [RD_count 1, RD_n, RD_vector]),
    ([''SPLIT''],
     [RD_count 2, RD_n, RD_ints 1, RD_vector])]"

definition operand_table :: "(string list \<times> read_action list) list" where
  "operand_table = register_rows @ value_rows @ vector_rows @ binary_rows"

text \<open>The instructions of the binary machine.\<close>

definition gc_instructions :: "string list" where
  "gc_instructions =
   [''XORS'', ''XORCB'', ''XORCBI'', ''NOTS'', ''NOTCB'', ''ANDRS'', ''ANDRSVEC'', ''ANDS'', ''ANDM'',
    ''ADDCB'', ''ADDCBI'', ''MULCBI'', ''BITDECS'', ''BITCOMS'', ''BITDECC'', ''SHRCBI'', ''SHLCBI'',
    ''LDBITS'', ''LDMSB'', ''STMSB'', ''LDMCB'', ''STMCB'', ''LDMSBI'', ''STMSBI'', ''LDMCBI'', ''STMCBI'',
    ''MOVSB'', ''TRANS'', ''BITB'', ''REVEAL'', ''PRINTREGSIGNED'', ''PRINTREGB'', ''PRINTREGPLAINB'',
    ''PRINTFLOATPLAINB'', ''CONDPRINTSTRB'', ''INPUTB'', ''INPUTBVEC'', ''LDMSD'', ''STMSD'', ''LDMSDI'',
    ''STMSDI'', ''STMSDCI'', ''CONVSINT'', ''CONVCINT'', ''CONVCBIT'', ''CONVCBIT2S'', ''PRINTCHR'',
    ''PRINTSTR'', ''PRINTFLOATPREC'', ''LDINT'', ''ADDINT'', ''SUBINT'', ''MULINT'', ''DIVINT'', ''JMP'',
    ''JMPNZ'', ''JMPEQZ'', ''EQZC'', ''LTZC'', ''LTC'', ''GTC'', ''EQC'', ''JMPI'', ''LDMINT'', ''STMINT'',
    ''LDMINTI'', ''STMINTI'', ''PUSHINT'', ''POPINT'', ''MOVINT'', ''BITDECINT'', ''LDARG'', ''STARG'',
    ''TIME'', ''START'', ''STOP'', ''GLDMS'', ''GLDMC'', ''LDMS'', ''LDMC'', ''PRINTINT'', ''STARTGRIND'',
    ''STOPGRIND'', ''RUN_TAPE'', ''JOIN_TAPE'', ''USE'', ''USE_INP'', ''NPLAYERS'', ''THRESHOLD'',
    ''PLAYERID'', ''CRASH'', ''ACTIVE'']"

definition op_name :: "nat \<Rightarrow> string option" where
  "op_name opc = map_of (map prod.swap (opcode_table @ gc_opcode_table)) opc"

definition operand_layout :: "string \<Rightarrow> read_action list option" where
  "operand_layout name = map_option snd (List.find (\<lambda>row. name \<in> set (fst row)) operand_table)"

text \<open>No opcode stands twice in the tables.\<close>

lemma distinct_opcodes: "distinct (map snd (opcode_table @ gc_opcode_table))"
  unfolding opcode_table_def arithmetic_opcodes_def control_opcodes_def gc_opcode_table_def append.simps list.map snd_conv by simp

lemma op_name_iff: "op_name c = Some n \<longleftrightarrow> (n, c) \<in> set (opcode_table @ gc_opcode_table)"
proof -
  have "distinct (map fst (map prod.swap (opcode_table @ gc_opcode_table)))"
    using distinct_opcodes by (simp add: comp_def)
  then show ?thesis unfolding op_name_def by (subst map_of_eq_Some_iff) auto
qed

lemma op_name_all: "list_all (\<lambda>p. op_name (snd p) = Some (fst p)) (opcode_table @ gc_opcode_table)"
  unfolding op_name_iff list_all_iff by simp

lemmas op_names = op_name_all [unfolded opcode_table_def arithmetic_opcodes_def control_opcodes_def gc_opcode_table_def append.simps list.pred_inject snd_conv fst_conv]

lemma opcodes_check: "list_all P (opcode_table @ gc_opcode_table) \<Longrightarrow> op_name c = Some n \<Longrightarrow> P (n, c)"
  unfolding op_name_iff list_all_iff by blast

section \<open>Parsing an instruction\<close>

record base_instruction =
  opcode :: nat
  isize :: u32
  r_args :: "u32 list"
  n_imm :: u64
  start_args :: "u32 list"

text \<open>
  The input file with its fail bit.  A read past the end delivers what is left, leaves the rest of its destination as
  it was, and sets the bit; later reads do nothing.  The arrays that are read into hold zeros before.
\<close>

record code_stream =
  cs_bytes :: "u8 list"
  cs_fail :: bool

definition read_bytes :: "nat \<Rightarrow> code_stream \<Rightarrow> u8 list \<times> code_stream" where
  "read_bytes m s =
    (if cs_fail s then (replicate m 0, s)
     else if m \<le> length (cs_bytes s) then (take m (cs_bytes s), s\<lparr>cs_bytes := drop m (cs_bytes s)\<rparr>)
     else (cs_bytes s @ replicate (m - length (cs_bytes s)) 0, s\<lparr>cs_bytes := [], cs_fail := True\<rparr>))"

text \<open>\<^verbatim>\<open>be32toh\<close> and \<^verbatim>\<open>be64toh\<close> of the bytes in the order of the file.\<close>

definition be_value :: "u8 list \<Rightarrow> u64" where
  "be_value bs = le_value (rev bs)"

fun be_words :: "nat \<Rightarrow> u8 list \<Rightarrow> u32 list" where
  "be_words 0 bs = []"
| "be_words (Suc m) bs = ucast (be_value (take 4 bs)) # be_words m (drop 4 bs)"

fun le_words :: "nat \<Rightarrow> u8 list \<Rightarrow> u32 list" where
  "le_words 0 bs = []"
| "le_words (Suc m) bs = ucast (le_value (take 4 bs)) # le_words m (drop 4 bs)"

text \<open>
  The state of \<^verbatim>\<open>parse_operands\<close>.  A number from a failed \<^verbatim>\<open>get_int\<close> or \<^verbatim>\<open>get_long\<close> is uninitialised (\<open>ps_lost\<close>): an
  instruction that holds one has no meaning, unless \<^verbatim>\<open>get_vector\<close> notices the failure and throws.
\<close>

record parse_state =
  ps_inst :: base_instruction
  ps_stream :: code_stream
  ps_count :: u32
  ps_lost :: bool

definition read_int :: "parse_state \<Rightarrow> u32 \<times> parse_state" where
  "read_int st =
    (let (bs, s) = read_bytes 4 (ps_stream st)
     in (ucast (be_value bs), st\<lparr>ps_stream := s, ps_lost := ps_lost st \<or> cs_fail s\<rparr>))"

definition read_long :: "parse_state \<Rightarrow> u64 \<times> parse_state" where
  "read_long st =
    (let (bs, s) = read_bytes 8 (ps_stream st)
     in (be_value bs, st\<lparr>ps_stream := s, ps_lost := ps_lost st \<or> cs_fail s\<rparr>))"

definition parse_get_vector :: "u32 \<Rightarrow> parse_state \<Rightarrow> parse_state result" where
  "parse_get_vector m st =
    (if cs_fail (ps_stream st) then Inl (runtime_error ''error when parsing vector'')
     else if m <s 0 then Inl (runtime_error ''vector::_M_default_append'')
     else if 2 ^ 29 \<le> m then Inl undefined_access
     else let (bs, s) = read_bytes (4 * unat m) (ps_stream st)
       in Inr (st\<lparr>ps_inst := (ps_inst st)\<lparr>start_args := be_words (unat m) bs\<rparr>, ps_stream := s\<rparr>))"

fun run_action :: "read_action \<Rightarrow> parse_state \<Rightarrow> parse_state result" where
  "run_action (RD_ints m) st =
    (let (bs, s) = read_bytes (4 * m) (ps_stream st)
     in Inr (st\<lparr>ps_inst := (ps_inst st)\<lparr>r_args := be_words m bs @ drop m (r_args (ps_inst st))\<rparr>, ps_stream := s\<rparr>))"
| "run_action (RD_r i) st =
    (let (x, st) = read_int st in Inr (st\<lparr>ps_inst := (ps_inst st)\<lparr>r_args := (r_args (ps_inst st))[i := x]\<rparr>\<rparr>))"
| "run_action RD_n st = (let (x, st) = read_int st in Inr (st\<lparr>ps_inst := (ps_inst st)\<lparr>n_imm := scast x\<rparr>\<rparr>))"
| "run_action RD_long st = (let (x, st) = read_long st in Inr (st\<lparr>ps_inst := (ps_inst st)\<lparr>n_imm := x\<rparr>\<rparr>))"
| "run_action (RD_count m) st = (let (x, st) = read_int st in Inr (st\<lparr>ps_count := x - word_of_nat m\<rparr>))"
| "run_action RD_vector st = parse_get_vector (ps_count st) st"
| "run_action (RD_fixed m) st = parse_get_vector (word_of_nat m) st"
| "run_action RD_raw st =
    (let (bs, s) = read_bytes 16 (ps_stream st)
     in Inr (st\<lparr>ps_inst := (ps_inst st)\<lparr>r_args := le_words 4 bs\<rparr>, ps_stream := s\<rparr>))"
| "run_action (RD_throw msg) st = Inl (runtime_error msg)"

definition parse_operands :: "base_instruction \<Rightarrow> code_stream \<Rightarrow> (base_instruction \<times> code_stream) result" where
  "parse_operands b s =
    (case op_name (opcode b) of
       None \<Rightarrow> Inl (runtime_error ''Invalid instruction'')
     | Some name \<Rightarrow>
         (case operand_layout name of
            None \<Rightarrow> Inl (runtime_error ''Invalid instruction'')
          | Some actions \<Rightarrow>
              bind_result (fold_result (\<lambda>st a. run_action a st) \<lparr>ps_inst = b, ps_stream = s, ps_count = 0, ps_lost = False\<rparr> actions)
                (\<lambda>st. if ps_lost st then Inl undefined_access else Inr (ps_inst st, ps_stream st))))"

text \<open>\<^verbatim>\<open>BaseInstruction::parse\<close>: ten bits of opcode, above them the size, of which an \<^verbatim>\<open>int\<close> is kept.\<close>

definition blank_instruction :: "u64 \<Rightarrow> base_instruction" where
  "blank_instruction code =
    (let m = ucast (drop_bit 10 code)
     in \<lparr>opcode = unat (code AND 0x3FF), isize = (if m = 0 then 1 else m), r_args = [0, 0, 0, 0], n_imm = 0, start_args = []\<rparr>)"

definition parse_base :: "code_stream \<Rightarrow> (base_instruction \<times> code_stream) result" where
  "parse_base s =
    (let (bs, s) = read_bytes 8 s
     in if cs_fail s then Inl undefined_access else parse_operands (blank_instruction (be_value bs)) s)"

text \<open>\<^verbatim>\<open>GC::Instruction::parse\<close> and the loop of \<^verbatim>\<open>GC::Program::parse\<close>, which ends at the end of the file.\<close>

definition parse_instruction :: "code_stream \<Rightarrow> (base_instruction \<times> code_stream) result" where
  "parse_instruction s =
    bind_result (parse_base s) (\<lambda>(b, s).
    if \<exists>name \<in> set gc_instructions. op_name (opcode b) = Some name then Inr (b, s)
    else Inl (runtime_error ''Code not defined for instruction''))"

lemma read_bytes_length: "length (cs_bytes (snd (read_bytes m s))) \<le> length (cs_bytes s)"
  by (simp add: read_bytes_def)

lemma read_bytes_split: "read_bytes m s = (bs, s') \<Longrightarrow> length (cs_bytes s') \<le> length (cs_bytes s)"
  using read_bytes_length [of m s] by simp

lemma run_action_length:
  "run_action a st = Inr st' \<Longrightarrow> length (cs_bytes (ps_stream st')) \<le> length (cs_bytes (ps_stream st))"
  by (cases a) (auto simp: read_int_def read_long_def parse_get_vector_def Let_def split: prod.splits if_splits dest: read_bytes_split)

lemma run_actions_length:
  "fold_result (\<lambda>st a. run_action a st) st as = Inr st' \<Longrightarrow> length (cs_bytes (ps_stream st')) \<le> length (cs_bytes (ps_stream st))"
  by (induction as arbitrary: st) (auto simp: bind_result_Inr_iff dest!: run_action_length intro: order.trans)

lemma parse_instruction_length:
  assumes "parse_instruction s = Inr (b, s')"
  shows "length (cs_bytes s') < length (cs_bytes s)"
proof -
  obtain bs s1 where s1: "read_bytes 8 s = (bs, s1)" by (metis surj_pair)
  then have ok: "\<not> cs_fail s1" "parse_operands (blank_instruction (be_value bs)) s1 = Inr (b, s')"
    using assms by (auto simp: parse_instruction_def parse_base_def bind_result_Inr_iff split: if_splits)
  have "length (cs_bytes s1) < length (cs_bytes s)"
    using s1 ok(1) by (auto simp: read_bytes_def split: if_splits)
  moreover have "length (cs_bytes s') \<le> length (cs_bytes s1)"
    using ok(2) by (auto simp: parse_operands_def bind_result_Inr_iff dest!: run_actions_length split: option.splits if_splits)
  ultimately show ?thesis by simp
qed

function parse_program :: "code_stream \<Rightarrow> base_instruction list result" where
  "parse_program s =
    (if cs_fail s \<or> cs_bytes s = [] then Inr []
     else case parse_instruction s of
       Inl e \<Rightarrow> Inl e
     | Inr (b, s) \<Rightarrow> (case parse_program s of Inl e \<Rightarrow> Inl e | Inr p \<Rightarrow> Inr (b # p)))"
  by pat_completeness auto

termination
  by (relation "measure (\<lambda>s. length (cs_bytes s))") (auto dest: parse_instruction_length)

declare parse_program.simps [simp del]

section \<open>Registers and memory of a program\<close>

datatype RegType = INT_reg | SBIT_reg | CBIT_reg | DYN_SBIT | SINT | CINT | SGF2N | CGF2N | NONE

definition has_name :: "base_instruction \<Rightarrow> string list \<Rightarrow> bool" where
  "has_name b names = (case op_name (opcode b) of None \<Rightarrow> False | Some name \<Rightarrow> name \<in> set names)"

text \<open>\<^verbatim>\<open>get_reg_type\<close>; for an opcode of the arithmetic over binary fields it asks the opcode without that bit.\<close>

definition int_names :: "string list" where
  "int_names = [''LDMINT'', ''STMINT'', ''LDMINTI'', ''STMINTI'', ''PUSHINT'', ''POPINT'', ''MOVINT'', ''READSOCKETINT'',
    ''WRITESOCKETINT'', ''READCLIENTPUBLICKEY'', ''INITSECURESOCKET'', ''RESPSECURESOCKET'', ''LDARG'', ''LDINT'', ''INCINT'',
    ''SHUFFLE'', ''CONVMODP'', ''GCONVGF2N'', ''RAND'', ''NPLAYERS'', ''THRESHOLD'', ''PLAYERID'', ''CONVCBIT'', ''CONVCBITVEC'',
    ''INTOUTPUT'', ''ACCEPTCLIENTCONNECTION'', ''GENSECSHUFFLE'']"

definition none_names :: "string list" where
  "none_names = [''PREP'', ''GPREP'', ''USE_PREP'', ''GUSE_PREP'', ''USE_EDABIT'', ''USE_MATMUL'', ''RUN_TAPE'', ''CISC'']"

definition cint_names :: "string list" where
  "cint_names = [''LDI'', ''LDMC'', ''STMC'', ''LDMCI'', ''STMCI'', ''MOVC'', ''ADDC'', ''ADDCI'', ''SUBC'', ''SUBCI'', ''SUBCFI'',
    ''MULC'', ''MULCI'', ''DIVC'', ''DIVCI'', ''MODC'', ''MODCI'', ''LEGENDREC'', ''DIGESTC'', ''INV2M'', ''FLOORDIVC'', ''OPEN'',
    ''ANDC'', ''XORC'', ''ORC'', ''ANDCI'', ''XORCI'', ''ORCI'', ''NOTC'', ''SHLC'', ''SHRC'', ''SHLCI'', ''SHRCI'', ''CONVINT'',
    ''PUBINPUT'', ''FLOATOUTPUT'', ''READSOCKETC'', ''PRIVATEOUTPUT'', ''FIXINPUT'']"

definition write_group :: "nat \<Rightarrow> nat" where
  "write_group opc = unat ((word_of_nat opc :: u32) AND 0x2B0)"

definition reg_type_below :: "(nat \<Rightarrow> RegType) \<Rightarrow> base_instruction \<Rightarrow> RegType" where
  "reg_type_below ask b =
    (if write_group (opcode b) = 0x200 then SBIT_reg
     else if write_group (opcode b) = 0x210 then CBIT_reg
     else if has_name b int_names then INT_reg
     else if has_name b none_names then NONE
     else if has_name b cint_names then CINT
     else if bit (opcode b) 8 then (if ask (opcode b - 0x100) = CINT then CGF2N else SGF2N)
     else if opcode b div 16 = 9 then INT_reg else SINT)"

definition get_reg_type :: "base_instruction \<Rightarrow> RegType" where
  "get_reg_type b = reg_type_below (\<lambda>opc. reg_type_below (\<lambda>_. SINT) (b\<lparr>opcode := opc\<rparr>)) b"

text \<open>\<^verbatim>\<open>DIV_CEIL\<close> on \<^verbatim>\<open>long long\<close>, assigned to an \<^verbatim>\<open>int\<close>.\<close>

definition div_ceil_int :: "int \<Rightarrow> int \<Rightarrow> u32" where
  "div_ceil_int x m = (let y = x + m - 1 in word_of_int (if 0 \<le> y then y div m else - ((- y) div m)))"

text \<open>
  \<^verbatim>\<open>get_max_reg\<close>.  \<open>reg_walk\<close>: the stride over the arguments, the first of them, how far before it its size stands (0 for
  the size of the instruction), and that size.  The arithmetic instructions \<^verbatim>\<open>DOTPRODS\<close>, \<^verbatim>\<open>MATMULS\<close>, \<^verbatim>\<open>MATMULSM\<close> and
  \<^verbatim>\<open>CONV2DS\<close>, which have code of their own, are no instructions of this machine.
\<close>

definition reg_walk :: "base_instruction \<Rightarrow> nat \<times> nat \<times> nat \<times> u32" where
  "reg_walk b =
    (let m = isize b in
     if has_name b [''EDABIT'', ''SEDABIT''] then (1, 0, 0, m)
     else if has_name b [''OPEN''] then (2, 0, 0, m)
     else if has_name b [''LDMSD'', ''LDMSDI''] then (3, 0, 0, m)
     else if has_name b [''STMSD'', ''STMSDI''] then (2, 0, 0, m)
     else if has_name b [''ANDRS'', ''XORS'', ''ANDS''] then (4, 1, 1, m)
     else if has_name b [''INPUTB''] then (4, 3, 2, m)
     else if has_name b [''ANDM'', ''NOTS'', ''NOTCB''] then (0, 0, 0, div_ceil_int (sint (n_imm b)) 64)
     else if has_name b [''CONVCBIT2S''] then (0, 0, 0, div_ceil_int (sint (n_imm b)) 64)
     else if has_name b [''CONVCINTVEC''] then (0, 0, 0, div_ceil_int (sint m) 64)
     else if has_name b [''CONVCBITVEC''] then (0, 0, 0, ucast (n_imm b))
     else if has_name b [''REVEAL''] then (3, 1, 1, div_ceil_int (sint (n_imm b)) 64)
     else if has_name b [''SPLIT''] then (1, 0, 0, div_ceil_int (sint m) 64)
     else if has_name b [''INPUTPERSONAL'', ''PRIVATEOUTPUT''] then (4, 2, 2, m)
     else if has_name b [''SENDPERSONAL''] then (5, 2, 2, m)
     else if has_name b [''READSOCKETS'', ''READSOCKETC'', ''READSOCKETINT'', ''WRITESOCKETSHARE'', ''WRITESOCKETC'',
         ''WRITESOCKETINT''] then (0, 0, 0, ucast (n_imm b))
     else (0, 0, 0, m))"

definition strided_regs :: "base_instruction \<Rightarrow> u32" where
  "strided_regs b =
    (let (skip, offset, before, m) = reg_walk b; args = start_args b
     in foldl (\<lambda>res i. max res (args ! i +
          (if before = 0 then m
           else if bit (opcode b) 9 then div_ceil_int (sint (args ! (i - before))) 64
           else args ! (i - before)))) 0
        (filter (\<lambda>i. offset \<le> i \<and> (i - offset) mod skip = 0) [0..<length args]))"

text \<open>
  \<^verbatim>\<open>andrsvec\<close> and \<^verbatim>\<open>inputbvec\<close> count the arguments of a group.  \<^verbatim>\<open>n_prefix\<close>, set to 2 or 3, is a \<^verbatim>\<open>bool\<close> and so 1: the number
  of bits, and the player of an input, are counted among the registers.
\<close>

function prefixed_regs :: "u32 list \<Rightarrow> u32 \<Rightarrow> u32 result" where
  "prefixed_regs [] res = Inr res"
| "prefixed_regs [x] res = Inl undefined_access"
| "prefixed_regs (x # y # args) res =
    (let k = nat (sint x - 1); sz = div_ceil_int (sint y) 64
     in if length (y # args) < k then Inl (exit_failure ''assertion failed'')
        else prefixed_regs (drop k (y # args)) (foldl (\<lambda>res z. if res <s z + sz then z + sz else res) res (take k (y # args))))"
  by pat_completeness auto

termination
  by (relation "measure (\<lambda>(args, res). length args)") auto

definition all_regs :: "base_instruction \<Rightarrow> u32" where
  "all_regs b = (case reg_walk b of (_, _, _, m) \<Rightarrow> foldl max (foldl max 0 (start_args b)) (r_args b) + m)"

text \<open>
  The second loop of the case \<^verbatim>\<open>TRANS\<close> looks at \<^verbatim>\<open>args[n_outputs]\<close> in every turn, the first input only.
\<close>

definition trans_regs :: "base_instruction \<Rightarrow> u32 result" where
  "trans_regs b =
    (let n_outputs = sint (ucast (n_imm b) :: u32); args = start_args b; n_inputs = int (length args) - n_outputs;
         ceil64 = (\<lambda>x. (let y = x + 63 in if 0 \<le> y then y div 64 else - ((- y) div 64)))
     in bind_result (map_result (\<lambda>i. bind_result (vec_read args i) (\<lambda>a. Inr (sint a + ceil64 n_inputs))) [0..<nat n_outputs]) (\<lambda>outs.
        bind_result (map_result (\<lambda>j. if n_outputs < 0 then Inl undefined_access
          else bind_result (vec_read args (nat n_outputs)) (\<lambda>a. Inr (sint a + ceil64 n_outputs))) [0..<nat n_inputs]) (\<lambda>ins.
        Inr (word_of_int (foldl max 0 (outs @ ins))))))"

definition get_max_reg :: "base_instruction \<Rightarrow> RegType \<Rightarrow> u32 result" where
  "get_max_reg b t =
    (let r = r_args b; m = isize b in
     if has_name b [''DABIT''] then Inr (if t = SBIT_reg then r ! 1 + m else if t = SINT then r ! 0 + m else 0)
     else if has_name b [''EDABIT'', ''SEDABIT''] \<and> t \<noteq> SBIT_reg then Inr (if t = SINT then r ! 0 + m else 0)
     else if has_name b [''INPUTMASKREG''] then Inr (if t = SINT then r ! 0 + m else if t = CINT then r ! 1 + m else 0)
     else if has_name b [''TRANS''] then (if t = SBIT_reg then trans_regs b else Inr 0)
     else if \<not> has_name b [''EDABIT'', ''SEDABIT''] \<and> get_reg_type b \<noteq> t then Inr 0
     else if has_name b [''ANDRSVEC'', ''INPUTBVEC''] then prefixed_regs (start_args b) 0
     else if 0 < fst (reg_walk b) then Inr (strided_regs b)
     else Inr (all_regs b))"

definition is_direct_memory_access :: "base_instruction \<Rightarrow> bool" where
  "is_direct_memory_access b = has_name b [''LDMS'', ''STMS'', ''GLDMS'', ''GSTMS'', ''LDMC'', ''STMC'', ''GLDMC'', ''GSTMC'',
    ''LDMINT'', ''STMINT'', ''LDMSB'', ''STMSB'', ''LDMCB'', ''STMCB'']"

definition dynamic_cells :: "nat \<Rightarrow> u32 list \<Rightarrow> u32" where
  "dynamic_cells m args = foldl (\<lambda>res i. max res (args ! (m * i + 1) + 1)) 0 [0..<length args div m]"

definition get_mem :: "base_instruction \<Rightarrow> RegType \<Rightarrow> u32" where
  "get_mem b t =
    (if has_name b [''LDMSD''] then (if t = DYN_SBIT then dynamic_cells 3 (start_args b) else 0)
     else if has_name b [''STMSD''] then (if t = DYN_SBIT then dynamic_cells 2 (start_args b) else 0)
     else if get_reg_type b = t \<and> is_direct_memory_access b then ucast (n_imm b + scast (isize b)) else 0)"

text \<open>\<^verbatim>\<open>compute_constants\<close>, for one type of registers at a time.\<close>

definition num_reg :: "base_instruction list \<Rightarrow> RegType \<Rightarrow> u32 result" where
  "num_reg p t = fold_result (\<lambda>res b. bind_result (get_max_reg b t) (\<lambda>m. Inr (max res m))) 0 p"

definition direct_mem :: "base_instruction list \<Rightarrow> RegType \<Rightarrow> u32" where
  "direct_mem p t = foldl (\<lambda>res b. max res (get_mem b t)) 0 p"

text \<open>\<^verbatim>\<open>Processor::reset\<close> and \<^verbatim>\<open>Machine::reset\<close>: registers get their number, memories only grow.\<close>

definition resize_min_cells :: "'a \<Rightarrow> nat \<Rightarrow> 'a list \<Rightarrow> 'a list" where
  "resize_min_cells fresh m xs = (if length xs < m then resize_regs fresh m xs else xs)"

definition processor_reset :: "base_instruction list \<Rightarrow> u32 \<Rightarrow> control \<times> 'a store \<Rightarrow> (control \<times> 'a store) result" where
  "processor_reset p arg = (\<lambda>(k, S, MS).
    bind_result (num_reg p SBIT_reg) (\<lambda>s. bind_result (num_reg p CBIT_reg) (\<lambda>c. bind_result (num_reg p INT_reg) (\<lambda>i.
    Inr (k\<lparr>C_regs := resize_regs 0 (unat c) (C_regs k), I_regs := resize_regs 0 (unat i) (I_regs k), tape_arg := arg, pc := 0\<rparr>,
      resize_regs [] (unat s) S, MS)))))"

definition machine_reset :: "base_instruction list \<Rightarrow> control \<times> 'a store \<Rightarrow> control \<times> 'a store" where
  "machine_reset p = (\<lambda>(k, S, MS).
    (k\<lparr>MC_mem := resize_min_cells 0 (unat (direct_mem p CBIT_reg)) (MC_mem k), MI_mem := resize_min_cells 0 (unat (direct_mem p INT_reg)) (MI_mem k)\<rparr>,
     S, resize_min_cells [] (unat (direct_mem p SBIT_reg)) MS))"

section \<open>Dispatch\<close>

text \<open>
  The switch of \<^verbatim>\<open>Program::execute\<close>: which instruction of the machine an opcode is, with \<^verbatim>\<open>R0\<close>, \<^verbatim>\<open>REG1\<close>, \<^verbatim>\<open>IMM\<close>,
  \<^verbatim>\<open>EXTRA\<close> and \<^verbatim>\<open>SIZE\<close>.  Not decoded: instructions with negative registers, numbers of bits or arguments, and
  those the model leaves out (inputs, random bits, timers, tapes, the number of the player, floating-point output).
\<close>

definition decode_table :: "(string \<times> (nat list \<Rightarrow> u64 \<Rightarrow> nat list \<Rightarrow> nat \<Rightarrow> instr)) list" where
  "decode_table =
   [(''XORS'', \<lambda>r n a m. SECRET (XORS a)), (''NOTS'', \<lambda>r n a m. SECRET (NOTS (unat n) (r ! 0) (r ! 1))),
    (''ANDRS'', \<lambda>r n a m. SECRET (ANDRS a)), (''ANDRSVEC'', \<lambda>r n a m. SECRET (ANDRSVEC a)),
    (''ANDS'', \<lambda>r n a m. SECRET (ANDS a)), (''ANDM'', \<lambda>r n a m. SECRET (ANDM (unat n) (r ! 0) (r ! 1) (r ! 2))),
    (''MOVSB'', \<lambda>r n a m. SECRET (MOVSB (r ! 0) (r ! 1))), (''BITDECS'', \<lambda>r n a m. SECRET (BITDECS a (r ! 0))),
    (''BITCOMS'', \<lambda>r n a m. SECRET (BITCOMS (r ! 0) a)), (''TRANS'', \<lambda>r n a m. SECRET (TRANS (unat n) a)),
    (''LDBITS'', \<lambda>r n a m. SECRET (LDBITS (r ! 0) (r ! 1) n)),
    (''CONVSINT'', \<lambda>r n a m. SECRET (CONVSINT (r ! 0) (unat n) (r ! 1))),
    (''CONVCBIT2S'', \<lambda>r n a m. SECRET (CONVCBIT2S (unat n) (r ! 0) (r ! 1))),
    (''LDMSB'', \<lambda>r n a m. SECRET (LDMSB m (r ! 0) n)), (''STMSB'', \<lambda>r n a m. SECRET (STMSB m (r ! 0) n)),
    (''LDMSBI'', \<lambda>r n a m. SECRET (LDMSBI m (r ! 0) (r ! 1))), (''STMSBI'', \<lambda>r n a m. SECRET (STMSBI m (r ! 0) (r ! 1))),
    (''LDMSD'', \<lambda>r n a m. SECRET (LDMSD a)), (''STMSD'', \<lambda>r n a m. SECRET (STMSD a)),
    (''LDMSDI'', \<lambda>r n a m. SECRET (LDMSDI a)), (''STMSDI'', \<lambda>r n a m. SECRET (STMSDI a)),
    (''XORCB'', \<lambda>r n a m. CBIT (XORCB (unat n) (r ! 0) (r ! 1) (r ! 2))), (''XORCBI'', \<lambda>r n a m. CBIT (XORCBI (r ! 0) (r ! 1) n)),
    (''NOTCB'', \<lambda>r n a m. CBIT (NOTCB (unat n) (r ! 0) (r ! 1))), (''BITDECC'', \<lambda>r n a m. CBIT (BITDECC a (r ! 0))),
    (''ADDCB'', \<lambda>r n a m. CBIT (ADDCB (r ! 0) (r ! 1) (r ! 2))), (''ADDCBI'', \<lambda>r n a m. CBIT (ADDCBI (r ! 0) (r ! 1) n)),
    (''MULCBI'', \<lambda>r n a m. CBIT (MULCBI (r ! 0) (r ! 1) n)), (''SHRCBI'', \<lambda>r n a m. CBIT (SHRCBI (r ! 0) (r ! 1) n)),
    (''SHLCBI'', \<lambda>r n a m. CBIT (SHLCBI (r ! 0) (r ! 1) n)), (''CONVCINT'', \<lambda>r n a m. CBIT (CONVCINT (r ! 0) (r ! 1))),
    (''LDMCB'', \<lambda>r n a m. CBIT (LDMCB m (r ! 0) n)), (''STMCB'', \<lambda>r n a m. CBIT (STMCB m (r ! 0) n)),
    (''LDMCBI'', \<lambda>r n a m. CBIT (LDMCBI m (r ! 0) (r ! 1))), (''STMCBI'', \<lambda>r n a m. CBIT (STMCBI m (r ! 0) (r ! 1))),
    (''STMSDCI'', \<lambda>r n a m. CBIT (STMSDCI a)),
    (''LDINT'', \<lambda>r n a m. REGINT (LDINT (r ! 0) n)), (''MOVINT'', \<lambda>r n a m. REGINT (MOVINT (r ! 0) (r ! 1))),
    (''ADDINT'', \<lambda>r n a m. REGINT (ADDINT (r ! 0) (r ! 1) (r ! 2))), (''SUBINT'', \<lambda>r n a m. REGINT (SUBINT (r ! 0) (r ! 1) (r ! 2))),
    (''MULINT'', \<lambda>r n a m. REGINT (MULINT (r ! 0) (r ! 1) (r ! 2))), (''DIVINT'', \<lambda>r n a m. REGINT (DIVINT (r ! 0) (r ! 1) (r ! 2))),
    (''EQZC'', \<lambda>r n a m. REGINT (EQZC (r ! 0) (r ! 1))), (''LTZC'', \<lambda>r n a m. REGINT (LTZC (r ! 0) (r ! 1))),
    (''LTC'', \<lambda>r n a m. REGINT (LTC (r ! 0) (r ! 1) (r ! 2))), (''GTC'', \<lambda>r n a m. REGINT (GTC (r ! 0) (r ! 1) (r ! 2))),
    (''EQC'', \<lambda>r n a m. REGINT (EQC (r ! 0) (r ! 1) (r ! 2))),
    (''LDMINT'', \<lambda>r n a m. REGINT (LDMINT (r ! 0) n)), (''STMINT'', \<lambda>r n a m. REGINT (STMINT (r ! 0) n)),
    (''LDMINTI'', \<lambda>r n a m. REGINT (LDMINTI (r ! 0) (r ! 1))), (''STMINTI'', \<lambda>r n a m. REGINT (STMINTI (r ! 0) (r ! 1))),
    (''PUSHINT'', \<lambda>r n a m. REGINT (PUSHINT (r ! 0))), (''POPINT'', \<lambda>r n a m. REGINT (POPINT (r ! 0))),
    (''BITDECINT'', \<lambda>r n a m. REGINT (BITDECINT a (r ! 0))), (''LDARG'', \<lambda>r n a m. REGINT (LDARG (r ! 0))),
    (''STARG'', \<lambda>r n a m. REGINT (STARG (r ! 0))), (''NPLAYERS'', \<lambda>r n a m. REGINT (NPLAYERS (r ! 0))),
    (''THRESHOLD'', \<lambda>r n a m. REGINT (THRESHOLD (r ! 0))),
    (''PRINTCHR'', \<lambda>r n a m. PRINT (PRINTCHR n)), (''PRINTSTR'', \<lambda>r n a m. PRINT (PRINTSTR n)),
    (''PRINTINT'', \<lambda>r n a m. PRINT (PRINTINT (r ! 0))), (''PRINTREGSIGNED'', \<lambda>r n a m. PRINT (PRINTREGSIGNED n (r ! 0))),
    (''PRINTREGB'', \<lambda>r n a m. PRINT (PRINTREGB (r ! 0) n m)), (''PRINTREGPLAINB'', \<lambda>r n a m. PRINT (PRINTREGPLAINB (r ! 0))),
    (''CONDPRINTSTRB'', \<lambda>r n a m. PRINT (CONDPRINTSTRB (r ! 0) n)),
    (''JMP'', \<lambda>r n a m. JMP n), (''JMPNZ'', \<lambda>r n a m. JMPNZ (r ! 0) n), (''JMPEQZ'', \<lambda>r n a m. JMPEQZ (r ! 0) n),
    (''JMPI'', \<lambda>r n a m. JMPI (r ! 0)), (''CRASH'', \<lambda>r n a m. CRASH (r ! 0)),
    (''REVEAL'', \<lambda>r n a m. REVEAL a), (''CONVCBIT'', \<lambda>r n a m. CONVCBIT (r ! 0) (r ! 1)),
    (''GLDMS'', \<lambda>r n a m. NOP), (''GLDMC'', \<lambda>r n a m. NOP), (''LDMS'', \<lambda>r n a m. NOP), (''LDMC'', \<lambda>r n a m. NOP),
    (''STARTGRIND'', \<lambda>r n a m. NOP), (''STOPGRIND'', \<lambda>r n a m. NOP), (''USE'', \<lambda>r n a m. NOP), (''USE_INP'', \<lambda>r n a m. NOP),
    (''ACTIVE'', \<lambda>r n a m. NOP)]"

text \<open>The immediate value is a number of bits or outputs for these.\<close>

definition counting_names :: "string list" where
  "counting_names = [''NOTS'', ''ANDM'', ''TRANS'', ''CONVSINT'', ''CONVCBIT2S'', ''XORCB'', ''NOTCB'']"

definition numbers_ok :: "base_instruction \<Rightarrow> bool" where
  "numbers_ok b \<longleftrightarrow> list_all (\<lambda>x. 0 \<le>s x) (r_args b) \<and> list_all (\<lambda>x. 0 \<le>s x) (start_args b) \<and> 0 \<le>s isize b \<and>
    (has_name b counting_names \<longrightarrow> n_imm b < 2 ^ 31) \<and> length (r_args b) = 4"

definition decode :: "base_instruction \<Rightarrow> instr option" where
  "decode b =
    (if numbers_ok b then
       case op_name (opcode b) of None \<Rightarrow> None
       | Some name \<Rightarrow> map_option (\<lambda>f. f (map unat (r_args b)) (n_imm b) (map unat (start_args b)) (unat (isize b)))
           (map_of decode_table name)
     else None)"

definition decode_program :: "base_instruction list \<Rightarrow> instr list option" where
  "decode_program p = (if list_all (\<lambda>b. decode b \<noteq> None) p then Some (map (the \<circ> decode) p) else None)"

end
