(* ===== verification/Bytecode_Correct.thy ===== *)
theory Bytecode_Correct
  imports Bytecode
begin

text \<open>
  What the loader of bytecode does: it reads back every program that is written as it reads, it accepts a file whose
  last instruction is cut off, and the numbers of registers that it computes cover what the program writes, but for
  one instruction.
\<close>

section \<open>Writing instructions\<close>

text \<open>The inverse of the reader, field by field (\<^verbatim>\<open>get_encoding\<close> of the compiler).\<close>

definition be_bytes :: "nat \<Rightarrow> u64 \<Rightarrow> u8 list" where
  "be_bytes m x = rev (le_bytes m x)"

abbreviation be4 :: "u32 \<Rightarrow> u8 list" where
  "be4 x \<equiv> be_bytes 4 (ucast x)"

fun emit_action :: "read_action \<Rightarrow> base_instruction \<Rightarrow> u8 list" where
  "emit_action (RD_ints m) b = concat (map (\<lambda>x. be4 x) (take m (r_args b)))"
| "emit_action (RD_r i) b = be4 (r_args b ! i)"
| "emit_action RD_n b = be4 (ucast (n_imm b))"
| "emit_action RD_long b = be_bytes 8 (n_imm b)"
| "emit_action (RD_count m) b = be4 (word_of_nat (length (start_args b) + m))"
| "emit_action RD_vector b = concat (map (\<lambda>x. be4 x) (start_args b))"
| "emit_action (RD_fixed m) b = concat (map (\<lambda>x. be4 x) (start_args b))"
| "emit_action RD_raw b = concat (map (\<lambda>x. le_bytes 4 (ucast x)) (r_args b))"
| "emit_action (RD_throw msg) b = []"

fun copy_field :: "base_instruction \<Rightarrow> base_instruction \<Rightarrow> read_action \<Rightarrow> base_instruction" where
  "copy_field b c (RD_ints m) = c\<lparr>r_args := take m (r_args b) @ drop m (r_args c)\<rparr>"
| "copy_field b c (RD_r i) = c\<lparr>r_args := (r_args c)[i := r_args b ! i]\<rparr>"
| "copy_field b c RD_n = c\<lparr>n_imm := n_imm b\<rparr>"
| "copy_field b c RD_long = c\<lparr>n_imm := n_imm b\<rparr>"
| "copy_field b c (RD_count m) = c"
| "copy_field b c RD_vector = c\<lparr>start_args := start_args b\<rparr>"
| "copy_field b c (RD_fixed m) = c\<lparr>start_args := start_args b\<rparr>"
| "copy_field b c RD_raw = c\<lparr>r_args := r_args b\<rparr>"
| "copy_field b c (RD_throw msg) = c"

fun action_ok :: "base_instruction \<Rightarrow> read_action \<Rightarrow> bool" where
  "action_ok b (RD_ints m) \<longleftrightarrow> m \<le> length (r_args b)"
| "action_ok b RD_n \<longleftrightarrow> scast (ucast (n_imm b) :: u32) = n_imm b"
| "action_ok b RD_vector \<longleftrightarrow> length (start_args b) < 2 ^ 29"
| "action_ok b (RD_fixed m) \<longleftrightarrow> length (start_args b) = m \<and> m < 2 ^ 29"
| "action_ok b RD_raw \<longleftrightarrow> length (r_args b) = 4"
| "action_ok b (RD_throw msg) \<longleftrightarrow> False"
| "action_ok b _ \<longleftrightarrow> True"

fun counted :: "bool \<Rightarrow> read_action list \<Rightarrow> bool" where
  "counted seen [] \<longleftrightarrow> True"
| "counted seen (RD_count m # as) \<longleftrightarrow> counted True as"
| "counted seen (RD_vector # as) \<longleftrightarrow> seen \<and> counted seen as"
| "counted seen (a # as) \<longleftrightarrow> counted seen as"

definition layout_of :: "nat \<Rightarrow> read_action list option" where
  "layout_of opc = (case op_name opc of None \<Rightarrow> None
    | Some name \<Rightarrow> if name \<in> set gc_instructions then operand_layout name else None)"

text \<open>An instruction of the binary machine that holds nothing but what its layout writes.\<close>

definition canonical :: "base_instruction \<Rightarrow> bool" where
  "canonical b \<longleftrightarrow> length (r_args b) = 4 \<and> opcode b < 1024 \<and> isize b \<noteq> 0 \<and>
    (case layout_of (opcode b) of None \<Rightarrow> False
     | Some as \<Rightarrow> counted False as \<and> list_all (action_ok b) as \<and>
         foldl (copy_field b) (b\<lparr>r_args := [0, 0, 0, 0], n_imm := 0, start_args := []\<rparr>) as = b)"

definition emit :: "base_instruction \<Rightarrow> u8 list" where
  "emit b = be_bytes 8 (push_bit 10 (ucast (isize b)) + word_of_nat (opcode b)) @
    concat (map (\<lambda>a. emit_action a b) (the (layout_of (opcode b))))"

section \<open>Reading what was written\<close>

lemma length_be_bytes [simp]: "length (be_bytes m x) = m"
  by (simp add: be_bytes_def)

lemma be_value_bytes: "be_value (be_bytes m x) = take_bit (8 * m) x"
  by (simp add: be_value_def be_bytes_def le_value_bytes)

lemma take_bit_u64: "take_bit 64 (x :: u64) = x"
  by (rule bit_word_eqI) (simp add: bit_take_bit_iff)

lemma ucast_u32 [simp]: "ucast (take_bit 32 (ucast (x :: u32) :: u64)) = x" "ucast (ucast x :: u64) = x"
  by (rule bit_word_eqI, simp add: bit_take_bit_iff bit_simps)+

lemma be_words_bytes: "be_words (length xs) (concat (map (\<lambda>x. be4 x) xs) @ ys) = xs"
  by (induction xs) (simp_all add: be_value_bytes)

lemma length_be4s [simp]: "length (concat (map (\<lambda>x. be4 x) xs)) = 4 * length xs"
  by (induction xs) simp_all

lemma le_words_bytes: "le_words (length xs) (concat (map (\<lambda>x. le_bytes 4 (ucast x)) xs) @ ys) = xs"
  by (induction xs) (simp_all add: le_value_bytes)

lemma length_le4s: "length (concat (map (\<lambda>x. le_bytes 4 (ucast (x :: u32))) xs)) = 4 * length xs"
  by (induction xs) simp_all

abbreviation on_file :: "u8 list \<Rightarrow> code_stream" where
  "on_file bs \<equiv> \<lparr>cs_bytes = bs, cs_fail = False\<rparr>"

lemma read_file: "length bs = m \<Longrightarrow> read_bytes m (on_file (bs @ rest)) = (bs, on_file rest)"
  by (auto simp: read_bytes_def)

lemma get_vector_file:
  assumes "length (start_args b) < 2 ^ 29"
  shows "parse_get_vector (word_of_nat (length (start_args b)))
      \<lparr>ps_inst = c, ps_stream = on_file (concat (map (\<lambda>x. be4 x) (start_args b)) @ rest), ps_count = x, ps_lost = l\<rparr> =
    Inr \<lparr>ps_inst = c\<lparr>start_args := start_args b\<rparr>, ps_stream = on_file rest, ps_count = x, ps_lost = l\<rparr>"
proof -
  let ?m = "length (start_args b)"
  have n: "unat (word_of_nat ?m :: u32) = ?m" using assms by (simp add: unat_of_nat)
  have "\<not> (word_of_nat ?m :: u32) <s 0" "\<not> 2 ^ 29 \<le> (word_of_nat ?m :: u32)"
    using assms n by (auto simp: sless_u32 sint_u32 uint_nat word_le_nat_alt)
  then show ?thesis
    using be_words_bytes [of "start_args b" "[]"] by (simp add: parse_get_vector_def n read_file del: length_concat)
qed

lemma run_emitted:
  assumes "action_ok b a" "length (r_args c) = 4" "a = RD_vector \<Longrightarrow> x = word_of_nat (length (start_args b))"
  shows "run_action a \<lparr>ps_inst = c, ps_stream = on_file (emit_action a b @ rest), ps_count = x, ps_lost = False\<rparr> =
    Inr \<lparr>ps_inst = copy_field b c a, ps_stream = on_file rest,
      ps_count = (case a of RD_count m \<Rightarrow> word_of_nat (length (start_args b)) | _ \<Rightarrow> x), ps_lost = False\<rparr>"
proof (cases a)
  case (RD_ints m)
  then have "length (take m (r_args b)) = m" using assms(1) by simp
  then show ?thesis
    using be_words_bytes [of "take m (r_args b)" "[]"] length_be4s [of "take m (r_args b)"] RD_ints
    by (simp add: read_file del: length_be4s length_concat)
next
  case RD_raw
  then show ?thesis
    using assms(1) le_words_bytes [of "r_args b" "[]"] length_le4s [of "r_args b"] by (simp add: read_file del: length_concat)
next
  case RD_vector
  then show ?thesis using get_vector_file [of b c] assms(1,3) by simp
next
  case (RD_fixed m)
  then show ?thesis using get_vector_file [of b c] assms(1) by simp
qed (use assms in \<open>simp_all add: read_int_def read_long_def read_file be_value_bytes take_bit_u64\<close>)

lemma copy_field_length:
  "length (r_args c) = 4 \<Longrightarrow> action_ok b a \<Longrightarrow> length (r_args b) = 4 \<Longrightarrow> length (r_args (copy_field b c a)) = 4"
  by (cases a) auto

lemma run_all_emitted:
  assumes "list_all (action_ok b) as" "length (r_args c) = 4" "length (r_args b) = 4" "counted seen as"
    and "seen \<Longrightarrow> x = word_of_nat (length (start_args b))"
  shows "\<exists>y. fold_result (\<lambda>st a. run_action a st)
      \<lparr>ps_inst = c, ps_stream = on_file (concat (map (\<lambda>a. emit_action a b) as) @ rest), ps_count = x, ps_lost = False\<rparr> as =
    Inr \<lparr>ps_inst = foldl (copy_field b) c as, ps_stream = on_file rest, ps_count = y, ps_lost = False\<rparr> \<and>
    (counted seen (as @ [RD_vector]) \<longrightarrow> y = word_of_nat (length (start_args b)))"
  using assms
proof (induction as arbitrary: c seen x)
  case (Cons a as)
  let ?y = "case a of RD_count m \<Rightarrow> word_of_nat (length (start_args b)) | _ \<Rightarrow> x"
  have run: "run_action a \<lparr>ps_inst = c, ps_stream = on_file (emit_action a b @ concat (map (\<lambda>a. emit_action a b) as) @ rest),
        ps_count = x, ps_lost = False\<rparr> =
      Inr \<lparr>ps_inst = copy_field b c a, ps_stream = on_file (concat (map (\<lambda>a. emit_action a b) as) @ rest), ps_count = ?y, ps_lost = False\<rparr>"
    by (rule run_emitted) (use Cons.prems in auto)
  have "\<exists>seen'. counted seen' as \<and> (counted seen (a # as @ [RD_vector]) = counted seen' (as @ [RD_vector])) \<and>
      (seen' \<longrightarrow> ?y = word_of_nat (length (start_args b)))"
    using Cons.prems(4,5) by (cases a) auto
  then show ?case
    using Cons.IH [of "copy_field b c a"] Cons.prems run copy_field_length [of c b a] by auto
qed simp

text \<open>The first word: size and opcode.\<close>

lemma code_word:
  assumes "opc < 1024"
  shows "ucast (drop_bit 10 (push_bit 10 (ucast m) + word_of_nat opc :: u64)) = (m :: u32)"
    and "unat ((push_bit 10 (ucast m) + word_of_nat opc :: u64) AND 0x3FF) = opc"
proof -
  let ?c = "push_bit 10 (ucast m) + word_of_nat opc :: u64"
  have m: "unat m < 2 ^ 32" using unsigned_less [of m] by simp
  have "?c = word_of_nat (unat m * 1024 + opc)" by (simp add: push_bit_eq_mult)
  moreover have "unat m * 1024 + opc < 2 ^ 64" using assms m by simp
  ultimately have c: "unat ?c = unat m * 1024 + opc" by (simp only: unat_u64_of_nat)
  have "unat (drop_bit 10 ?c) = unat ?c div 1024" unfolding unat_drop_bit_eq by (simp add: drop_bit_eq_div)
  then have "unat (drop_bit 10 ?c) = unat m" using c assms by simp
  then have "(ucast (drop_bit 10 ?c) :: u32) = word_of_nat (unat m)" by (metis of_nat_unat)
  then show "ucast (drop_bit 10 ?c) = m" by simp
  have "?c AND 0x3FF = take_bit 10 ?c" by (simp add: take_bit_eq_mask mask_eq_exp_minus_1)
  moreover have "unat (take_bit 10 ?c) = unat ?c mod 1024" unfolding unsigned_take_bit_eq by (simp add: take_bit_eq_mod)
  ultimately show "unat (?c AND 0x3FF) = opc" using c assms by simp
qed

lemma canonicalD:
  assumes "canonical b"
  obtains name as where "op_name (opcode b) = Some name" "name \<in> set gc_instructions" "operand_layout name = Some as"
    "layout_of (opcode b) = Some as" "counted False as" "list_all (action_ok b) as" "opcode b < 1024" "isize b \<noteq> 0"
    "foldl (copy_field b) (b\<lparr>r_args := [0, 0, 0, 0], n_imm := 0, start_args := []\<rparr>) as = b" "length (r_args b) = 4"
  using assms by (auto simp: canonical_def layout_of_def split: option.splits if_splits)

text \<open>The reader on an instruction that was written, and on a whole program.\<close>

lemma blank_code:
  assumes "opcode b < 1024" "isize b \<noteq> 0"
  shows "blank_instruction (push_bit 10 (ucast (isize b)) + word_of_nat (opcode b)) =
    b\<lparr>r_args := [0, 0, 0, 0], n_imm := 0, start_args := []\<rparr>"
  using assms by (simp add: blank_instruction_def code_word)

lemma parse_emitted:
  assumes "canonical b"
  shows "parse_instruction (on_file (emit b @ rest)) = Inr (b, on_file rest)"
proof -
  obtain name as where as: "op_name (opcode b) = Some name" "name \<in> set gc_instructions" "operand_layout name = Some as"
      "layout_of (opcode b) = Some as" "counted False as" "list_all (action_ok b) as" "opcode b < 1024" "isize b \<noteq> 0"
      "foldl (copy_field b) (b\<lparr>r_args := [0, 0, 0, 0], n_imm := 0, start_args := []\<rparr>) as = b" "length (r_args b) = 4"
    by (rule canonicalD [OF assms])
  let ?c = "b\<lparr>r_args := [0, 0, 0, 0], n_imm := 0, start_args := []\<rparr>"
  obtain y where run: "fold_result (\<lambda>st a. run_action a st)
      \<lparr>ps_inst = ?c, ps_stream = on_file (concat (map (\<lambda>a. emit_action a b) as) @ rest), ps_count = 0, ps_lost = False\<rparr> as =
      Inr \<lparr>ps_inst = b, ps_stream = on_file rest, ps_count = y, ps_lost = False\<rparr>"
    using run_all_emitted [OF as(6) _ as(10,5), of ?c 0 rest] as(9) by auto
  then have "parse_operands ?c (on_file (concat (map (\<lambda>a. emit_action a b) as) @ rest)) = Inr (b, on_file rest)"
    using as(1,3) by (simp add: parse_operands_def)
  then have "parse_base (on_file (emit b @ rest)) = Inr (b, on_file rest)"
    using as(4) blank_code [OF as(7,8)]
    by (simp add: parse_base_def emit_def read_file be_value_bytes take_bit_u64)
  then show ?thesis using as(1,2) by (simp add: parse_instruction_def)
qed

lemma emit_nonempty: "emit b \<noteq> []"
  using length_be_bytes [of 8] by (auto simp: emit_def simp del: length_be_bytes) (metis length_0_conv length_be_bytes zero_neq_numeral)

lemma parse_emitted_then:
  assumes "list_all canonical p"
  shows "parse_program (on_file (concat (map emit p) @ rest)) =
    (case parse_program (on_file rest) of Inl e \<Rightarrow> Inl e | Inr q \<Rightarrow> Inr (p @ q))"
  using assms
proof (induction p)
  case Nil
  then show ?case by (simp split: sum.splits)
next
  case (Cons b p)
  then show ?case
    using parse_emitted [of b] emit_nonempty [of b] by (subst parse_program.simps) (auto split: sum.splits)
qed

section \<open>Round trip\<close>

definition demo_code :: "base_instruction list" where
  "demo_code =
    [\<lparr>opcode = 0x9a, isize = 1, r_args = [3, 0, 0, 0], n_imm = 7, start_args = []\<rparr>,
     \<lparr>opcode = 0x241, isize = 2, r_args = [1, 0, 0, 0], n_imm = 4, start_args = []\<rparr>,
     \<lparr>opcode = 0x20f, isize = 1, r_args = [4, 1, 0, 0], n_imm = 65, start_args = []\<rparr>,
     \<lparr>opcode = 0x20b, isize = 1, r_args = [0, 0, 0, 0], n_imm = 0, start_args = [2, 6, 4, 4]\<rparr>,
     \<lparr>opcode = 0x214, isize = 1, r_args = [0, 0, 0, 0], n_imm = 0, start_args = [2, 300, 6]\<rparr>]"

lemma demo_code_canonical: "list_all canonical demo_code"
  by (simp add: demo_code_def canonical_def layout_of_def op_names) (simp add: gc_instructions_def operand_layout_def operand_table_def register_rows_def value_rows_def vector_rows_def binary_rows_def)

text \<open>
  C33.  Writing and loading bytecode.  A file that holds any list of instructions of the binary machine, each written as
  its layout says (size and opcode in a word, the registers, the immediate value, the number of arguments and the
  arguments, most significant byte first), loads as that very list, with every field as it was.
\<close>

theorem bytecode_roundtrip:
  assumes "list_all canonical p"
  shows "parse_program (on_file (concat (map emit p))) = Inr p"
  using parse_emitted_then [OF assms, of "[]"] by (simp add: parse_program.simps)

lemma bytecode_roundtrip_witness:
  "parse_program (on_file (concat (map emit demo_code))) = Inr demo_code \<and>
    decode_program demo_code = Some [REGINT (LDINT 3 7), SECRET (STMSB 2 1 4), SECRET (NOTS 65 4 1),
      SECRET (ANDS [2, 6, 4, 4]), REVEAL [2, 300, 6]]"
proof
  show "parse_program (on_file (concat (map emit demo_code))) = Inr demo_code"
    by (rule bytecode_roundtrip [OF demo_code_canonical])
  show "decode_program demo_code = Some [REGINT (LDINT 3 7), SECRET (STMSB 2 1 4), SECRET (NOTS 65 4 1),
      SECRET (ANDS [2, 6, 4, 4]), REVEAL [2, 300, 6]]"
    by (simp add: demo_code_def decode_program_def decode_def numbers_ok_def has_name_def counting_names_def op_names decode_table_def
      map_of_Cons_code word_sle_eq del: map_of.simps)
qed

section \<open>Files that end too early\<close>

lemma cut_word: "take 3 (be4 x) @ [0] = be4 (push_bit 8 (drop_bit 8 x))"
proof -
  have "ucast (drop_bit k (ucast x :: u64)) = (ucast (drop_bit k (ucast (push_bit 8 (drop_bit 8 x)) :: u64)) :: u8)" if "8 \<le> k" for k
    by (rule bit_word_eqI) (use that in \<open>auto simp: bit_simps dest: bit_imp_le_length\<close>)
  moreover have "(ucast (ucast (push_bit 8 (drop_bit 8 x)) :: u64) :: u8) = 0"
    by (rule bit_word_eqI) (auto simp: bit_simps)
  ultimately show ?thesis by (simp add: be_bytes_def le_bytes_def upt_rec [of 0] upt_rec [of 1] upt_rec [of 2] upt_rec [of 3] numeral_3_eq_3)
qed

lemma parse_cut:
  assumes b: "canonical b" and layout: "layout_of (opcode b) = Some (acts @ [RD_vector])" and start: "start_args b = xs @ [x]"
  shows "parse_instruction (on_file (butlast (emit b))) =
    Inr (b\<lparr>start_args := xs @ [push_bit 8 (drop_bit 8 x)]\<rparr>, \<lparr>cs_bytes = [], cs_fail = True\<rparr>)"
proof -
  obtain name as where as: "op_name (opcode b) = Some name" "name \<in> set gc_instructions" "operand_layout name = Some as"
      "layout_of (opcode b) = Some as" "counted False as" "list_all (action_ok b) as" "opcode b < 1024" "isize b \<noteq> 0"
      "foldl (copy_field b) (b\<lparr>r_args := [0, 0, 0, 0], n_imm := 0, start_args := []\<rparr>) as = b" "length (r_args b) = 4"
    by (rule canonicalD [OF b])
  have acts: "as = acts @ [RD_vector]" using as(4) layout by simp
  let ?c = "b\<lparr>r_args := [0, 0, 0, 0], n_imm := 0, start_args := []\<rparr>" and ?m = "length (start_args b)"
  let ?tail = "concat (map (\<lambda>x. be4 x) xs) @ take 3 (be4 x)"
  have small: "?m < 2 ^ 29" using as(6) by (simp add: acts)
  have cnt: "counted False acts"
  proof -
    have "counted seen (as1 @ [RD_vector]) \<Longrightarrow> counted seen as1" for as1 seen
      by (induction seen as1 rule: counted.induct) auto
    then show ?thesis using as(5) by (simp add: acts)
  qed
  obtain y where run: "fold_result (\<lambda>st a. run_action a st)
      \<lparr>ps_inst = ?c, ps_stream = on_file (concat (map (\<lambda>a. emit_action a b) acts) @ ?tail), ps_count = 0, ps_lost = False\<rparr> acts =
      Inr \<lparr>ps_inst = foldl (copy_field b) ?c acts, ps_stream = on_file ?tail, ps_count = y, ps_lost = False\<rparr>"
      "y = word_of_nat ?m"
    using run_all_emitted [of b acts ?c False 0 ?tail] as(5,6,10) cnt by (auto simp: acts)
  have last: "(foldl (copy_field b) ?c acts)\<lparr>start_args := zs\<rparr> = b\<lparr>start_args := zs\<rparr>" for zs
  proof -
    have "(foldl (copy_field b) ?c acts)\<lparr>start_args := start_args b\<rparr> = b" using as(9) by (simp add: acts)
    from arg_cong [OF this, of "\<lambda>c. c\<lparr>start_args := zs\<rparr>"] show ?thesis by simp
  qed
  have n: "unat (word_of_nat ?m :: u32) = ?m" using small by (simp add: unat_of_nat)
  have range: "\<not> (word_of_nat ?m :: u32) <s 0" "\<not> 2 ^ 29 \<le> (word_of_nat ?m :: u32)"
    using small n by (auto simp: sless_u32 sint_u32 uint_nat word_le_nat_alt)
  have bytes: "read_bytes (4 * ?m) (on_file ?tail) =
      (concat (map (\<lambda>x. be4 x) (xs @ [push_bit 8 (drop_bit 8 x)])), \<lparr>cs_bytes = [], cs_fail = True\<rparr>)"
    using cut_word [of x] by (simp add: read_bytes_def start del: length_concat)
  have words: "be_words ?m (concat (map (\<lambda>x. be4 x) (xs @ [push_bit 8 (drop_bit 8 x)]))) = xs @ [push_bit 8 (drop_bit 8 x)]"
    using be_words_bytes [of "xs @ [push_bit 8 (drop_bit 8 x)]" "[]"] by (simp add: start)
  have "run_action RD_vector \<lparr>ps_inst = foldl (copy_field b) ?c acts, ps_stream = on_file ?tail, ps_count = y, ps_lost = False\<rparr> =
      Inr \<lparr>ps_inst = b\<lparr>start_args := xs @ [push_bit 8 (drop_bit 8 x)]\<rparr>, ps_stream = \<lparr>cs_bytes = [], cs_fail = True\<rparr>,
        ps_count = y, ps_lost = False\<rparr>"
    unfolding run_action.simps parse_get_vector_def parse_state.select_convs code_stream.select_convs run(2) n bytes Let_def prod.case
    using range words last by simp
  then have "parse_operands ?c (on_file (concat (map (\<lambda>a. emit_action a b) acts) @ ?tail)) =
      Inr (b\<lparr>start_args := xs @ [push_bit 8 (drop_bit 8 x)]\<rparr>, \<lparr>cs_bytes = [], cs_fail = True\<rparr>)"
    using as(1,3) run(1) by (simp add: parse_operands_def acts fold_result_append del: run_action.simps)
  moreover have "butlast (emit b) = be_bytes 8 (push_bit 10 (ucast (isize b)) + word_of_nat (opcode b)) @
      concat (map (\<lambda>a. emit_action a b) acts) @ ?tail"
    using layout by (simp add: emit_def start butlast_append butlast_conv_take flip: length_0_conv)
  ultimately show ?thesis
    using as(1,2) blank_code [OF as(7,8)]
    by (simp add: parse_instruction_def parse_base_def read_file be_value_bytes take_bit_u64)
qed

text \<open>
  C36.  The loader accepts a file that is cut off.  Where the last instruction ends with a list of arguments, the file
  without its last byte loads without an error: the program has all its instructions, and the last argument of the
  last one has lost its low byte.
\<close>

theorem truncated_bytecode_loads:
  assumes "list_all canonical p" "canonical b" "layout_of (opcode b) = Some (acts @ [RD_vector])" "start_args b = xs @ [x]"
  shows "parse_program (on_file (butlast (concat (map emit (p @ [b]))))) =
    Inr (p @ [b\<lparr>start_args := xs @ [push_bit 8 (drop_bit 8 x)]\<rparr>])"
proof -
  have "length (butlast (emit b)) \<ge> 7" by (simp add: emit_def)
  then have ne: "butlast (emit b) \<noteq> []" by (metis list.size(3) not_numeral_le_zero)
  have "butlast (concat (map emit (p @ [b]))) = concat (map emit p) @ butlast (emit b)"
    using emit_nonempty [of b] by (simp add: butlast_append)
  moreover have "parse_program (on_file (butlast (emit b))) = Inr [b\<lparr>start_args := xs @ [push_bit 8 (drop_bit 8 x)]\<rparr>]"
    using parse_cut [OF assms(2-4)] ne by (subst parse_program.simps) (simp add: parse_program.simps)
  ultimately show ?thesis using parse_emitted_then [OF assms(1)] by simp
qed

lemma truncated_bytecode_loads_witness:
  "parse_program (on_file (butlast (concat (map emit demo_code)))) =
    Inr (butlast demo_code @ [(last demo_code)\<lparr>start_args := [2, 300, 0]\<rparr>])"
proof -
  have demo: "demo_code = butlast demo_code @ [last demo_code]" by (simp add: demo_code_def)
  have canonical: "list_all canonical (butlast demo_code)" "canonical (last demo_code)"
    using demo_code_canonical by (subst (asm) demo, simp)+
  have layout: "layout_of (opcode (last demo_code)) = Some ([RD_count 0] @ [RD_vector])"
    by (simp add: demo_code_def layout_of_def op_names gc_instructions_def operand_layout_def operand_table_def register_rows_def value_rows_def vector_rows_def binary_rows_def)
  have start: "start_args (last demo_code) = [2, 300] @ [6]" by (simp add: demo_code_def)
  have "push_bit 8 (drop_bit 8 6) = (0 :: u32)" by (simp add: drop_bit_eq_div)
  then show ?thesis using truncated_bytecode_loads [OF canonical layout start] demo by simp
qed

end
