(* ===== verification/Register_Frame.thy ===== *)
theory Register_Frame
  imports Yao_Machine_Correct
begin

text \<open>
  Which registers the instructions of the machine write.  For a bound on the registers that the arguments of an
  instruction name as results, everything above the bound stays as it is, however many registers there are.
\<close>

section \<open>Operations that leave the registers above a bound alone\<close>

definition unchanged_from :: "nat \<Rightarrow> 'a list \<Rightarrow> 'a list \<Rightarrow> bool" where
  "unchanged_from m xs ys \<longleftrightarrow> length ys = length xs \<and> drop m ys = drop m xs"

definition frames :: "nat \<Rightarrow> ('a list \<Rightarrow> 'a list result) \<Rightarrow> bool" where
  "frames m f \<longleftrightarrow> (\<forall>S S'. f S = Inr S' \<longrightarrow> unchanged_from m S S')"

named_theorems frame \<open>operations that leave the registers above a bound alone\<close>

lemma unchanged_refl [simp]: "unchanged_from m S S"
  by (simp add: unchanged_from_def)

lemma unchanged_trans: "unchanged_from m S T \<Longrightarrow> unchanged_from m T U \<Longrightarrow> unchanged_from m S U"
  by (simp add: unchanged_from_def)

lemma unchanged_update: "r < m \<Longrightarrow> unchanged_from m S (S[r := x])"
  by (simp add: unchanged_from_def)

lemma framesI: "(\<And>S S'. f S = Inr S' \<Longrightarrow> unchanged_from m S S') \<Longrightarrow> frames m f"
  by (simp add: frames_def)

lemma framesD: "frames m f \<Longrightarrow> f S = Inr S' \<Longrightarrow> unchanged_from m S S'"
  by (simp add: frames_def)

lemma frames_return [frame]: "frames m Inr" "frames m (\<lambda>S. Inl e)"
  by (simp_all add: frames_def)

lemma frames_bind [frame]: "frames m f \<Longrightarrow> frames m g \<Longrightarrow> frames m (\<lambda>S. bind_result (f S) g)"
  unfolding frames_def bind_result_Inr_iff by (blast intro: unchanged_trans)

lemma frames_read [frame]: "(\<And>x. frames m (g x)) \<Longrightarrow> frames m (\<lambda>S. bind_result (e S) (\<lambda>x. g x S))"
  unfolding frames_def bind_result_Inr_iff by blast

lemma frames_if [frame]: "frames m f \<Longrightarrow> frames m g \<Longrightarrow> frames m (\<lambda>S. if b S then f S else g S)"
  by (simp add: frames_def)

lemma frames_fold:
  assumes "\<And>x. x \<in> set xs \<Longrightarrow> frames m (\<lambda>S. f S x)"
  shows "frames m (\<lambda>S. fold_result f S xs)"
  using assms
proof (induction xs)
  case (Cons x xs)
  then show ?case by (simp add: frames_bind)
qed (simp add: frames_return)

lemma frames_write [frame]: "r < m \<Longrightarrow> frames m (\<lambda>S. vec_write S r x)"
  by (auto simp: frames_def vec_write_def unchanged_update)

lemma frames_set [frame]: "r < m \<Longrightarrow> frames m (\<lambda>S. set_reg S r k x)"
  by (auto simp: frames_def set_reg_Inr unchanged_update)

lemma frames_resize [frame]: "r < m \<Longrightarrow> frames m (\<lambda>S. resize_reg z S r n)"
  by (auto simp: frames_def resize_reg_Inr unchanged_update)

lemma frames_mem_op: "r + n \<le> m \<Longrightarrow> frames m (\<lambda>S. mem_op n S source r a)"
  unfolding mem_op_def by (intro frames_fold frames_read frames_write) simp

section \<open>Secret registers\<close>

text \<open>The registers that an instruction names as results lie below the bound.\<close>

definition quads_below :: "nat \<Rightarrow> nat list \<Rightarrow> bool" where
  "quads_below m args \<longleftrightarrow> (\<forall>(n, out, _) \<in> set (quads args). out + div_ceil n 64 \<le> m)"

fun groups_below :: "nat \<Rightarrow> nat list \<Rightarrow> bool" where
  "groups_below m (c # n # args) \<longleftrightarrow>
    (\<forall>dest \<in> set (take ((c - 3) div 2) args). dest + div_ceil n 64 \<le> m) \<and> groups_below m (drop (2 * ((c - 3) div 2) + 1) args)"
| "groups_below m _ \<longleftrightarrow> True"

fun secret_below :: "nat \<Rightarrow> secret_op \<Rightarrow> bool" where
  "secret_below m (XORS args) \<longleftrightarrow> quads_below m args"
| "secret_below m (ANDS args) \<longleftrightarrow> quads_below m args"
| "secret_below m (ANDRS args) \<longleftrightarrow> quads_below m args"
| "secret_below m (ANDRSVEC args) \<longleftrightarrow> groups_below m args"
| "secret_below m (NOTS n r0 r1) \<longleftrightarrow> r0 + div_ceil n 64 \<le> m"
| "secret_below m (ANDM n r0 r1 r2) \<longleftrightarrow> r0 + div_ceil n 64 \<le> m"
| "secret_below m (CONVCBIT2S n r0 r1) \<longleftrightarrow> r0 + div_ceil n 64 \<le> m"
| "secret_below m (MOVSB r0 r1) \<longleftrightarrow> r0 < m"
| "secret_below m (BITDECS regs x) \<longleftrightarrow> (\<forall>r \<in> set regs. r < m)"
| "secret_below m (BITCOMS x regs) \<longleftrightarrow> x < m"
| "secret_below m (TRANS n args) \<longleftrightarrow> (\<forall>i < n. args ! i + div_ceil (length args - n) 64 \<le> m)"
| "secret_below m (LDBITS r0 n x) \<longleftrightarrow> r0 < m"
| "secret_below m (CONVSINT r0 n r1) \<longleftrightarrow> r0 < m"
| "secret_below m (LDMSB n r0 a) \<longleftrightarrow> r0 + n \<le> m"
| "secret_below m (LDMSBI n r0 r1) \<longleftrightarrow> r0 + n \<le> m"
| "secret_below m _ \<longleftrightarrow> True"

lemma unit_below: "out + div_ceil n 64 \<le> m \<Longrightarrow> j < div_ceil n 64 \<Longrightarrow> out + j < m"
  by simp

lemma wire_below: "dest + div_ceil n 64 \<le> m \<Longrightarrow> i < n \<Longrightarrow> dest + i div 64 < m"
  unfolding div_ceil_def
  by (rule less_le_trans [of _ "dest + (n + 64 - 1) div 64"]) (simp_all add: div_less_mono less_mult_imp_div_less flip: Suc_le_eq add: div_le_mono)

lemma frames_xors: "quads_below m args \<Longrightarrow> frames m (xors f fresh args 0 (length args))"
proof -
  assume below: "quads_below m args"
  have reg: "frames m (xor_reg f fresh n out x y)" if "out < m" for n out x y
    unfolding xor_reg_def xor_wire_def by (intro frames_bind frames_fold frames_read frames_set frames_resize that)
  have "frames m (\<lambda>S. xors_tuple f fresh S q)" if "q \<in> set (quads args)" for q
  proof -
    obtain n out x y where q: "q = (n, out, x, y)" by (metis surj_pair)
    have le: "out + div_ceil n 64 \<le> m" using below that by (auto simp: quads_below_def q)
    show ?thesis
    proof (cases "n = 1")
      case True
      then have "out < m" using le by (simp add: div_ceil_def)
      then show ?thesis using reg True by (simp add: q xors_tuple_def)
    next
      case False
      have "frames m (\<lambda>S. fold_result (\<lambda>S j. xor_reg f fresh (min 64 (n - j * 64)) (out + j) (x + j) (y + j) S) S [0..<div_ceil n 64])"
        by (intro frames_fold reg) (use unit_below [OF le] in simp)
      then show ?thesis using False by (simp add: q xors_tuple_def default_length_def)
    qed
  qed
  then show ?thesis unfolding xors_def by (intro frames_if frames_fold frames_return) simp
qed


lemma frames_nots: "r0 + div_ceil n 64 \<le> m \<Longrightarrow> frames m (nots f fresh one n r0 r1)"
  unfolding nots_def invert_reg_def invert_wire_def default_length_def
  by (intro frames_fold frames_bind frames_read frames_set frames_resize) simp_all

lemma frames_andm: "r0 + div_ceil n 64 \<le> m \<Longrightarrow> frames m (andm pub fresh n r0 r1 r2 C)"
  unfolding andm_def andm_wire_def Let_def
  by (intro frames_fold frames_bind frames_read frames_if frames_set frames_resize) simp_all

lemma frames_convcbit2s: "r0 + div_ceil n 64 \<le> m \<Longrightarrow> frames m (convcbit2s pub fresh n r0 r1 C)"
  unfolding convcbit2s_def convcbit2s_wire_def Let_def
  by (intro frames_fold frames_bind frames_read frames_set frames_resize) simp_all

lemma frames_movsb: "r0 < m \<Longrightarrow> frames m (movsb r0 r1)"
  unfolding movsb_def by (intro frames_read frames_write)

lemma frames_bitcom: "x < m \<Longrightarrow> frames m (bitcom x regs)"
  unfolding bitcom_def by (intro frames_bind frames_write frames_fold frames_read frames_if frames_return)

lemma frames_bitdec: "\<forall>r \<in> set regs. r < m \<Longrightarrow> frames m (bitdec regs x)"
  unfolding bitdec_def by (intro frames_read frames_if frames_return frames_fold frames_bind frames_write) simp_all

lemma frames_load_clear: "r < m \<Longrightarrow> frames m (load_clear pub fresh r n x)"
  unfolding load_clear_def by (intro frames_if frames_return frames_bind frames_resize frames_fold frames_set)

lemma frames_trans:
  assumes "\<forall>i < n. args ! i + div_ceil (length args - n) 64 \<le> m"
  shows "frames m (trans pub fresh n args)"
proof -
  have "args ! i + j div 64 < m" if "i < n" "j < length args - n" for i j
    by (rule wire_below [of _ "length args - n"]) (use assms that in auto)
  moreover have "args ! i + j < m" if "i < n" "j < div_ceil (length args - n) 64" for i j
    using assms that by (intro unit_below) auto
  ultimately show ?thesis
    unfolding trans_def trans_wire_def Let_def default_length_def
    by (intro frames_if frames_return frames_fold frames_bind frames_resize frames_read frames_set) auto
qed

lemma frames_plain_and:
  assumes "quads_below m args"
  shows "frames m (plain_and b args)"
proof -
  have "frames m (\<lambda>V. plain_and_unit b q V j)" if "q \<in> set (quads args)" "j < div_ceil (fst q) 64" for q j
  proof -
    obtain n out x y where q: "q = (n, out, x, y)" by (metis surj_pair)
    have "out + j < m" using assms that by (auto simp: quads_below_def q)
    then show ?thesis
      unfolding q plain_and_unit_def plain_and_wire_def prod.case Let_def
      by (intro frames_bind frames_fold frames_read frames_set frames_resize)
  qed
  then show ?thesis unfolding plain_and_def [abs_def] default_length_def by (intro frames_fold) auto
qed

lemma frames_andrsvec: "groups_below m args \<Longrightarrow> frames m (plain_andrsvec args)"
  unfolding plain_andrsvec_def
proof (induction args rule: length_induct)
  case (1 args)
  let ?and = "andrsvec (\<lambda>V. V) (\<lambda>V _. V) (\<lambda>a b V. Inr (a \<and> b, V)) False"
  have set: "frames m (\<lambda>V. at_set V r k x)" if "r < m" for r k x
    unfolding at_set_def by (intro frames_read frames_set that)
  have resize: "frames m (\<lambda>V. at_resize z V r k)" if "r < m" for r k z
    unfolding at_resize_def by (intro frames_read frames_resize that)
  consider "args = []" | x where "args = [x]" | c n rest where "args = c # n # rest" by (metis neq_Nil_conv)
  then show ?case
  proof cases
    case 3
    let ?k = "(c - 3) div 2"
    have wire: "dest + i div 64 < m" if "dest \<in> set (take ?k rest)" "i < n" for dest i
      by (rule wire_below [of _ n]) (use 1(2) that in \<open>auto simp: 3\<close>)
    have step: "frames m (\<lambda>V. vec_step (\<lambda>V. V) (\<lambda>V _. V) (\<lambda>a b V. Inr (a \<and> b, V)) False n (take ?k rest) (rest ! ?k) srcs V i)"
      if "i < n" for srcs i
      unfolding vec_step_def vec_resize_def vec_wire_def bind_result_Inr bind_result.simps prod.case default_length_def
      by (intro frames_bind frames_fold frames_read)
        (auto simp: split_def bind_result_Inr_iff intro!: frames_read resize set wire that dest: set_zip_leftD split: if_splits)
    have "frames m (?and (drop (2 * ?k + 1) rest))" using 1 by (auto simp: 3 less_Suc_eq_le)
    then show ?thesis
      unfolding 3 andrsvec.simps Let_def by (intro frames_if frames_return frames_bind frames_fold step) simp
  qed (simp_all add: frames_return)
qed

lemma secret_frame:
  assumes "plain_instr op k V = Inr V'" "secret_below m op"
  shows "unchanged_from m V V'"
proof -
  have F: "frames m f \<Longrightarrow> f V = Inr V' \<Longrightarrow> unchanged_from m V V'" for f by (rule framesD)
  show ?thesis
    using assms
    by (cases op) (auto simp: bind_result_Inr_iff load_dynamic_fails store_dynamic_fails
        intro: F [OF frames_xors] F [OF frames_nots] F [OF frames_andm] F [OF frames_convcbit2s] F [OF frames_movsb]
          F [OF frames_bitcom] F [OF frames_bitdec] F [OF frames_load_clear] F [OF frames_trans] F [OF frames_plain_and]
          F [OF frames_andrsvec])
qed

lemma store_frame:
  assumes "plain_store_instr (SECRET op) k V = Inr V'" "secret_below m op"
  shows "unchanged_from m (fst V) (fst V')"
proof -
  obtain W where W: "plain_instr op k (fst V) = Inr W" "memory_instr op k (W, snd V) = Inr V'"
    using assms(1) by (auto simp: bind_result_Inr_iff)
  have "unchanged_from m W (fst V')"
    using W(2) assms(2)
    by (cases op) (auto simp: bind_result_Inr_iff load_S_def store_S_def intro: framesD [OF frames_mem_op])
  then show ?thesis using secret_frame [OF W(1) assms(2)] unchanged_trans by blast
qed

section \<open>Clear and integer registers\<close>

fun cbit_below :: "nat \<Rightarrow> cbit_op \<Rightarrow> bool" where
  "cbit_below m (XORCB n r0 r1 r2) \<longleftrightarrow> r0 + div_ceil n 64 \<le> m"
| "cbit_below m (XORCBI r0 r1 n) \<longleftrightarrow> r0 < m"
| "cbit_below m (NOTCB n r0 r1) \<longleftrightarrow> r0 + div_ceil n 64 \<le> m"
| "cbit_below m (BITDECC regs x) \<longleftrightarrow> (\<forall>r \<in> set regs. r < m)"
| "cbit_below m (ADDCB r0 r1 r2) \<longleftrightarrow> r0 < m"
| "cbit_below m (ADDCBI r0 r1 n) \<longleftrightarrow> r0 < m"
| "cbit_below m (MULCBI r0 r1 n) \<longleftrightarrow> r0 < m"
| "cbit_below m (SHRCBI r0 r1 n) \<longleftrightarrow> r0 < m"
| "cbit_below m (SHLCBI r0 r1 n) \<longleftrightarrow> r0 < m"
| "cbit_below m (CONVCINT r0 r1) \<longleftrightarrow> r0 < m"
| "cbit_below m (LDMCB n r0 a) \<longleftrightarrow> r0 + n \<le> m"
| "cbit_below m (LDMCBI n r0 r1) \<longleftrightarrow> r0 + n \<le> m"
| "cbit_below m _ \<longleftrightarrow> True"

fun int_below :: "nat \<Rightarrow> int_op \<Rightarrow> bool" where
  "int_below m (STMINT r0 a) \<longleftrightarrow> True"
| "int_below m (STMINTI r0 r1) \<longleftrightarrow> True"
| "int_below m (PUSHINT r0) \<longleftrightarrow> True"
| "int_below m (STARG r0) \<longleftrightarrow> True"
| "int_below m (BITDECINT regs x) \<longleftrightarrow> (\<forall>r \<in> set regs. r < m)"
| "int_below m (LDINT r0 n) \<longleftrightarrow> r0 < m"
| "int_below m (MOVINT r0 r1) \<longleftrightarrow> r0 < m"
| "int_below m (ADDINT r0 r1 r2) \<longleftrightarrow> r0 < m"
| "int_below m (SUBINT r0 r1 r2) \<longleftrightarrow> r0 < m"
| "int_below m (MULINT r0 r1 r2) \<longleftrightarrow> r0 < m"
| "int_below m (DIVINT r0 r1 r2) \<longleftrightarrow> r0 < m"
| "int_below m (EQZC r0 r1) \<longleftrightarrow> r0 < m"
| "int_below m (LTZC r0 r1) \<longleftrightarrow> r0 < m"
| "int_below m (LTC r0 r1 r2) \<longleftrightarrow> r0 < m"
| "int_below m (GTC r0 r1 r2) \<longleftrightarrow> r0 < m"
| "int_below m (EQC r0 r1 r2) \<longleftrightarrow> r0 < m"
| "int_below m (LDMINT r0 a) \<longleftrightarrow> r0 < m"
| "int_below m (LDMINTI r0 r1) \<longleftrightarrow> r0 < m"
| "int_below m (POPINT r0) \<longleftrightarrow> r0 < m"
| "int_below m (LDARG r0) \<longleftrightarrow> r0 < m"
| "int_below m (NPLAYERS r0) \<longleftrightarrow> r0 < m"
| "int_below m (THRESHOLD r0) \<longleftrightarrow> r0 < m"

text \<open>Both kinds of registers of a control record, up to a bound each.\<close>

definition registers_kept :: "nat \<Rightarrow> nat \<Rightarrow> control \<Rightarrow> control \<Rightarrow> bool" where
  "registers_kept mc mi k k' \<longleftrightarrow> unchanged_from mc (C_regs k) (C_regs k') \<and> unchanged_from mi (I_regs k) (I_regs k')"

lemma kept_refl [simp]: "registers_kept mc mi k k"
  by (simp add: registers_kept_def)

lemma kept_trans: "registers_kept mc mi k l \<Longrightarrow> registers_kept mc mi l k' \<Longrightarrow> registers_kept mc mi k k'"
  unfolding registers_kept_def by (blast intro: unchanged_trans)

lemma set_C_kept: "set_C r x k = Inr k' \<Longrightarrow> r < mc \<Longrightarrow> registers_kept mc mi k k'"
  by (auto simp: set_C_def bind_result_Inr_iff registers_kept_def intro: framesD [OF frames_write])

lemma set_I_kept: "set_I r x k = Inr k' \<Longrightarrow> r < mi \<Longrightarrow> registers_kept mc mi k k'"
  by (auto simp: set_I_def bind_result_Inr_iff registers_kept_def intro: framesD [OF frames_write])

lemma fold_kept:
  assumes "\<And>k x k'. x \<in> set xs \<Longrightarrow> f k x = Inr k' \<Longrightarrow> registers_kept mc mi k k'" "fold_result f k xs = Inr k'"
  shows "registers_kept mc mi k k'"
  using assms
proof (induction xs arbitrary: k)
  case (Cons x xs)
  obtain l where "f k x = Inr l" "fold_result f l xs = Inr k'" using Cons.prems(2) by (auto simp: bind_result_Inr_iff)
  then show ?case using Cons by (meson kept_trans list.set_intros)
qed simp

lemmas kept_simps = bind_result_Inr_iff on_C_def on_I_def on_II_def

lemma xorc_kept: "xorc n r0 r1 r2 k = Inr k' \<Longrightarrow> r0 + div_ceil n 64 \<le> mc \<Longrightarrow> registers_kept mc mi k k'"
  unfolding xorc_def default_length_def
  by (erule fold_kept [rotated]) (auto simp: Let_def kept_simps intro: set_C_kept)

lemma notcb_kept: "notcb n r0 r1 k = Inr k' \<Longrightarrow> r0 + div_ceil n 64 \<le> mc \<Longrightarrow> registers_kept mc mi k k'"
  unfolding notcb_def by (erule fold_kept [rotated]) (auto simp: Let_def kept_simps intro: set_C_kept)

lemma bitdecc_kept: "bitdecc regs x k = Inr k' \<Longrightarrow> \<forall>r \<in> set regs. r < mc \<Longrightarrow> registers_kept mc mi k k'"
  unfolding bitdecc_def by (erule fold_kept [rotated]) (auto simp: kept_simps intro: set_C_kept)

lemma bitdecint_kept: "bitdecint regs x k = Inr k' \<Longrightarrow> \<forall>r \<in> set regs. r < mi \<Longrightarrow> registers_kept mc mi k k'"
  unfolding bitdecint_def by (erule fold_kept [rotated]) (auto simp: kept_simps intro: set_I_kept)

lemma memory_kept:
  "load_C n r a k = Inr k' \<Longrightarrow> r + n \<le> mc \<Longrightarrow> registers_kept mc mi k k'"
  "store_C n r a k = Inr k' \<Longrightarrow> registers_kept mc mi k k'"
  "load_I r a k = Inr k' \<Longrightarrow> r < mi \<Longrightarrow> registers_kept mc mi k k'"
  "store_I r a k = Inr k' \<Longrightarrow> registers_kept mc mi k k'"
  by (auto simp: load_C_def store_C_def load_I_def store_I_def kept_simps registers_kept_def
      intro: framesD [OF frames_mem_op] set_I_kept [unfolded registers_kept_def, THEN conjunct1]
        set_I_kept [unfolded registers_kept_def, THEN conjunct2])

lemma popi_kept: "popi k = Inr (x, k') \<Longrightarrow> registers_kept mc mi k k'"
  by (auto simp: popi_def registers_kept_def split: list.splits)

lemma print_kept: "print_instr op k = Inr k' \<Longrightarrow> registers_kept mc mi k k'"
  by (cases op) (auto simp: kept_simps registers_kept_def print_out_def print_reg_def print_reg_signed_def Let_def split: if_splits)

lemma cbit_kept: "cbit_instr op k = Inr k' \<Longrightarrow> cbit_below mc op \<Longrightarrow> registers_kept mc mi k k'"
  by (cases op) (auto simp: kept_simps store_clear_in_dynamic_def
      intro: set_C_kept xorc_kept notcb_kept bitdecc_kept memory_kept)

lemma int_kept: "int_instr op k = Inr k' \<Longrightarrow> int_below mi op \<Longrightarrow> registers_kept mc mi k k'"
  by (cases op) (auto simp: kept_simps pushi_def intro: set_I_kept bitdecint_kept memory_kept kept_trans [OF popi_kept]
      simp: registers_kept_def [of _ _ k "k\<lparr>stacki := _\<rparr>"] registers_kept_def [of _ _ k "k\<lparr>tape_arg := _\<rparr>"])

section \<open>Programs\<close>

text \<open>The bounds of an instruction: secret, clear and integer registers.\<close>

fun instr_below :: "nat \<Rightarrow> nat \<Rightarrow> nat \<Rightarrow> instr \<Rightarrow> bool" where
  "instr_below ms mc mi (SECRET op) \<longleftrightarrow> secret_below ms op"
| "instr_below ms mc mi (CBIT op) \<longleftrightarrow> cbit_below mc op"
| "instr_below ms mc mi (REGINT op) \<longleftrightarrow> int_below mi op"
| "instr_below ms mc mi (REVEAL args) \<longleftrightarrow> (\<forall>(n, r0, r1) \<in> set (triples args). r0 + div_ceil n 64 \<le> mc)"
| "instr_below ms mc mi (CONVCBIT r0 r1) \<longleftrightarrow> r0 < mi"
| "instr_below ms mc mi _ \<longleftrightarrow> True"

lemma clear_kept:
  "clear_instr i k = Inr k' \<Longrightarrow> instr_below ms mc mi i \<Longrightarrow> registers_kept mc mi k k'"
  by (cases i) (auto simp: kept_simps jump_def registers_kept_def [of _ _ k "k\<lparr>pc := _\<rparr>"] split: if_splits
      intro: cbit_kept int_kept print_kept)

lemma reveal_kept:
  assumes "processor_reveal plain_secret_reveal args (k, V) = Inr (k', V')"
    and "\<forall>(n, r0, r1) \<in> set (triples args). r0 + div_ceil n 64 \<le> mc"
  shows "registers_kept mc mi k k'"
proof -
  have units: "r0 < mc" if "(n, r0, r1) \<in> set (reveal_units args)" for n r0 r1
    using that assms(2) by (fastforce simp: reveal_units_def default_length_def)
  have list: "reveal_list plain_secret_reveal (k, V) us = Inr (k', V') \<Longrightarrow> \<forall>(n, r0, r1) \<in> set us. r0 < mc \<Longrightarrow> registers_kept mc mi k k'" for us k V
  proof (induction us arbitrary: k V)
    case (Cons u us)
    obtain n r0 r1 where u: "u = (n, r0, r1)" by (metis surj_pair)
    obtain x V1 l where l: "set_C r0 x k = Inr l" "reveal_list plain_secret_reveal (l, V1) us = Inr (k', V')"
      using Cons.prems(1) by (auto simp: u bind_result_Inr_iff)
    have "r0 < mc" "\<forall>(n, r0, r1) \<in> set us. r0 < mc" using Cons.prems(2) by (auto simp: u)
    then show ?case by (intro kept_trans [OF set_C_kept [OF l(1)] Cons.IH [OF l(2)]])
  qed simp
  have "reveal_list plain_secret_reveal (k, V) (reveal_units args) = Inr (k', V')"
    using assms(1) by (simp add: processor_reveal_def split: if_splits)
  then show ?thesis by (rule list) (use units in blast)
qed

lemma reveal_store: "processor_reveal plain_secret_reveal args (k, V) = Inr (k', V') \<Longrightarrow> V' = V"
proof -
  have "reveal_list plain_secret_reveal (k, V) us = Inr (k', V') \<Longrightarrow> V' = V" for us k
  proof (induction us arbitrary: k)
    case (Cons u us)
    obtain n r0 r1 where "u = (n, r0, r1)" by (metis surj_pair)
    then show ?case using Cons by (auto simp: bind_result_Inr_iff plain_secret_reveal_def split: if_splits)
  qed simp
  then show "processor_reveal plain_secret_reveal args (k, V) = Inr (k', V') \<Longrightarrow> V' = V"
    by (auto simp: processor_reveal_def split: if_splits)
qed

lemma step_frame:
  assumes "gc_step (plain_hooks c) i (k, V) = Inr out" "out = Next (k', V') \<or> out = Cleaning (k', V')" "instr_below ms mc mi i"
  shows "registers_kept mc mi k k' \<and> unchanged_from ms (fst V) (fst V')"
proof -
  consider args where "i = REVEAL args" | r0 r1 where "i = CONVCBIT r0 r1"
    | "\<forall>args. i \<noteq> REVEAL args" "\<forall>r0 r1. i \<noteq> CONVCBIT r0 r1" by blast
  then show ?thesis
  proof cases
    case 1
    then show ?thesis
      using assms reveal_kept [of args k V k' V' mc mi] reveal_store [of args k V k' V']
      by (auto simp: plain_hooks_def bind_result_Inr_iff split: if_splits)
  next
    case 2
    then show ?thesis using assms by (auto simp: plain_hooks_def bind_result_Inr_iff intro: set_I_kept)
  next
    case 3
    obtain l where l: "clear_instr i k = Inr l" "plain_store_instr i k V = Inr V'"
        "k' = l\<lparr>complexity := complexity l + instr_complexity i\<rparr>"
      using assms(1,2) by (auto simp: gc_step_linear [OF 3] plain_hooks_def bind_result_Inr_iff)
    have "unchanged_from ms (fst V) (fst V')"
      using l(2) assms(3) by (cases i) (auto intro: store_frame simp del: plain_store_instr.simps(1))
    then show ?thesis using clear_kept [OF l(1) assms(3)] l(3) by (simp add: registers_kept_def)
  qed
qed

lemma program_frame:
  assumes "exec_loop (plain_hooks c) p batch (k, V) = Some (Inr (fin, k', V'))" "\<forall>i \<in> set p. instr_below ms mc mi i"
  shows "registers_kept mc mi k k' \<and> unchanged_from ms (fst V) (fst V')"
proof -
  have "y = Inr (fin, k', V') \<Longrightarrow> registers_kept mc mi (fst ks) k' \<and> unchanged_from ms (fst (snd ks)) (fst V')"
    if "exec_loop (plain_hooks c) p batch ks = Some y" for ks y
    using that
  proof (induction rule: exec_loop_rule)
    case (loop loop ks y)
    let ?i = "p ! unat (pc (fst ks))" and ?k = "(fst ks)\<lparr>pc := pc (fst ks) + 1\<rparr>"
    show ?case
    proof (cases "word_of_nat (length p) \<le> pc (fst ks)")
      case True
      then show ?thesis using loop.hyps loop.prems by auto
    next
      case False
      then have "unat (pc (fst ks)) < length p"
        by (metis linorder_not_le unat_of_nat le_less_trans mod_less_eq_dividend word_less_nat_alt less_le_trans)
      then have below: "instr_below ms mc mi ?i" using assms(2) by simp
      have step: "registers_kept mc mi (fst ks) k1 \<and> unchanged_from ms (fst (snd ks)) (fst V1)"
        if "gc_step (plain_hooks c) ?i (?k, snd ks) = Inr out" "out = Next (k1, V1) \<or> out = Cleaning (k1, V1)" for out k1 V1
        using step_frame [OF that below] by (simp add: registers_kept_def)
      obtain out where out: "gc_step (plain_hooks c) ?i (?k, snd ks) = Inr out"
        using loop.hyps loop.prems False by (cases "gc_step (plain_hooks c) ?i (?k, snd ks)") auto
      show ?thesis
      proof (cases out)
        case (Next ks1)
        obtain k1 V1 where ks1: "ks1 = (k1, V1)" by (cases ks1)
        have 1: "registers_kept mc mi (fst ks) k1 \<and> unchanged_from ms (fst (snd ks)) (fst V1)"
          using step [OF out] Next ks1 by simp
        have "registers_kept mc mi k1 k' \<and> unchanged_from ms (fst V1) (fst V')"
          using loop.IH [of ks1 y] loop.hyps loop.prems out Next False ks1 by (auto split: if_splits)
        then show ?thesis using 1 kept_trans unchanged_trans by blast
      next
        case (Cleaning ks1)
        then show ?thesis using loop.hyps loop.prems out False step [OF out, of k' V'] by (cases ks1) auto
      next
        case Blocked
        then show ?thesis using loop.hyps loop.prems out False by auto
      qed
    qed
  qed
  from this [OF assms(1)] show ?thesis by simp
qed

end
