(* ===== verification/Loader_Frame.thy ===== *)
theory Loader_Frame
  imports Bytecode_Correct Register_Frame
begin

text \<open>
  The numbers of registers that the loader computes against the registers that the loaded program writes: a program of
  moderate numbers writes no register from the computed number on, unless it holds an exclusive or of clear registers
  of several words, whose words the loader does not count.
\<close>

section \<open>Maxima\<close>

lemma foldl_max_ge: "x \<in> insert a (set xs) \<Longrightarrow> x \<le> foldl max a xs" for x :: "'a :: linorder"
proof (induction xs arbitrary: a x)
  case (Cons y xs)
  then show ?case using Cons.IH [of "max a y" "max a y"] Cons.IH [of x "max a y"] by auto
qed simp

lemma foldl_max_less: "a < k \<Longrightarrow> \<forall>x \<in> set xs. x < k \<Longrightarrow> foldl max a xs < k" for k :: "'a :: linorder"
  by (induction xs arbitrary: a) auto

lemma num_reg_covers:
  assumes "num_reg p t = Inr m" "b \<in> set p"
  obtains k where "get_max_reg b t = Inr k" "unat k \<le> unat m"
proof -
  let ?step = "\<lambda>res b. bind_result (get_max_reg b t) (\<lambda>m. Inr (max res m))"
  have "res \<le> m \<and> (\<forall>b \<in> set p. \<exists>k. get_max_reg b t = Inr k \<and> k \<le> m)" if "fold_result ?step res p = Inr m" for res
    using that
  proof (induction p arbitrary: res)
    case (Cons b p)
    obtain k where "get_max_reg b t = Inr k" "fold_result ?step (max res k) p = Inr m"
      using Cons.prems by (auto simp: bind_result_Inr_iff)
    then show ?case using Cons.IH [of "max res k"] by auto
  qed simp
  then show thesis using that assms by (metis num_reg_def word_le_nat_alt)
qed

section \<open>Moderate numbers\<close>

abbreviation small32 :: "u32 \<Rightarrow> bool" where
  "small32 x \<equiv> unat x < 2 ^ 30"

lemma sint_small: "unat x < 2 ^ 31 \<Longrightarrow> sint (x :: u32) = int (unat x)"
proof -
  assume "unat x < 2 ^ 31"
  then have "int (unat x) < int (2 ^ 31)" by (simp only: of_nat_less_iff)
  then show ?thesis by (simp add: sint_u32)
qed

lemma sint_small64: "x < 2 ^ 63 \<Longrightarrow> sint (x :: u64) = int (unat x)"
proof -
  assume x: "x < 2 ^ 63"
  have "uint x < 2 ^ 63" using x by (simp add: word_less_def)
  then have "signed_take_bit 63 (uint x) = uint x"
    using uint_ge_0 [of x] by (intro signed_take_bit_int_eq_self) (auto intro: order.trans [OF _ uint_ge_0])
  then show ?thesis by (simp add: sint_uint)
qed

lemma div_ceil_int_small:
  assumes "n < 2 ^ 30"
  shows "unat (div_ceil_int (int n) 64) = div_ceil n 64"
proof -
  have "div_ceil n 64 < 2 ^ 32" using assms by (simp add: div_ceil_def)
  moreover have "(int n + 63) div 64 = int (div_ceil n 64)" by (simp add: div_ceil_def zdiv_int)
  then have "div_ceil_int (int n) 64 = word_of_nat (div_ceil n 64)" by (simp add: div_ceil_int_def add.commute)
  ultimately show ?thesis by (simp add: unat_of_nat)
qed

lemma div_ceil_below: "n < 2 ^ 30 \<Longrightarrow> div_ceil n 64 \<le> 2 ^ 24"
  by (simp add: div_ceil_def)

lemma unat_add_small: "unat x < 2 ^ 30 \<Longrightarrow> unat y \<le> 2 ^ 30 \<Longrightarrow> unat (x + y :: u32) = unat x + unat y"
  by (simp add: unat_word_ariths)

fun odd_groups :: "u32 list \<Rightarrow> bool" where
  "odd_groups (c # n # args) \<longleftrightarrow> odd (unat c) \<and> 3 \<le> unat c \<and> odd_groups (drop (unat c - 2) args)"
| "odd_groups _ \<longleftrightarrow> True"

definition moderate :: "base_instruction \<Rightarrow> bool" where
  "moderate b \<longleftrightarrow> list_all small32 (r_args b @ start_args b) \<and> 0 < unat (isize b) \<and> small32 (isize b) \<and>
    length (start_args b) < 2 ^ 30 \<and> (has_name b counting_names \<longrightarrow> unat (n_imm b) < 2 ^ 30) \<and>
    (has_name b [''ANDRSVEC''] \<longrightarrow> odd_groups (start_args b))"

definition counted_xor :: "base_instruction \<Rightarrow> bool" where
  "counted_xor b \<longleftrightarrow> (has_name b [''XORCB''] \<longrightarrow> unat (n_imm b) \<le> 64 * unat (isize b))"

section \<open>The ways of counting\<close>

lemma all_regs_covers:
  assumes "list_all small32 (r_args b @ start_args b)" "reg_walk b = (s, z, y, m)" "unat m \<le> 2 ^ 30"
    and "x \<in> set (r_args b) \<union> set (start_args b)"
  shows "unat x + unat m \<le> unat (all_regs b)"
proof -
  let ?top = "foldl max (foldl max 0 (start_args b)) (r_args b)"
  have "x \<le> ?top"
  proof (cases "x \<in> set (r_args b)")
    case True
    then show ?thesis by (intro foldl_max_ge) simp
  next
    case False
    then have "x \<le> foldl max 0 (start_args b)" using assms(4) by (intro foldl_max_ge) simp
    also have "\<dots> \<le> ?top" by (intro foldl_max_ge) simp
    finally show ?thesis .
  qed
  moreover have "?top < 2 ^ 30"
    by (intro foldl_max_less) (use assms(1) in \<open>auto simp: list_all_iff word_less_nat_alt\<close>)
  ultimately show ?thesis
    using assms(3) by (simp add: all_regs_def assms(2) word_le_nat_alt word_less_nat_alt unat_add_small)
qed

lemma strided_regs_covers:
  assumes small: "list_all small32 (start_args b)"
    and walk: "reg_walk b = (skip, offset, before, m)" "0 < before" "before \<le> offset" "bit (opcode b) 9"
    and i: "i < length (start_args b)" "offset \<le> i" "(i - offset) mod skip = 0"
  shows "unat (start_args b ! i) + div_ceil (unat (start_args b ! (i - before))) 64 \<le> unat (strided_regs b)"
proof -
  let ?args = "start_args b"
  let ?f = "\<lambda>i. ?args ! i + div_ceil_int (sint (?args ! (i - before))) 64"
  have arg: "small32 (?args ! j)" if "j < length ?args" for j using small that by (simp add: list_all_length)
  have "strided_regs b = foldl max 0 (map ?f (filter (\<lambda>i. offset \<le> i \<and> (i - offset) mod skip = 0) [0..<length ?args]))"
    unfolding strided_regs_def walk(1) Let_def prod.case foldl_map using walk(2,4) by simp
  then have "?f i \<le> strided_regs b" using i by (auto intro!: foldl_max_ge)
  moreover have "unat (?f i) = unat (?args ! i) + div_ceil (unat (?args ! (i - before))) 64"
  proof -
    have small: "small32 (?args ! i)" "small32 (?args ! (i - before))" using arg i(1) by auto
    then have "sint (?args ! (i - before)) = int (unat (?args ! (i - before)))" by (intro sint_small) simp
    then have "unat (div_ceil_int (sint (?args ! (i - before))) 64) = div_ceil (unat (?args ! (i - before))) 64"
      using div_ceil_int_small [OF small(2)] by simp
    then show ?thesis using small div_ceil_below [OF small(2)] by (simp add: unat_add_small)
  qed
  ultimately show ?thesis by (simp add: word_le_nat_alt)
qed


lemma prefixed_regs_covers:
  assumes "prefixed_regs args res = Inr k" "list_all small32 args" "odd_groups args" "unat res < 2 ^ 31"
  shows "groups_below (unat k) (map unat args) \<and> unat res \<le> unat k \<and>
    (2 \<le> length args \<longrightarrow> unat (args ! 1) + div_ceil (unat (args ! 1)) 64 \<le> unat k)"
  using assms
proof (induction args res rule: prefixed_regs.induct)
  case (3 c n args res)
  let ?k = "unat c - 1" and ?sz = "div_ceil_int (sint n) 64"
  let ?put = "\<lambda>res z. if res <s z + ?sz then z + ?sz else res"
  let ?next = "foldl ?put res (take ?k (n # args))"
  have small: "small32 c" "small32 n" "list_all small32 args" and odd: "odd (unat c)" "3 \<le> unat c"
    using "3.prems"(2,3) by auto
  have "sint c = int (unat c)" using small(1) by (intro sint_small) simp
  then have k: "nat (sint c - 1) = ?k" by (simp only: nat_minus_as_int of_nat_1)
  have "sint n = int (unat n)" using small(2) by (intro sint_small) simp
  then have sz: "unat ?sz = div_ceil (unat n) 64" using div_ceil_int_small [OF small(2)] by simp
  have put: "unat (z + ?sz) = unat z + div_ceil (unat n) 64" "unat z + div_ceil (unat n) 64 < 2 ^ 31" if "small32 z" for z
    using that sz div_ceil_below [OF small(2)] by (simp_all add: unat_add_small)
  have fold: "unat (foldl ?put r zs) < 2 ^ 31 \<and> unat r \<le> unat (foldl ?put r zs) \<and>
      (\<forall>z \<in> set zs. unat z + div_ceil (unat n) 64 \<le> unat (foldl ?put r zs))"
    if "list_all small32 zs" "unat r < 2 ^ 31" for r zs
    using that
  proof (induction zs arbitrary: r)
    case (Cons z zs)
    have "unat (?put r z) < 2 ^ 31" "unat r \<le> unat (?put r z)" "unat z + div_ceil (unat n) 64 \<le> unat (?put r z)"
      using Cons.prems put [of z] by (auto simp: sless_u32)
    then show ?case using Cons.IH [of "?put r z"] Cons.prems by (auto intro: order.trans)
  qed simp
  have args: "list_all small32 (take ?k (n # args))" "list_all small32 (drop ?k (n # args))"
  proof -
    have "\<forall>x \<in> set (n # args). small32 x" using small by (simp add: list_all_iff)
    then show "list_all small32 (take ?k (n # args))" "list_all small32 (drop ?k (n # args))"
      unfolding list_all_iff by (blast dest: in_set_takeD in_set_dropD)+
  qed
  have run: "prefixed_regs (drop ?k (n # args)) ?next = Inr k"
    using "3.prems"(1) k by (simp add: Let_def split: if_splits)
  have drop: "drop ?k (n # args) = drop (unat c - 2) args" using odd(2) by (simp add: drop_Cons' numeral_2_eq_2)
  have IH: "groups_below (unat k) (map unat (drop (unat c - 2) args))" "unat ?next \<le> unat k"
  proof -
    have len: "\<not> length (n # args) < ?k" using "3.prems"(1) k by (auto simp: Let_def)
    have groups: "odd_groups (drop ?k (n # args))" unfolding drop using "3.prems"(3) by simp
    have bound: "unat ?next < 2 ^ 31" using fold [OF args(1) "3.prems"(4)] by blast
    show "groups_below (unat k) (map unat (drop (unat c - 2) args))" "unat ?next \<le> unat k"
      using "3.IH" [OF refl refl, unfolded k, OF len run args(2) groups bound] unfolding drop by blast+
  qed
  have "unat z + div_ceil (unat n) 64 \<le> unat k" if "z \<in> set (take ((unat c - 3) div 2) args)" for z
  proof -
    have "(unat c - 3) div 2 \<le> ?k - 1" by simp
    then have "set (take ((unat c - 3) div 2) args) \<subseteq> set (take (?k - 1) args)" by (rule set_take_subset_set_take)
    then have "z \<in> set (take ?k (n # args))" using that odd(2) by (auto simp: take_Cons')
    then show ?thesis using fold [OF args(1) "3.prems"(4)] IH(2) by (meson le_trans)
  qed
  moreover have "2 * ((unat c - 3) div 2) + 1 = unat c - 2" using odd by presburger
  moreover have "unat n + div_ceil (unat n) 64 \<le> unat k"
  proof -
    have "n \<in> set (take ?k (n # args))" using odd(2) by (auto simp: take_Cons')
    then show ?thesis using fold [OF args(1) "3.prems"(4)] IH(2) by (meson le_trans)
  qed
  ultimately show ?case
    using IH fold [OF args(1) "3.prems"(4)] by (auto simp: take_map drop_map)
qed auto

lemma map_result_nth: "map_result f xs = Inr ys \<Longrightarrow> i < length xs \<Longrightarrow> f (xs ! i) = Inr (ys ! i)"
proof (induction xs arbitrary: ys i)
  case (Cons x xs)
  then show ?case by (cases i) (auto simp: bind_result_Inr_iff)
qed simp

lemma trans_regs_covers:
  assumes run: "trans_regs b = Inr k" and n: "unat (n_imm b) < 2 ^ 30"
    and args: "list_all small32 (start_args b)" "length (start_args b) < 2 ^ 30" and i: "i < unat (n_imm b)"
  shows "i < length (start_args b) \<and> unat (start_args b ! i) + div_ceil (length (start_args b) - unat (n_imm b)) 64 \<le> unat k"
proof -
  define m where "m = unat (n_imm b)"
  let ?n = m and ?args = "start_args b"
  let ?ins = "length ?args - ?n"
  define ceil64 :: "int \<Rightarrow> int" where "ceil64 = (\<lambda>x. (let y = x + 63 in if 0 \<le> y then y div 64 else - ((- y) div 64)))"
  have n: "?n < 2 ^ 30" and i: "i < ?n" using n i by (simp_all add: m_def)
  have "unat (ucast (n_imm b) :: u32) = ?n" using n unfolding m_def by (simp add: unsigned_ucast_eq take_bit_nat_eq_self)
  then have outputs: "sint (ucast (n_imm b) :: u32) = int ?n" using n by (subst sint_small) simp_all
  obtain outs ins where outs: "map_result (\<lambda>i. bind_result (vec_read ?args i) (\<lambda>a. Inr (sint a + ceil64 (int (length ?args) - int ?n)))) [0..<?n] = Inr outs"
      and ins: "map_result (\<lambda>j. bind_result (vec_read ?args ?n) (\<lambda>a. Inr (sint a + ceil64 (int ?n)))) [0..<nat (int (length ?args) - int ?n)] = Inr ins"
      and k: "k = word_of_int (foldl max 0 (outs @ ins))"
    using run by (auto simp: trans_regs_def outputs ceil64_def Let_def bind_result_Inr_iff)
  have arg: "sint (?args ! j) = int (unat (?args ! j)) \<and> unat (?args ! j) < 2 ^ 30" if "j < length ?args" for j
    using args(1) that by (intro conjI sint_small) (auto simp: list_all_length)
  have out: "outs ! j = int (unat (?args ! j)) + ceil64 (int (length ?args) - int ?n) \<and> j < length ?args" if "j < ?n" for j
    using map_result_nth [OF outs, of j] that arg [of j] by (auto simp: bind_result_Inr_iff vec_read_def split: if_splits)
  have len: "?n \<le> length ?args"
  proof (rule ccontr)
    assume "\<not> ?n \<le> length ?args"
    then show False using out [of "length ?args"] by simp
  qed
  have ceil: "ceil64 (int x) = int (div_ceil x 64)" for x by (simp add: ceil64_def div_ceil_def zdiv_int add.commute)
  have sum: "outs ! j = int (unat (?args ! j) + div_ceil ?ins 64)" if "j < ?n" for j
    using out [OF that] ceil [of ?ins] len by simp
  have "x < 2 ^ 32" if "x \<in> set outs" for x
  proof -
    obtain j where j: "j < ?n" "x = outs ! j" using \<open>x \<in> set outs\<close> map_result_length [OF outs] by (auto simp: in_set_conv_nth)
    have "unat (?args ! j) < 2 ^ 30" "div_ceil ?ins 64 \<le> 2 ^ 24"
      using arg out [OF j(1)] args(2) div_ceil_below [of ?ins] by simp_all
    then have "unat (?args ! j) + div_ceil ?ins 64 < 2 ^ 32" by simp
    then have "int (unat (?args ! j) + div_ceil ?ins 64) < int (2 ^ 32)" by (simp only: of_nat_less_iff)
    then show ?thesis using sum [OF j(1)] j(2) by simp
  qed
  moreover have "x < 2 ^ 32" if "x \<in> set ins" for x
  proof -
    obtain j where "j < length ins" "x = ins ! j" using \<open>x \<in> set ins\<close> by (auto simp: in_set_conv_nth)
    then have "x = int (unat (?args ! ?n)) + int (div_ceil ?n 64)" "?n < length ?args"
      using map_result_nth [OF ins, of j] map_result_length [OF ins] arg [of ?n] ceil
      by (auto simp: bind_result_Inr_iff vec_read_def split: if_splits)
    moreover have "unat (?args ! ?n) + div_ceil ?n 64 < 2 ^ 32"
      using arg [of ?n] div_ceil_below [OF n] calculation(2) by simp
    then have "int (unat (?args ! ?n) + div_ceil ?n 64) < int (2 ^ 32)" by (simp only: of_nat_less_iff)
    ultimately show ?thesis by simp
  qed
  ultimately have "foldl max 0 (outs @ ins) < 2 ^ 32" by (intro foldl_max_less) auto
  moreover have "0 \<le> foldl max 0 (outs @ ins)" by (intro foldl_max_ge) simp
  ultimately have "int (unat k) = foldl max 0 (outs @ ins)" by (simp add: k uint_word_of_int take_bit_int_eq_self)
  moreover have "outs ! i \<le> foldl max 0 (outs @ ins)"
    using i map_result_length [OF outs] by (intro foldl_max_ge) auto
  ultimately show ?thesis using sum [OF i] out [OF i] unfolding m_def [symmetric] by linarith
qed

section \<open>The instructions and their counts\<close>

text \<open>Instructions that write secret, clear and integer registers, by the way the loader counts them.\<close>

definition whole_names :: "string list" where
  "whole_names = [''MOVSB'', ''BITDECS'', ''BITCOMS'', ''LDBITS'', ''CONVSINT'', ''LDMSB'', ''LDMSBI'', ''XORCB'', ''XORCBI'',
    ''BITDECC'', ''ADDCB'', ''ADDCBI'', ''MULCBI'', ''SHRCBI'', ''SHLCBI'', ''CONVCINT'', ''LDMCB'', ''LDMCBI'', ''BITDECINT'',
    ''LDINT'', ''MOVINT'', ''ADDINT'', ''SUBINT'', ''MULINT'', ''DIVINT'', ''EQZC'', ''LTZC'', ''LTC'', ''GTC'', ''EQC'', ''LDMINT'',
    ''LDMINTI'', ''POPINT'', ''LDARG'', ''NPLAYERS'', ''THRESHOLD'', ''CONVCBIT'']"

definition sized_names :: "string list" where
  "sized_names = [''NOTS'', ''ANDM'', ''CONVCBIT2S'', ''NOTCB'']"

definition secret_writes :: "string list" where
  "secret_writes = [''MOVSB'', ''BITDECS'', ''BITCOMS'', ''LDBITS'', ''CONVSINT'', ''LDMSB'', ''LDMSBI'', ''NOTS'', ''ANDM'',
    ''CONVCBIT2S'', ''XORS'', ''ANDRS'', ''ANDS'', ''ANDRSVEC'']"

definition cbit_writes :: "string list" where
  "cbit_writes = [''XORCB'', ''XORCBI'', ''BITDECC'', ''ADDCB'', ''ADDCBI'', ''MULCBI'', ''SHRCBI'', ''SHLCBI'', ''CONVCINT'',
    ''LDMCB'', ''LDMCBI'', ''NOTCB'', ''REVEAL'']"

definition int_writes :: "string list" where
  "int_writes = [''BITDECINT'', ''LDINT'', ''MOVINT'', ''ADDINT'', ''SUBINT'', ''MULINT'', ''DIVINT'', ''EQZC'', ''LTZC'', ''LTC'',
    ''GTC'', ''EQC'', ''LDMINT'', ''LDMINTI'', ''POPINT'', ''LDARG'', ''NPLAYERS'', ''THRESHOLD'', ''CONVCBIT'']"

lemma secret_type: "op_name (opcode b) = Some name \<Longrightarrow> name \<in> set secret_writes \<Longrightarrow> get_reg_type b = SBIT_reg"
proof -
  have "list_all (\<lambda>p. if fst p \<in> set secret_writes then write_group (snd p) = 0x200 else True) (opcode_table @ gc_opcode_table)"
    unfolding opcode_table_def arithmetic_opcodes_def control_opcodes_def gc_opcode_table_def append.simps list.pred_inject snd_conv fst_conv secret_writes_def
    by (simp add: write_group_def)
  from opcodes_check [OF this, of "opcode b" name]
  show "op_name (opcode b) = Some name \<Longrightarrow> name \<in> set secret_writes \<Longrightarrow> get_reg_type b = SBIT_reg"
    by (simp add: get_reg_type_def reg_type_below_def)
qed

lemma cbit_type: "op_name (opcode b) = Some name \<Longrightarrow> name \<in> set cbit_writes \<Longrightarrow> get_reg_type b = CBIT_reg"
proof -
  have "list_all (\<lambda>p. if fst p \<in> set cbit_writes then write_group (snd p) = 0x210 else True) (opcode_table @ gc_opcode_table)"
    unfolding opcode_table_def arithmetic_opcodes_def control_opcodes_def gc_opcode_table_def append.simps list.pred_inject snd_conv fst_conv cbit_writes_def
    by (simp add: write_group_def)
  from opcodes_check [OF this, of "opcode b" name]
  show "op_name (opcode b) = Some name \<Longrightarrow> name \<in> set cbit_writes \<Longrightarrow> get_reg_type b = CBIT_reg"
    by (simp add: get_reg_type_def reg_type_below_def)
qed

lemma int_type: "op_name (opcode b) = Some name \<Longrightarrow> name \<in> set int_writes \<Longrightarrow> get_reg_type b = INT_reg"
proof -
  have "list_all (\<lambda>p. if fst p \<in> set int_writes then write_group (snd p) \<notin> {0x200, 0x210} \<and>
      (fst p \<in> set int_names \<or> fst p \<notin> set none_names \<and> fst p \<notin> set cint_names \<and> \<not> bit (snd p) 8 \<and> snd p div 16 = 9) else True)
      (opcode_table @ gc_opcode_table)"
    unfolding opcode_table_def arithmetic_opcodes_def control_opcodes_def gc_opcode_table_def append.simps list.pred_inject snd_conv fst_conv int_writes_def
    by (simp add: write_group_def int_names_def none_names_def cint_names_def bit_iff_odd)
  from opcodes_check [OF this, of "opcode b" name]
  show "op_name (opcode b) = Some name \<Longrightarrow> name \<in> set int_writes \<Longrightarrow> get_reg_type b = INT_reg"
    by (auto simp: get_reg_type_def reg_type_below_def has_name_def)
qed

lemma has_name_iff: "op_name (opcode b) = Some name \<Longrightarrow> has_name b names \<longleftrightarrow> name \<in> set names"
  by (simp add: has_name_def)

definition special_names :: "string list" where
  "special_names = [''DABIT'', ''INPUTMASKREG'', ''TRANS'', ''ANDRSVEC'', ''INPUTBVEC'', ''EDABIT'', ''SEDABIT'', ''OPEN'', ''LDMSD'',
    ''LDMSDI'', ''STMSD'', ''STMSDI'', ''ANDRS'', ''XORS'', ''ANDS'', ''INPUTB'', ''ANDM'', ''NOTS'', ''NOTCB'', ''CONVCBIT2S'',
    ''CONVCINTVEC'', ''CONVCBITVEC'', ''REVEAL'', ''SPLIT'', ''INPUTPERSONAL'', ''PRIVATEOUTPUT'', ''SENDPERSONAL'', ''READSOCKETS'',
    ''READSOCKETC'', ''READSOCKETINT'', ''WRITESOCKETSHARE'', ''WRITESOCKETC'', ''WRITESOCKETINT'']"

lemma plain_walk:
  assumes "op_name (opcode b) = Some name" "name \<notin> set special_names"
  shows "reg_walk b = (0, 0, 0, isize b)" "get_max_reg b (get_reg_type b) = Inr (all_regs b)"
proof -
  show walk: "reg_walk b = (0, 0, 0, isize b)"
    using assms(2) by (simp add: reg_walk_def has_name_iff [OF assms(1)] special_names_def)
  show "get_max_reg b (get_reg_type b) = Inr (all_regs b)"
    using assms(2) by (simp add: get_max_reg_def walk has_name_iff [OF assms(1)] special_names_def)
qed

lemma max_reg_by_walk:
  assumes "op_name (opcode b) = Some name"
    and "name \<notin> {''DABIT'', ''EDABIT'', ''SEDABIT'', ''INPUTMASKREG'', ''TRANS'', ''ANDRSVEC'', ''INPUTBVEC''}"
  shows "get_max_reg b (get_reg_type b) = (if 0 < fst (reg_walk b) then Inr (strided_regs b) else Inr (all_regs b))"
  using assms(2) by (simp add: get_max_reg_def has_name_iff [OF assms(1)])

lemma whole_special: "name \<in> set whole_names \<Longrightarrow> name \<notin> set special_names"
proof -
  have "list_all (\<lambda>name. name \<notin> set special_names) whole_names" by (simp add: whole_names_def special_names_def)
  then show "name \<in> set whole_names \<Longrightarrow> name \<notin> set special_names" by (simp add: list_all_iff)
qed

lemma strided_opcode:
  "op_name (opcode b) = Some name \<Longrightarrow> name \<in> {''XORS'', ''ANDRS'', ''ANDS'', ''REVEAL''} \<Longrightarrow> bit (opcode b) 9"
proof -
  have "list_all (\<lambda>p. if fst p \<in> {''XORS'', ''ANDRS'', ''ANDS'', ''REVEAL''} then bit (snd p) 9 else True) (opcode_table @ gc_opcode_table)"
    unfolding opcode_table_def arithmetic_opcodes_def control_opcodes_def gc_opcode_table_def append.simps list.pred_inject snd_conv fst_conv by (simp add: bit_iff_odd)
  from opcodes_check [OF this, of "opcode b" name]
  show "op_name (opcode b) = Some name \<Longrightarrow> name \<in> {''XORS'', ''ANDRS'', ''ANDS'', ''REVEAL''} \<Longrightarrow> bit (opcode b) 9"
    by simp
qed

text \<open>The registers of an instruction against the number for its type.\<close>

lemma whole_covers:
  assumes "op_name (opcode b) = Some name" "name \<in> set whole_names" "moderate b" "b \<in> set p"
    and "num_reg p (get_reg_type b) = Inr m" "x \<in> set (r_args b) \<union> set (start_args b)"
  shows "unat x + unat (isize b) \<le> unat m"
proof -
  have walk: "reg_walk b = (0, 0, 0, isize b)" "get_max_reg b (get_reg_type b) = Inr (all_regs b)"
    using plain_walk [OF assms(1)] whole_special [OF assms(2)] by auto
  have "unat x + unat (isize b) \<le> unat (all_regs b)"
    by (rule all_regs_covers [OF _ walk(1) _ assms(6)]) (use assms(3) in \<open>simp_all add: moderate_def\<close>)
  moreover have "unat (all_regs b) \<le> unat m" using num_reg_covers [OF assms(5,4)] walk(2) by (metis Inr_inject)
  ultimately show ?thesis by simp
qed

lemma sized_covers:
  assumes "op_name (opcode b) = Some name" "name \<in> set sized_names" "moderate b" "b \<in> set p"
    and "num_reg p (get_reg_type b) = Inr m" "x \<in> set (r_args b)"
  shows "unat x + div_ceil (unat (n_imm b)) 64 \<le> unat m"
proof -
  have n: "unat (n_imm b) < 2 ^ 30"
    using assms(1-3) by (auto simp: moderate_def has_name_iff sized_names_def counting_names_def)
  then have "sint (n_imm b) = int (unat (n_imm b))" by (intro sint_small64) (simp add: word_less_nat_alt)
  then have sz: "unat (div_ceil_int (sint (n_imm b)) 64) = div_ceil (unat (n_imm b)) 64" using div_ceil_int_small [OF n] by simp
  have walk: "reg_walk b = (0, 0, 0, div_ceil_int (sint (n_imm b)) 64)"
    using assms(2) by (auto simp: reg_walk_def has_name_iff [OF assms(1)] sized_names_def)
  have reg: "get_max_reg b (get_reg_type b) = Inr (all_regs b)"
    using assms(2) by (subst max_reg_by_walk [OF assms(1)]) (auto simp: walk sized_names_def)
  have "unat x + unat (div_ceil_int (sint (n_imm b)) 64) \<le> unat (all_regs b)"
    by (rule all_regs_covers [OF _ walk]) (use assms(3,6) sz div_ceil_below [OF n] in \<open>simp_all add: moderate_def\<close>)
  moreover have "unat (all_regs b) \<le> unat m" using num_reg_covers [OF assms(5,4)] reg by (metis Inr_inject)
  ultimately show ?thesis using sz by simp
qed

lemma quads_nth: "(n, out, x, y) \<in> set (quads args) \<Longrightarrow> \<exists>k. 4 * k + 1 < length args \<and> n = args ! (4 * k) \<and> out = args ! (4 * k + 1)"
proof (induction args rule: quads.induct)
  case (1 n' out' l r args)
  show ?case
  proof (cases "(n, out, x, y) \<in> set (quads args)")
    case True
    then obtain k where "4 * k + 1 < length args \<and> n = args ! (4 * k) \<and> out = args ! (4 * k + 1)" using 1 by blast
    then show ?thesis by (intro exI [of _ "Suc k"]) simp
  next
    case False
    then show ?thesis using 1 by (intro exI [of _ 0]) simp
  qed
qed simp_all

lemma triples_nth: "(n, out, x) \<in> set (triples args) \<Longrightarrow> \<exists>k. 3 * k + 1 < length args \<and> n = args ! (3 * k) \<and> out = args ! (3 * k + 1)"
proof (induction args rule: triples.induct)
  case (1 n' r0 r1 args)
  show ?case
  proof (cases "(n, out, x) \<in> set (triples args)")
    case True
    then obtain k where "3 * k + 1 < length args \<and> n = args ! (3 * k) \<and> out = args ! (3 * k + 1)" using 1 by blast
    then show ?thesis by (intro exI [of _ "Suc k"]) simp
  next
    case False
    then show ?thesis using 1 by (intro exI [of _ 0]) simp
  qed
qed simp_all

lemma strided_max:
  assumes "op_name (opcode b) = Some name" "name \<in> {''XORS'', ''ANDRS'', ''ANDS'', ''REVEAL''}" "0 < fst (reg_walk b)"
    and "b \<in> set p" "num_reg p (get_reg_type b) = Inr m"
  shows "unat (strided_regs b) \<le> unat m"
proof -
  have "get_max_reg b (get_reg_type b) = Inr (strided_regs b)"
    using assms(2,3) by (subst max_reg_by_walk [OF assms(1)]) auto
  then show ?thesis using num_reg_covers [OF assms(5,4)] by (metis Inr_inject)
qed

lemma quads_covered:
  assumes op: "op_name (opcode b) = Some name" "name \<in> {''XORS'', ''ANDRS'', ''ANDS''}"
    and b: "moderate b" "b \<in> set p" "num_reg p (get_reg_type b) = Inr m"
  shows "quads_below (unat m) (map unat (start_args b))"
proof -
  have walk: "reg_walk b = (4, 1, 1, isize b)" using op(2) by (auto simp: reg_walk_def has_name_iff [OF op(1)])
  have "unat (strided_regs b) \<le> unat m" using strided_max [OF op(1) _ _ b(2,3)] op(2) walk by auto
  moreover have "out + div_ceil n 64 \<le> unat (strided_regs b)" if mem: "(n, out, x, y) \<in> set (quads (map unat (start_args b)))" for n out x y
  proof -
    obtain k where k: "4 * k + 1 < length (start_args b)" "n = unat (start_args b ! (4 * k))" "out = unat (start_args b ! (4 * k + 1))"
      using quads_nth [OF mem] by auto
    then show ?thesis
      using strided_regs_covers [OF _ walk, of "4 * k + 1"] b(1) strided_opcode [OF op(1)] op(2) by (auto simp: moderate_def)
  qed
  ultimately show ?thesis by (fastforce simp: quads_below_def)
qed

lemma reveal_covered:
  assumes op: "op_name (opcode b) = Some ''REVEAL''" and b: "moderate b" "b \<in> set p" "num_reg p (get_reg_type b) = Inr m"
  shows "\<forall>(n, r0, r1) \<in> set (triples (map unat (start_args b))). r0 + div_ceil n 64 \<le> unat m"
proof -
  have walk: "reg_walk b = (3, 1, 1, div_ceil_int (sint (n_imm b)) 64)" by (simp add: reg_walk_def has_name_iff [OF op])
  have "unat (strided_regs b) \<le> unat m" using strided_max [OF op _ _ b(2,3)] walk by auto
  moreover have "out + div_ceil n 64 \<le> unat (strided_regs b)" if mem: "(n, out, x) \<in> set (triples (map unat (start_args b)))" for n out x
  proof -
    obtain k where k: "3 * k + 1 < length (start_args b)" "n = unat (start_args b ! (3 * k))" "out = unat (start_args b ! (3 * k + 1))"
      using triples_nth [OF mem] by auto
    then show ?thesis
      using strided_regs_covers [OF _ walk, of "3 * k + 1"] b(1) strided_opcode [OF op] by (auto simp: moderate_def)
  qed
  ultimately show ?thesis by (fastforce)
qed

lemma groups_covered:
  assumes op: "op_name (opcode b) = Some ''ANDRSVEC''" and b: "moderate b" "b \<in> set p" "num_reg p (get_reg_type b) = Inr m"
  shows "groups_below (unat m) (map unat (start_args b))"
proof -
  have "get_max_reg b (get_reg_type b) = prefixed_regs (start_args b) 0" by (simp add: get_max_reg_def has_name_iff [OF op])
  then obtain k where k: "prefixed_regs (start_args b) 0 = Inr k" "unat k \<le> unat m" using num_reg_covers [OF b(3,2)] by metis
  then have "groups_below (unat k) (map unat (start_args b))"
    using prefixed_regs_covers [OF k(1)] b(1) by (simp add: moderate_def has_name_iff [OF op])
  moreover have "groups_below j args \<Longrightarrow> j \<le> l \<Longrightarrow> groups_below l args" for j l args
    by (induction j args rule: groups_below.induct) (auto intro: le_trans)
  ultimately show ?thesis using k(2) by blast
qed

lemma trans_covered:
  assumes op: "op_name (opcode b) = Some ''TRANS''" and b: "moderate b" "b \<in> set p" "num_reg p SBIT_reg = Inr m"
  shows "\<forall>i < unat (n_imm b). map unat (start_args b) ! i + div_ceil (length (map unat (start_args b)) - unat (n_imm b)) 64 \<le> unat m"
proof (intro allI impI)
  fix i assume i: "i < unat (n_imm b)"
  have "get_max_reg b SBIT_reg = trans_regs b" by (simp add: get_max_reg_def has_name_iff [OF op])
  then obtain k where k: "trans_regs b = Inr k" "unat k \<le> unat m" using num_reg_covers [OF b(3,2)] by metis
  show "map unat (start_args b) ! i + div_ceil (length (map unat (start_args b)) - unat (n_imm b)) 64 \<le> unat m"
    using trans_regs_covers [OF k(1) _ _ _ i] k(2) b(1) by (simp add: moderate_def has_name_iff [OF op] counting_names_def)
qed

section \<open>Loaded programs\<close>

lemma decodeE:
  assumes "decode b = Some i"
  obtains name f r0 r1 r2 r3 where "op_name (opcode b) = Some name" "(name, f) \<in> set decode_table" "r_args b = [r0, r1, r2, r3]"
    "i = f [unat r0, unat r1, unat r2, unat r3] (n_imm b) (map unat (start_args b)) (unat (isize b))"
proof -
  obtain name f where "op_name (opcode b) = Some name" "map_of decode_table name = Some f"
      "i = f (map unat (r_args b)) (n_imm b) (map unat (start_args b)) (unat (isize b))" and "length (r_args b) = 4"
    using assms by (auto simp: decode_def numbers_ok_def split: option.splits if_splits)
  moreover from this obtain r0 r1 r2 r3 where "r_args b = [r0, r1, r2, r3]"
    by (auto simp: eval_nat_numeral length_Suc_conv)
  ultimately show thesis using that [OF _ map_of_SomeD] by simp
qed

lemma decode_below:
  assumes dec: "decode b = Some i" and b: "b \<in> set p" "moderate b" "counted_xor b"
    and nums: "num_reg p SBIT_reg = Inr ms" "num_reg p CBIT_reg = Inr mc" "num_reg p INT_reg = Inr mi"
  shows "instr_below (unat ms) (unat mc) (unat mi) i"
proof -
  obtain name f r0 r1 r2 r3 where op: "op_name (opcode b) = Some name" and f: "(name, f) \<in> set decode_table"
      and r: "r_args b = [r0, r1, r2, r3]"
      and i: "i = f [unat r0, unat r1, unat r2, unat r3] (n_imm b) (map unat (start_args b)) (unat (isize b))"
    by (rule decodeE [OF dec])
  have size: "0 < unat (isize b)" using b(2) by (simp add: moderate_def)
  have whole: "unat x + unat (isize b) \<le> unat m"
    if "name \<in> set whole_names" "num_reg p (get_reg_type b) = Inr m" "x \<in> set (r_args b) \<union> set (start_args b)" for x m
    by (rule whole_covers [OF op _ b(2,1)]) (use that in auto)
  have S: "unat r0 + unat (isize b) \<le> unat ms \<and> (\<forall>x \<in> set (start_args b). unat x < unat ms)"
    if "name \<in> set whole_names" "name \<in> set secret_writes"
    using whole [OF that(1)] secret_type [OF op that(2)] nums r size by fastforce
  have C: "unat r0 + unat (isize b) \<le> unat mc \<and> (\<forall>x \<in> set (start_args b). unat x < unat mc)"
    if "name \<in> set whole_names" "name \<in> set cbit_writes"
    using whole [OF that(1)] cbit_type [OF op that(2)] nums r size by fastforce
  have I: "unat r0 < unat mi \<and> (\<forall>x \<in> set (start_args b). unat x < unat mi)"
    if "name \<in> set whole_names" "name \<in> set int_writes"
    using whole [OF that(1)] int_type [OF op that(2)] nums r size by fastforce
  have sized_S: "unat r0 + div_ceil (unat (n_imm b)) 64 \<le> unat ms" if "name \<in> set sized_names" "name \<in> set secret_writes"
    using sized_covers [OF op that(1) b(2,1)] secret_type [OF op that(2)] nums r by simp
  have sized_C: "unat r0 + div_ceil (unat (n_imm b)) 64 \<le> unat mc" if "name \<in> set sized_names" "name \<in> set cbit_writes"
    using sized_covers [OF op that(1) b(2,1)] cbit_type [OF op that(2)] nums r by simp
  have xor: "unat r0 + div_ceil (unat (n_imm b)) 64 \<le> unat mc" if "name = ''XORCB''"
  proof -
    have "div_ceil (unat (n_imm b)) 64 \<le> unat (isize b)"
      using b(3) op that by (simp add: counted_xor_def has_name_iff div_ceil_def)
    then show ?thesis using C that by (simp add: whole_names_def cbit_writes_def)
  qed
  have quads: "quads_below (unat ms) (map unat (start_args b))" if "name \<in> {''XORS'', ''ANDRS'', ''ANDS''}"
  proof -
    have "name \<in> set secret_writes" using that by (auto simp: secret_writes_def)
    then show ?thesis using quads_covered [OF op that b(2,1), of ms] secret_type [OF op] nums(1) by simp
  qed
  have groups: "groups_below (unat ms) (map unat (start_args b))" if "name = ''ANDRSVEC''"
  proof -
    have "name \<in> set secret_writes" using that by (simp add: secret_writes_def)
    then show ?thesis using groups_covered [OF _ b(2,1), of ms] op that secret_type [OF op] nums(1) by simp
  qed
  have trans: "\<forall>i < unat (n_imm b). map unat (start_args b) ! i + div_ceil (length (map unat (start_args b)) - unat (n_imm b)) 64 \<le> unat ms"
    if "name = ''TRANS''"
    by (rule trans_covered [OF _ b(2,1) nums(1)]) (use op that in simp)
  have reveal: "\<forall>(n, r0, r1) \<in> set (triples (map unat (start_args b))). r0 + div_ceil n 64 \<le> unat mc" if "name = ''REVEAL''"
  proof -
    have "name \<in> set cbit_writes" using that by (simp add: cbit_writes_def)
    then show ?thesis using reveal_covered [OF _ b(2,1), of mc] op that cbit_type [OF op] nums(2) by simp
  qed
  let ?writes = "set whole_names \<union> set sized_names \<union> {''XORS'', ''ANDRS'', ''ANDS'', ''ANDRSVEC'', ''TRANS'', ''REVEAL''}"
  have other: ?thesis if "name \<notin> set whole_names"
  proof -
    consider "name = ''XORS''" | "name = ''ANDRS''" | "name = ''ANDS''" | "name = ''ANDRSVEC''" | "name = ''TRANS''"
      | "name = ''REVEAL''" | "name = ''NOTS''" | "name = ''ANDM''" | "name = ''CONVCBIT2S''" | "name = ''NOTCB''" | "name \<notin> ?writes"
      using \<open>name \<notin> set whole_names\<close> unfolding sized_names_def by auto
    then show ?thesis
    proof cases
      case 1
      then show ?thesis using f quads by (simp add: decode_table_def i)
    next
      case 2
      then show ?thesis using f quads by (simp add: decode_table_def i)
    next
      case 3
      then show ?thesis using f quads by (simp add: decode_table_def i)
    next
      case 4
      then show ?thesis using f groups by (simp add: decode_table_def i)
    next
      case 5
      then show ?thesis using f trans by (simp add: decode_table_def i)
    next
      case 6
      then show ?thesis using f reveal by (simp add: decode_table_def i)
    next
      case 7
      then show ?thesis using f sized_S by (simp add: decode_table_def i sized_names_def secret_writes_def)
    next
      case 8
      then show ?thesis using f sized_S by (simp add: decode_table_def i sized_names_def secret_writes_def)
    next
      case 9
      then show ?thesis using f sized_S by (simp add: decode_table_def i sized_names_def secret_writes_def)
    next
      case 10
      then show ?thesis using f sized_C by (simp add: decode_table_def i sized_names_def cbit_writes_def)
    next
      case 11
      have "list_all (\<lambda>p. if fst p \<in> ?writes then True else instr_below (unat ms) (unat mc) (unat mi)
          (snd p [unat r0, unat r1, unat r2, unat r3] (n_imm b) (map unat (start_args b)) (unat (isize b)))) decode_table"
        by (simp add: decode_table_def whole_names_def sized_names_def)
      from bspec [OF this [unfolded list_all_iff] f] show ?thesis
        unfolding fst_conv snd_conv i [symmetric] by (simp only: 11 if_False)
    qed
  qed
  have kinds: "name \<in> set whole_names \<and> name \<in> set secret_writes \<Longrightarrow> ?thesis"
    "name \<in> set whole_names \<and> name \<in> set cbit_writes \<Longrightarrow> ?thesis"
    "name \<in> set whole_names \<and> name \<in> set int_writes \<Longrightarrow> ?thesis"
    "name \<notin> set whole_names \<Longrightarrow> ?thesis"
    subgoal using f S size by (auto simp: decode_table_def i whole_names_def secret_writes_def)
    subgoal using f C xor size by (auto simp: decode_table_def i whole_names_def cbit_writes_def)
    subgoal using f I size by (auto simp: decode_table_def i whole_names_def int_writes_def)
    subgoal by (rule other)
    done
  have "list_all (\<lambda>name. name \<in> set secret_writes \<or> name \<in> set cbit_writes \<or> name \<in> set int_writes) whole_names"
    by (simp add: whole_names_def secret_writes_def cbit_writes_def int_writes_def)
  then show ?thesis using kinds by (auto simp: list_all_iff)
qed


definition frame_code :: "base_instruction list" where
  "frame_code =
    [\<lparr>opcode = 0x9a, isize = 1, r_args = [1, 0, 0, 0], n_imm = 7, start_args = []\<rparr>,
     \<lparr>opcode = 0x20a, isize = 1, r_args = [2, 3, 0, 0], n_imm = 5, start_args = []\<rparr>,
     \<lparr>opcode = 0x219, isize = 1, r_args = [0, 1, 1, 0], n_imm = 64, start_args = []\<rparr>]"

definition frame_instrs :: "instr list" where
  "frame_instrs = [REGINT (LDINT 1 7), SECRET (LDBITS 2 3 5), CBIT (XORCB 64 0 1 1)]"

definition frame_control :: "u32 \<Rightarrow> nat \<Rightarrow> u64 \<Rightarrow> u64 \<Rightarrow> control" where
  "frame_control n m x y = \<lparr>pc = n, complexity = m, C_regs = [x, 4, 9], I_regs = [0, y, 8],
    MC_mem = [], MI_mem = [], stacki = [], tape_arg = 0, printed = []\<rparr>"

lemma frame_run:
  "exec_loop (plain_hooks True) frame_instrs 100 (frame_control 0 0 1 1, [[], [], [], [], [True]], []) =
    Some (Inr (Returned DONE_BREAK, frame_control 3 0 0 7, [[], [], [True, False, True], [], [True]], []))"
  by code_simp

lemma plain_max_reg:
  assumes "op_name (opcode b) = Some name" "name \<notin> set special_names" "get_reg_type b = t'"
  shows "get_max_reg b t = Inr (if t = t' then foldl max (foldl max 0 (start_args b)) (r_args b) + isize b else 0)"
proof (cases "t = t'")
  case True
  then show ?thesis using plain_walk [OF assms(1,2)] assms(3) by (simp add: all_regs_def)
next
  case False
  then show ?thesis using assms by (simp add: get_max_reg_def has_name_iff [OF assms(1)] special_names_def)
qed

lemma frame_code_max:
  "get_max_reg \<lparr>opcode = 0x9a, isize = 1, r_args = [1, 0, 0, 0], n_imm = 7, start_args = []\<rparr> t = Inr (if t = INT_reg then 2 else 0)"
  "get_max_reg \<lparr>opcode = 0x20a, isize = 1, r_args = [2, 3, 0, 0], n_imm = 5, start_args = []\<rparr> t = Inr (if t = SBIT_reg then 4 else 0)"
  "get_max_reg \<lparr>opcode = 0x219, isize = 1, r_args = [0, 1, 1, 0], n_imm = 64, start_args = []\<rparr> t = Inr (if t = CBIT_reg then 2 else 0)"
  subgoal by (subst plain_max_reg [where name = "''LDINT''" and t' = INT_reg])
    (simp_all add: op_names special_names_def max_def int_type [where name = "''LDINT''"] int_writes_def)
  subgoal by (subst plain_max_reg [where name = "''LDBITS''" and t' = SBIT_reg])
    (simp_all add: op_names special_names_def max_def secret_type [where name = "''LDBITS''"] secret_writes_def)
  subgoal by (subst plain_max_reg [where name = "''XORCB''" and t' = CBIT_reg])
    (simp_all add: op_names special_names_def max_def cbit_type [where name = "''XORCB''"] cbit_writes_def)
  done

lemma frame_code_ok:
  "decode_program frame_code = Some frame_instrs"
  "list_all (\<lambda>b. moderate b \<and> counted_xor b) frame_code"
  "num_reg frame_code SBIT_reg = Inr 4" "num_reg frame_code CBIT_reg = Inr 2" "num_reg frame_code INT_reg = Inr 2"
  subgoal by (simp add: frame_code_def frame_instrs_def decode_program_def decode_def numbers_ok_def has_name_def counting_names_def
      op_names decode_table_def map_of_Cons_code word_sle_eq del: map_of.simps)
  subgoal by (simp add: frame_code_def moderate_def counted_xor_def has_name_def counting_names_def op_names)
  subgoal by (simp add: frame_code_def num_reg_def frame_code_max max_def)
  subgoal by (simp add: frame_code_def num_reg_def frame_code_max max_def)
  subgoal by (simp add: frame_code_def num_reg_def frame_code_max max_def)
  done


section \<open>What the loader miscounts\<close>

lemma fold_fails:
  assumes "\<And>k x k'. P k \<Longrightarrow> x \<in> set xs \<Longrightarrow> f k x = Inr k' \<Longrightarrow> P k'" "\<And>k x e'. P k \<Longrightarrow> x \<in> set xs \<Longrightarrow> f k x = Inl e' \<Longrightarrow> e' = e"
    and "y \<in> set xs" "\<And>k k'. P k \<Longrightarrow> f k y \<noteq> Inr k'" "P k"
  shows "fold_result f k xs = Inl e"
  using assms
proof (induction xs arbitrary: k)
  case (Cons x xs)
  show ?case
  proof (cases "f k x")
    case (Inl e')
    then show ?thesis using Cons.prems(2) [OF Cons.prems(5) _ Inl] by simp
  next
    case (Inr l)
    have "P l" using Cons.prems(1) [OF Cons.prems(5) _ Inr] by simp
    moreover have "y \<noteq> x" using Cons.prems(4) [OF Cons.prems(5)] Inr by auto
    then have "y \<in> set xs" using Cons.prems(3) by simp
    moreover have "P k' \<Longrightarrow> z \<in> set xs \<Longrightarrow> f k' z = Inr k'' \<Longrightarrow> P k''" for k' z k''
      using Cons.prems(1) [of k' z k''] by simp
    moreover have "P k' \<Longrightarrow> z \<in> set xs \<Longrightarrow> f k' z = Inl e' \<Longrightarrow> e' = e" for k' z e'
      using Cons.prems(2) [of k' z e'] by simp
    ultimately have "fold_result f l xs = Inl e" using Cons.IH [OF _ _ _ Cons.prems(4)] by blast
    then show ?thesis using Inr by simp
  qed
qed simp

lemma bind_result_Inl_iff: "bind_result x f = Inl e \<longleftrightarrow> x = Inl e \<or> (\<exists>y. x = Inr y \<and> f y = Inl e)"
  by (cases x) auto

lemma xorc_beyond:
  assumes "length (C_regs k) \<le> r1 + i" "i < div_ceil n 64"
  shows "xorc n r0 r1 r2 k = Inl undefined_access"
proof -
  let ?f = "\<lambda>k i. let n = min 64 (n - i * 64) in
      bind_result (vec_read (C_regs k) (r1 + i)) (\<lambda>a. bind_result (vec_read (C_regs k) (r2 + i)) (\<lambda>b.
      set_C (r0 + i) (mask_bits n a XOR mask_bits n b) k))"
  have keeps: "length (C_regs k') = length (C_regs k)" if "?f k j = Inr k'" for k j k'
    using that by (auto simp: Let_def bind_result_Inr_iff vec_write_def set_C_def split: if_splits)
  have fails: "e = undefined_access" if "?f k j = Inl e" for k j e
    using that by (auto simp: Let_def bind_result_Inl_iff vec_read_def vec_write_def set_C_def split: if_splits)
  have stuck: "?f k i \<noteq> Inr k'" if "length (C_regs k) \<le> r1 + i" for k k'
    using that by (simp add: Let_def vec_read_def)
  show ?thesis
    unfolding xorc_def default_length_def
    by (rule fold_fails [where P = "\<lambda>k. length (C_regs k) \<le> r1 + i" and y = i])
      (use assms keeps fails stuck in \<open>simp_all only: set_upt atLeastLessThan_iff le0 simp_thms\<close>)
qed



text \<open>
  The loader takes a number of bits for a register.  The flag \<^verbatim>\<open>n_prefix\<close> of \<^verbatim>\<open>get_max_reg\<close> holds one bit, so a vectorised
  AND of \<open>n\<close> bits makes it ask for at least \<open>n\<close> secret registers, whatever registers the instruction names.
\<close>

theorem vector_length_counted:
  assumes "op_name (opcode b) = Some ''ANDRSVEC''" "start_args b = c # n # args" "moderate b" "b \<in> set p"
    and "num_reg p SBIT_reg = Inr m"
  shows "unat n + div_ceil (unat n) 64 \<le> unat m"
proof -
  have "get_reg_type b = SBIT_reg" by (rule secret_type [OF assms(1)]) (simp add: secret_writes_def)
  then have "get_max_reg b SBIT_reg = prefixed_regs (start_args b) 0" by (simp add: get_max_reg_def has_name_iff [OF assms(1)])
  then obtain k where k: "prefixed_regs (start_args b) 0 = Inr k" "unat k \<le> unat m" using num_reg_covers [OF assms(5,4)] by metis
  then show ?thesis
    using prefixed_regs_covers [OF k(1)] assms(2,3) by (simp add: moderate_def has_name_iff [OF assms(1)])
qed

lemma vector_length_counted_witness:
  "\<exists>m. num_reg [\<lparr>opcode = 0x24a, isize = 1, r_args = [0, 0, 0, 0], n_imm = 0, start_args = [5, 1000, 1, 20, 40]\<rparr>] SBIT_reg = Inr m \<and>
    1000 + div_ceil 1000 64 \<le> unat m"
proof -
  let ?b = "\<lparr>opcode = 0x24a, isize = 1, r_args = [0, 0, 0, 0], n_imm = 0, start_args = [5, 1000, 1, 20, 40]\<rparr>"
  have op: "op_name (opcode ?b) = Some ''ANDRSVEC''" by (simp add: op_names)
  have "get_reg_type ?b = SBIT_reg" by (rule secret_type [OF op]) (simp add: secret_writes_def)
  then have "num_reg [?b] SBIT_reg = Inr 1016"
    by (simp add: num_reg_def get_max_reg_def has_name_iff [OF op] div_ceil_int_def sint_u32 sless_u32 Let_def max_def
        del: base_instruction.simps(1)) 
  moreover have "moderate ?b" by (simp add: moderate_def has_name_def op_names counting_names_def)
  ultimately show ?thesis using vector_length_counted [OF op, of 5 1000 "[1, 20, 40]" "[?b]" 1016] by simp
qed

end
